(* ===== verification/Pystring.thy ===== *)
theory Pystring
  imports Prelude
begin

text \<open>
  Python strings as lists of characters with code points below 256: white space, case,
  \<open>split\<close>, \<open>join\<close>, \<open>strip\<close>, decimal printing (\<open>str\<close> of an integer) and reading
  (\<open>int\<close> of a string, with surrounding white space, a sign and single underscores
  between digits).  The round trips at the end are what the readers and printers of the
  program rest on.
\<close>

named_theorems string_simps \<open>rewriting of string operations\<close>

definition char_code :: "char \<Rightarrow> nat" where
  "char_code c = of_char c"

definition is_space :: "char \<Rightarrow> bool" where
  "is_space c = (let n = char_code c in
     9 \<le> n \<and> n \<le> 13 \<or> 28 \<le> n \<and> n \<le> 32 \<or> n = 133 \<or> n = 160)"

definition is_digit :: "char \<Rightarrow> bool" where
  "is_digit c = (48 \<le> char_code c \<and> char_code c \<le> 57)"

definition is_upper :: "char \<Rightarrow> bool" where
  "is_upper c = (let n = char_code c in 65 \<le> n \<and> n \<le> 90 \<or> 192 \<le> n \<and> n \<le> 222 \<and> n \<noteq> 215)"

definition is_lower :: "char \<Rightarrow> bool" where
  "is_lower c = (let n = char_code c in 97 \<le> n \<and> n \<le> 122 \<or> 224 \<le> n \<and> n \<le> 254 \<and> n \<noteq> 247)"

definition lower_char :: "char \<Rightarrow> char" where
  "lower_char c = (if is_upper c then char_of (char_code c + 32) else c)"

definition upper_char :: "char \<Rightarrow> char" where
  "upper_char c = (if is_lower c then char_of (char_code c - 32) else c)"

definition lower :: "string \<Rightarrow> string" where
  "lower s = map lower_char s"

definition upper :: "string \<Rightarrow> string" where
  "upper s = map upper_char s"

text \<open>\<open>str.isupper\<close>: some cased character, and no lower-case one.\<close>

definition isupper :: "string \<Rightarrow> bool" where
  "isupper s = (list_ex is_upper s \<and> \<not> list_ex is_lower s)"

definition digit_char :: "nat \<Rightarrow> char" where
  "digit_char d = ''0123456789'' ! d"

definition digit_value :: "char \<Rightarrow> nat" where
  "digit_value c = char_code c - 48"

fun nat_str :: "nat \<Rightarrow> string" where
  "nat_str n = (if n < 10 then [digit_char n] else nat_str (n div 10) @ [digit_char (n mod 10)])"

declare nat_str.simps [simp del]

definition int_str :: "int \<Rightarrow> string" where
  "int_str i = (if i < 0 then CHR ''-'' # nat_str (nat (- i)) else nat_str (nat i))"

definition lstrip :: "string \<Rightarrow> string" where
  "lstrip s = dropWhile is_space s"

definition strip :: "string \<Rightarrow> string" where
  "strip s = rev (dropWhile is_space (rev (dropWhile is_space s)))"

text \<open>
  The digits of \<open>int(text)\<close>: at least one, with single underscores between digits.  The flag
  says whether the character before was a digit.
\<close>

fun read_digits :: "bool \<Rightarrow> nat \<Rightarrow> string \<Rightarrow> nat option" where
  "read_digits prev acc [] = (if prev then Some acc else None)"
| "read_digits prev acc (c # cs) =
     (if is_digit c then read_digits True (10 * acc + digit_value c) cs
      else if c = CHR ''_'' \<and> prev then read_digits False acc cs
      else None)"

fun read_signed :: "string \<Rightarrow> int option" where
  "read_signed [] = None"
| "read_signed (c # cs) =
     (if c = CHR ''-'' then map_option (\<lambda>n. - int n) (read_digits False 0 cs)
      else if c = CHR ''+'' then map_option int (read_digits False 0 cs)
      else map_option int (read_digits False 0 (c # cs)))"

definition py_int :: "string \<Rightarrow> int option" where
  "py_int s = read_signed (strip s)"

text \<open>The regular expression \<open>\d+\<close> matched against a whole text.\<close>

definition all_digits :: "string \<Rightarrow> bool" where
  "all_digits s = (s \<noteq> [] \<and> list_all is_digit s)"

fun split_words :: "string \<Rightarrow> string \<Rightarrow> string list" where
  "split_words w [] = (if w = [] then [] else [w])"
| "split_words w (c # cs) =
     (if is_space c then (if w = [] then split_words [] cs else w # split_words [] cs)
      else split_words (w @ [c]) cs)"

definition split_ws :: "string \<Rightarrow> string list" where
  "split_ws s = split_words [] s"

fun split_char :: "char \<Rightarrow> string \<Rightarrow> string \<Rightarrow> string list" where
  "split_char d w [] = [w]"
| "split_char d w (c # cs) = (if c = d then w # split_char d [] cs else split_char d (w @ [c]) cs)"

definition split_on :: "char \<Rightarrow> string \<Rightarrow> string list" where
  "split_on d s = split_char d [] s"

fun join :: "string \<Rightarrow> string list \<Rightarrow> string" where
  "join sep [] = []"
| "join sep [x] = x"
| "join sep (x # y # xs) = x @ sep @ join sep (y # xs)"

definition starts_with :: "string \<Rightarrow> string \<Rightarrow> bool" where
  "starts_with s p = (take (length p) s = p)"

text \<open>The test \<open>p in s\<close> on strings: \<open>p\<close> occurs in \<open>s\<close> as a contiguous part.\<close>

definition contains :: "string \<Rightarrow> string \<Rightarrow> bool" where
  "contains p s = list_ex (\<lambda>i. take (length p) (drop i s) = p) [0..<Suc (length s)]"

subsection \<open>Digits\<close>

lemma digit_cases:
  "d < (10::nat) \<Longrightarrow> d = 0 \<or> d = 1 \<or> d = 2 \<or> d = 3 \<or> d = 4 \<or> d = 5 \<or> d = 6 \<or> d = 7 \<or> d = 8 \<or> d = 9"
  by arith

lemma is_digit_digit_char [simp]: "d < 10 \<Longrightarrow> is_digit (digit_char d)"
  by (drule digit_cases) (auto simp: is_digit_def digit_char_def char_code_def)

lemma digit_value_digit_char [simp]: "d < 10 \<Longrightarrow> digit_value (digit_char d) = d"
  by (drule digit_cases) (auto simp: digit_value_def digit_char_def char_code_def)

lemma is_digit_not_space: "is_digit c \<Longrightarrow> \<not> is_space c"
  by (auto simp: is_digit_def is_space_def Let_def)

lemma is_digit_not_sign: "is_digit c \<Longrightarrow> c \<noteq> CHR ''-'' \<and> c \<noteq> CHR ''+'' \<and> c \<noteq> CHR ''/''"
  by (auto simp: is_digit_def char_code_def)

lemma nat_str_digits: "c \<in> set (nat_str n) \<Longrightarrow> is_digit c"
proof (induction n arbitrary: c rule: nat_str.induct)
  case (1 n)
  show ?case
  proof (cases "n < 10")
    case True
    with "1.prems" show ?thesis by (auto simp: nat_str.simps [of n])
  next
    case False
    with "1.prems" consider "c \<in> set (nat_str (n div 10))" | "c = digit_char (n mod 10)"
      by (auto simp: nat_str.simps [of n])
    then show ?thesis using "1.IH" [OF False] by cases auto
  qed
qed

lemma nat_str_nonempty [simp]: "nat_str n \<noteq> []"
  by (subst nat_str.simps) simp

lemma nat_str_small: "n < 10 \<Longrightarrow> nat_str n = [digit_char n]"
  by (subst nat_str.simps) simp

lemma all_digits_nat_str [simp]: "all_digits (nat_str n)"
  by (auto simp: all_digits_def list_all_iff nat_str_digits)

lemma nat_str_no_space: "\<forall>c \<in> set (nat_str n). \<not> is_space c"
  using nat_str_digits is_digit_not_space by blast

lemma read_digits_append:
  "list_all is_digit xs \<Longrightarrow> xs \<noteq> [] \<Longrightarrow>
   read_digits p acc (xs @ ys) = read_digits True (foldl (\<lambda>a c. 10 * a + digit_value c) acc xs) ys"
proof (induction xs arbitrary: p acc)
  case Nil
  then show ?case by simp
next
  case (Cons x xs)
  then show ?case by (cases "xs = []") auto
qed

lemma foldl_nat_str: "foldl (\<lambda>a c. 10 * a + digit_value c) 0 (nat_str n) = n"
proof (induction n rule: nat_str.induct)
  case (1 n)
  show ?case
  proof (cases "n < 10")
    case True
    then show ?thesis by (simp add: nat_str.simps [of n])
  next
    case False
    with "1.IH" show ?thesis by (simp add: nat_str.simps [of n])
  qed
qed

lemma read_digits_nat_str [simp]: "read_digits False 0 (nat_str n) = Some n"
  using read_digits_append [of "nat_str n" False 0 "[]"]
  by (simp add: foldl_nat_str list_all_iff nat_str_digits)

subsection \<open>Reading back what was printed\<close>

lemma strip_no_space: "\<forall>c \<in> set s. \<not> is_space c \<Longrightarrow> strip s = s"
proof -
  assume a: "\<forall>c \<in> set s. \<not> is_space c"
  then have "dropWhile is_space s = s" by (cases s) auto
  moreover from a have "\<forall>c \<in> set (rev s). \<not> is_space c" by simp
  then have "dropWhile is_space (rev s) = rev s" by (cases "rev s") simp_all
  ultimately show ?thesis by (simp add: strip_def)
qed

lemma hd_nat_str_sign: "nat_str n = c # cs \<Longrightarrow> c \<noteq> CHR ''-'' \<and> c \<noteq> CHR ''+''"
  using nat_str_digits [of c n] is_digit_not_sign by auto

lemma read_signed_nat_str: "read_signed (nat_str n) = Some (int n)"
proof (cases "nat_str n")
  case Nil
  then show ?thesis by simp
next
  case (Cons c cs)
  with hd_nat_str_sign [OF Cons] have "read_signed (c # cs) = map_option int (read_digits False 0 (c # cs))"
    by (simp only: read_signed.simps) simp
  moreover have "read_digits False 0 (c # cs) = Some n"
    using read_digits_nat_str [of n] Cons by metis
  ultimately show ?thesis using Cons by simp
qed

lemma int_str_no_space: "\<forall>c \<in> set (int_str i). \<not> is_space c"
  using nat_str_no_space by (auto simp: int_str_def is_space_def char_code_def)

lemma int_str_nonempty [simp]: "int_str i \<noteq> []"
  by (simp add: int_str_def)

lemma py_int_int_str [simp]: "py_int (int_str i) = Some i"
proof -
  have "py_int (int_str i) = read_signed (int_str i)"
    by (simp add: py_int_def strip_no_space int_str_no_space)
  also have "\<dots> = Some i"
    by (simp add: int_str_def read_signed_nat_str)
  finally show ?thesis .
qed

lemma split_words_word:
  "\<forall>c \<in> set w. \<not> is_space c \<Longrightarrow> split_words v (w @ s) = split_words (v @ w) s"
  by (induction w arbitrary: v) auto

lemma split_ws_join:
  assumes "\<forall>w \<in> set ws. w \<noteq> [] \<and> (\<forall>c \<in> set w. \<not> is_space c)"
  shows "split_ws (join '' '' ws) = ws"
proof -
  have sp: "is_space (CHR '' '')" by (simp add: is_space_def char_code_def)
  have "split_words [] (join '' '' ws) = ws" using assms
  proof (induction "'' ''" ws rule: join.induct)
    case 1
    then show ?case by simp
  next
    case (2 x)
    then show ?case using split_words_word [of x "[]" "[]"] by simp
  next
    case (3 x y xs)
    then show ?case using split_words_word [of x "[]" "'' '' @ join '' '' (y # xs)"] sp by simp
  qed
  then show ?thesis by (simp add: split_ws_def)
qed

lemma split_char_word: "d \<notin> set w \<Longrightarrow> split_char d v (w @ s) = split_char d (v @ w) s"
  by (induction w arbitrary: v) auto

lemma split_on_join:
  assumes "ws \<noteq> []" and "\<forall>w \<in> set ws. d \<notin> set w"
  shows "split_on d (join [d] ws) = ws"
proof -
  have "split_char d [] (join [d] ws) = ws" using assms
  proof (induction "[d]" ws rule: join.induct)
    case 1
    then show ?case by simp
  next
    case (2 x)
    then show ?case using split_char_word [of d x "[]" "[]"] by simp
  next
    case (3 x y xs)
    then show ?case using split_char_word [of d x "[]" "[d] @ join [d] (y # xs)"] by simp
  qed
  then show ?thesis by (simp add: split_on_def)
qed

lemma set_join: "set (join sep ws) \<subseteq> set sep \<union> \<Union> (set ` set ws)"
  by (induction sep ws rule: join.induct) auto

lemma split_words_no_space:
  "x \<in> set (split_words w s) \<Longrightarrow> \<forall>c \<in> set w. \<not> is_space c \<Longrightarrow>
   x \<noteq> [] \<and> (\<forall>c \<in> set x. \<not> is_space c)"
proof (induction w s arbitrary: x rule: split_words.induct)
  case (1 w)
  then show ?case by (cases "w = []") auto
next
  case (2 w c cs)
  show ?case
  proof (cases "is_space c")
    case True
    with "2.prems" consider "x = w" "w \<noteq> []" | "x \<in> set (split_words [] cs)"
      by (auto split: if_splits)
    then show ?thesis
    proof cases
      case 1
      with "2.prems" show ?thesis by simp
    next
      case rest: 2
      have none: "\<forall>c \<in> set []. \<not> is_space c" by simp
      show ?thesis
      proof (cases "w = []")
        case True
        show ?thesis by (rule "2.IH"(1) [OF \<open>is_space c\<close> True rest none])
      next
        case False
        show ?thesis by (rule "2.IH"(2) [OF \<open>is_space c\<close> False rest none])
      qed
    qed
  next
    case False
    with "2.prems" have "x \<in> set (split_words (w @ [c]) cs)" "\<forall>d \<in> set (w @ [c]). \<not> is_space d"
      by auto
    then show ?thesis by (rule "2.IH"(3) [OF False])
  qed
qed

lemma split_ws_no_space: "x \<in> set (split_ws s) \<Longrightarrow> x \<noteq> [] \<and> (\<forall>c \<in> set x. \<not> is_space c)"
  using split_words_no_space by (auto simp: split_ws_def)

end
