(* ===== verification/Chess_Lib.thy ===== *)
theory Chess_Lib
  imports Pystring
begin

text \<open>
  What the program takes from the third-party package \<open>python-chess\<close> for square names,
  as a parameter of the definitions that use it: \<open>chess.square_name\<close>,
  \<open>chess.parse_square\<close> and \<open>chess.STARTING_FEN\<close>.  Squares are the package's numbers,
  \<open>0\<close> for a1 to \<open>63\<close> for h8, rank by rank.  \<open>square_names_ok\<close> states the documented
  behaviour: the name of a square is its file letter followed by its rank digit, and
  reading a name gives the square back.
\<close>

record square_lib =
  square_name :: "int \<Rightarrow> string"
  parse_square :: "string \<Rightarrow> int result"
  starting_fen :: string

definition file_chars :: string where
  "file_chars = ''abcdefgh''"

definition rank_chars :: string where
  "rank_chars = ''12345678''"

definition on_board :: "int \<Rightarrow> bool" where
  "on_board sq = (0 \<le> sq \<and> sq < 64)"

definition square_names_ok :: "square_lib \<Rightarrow> bool" where
  "square_names_ok L = (\<forall>sq \<in> {0..<64}.
     square_name L sq = [file_chars ! nat (sq mod 8), rank_chars ! nat (sq div 8)]
     \<and> parse_square L (square_name L sq) = Inr sq)"

text \<open>A concrete package with that behaviour, for evaluating examples.\<close>

definition sample_parse_square :: "string \<Rightarrow> int result" where
  "sample_parse_square s = (case s of
     [f, r] \<Rightarrow> (case (list_index file_chars f, list_index rank_chars r) of
        (Some i, Some j) \<Rightarrow> Inr (int j * 8 + int i)
      | _ \<Rightarrow> Inl (ValueError ''square''))
   | _ \<Rightarrow> Inl (ValueError ''square''))"

definition sample_squares :: square_lib where
  "sample_squares = \<lparr>
     square_name = (\<lambda>sq. [file_chars ! nat (sq mod 8), rank_chars ! nat (sq div 8)]),
     parse_square = sample_parse_square,
     starting_fen = ''rnbqkbnr/pppppppp/8/8/8/8/PPPPPPPP/RNBQKBNR w KQkq - 0 1''\<rparr>"

lemma on_board_iff: "on_board sq \<longleftrightarrow> sq \<in> {0..<64}"
  by (auto simp: on_board_def)

lemma on_board_nat: "on_board sq \<Longrightarrow> nat sq < 64"
  by (auto simp: on_board_def)

lemma on_board_file_rank:
  "on_board sq \<Longrightarrow> 0 \<le> sq mod 8 \<and> sq mod 8 < 8 \<and> 0 \<le> sq div 8 \<and> sq div 8 < 8"
  by (auto simp: on_board_def)

lemma length_file_chars [simp]: "length file_chars = 8"
  by (simp add: file_chars_def)

lemma length_rank_chars [simp]: "length rank_chars = 8"
  by (simp add: rank_chars_def)

lemma square_nameD:
  assumes "square_names_ok L" and "on_board sq"
  shows "square_name L sq = [file_chars ! nat (sq mod 8), rank_chars ! nat (sq div 8)]"
  using assms by (auto simp: square_names_ok_def on_board_iff)

lemma parse_square_name [simp]:
  assumes "square_names_ok L" and "on_board sq"
  shows "parse_square L (square_name L sq) = Inr sq"
  using assms unfolding square_names_ok_def on_board_iff by blast

lemma square_name_chars:
  assumes "square_names_ok L" and "on_board sq"
  obtains f r where "square_name L sq = [f, r]" and "f \<in> set file_chars" and "r \<in> set rank_chars"
proof -
  have "nat (sq mod 8) < 8" "nat (sq div 8) < 8"
    using on_board_file_rank [OF assms(2)] by auto
  then show ?thesis
    using that square_nameD [OF assms] by (metis length_file_chars length_rank_chars nth_mem)
qed

lemma square_name_inj:
  assumes "square_names_ok L" and "on_board a" and "on_board b"
    and "square_name L a = square_name L b"
  shows "a = b"
  using assms parse_square_name by (metis sum.inject(2))

lemma list_index_nth:
  "distinct xs \<Longrightarrow> i < length xs \<Longrightarrow> list_index xs (xs ! i) = Some i"
proof (induction xs arbitrary: i)
  case Nil
  then show ?case by simp
next
  case (Cons x xs)
  then show ?case by (cases i) (auto simp: nth_mem)
qed

lemma sample_squares_ok: "square_names_ok sample_squares"
proof -
  have "square_name sample_squares sq = [file_chars ! nat (sq mod 8), rank_chars ! nat (sq div 8)]
      \<and> parse_square sample_squares (square_name sample_squares sq) = Inr sq"
    if "sq \<in> {0..<64}" for sq
  proof -
    have b: "nat (sq mod 8) < 8" "nat (sq div 8) < 8" using that by auto
    have "distinct file_chars" "distinct rank_chars"
      by (simp_all add: file_chars_def rank_chars_def)
    then have "list_index file_chars (file_chars ! nat (sq mod 8)) = Some (nat (sq mod 8))"
      and "list_index rank_chars (rank_chars ! nat (sq div 8)) = Some (nat (sq div 8))"
      using b by (simp_all add: list_index_nth)
    then show ?thesis
      using that by (simp add: sample_squares_def sample_parse_square_def)
  qed
  then show ?thesis unfolding square_names_ok_def by blast
qed

end
