(* ===== verification/Duck_Turn.thy ===== *)
theory Duck_Turn
  imports Chess_Lib
begin

text \<open>
  \<open>DuckTurn\<close> of \<open>cope/variants/duck.py\<close>: a piece move and, unless it captures the king,
  the square the duck moves to; its text form and the reader for it.
\<close>

datatype duck_turn = DuckTurn
  (from_square: int) (to_square: int) (promotion: string) (duck_to: "int option")

definition is_file :: "char \<Rightarrow> bool" where
  "is_file c = (c \<in> set file_chars)"

definition is_rank :: "char \<Rightarrow> bool" where
  "is_rank c = (c \<in> set rank_chars)"

text \<open>
  The groups of the regular expression of \<open>from_uci\<close>: the source square, the target
  square, the optional promotion letter, and the optional duck step (from, to).
\<close>

fun match_squares :: "string \<Rightarrow> (string \<times> string \<times> string) option" where
  "match_squares (a # b # c # d # rest) =
     (if is_file a \<and> is_rank b \<and> is_file c \<and> is_rank d then Some ([a, b], [c, d], rest) else None)"
| "match_squares _ = None"

definition match_promotion :: "string \<Rightarrow> string \<times> string" where
  "match_promotion s = (case s of
     c # cs \<Rightarrow> if c \<in> set ''nbrqNBRQ'' then ([c], cs) else ([], s)
   | [] \<Rightarrow> ([], []))"

definition match_duck :: "string \<Rightarrow> (string \<times> string) option option" where
  "match_duck s = (case s of
     [] \<Rightarrow> Some None
   | c # cs \<Rightarrow> if c = CHR '','' then
        (case match_squares cs of Some (p, q, []) \<Rightarrow> Some (Some (p, q)) | _ \<Rightarrow> None)
      else None)"

definition match_turn :: "string \<Rightarrow> (string \<times> string \<times> string \<times> (string \<times> string) option) option" where
  "match_turn text = (case match_squares text of
     None \<Rightarrow> None
   | Some (p, q, rest) \<Rightarrow> (let (prom, rest') = match_promotion rest in
        map_option (\<lambda>d. (p, q, prom, d)) (match_duck rest')))"

definition from_uci :: "square_lib \<Rightarrow> string \<Rightarrow> duck_turn result" where
  "from_uci L text = (case match_turn text of
     None \<Rightarrow> Inl (ValueError ''Malformed duck turn'')
   | Some (p, q, prom, d) \<Rightarrow>
       if p = q \<or> (case d of None \<Rightarrow> False | Some (p', _) \<Rightarrow> p' \<noteq> q)
       then Inl (ValueError ''Malformed duck turn'')
       else rbind (parse_square L p) (\<lambda>source.
            rbind (parse_square L q) (\<lambda>target.
            case d of
              None \<Rightarrow> Inr (DuckTurn source target (lower prom) None)
            | Some (_, q') \<Rightarrow> rbind (parse_square L q') (\<lambda>duck.
                Inr (DuckTurn source target (lower prom) (Some duck))))))"

definition uci :: "square_lib \<Rightarrow> duck_turn \<Rightarrow> string" where
  "uci L m = (let destination = square_name L (to_square m);
     text = square_name L (from_square m) @ destination @ promotion m
   in case duck_to m of
        None \<Rightarrow> text
      | Some d \<Rightarrow> text @ '','' @ destination @ square_name L d)"

text \<open>The turns that have a text form: squares of the board and one promotion letter at most.\<close>

definition promotion_ok :: "string \<Rightarrow> bool" where
  "promotion_ok p = (p \<in> {[], ''n'', ''b'', ''r'', ''q''})"

definition turn_ok :: "duck_turn \<Rightarrow> bool" where
  "turn_ok m = (on_board (from_square m) \<and> on_board (to_square m) \<and> from_square m \<noteq> to_square m
     \<and> promotion_ok (promotion m)
     \<and> (case duck_to m of None \<Rightarrow> True | Some d \<Rightarrow> on_board d))"

lemma lower_promotion: "promotion_ok p \<Longrightarrow> lower p = p"
  by (auto simp: promotion_ok_def lower_def lower_char_def is_upper_def char_code_def)

lemma comma_not_file_rank: "CHR '','' \<notin> set ''nbrqNBRQ''"
  by simp

lemma match_promotion_append:
  assumes "promotion_ok p" and "rest = [] \<or> hd rest = CHR '',''"
  shows "match_promotion (p @ rest) = (p, rest)"
  using assms by (cases rest) (auto simp: promotion_ok_def match_promotion_def)

lemma match_squares_names:
  assumes "square_names_ok L" and "on_board a" and "on_board b"
  shows "match_squares (square_name L a @ square_name L b @ rest)
           = Some (square_name L a, square_name L b, rest)"
proof -
  obtain f r where a: "square_name L a = [f, r]" "f \<in> set file_chars" "r \<in> set rank_chars"
    by (rule square_name_chars [OF assms(1,2)])
  obtain f' r' where b: "square_name L b = [f', r']" "f' \<in> set file_chars" "r' \<in> set rank_chars"
    by (rule square_name_chars [OF assms(1,3)])
  show ?thesis using a b by (simp add: is_file_def is_rank_def)
qed

lemma from_uci_uci:
  assumes "square_names_ok L" and "turn_ok m"
  shows "from_uci L (uci L m) = Inr m"
proof -
  obtain s t p d where m: "m = DuckTurn s t p d" by (cases m)
  have ok: "on_board s" "on_board t" "s \<noteq> t" "promotion_ok p"
    and dk: "\<And>q. d = Some q \<Longrightarrow> on_board q"
    using assms(2) by (auto simp: m turn_ok_def)
  have ne: "square_name L s \<noteq> square_name L t"
    using square_name_inj [OF assms(1) ok(1,2)] ok(3) by blast
  let ?tail = "case d of None \<Rightarrow> [] | Some q \<Rightarrow> '','' @ square_name L t @ square_name L q"
  have "uci L m = square_name L s @ square_name L t @ p @ ?tail"
    by (simp add: uci_def m Let_def split: option.splits)
  moreover have "match_promotion (p @ ?tail) = (p, ?tail)"
    by (rule match_promotion_append [OF ok(4)]) (auto split: option.splits)
  moreover have "match_duck ?tail = Some (map_option (\<lambda>q. (square_name L t, square_name L q)) d)"
    using match_squares_names [OF assms(1) ok(2), of _ "[]"] dk
    by (cases d) (auto simp: match_duck_def)
  ultimately have "match_turn (uci L m) = Some (square_name L s, square_name L t, p,
      map_option (\<lambda>q. (square_name L t, square_name L q)) d)"
    by (simp add: match_turn_def match_squares_names [OF assms(1) ok(1,2)])
  then show ?thesis
    using ne ok dk assms(1)
    by (cases d) (simp_all add: from_uci_def m lower_promotion)
qed

text \<open>
  Printing a turn and reading it back gives the same turn, for every pair of distinct
  squares of the board, every promotion letter and every duck square (or none).
\<close>

theorem uci_round_trip:
  assumes "square_names_ok L" and "turn_ok m"
  shows "from_uci L (uci L m) = Inr m"
  by (rule from_uci_uci [OF assms])

theorem uci_round_trip_witness:
  "from_uci sample_squares (uci sample_squares (DuckTurn 52 60 ''q'' (Some 28)))
     = Inr (DuckTurn 52 60 ''q'' (Some 28))"
  by (rule uci_round_trip [OF sample_squares_ok])
    (simp add: turn_ok_def on_board_def promotion_ok_def)

text \<open>Whatever is read is a turn with distinct squares and at most one promotion letter.\<close>

lemma match_promotion_letter:
  "match_promotion s = (p, rest) \<Longrightarrow> p = [] \<or> (\<exists>c \<in> set ''nbrqNBRQ''. p = [c])"
  by (cases s) (auto simp: match_promotion_def simp del: set_simps split: if_splits)

lemma lower_promotion_letters: "list_all (\<lambda>c. promotion_ok (lower [c])) ''nbrqNBRQ''"
  by code_simp

lemma match_promotion_lower:
  assumes "match_promotion s = (p, rest)"
  shows "promotion_ok (lower p)"
proof (cases "p = []")
  case True
  then show ?thesis by (simp add: promotion_ok_def lower_def)
next
  case False
  with match_promotion_letter [OF assms] obtain c where "c \<in> set ''nbrqNBRQ''" "p = [c]" by blast
  then show ?thesis using lower_promotion_letters unfolding list_all_iff by blast
qed

lemma match_turn_promotion:
  assumes "match_turn text = Some (p, q, prom, d)"
  shows "promotion_ok (lower prom)"
proof -
  from assms obtain rest where "match_squares text = Some (p, q, rest)"
    by (auto simp: match_turn_def split: option.splits prod.splits)
  with assms have "prom = fst (match_promotion rest)"
    by (auto simp: match_turn_def Let_def split: prod.splits)
  then show ?thesis using match_promotion_lower [of rest] by (metis prod.collapse)
qed

lemma from_uci_promotion:
  assumes "from_uci L text = Inr m"
  shows "promotion_ok (promotion m)"
proof -
  from assms obtain p q prom d where t: "match_turn text = Some (p, q, prom, d)"
    by (auto simp: from_uci_def split: option.splits)
  with assms have "promotion m = lower prom"
    by (auto simp: from_uci_def rbind_eq_Inr split: option.splits if_splits)
  then show ?thesis using match_turn_promotion [OF t] by simp
qed

end
