(* ===== verification/Duck_Board.thy ===== *)
theory Duck_Board
  imports Duck_Turn
begin

text \<open>
  \<open>DuckBoard\<close> of \<open>cope/variants/duck.py\<close>: the position of a duck chess game, its FEN
  reader and printer, the legality test, the enumeration of the legal turns, and \<open>push\<close>.
  A square holds a piece letter or the empty text, as in the code; the 64 squares are a
  list, square \<open>0\<close> is a1.  \<open>rooks\<close> maps a castling side (0 and 1 for White's king and
  queen side, 2 and 3 for Black's) to the rook's square.  The counter of the positions
  seen so far is a total function, 0 where the key is missing.
\<close>

record duck_board =
  chess960 :: bool
  move_stack :: "duck_turn list"
  squares :: "string list"
  duck_square :: "int option"
  turn :: bool
  rooks :: "(int \<times> int) list"
  ep_square :: "int option"
  halfmove_clock :: int
  fullmove_number :: int
  root_fen :: string
  positions :: "string list \<Rightarrow> nat"

definition at :: "string list \<Rightarrow> int \<Rightarrow> string" where
  "at sqs sq = sqs ! nat sq"

subsection \<open>Reading a FEN\<close>

definition piece_chars :: string where
  "piece_chars = ''PNBRQKpnbrqk''"

definition is_piece :: "char \<Rightarrow> bool" where
  "is_piece c = (c \<in> set piece_chars)"

text \<open>One character of the placement field: the file reached, the squares and the duck so far.\<close>

type_synonym placement = "int \<times> string list \<times> int option"

definition place_char :: "int \<Rightarrow> placement \<Rightarrow> char \<Rightarrow> placement result" where
  "place_char index st c = (case st of (file, sqs, dk) \<Rightarrow>
     if is_rank c then Inr (file + int (digit_value c), sqs, dk)
     else if (is_piece c \<or> c = CHR ''*'') \<and> file < 8 then
       (let square = (7 - index) * 8 + file in
        if c = CHR ''*'' then
          (if dk \<noteq> None then Inl (ValueError ''Duck FEN contains multiple ducks'')
           else Inr (file + 1, sqs, Some square))
        else if lower_char c = CHR ''p'' \<and> (index = 0 \<or> index = 7)
        then Inl (ValueError ''Unpromoted pawn on the last rank'')
        else Inr (file + 1, sqs[nat square := [c]], dk))
     else Inl (ValueError ''Invalid duck FEN placement''))"

definition place_rank :: "string list \<times> int option \<Rightarrow> int \<times> string
    \<Rightarrow> (string list \<times> int option) result" where
  "place_rank st r = (case (st, r) of ((sqs, dk), (index, rank)) \<Rightarrow>
     rbind (fold_result (place_char index) (0, sqs, dk) rank) (\<lambda>(file, st').
       if file \<noteq> 8 then Inl (ValueError ''Invalid duck FEN rank width'') else Inr st'))"

definition place_ranks :: "string list \<Rightarrow> (string list \<times> int option) result" where
  "place_ranks ranks = fold_result place_rank (replicate 64 [], None)
     (zip (map int [0..<length ranks]) ranks)"

definition find_king :: "string list \<Rightarrow> bool \<Rightarrow> int option" where
  "find_king sqs white = (let base = (if white then 0 else 56) in
     List.find (\<lambda>sq. at sqs sq = (if white then ''K'' else ''k'')) [base..base + 7])"

text \<open>The rook a castling letter names; \<open>Inr None\<close> when the search finds none.\<close>

definition right_rook :: "bool \<Rightarrow> string list \<Rightarrow> char \<Rightarrow> int \<Rightarrow> int \<Rightarrow> int option result" where
  "right_rook c960 sqs right base king = (let
     r = lower_char right;
     rook_piece = (if is_upper right then ''R'' else ''r'')
   in if \<not> c960 then
        (if right \<notin> set ''KQkq'' \<or> king \<noteq> base + 4 then Inl (ValueError ''Invalid castling rights'')
         else Inr (Some (base + (if r = CHR ''k'' then 7 else 0))))
      else if r \<in> set ''kq'' then
        (let files = (if r = CHR ''k'' then rev [king mod 8 + 1..7] else [0..king mod 8 - 1])
         in Inr (List.find (\<lambda>sq. at sqs sq = rook_piece) (map (\<lambda>f. base + f) files)))
      else if r \<in> set ''abcdefgh'' then
        Inr (Some (base + (int (char_code r) - int (char_code (CHR ''a'')))))
      else Inl (ValueError ''Invalid Chess960 castling rights''))"

definition add_right :: "bool \<Rightarrow> string list \<Rightarrow> (int \<times> int) list \<Rightarrow> char \<Rightarrow> (int \<times> int) list result" where
  "add_right c960 sqs rks right = (let
     white = is_upper right;
     base = (if white then 0 else 56);
     rook_piece = (if white then ''R'' else ''r'')
   in rbind (or_error (ValueError ''Castling king is missing'') (find_king sqs white)) (\<lambda>king.
      rbind (right_rook c960 sqs right base king) (\<lambda>found.
      case found of
        None \<Rightarrow> Inl (ValueError ''Castling rook is missing'')
      | Some rook \<Rightarrow>
          if rook = king \<or> at sqs rook \<noteq> rook_piece
          then Inl (ValueError ''Castling rook is missing'')
          else (let side = (if white then 0 else 2) + (if rook < king then 1 else 0) in
            if side \<in> fst ` set rks then Inl (ValueError ''Duplicate castling right'')
            else Inr (AList.update side rook rks)))))"

definition parse_ep :: "square_lib \<Rightarrow> bool \<Rightarrow> string list \<Rightarrow> string \<Rightarrow> int option result" where
  "parse_ep L white sqs field = (if field = ''-'' then Inr None
   else rbind (parse_square L field) (\<lambda>ep.
     let direction = (if white then -8 else 8) in
     if ep div 8 \<noteq> (if white then 5 else 2) \<or> at sqs ep \<noteq> []
        \<or> at sqs (ep + direction) \<noteq> (if white then ''p'' else ''P'')
        \<or> at sqs (ep - direction) \<noteq> []
     then Inl (ValueError ''Invalid en-passant square'')
     else Inr (Some ep)))"

definition parse_counters :: "string \<Rightarrow> string \<Rightarrow> (int \<times> int) result" where
  "parse_counters half full =
    (if \<not> all_digits half \<or> \<not> all_digits full then Inl (ValueError ''Invalid move counters'')
     else case (py_int half, py_int full) of
       (Some h, Some f) \<Rightarrow>
         if \<not> (0 \<le> h \<and> h \<le> 1000000000) \<or> \<not> (1 \<le> f \<and> f \<le> 1000000000)
         then Inl (ValueError ''Invalid move counters'') else Inr (h, f)
     | _ \<Rightarrow> Inl (ValueError ''Invalid move counters''))"

definition fen_fields :: "string \<Rightarrow> string list" where
  "fen_fields fen = (let flds = split_ws fen in
     if length flds = 4 then flds @ [''0'', ''1''] else flds)"

text \<open>The fields after the placement: kings, side to move, castling rights, en passant, counters.\<close>

definition set_fen_rest :: "square_lib \<Rightarrow> string list \<Rightarrow> duck_board \<Rightarrow> string list \<times> int option
    \<Rightarrow> duck_board result" where
  "set_fen_rest L flds b placed = (let
     (sqs, dk) = placed;
     kings = (count_list sqs ''K'', count_list sqs ''k'');
     white = (flds ! 1 = ''w'')
   in if 1 < max (fst kings) (snd kings) \<or> fst kings + snd kings = 0
      then Inl (ValueError ''Invalid duck FEN kings'')
      else rbind (if flds ! 2 = ''-'' then Inr []
                  else fold_result (add_right (chess960 b) sqs) [] (flds ! 2)) (\<lambda>rks.
           rbind (parse_ep L white sqs (flds ! 3)) (\<lambda>ep.
           rbind (parse_counters (flds ! 4) (flds ! 5)) (\<lambda>counters.
             Inr (b\<lparr>squares := sqs, duck_square := dk, turn := white, rooks := rks,
                    ep_square := ep, halfmove_clock := fst counters,
                    fullmove_number := snd counters\<rparr>)))))"

definition set_fen :: "square_lib \<Rightarrow> string \<Rightarrow> duck_board \<Rightarrow> duck_board result" where
  "set_fen L fen b = (let flds = fen_fields fen in
     if length flds \<noteq> 6 \<or> flds ! 1 \<notin> {''w'', ''b''}
     then Inl (ValueError ''Expected a six-field duck FEN'')
     else (let ranks = split_on (CHR ''/'') (flds ! 0) in
       if length ranks \<noteq> 8 then Inl (ValueError ''Duck FEN must contain eight ranks'')
       else rbind (place_ranks ranks) (set_fen_rest L flds b)))"

subsection \<open>Legality\<close>

definition missing_king :: "duck_board \<Rightarrow> bool" where
  "missing_king b = (''K'' \<notin> set (squares b) \<or> ''k'' \<notin> set (squares b))"

text \<open>The square a turn's castling side moves the king and the rook to.\<close>

definition castle_base :: "duck_board \<Rightarrow> int" where
  "castle_base b = (if turn b then 0 else 56)"

definition king_dest :: "duck_board \<Rightarrow> int \<Rightarrow> int" where
  "king_dest b castle = castle_base b + (if castle mod 2 \<noteq> 0 then 2 else 6)"

definition rook_dest :: "duck_board \<Rightarrow> int \<Rightarrow> int" where
  "rook_dest b castle = castle_base b + (if castle mod 2 \<noteq> 0 then 3 else 5)"

definition castle_side :: "duck_board \<Rightarrow> duck_turn \<Rightarrow> int option" where
  "castle_side b m = (
     if at (squares b) (from_square m) \<noteq> (if turn b then ''K'' else ''k'') then None
     else if from_square m div 8 \<noteq> castle_base b div 8 then None
     else map_option fst (List.find (\<lambda>(side, rook). (side < 2) = turn b
        \<and> to_square m = (if chess960 b then rook else king_dest b side)) (rooks b)))"

definition span :: "int \<Rightarrow> int \<Rightarrow> int list" where
  "span a b = [min a b..max a b]"

text \<open>\<open>range(start, stop, step)\<close> for a non-zero step.\<close>

definition py_range :: "int \<Rightarrow> int \<Rightarrow> int \<Rightarrow> int list" where
  "py_range start stop step =
     (if 0 < step then map (\<lambda>k. start + step * int k) [0..<nat ((stop - start + step - 1) div step)]
      else if step < 0 then map (\<lambda>k. start + step * int k) [0..<nat ((start - stop - step - 1) div (- step))]
      else [])"

definition pawn_legal :: "duck_board \<Rightarrow> int \<Rightarrow> int \<Rightarrow> bool" where
  "pawn_legal b source target = (let
     captured = at (squares b) target;
     dx = target mod 8 - source mod 8;
     dy = target div 8 - source div 8;
     direction = (if turn b then 1 else -1)
   in if \<bar>dx\<bar> = 1 \<and> dy = direction then
        captured \<noteq> [] \<or> Some target = ep_square b
          \<and> at (squares b) (target - 8 * direction) = (if turn b then ''p'' else ''P'')
      else if dx \<noteq> 0 \<or> captured \<noteq> [] then False
      else if dy = direction then True
      else dy = 2 * direction \<and> source div 8 = (if turn b then 1 else 6)
        \<and> at (squares b) (source + 8 * direction) = []
        \<and> Some (source + 8 * direction) \<noteq> duck_square b)"

definition castle_path_clear :: "duck_board \<Rightarrow> int \<Rightarrow> int \<Rightarrow> int \<Rightarrow> bool" where
  "castle_path_clear b castle source rook =
     list_all (\<lambda>sq. Some sq \<noteq> duck_square b \<and> (sq = source \<or> sq = rook \<or> at (squares b) sq = []))
       (span source (king_dest b castle) @ span rook (rook_dest b castle))"

definition line_step :: "int \<Rightarrow> int \<Rightarrow> int" where
  "line_step dx dy = sgn dx + 8 * sgn dy"

definition line_clear :: "duck_board \<Rightarrow> int \<Rightarrow> int \<Rightarrow> int \<Rightarrow> bool" where
  "line_clear b source target step =
     list_all (\<lambda>sq. at (squares b) sq = [] \<and> Some sq \<noteq> duck_square b)
       (py_range (source + step) target step)"

definition piece_legal :: "duck_board \<Rightarrow> duck_turn \<Rightarrow> bool" where
  "piece_legal b m = (let source = from_square m; target = to_square m in
     if \<not> on_board source \<or> \<not> on_board target \<or> source = target \<or> Some target = duck_square b then False
     else (let piece = at (squares b) source; captured = at (squares b) target in
       if piece = [] \<or> isupper piece \<noteq> turn b then False
       else case castle_side b m of
         Some castle \<Rightarrow>
           (case map_of (rooks b) castle of
              None \<Rightarrow> False
            | Some rook \<Rightarrow>
                if promotion m \<noteq> [] \<or> at (squares b) rook \<noteq> (if turn b then ''R'' else ''r'') then False
                else castle_path_clear b castle source rook)
       | None \<Rightarrow>
           if captured \<noteq> [] \<and> isupper captured = turn b then False
           else (let
               kind = lower piece;
               promoting = (kind = ''p'' \<and> target div 8 = (if turn b then 7 else 0));
               dx = target mod 8 - source mod 8;
               dy = target div 8 - source div 8
             in
               if promoting \<noteq> (promotion m \<noteq> []) \<or> promotion m \<noteq> [] \<and> \<not> contains (promotion m) ''nbrq''
               then False
               else if kind = ''p'' then pawn_legal b source target
               else if kind = ''n'' then \<bar>dx\<bar> * \<bar>dy\<bar> = 2
               else if kind = ''k'' then max \<bar>dx\<bar> \<bar>dy\<bar> = 1
               else if kind = ''b'' \<and> \<bar>dx\<bar> \<noteq> \<bar>dy\<bar> \<or> kind = ''r'' \<and> dx \<noteq> 0 \<and> dy \<noteq> 0
                     \<or> kind = ''q'' \<and> \<bar>dx\<bar> \<noteq> \<bar>dy\<bar> \<and> dx \<noteq> 0 \<and> dy \<noteq> 0
               then False
               else line_clear b source target (line_step dx dy))))"

definition captures_ep :: "duck_board \<Rightarrow> duck_turn \<Rightarrow> bool" where
  "captures_ep b m = (lower (at (squares b) (from_square m)) = ''p''
     \<and> Some (to_square m) = ep_square b \<and> at (squares b) (to_square m) = []
     \<and> from_square m mod 8 \<noteq> to_square m mod 8)"

definition ep_victim :: "duck_board \<Rightarrow> duck_turn \<Rightarrow> int" where
  "ep_victim b m = to_square m + (if turn b then -8 else 8)"

definition duck_step_legal :: "duck_board \<Rightarrow> duck_turn \<Rightarrow> int \<Rightarrow> bool" where
  "duck_step_legal b m duck = (
     if Some duck = duck_square b \<or> \<not> on_board duck then False
     else case castle_side b m of
       Some castle \<Rightarrow>
         if duck = king_dest b castle \<or> duck = rook_dest b castle then False
         else duck = from_square m \<or> Some duck = map_of (rooks b) castle \<or> at (squares b) duck = []
     | None \<Rightarrow>
         if duck = from_square m then True
         else if duck = to_square m then False
         else if captures_ep b m \<and> duck = ep_victim b m then True
         else at (squares b) duck = [])"

definition is_legal :: "duck_board \<Rightarrow> duck_turn \<Rightarrow> bool" where
  "is_legal b m = (
     if missing_king b \<or> \<not> piece_legal b m then False
     else case duck_to m of
       None \<Rightarrow> lower (at (squares b) (to_square m)) = ''k''
     | Some duck \<Rightarrow> duck_step_legal b m duck)"

text \<open>\<open>DuckLegalMoves.__iter__\<close>: the turns in the order the generator yields them.\<close>

definition board_squares :: "int list" where
  "board_squares = [0..63]"

definition promotions_for :: "string \<Rightarrow> int \<Rightarrow> string list" where
  "promotions_for piece target =
     (if lower piece = ''p'' \<and> target div 8 \<in> {0, 7} then [''n'', ''b'', ''r'', ''q''] else [''''])"

definition turns_of_move :: "duck_board \<Rightarrow> int \<Rightarrow> int \<Rightarrow> string \<Rightarrow> duck_turn list" where
  "turns_of_move b source target prom =
     (if \<not> piece_legal b (DuckTurn source target prom None) then []
      else (if lower (at (squares b) target) = ''k'' then [DuckTurn source target prom None] else [])
        @ filter (is_legal b) (map (\<lambda>duck. DuckTurn source target prom (Some duck)) board_squares))"

definition turns_of_piece :: "duck_board \<Rightarrow> int \<Rightarrow> duck_turn list" where
  "turns_of_piece b source = (let piece = at (squares b) source in
     if piece = [] \<or> isupper piece \<noteq> turn b then []
     else concat (map (\<lambda>target. concat (map (turns_of_move b source target)
            (promotions_for piece target))) board_squares))"

definition legal_moves :: "duck_board \<Rightarrow> duck_turn list" where
  "legal_moves b = (if missing_king b then [] else concat (map (turns_of_piece b) board_squares))"

subsection \<open>Letters\<close>

lemma lower_pieces [simp]:
  "lower ''P'' = ''p''" "lower ''N'' = ''n''" "lower ''B'' = ''b''" "lower ''R'' = ''r''"
  "lower ''Q'' = ''q''" "lower ''K'' = ''k''" "lower ''p'' = ''p''" "lower ''n'' = ''n''"
  "lower ''b'' = ''b''" "lower ''r'' = ''r''" "lower ''q'' = ''q''" "lower ''k'' = ''k''"
  "lower [] = []"
  by code_simp+

lemma isupper_pieces [simp]:
  "isupper ''P''" "isupper ''N''" "isupper ''B''" "isupper ''R''" "isupper ''Q''" "isupper ''K''"
  "\<not> isupper ''p''" "\<not> isupper ''n''" "\<not> isupper ''b''" "\<not> isupper ''r''" "\<not> isupper ''q''"
  "\<not> isupper ''k''" "\<not> isupper []"
  by code_simp+

lemma upper_promotions [simp]:
  "upper ''n'' = ''N''" "upper ''b'' = ''B''" "upper ''r'' = ''R''" "upper ''q'' = ''Q''"
  "upper [] = []"
  by code_simp+

end
