(* ===== verification/Duck_Play.thy ===== *)
theory Duck_Play
  imports Duck_Board
begin

text \<open>
  The rest of \<open>DuckBoard\<close>: printing a FEN, the key that counts repetitions, \<open>push\<close>,
  the outcome of a position, and the algebraic notation.  \<open>chess.Outcome\<close> is a container
  of the chess package, here the pair of a termination and a winner; of
  \<open>chess.Termination\<close> the datatype has the members the program names.
\<close>

datatype chess_termination =
    Checkmate | Stalemate | InsufficientMaterial | SeventyfiveMoves | FivefoldRepetition
  | FiftyMoves | ThreefoldRepetition | VariantWin | VariantLoss | VariantDraw

datatype outcome = Outcome (outcome_termination: chess_termination) (outcome_winner: "bool option")

subsection \<open>Printing a FEN\<close>

definition fen_empty :: "nat \<Rightarrow> string" where
  "fen_empty n = (if n = 0 then [] else nat_str n)"

fun fen_files :: "nat \<Rightarrow> string list \<Rightarrow> string" where
  "fen_files n [] = fen_empty n"
| "fen_files n (p # ps) = (if p = [] then fen_files (Suc n) ps else fen_empty n @ p @ fen_files 0 ps)"

definition shown_piece :: "string list \<Rightarrow> int option \<Rightarrow> int \<Rightarrow> string" where
  "shown_piece sqs dk sq = (if Some sq = dk then ''*'' else at sqs sq)"

definition fen_rank :: "string list \<Rightarrow> int option \<Rightarrow> int \<Rightarrow> string" where
  "fen_rank sqs dk rank = fen_files 0 (map (\<lambda>file. shown_piece sqs dk (rank * 8 + file)) [0..7])"

definition fen_placement :: "string list \<Rightarrow> int option \<Rightarrow> string" where
  "fen_placement sqs dk = join ''/'' (map (fen_rank sqs dk) (rev [0..7]))"

definition right_letter :: "bool \<Rightarrow> int \<Rightarrow> int \<Rightarrow> char" where
  "right_letter c960 side rook =
     (if c960 then char_of (char_code (if side < 2 then CHR ''A'' else CHR ''a'') + nat (rook mod 8))
      else ''KQkq'' ! nat side)"

definition fen_rights :: "bool \<Rightarrow> (int \<times> int) list \<Rightarrow> string" where
  "fen_rights c960 rks = (let
     text = map (\<lambda>side. right_letter c960 side (the (map_of rks side))) (sort (map fst rks))
   in if text = [] then ''-'' else text)"

definition effective_ep :: "duck_board \<Rightarrow> bool" where
  "effective_ep b = (case ep_square b of
     None \<Rightarrow> False
   | Some ep \<Rightarrow> Some ep \<noteq> duck_square b
       \<and> list_ex (\<lambda>sq. lower (at (squares b) sq) = ''p'' \<and> piece_legal b (DuckTurn sq ep [] None))
           board_squares)"

definition fen_words :: "square_lib \<Rightarrow> bool \<Rightarrow> duck_board \<Rightarrow> string list" where
  "fen_words L legal_ep b = (let
     ep = (if legal_ep \<and> \<not> effective_ep b then None else ep_square b)
   in [fen_placement (squares b) (duck_square b),
       if turn b then ''w'' else ''b'',
       fen_rights (chess960 b) (rooks b),
       (case ep of None \<Rightarrow> ''-'' | Some sq \<Rightarrow> square_name L sq),
       int_str (halfmove_clock b),
       int_str (fullmove_number b)])"

definition fen :: "square_lib \<Rightarrow> bool \<Rightarrow> duck_board \<Rightarrow> string" where
  "fen L legal_ep b = join '' '' (fen_words L legal_ep b)"

definition repetition_key :: "square_lib \<Rightarrow> duck_board \<Rightarrow> string list" where
  "repetition_key L b = take 4 (split_ws (fen L True b))"

subsection \<open>Construction\<close>

text \<open>The attributes \<open>__init__\<close> sets before it reads the FEN; the others are read from it.\<close>

definition blank_board :: "bool \<Rightarrow> duck_board" where
  "blank_board c960 = \<lparr>chess960 = c960, move_stack = [], squares = replicate 64 [],
     duck_square = None, turn = True, rooks = [], ep_square = None, halfmove_clock = 0,
     fullmove_number = 1, root_fen = [], positions = (\<lambda>_. 0)\<rparr>"

definition new_duck_board :: "square_lib \<Rightarrow> string \<Rightarrow> bool \<Rightarrow> duck_board result" where
  "new_duck_board L text c960 = rbind (set_fen L text (blank_board c960)) (\<lambda>b.
     let b' = b\<lparr>root_fen := fen L False b\<rparr>
     in Inr (b'\<lparr>positions := (\<lambda>_. 0)(repetition_key L b' := 1)\<rparr>))"

definition board_root :: "square_lib \<Rightarrow> duck_board \<Rightarrow> duck_board result" where
  "board_root L b = new_duck_board L (root_fen b) (chess960 b)"

text \<open>\<open>copy\<close>: a deep copy is the same value; without the stack the board is read from its FEN.\<close>

definition copy_board :: "square_lib \<Rightarrow> bool \<Rightarrow> duck_board \<Rightarrow> duck_board result" where
  "copy_board L stack b = (if stack then Inr b else new_duck_board L (fen L False b) (chess960 b))"

subsection \<open>Playing a turn\<close>

definition moved_piece :: "duck_board \<Rightarrow> duck_turn \<Rightarrow> string" where
  "moved_piece b m = (if promotion m \<noteq> []
     then (if turn b then upper (promotion m) else promotion m)
     else at (squares b) (from_square m))"

definition push_squares :: "duck_board \<Rightarrow> duck_turn \<Rightarrow> string list" where
  "push_squares b m = (let source = from_square m; target = to_square m;
       piece = at (squares b) source
     in case castle_side b m of
       Some castle \<Rightarrow>
         (squares b)[nat source := [], nat (the (map_of (rooks b) castle)) := [],
           nat (king_dest b castle) := piece,
           nat (rook_dest b castle) := (if turn b then ''R'' else ''r'')]
     | None \<Rightarrow>
         (let sqs = (if captures_ep b m then (squares b)[nat (ep_victim b m) := []] else squares b)
          in sqs[nat source := [], nat target := moved_piece b m]))"

definition push_halfmove :: "duck_board \<Rightarrow> duck_turn \<Rightarrow> int" where
  "push_halfmove b m = (let piece = at (squares b) (from_square m); captured = at (squares b) (to_square m)
     in case castle_side b m of
       Some _ \<Rightarrow> halfmove_clock b + 1
     | None \<Rightarrow> if lower piece = ''p'' \<or> captured \<noteq> [] then 0 else halfmove_clock b + 1)"

definition keeps_right :: "duck_board \<Rightarrow> duck_turn \<Rightarrow> int \<times> int \<Rightarrow> bool" where
  "keeps_right b m right = (let (side, rook) = right;
       piece = at (squares b) (from_square m); captured = at (squares b) (to_square m)
     in \<not> (lower piece = ''k'' \<and> (side < 2) = turn b)
      \<and> \<not> (lower captured = ''k'' \<and> (side < 2) \<noteq> turn b)
      \<and> (castle_side b m \<noteq> None \<or> rook \<noteq> from_square m \<and> rook \<noteq> to_square m))"

definition push_ep :: "duck_board \<Rightarrow> duck_turn \<Rightarrow> int option" where
  "push_ep b m = (if lower (at (squares b) (from_square m)) = ''p''
       \<and> \<bar>to_square m - from_square m\<bar> = 16
     then Some ((from_square m + to_square m) div 2) else None)"

definition push_raw :: "duck_board \<Rightarrow> duck_turn \<Rightarrow> duck_board" where
  "push_raw b m = b\<lparr>
     squares := push_squares b m,
     halfmove_clock := push_halfmove b m,
     rooks := filter (keeps_right b m) (rooks b),
     ep_square := push_ep b m,
     duck_square := (case duck_to m of None \<Rightarrow> duck_square b | Some d \<Rightarrow> Some d),
     fullmove_number := fullmove_number b + (if turn b then 0 else 1),
     turn := \<not> turn b,
     move_stack := move_stack b @ [m]\<rparr>"

definition push :: "square_lib \<Rightarrow> duck_board \<Rightarrow> duck_turn \<Rightarrow> duck_board result" where
  "push L b m = (if \<not> is_legal b m then Inl (ValueError ''Illegal duck turn'')
     else (let b' = push_raw b m; key = repetition_key L b'
       in Inr (b'\<lparr>positions := (positions b')(key := positions b' key + 1)\<rparr>)))"

definition parse_uci :: "square_lib \<Rightarrow> duck_board \<Rightarrow> string \<Rightarrow> duck_turn result" where
  "parse_uci L b text = rbind (from_uci L text) (\<lambda>m.
     if \<not> is_legal b m then Inl (ValueError ''Illegal duck turn'') else Inr m)"

definition push_uci :: "square_lib \<Rightarrow> duck_board \<Rightarrow> string \<Rightarrow> (duck_turn \<times> duck_board) result" where
  "push_uci L b text = rbind (parse_uci L b text) (\<lambda>m. rbind (push L b m) (\<lambda>b'. Inr (m, b')))"

definition ply :: "duck_board \<Rightarrow> int" where
  "ply b = (fullmove_number b - 1) * 2 + (if turn b then 0 else 1)"

definition is_valid :: "duck_board \<Rightarrow> bool" where
  "is_valid b = (count_list (squares b) ''K'' = 1 \<and> count_list (squares b) ''k'' = 1)"

definition has_insufficient_material :: "duck_board \<Rightarrow> bool \<Rightarrow> bool" where
  "has_insufficient_material b color = False"

subsection \<open>The outcome of a position\<close>

definition can_move :: "duck_board \<Rightarrow> bool" where
  "can_move b = list_ex (\<lambda>source. let piece = at (squares b) source in
     piece \<noteq> [] \<and> isupper piece = turn b \<and>
     list_ex (\<lambda>target. piece_legal b (DuckTurn source target
       (if lower piece = ''p'' \<and> target div 8 \<in> {0, 7} then ''q'' else '''') None)) board_squares)
     board_squares"

definition outcome :: "square_lib \<Rightarrow> duck_board \<Rightarrow> outcome option" where
  "outcome L b = (
     if (if turn b then ''K'' else ''k'') \<notin> set (squares b) then Some (Outcome VariantLoss (Some (\<not> turn b)))
     else if (if turn b then ''k'' else ''K'') \<notin> set (squares b) then Some (Outcome VariantWin (Some (turn b)))
     else if \<not> can_move b then Some (Outcome VariantWin (Some (turn b)))
     else if 100 \<le> halfmove_clock b then Some (Outcome FiftyMoves None)
     else if 3 \<le> positions b (repetition_key L b) then Some (Outcome ThreefoldRepetition None)
     else None)"

definition is_game_over :: "square_lib \<Rightarrow> duck_board \<Rightarrow> bool" where
  "is_game_over L b = (outcome L b \<noteq> None)"

subsection \<open>Algebraic notation\<close>

definition san_rivals :: "duck_board \<Rightarrow> duck_turn \<Rightarrow> int list" where
  "san_rivals b m = (let piece = at (squares b) (from_square m) in
     if lower piece = ''p'' then []
     else filter (\<lambda>sq. sq \<noteq> from_square m \<and> at (squares b) sq = piece
            \<and> piece_legal b (DuckTurn sq (to_square m) (promotion m) (duck_to m))) board_squares)"

definition san_move :: "square_lib \<Rightarrow> duck_board \<Rightarrow> duck_turn \<Rightarrow> string" where
  "san_move L b m = (let
     piece = at (squares b) (from_square m);
     kind = lower piece;
     name = square_name L (from_square m);
     others = san_rivals b m;
     same_file = list_ex (\<lambda>sq. sq mod 8 = from_square m mod 8) others;
     same_rank = list_ex (\<lambda>sq. sq div 8 = from_square m div 8) others;
     capture = (at (squares b) (to_square m) \<noteq> []
       \<or> kind = ''p'' \<and> from_square m mod 8 \<noteq> to_square m mod 8)
   in (if kind = ''p'' then [] else upper piece)
      @ (if others = [] then []
         else (if \<not> same_file \<or> same_rank then [name ! 0] else [])
            @ (if same_file then [name ! 1] else []))
      @ (if capture then (if kind = ''p'' then [name ! 0] else []) @ ''x'' else [])
      @ square_name L (to_square m)
      @ (if promotion m \<noteq> [] then ''='' @ upper (promotion m) else []))"

definition san :: "square_lib \<Rightarrow> duck_board \<Rightarrow> duck_turn \<Rightarrow> string result" where
  "san L b m = (if \<not> is_legal b m then Inl (ValueError ''Illegal duck turn'')
     else (let text = (case castle_side b m of
         Some castle \<Rightarrow> if castle mod 2 \<noteq> 0 then ''O-O-O'' else ''O-O''
       | None \<Rightarrow> san_move L b m)
     in Inr (case duck_to m of None \<Rightarrow> text | Some d \<Rightarrow> text @ ''@'' @ square_name L d)))"

text \<open>
  \<open>parse_san\<close>: trailing annotation marks are dropped, zeros become letters, and the turn is
  read as a plain turn first, else searched among the legal turns of that duck square.
\<close>

definition san_clean :: "string \<Rightarrow> string" where
  "san_clean text = map (\<lambda>c. if c = CHR ''0'' then CHR ''O'' else c)
     (rev (dropWhile (\<lambda>c. c = CHR ''!'' \<or> c = CHR ''?'') (rev text)))"

definition san_duck :: "square_lib \<Rightarrow> string \<Rightarrow> int option result" where
  "san_duck L text = (if CHR ''@'' \<in> set text
     then rbind (parse_square L (last (split_on (CHR ''@'') text))) (\<lambda>d. Inr (Some d))
     else Inr None)"

definition san_matches :: "square_lib \<Rightarrow> duck_board \<Rightarrow> int option \<Rightarrow> string \<Rightarrow> duck_turn list" where
  "san_matches L b duck text = filter (\<lambda>m. is_legal b m \<and> san L b m = Inr text)
     (concat (map (\<lambda>source. let piece = at (squares b) source in
        if piece = [] \<or> isupper piece \<noteq> turn b then []
        else concat (map (\<lambda>target. map (\<lambda>prom. DuckTurn source target prom duck)
               (promotions_for piece target)) board_squares)) board_squares))"

definition parse_san :: "square_lib \<Rightarrow> duck_board \<Rightarrow> string \<Rightarrow> duck_turn result" where
  "parse_san L b raw = (let text = san_clean raw in
     case parse_uci L b text of
       Inr m \<Rightarrow> Inr m
     | Inl _ \<Rightarrow> rbind (san_duck L text) (\<lambda>duck.
         case san_matches L b duck text of
           [m] \<Rightarrow> Inr m
         | _ \<Rightarrow> Inl (ValueError ''Invalid or ambiguous duck notation'')))"

end
