(* ===== verification/Duck_Moves.thy ===== *)
theory Duck_Moves
  imports Duck_Play
begin

text \<open>
  The two faces of \<open>board.legal_moves\<close>: membership (\<open>DuckLegalMoves.__contains__\<close>, that
  is \<open>is_legal\<close>) and iteration (\<open>__iter__\<close>).  The lemmas reduce a legal turn to the facts
  the generator tests on its way, and the theorem says that the two agree.
\<close>

named_theorems legal_dests \<open>what a legal turn implies\<close>

lemma set_board_squares [simp]: "sq \<in> set board_squares \<longleftrightarrow> on_board sq"
  by (auto simp: board_squares_def on_board_def)

lemma distinct_board_squares [simp]: "distinct board_squares"
  by (simp add: board_squares_def)

lemma castle_side_duck_irrelevant:
  "castle_side b (DuckTurn s t p d) = castle_side b (DuckTurn s t p' d')"
  by (simp add: castle_side_def)

lemma piece_legal_duck_irrelevant: "piece_legal b (DuckTurn s t p d) = piece_legal b (DuckTurn s t p d')"
  by (simp only: piece_legal_def castle_side_def duck_turn.sel)

lemma piece_legalD [legal_dests]:
  assumes "piece_legal b m"
  shows "on_board (from_square m)" and "on_board (to_square m)"
    and "from_square m \<noteq> to_square m" and "Some (to_square m) \<noteq> duck_square b"
    and "at (squares b) (from_square m) \<noteq> []"
    and "isupper (at (squares b) (from_square m)) = turn b"
  using assms by (auto simp: piece_legal_def Let_def split: if_splits)

lemma is_legalD [legal_dests]:
  assumes "is_legal b m"
  shows "\<not> missing_king b" and "piece_legal b m"
    and "duck_to m = None \<Longrightarrow> lower (at (squares b) (to_square m)) = ''k''"
    and "duck_to m = Some d \<Longrightarrow> duck_step_legal b m d"
  using assms by (auto simp: is_legal_def split: if_splits)

lemma duck_step_on_board: "duck_step_legal b m d \<Longrightarrow> on_board d \<and> Some d \<noteq> duck_square b"
  by (auto simp: duck_step_legal_def split: if_splits)

lemma castle_side_king:
  "castle_side b m = Some c \<Longrightarrow> lower (at (squares b) (from_square m)) = ''k''"
  by (auto simp: castle_side_def split: if_splits)

text \<open>A pawn never reaches the rank behind it, so the ranks where the generator tries
  promotions are those where the legality test wants one.\<close>

lemma pawn_legal_target:
  assumes "pawn_legal b s t" and "on_board s" and "on_board t"
  shows "t div 8 \<noteq> (if turn b then 0 else 7)"
  using assms on_board_file_rank [OF assms(2)]
  by (auto simp: pawn_legal_def Let_def split: if_splits)

lemma piece_legal_promotion:
  assumes "piece_legal b m" and "promotion_ok (promotion m)"
  shows "promotion m \<in> set (promotions_for (at (squares b) (from_square m)) (to_square m))"
proof (cases "castle_side b m")
  case (Some c)
  with assms(1) have "promotion m = []"
    by (auto simp: piece_legal_def Let_def split: if_splits option.splits)
  moreover have "lower (at (squares b) (from_square m)) \<noteq> ''p''"
    using castle_side_king [OF Some] by simp
  ultimately show ?thesis by (simp add: promotions_for_def)
next
  case None
  let ?k = "lower (at (squares b) (from_square m))" and ?t = "to_square m"
  have prom: "(?k = ''p'' \<and> ?t div 8 = (if turn b then 7 else 0)) = (promotion m \<noteq> [])"
    and pawn: "?k = ''p'' \<Longrightarrow> pawn_legal b (from_square m) ?t"
    using assms(1) None by (auto simp: piece_legal_def Let_def split: if_splits)
  show ?thesis
  proof (cases "promotion m = []")
    case True
    have "\<not> (?k = ''p'' \<and> ?t div 8 \<in> {0, 7})"
    proof
      assume a: "?k = ''p'' \<and> ?t div 8 \<in> {0, 7}"
      with pawn_legal_target [OF pawn] piece_legalD(1,2) [OF assms(1)] prom True
      show False by (auto split: if_splits)
    qed
    with True show ?thesis by (auto simp: promotions_for_def)
  next
    case False
    with prom have "?k = ''p''" "?t div 8 \<in> {0, 7}" by (auto split: if_splits)
    with False assms(2) show ?thesis by (auto simp: promotions_for_def promotion_ok_def)
  qed
qed

lemma turns_of_move_iff:
  assumes "\<not> missing_king b"
  shows "m \<in> set (turns_of_move b s t p) \<longleftrightarrow>
    from_square m = s \<and> to_square m = t \<and> promotion m = p \<and> is_legal b m"
proof (cases m)
  case (DuckTurn s' t' p' d)
  show ?thesis
  proof (cases d)
    case None
    then show ?thesis
      using assms DuckTurn
      by (auto simp: turns_of_move_def is_legal_def)
  next
    case (Some q)
    have "is_legal b m \<Longrightarrow> on_board q \<and> piece_legal b (DuckTurn s' t' p' None)"
      using is_legalD(2,4) [of b m] duck_step_on_board DuckTurn Some
        piece_legal_duck_irrelevant [of b s' t' p' d None] by auto
    then show ?thesis
      using DuckTurn Some by (auto simp: turns_of_move_def)
  qed
qed

lemma distinct_turns_of_move: "distinct (turns_of_move b s t p)"
  by (auto simp: turns_of_move_def distinct_map inj_on_def)

lemma distinct_promotions_for: "distinct (promotions_for p t)"
  by (simp add: promotions_for_def)

text \<open>A list built by a nested loop has no duplicates when the inner lists are told apart by
  the loop variable.\<close>

lemma distinct_concat_map:
  assumes "distinct xs" and "\<And>x. x \<in> set xs \<Longrightarrow> distinct (f x)"
    and "\<And>x y. x \<in> set xs \<Longrightarrow> y \<in> set (f x) \<Longrightarrow> key y = x"
  shows "distinct (concat (map f xs))"
  using assms
proof (induction xs)
  case Nil
  then show ?case by simp
next
  case (Cons x xs)
  have "set (f x) \<inter> \<Union> (set ` f ` set xs) = {}"
  proof (rule ccontr)
    assume "set (f x) \<inter> \<Union> (set ` f ` set xs) \<noteq> {}"
    then obtain y z where "y \<in> set (f x)" "z \<in> set xs" "y \<in> set (f z)" by blast
    then have "x = z" using Cons.prems(3) [of x y] Cons.prems(3) [of z y] by simp
    with \<open>z \<in> set xs\<close> Cons.prems(1) show False by simp
  qed
  moreover have "distinct (concat (map f xs))"
    by (rule Cons.IH) (use Cons.prems in auto)
  ultimately show ?case using Cons.prems(2) by simp
qed

lemma turns_of_piece_iff:
  assumes "\<not> missing_king b"
  shows "m \<in> set (turns_of_piece b s) \<longleftrightarrow> at (squares b) s \<noteq> [] \<and> isupper (at (squares b) s) = turn b
    \<and> from_square m = s \<and> on_board (to_square m)
    \<and> promotion m \<in> set (promotions_for (at (squares b) s) (to_square m)) \<and> is_legal b m"
  by (auto simp: turns_of_piece_def Let_def turns_of_move_iff [OF assms])

lemma legal_moves_iff:
  assumes "promotion_ok (promotion m)"
  shows "m \<in> set (legal_moves b) \<longleftrightarrow> is_legal b m"
proof (cases "missing_king b")
  case True
  then show ?thesis by (simp add: legal_moves_def is_legal_def)
next
  case False
  have "is_legal b m \<Longrightarrow> piece_legal b m" by (rule is_legalD)
  then show ?thesis
    using False piece_legalD [of b m] piece_legal_promotion [OF _ assms, of b]
    by (auto simp: legal_moves_def turns_of_piece_iff)
qed

lemma legal_moves_distinct: "distinct (legal_moves b)"
proof (cases "missing_king b")
  case True
  then show ?thesis by (simp add: legal_moves_def)
next
  case False
  have 1: "distinct (concat (map (turns_of_move b s t) (promotions_for p t)))" for s t p
    by (rule distinct_concat_map [where key = promotion])
      (simp_all add: turns_of_move_iff [OF False] distinct_turns_of_move distinct_promotions_for)
  have "distinct (concat (map (\<lambda>t. concat (map (turns_of_move b s t) (promotions_for p t))) board_squares))"
    for s p
    by (rule distinct_concat_map [where key = to_square])
      (simp_all add: 1, auto simp: turns_of_move_iff [OF False])
  then have 2: "distinct (turns_of_piece b s)" for s
    by (simp only: turns_of_piece_def Let_def distinct.simps simp_thms split: if_split)
  have "distinct (concat (map (turns_of_piece b) board_squares))"
    by (rule distinct_concat_map [where key = from_square])
      (simp_all add: 2 turns_of_piece_iff [OF False])
  then show ?thesis using False by (simp add: legal_moves_def)
qed


end
