(* ===== verification/Duck_Inv.thy ===== *)
theory Duck_Inv
  imports Duck_Moves
begin

text \<open>
  Well-formed duck boards, and \<open>push\<close> keeping them so.  A board is well formed when it has
  64 squares of known pieces, at most one king a side and at least one in all, no pawn on a
  last rank, the duck on an empty square, every castling right backed by its king and rook,
  and an en-passant square that a double pawn step can have left.
\<close>

subsection \<open>The invariant\<close>

definition wf_piece :: "string \<Rightarrow> bool" where
  "wf_piece p = (p = [] \<or> length p = 1 \<and> is_piece (hd p))"

definition king_of :: "bool \<Rightarrow> string" where
  "king_of white = (if white then ''K'' else ''k'')"

definition rook_of :: "bool \<Rightarrow> string" where
  "rook_of white = (if white then ''R'' else ''r'')"

definition base_of :: "bool \<Rightarrow> int" where
  "base_of white = (if white then 0 else 56)"

definition right_ok :: "bool \<Rightarrow> string list \<Rightarrow> int \<times> int \<Rightarrow> bool" where
  "right_ok c960 sqs right = (case right of (side, rook) \<Rightarrow>
     0 \<le> side \<and> side < 4
     \<and> base_of (side < 2) \<le> rook \<and> rook < base_of (side < 2) + 8
     \<and> at sqs rook = rook_of (side < 2)
     \<and> list_ex (\<lambda>king. at sqs king = king_of (side < 2)
          \<and> side mod 2 = (if rook < king then 1 else 0)
          \<and> (c960 \<or> king = base_of (side < 2) + 4
               \<and> rook = base_of (side < 2) + (if side mod 2 = 0 then 7 else 0)))
        [base_of (side < 2)..base_of (side < 2) + 7])"

definition ep_ok :: "duck_board \<Rightarrow> bool" where
  "ep_ok b = (case ep_square b of None \<Rightarrow> True | Some ep \<Rightarrow>
     (let direction = (if turn b then -8 else 8) in
      ep div 8 = (if turn b then 5 else 2) \<and> at (squares b) ep = []
      \<and> at (squares b) (ep + direction) = (if turn b then ''p'' else ''P'')
      \<and> at (squares b) (ep - direction) = []))"

definition pawns_ok :: "string list \<Rightarrow> bool" where
  "pawns_ok sqs = list_all (\<lambda>sq. lower (at sqs sq) = ''p'' \<longrightarrow> sq div 8 \<noteq> 0 \<and> sq div 8 \<noteq> 7) board_squares"

definition duck_ok :: "string list \<Rightarrow> int option \<Rightarrow> bool" where
  "duck_ok sqs dk = (case dk of None \<Rightarrow> True | Some d \<Rightarrow> on_board d \<and> at sqs d = [])"

definition kings_ok :: "string list \<Rightarrow> bool" where
  "kings_ok sqs = (count_list sqs ''K'' \<le> 1 \<and> count_list sqs ''k'' \<le> 1
     \<and> 1 \<le> count_list sqs ''K'' + count_list sqs ''k'')"

definition wf_board :: "duck_board \<Rightarrow> bool" where
  "wf_board b = (length (squares b) = 64 \<and> list_all wf_piece (squares b)
     \<and> pawns_ok (squares b) \<and> duck_ok (squares b) (duck_square b) \<and> kings_ok (squares b)
     \<and> distinct (map fst (rooks b)) \<and> list_all (right_ok (chess960 b) (squares b)) (rooks b)
     \<and> ep_ok b \<and> 0 \<le> halfmove_clock b \<and> 1 \<le> fullmove_number b)"

subsection \<open>Pieces\<close>

lemma wf_piece_iff:
  "wf_piece p \<longleftrightarrow> p \<in> {[], ''P'', ''N'', ''B'', ''R'', ''Q'', ''K'', ''p'', ''n'', ''b'', ''r'', ''q'', ''k''}"
  by (cases p) (auto simp: wf_piece_def is_piece_def piece_chars_def)

lemma wf_piece_Nil [simp]: "wf_piece []"
  by (simp add: wf_piece_def)

lemma wf_piece_kings [simp]: "wf_piece (king_of w)" "wf_piece (rook_of w)"
  by (simp_all add: wf_piece_iff king_of_def rook_of_def)

lemma lower_king_iff: "wf_piece p \<Longrightarrow> lower p = ''k'' \<longleftrightarrow> p = ''K'' \<or> p = ''k''"
  by (auto simp: wf_piece_iff)

lemma lower_pawn_iff: "wf_piece p \<Longrightarrow> lower p = ''p'' \<longleftrightarrow> p = ''P'' \<or> p = ''p''"
  by (auto simp: wf_piece_iff)

lemma king_colour: "wf_piece p \<Longrightarrow> lower p = ''k'' \<Longrightarrow> p = king_of (isupper p)"
  by (auto simp: wf_piece_iff king_of_def)

lemma pawn_colour: "wf_piece p \<Longrightarrow> lower p = ''p'' \<Longrightarrow> p = (if isupper p then ''P'' else ''p'')"
  by (auto simp: wf_piece_iff)

lemma king_of_simps [simp]:
  "king_of w \<noteq> []" "rook_of w \<noteq> []" "[] \<noteq> king_of w" "[] \<noteq> rook_of w"
  "king_of w \<noteq> rook_of v" "rook_of v \<noteq> king_of w"
  "lower (king_of w) = ''k''" "lower (rook_of w) = ''r''"
  "isupper (king_of w) = w" "isupper (rook_of w) = w"
  "king_of w = king_of v \<longleftrightarrow> w = v"
  by (auto simp: king_of_def rook_of_def)

lemma promotion_piece:
  assumes "promotion_ok p" and "p \<noteq> []"
  shows "wf_piece (if w then upper p else p)"
    and "lower (if w then upper p else p) \<noteq> ''p''"
    and "(if w then upper p else p) \<noteq> king_of v"
  using assms by (auto simp: promotion_ok_def wf_piece_iff king_of_def)

subsection \<open>Squares\<close>

lemma at_update:
  "length sqs = 64 \<Longrightarrow> on_board i \<Longrightarrow> on_board j \<Longrightarrow>
   at (sqs[nat i := p]) j = (if i = j then p else at sqs j)"
  by (auto simp: at_def on_board_def nth_list_update)

lemma at_in_set: "length sqs = 64 \<Longrightarrow> on_board i \<Longrightarrow> at sqs i \<in> set sqs"
  by (auto simp: at_def on_board_def)

lemma in_set_at: "length sqs = 64 \<Longrightarrow> p \<in> set sqs \<longleftrightarrow> (\<exists>i. on_board i \<and> at sqs i = p)"
proof
  assume l: "length sqs = 64" and "p \<in> set sqs"
  then obtain n where "n < 64" "sqs ! n = p" by (auto simp: in_set_conv_nth)
  then have "on_board (int n) \<and> at sqs (int n) = p" by (simp add: on_board_def at_def)
  then show "\<exists>i. on_board i \<and> at sqs i = p" by blast
next
  assume "length sqs = 64" "\<exists>i. on_board i \<and> at sqs i = p"
  then show "p \<in> set sqs" using at_in_set by blast
qed

lemma list_all_at: "length sqs = 64 \<Longrightarrow> list_all P sqs \<longleftrightarrow> (\<forall>i. on_board i \<longrightarrow> P (at sqs i))"
  using in_set_at by (auto simp: list_all_iff)

lemma count_list_le_1:
  "count_list xs x \<le> 1 \<longleftrightarrow> (\<forall>i j. i < length xs \<and> j < length xs \<and> xs ! i = x \<and> xs ! j = x \<longrightarrow> i = j)"
proof (induction xs)
  case Nil
  then show ?case by simp
next
  case (Cons y ys)
  show ?case
  proof (cases "y = x")
    case True
    have "count_list (y # ys) x \<le> 1 \<longleftrightarrow> x \<notin> set ys"
      using True by (simp add: count_list_0_iff)
    also have "\<dots> \<longleftrightarrow> (\<forall>i j. i < length (y # ys) \<and> j < length (y # ys)
        \<and> (y # ys) ! i = x \<and> (y # ys) ! j = x \<longrightarrow> i = j)" (is "_ \<longleftrightarrow> ?R")
    proof
      assume "x \<notin> set ys"
      then show ?R by (auto simp: nth_Cons split: nat.splits)
    next
      assume r: ?R
      show "x \<notin> set ys"
      proof
        assume "x \<in> set ys"
        then obtain k where "k < length ys" "ys ! k = x" by (auto simp: in_set_conv_nth)
        then show False using r [rule_format, of 0 "Suc k"] True by simp
      qed
    qed
    finally show ?thesis .
  next
    case False
    have "(\<forall>i j. i < length (y # ys) \<and> j < length (y # ys)
        \<and> (y # ys) ! i = x \<and> (y # ys) ! j = x \<longrightarrow> i = j)
      \<longleftrightarrow> (\<forall>i j. i < length ys \<and> j < length ys \<and> ys ! i = x \<and> ys ! j = x \<longrightarrow> i = j)"
      (is "?L \<longleftrightarrow> ?R")
    proof
      assume l: ?L
      show ?R
      proof (intro allI impI)
        fix i j assume "i < length ys \<and> j < length ys \<and> ys ! i = x \<and> ys ! j = x"
        then show "i = j" using l [rule_format, of "Suc i" "Suc j"] by simp
      qed
    next
      assume ?R
      then show ?L using False by (auto simp: nth_Cons split: nat.splits)
    qed
    then show ?thesis using Cons.IH False by simp
  qed
qed

lemma one_at_most:
  assumes "length sqs = 64"
  shows "count_list sqs p \<le> 1 \<longleftrightarrow>
    (\<forall>i j. on_board i \<and> on_board j \<and> at sqs i = p \<and> at sqs j = p \<longrightarrow> i = j)"
    (is "_ \<longleftrightarrow> ?R")
proof -
  have "(\<forall>i j. i < length sqs \<and> j < length sqs \<and> sqs ! i = p \<and> sqs ! j = p \<longrightarrow> i = j) \<longleftrightarrow> ?R"
    (is "?L \<longleftrightarrow> _")
  proof
    assume l: ?L
    show ?R
    proof (intro allI impI)
      fix i j assume ij: "on_board i \<and> on_board j \<and> at sqs i = p \<and> at sqs j = p"
      then have "nat i < length sqs \<and> nat j < length sqs \<and> sqs ! nat i = p \<and> sqs ! nat j = p"
        using assms on_board_nat by (simp add: at_def)
      then have "nat i = nat j" using l by blast
      then show "i = j" using ij by (metis eq_nat_nat_iff on_board_def)
    qed
  next
    assume r: ?R
    show ?L
    proof (intro allI impI)
      fix i j assume "i < length sqs \<and> j < length sqs \<and> sqs ! i = p \<and> sqs ! j = p"
      then show "i = j" using r [rule_format, of "int i" "int j"] assms
        by (auto simp: on_board_def at_def)
    qed
  qed
  then show ?thesis by (simp only: count_list_le_1)
qed

lemma kings_ok_iff:
  assumes "length sqs = 64"
  shows "kings_ok sqs \<longleftrightarrow>
    (\<forall>w i j. on_board i \<and> on_board j \<and> at sqs i = king_of w \<and> at sqs j = king_of w \<longrightarrow> i = j)
    \<and> (\<exists>w i. on_board i \<and> at sqs i = king_of w)"
proof -
  define U where "U w \<longleftrightarrow> (\<forall>i j. on_board i \<and> on_board j \<and> at sqs i = king_of w
    \<and> at sqs j = king_of w \<longrightarrow> i = j)" for w
  define E where "E w \<longleftrightarrow> (\<exists>i. on_board i \<and> at sqs i = king_of w)" for w
  have U: "count_list sqs (king_of w) \<le> 1 \<longleftrightarrow> U w" for w
    unfolding U_def by (rule one_at_most [OF assms])
  have E: "king_of w \<in> set sqs \<longleftrightarrow> E w" for w
    unfolding E_def by (rule in_set_at [OF assms])
  have pos: "0 < count_list sqs p \<longleftrightarrow> p \<in> set sqs" for p
    using count_list_0_iff [of sqs p] by (metis gr0I less_numeral_extra(3))
  have "1 \<le> count_list sqs ''K'' + count_list sqs ''k'' \<longleftrightarrow>
      0 < count_list sqs ''K'' \<or> 0 < count_list sqs ''k''"
    by (simp only: One_nat_def Suc_le_eq add_gr_0)
  note some = this [unfolded pos]
  from U [of True] U [of False] E [of True] E [of False]
  have "kings_ok sqs \<longleftrightarrow> U True \<and> U False \<and> (E True \<or> E False)"
    by (simp only: kings_ok_def king_of_def some if_True if_False)
  also have "\<dots> \<longleftrightarrow> (\<forall>w. U w) \<and> (\<exists>w. E w)" by (metis (full_types))
  finally show ?thesis unfolding U_def E_def .
qed

end
