(* ===== verification/Duck_Push.thy ===== *)
theory Duck_Push
  imports Duck_Inv
begin

text \<open>
  \<open>push\<close> keeps boards well formed.  The squares after a turn are described pointwise, once
  for an ordinary turn and once for castling; each part of the invariant is then one lemma
  per kind of turn.
\<close>

subsection \<open>What well-formedness and legality give\<close>

lemma wf_boardD:
  assumes "wf_board b"
  shows "length (squares b) = 64" and "\<And>i. on_board i \<Longrightarrow> wf_piece (at (squares b) i)"
    and "\<And>i. on_board i \<Longrightarrow> lower (at (squares b) i) = ''p'' \<Longrightarrow> i div 8 \<noteq> 0 \<and> i div 8 \<noteq> 7"
    and "duck_ok (squares b) (duck_square b)"
    and "\<And>w i j. on_board i \<Longrightarrow> on_board j \<Longrightarrow> at (squares b) i = king_of w \<Longrightarrow>
           at (squares b) j = king_of w \<Longrightarrow> i = j"
    and "distinct (map fst (rooks b))"
    and "\<And>r. r \<in> set (rooks b) \<Longrightarrow> right_ok (chess960 b) (squares b) r"
    and "ep_ok b" and "0 \<le> halfmove_clock b" and "1 \<le> fullmove_number b"
proof -
  show l: "length (squares b) = 64" using assms by (simp add: wf_board_def)
  show "on_board i \<Longrightarrow> wf_piece (at (squares b) i)" for i
    using assms l by (simp add: wf_board_def list_all_at)
  show "on_board i \<Longrightarrow> lower (at (squares b) i) = ''p'' \<Longrightarrow> i div 8 \<noteq> 0 \<and> i div 8 \<noteq> 7" for i
    using assms by (auto simp: wf_board_def pawns_ok_def list_all_iff)
  show "on_board i \<Longrightarrow> on_board j \<Longrightarrow> at (squares b) i = king_of w \<Longrightarrow>
           at (squares b) j = king_of w \<Longrightarrow> i = j" for w i j
    using assms kings_ok_iff [OF l] unfolding wf_board_def by blast
qed (use assms in \<open>simp_all add: wf_board_def list_all_iff\<close>)

lemma both_kings:
  assumes "\<not> missing_king b" and "length (squares b) = 64"
  obtains i where "on_board i" and "at (squares b) i = king_of w"
proof -
  have "king_of w \<in> set (squares b)"
    using assms(1) by (cases w) (auto simp: missing_king_def king_of_def)
  then show ?thesis using in_set_at [OF assms(2)] that by blast
qed

lemma base_rank: "base_of w \<le> k \<and> k < base_of w + 8 \<longleftrightarrow> on_board k \<and> k div 8 = base_of w div 8"
  by (cases w) (auto simp: base_of_def on_board_def)

lemma base_rank_upto: "k \<in> set [base_of w..base_of w + 7] \<longleftrightarrow> on_board k \<and> k div 8 = base_of w div 8"
  unfolding base_rank [symmetric] by auto

lemma right_okD:
  assumes "right_ok c960 sqs (side, rook)"
  obtains king where "on_board king" and "on_board rook" and "0 \<le> side" and "side < 4"
    and "king div 8 = base_of (side < 2) div 8" and "rook div 8 = base_of (side < 2) div 8"
    and "at sqs rook = rook_of (side < 2)" and "at sqs king = king_of (side < 2)"
    and "side mod 2 = (if rook < king then 1 else 0)"
    and "c960 \<or> king = base_of (side < 2) + 4 \<and> rook = base_of (side < 2) + (if side mod 2 = 0 then 7 else 0)"
proof -
  from assms obtain king where "king \<in> set [base_of (side < 2)..base_of (side < 2) + 7]"
    and k: "at sqs king = king_of (side < 2)"
      "side mod 2 = (if rook < king then 1 else 0)"
      "c960 \<or> king = base_of (side < 2) + 4 \<and> rook = base_of (side < 2) + (if side mod 2 = 0 then 7 else 0)"
    unfolding right_ok_def list_ex_iff split_conv by blast
  then have kb: "on_board king" "king div 8 = base_of (side < 2) div 8"
    unfolding base_rank_upto by simp_all
  have r: "0 \<le> side" "side < 4" "at sqs rook = rook_of (side < 2)"
    and "base_of (side < 2) \<le> rook \<and> rook < base_of (side < 2) + 8"
    using assms by (simp_all add: right_ok_def)
  then have "on_board rook" "rook div 8 = base_of (side < 2) div 8"
    unfolding base_rank by simp_all
  with k kb r show ?thesis using that by blast
qed

lemma right_okI:
  assumes "on_board king" and "on_board rook" and "0 \<le> side" and "side < 4"
    and "king div 8 = base_of (side < 2) div 8" and "rook div 8 = base_of (side < 2) div 8"
    and "at sqs rook = rook_of (side < 2)" and "at sqs king = king_of (side < 2)"
    and "side mod 2 = (if rook < king then 1 else 0)"
    and "c960 \<or> king = base_of (side < 2) + 4 \<and> rook = base_of (side < 2) + (if side mod 2 = 0 then 7 else 0)"
  shows "right_ok c960 sqs (side, rook)"
proof -
  have "king \<in> set [base_of (side < 2)..base_of (side < 2) + 7]"
    unfolding base_rank_upto using assms(1,5) by simp
  moreover have "base_of (side < 2) \<le> rook \<and> rook < base_of (side < 2) + 8"
    unfolding base_rank using assms(2,6) by simp
  ultimately show ?thesis
    using assms(3,4,7-10) unfolding right_ok_def list_ex_iff by auto
qed

text \<open>A right survives when its king and rook stay where they are.\<close>

lemma right_ok_unchanged:
  assumes "right_ok c960 sqs (side, rook)" and "at sqs' rook = at sqs rook"
    and "\<And>king. on_board king \<Longrightarrow> king div 8 = base_of (side < 2) div 8 \<Longrightarrow>
           at sqs king = king_of (side < 2) \<Longrightarrow> at sqs' king = at sqs king"
  shows "right_ok c960 sqs' (side, rook)"
proof -
  obtain king where k: "on_board king" "on_board rook" "0 \<le> side" "side < 4"
    "king div 8 = base_of (side < 2) div 8" "rook div 8 = base_of (side < 2) div 8"
    "at sqs rook = rook_of (side < 2)" "at sqs king = king_of (side < 2)"
    "side mod 2 = (if rook < king then 1 else 0)"
    "c960 \<or> king = base_of (side < 2) + 4 \<and> rook = base_of (side < 2) + (if side mod 2 = 0 then 7 else 0)"
    by (rule right_okD [OF assms(1)])
  have "at sqs' king = king_of (side < 2)" "at sqs' rook = rook_of (side < 2)"
    using assms(3) [OF k(1,5,8)] assms(2) k(7,8) by simp_all
  then show ?thesis using k by (intro right_okI)
qed

subsection \<open>The moving piece\<close>

lemma from_king_unless_castle:
  "castle_side b m = None \<Longrightarrow> piece_legal b m \<Longrightarrow>
   at (squares b) (to_square m) \<noteq> [] \<Longrightarrow> isupper (at (squares b) (to_square m)) \<noteq> turn b"
  by (auto simp: piece_legal_def Let_def split: if_splits)

lemma plain_pawn_legal:
  "castle_side b m = None \<Longrightarrow> piece_legal b m \<Longrightarrow> lower (at (squares b) (from_square m)) = ''p'' \<Longrightarrow>
   pawn_legal b (from_square m) (to_square m)"
  by (auto simp: piece_legal_def Let_def split: if_splits)

lemma plain_promotion:
  "castle_side b m = None \<Longrightarrow> piece_legal b m \<Longrightarrow>
   (promotion m \<noteq> []) = (lower (at (squares b) (from_square m)) = ''p''
     \<and> to_square m div 8 = (if turn b then 7 else 0))"
  by (auto simp: piece_legal_def Let_def split: if_splits)

lemma captures_epD:
  assumes "captures_ep b m" and "castle_side b m = None" and "piece_legal b m" and "wf_board b"
  shows "on_board (ep_victim b m)" and "ep_victim b m \<noteq> to_square m"
    and "ep_victim b m \<noteq> from_square m"
    and "lower (at (squares b) (ep_victim b m)) = ''p''"
proof -
  have pl: "pawn_legal b (from_square m) (to_square m)"
    using plain_pawn_legal [OF assms(2,3)] assms(1) by (simp add: captures_ep_def)
  have ep: "ep_ok b" by (rule wf_boardD [OF assms(4)])
  have e: "ep_square b = Some (to_square m)" "at (squares b) (to_square m) = []"
    "from_square m mod 8 \<noteq> to_square m mod 8"
    using assms(1) by (auto simp: captures_ep_def)
  have v: "at (squares b) (ep_victim b m) = (if turn b then ''p'' else ''P'')"
    using ep e by (simp add: ep_ok_def ep_victim_def Let_def split: if_splits)
  show "on_board (ep_victim b m)"
    using ep e by (auto simp: ep_ok_def ep_victim_def on_board_def Let_def split: if_splits)
  show "ep_victim b m \<noteq> to_square m" by (simp add: ep_victim_def)
  show "lower (at (squares b) (ep_victim b m)) = ''p''" using v by simp
  show "ep_victim b m \<noteq> from_square m"
  proof
    assume "ep_victim b m = from_square m"
    then have "from_square m = to_square m + (if turn b then -1 else 1) * 8"
      by (simp add: ep_victim_def split: if_splits)
    then have "from_square m mod 8 = to_square m mod 8" by (simp only: mod_mult_self1)
    with e(3) show False by simp
  qed
qed

lemma castle_sideD:
  assumes "castle_side b m = Some c"
  obtains rook where "(c, rook) \<in> set (rooks b)" and "(c < 2) = turn b"
    and "at (squares b) (from_square m) = king_of (turn b)"
    and "from_square m div 8 = base_of (turn b) div 8"
    and "to_square m = (if chess960 b then rook else king_dest b c)"
proof -
  have k: "at (squares b) (from_square m) = king_of (turn b)"
    by (rule ccontr) (use assms in \<open>simp add: castle_side_def king_of_def\<close>)
  have d: "from_square m div 8 = castle_base b div 8"
    by (rule ccontr) (use assms in \<open>simp add: castle_side_def split: if_split_asm\<close>)
  have "map_option fst (List.find (\<lambda>(side, rook). (side < 2) = turn b
      \<and> to_square m = (if chess960 b then rook else king_dest b side)) (rooks b)) = Some c"
    using assms k d by (simp only: castle_side_def king_of_def simp_thms if_False)
  then obtain right where r: "List.find (\<lambda>(side, rook). (side < 2) = turn b
      \<and> to_square m = (if chess960 b then rook else king_dest b side)) (rooks b) = Some right"
      "fst right = c"
    by (auto simp only: map_option_eq_Some)
  have d': "from_square m div 8 = base_of (turn b) div 8"
    using d by (simp add: castle_base_def base_of_def)
  obtain rook where "right = (c, rook)" using r(2) by (cases right) simp
  with find_Some_iff_in [OF r(1)] k d' show ?thesis by (intro that) simp_all
qed

subsection \<open>The squares after a turn\<close>

lemma length_push_squares: "length (push_squares b m) = length (squares b)"
  by (simp add: push_squares_def Let_def split: option.splits)

lemma at_push_plain:
  assumes "wf_board b" and "piece_legal b m" and "castle_side b m = None" and "on_board j"
  shows "at (push_squares b m) j =
    (if j = to_square m then moved_piece b m
     else if j = from_square m \<or> captures_ep b m \<and> j = ep_victim b m then []
     else at (squares b) j)"
  using assms piece_legalD(1,2) [OF assms(2)] wf_boardD(1) [OF assms(1)]
    captures_epD(1) [OF _ assms(3,2,1)]
  by (auto simp: push_squares_def Let_def at_update)

lemma castle_dest_on_board:
  "on_board (king_dest b c)" "on_board (rook_dest b c)" "king_dest b c \<noteq> rook_dest b c"
  "king_dest b c div 8 = base_of (turn b) div 8" "rook_dest b c div 8 = base_of (turn b) div 8"
  by (auto simp: king_dest_def rook_dest_def castle_base_def base_of_def on_board_def)

lemma at_push_castle:
  assumes "wf_board b" and "piece_legal b m" and "castle_side b m = Some c"
    and "map_of (rooks b) c = Some rook" and "on_board rook" and "on_board j"
  shows "at (push_squares b m) j =
    (if j = rook_dest b c then rook_of (turn b)
     else if j = king_dest b c then king_of (turn b)
     else if j = from_square m \<or> j = rook then []
     else at (squares b) j)"
proof -
  have k: "at (squares b) (from_square m) = king_of (turn b)"
    by (rule castle_sideD [OF assms(3)])
  show ?thesis
    using assms k piece_legalD(1) [OF assms(2)] wf_boardD(1) [OF assms(1)] castle_dest_on_board
    by (auto simp: push_squares_def Let_def at_update rook_of_def)
qed

subsection \<open>An ordinary turn\<close>

text \<open>The facts an ordinary legal turn on a well-formed board gives, collected once.\<close>

lemma moved_piece_wf:
  assumes "wf_board b" and "piece_legal b m" and "promotion_ok (promotion m)"
  shows "wf_piece (moved_piece b m)"
  using promotion_piece(1) [OF assms(3), of "turn b"] wf_boardD(2) [OF assms(1)] piece_legalD(1) [OF assms(2)]
  by (auto simp: moved_piece_def)

lemma moved_king:
  assumes "promotion_ok (promotion m)" and "moved_piece b m = king_of w"
  shows "at (squares b) (from_square m) = king_of w"
  using promotion_piece(3) [OF assms(1), of "turn b" w] assms(2)
  by (auto simp: moved_piece_def split: if_splits)

lemma king_not_promoted:
  assumes "piece_legal b m" and "castle_side b m = None" and "at (squares b) (from_square m) = king_of w"
  shows "moved_piece b m = king_of w"
  using plain_promotion [OF assms(2,1)] assms(3) by (simp add: moved_piece_def)

lemma plain_pieces_ok:
  assumes "wf_board b" and "piece_legal b m" and "castle_side b m = None" and "promotion_ok (promotion m)"
  shows "list_all wf_piece (push_squares b m)"
  using at_push_plain [OF assms(1-3)] moved_piece_wf [OF assms(1,2,4)] wf_boardD(1,2) [OF assms(1)]
  by (simp add: list_all_at length_push_squares)

lemma plain_pawns_ok:
  assumes "wf_board b" and "piece_legal b m" and "castle_side b m = None" and "promotion_ok (promotion m)"
  shows "pawns_ok (push_squares b m)"
proof -
  have "sq div 8 \<noteq> 0 \<and> sq div 8 \<noteq> 7"
    if sq: "on_board sq" "lower (at (push_squares b m) sq) = ''p''" for sq
  proof (cases "sq = to_square m")
    case True
    with sq have p: "lower (moved_piece b m) = ''p''" by (simp add: at_push_plain [OF assms(1-3)])
    then have np: "promotion m = []"
      using promotion_piece(2) [OF assms(4), of "turn b"]
      by (cases "promotion m = []") (simp_all add: moved_piece_def)
    with p have k: "lower (at (squares b) (from_square m)) = ''p''" by (simp add: moved_piece_def)
    have "to_square m div 8 \<noteq> (if turn b then 7 else 0)"
      using plain_promotion [OF assms(3,2)] np k by auto
    moreover have "to_square m div 8 \<noteq> (if turn b then 0 else 7)"
      by (rule pawn_legal_target [OF plain_pawn_legal [OF assms(3,2) k] piece_legalD(1,2) [OF assms(2)]])
    ultimately show ?thesis using True by (cases "turn b") auto
  next
    case False
    with sq show ?thesis using wf_boardD(3) [OF assms(1), of sq]
      by (auto simp: at_push_plain [OF assms(1-3)] split: if_splits)
  qed
  then show ?thesis by (simp add: pawns_ok_def list_all_iff)
qed

lemma plain_duck_ok:
  assumes "wf_board b" and "is_legal b m" and "castle_side b m = None"
  shows "duck_ok (push_squares b m) (case duck_to m of None \<Rightarrow> duck_square b | Some d \<Rightarrow> Some d)"
proof -
  have pl: "piece_legal b m" by (rule is_legalD [OF assms(2)])
  note at = at_push_plain [OF assms(1) pl assms(3)]
  show ?thesis
  proof (cases "duck_to m")
    case None
    have "duck_ok (squares b) (duck_square b)" by (rule wf_boardD [OF assms(1)])
    then show ?thesis using None piece_legalD(4) [OF pl]
      by (auto simp: duck_ok_def at split: option.splits)
  next
    case (Some d)
    then have d: "duck_step_legal b m d" by (rule is_legalD [OF assms(2)])
    then have "on_board d" using duck_step_on_board by blast
    moreover have "at (push_squares b m) d = []"
      using d assms(3) piece_legalD(3) [OF pl] \<open>on_board d\<close> captures_epD(2) [OF _ assms(3) pl assms(1)]
      by (auto simp: duck_step_legal_def at split: if_splits)
    ultimately show ?thesis using Some by (simp add: duck_ok_def)
  qed
qed

lemma plain_kings_ok:
  assumes "wf_board b" and "is_legal b m" and "castle_side b m = None" and "promotion_ok (promotion m)"
  shows "kings_ok (push_squares b m)"
proof -
  have pl: "piece_legal b m" by (rule is_legalD [OF assms(2)])
  note at = at_push_plain [OF assms(1) pl assms(3)]
  note old = wf_boardD(5) [OF assms(1)]
  have src: "on_board (from_square m)" "on_board (to_square m)" by (rule piece_legalD [OF pl])+
  have from_old: "at (squares b) (if i = to_square m then from_square m else i) = king_of w
      \<and> on_board (if i = to_square m then from_square m else i) \<and> i \<noteq> from_square m"
    if "on_board i" "at (push_squares b m) i = king_of w" for i w
    using that moved_king [OF assms(4)] src piece_legalD(3) [OF pl]
    by (auto simp: at split: if_splits)
  have uniq: "i = j" if "on_board i" "on_board j"
      "at (push_squares b m) i = king_of w" "at (push_squares b m) j = king_of w" for i j w
  proof -
    have "(if i = to_square m then from_square m else i) = (if j = to_square m then from_square m else j)"
      by (rule old [of _ _ w]) (use from_old [OF that(1,3)] from_old [OF that(2,4)] in blast)+
    moreover have "i \<noteq> from_square m" "j \<noteq> from_square m"
      using from_old [OF that(1,3)] from_old [OF that(2,4)] by blast+
    ultimately show ?thesis by (simp split: if_splits)
  qed
  obtain k where k: "on_board k" "at (squares b) k = king_of (turn b)"
    by (rule both_kings [OF is_legalD(1) [OF assms(2)] wf_boardD(1) [OF assms(1)]])
  have ex: "\<exists>i. on_board i \<and> at (push_squares b m) i = king_of (turn b)"
  proof (cases "k = from_square m")
    case True
    then show ?thesis using king_not_promoted [OF pl assms(3)] k src by (auto simp: at)
  next
    case False
    have "k \<noteq> to_square m"
      using from_king_unless_castle [OF assms(3) pl] k(2) by auto
    moreover have "captures_ep b m \<Longrightarrow> k \<noteq> ep_victim b m"
      using captures_epD(4) [OF _ assms(3) pl assms(1)] k(2) by auto
    ultimately show ?thesis using False k by (auto simp: at)
  qed
  show ?thesis
    unfolding kings_ok_iff [OF trans [OF length_push_squares wf_boardD(1) [OF assms(1)]]]
    using uniq ex by blast
qed

lemma plain_rights_ok:
  assumes "wf_board b" and "piece_legal b m" and "castle_side b m = None"
    and "r \<in> set (rooks b)" and "keeps_right b m r"
  shows "right_ok (chess960 b) (push_squares b m) r"
proof -
  obtain side rook where r: "r = (side, rook)" by (cases r)
  note at = at_push_plain [OF assms(1-3)]
  have ok: "right_ok (chess960 b) (squares b) (side, rook)"
    using wf_boardD(7) [OF assms(1,4)] r by simp
  have kr: "\<not> (lower (at (squares b) (from_square m)) = ''k'' \<and> (side < 2) = turn b)"
      "\<not> (lower (at (squares b) (to_square m)) = ''k'' \<and> (side < 2) \<noteq> turn b)"
      "rook \<noteq> from_square m" "rook \<noteq> to_square m"
    using assms(3,5) r by (auto simp: keeps_right_def)
  have victim: "captures_ep b m \<Longrightarrow> at (squares b) j = king_of w \<or> at (squares b) j = rook_of w
      \<Longrightarrow> j \<noteq> ep_victim b m" for j w
    using captures_epD(4) [OF _ assms(3,2,1)] by auto
  have rk: "on_board rook" "at (squares b) rook = rook_of (side < 2)"
    by (rule right_okD [OF ok], assumption)+
  have "at (push_squares b m) rook = at (squares b) rook"
    using kr(3,4) victim [of rook "side < 2"] rk by (auto simp: at)
  moreover have "at (push_squares b m) king = at (squares b) king"
    if "on_board king" "at (squares b) king = king_of (side < 2)" for king
  proof -
    have "king \<noteq> from_square m"
      using kr(1) that piece_legalD(6) [OF assms(2)] by auto
    moreover have "king \<noteq> to_square m"
      using kr(2) that from_king_unless_castle [OF assms(3,2)] by auto
    ultimately show ?thesis using that victim [of king "side < 2"] by (auto simp: at)
  qed
  ultimately show ?thesis unfolding r by (intro right_ok_unchanged [OF ok]) auto
qed

end
