(* ===== verification/Duck_Castle.thy ===== *)
theory Duck_Castle
  imports Duck_Push
begin

text \<open>
  The castling half of \<open>push\<close> keeping boards well formed, the two halves put together, and
  the boards a game can reach.
\<close>

subsection \<open>Castling\<close>

text \<open>The facts a legal castling turn gives.\<close>

lemma castle_legalD:
  assumes "wf_board b" and "piece_legal b m" and "castle_side b m = Some c"
  obtains rook where "map_of (rooks b) c = Some rook" and "(c, rook) \<in> set (rooks b)"
    and "(c < 2) = turn b" and "on_board rook" and "rook div 8 = base_of (turn b) div 8"
    and "at (squares b) rook = rook_of (turn b)"
    and "at (squares b) (from_square m) = king_of (turn b)"
    and "from_square m div 8 = base_of (turn b) div 8"
    and "promotion m = []"
    and "to_square m = (if chess960 b then rook else king_dest b c)"
    and "castle_path_clear b c (from_square m) rook"
proof -
  obtain rook where r: "(c, rook) \<in> set (rooks b)" "(c < 2) = turn b"
    "at (squares b) (from_square m) = king_of (turn b)"
    "from_square m div 8 = base_of (turn b) div 8"
    "to_square m = (if chess960 b then rook else king_dest b c)"
    by (rule castle_sideD [OF assms(3)])
  have "map_of (rooks b) c = Some rook"
    using r(1) wf_boardD(6) [OF assms(1)] by simp
  moreover from this have "promotion m = []" "castle_path_clear b c (from_square m) rook"
    using assms(2,3) by (auto simp: piece_legal_def Let_def split: if_splits)
  moreover have "right_ok (chess960 b) (squares b) (c, rook)"
    by (rule wf_boardD(7) [OF assms(1) r(1)])
  then have "on_board rook" "rook div 8 = base_of (turn b) div 8"
    "at (squares b) rook = rook_of (turn b)"
    unfolding r(2) [symmetric] by - (rule right_okD, assumption+)+
  ultimately show ?thesis using r that by blast
qed

lemma castle_path_at:
  assumes "castle_path_clear b c source rook" and "sq = king_dest b c \<or> sq = rook_dest b c"
  shows "sq = source \<or> sq = rook \<or> at (squares b) sq = []"
proof -
  have "sq \<in> set (span source (king_dest b c) @ span rook (rook_dest b c))"
    using assms(2) by (auto simp: span_def)
  then show ?thesis using assms(1) by (auto simp: castle_path_clear_def list_all_iff)
qed

text \<open>The squares after castling, told apart only as far as the invariant needs.\<close>

lemma castle_squares:
  assumes "wf_board b" and "piece_legal b m" and "castle_side b m = Some c" and "on_board j"
  shows "at (push_squares b m) j \<in> {[], king_of (turn b), rook_of (turn b), at (squares b) j}"
    and "at (push_squares b m) j = king_of w \<Longrightarrow>
          (if w = turn b then j = king_dest b c else at (squares b) j = king_of w)"
    and "at (push_squares b m) (king_dest b c) = king_of (turn b)"
    and "at (squares b) j \<noteq> [] \<Longrightarrow> j div 8 \<noteq> base_of (turn b) div 8 \<Longrightarrow>
          at (push_squares b m) j = at (squares b) j"
proof -
  obtain rook where r: "map_of (rooks b) c = Some rook" "on_board rook"
      "rook div 8 = base_of (turn b) div 8"
      "at (squares b) (from_square m) = king_of (turn b)"
      "from_square m div 8 = base_of (turn b) div 8"
    by (rule castle_legalD [OF assms(1-3)])
  note at = at_push_castle [OF assms(1-3) r(1,2)]
  have src: "on_board (from_square m)" by (rule piece_legalD [OF assms(2)])
  show "at (push_squares b m) j \<in> {[], king_of (turn b), rook_of (turn b), at (squares b) j}"
    by (simp add: at [OF assms(4)])
  show "at (push_squares b m) (king_dest b c) = king_of (turn b)"
    using castle_dest_on_board by (simp add: at)
  show "at (squares b) j \<noteq> [] \<Longrightarrow> j div 8 \<noteq> base_of (turn b) div 8 \<Longrightarrow>
          at (push_squares b m) j = at (squares b) j"
    using r(3,5) castle_dest_on_board(4,5) [of b c] by (auto simp: at [OF assms(4)])
  show "if w = turn b then j = king_dest b c else at (squares b) j = king_of w"
    if "at (push_squares b m) j = king_of w"
  proof (cases "w = turn b")
    case True
    have "at (squares b) j = king_of w \<Longrightarrow> j = from_square m"
      by (rule wf_boardD(5) [OF assms(1,4) src, of w]) (simp_all add: r(4) True)
    then show ?thesis using that True by (auto simp: at [OF assms(4)] split: if_splits)
  next
    case False
    then show ?thesis using that by (auto simp: at [OF assms(4)] split: if_splits)
  qed
qed

lemma castle_pieces_ok:
  assumes "wf_board b" and "piece_legal b m" and "castle_side b m = Some c"
  shows "list_all wf_piece (push_squares b m)" and "pawns_ok (push_squares b m)"
proof -
  have one: "wf_piece (at (push_squares b m) j)" if "on_board j" for j
    using castle_squares(1) [OF assms that] wf_boardD(2) [OF assms(1) that] by auto
  then show "list_all wf_piece (push_squares b m)"
    using wf_boardD(1) [OF assms(1)] by (simp add: list_all_at length_push_squares)
  have "j div 8 \<noteq> 0 \<and> j div 8 \<noteq> 7" if "on_board j" "lower (at (push_squares b m) j) = ''p''" for j
    using castle_squares(1) [OF assms that(1)] wf_boardD(3) [OF assms(1) that(1)] that(2) by auto
  then show "pawns_ok (push_squares b m)" by (simp add: pawns_ok_def list_all_iff)
qed

lemma castle_kings_ok:
  assumes "wf_board b" and "piece_legal b m" and "castle_side b m = Some c"
  shows "kings_ok (push_squares b m)"
proof -
  note sq = castle_squares(2) [OF assms]
  have "i = j" if "on_board i" "on_board j" "at (push_squares b m) i = king_of w"
      "at (push_squares b m) j = king_of w" for i j w
  proof (cases "w = turn b")
    case True
    then show ?thesis using sq [OF that(1,3)] sq [OF that(2,4)] by simp
  next
    case False
    then show ?thesis
      using sq [OF that(1,3)] sq [OF that(2,4)] wf_boardD(5) [OF assms(1) that(1,2), of w] by simp
  qed
  moreover have "\<exists>w i. on_board i \<and> at (push_squares b m) i = king_of w"
    using castle_squares(3) [OF assms castle_dest_on_board(1)] castle_dest_on_board(1) by blast
  ultimately show ?thesis
    unfolding kings_ok_iff [OF trans [OF length_push_squares wf_boardD(1) [OF assms(1)]]] by blast
qed

lemma castle_duck_ok:
  assumes "wf_board b" and "is_legal b m" and "castle_side b m = Some c"
  shows "duck_ok (push_squares b m) (case duck_to m of None \<Rightarrow> duck_square b | Some d \<Rightarrow> Some d)"
proof -
  have pl: "piece_legal b m" by (rule is_legalD [OF assms(2)])
  obtain rook where r: "map_of (rooks b) c = Some rook" "on_board rook"
      "at (squares b) rook = rook_of (turn b)"
      "to_square m = (if chess960 b then rook else king_dest b c)"
      "castle_path_clear b c (from_square m) rook"
    by (rule castle_legalD [OF assms(1) pl assms(3)])
  note at = at_push_castle [OF assms(1) pl assms(3) r(1,2)]
  show ?thesis
  proof (cases "duck_to m")
    case None
    have "lower (at (squares b) (to_square m)) = ''k''" by (rule is_legalD(3) [OF assms(2) None])
    moreover have "to_square m = rook \<or> at (squares b) (to_square m) = []"
      using castle_path_at [OF r(5), of "to_square m"] r(4) piece_legalD(3) [OF pl]
      by (auto split: if_splits)
    ultimately have False using r(3) by auto
    then show ?thesis ..
  next
    case (Some d)
    then have d: "duck_step_legal b m d" by (rule is_legalD [OF assms(2)])
    then have "on_board d" using duck_step_on_board by blast
    moreover have "at (push_squares b m) d = []"
      using d assms(3) r(1) by (auto simp: duck_step_legal_def at [OF \<open>on_board d\<close>] split: if_splits)
    ultimately show ?thesis using Some by (simp add: duck_ok_def)
  qed
qed

lemma castle_rights_ok:
  assumes "wf_board b" and "piece_legal b m" and "castle_side b m = Some c"
    and "r \<in> set (rooks b)" and "keeps_right b m r"
  shows "right_ok (chess960 b) (push_squares b m) r"
proof -
  obtain side rook where r: "r = (side, rook)" by (cases r)
  have ok: "right_ok (chess960 b) (squares b) (side, rook)"
    using wf_boardD(7) [OF assms(1,4)] r by simp
  have "(side < 2) \<noteq> turn b"
    using assms(5) castle_side_king [OF assms(3)] r by (auto simp: keeps_right_def)
  then have other: "base_of (side < 2) div 8 \<noteq> base_of (turn b) div 8"
    by (cases "turn b") (auto simp: base_of_def)
  have rk: "on_board rook" "at (squares b) rook = rook_of (side < 2)"
    "rook div 8 = base_of (side < 2) div 8"
    by (rule right_okD [OF ok], assumption)+
  have "at (push_squares b m) rook = at (squares b) rook"
    using castle_squares(4) [OF assms(1-3) rk(1)] rk other by simp
  moreover have "at (push_squares b m) king = at (squares b) king"
    if "on_board king" "king div 8 = base_of (side < 2) div 8"
      "at (squares b) king = king_of (side < 2)" for king
    using castle_squares(4) [OF assms(1-3) that(1)] that other by simp
  ultimately show ?thesis unfolding r by (intro right_ok_unchanged [OF ok]) auto
qed

subsection \<open>The en-passant square\<close>

lemma push_ep_pawn:
  assumes "wf_board b" and "piece_legal b m" and "push_ep b m = Some ep"
  shows "castle_side b m = None" and "lower (at (squares b) (from_square m)) = ''p''"
    and "ep = from_square m + (if turn b then 8 else -8)"
    and "to_square m = from_square m + (if turn b then 16 else -16)"
    and "from_square m div 8 = (if turn b then 1 else 6)"
    and "at (squares b) ep = []"
proof -
  show p: "lower (at (squares b) (from_square m)) = ''p''"
    using assms(3) by (auto simp: push_ep_def split: if_splits)
  show c: "castle_side b m = None"
    using castle_side_king [of b m] p by (cases "castle_side b m") auto
  let ?s = "from_square m" and ?t = "to_square m"
  have pl: "pawn_legal b ?s ?t" by (rule plain_pawn_legal [OF c assms(2) p])
  have d: "\<bar>?t - ?s\<bar> = 16" "ep = (?s + ?t) div 2"
    using assms(3) by (auto simp: push_ep_def split: if_splits)
  have st: "?t div 8 = ?s div 8 + 2 \<and> ?t = ?s + 16 \<or> ?t div 8 = ?s div 8 - 2 \<and> ?t = ?s - 16"
    using d(1) by (auto simp: abs_if split: if_splits)
  have step: "?t div 8 - ?s div 8 = 2 * (if turn b then 1 else -1)
      \<and> ?s div 8 = (if turn b then 1 else 6)
      \<and> at (squares b) (?s + 8 * (if turn b then 1 else -1)) = []"
    using pl st by (auto simp: pawn_legal_def Let_def split: if_splits)
  show t: "?t = ?s + (if turn b then 16 else -16)" using step st by (auto split: if_splits)
  show e: "ep = ?s + (if turn b then 8 else -8)" using d(2) t by (auto split: if_splits)
  show "?s div 8 = (if turn b then 1 else 6)" using step by simp
  show "at (squares b) ep = []" using step e by (auto split: if_splits)
qed

lemma push_ep_ok:
  assumes "wf_board b" and "piece_legal b m"
  shows "ep_ok (push_raw b m)"
proof (cases "push_ep b m")
  case None
  then show ?thesis by (simp add: ep_ok_def push_raw_def)
next
  case (Some ep)
  note f = push_ep_pawn [OF assms Some]
  have b: "on_board (from_square m)" "on_board (to_square m)" "from_square m \<noteq> to_square m"
    by (rule piece_legalD [OF assms(2)])+
  have on: "on_board ep" using f(3,4) b by (auto simp: on_board_def split: if_splits)
  note at = at_push_plain [OF assms f(1)]
  have prom: "promotion m = []"
    using plain_promotion [OF f(1) assms(2)] f(4,5) by (auto split: if_splits)
  have piece: "at (squares b) (from_square m) = (if turn b then ''P'' else ''p'')"
    using pawn_colour [OF wf_boardD(2) [OF assms(1) b(1)] f(2)] piece_legalD(6) [OF assms(2)] by simp
  have "to_square m = from_square m + (if turn b then 2 else -2) * 8" using f(4) by simp
  then have "from_square m mod 8 = to_square m mod 8" by (simp only: mod_mult_self1)
  then have nocap: "\<not> captures_ep b m" by (simp add: captures_ep_def)
  have "at (push_squares b m) ep = []" using on f(3,4,6) nocap by (auto simp: at split: if_splits)
  moreover have "at (push_squares b m) (from_square m) = []" using b by (simp add: at)
  moreover have "at (push_squares b m) (to_square m) = (if turn b then ''P'' else ''p'')"
    using b piece prom by (simp add: at moved_piece_def)
  ultimately show ?thesis
    using Some f(3,4,5)
    by (auto simp: ep_ok_def push_raw_def Let_def add.commute [of 16] split: if_splits)
qed

subsection \<open>All turns\<close>

lemma push_raw_wf:
  assumes "wf_board b" and "is_legal b m" and "promotion_ok (promotion m)"
  shows "wf_board (push_raw b m)"
proof -
  have pl: "piece_legal b m" by (rule is_legalD [OF assms(2)])
  have "list_all wf_piece (push_squares b m) \<and> pawns_ok (push_squares b m) \<and> kings_ok (push_squares b m)
      \<and> duck_ok (push_squares b m) (case duck_to m of None \<Rightarrow> duck_square b | Some d \<Rightarrow> Some d)
      \<and> (\<forall>r \<in> set (rooks b). keeps_right b m r \<longrightarrow> right_ok (chess960 b) (push_squares b m) r)"
  proof (cases "castle_side b m")
    case None
    show ?thesis
      using plain_pieces_ok [OF assms(1) pl None assms(3)] plain_pawns_ok [OF assms(1) pl None assms(3)]
        plain_kings_ok [OF assms(1,2) None assms(3)] plain_duck_ok [OF assms(1,2) None]
        plain_rights_ok [OF assms(1) pl None] by blast
  next
    case (Some c)
    show ?thesis
      using castle_pieces_ok [OF assms(1) pl Some] castle_kings_ok [OF assms(1) pl Some]
        castle_duck_ok [OF assms(1,2) Some] castle_rights_ok [OF assms(1) pl Some] by blast
  qed
  moreover have "distinct (map fst (filter (keeps_right b m) (rooks b)))"
    using wf_boardD(6) [OF assms(1)] by (simp add: distinct_map_filter)
  ultimately show ?thesis
    using push_ep_ok [OF assms(1) pl] wf_boardD(1,9,10) [OF assms(1)]
    by (auto simp: wf_board_def push_raw_def length_push_squares list_all_iff push_halfmove_def
        Let_def split: option.splits)
qed

lemma push_Inr:
  "push L b m = Inr b' \<longleftrightarrow> is_legal b m \<and>
     b' = (push_raw b m)\<lparr>positions := (positions b)
       (repetition_key L (push_raw b m) := positions b (repetition_key L (push_raw b m)) + 1)\<rparr>"
  by (auto simp: push_def Let_def push_raw_def)

lemma wf_board_positions [simp]: "wf_board (b\<lparr>positions := p\<rparr>) = wf_board b"
  by (simp add: wf_board_def ep_ok_def Let_def cong: option.case_cong)

text \<open>
  Playing a turn keeps the board well formed: 64 known pieces, at most one king a side,
  no pawn on a last rank, the duck on an empty square, castling rights backed by king and
  rook, and a possible en-passant square.  The promotion is one \<open>from_uci\<close> reads.
\<close>

lemma push_keeps_wf:
  assumes "wf_board b" and "promotion_ok (promotion m)" and "push L b m = Inr b'"
  shows "wf_board b'"
  using push_raw_wf [OF assms(1) _ assms(2)] assms(3) by (auto simp: push_Inr)

end
