(* ===== verification/Duck_Fen.thy ===== *)
theory Duck_Fen
  imports Duck_Castle
begin

text \<open>
  The FEN reader and printer of duck boards.  Reading accepts only well-formed boards, and
  reading what was printed for a well-formed board gives the position back.
\<close>

subsection \<open>What the reader accepts\<close>

text \<open>
  The invariant of the placement loop: the squares from the current one on are still empty,
  the others hold known pieces, and the duck stands on an empty square already passed.
\<close>

definition passed :: "int \<Rightarrow> int \<Rightarrow> int \<Rightarrow> bool" where
  "passed index fl sq = (7 - index < sq div 8 \<or> sq div 8 = 7 - index \<and> sq mod 8 < fl)"

definition placing :: "int \<Rightarrow> placement \<Rightarrow> bool" where
  "placing index st = (case st of (fl, sqs, dk) \<Rightarrow>
     0 \<le> fl \<and> length sqs = 64
     \<and> (\<forall>sq. on_board sq \<longrightarrow> wf_piece (at sqs sq)
          \<and> (lower (at sqs sq) = ''p'' \<longrightarrow> sq div 8 \<noteq> 0 \<and> sq div 8 \<noteq> 7)
          \<and> (\<not> passed index fl sq \<longrightarrow> at sqs sq = []))
     \<and> (\<forall>d. dk = Some d \<longrightarrow> on_board d \<and> at sqs d = [] \<and> passed index fl d))"

lemma is_piece_lower_p: "is_piece c \<Longrightarrow> lower [c] = ''p'' \<longleftrightarrow> lower_char c = CHR ''p''"
  by (simp add: lower_def)

lemma is_piece_wf: "is_piece c \<Longrightarrow> wf_piece [c]"
  by (simp add: wf_piece_def)

lemma rank_square:
  assumes "0 \<le> index" and "index \<le> 7" and "0 \<le> fl" and "fl < (8::int)"
  shows "on_board ((7 - index) * 8 + fl)"
    and "((7 - index) * 8 + fl) div 8 = 7 - index" and "((7 - index) * 8 + fl) mod 8 = fl"
proof -
  have "(fl + (7 - index) * 8) mod 8 = fl" using assms(3,4) by (simp only: mod_mult_self1 mod_pos_pos_trivial)
  then show "((7 - index) * 8 + fl) mod 8 = fl" by (simp only: add.commute)
qed (use assms in \<open>auto simp: on_board_def\<close>)

lemma passed_step: "passed index fl sq \<Longrightarrow> fl \<le> file' \<Longrightarrow> passed index file' sq"
  by (auto simp: passed_def)

lemma place_char_placing:
  assumes "placing index (fl, sqs, dk)" and "place_char index (fl, sqs, dk) c = Inr st"
    and "0 \<le> index" and "index \<le> 7"
  shows "placing index st"
proof -
  from assms(1) have f: "0 \<le> fl" "length sqs = 64"
    and all: "\<And>sq. on_board sq \<Longrightarrow> wf_piece (at sqs sq)
          \<and> (lower (at sqs sq) = ''p'' \<longrightarrow> sq div 8 \<noteq> 0 \<and> sq div 8 \<noteq> 7)
          \<and> (\<not> passed index fl sq \<longrightarrow> at sqs sq = [])"
    and dk: "\<And>d. dk = Some d \<Longrightarrow> on_board d \<and> at sqs d = [] \<and> passed index fl d"
    by (auto simp: placing_def)
  let ?sq = "(7 - index) * 8 + fl"
  consider (digit) "st = (fl + int (digit_value c), sqs, dk)"
    | (duck) "fl < 8" "st = (fl + 1, sqs, Some ?sq)"
    | (piece) "fl < 8" "is_piece c" "lower_char c = CHR ''p'' \<longrightarrow> index \<noteq> 0 \<and> index \<noteq> 7"
        "st = (fl + 1, sqs[nat ?sq := [c]], dk)"
    using assms(2) by (auto simp: place_char_def Let_def split: if_splits)
  then show ?thesis
  proof cases
    case digit
    then show ?thesis using f all dk passed_step [of index fl _ "fl + int (digit_value c)"]
      by (fastforce simp: placing_def)
  next
    case duck
    note sq = rank_square [OF assms(3,4) f(1) duck(1)]
    have "at sqs ?sq = []" using all [OF sq(1)] sq by (auto simp: passed_def)
    moreover have "passed index (fl + 1) ?sq" using sq by (simp add: passed_def)
    ultimately show ?thesis
      using f all sq(1) duck passed_step [of index fl _ "fl + 1"]
      by (auto simp: placing_def)
  next
    case piece
    note sq = rank_square [OF assms(3,4) f(1) piece(1)]
    have ps: "passed index (fl + 1) ?sq" using sq by (simp add: passed_def)
    have new: "at (sqs[nat ?sq := [c]]) j = (if j = ?sq then [c] else at sqs j)" if "on_board j" for j
      using at_update [OF f(2) sq(1) that] by auto
    have np: "\<not> passed index fl ?sq" using sq by (simp add: passed_def)
    have "wf_piece (at (sqs[nat ?sq := [c]]) j)
        \<and> (lower (at (sqs[nat ?sq := [c]]) j) = ''p'' \<longrightarrow> j div 8 \<noteq> 0 \<and> j div 8 \<noteq> 7)
        \<and> (\<not> passed index (fl + 1) j \<longrightarrow> at (sqs[nat ?sq := [c]]) j = [])" if j: "on_board j" for j
    proof (cases "j = ?sq")
      case True
      then show ?thesis using new [OF j] sq(2) ps piece(2,3) is_piece_wf is_piece_lower_p by auto
    next
      case False
      then show ?thesis using new [OF j] all [OF j] passed_step [of index fl j "fl + 1"] by auto
    qed
    moreover have "on_board d \<and> at (sqs[nat ?sq := [c]]) d = [] \<and> passed index (fl + 1) d"
      if "dk = Some d" for d
      using dk [OF that] np new [of d] passed_step [of index fl d "fl + 1"] by auto
    ultimately show ?thesis using f piece(4) by (auto simp: placing_def)
  qed
qed

lemma place_rank_placing:
  assumes "placing index (0, sqs, dk)" and "place_rank (sqs, dk) (index, rank) = Inr (sqs', dk')"
    and "0 \<le> index" and "index \<le> 7"
  shows "placing (index + 1) (0, sqs', dk')"
proof -
  obtain fl where f: "fold_result (place_char index) (0, sqs, dk) rank = Inr (fl, sqs', dk')"
    and fl: "fl = 8"
    using assms(2) by (auto simp: place_rank_def rbind_eq_Inr split: if_splits)
  have "placing index (fl, sqs', dk')"
    by (rule fold_result_invariant [OF f, where P = "placing index"])
      (use assms place_char_placing in \<open>auto split: prod.splits\<close>)
  moreover have "passed index 8 sq \<Longrightarrow> passed (index + 1) 0 sq" for sq
    by (auto simp: passed_def)
  moreover have "passed (index + 1) 0 sq \<Longrightarrow> passed index 8 sq" for sq
    using pos_mod_bound [of 8 sq] by (fastforce simp: passed_def)
  ultimately show ?thesis unfolding fl placing_def by auto
qed

lemma place_ranks_placing:
  assumes "place_ranks ranks = Inr (sqs, dk)" and "length ranks = 8"
  shows "placing 8 (0, sqs, dk)"
proof -
  have start: "placing 0 (0, replicate 64 [], None)"
  proof -
    have "at (replicate 64 []) sq = []" if "on_board sq" for sq
      using on_board_nat [OF that] by (simp add: at_def)
    then show ?thesis by (auto simp: placing_def)
  qed
  have gen: "placing (int n + int (length rs)) (0, st')"
    if "placing (int n) (0, st)" "n + length rs \<le> 8"
      "fold_result place_rank st (zip (map int [n..<n + length rs]) rs) = Inr st'" for rs n st st'
    using that
  proof (induction rs arbitrary: n st)
    case Nil
    then show ?case by simp
  next
    case (Cons r rs)
    have up: "zip (map int [n..<n + length (r # rs)]) (r # rs)
        = (int n, r) # zip (map int [Suc n..<Suc n + length rs]) rs"
      by (subst upt_conv_Cons) simp_all
    obtain t where t: "place_rank st (int n, r) = Inr t"
      "fold_result place_rank t (zip (map int [Suc n..<Suc n + length rs]) rs) = Inr st'"
      using Cons.prems(3) unfolding up by (auto simp: rbind_eq_Inr)
    have "placing (int n + 1) (0, t)"
      using place_rank_placing [of "int n" "fst st" "snd st" r "fst t" "snd t"] Cons.prems(1,2) t(1)
      by simp
    then have "placing (int (Suc n)) (0, t)" by (simp add: add.commute)
    from Cons.IH [OF this _ t(2)] Cons.prems(2) show ?case by (simp add: ac_simps)
  qed
  have "fold_result place_rank (replicate 64 [], None) (zip (map int [0..<0 + length ranks]) ranks)
      = Inr (sqs, dk)"
    using assms(1) by (simp add: place_ranks_def)
  from gen [of 0, OF _ _ this] start assms(2) show ?thesis by simp
qed

lemma AList_update_fresh: "k \<notin> fst ` set xs \<Longrightarrow> AList.update k v xs = xs @ [(k, v)]"
  by (induction xs) auto

lemma find_king_Some:
  assumes "find_king sqs white = Some king"
  shows "at sqs king = king_of white" and "on_board king" and "king div 8 = base_of white div 8"
proof -
  have "king \<in> set [base_of white..base_of white + 7] \<and> at sqs king = king_of white"
    using find_Some_iff_in [OF assms [unfolded find_king_def Let_def]]
    by (simp add: base_of_def king_of_def)
  then show "at sqs king = king_of white" "on_board king" "king div 8 = base_of white div 8"
    unfolding base_rank_upto by simp_all
qed

text \<open>Where the rook a castling letter names can be.\<close>

lemma right_rook_rank:
  assumes "right_rook c960 sqs right (base_of (is_upper right)) king = Inr (Some rook)"
    and "on_board king"
  shows "on_board rook \<and> rook div 8 = base_of (is_upper right) div 8"
    and "\<not> c960 \<Longrightarrow> king = base_of (is_upper right) + 4
          \<and> rook = base_of (is_upper right) + (if lower_char right = CHR ''k'' then 7 else 0)"
proof -
  let ?b = "base_of (is_upper right)"
  show plain: "king = ?b + 4 \<and> rook = ?b + (if lower_char right = CHR ''k'' then 7 else 0)" if "\<not> c960"
    using assms(1) that by (simp add: right_rook_def Let_def split: if_splits)
  have "?b \<le> rook \<and> rook < ?b + 8"
  proof (cases c960)
    case False
    then show ?thesis using plain by auto
  next
    case True
    consider (search) files where "set files \<subseteq> {0..7}"
        "List.find (\<lambda>sq. at sqs sq = (if is_upper right then ''R'' else ''r''))
          (map (\<lambda>f. ?b + f) files) = Some rook"
      | (letter) "lower_char right \<in> set ''abcdefgh''"
        "rook = ?b + (int (char_code (lower_char right)) - int (char_code (CHR ''a'')))"
    proof -
      have km: "0 \<le> king mod 8" "king mod 8 < 8" by simp_all
      have sub: "set (rev [king mod 8 + 1..7]) \<subseteq> {0..7}" "set [0..king mod 8 - 1] \<subseteq> {0..7}"
        using km by auto
      show thesis
        using assms(1) True that(1) [OF sub(1)] that(1) [OF sub(2)] that(2)
        by (simp add: right_rook_def Let_def del: set_simps set_rev set_upto split: if_splits)
    qed
    then show ?thesis
    proof cases
      case search
      then show ?thesis using find_Some_iff_in [OF search(2)] by auto
    next
      case letter
      then show ?thesis by (auto simp: char_code_def)
    qed
  qed
  then show "on_board rook \<and> rook div 8 = ?b div 8" unfolding base_rank .
qed

lemma add_right_ok:
  assumes "add_right c960 sqs rks right = Inr rks'"
    and "distinct (map fst rks)" and "\<forall>r \<in> set rks. right_ok c960 sqs r"
  shows "distinct (map fst rks')" and "\<forall>r \<in> set rks'. right_ok c960 sqs r"
proof -
  let ?w = "is_upper right"
  obtain king rook where k: "find_king sqs ?w = Some king"
    and r: "right_rook c960 sqs right (base_of ?w) king = Inr (Some rook)"
      "rook \<noteq> king" "at sqs rook = rook_of ?w"
    and side: "(if ?w then 0 else 2) + (if rook < king then 1 else 0) \<notin> fst ` set rks"
    and rks': "rks' = AList.update ((if ?w then 0 else 2) + (if rook < king then 1 else 0)) rook rks"
    using assms(1)
    by (auto simp: add_right_def Let_def rbind_eq_Inr base_of_def rook_of_def split: option.splits if_splits)
  define s where "s = (if ?w then 0 else 2) + (if rook < king then 1 else (0::int))"
  note kf = find_king_Some [OF k]
  note rr = right_rook_rank [OF r(1) kf(2)]
  have s2: "(s < 2) = ?w" "0 \<le> s" "s < 4" "s mod 2 = (if rook < king then 1 else 0)"
    by (auto simp: s_def)
  have plain: "c960 \<or> king = base_of ?w + 4 \<and> rook = base_of ?w + (if s mod 2 = 0 then 7 else 0)"
    using rr(2) r(2) s2(4) by (auto split: if_splits)
  have "right_ok c960 sqs (s, rook)"
    by (rule right_okI [of king], unfold s2(1)) (use kf rr(1) s2(2-4) r(3) plain in simp_all)
  then show "\<forall>r \<in> set rks'. right_ok c960 sqs r"
    using assms(3) side unfolding rks' s_def by (simp add: AList_update_fresh)
  show "distinct (map fst rks')" unfolding rks' using assms(2) by (rule distinct_update)
qed

lemma set_fen_Inr:
  assumes "set_fen L t b = Inr b'"
  obtains sqs dk where "place_ranks (split_on (CHR ''/'') (fen_fields t ! 0)) = Inr (sqs, dk)"
    and "length (split_on (CHR ''/'') (fen_fields t ! 0)) = 8"
    and "set_fen_rest L (fen_fields t) b (sqs, dk) = Inr b'"
  using assms unfolding set_fen_def Let_def
  by (auto simp only: rbind_eq_Inr split_paired_Ex sum.distinct split: if_split_asm)

lemma set_fen_rest_Inr:
  assumes "set_fen_rest L flds b (sqs, dk) = Inr b'"
  obtains rks ep counters where "kings_ok sqs"
    and "(if flds ! 2 = ''-'' then Inr [] else fold_result (add_right (chess960 b) sqs) [] (flds ! 2)) = Inr rks"
    and "parse_ep L (flds ! 1 = ''w'') sqs (flds ! 3) = Inr ep"
    and "parse_counters (flds ! 4) (flds ! 5) = Inr counters"
    and "b' = b\<lparr>squares := sqs, duck_square := dk, turn := (flds ! 1 = ''w''), rooks := rks,
                    ep_square := ep, halfmove_clock := fst counters, fullmove_number := snd counters\<rparr>"
proof -
  let ?bad = "1 < max (count_list sqs ''K'') (count_list sqs ''k'')
      \<or> count_list sqs ''K'' + count_list sqs ''k'' = 0"
  have ok: "\<not> ?bad"
    by (rule notI) (use assms in \<open>simp add: set_fen_rest_def Let_def\<close>)
  then have "kings_ok sqs" by (auto simp: kings_ok_def)
  moreover from assms obtain rks ep counters where
      "(if flds ! 2 = ''-'' then Inr [] else fold_result (add_right (chess960 b) sqs) [] (flds ! 2)) = Inr rks"
      "parse_ep L (flds ! 1 = ''w'') sqs (flds ! 3) = Inr ep"
      "parse_counters (flds ! 4) (flds ! 5) = Inr counters"
      "Inr (b\<lparr>squares := sqs, duck_square := dk, turn := (flds ! 1 = ''w''), rooks := rks,
          ep_square := ep, halfmove_clock := fst counters, fullmove_number := snd counters\<rparr>) = (Inr b' :: duck_board result)"
    unfolding set_fen_rest_def Let_def prod.case fst_conv snd_conv if_not_P [OF ok] rbind_eq_Inr
    by blast
  ultimately show ?thesis using that by blast
qed

lemma set_fen_wf:
  assumes "set_fen L t b = Inr b'"
  shows "wf_board b'"
proof -
  let ?flds = "fen_fields t"
  obtain sqs dk where pl: "place_ranks (split_on (CHR ''/'') (?flds ! 0)) = Inr (sqs, dk)"
      "length (split_on (CHR ''/'') (?flds ! 0)) = 8"
    and rest: "set_fen_rest L ?flds b (sqs, dk) = Inr b'"
    by (rule set_fen_Inr [OF assms])
  obtain rks ep counters where kings: "kings_ok sqs"
    and rks: "(if ?flds ! 2 = ''-'' then Inr [] else fold_result (add_right (chess960 b) sqs) [] (?flds ! 2)) = Inr rks"
    and ep: "parse_ep L (?flds ! 1 = ''w'') sqs (?flds ! 3) = Inr ep"
    and cnt: "parse_counters (?flds ! 4) (?flds ! 5) = Inr counters"
    and b': "b' = b\<lparr>squares := sqs, duck_square := dk, turn := (?flds ! 1 = ''w''), rooks := rks,
                    ep_square := ep, halfmove_clock := fst counters, fullmove_number := snd counters\<rparr>"
    by (rule set_fen_rest_Inr [OF rest])
  have p: "placing 8 (0, sqs, dk)" by (rule place_ranks_placing [OF pl])
  then have len: "length sqs = 64" by (simp add: placing_def)
  have "list_all wf_piece sqs" using p len by (simp add: placing_def list_all_at)
  moreover have "pawns_ok sqs" "duck_ok sqs dk"
    using p by (auto simp: placing_def pawns_ok_def list_all_iff duck_ok_def split: option.splits)
  moreover have "distinct (map fst rks) \<and> (\<forall>r \<in> set rks. right_ok (chess960 b) sqs r)"
  proof (cases "?flds ! 2 = ''-''")
    case True
    then show ?thesis using rks by simp
  next
    case False
    then have f: "fold_result (add_right (chess960 b) sqs) [] (?flds ! 2) = Inr rks"
      using rks by simp
    show ?thesis
      by (rule fold_result_invariant [OF f]) (use add_right_ok in \<open>simp, blast\<close>)
  qed
  moreover have "ep_ok b'"
    using ep unfolding b' by (auto simp: ep_ok_def parse_ep_def rbind_eq_Inr Let_def split: if_splits)
  moreover have "0 \<le> fst counters" "1 \<le> snd counters"
    using cnt by (auto simp: parse_counters_def split: if_splits option.splits)
  ultimately show ?thesis using len kings unfolding b' by (simp add: wf_board_def list_all_iff)
qed

lemma new_duck_board_wf:
  assumes "new_duck_board L text c960 = Inr b"
  shows "wf_board b"
proof -
  obtain b0 where b0: "set_fen L text (blank_board c960) = Inr b0"
    and b: "b = b0\<lparr>root_fen := fen L False b0,
      positions := (\<lambda>_. 0)(repetition_key L (b0\<lparr>root_fen := fen L False b0\<rparr>) := 1)\<rparr>"
    using assms by (auto simp: new_duck_board_def rbind_eq_Inr Let_def)
  have "wf_board (b0\<lparr>root_fen := r, positions := p\<rparr>) = wf_board b0" for r p
    by (simp add: wf_board_def ep_ok_def Let_def cong: option.case_cong)
  then show ?thesis using set_fen_wf [OF b0] unfolding b by simp
qed

text \<open>The boards of a game: read from some FEN, then turns read from their text and played.\<close>

inductive game_board :: "square_lib \<Rightarrow> bool \<Rightarrow> duck_board \<Rightarrow> bool"
  for L :: square_lib and c960 :: bool where
  start: "new_duck_board L text c960 = Inr b \<Longrightarrow> game_board L c960 b"
| play: "game_board L c960 b \<Longrightarrow> push_uci L b text = Inr (m, b') \<Longrightarrow> game_board L c960 b'"

lemma game_board_wf: "game_board L c960 b \<Longrightarrow> wf_board b"
proof (induction rule: game_board.induct)
  case (start s b)
  then show ?case by (rule new_duck_board_wf)
next
  case (play b s m b')
  from play.hyps(2) have "from_uci L s = Inr m" "push L b m = Inr b'"
    by (auto simp: push_uci_def parse_uci_def rbind_eq_Inr split: if_splits)
  then show ?case using push_keeps_wf [OF play.IH from_uci_promotion] by blast
qed

end
