(* ===== verification/Duck_Round.thy ===== *)
theory Duck_Round
  imports Duck_Fen
begin

text \<open>
  Reading back a printed FEN.  Each field is treated on its own: the placement by an
  invariant that says which part of the board has been copied, the castling rights letter by
  letter, then the en-passant square and the counters.
\<close>

subsection \<open>The placement\<close>

definition copied :: "string list \<Rightarrow> int option \<Rightarrow> (int \<Rightarrow> bool) \<Rightarrow> string list \<times> int option \<Rightarrow> bool" where
  "copied sqs0 dk0 P st = (case st of (sqs, dk) \<Rightarrow>
     length sqs = 64
     \<and> (\<forall>j. on_board j \<longrightarrow> at sqs j = (if P j then at sqs0 j else []))
     \<and> dk = (case dk0 of None \<Rightarrow> None | Some d \<Rightarrow> if P d then Some d else None))"

lemma digit_char_facts:
  assumes "0 < n" and "n < 9"
  shows "is_rank (digit_char n)" and "digit_value (digit_char n) = n" and "digit_char n \<noteq> CHR ''/''"
proof -
  have "list_all (\<lambda>n. is_rank (digit_char n) \<and> digit_char n \<noteq> CHR ''/'') [1..<9]" by code_simp
  then show "is_rank (digit_char n)" "digit_char n \<noteq> CHR ''/''"
    using assms unfolding list_all_iff by auto
  show "digit_value (digit_char n) = n" using assms by simp
qed

lemma read_empty:
  assumes "n < 9"
  shows "fold_result (place_char index) (fl, sqs, dk) (fen_empty n) = Inr (fl + int n, sqs, dk)"
proof (cases "n = 0")
  case True
  then show ?thesis by (simp add: fen_empty_def)
next
  case False
  have "n < 10" using assms by simp
  then have "fen_empty n = [digit_char n]"
    using False by (simp add: fen_empty_def nat_str_small)
  then show ?thesis using digit_char_facts [of n] False assms by (simp add: place_char_def)
qed

lemma piece_not_rank: "is_piece c \<Longrightarrow> \<not> is_rank c \<and> c \<noteq> CHR ''*'' \<and> c \<noteq> CHR ''/'' \<and> \<not> is_space c"
proof -
  have "list_all (\<lambda>c. \<not> is_rank c \<and> c \<noteq> CHR ''*'' \<and> c \<noteq> CHR ''/'' \<and> \<not> is_space c) piece_chars"
    by code_simp
  then show "is_piece c \<Longrightarrow> ?thesis" unfolding list_all_iff is_piece_def by blast
qed

lemma star_not_rank: "\<not> is_rank (CHR ''*'')"
  by code_simp

text \<open>What the reader of a FEN needs of the squares that were printed.\<close>

definition printable :: "string list \<Rightarrow> int option \<Rightarrow> bool" where
  "printable sqs0 dk0 = (length sqs0 = 64
     \<and> (\<forall>j. on_board j \<longrightarrow> wf_piece (at sqs0 j) \<and> (lower (at sqs0 j) = ''p'' \<longrightarrow> j div 8 \<noteq> 0 \<and> j div 8 \<noteq> 7))
     \<and> (\<forall>d. dk0 = Some d \<longrightarrow> on_board d \<and> at sqs0 d = []))"

lemma wf_printable: "wf_board b \<Longrightarrow> printable (squares b) (duck_square b)"
  using wf_boardD(1-4) [of b] by (auto simp: printable_def duck_ok_def)

lemma passed_next:
  assumes "0 \<le> index" and "index \<le> 7" and "0 \<le> k" and "k < 8"
  shows "passed index (k + 1) j \<longleftrightarrow> passed index k j \<or> j = (7 - index) * 8 + k"
proof -
  have "j = (7 - index) * 8 + k \<longleftrightarrow> j div 8 = 7 - index \<and> j mod 8 = k"
    using rank_square(2,3) [OF assms] div_mult_mod_eq [of j 8] by metis
  then show ?thesis by (auto simp: passed_def)
qed

lemma not_passed_here:
  assumes "0 \<le> index" and "index \<le> 7" and "0 \<le> k" and "k < 8"
  shows "\<not> passed index k ((7 - index) * 8 + k)"
  using rank_square(2,3) [OF assms] by (simp add: passed_def)

lemma copied_skip:
  assumes "copied sqs0 dk0 (passed index k) st" and "printable sqs0 dk0"
    and "0 \<le> index" and "index \<le> 7" and "0 \<le> k" and "k < 8"
    and "shown_piece sqs0 dk0 ((7 - index) * 8 + k) = []"
  shows "copied sqs0 dk0 (passed index (k + 1)) st"
  using assms passed_next [OF assms(3-6)]
  by (auto simp: copied_def shown_piece_def printable_def split: if_splits option.splits prod.splits)

lemma copied_put:
  assumes "copied sqs0 dk0 (passed index k) (sqs, dk)" and "printable sqs0 dk0"
    and "0 \<le> index" and "index \<le> 7" and "0 \<le> k" and "k < 8"
    and "shown_piece sqs0 dk0 ((7 - index) * 8 + k) = p" and "p \<noteq> []"
  shows "\<exists>st. fold_result (place_char index) (k, sqs, dk) p = Inr (k + 1, st)
           \<and> copied sqs0 dk0 (passed index (k + 1)) st"
proof -
  let ?sq = "(7 - index) * 8 + k"
  note sq = rank_square [OF assms(3-6)] and nxt = passed_next [OF assms(3-6)]
    and here = not_passed_here [OF assms(3-6)]
  have len: "length sqs = 64" and cp: "\<And>j. on_board j \<Longrightarrow> at sqs j = (if passed index k j then at sqs0 j else [])"
    and dk: "dk = (case dk0 of None \<Rightarrow> None | Some d \<Rightarrow> if passed index k d then Some d else None)"
    using assms(1) by (auto simp: copied_def)
  show ?thesis
  proof (cases "Some ?sq = dk0")
    case True
    then have p: "p = ''*''" using assms(7) by (simp add: shown_piece_def)
    have "dk = None" using True here dk by (auto split: option.splits)
    moreover have "at sqs0 ?sq = []" using True assms(2) by (auto simp: printable_def)
    then have "copied sqs0 dk0 (passed index (k + 1)) (sqs, Some ?sq)"
      using True len cp nxt here by (auto simp: copied_def)
    ultimately show ?thesis
      using p assms(5,6) star_not_rank by (auto simp: place_char_def Let_def algebra_simps)
  next
    case False
    then have p: "p = at sqs0 ?sq" using assms(7) by (simp add: shown_piece_def)
    have "wf_piece p" and pawn: "lower p = ''p'' \<Longrightarrow> ?sq div 8 \<noteq> 0 \<and> ?sq div 8 \<noteq> 7"
      using assms(2) sq(1) p by (auto simp: printable_def)
    then obtain c where c: "p = [c]" "is_piece c" using assms(8)
      by (cases p) (auto simp: wf_piece_def)
    have "lower_char c = CHR ''p'' \<Longrightarrow> index \<noteq> 0 \<and> index \<noteq> 7"
      using pawn is_piece_lower_p [OF c(2)] c(1) sq(2) by auto
    then have "place_char index (k, sqs, dk) c = Inr (k + 1, sqs[nat ?sq := [c]], dk)"
      using piece_not_rank [OF c(2)] c(2) assms(6) by (auto simp: place_char_def Let_def)
    moreover have "copied sqs0 dk0 (passed index (k + 1)) (sqs[nat ?sq := [c]], dk)"
      using len cp dk nxt False p c(1) at_update [OF len sq(1)]
      by (auto simp: copied_def split: option.splits)
    ultimately show ?thesis using c(1) by auto
  qed
qed

lemma read_files:
  assumes "printable sqs0 dk0" and "0 \<le> index" and "index \<le> 7" and "0 \<le> fl" and "fl + int n \<le> 8"
    and "ps = map (\<lambda>k. shown_piece sqs0 dk0 ((7 - index) * 8 + k)) [fl + int n..7]"
    and "copied sqs0 dk0 (passed index (fl + int n)) (sqs, dk)"
  shows "\<exists>st. fold_result (place_char index) (fl, sqs, dk) (fen_files n ps) = Inr (8, st)
           \<and> copied sqs0 dk0 (passed index 8) st"
  using assms(4-7)
proof (induction ps arbitrary: n fl sqs dk)
  case Nil
  then have "fl + int n = 8" by auto
  then show ?case using Nil.prems read_empty [of n index fl sqs dk] by auto
next
  case (Cons p ps)
  let ?k = "fl + int n"
  have k: "?k < 8" "0 \<le> ?k" using Cons.prems(1,3) by (cases "?k < 8", simp_all)
  then have up: "[?k..7] = ?k # [?k + 1..7]" by (simp add: upto_rec1)
  have p: "shown_piece sqs0 dk0 ((7 - index) * 8 + ?k) = p"
    and ps: "ps = map (\<lambda>k. shown_piece sqs0 dk0 ((7 - index) * 8 + k)) [?k + 1..7]"
    using Cons.prems(3) unfolding up by simp_all
  show ?case
  proof (cases "p = []")
    case True
    have "copied sqs0 dk0 (passed index (?k + 1)) (sqs, dk)"
      by (rule copied_skip [OF Cons.prems(4) assms(1-3) k(2,1)]) (simp only: p True)
    then have "copied sqs0 dk0 (passed index (fl + int (Suc n))) (sqs, dk)"
      by (simp add: ac_simps)
    moreover have "fl + int (Suc n) \<le> 8" using k by simp
    moreover have "ps = map (\<lambda>k. shown_piece sqs0 dk0 ((7 - index) * 8 + k)) [fl + int (Suc n)..7]"
      using ps by (simp add: ac_simps)
    ultimately show ?thesis using Cons.IH [of fl "Suc n" sqs dk] Cons.prems(1) True by simp
  next
    case False
    obtain st where st: "fold_result (place_char index) (?k, sqs, dk) p = Inr (?k + 1, st)"
        "copied sqs0 dk0 (passed index (?k + 1)) st"
      using copied_put [OF Cons.prems(4) assms(1-3) k(2,1) p False] by blast
    obtain sqs' dk' where st': "st = (sqs', dk')" by (cases st)
    have "n < 9" using k Cons.prems(1) by simp
    then have "fold_result (place_char index) (fl, sqs, dk) (fen_files n (p # ps))
        = fold_result (place_char index) (?k + 1, sqs', dk') (fen_files 0 ps)"
      using False st(1) st' by (simp add: fold_result_append read_empty)
    moreover have "\<exists>st. fold_result (place_char index) (?k + 1, sqs', dk') (fen_files 0 ps) = Inr (8, st)
           \<and> copied sqs0 dk0 (passed index 8) st"
      using Cons.IH [of "?k + 1" 0 sqs' dk'] k ps st(2) st' by simp
    ultimately show ?thesis by simp
  qed
qed

lemma passed_wrap: "passed index 8 = passed (index + 1) 0"
  by (rule ext) (auto simp: passed_def)

lemma read_rank:
  assumes "printable sqs0 dk0" and "0 \<le> index" and "index \<le> 7"
    and "copied sqs0 dk0 (passed index 0) st"
  shows "\<exists>st'. place_rank st (index, fen_rank sqs0 dk0 (7 - index)) = Inr st'
           \<and> copied sqs0 dk0 (passed (index + 1) 0) st'"
  using read_files [OF assms(1-3), of 0 0 _ "fst st" "snd st"] assms(4)
  by (cases st) (fastforce simp: place_rank_def fen_rank_def passed_wrap)

lemma read_ranks:
  assumes "printable sqs0 dk0" and "n + length rs \<le> 8"
    and "rs = map (\<lambda>i. fen_rank sqs0 dk0 (7 - int i)) [n..<n + length rs]"
    and "copied sqs0 dk0 (passed (int n) 0) st"
  shows "\<exists>st'. fold_result place_rank st (zip (map int [n..<n + length rs]) rs) = Inr st'
           \<and> copied sqs0 dk0 (passed (int (n + length rs)) 0) st'"
  using assms(2-4)
proof (induction rs arbitrary: n st)
  case Nil
  then show ?case by simp
next
  case (Cons r rs)
  have up: "[n..<n + length (r # rs)] = n # [Suc n..<Suc n + length rs]"
    by (subst upt_conv_Cons) simp_all
  have r: "r = fen_rank sqs0 dk0 (7 - int n)"
    and rs: "rs = map (\<lambda>i. fen_rank sqs0 dk0 (7 - int i)) [Suc n..<Suc n + length rs]"
    using Cons.prems(2) unfolding up by simp_all
  obtain t where t: "place_rank st (int n, r) = Inr t" "copied sqs0 dk0 (passed (int n + 1) 0) t"
    using read_rank [OF assms(1), of "int n" st] Cons.prems(1,3) r by auto
  have "copied sqs0 dk0 (passed (int (Suc n)) 0) t" using t(2) by (simp add: ac_simps)
  from Cons.IH [OF _ rs this] Cons.prems(1)
  have "\<exists>st'. fold_result place_rank t (zip (map int [Suc n..<Suc n + length rs]) rs) = Inr st'
      \<and> copied sqs0 dk0 (passed (int (Suc n + length rs)) 0) st'" by simp
  then show ?case unfolding up using t(1) by simp
qed

lemma place_ranks_print:
  assumes "printable sqs dk"
  shows "place_ranks (map (fen_rank sqs dk) (rev [0..7])) = Inr (sqs, dk)"
proof -
  have ranks: "map (fen_rank sqs dk) (rev [0..7]) = map (\<lambda>i. fen_rank sqs dk (7 - int i)) [0..<0 + 8]"
    by (simp add: upto.simps upt_rec)
  have start: "copied sqs dk (passed (int 0) 0) (replicate 64 [], None)"
  proof -
    have "\<not> passed 0 0 j" if "on_board j" for j
      using that by (auto simp: passed_def on_board_def)
    moreover have "at (replicate 64 []) j = []" if "on_board j" for j
      using on_board_nat [OF that] by (simp add: at_def)
    ultimately show ?thesis
      using assms by (auto simp: copied_def printable_def split: option.splits)
  qed
  obtain st where st: "place_ranks (map (fen_rank sqs dk) (rev [0..7])) = Inr st"
      "copied sqs dk (passed 8 0) st"
    using read_ranks [OF assms, of 0 "map (fen_rank sqs dk) (rev [0..7])" "(replicate 64 [], None)"]
      start ranks by (auto simp: place_ranks_def)
  have all: "passed 8 0 j" if "on_board j" for j
    using that by (auto simp: passed_def on_board_def)
  obtain sqs' dk' where st': "st = (sqs', dk')" by (cases st)
  have "sqs' = sqs"
  proof (rule nth_equalityI)
    show "length sqs' = length sqs" using st(2) assms st' by (simp add: copied_def printable_def)
    fix i assume "i < length sqs'"
    then have "on_board (int i)" using st(2) st' by (simp add: copied_def on_board_def)
    then have "at sqs' (int i) = at sqs (int i)" using st(2) st' all by (simp add: copied_def)
    then show "sqs' ! i = sqs ! i" by (simp add: at_def)
  qed
  moreover have "dk' = dk"
    using st(2) st' all assms by (auto simp: copied_def printable_def split: option.splits)
  ultimately show ?thesis using st(1) st' by simp
qed

subsection \<open>Castling rights\<close>

lemma file_letters:
  assumes "f < 8"
  shows "is_upper (char_of (65 + f :: nat))" and "\<not> is_upper (char_of (97 + f :: nat))"
    and "lower_char (char_of (65 + f :: nat)) = char_of (97 + f :: nat)"
    and "lower_char (char_of (97 + f :: nat)) = char_of (97 + f :: nat)"
    and "char_of (97 + f :: nat) \<notin> set ''kq''" and "char_of (97 + f :: nat) \<in> set ''abcdefgh''"
    and "char_code (char_of (97 + f :: nat)) = 97 + f"
    and "char_of (65 + f :: nat) \<noteq> CHR ''-''" and "char_of (97 + f :: nat) \<noteq> CHR ''-''"
    and "\<not> is_space (char_of (65 + f :: nat))" and "\<not> is_space (char_of (97 + f :: nat))"
proof -
  have "list_all (\<lambda>f. is_upper (char_of (65 + f :: nat)) \<and> \<not> is_upper (char_of (97 + f :: nat))
      \<and> lower_char (char_of (65 + f :: nat)) = char_of (97 + f :: nat)
      \<and> lower_char (char_of (97 + f :: nat)) = char_of (97 + f :: nat)
      \<and> char_of (97 + f :: nat) \<notin> set ''kq'' \<and> char_of (97 + f :: nat) \<in> set ''abcdefgh''
      \<and> char_code (char_of (97 + f :: nat)) = 97 + f
      \<and> char_of (65 + f :: nat) \<noteq> CHR ''-'' \<and> char_of (97 + f :: nat) \<noteq> CHR ''-''
      \<and> \<not> is_space (char_of (65 + f :: nat)) \<and> \<not> is_space (char_of (97 + f :: nat))) [0..<8]"
    by code_simp
  moreover have "f \<in> set [0..<8]" using assms by simp
  ultimately show "is_upper (char_of (65 + f :: nat))" "\<not> is_upper (char_of (97 + f :: nat))"
    "lower_char (char_of (65 + f :: nat)) = char_of (97 + f :: nat)"
    "lower_char (char_of (97 + f :: nat)) = char_of (97 + f :: nat)"
    "char_of (97 + f :: nat) \<notin> set ''kq''" "char_of (97 + f :: nat) \<in> set ''abcdefgh''"
    "char_code (char_of (97 + f :: nat)) = 97 + f"
    "char_of (65 + f :: nat) \<noteq> CHR ''-''" "char_of (97 + f :: nat) \<noteq> CHR ''-''"
    "\<not> is_space (char_of (65 + f :: nat))" "\<not> is_space (char_of (97 + f :: nat))"
    unfolding list_all_iff by blast+
qed

lemma standard_letters:
  assumes "0 \<le> side" and "side < 4"
  shows "is_upper (''KQkq'' ! nat side) = (side < 2)"
    and "lower_char (''KQkq'' ! nat side) = (if side mod 2 = 0 then CHR ''k'' else CHR ''q'')"
    and "''KQkq'' ! nat side \<in> set ''KQkq''"
    and "''KQkq'' ! nat side \<noteq> CHR ''-''" and "\<not> is_space (''KQkq'' ! nat side)"
proof -
  have "list_all (\<lambda>s. is_upper (''KQkq'' ! nat s) = (s < 2)
      \<and> lower_char (''KQkq'' ! nat s) = (if s mod 2 = 0 then CHR ''k'' else CHR ''q'')
      \<and> ''KQkq'' ! nat s \<in> set ''KQkq''
      \<and> ''KQkq'' ! nat s \<noteq> CHR ''-'' \<and> \<not> is_space (''KQkq'' ! nat s)) [0..3]"
    by code_simp
  moreover have "side \<in> set [0..3]" using assms by simp
  ultimately show "is_upper (''KQkq'' ! nat side) = (side < 2)"
    "lower_char (''KQkq'' ! nat side) = (if side mod 2 = 0 then CHR ''k'' else CHR ''q'')"
    "''KQkq'' ! nat side \<in> set ''KQkq''" "''KQkq'' ! nat side \<noteq> CHR ''-''"
    "\<not> is_space (''KQkq'' ! nat side)"
    unfolding list_all_iff by blast+
qed

lemma right_letter_facts:
  assumes "0 \<le> side" and "side < 4"
  shows "is_upper (right_letter c960 side rook) = (side < 2)"
    and "right_letter c960 side rook \<noteq> CHR ''-''" and "\<not> is_space (right_letter c960 side rook)"
proof -
  have f: "nat (rook mod 8) < 8" by simp
  have c: "char_code (CHR ''A'') = 65" "char_code (CHR ''a'') = 97" by (simp_all add: char_code_def)
  show "is_upper (right_letter c960 side rook) = (side < 2)"
    "right_letter c960 side rook \<noteq> CHR ''-''" "\<not> is_space (right_letter c960 side rook)"
    using file_letters [OF f] standard_letters [OF assms] c by (simp_all add: right_letter_def)
qed

lemma find_king_unique:
  assumes "on_board king" and "king div 8 = base_of white div 8" and "at sqs king = king_of white"
    and "\<And>i j. on_board i \<Longrightarrow> on_board j \<Longrightarrow> at sqs i = king_of white \<Longrightarrow> at sqs j = king_of white \<Longrightarrow> i = j"
  shows "find_king sqs white = Some king"
proof (cases "find_king sqs white")
  case None
  have "king \<in> set [base_of white..base_of white + 7]"
    unfolding base_rank_upto using assms(1,2) by simp
  then show ?thesis
    using None assms(3) by (auto simp: find_king_def Let_def find_None_iff_in base_of_def king_of_def split: if_splits)
next
  case (Some k)
  from find_king_Some [OF Some] have "k = king" using assms(1,3,4) by blast
  with Some show ?thesis by simp
qed

lemma right_rook_letter:
  assumes "right_ok c960 sqs (side, rook)" and "king div 8 = base_of (side < 2) div 8" and "on_board king"
    and "c960 \<or> king = base_of (side < 2) + 4 \<and> rook = base_of (side < 2) + (if side mod 2 = 0 then 7 else 0)"
  shows "right_rook c960 sqs (right_letter c960 side rook) (base_of (side < 2)) king = Inr (Some rook)"
proof -
  have r: "0 \<le> side" "side < 4" "rook div 8 = base_of (side < 2) div 8" "on_board rook"
    by (rule right_okD [OF assms(1)], assumption)+
  show ?thesis
  proof (cases c960)
    case True
    have f: "nat (rook mod 8) < 8" by simp
    have c: "char_code (CHR ''A'') = 65" "char_code (CHR ''a'') = 97" by (simp_all add: char_code_def)
    have "rook = base_of (side < 2) + rook mod 8"
      using r(3) div_mult_mod_eq [of rook 8] by (auto simp: base_of_def split: if_splits)
    note rook = this
    define l u where "l = (char_of (97 + nat (rook mod 8)) :: char)"
      and "u = (char_of (65 + nat (rook mod 8)) :: char)"
    have l: "lower_char l = l" "lower_char u = l" "l \<notin> set ''kq''" "l \<in> set ''abcdefgh''"
        "char_code l = 97 + nat (rook mod 8)"
      unfolding l_def u_def by (rule file_letters [OF f])+
    have letter: "right_letter c960 side rook = (if side < 2 then u else l)"
      using True c by (simp add: right_letter_def l_def u_def)
    show ?thesis
      unfolding right_rook_def letter Let_def
      using True l c rook by (cases "side < 2") (simp_all del: set_simps list.set)
  next
    case False
    then show ?thesis
      using standard_letters [OF r(1,2)] assms(4)
      by (simp add: right_rook_def right_letter_def Let_def split: if_splits)
  qed
qed

lemma add_right_letter:
  assumes "right_ok c960 sqs (side, rook)" and "side \<notin> fst ` set rks"
    and "\<And>w i j. on_board i \<Longrightarrow> on_board j \<Longrightarrow> at sqs i = king_of w \<Longrightarrow> at sqs j = king_of w \<Longrightarrow> i = j"
  shows "add_right c960 sqs rks (right_letter c960 side rook) = Inr (rks @ [(side, rook)])"
proof -
  obtain king where k: "on_board king" "on_board rook" "0 \<le> side" "side < 4"
    "king div 8 = base_of (side < 2) div 8" "rook div 8 = base_of (side < 2) div 8"
    "at sqs rook = rook_of (side < 2)" "at sqs king = king_of (side < 2)"
    "side mod 2 = (if rook < king then 1 else 0)"
    "c960 \<or> king = base_of (side < 2) + 4 \<and> rook = base_of (side < 2) + (if side mod 2 = 0 then 7 else 0)"
    by (rule right_okD [OF assms(1)])
  have up: "is_upper (right_letter c960 side rook) = (side < 2)"
    by (rule right_letter_facts [OF k(3,4)])
  have king: "find_king sqs (side < 2) = Some king"
    by (rule find_king_unique [OF k(1,5,8) assms(3)])
  have rook: "right_rook c960 sqs (right_letter c960 side rook) (base_of (side < 2)) king = Inr (Some rook)"
    by (rule right_rook_letter [OF assms(1) k(5,1,10)])
  have "(if side < 2 then 0 else 2) + (if rook < king then 1 else 0) = side"
  proof -
    have "side = 0 \<or> side = 1 \<or> side = 2 \<or> side = 3" using k(3,4) by arith
    then show ?thesis using k(9) by (auto split: if_splits)
  qed
  moreover have "rook \<noteq> king" using k(7,8) by auto
  ultimately show ?thesis
    using king rook k(7) assms(2)
    by (simp add: add_right_def Let_def up base_of_def rook_of_def AList_update_fresh)
qed

lemma read_rights:
  assumes "\<forall>s \<in> set sides. right_ok c960 sqs (s, f s)" and "distinct sides"
    and "set sides \<inter> fst ` set rks = {}"
    and "\<And>w i j. on_board i \<Longrightarrow> on_board j \<Longrightarrow> at sqs i = king_of w \<Longrightarrow> at sqs j = king_of w \<Longrightarrow> i = j"
  shows "fold_result (add_right c960 sqs) rks (map (\<lambda>s. right_letter c960 s (f s)) sides)
    = Inr (rks @ map (\<lambda>s. (s, f s)) sides)"
  using assms(1-3)
proof (induction sides arbitrary: rks)
  case Nil
  then show ?case by simp
next
  case (Cons s sides)
  have "add_right c960 sqs rks (right_letter c960 s (f s)) = Inr (rks @ [(s, f s)])"
    by (rule add_right_letter [OF _ _ assms(4)]) (use Cons.prems in auto)
  moreover have "set sides \<inter> fst ` set (rks @ [(s, f s)]) = {}"
    using Cons.prems by auto
  ultimately show ?case using Cons.IH [of "rks @ [(s, f s)]"] Cons.prems by simp
qed


lemma rights_round_trip:
  assumes "distinct (map fst rks)" and "list_all (right_ok c960 sqs) rks" and "kings_ok sqs" and "length sqs = 64"
  shows "\<exists>rks'. (if fen_rights c960 rks = ''-'' then Inr []
      else fold_result (add_right c960 sqs) [] (fen_rights c960 rks)) = Inr rks' \<and> map_of rks' = map_of rks"
proof (cases "rks = []")
  case True
  then show ?thesis by (simp add: fen_rights_def)
next
  case False
  define sides where "sides = sort (map fst rks)"
  define f where "f s = the (map_of rks s)" for s
  let ?txt = "map (\<lambda>s. right_letter c960 s (f s)) sides"
  have in_rks: "(s, f s) \<in> set rks" if "s \<in> set sides" for s
  proof -
    from that obtain r where "(s, r) \<in> set rks" by (auto simp: sides_def)
    then have "map_of rks s = Some r" using assms(1) by simp
    then show ?thesis using \<open>(s, r) \<in> set rks\<close> by (simp add: f_def)
  qed
  then have ok: "\<forall>s \<in> set sides. right_ok c960 sqs (s, f s)"
    using assms(2) by (auto simp: list_all_iff)
  have "set sides \<noteq> {}" using False by (simp add: sides_def)
  then have ne: "?txt \<noteq> []" by auto
  have side: "0 \<le> s \<and> s < 4" if "s \<in> set sides" for s
    using ok that by (auto simp: right_ok_def)
  have no_dash: "?txt \<noteq> ''-''"
  proof
    assume "?txt = ''-''"
    then obtain s where "s \<in> set sides" "right_letter c960 s (f s) = CHR ''-''"
      by (cases sides) auto
    then show False using right_letter_facts(2) side by blast
  qed
  have letters: "fen_rights c960 rks = ?txt"
    using ne by (simp add: fen_rights_def Let_def sides_def f_def)
  have one: "\<And>w i j. on_board i \<Longrightarrow> on_board j \<Longrightarrow> at sqs i = king_of w \<Longrightarrow> at sqs j = king_of w \<Longrightarrow> i = j"
    using assms(3) unfolding kings_ok_iff [OF assms(4)] by blast
  have "fold_result (add_right c960 sqs) [] ?txt = Inr ([] @ map (\<lambda>s. (s, f s)) sides)"
    by (rule read_rights [OF ok _ _ one]) (use assms(1) in \<open>simp_all add: sides_def\<close>)
  moreover have "map_of (map (\<lambda>s. (s, f s)) sides) = map_of rks"
  proof
    fix s
    show "map_of (map (\<lambda>s. (s, f s)) sides) s = map_of rks s"
    proof (cases "s \<in> set sides")
      case True
      then have "map_of rks s = Some (f s)" using in_rks assms(1) by simp
      then show ?thesis using True by (simp add: map_of_map_restrict)
    next
      case nin: False
      then have "map_of rks s = None" by (auto simp: sides_def map_of_eq_None_iff)
      then show ?thesis using nin by (simp add: map_of_map_restrict)
    qed
  qed
  ultimately show ?thesis unfolding letters using no_dash by simp
qed

subsection \<open>En passant and the counters\<close>

lemma ep_round_trip:
  assumes "square_names_ok L" and "ep_ok b"
  shows "parse_ep L (turn b) (squares b)
    (case ep_square b of None \<Rightarrow> ''-'' | Some sq \<Rightarrow> square_name L sq) = Inr (ep_square b)"
proof (cases "ep_square b")
  case None
  then show ?thesis by (simp add: parse_ep_def)
next
  case (Some ep)
  then have "on_board ep" using assms(2) by (auto simp: ep_ok_def on_board_def Let_def split: if_splits)
  note nm = square_nameD [OF assms(1) this] and rd = parse_square_name [OF assms(1) this]
  have "square_name L ep \<noteq> ''-''" using nm by simp
  then show ?thesis using assms(2) Some rd by (auto simp: parse_ep_def ep_ok_def Let_def)
qed

lemma counters_round_trip:
  assumes "0 \<le> h" and "h \<le> 1000000000" and "1 \<le> n" and "n \<le> 1000000000"
  shows "parse_counters (int_str h) (int_str n) = Inr (h, n)"
proof -
  have "int_str h = nat_str (nat h)" "int_str n = nat_str (nat n)"
    using assms by (simp_all add: int_str_def)
  then have "all_digits (int_str h)" "all_digits (int_str n)" by simp_all
  then show ?thesis using assms by (simp add: parse_counters_def)
qed

subsection \<open>The words of a printed FEN\<close>

definition plain_char :: "char \<Rightarrow> bool" where
  "plain_char c = (\<not> is_space c \<and> c \<noteq> CHR ''/'')"

lemma fen_empty_plain: "c \<in> set (fen_empty n) \<Longrightarrow> plain_char c"
  using nat_str_digits [of c n] is_digit_not_space is_digit_not_sign
  by (auto simp: fen_empty_def plain_char_def split: if_splits)

lemma fen_files_plain:
  assumes "\<forall>p \<in> set ps. \<forall>c \<in> set p. plain_char c" and "c \<in> set (fen_files n ps)"
  shows "plain_char c"
  using assms
proof (induction ps arbitrary: n)
  case Nil
  then show ?case using fen_empty_plain by simp
next
  case (Cons p ps)
  then show ?case using fen_empty_plain [of c n] by (auto split: if_splits)
qed

lemma fen_rank_plain:
  assumes "printable sqs dk" and "0 \<le> rank" and "rank \<le> 7" and "c \<in> set (fen_rank sqs dk rank)"
  shows "plain_char c"
proof -
  have "plain_char d" if d: "d \<in> set (shown_piece sqs dk (rank * 8 + k))" and k: "0 \<le> k" "k \<le> 7" for d k
  proof -
    have "on_board (rank * 8 + k)" using assms(2,3) k by (simp add: on_board_def)
    then have "wf_piece (at sqs (rank * 8 + k))" using assms(1) by (simp add: printable_def)
    moreover have "plain_char (CHR ''*'')" by code_simp
    ultimately show ?thesis using d piece_not_rank
      by (cases "at sqs (rank * 8 + k)")
        (auto simp: shown_piece_def wf_piece_def plain_char_def split: if_splits)
  qed
  then have "\<forall>p \<in> set (map (\<lambda>file. shown_piece sqs dk (rank * 8 + file)) [0..7]). \<forall>c \<in> set p. plain_char c"
    by auto
  then show ?thesis using assms(4) unfolding fen_rank_def by (rule fen_files_plain)
qed

lemma placement_ranks:
  assumes "printable sqs dk"
  shows "split_on (CHR ''/'') (fen_placement sqs dk) = map (fen_rank sqs dk) (rev [0..7])"
proof -
  have "CHR ''/'' \<notin> set w" if "w \<in> set (map (fen_rank sqs dk) (rev [0..7]))" for w
    using that fen_rank_plain [OF assms] unfolding plain_char_def by fastforce
  then show ?thesis unfolding fen_placement_def by (intro split_on_join) auto
qed

lemma join_nonempty: "2 \<le> length ws \<Longrightarrow> sep \<noteq> [] \<Longrightarrow> join sep ws \<noteq> []"
  by (cases "(sep, ws)" rule: join.cases) auto

lemma placement_word:
  assumes "printable sqs dk"
  shows "fen_placement sqs dk \<noteq> []" and "\<forall>c \<in> set (fen_placement sqs dk). \<not> is_space c"
proof -
  show "fen_placement sqs dk \<noteq> []" unfolding fen_placement_def by (rule join_nonempty) simp_all
  have slash: "\<not> is_space (CHR ''/'')" by code_simp
  have word: "\<not> is_space c" if "w \<in> set (map (fen_rank sqs dk) (rev [0..7]))" "c \<in> set w" for w c
    using that fen_rank_plain [OF assms] unfolding plain_char_def by fastforce
  show "\<forall>c \<in> set (fen_placement sqs dk). \<not> is_space c"
  proof
    fix c assume "c \<in> set (fen_placement sqs dk)"
    then have "c = CHR ''/'' \<or> (\<exists>w \<in> set (map (fen_rank sqs dk) (rev [0..7])). c \<in> set w)"
      using set_join [of "''/''" "map (fen_rank sqs dk) (rev [0..7])"] unfolding fen_placement_def by auto
    then show "\<not> is_space c" using slash word by blast
  qed
qed

lemma rights_word:
  assumes "list_all (right_ok c960 sqs) rks" and "distinct (map fst rks)"
  shows "fen_rights c960 rks \<noteq> []" and "\<forall>c \<in> set (fen_rights c960 rks). \<not> is_space c"
proof -
  show "fen_rights c960 rks \<noteq> []" by (simp add: fen_rights_def Let_def)
  have dash: "\<not> is_space (CHR ''-'')" by code_simp
  have "\<not> is_space (right_letter c960 (fst r) x)" if "r \<in> set rks" for r x
    using assms(1) that right_letter_facts(3) [of "fst r" c960 x]
    by (auto simp: list_all_iff right_ok_def)
  then show "\<forall>c \<in> set (fen_rights c960 rks). \<not> is_space c"
    using dash by (auto simp: fen_rights_def Let_def)
qed

lemma name_word:
  assumes "square_names_ok L" and "on_board sq"
  shows "square_name L sq \<noteq> []" and "\<forall>c \<in> set (square_name L sq). \<not> is_space c"
proof -
  obtain f r where fr: "square_name L sq = [f, r]" "f \<in> set file_chars" "r \<in> set rank_chars"
    by (rule square_name_chars [OF assms])
  have "list_all (\<lambda>c. \<not> is_space c) (file_chars @ rank_chars)" by code_simp
  then have "\<not> is_space f" "\<not> is_space r" using fr(2,3) by (auto simp: list_all_iff)
  then show "square_name L sq \<noteq> []" "\<forall>c \<in> set (square_name L sq). \<not> is_space c"
    using fr(1) by auto
qed

lemma fen_words_ok:
  assumes "square_names_ok L" and "wf_board b"
  shows "\<forall>w \<in> set (fen_words L e b). w \<noteq> [] \<and> (\<forall>c \<in> set w. \<not> is_space c)"
proof -
  have side: "\<not> is_space (CHR ''w'')" "\<not> is_space (CHR ''b'')" "\<not> is_space (CHR ''-'')" by code_simp+
  have ep: "on_board ep" if "ep_square b = Some ep" for ep
    using assms(2) that by (auto simp: wf_board_def ep_ok_def on_board_def Let_def split: if_splits)
  have r: "list_all (right_ok (chess960 b) (squares b)) (rooks b)" "distinct (map fst (rooks b))"
    using assms(2) by (simp_all add: wf_board_def)
  show ?thesis
    unfolding fen_words_def Let_def
    using side placement_word [OF wf_printable [OF assms(2)]] rights_word [OF r] ep
      name_word [OF assms(1)] int_str_no_space
    by (auto split: option.splits)
qed

lemma fen_fields_fen:
  assumes "square_names_ok L" and "wf_board b"
  shows "fen_fields (fen L e b) = fen_words L e b"
  using split_ws_join [OF fen_words_ok [OF assms]] by (simp add: fen_fields_def fen_def fen_words_def Let_def)

lemma set_fen_fen:
  assumes "square_names_ok L" and "wf_board b"
    and "halfmove_clock b \<le> 1000000000" and "fullmove_number b \<le> 1000000000" and "chess960 b0 = chess960 b"
  shows "\<exists>rks. map_of rks = map_of (rooks b) \<and> set_fen L (fen L False b) b0 =
    Inr (b0\<lparr>squares := squares b, duck_square := duck_square b, turn := turn b, rooks := rks,
      ep_square := ep_square b, halfmove_clock := halfmove_clock b, fullmove_number := fullmove_number b\<rparr>)"
proof -
  let ?w = "fen_words L False b"
  note wf = assms(2) [unfolded wf_board_def]
  obtain rks where rks: "(if fen_rights (chess960 b) (rooks b) = ''-'' then Inr []
      else fold_result (add_right (chess960 b) (squares b)) [] (fen_rights (chess960 b) (rooks b))) = Inr rks"
    "map_of rks = map_of (rooks b)"
    using rights_round_trip [of "rooks b" "chess960 b" "squares b"] wf by auto
  have k: "kings_ok (squares b)" using wf by simp
  have flds: "?w ! 0 = fen_placement (squares b) (duck_square b)" "(?w ! 1 = ''w'') = turn b"
      "?w ! 1 \<in> {''w'', ''b''}" "?w ! 2 = fen_rights (chess960 b) (rooks b)"
      "?w ! 3 = (case ep_square b of None \<Rightarrow> ''-'' | Some sq \<Rightarrow> square_name L sq)"
      "?w ! 4 = int_str (halfmove_clock b)" "?w ! 5 = int_str (fullmove_number b)" "length ?w = 6"
    by (simp_all add: fen_words_def Let_def numeral_eq_Suc)
  have cnt: "parse_counters (?w ! 4) (?w ! 5) = Inr (halfmove_clock b, fullmove_number b)"
    unfolding flds by (rule counters_round_trip) (use wf assms in auto)
  have ep: "parse_ep L (turn b) (squares b) (?w ! 3) = Inr (ep_square b)"
    unfolding flds by (rule ep_round_trip) (use wf assms in auto)
  have "\<not> (1 < max (count_list (squares b) ''K'') (count_list (squares b) ''k'')
      \<or> count_list (squares b) ''K'' + count_list (squares b) ''k'' = 0)"
    using k by (auto simp: kings_ok_def)
  note if_not_P [OF this, simp]
  have rest: "set_fen_rest L ?w b0 (squares b, duck_square b) =
    Inr (b0\<lparr>squares := squares b, duck_square := duck_square b, turn := turn b, rooks := rks,
      ep_square := ep_square b, halfmove_clock := halfmove_clock b, fullmove_number := fullmove_number b\<rparr>)"
    unfolding set_fen_rest_def Let_def prod.case fst_conv snd_conv flds(2,4) assms(5) rks(1)
    by (simp only: if_not_P [OF \<open>\<not> _\<close>] rbind_Inr ep cnt fst_conv snd_conv)
  have ranks: "split_on (CHR ''/'') (?w ! 0) = map (fen_rank (squares b) (duck_square b)) (rev [0..7])"
    unfolding flds by (rule placement_ranks [OF wf_printable [OF assms(2)]])
  have "set_fen L (fen L False b) b0 = set_fen_rest L ?w b0 (squares b, duck_square b)"
    using flds(3,8) place_ranks_print [OF wf_printable [OF assms(2)]]
    unfolding set_fen_def Let_def fen_fields_fen [OF assms(1,2)] ranks
    by simp
  then show ?thesis using rks(2) rest by (intro exI [of _ rks]) simp
qed

lemma fen_round_trip_board:
  assumes "square_names_ok L" and "wf_board b"
    and "halfmove_clock b \<le> 1000000000" and "fullmove_number b \<le> 1000000000"
  shows "\<exists>b'. new_duck_board L (fen L False b) (chess960 b) = Inr b'
    \<and> chess960 b' = chess960 b \<and> squares b' = squares b \<and> duck_square b' = duck_square b
    \<and> turn b' = turn b \<and> map_of (rooks b') = map_of (rooks b) \<and> ep_square b' = ep_square b
    \<and> halfmove_clock b' = halfmove_clock b \<and> fullmove_number b' = fullmove_number b"
proof -
  have c: "chess960 (blank_board (chess960 b)) = chess960 b" by (simp add: blank_board_def)
  from set_fen_fen [OF assms c] obtain rks where
    "map_of rks = map_of (rooks b)"
    "set_fen L (fen L False b) (blank_board (chess960 b)) =
      Inr (blank_board (chess960 b)\<lparr>squares := squares b, duck_square := duck_square b, turn := turn b, rooks := rks,
      ep_square := ep_square b, halfmove_clock := halfmove_clock b, fullmove_number := fullmove_number b\<rparr>)" by blast
  then show ?thesis by (simp add: new_duck_board_def Let_def c)
qed

text \<open>
  C3: reading the FEN printed for a well-formed board whose counters are within the reader's
  limit gives back the position: squares, duck, side to move, castling rights, en-passant
  square and counters.
\<close>
theorem fen_round_trip:
  assumes "square_names_ok L" and "wf_board b"
    and "halfmove_clock b \<le> 1000000000" and "fullmove_number b \<le> 1000000000"
  shows "\<exists>b'. new_duck_board L (fen L False b) (chess960 b) = Inr b'
    \<and> chess960 b' = chess960 b \<and> squares b' = squares b \<and> duck_square b' = duck_square b
    \<and> turn b' = turn b \<and> map_of (rooks b') = map_of (rooks b) \<and> ep_square b' = ep_square b
    \<and> halfmove_clock b' = halfmove_clock b \<and> fullmove_number b' = fullmove_number b"
  by (rule fen_round_trip_board [OF assms])

end
