(* ===== verification/Duck_Outcome.thy ===== *)
theory Duck_Outcome
  imports Duck_Round
begin

text \<open>
  When a duck chess game is over, and the boards that the witnesses of the duck chess
  theories evaluate.  \<open>can_move\<close> only looks for a legal piece move; on a well-formed board
  with room left for the duck this is the same as having a legal turn.
\<close>

subsection \<open>A piece move can be completed by a duck move\<close>

lemma piece_legal_any_promotion:
  assumes "piece_legal b (DuckTurn s t p d)" and "p \<in> {''n'', ''b'', ''r'', ''q''}"
    and "p' \<in> {''n'', ''b'', ''r'', ''q''}"
  shows "piece_legal b (DuckTurn s t p' d)"
proof -
  have c: "contains p ''nbrq''" "contains p' ''nbrq''" "p \<noteq> []" "p' \<noteq> []"
    using assms(2,3) by (auto simp: contains_def)
  have none: "castle_side b (DuckTurn s t p d) = None"
    using assms(1) c(3) by (cases "castle_side b (DuckTurn s t p d)")
      (auto simp: piece_legal_def Let_def split: if_splits option.splits)
  then have none': "castle_side b (DuckTurn s t p' d) = None"
    using castle_side_duck_irrelevant by metis
  show ?thesis
    using assms(1) unfolding piece_legal_def Let_def none none' duck_turn.sel option.case
    by (simp only: c simp_thms)
qed

lemma can_moveI:
  assumes "piece_legal b (DuckTurn s t p None)" and "p \<in> set (promotions_for (at (squares b) s) t)"
  shows "can_move b"
proof -
  let ?p = "if lower (at (squares b) s) = ''p'' \<and> t div 8 \<in> {0, 7} then ''q'' else ''''"
  have q: "piece_legal b (DuckTurn s t ?p None)"
  proof (cases "lower (at (squares b) s) = ''p'' \<and> t div 8 \<in> {0, 7}")
    case True
    then have "p \<in> {''n'', ''b'', ''r'', ''q''}" using assms(2) by (auto simp: promotions_for_def)
    then show ?thesis using True piece_legal_any_promotion [OF assms(1), of "''q''"] by simp
  next
    case False
    then have "p = []" using assms(2) by (simp add: promotions_for_def split: if_splits)
    then show ?thesis using assms(1) unfolding if_not_P [OF False] by simp
  qed
  show ?thesis
    unfolding can_move_def list_ex_iff Let_def
    by (intro bexI [of _ s] conjI bexI [of _ t] q) (use piece_legalD [OF assms(1)] in simp_all)
qed

lemma empty_square_left:
  assumes "length sqs = 64" and "4 \<le> count_list sqs []"
  shows "\<exists>i. on_board i \<and> at sqs i = [] \<and> i \<noteq> x \<and> i \<noteq> y \<and> Some i \<noteq> dk"
proof (rule ccontr)
  assume none: "\<not> ?thesis"
  let ?E = "{n. n < length sqs \<and> sqs ! n = []}"
  have "?E \<subseteq> {nat x, nat y, nat (the dk)}"
  proof
    fix n assume "n \<in> ?E"
    then have "on_board (int n)" "at sqs (int n) = []" using assms(1) by (auto simp: on_board_def at_def)
    then have "int n = x \<or> int n = y \<or> Some (int n) = dk" using none by blast
    then show "n \<in> {nat x, nat y, nat (the dk)}" by auto
  qed
  then have "card ?E \<le> card {nat x, nat y, nat (the dk)}" by (intro card_mono) simp_all
  also have "\<dots> \<le> 3" by (simp add: card_insert_if)
  finally have "card ?E \<le> 3" .
  moreover have "count_list sqs [] = card ?E"
    by (simp add: count_list_eq_length_filter length_filter_conv_card eq_commute)
  ultimately show False using assms(2) by simp
qed

lemma piece_legal_completes:
  assumes "wf_board b" and "4 \<le> count_list (squares b) []" and "piece_legal b (DuckTurn s t p None)"
  shows "\<exists>d. duck_step_legal b (DuckTurn s t p (Some d)) d"
proof (cases "castle_side b (DuckTurn s t p None)")
  case None
  have "Some s \<noteq> duck_square b" "on_board s"
    using wf_boardD(4) [OF assms(1)] piece_legalD [OF assms(3)] by (auto simp: duck_ok_def split: option.splits)
  then have "duck_step_legal b (DuckTurn s t p (Some s)) s"
    using None castle_side_duck_irrelevant [of b s t p None p "Some s"]
    by (simp add: duck_step_legal_def)
  then show ?thesis ..
next
  case (Some c)
  obtain d where "on_board d" "at (squares b) d = []" "d \<noteq> king_dest b c" "d \<noteq> rook_dest b c"
      "Some d \<noteq> duck_square b"
    using empty_square_left [OF wf_boardD(1) [OF assms(1)] assms(2)] by blast
  then have "duck_step_legal b (DuckTurn s t p (Some d)) d"
    using Some castle_side_duck_irrelevant [of b s t p None p "Some d"]
    by (simp add: duck_step_legal_def)
  then show ?thesis ..
qed

lemma can_move_iff_legal:
  assumes "wf_board b" and "\<not> missing_king b" and "4 \<le> count_list (squares b) []"
  shows "can_move b \<longleftrightarrow> legal_moves b \<noteq> []"
proof
  assume "can_move b"
  then obtain s t p where p: "piece_legal b (DuckTurn s t p None)" "p \<in> {''q'', ''''}"
    unfolding can_move_def list_ex_iff Let_def by (auto split: if_splits)
  obtain d where "duck_step_legal b (DuckTurn s t p (Some d)) d"
    using piece_legal_completes [OF assms(1,3) p(1)] ..
  then have "is_legal b (DuckTurn s t p (Some d))"
    using assms(2) p(1) piece_legal_duck_irrelevant [of b s t p None "Some d"]
    by (simp add: is_legal_def)
  moreover have "promotion_ok p" using p(2) by (auto simp: promotion_ok_def)
  ultimately have "DuckTurn s t p (Some d) \<in> set (legal_moves b)"
    using legal_moves_iff [of "DuckTurn s t p (Some d)" b] by simp
  then show "legal_moves b \<noteq> []" by auto
next
  assume "legal_moves b \<noteq> []"
  then obtain m where "m \<in> set (legal_moves b)" by (cases "legal_moves b") auto
  then obtain s where "m \<in> set (turns_of_piece b s)"
    using assms(2) by (auto simp: legal_moves_def)
  then have "is_legal b m" "promotion m \<in> set (promotions_for (at (squares b) (from_square m)) (to_square m))"
    by (auto simp: turns_of_piece_iff [OF assms(2)])
  then show "can_move b"
    using can_moveI is_legalD(2) piece_legal_duck_irrelevant
    by (metis duck_turn.collapse)
qed

lemma wf_board_one_king:
  assumes "wf_board b" and "missing_king b"
  shows "(if turn b then ''K'' else ''k'') \<notin> set (squares b) \<longleftrightarrow>
    (if turn b then ''k'' else ''K'') \<in> set (squares b)"
proof -
  have "1 \<le> count_list (squares b) ''K'' + count_list (squares b) ''k''"
    using assms(1) by (simp add: wf_board_def kings_ok_def)
  then have "''K'' \<in> set (squares b) \<or> ''k'' \<in> set (squares b)"
    using count_notin by fastforce
  then show ?thesis using assms(2) by (auto simp: missing_king_def)
qed

definition sample_fen :: string where
  "sample_fen = ''4k3/8/8/3pP3/8/8/8/4K2R w K d6 0 1''"

definition sample_core :: duck_board where
  "sample_core = (case set_fen sample_squares sample_fen (blank_board False) of
     Inr b \<Rightarrow> b | Inl _ \<Rightarrow> blank_board False)"

definition sample_board :: duck_board where
  "sample_board = (let b = sample_core\<lparr>root_fen := fen sample_squares False sample_core\<rparr>
     in b\<lparr>positions := (\<lambda>_. 0)(repetition_key sample_squares b := 1)\<rparr>)"

lemma sample_board: "new_duck_board sample_squares sample_fen False = Inr sample_board"
proof -
  have "is_ok (set_fen sample_squares sample_fen (blank_board False))" by code_simp
  then have "set_fen sample_squares sample_fen (blank_board False) = Inr sample_core"
    by (auto simp: sample_core_def is_ok_iff)
  then show ?thesis by (simp add: new_duck_board_def sample_board_def Let_def)
qed

lemma same_position:
  assumes "squares b = squares b'" and "duck_square b = duck_square b'" and "turn b = turn b'"
    and "rooks b = rooks b'" and "ep_square b = ep_square b'" and "chess960 b = chess960 b'"
  shows "is_legal b m = is_legal b' m"
  by (simp only: is_legal_def missing_king_def piece_legal_def castle_side_def castle_base_def king_dest_def
    rook_dest_def castle_path_clear_def pawn_legal_def line_clear_def duck_step_legal_def captures_ep_def
    ep_victim_def assms)

lemma same_piece_legal:
  assumes "squares b = squares b'" and "duck_square b = duck_square b'" and "turn b = turn b'"
    and "rooks b = rooks b'" and "ep_square b = ep_square b'" and "chess960 b = chess960 b'"
  shows "piece_legal b m = piece_legal b' m"
  by (simp only: piece_legal_def castle_side_def castle_base_def king_dest_def
    rook_dest_def castle_path_clear_def pawn_legal_def line_clear_def assms)

lemma repetition_key_positions: "repetition_key L (b\<lparr>positions := p\<rparr>) = repetition_key L b"
proof -
  have "piece_legal (b\<lparr>positions := p\<rparr>) m = piece_legal b m" for m
    by (rule same_piece_legal) simp_all
  then have "effective_ep (b\<lparr>positions := p\<rparr>) = effective_ep b"
    unfolding effective_ep_def by (auto split: option.split)
  then show ?thesis by (simp add: repetition_key_def fen_def fen_words_def)
qed

lemma sample_board_core:
  "squares sample_board = squares sample_core" "duck_square sample_board = duck_square sample_core"
  "turn sample_board = turn sample_core" "rooks sample_board = rooks sample_core"
  "ep_square sample_board = ep_square sample_core" "chess960 sample_board = chess960 sample_core"
  "halfmove_clock sample_board = halfmove_clock sample_core"
  "fullmove_number sample_board = fullmove_number sample_core"
  "positions sample_board (repetition_key sample_squares sample_board) = 1"
  by (simp_all add: sample_board_def Let_def repetition_key_positions)

definition sample_turn :: duck_turn where
  "sample_turn = DuckTurn 36 43 [] (Some 20)"

definition sample_next :: duck_board where
  "sample_next = (case push_uci sample_squares sample_board ''e5d6,d6e3'' of
     Inr (_, b) \<Rightarrow> b | Inl _ \<Rightarrow> sample_board)"

lemma sample_values:
  "wf_board sample_board" "halfmove_clock sample_board = 0" "fullmove_number sample_board = 1"
  "\<not> missing_king sample_board" "4 \<le> count_list (squares sample_board) []"
  "is_legal sample_board sample_turn" "promotion_ok (promotion sample_turn)"
proof -
  have "halfmove_clock sample_core = 0" "fullmove_number sample_core = 1"
    "\<not> missing_king sample_core" "4 \<le> count_list (squares sample_core) []"
    "is_legal sample_core sample_turn" "promotion_ok (promotion sample_turn)"
    by code_simp+
  then show "halfmove_clock sample_board = 0" "fullmove_number sample_board = 1"
    "\<not> missing_king sample_board" "4 \<le> count_list (squares sample_board) []"
    "is_legal sample_board sample_turn" "promotion_ok (promotion sample_turn)"
    using same_position [OF sample_board_core(1-6), of sample_turn] sample_board_core(1,7,8)
    by (simp_all add: missing_king_def)
  show "wf_board sample_board" by (rule new_duck_board_wf [OF sample_board])
qed

lemma sample_next: "push_uci sample_squares sample_board ''e5d6,d6e3'' = Inr (sample_turn, sample_next)"
proof -
  have "from_uci sample_squares ''e5d6,d6e3'' = Inr sample_turn" by code_simp
  then show ?thesis using sample_values(6)
    by (simp add: sample_next_def push_uci_def parse_uci_def push_def Let_def)
qed


lemma fen_round_trip_witness:
  "\<exists>b'. new_duck_board sample_squares (fen sample_squares False sample_board) (chess960 sample_board) = Inr b'
    \<and> squares b' = squares sample_board"
  using fen_round_trip [OF sample_squares_ok sample_values(1)] sample_values(2,3) by auto

text \<open>
  C2: every board a game can reach, from any FEN the reader accepts and by any turns read
  from their text and played, is well formed: 64 known pieces, one king a side at most and
  one in all at least, no pawn on a last rank, the duck on an empty square, castling rights
  backed by king and rook, and an en-passant square that a double step can have left.
\<close>
theorem game_board_well_formed: "game_board L c960 b \<Longrightarrow> wf_board b"
  by (rule game_board_wf)

lemma game_board_well_formed_witness: "wf_board sample_next"
  by (rule game_board_well_formed [OF game_board.play [OF game_board.start [OF sample_board] sample_next]])



end
