(* ===== verification/Duck_Replay.thy ===== *)
theory Duck_Replay
  imports Duck_Outcome
begin

text \<open>
  Replaying a duck chess game.  A board read back from a FEN may keep its castling rights in
  another order, so boards are compared by \<open>same_pos\<close>, which takes the rights as a map.
  Every operation respects it, so replaying the turns of a game from its root gives the
  position and the position counts of the board itself.
\<close>

definition same_pos :: "duck_board \<Rightarrow> duck_board \<Rightarrow> bool" where
  "same_pos b c = (chess960 b = chess960 c \<and> squares b = squares c \<and> duck_square b = duck_square c
     \<and> turn b = turn c \<and> map_of (rooks b) = map_of (rooks c) \<and> ep_square b = ep_square c
     \<and> halfmove_clock b = halfmove_clock c \<and> fullmove_number b = fullmove_number c
     \<and> wf_board b \<and> wf_board c)"

lemma same_posD:
  assumes "same_pos b c"
  shows "chess960 b = chess960 c" and "squares b = squares c" and "duck_square b = duck_square c"
    and "turn b = turn c" and "map_of (rooks b) = map_of (rooks c)" and "ep_square b = ep_square c"
    and "halfmove_clock b = halfmove_clock c" and "fullmove_number b = fullmove_number c"
    and "wf_board b" and "wf_board c"
  using assms by (auto simp: same_pos_def)

lemma same_pos_sym: "same_pos b c \<Longrightarrow> same_pos c b"
  by (simp add: same_pos_def)

text \<open>The rights of one side are told apart by their rook and by the king's destination.\<close>

definition castles :: "duck_board \<Rightarrow> duck_turn \<Rightarrow> int \<times> int \<Rightarrow> bool" where
  "castles b m right = (case right of (side, rook) \<Rightarrow> (side < 2) = turn b
     \<and> to_square m = (if chess960 b then rook else king_dest b side))"

lemma castles_unique:
  assumes "wf_board b" and "(s, r) \<in> set (rooks b)" and "(s', r') \<in> set (rooks b)"
    and "castles b m (s, r)" and "castles b m (s', r')"
  shows "s = s'"
proof -
  obtain king where k: "on_board king" "at (squares b) king = king_of (s < 2)" "0 \<le> s" "s < 4"
      "s mod 2 = (if r < king then 1 else 0)"
    by (rule right_okD [OF wf_boardD(7) [OF assms(1,2)]])
  obtain king' where k': "on_board king'" "at (squares b) king' = king_of (s' < 2)" "0 \<le> s'" "s' < 4"
      "s' mod 2 = (if r' < king' then 1 else 0)"
    by (rule right_okD [OF wf_boardD(7) [OF assms(1,3)]])
  have w: "(s < 2) = (s' < 2)" using assms(4,5) by (simp add: castles_def)
  then have kk: "king = king'"
    by (intro wf_boardD(5) [OF assms(1) k(1) k'(1), of "s < 2"]) (simp_all add: k(2) k'(2))
  moreover have "chess960 b \<Longrightarrow> r = r'" "\<not> chess960 b \<Longrightarrow> king_dest b s = king_dest b s'"
    using assms(4,5) by (auto simp: castles_def)
  ultimately have "s mod 2 = s' mod 2"
    using k(5) k'(5) by (cases "chess960 b") (auto simp: king_dest_def split: if_splits)
  moreover have "s = 0 \<or> s = 1 \<or> s = 2 \<or> s = 3" "s' = 0 \<or> s' = 1 \<or> s' = 2 \<or> s' = 3"
    using k(3,4) k'(3,4) by arith+
  ultimately show ?thesis using w by auto
qed

lemma castle_side_iff:
  assumes "wf_board b"
  shows "castle_side b m = Some s \<longleftrightarrow>
    at (squares b) (from_square m) = (if turn b then ''K'' else ''k'')
    \<and> from_square m div 8 = castle_base b div 8
    \<and> (\<exists>r. map_of (rooks b) s = Some r \<and> castles b m (s, r))"
proof -
  have find: "map_option fst (List.find (castles b m) (rooks b)) = Some s \<longleftrightarrow>
      (\<exists>r. map_of (rooks b) s = Some r \<and> castles b m (s, r))" (is "?l = ?r")
  proof
    assume ?l
    then obtain r where "List.find (castles b m) (rooks b) = Some (s, r)" by auto
    from find_Some_iff_in [OF this] show ?r using wf_boardD(6) [OF assms] by auto
  next
    assume ?r
    then obtain r where r: "(s, r) \<in> set (rooks b)" "castles b m (s, r)"
      by (auto dest: map_of_SomeD)
    then have "List.find (castles b m) (rooks b) \<noteq> None" by (auto simp: find_None_iff_in)
    then obtain s' r' where f: "List.find (castles b m) (rooks b) = Some (s', r')" by auto
    from find_Some_iff_in [OF f] castles_unique [OF assms r(1) _ r(2)] have "s = s'" by blast
    with f show ?l by simp
  qed
  have eta: "(\<lambda>(side, rook). (side < 2) = turn b
     \<and> to_square m = (if chess960 b then rook else king_dest b side)) = castles b m"
    by (rule ext) (simp add: castles_def)
  show ?thesis unfolding castle_side_def eta find [symmetric] by simp
qed

lemma same_castle_side:
  assumes "same_pos b c"
  shows "castle_side b m = castle_side c m"
proof -
  note d = same_posD [OF assms]
  have "castle_side b m = Some s \<longleftrightarrow> castle_side c m = Some s" for s
    using castle_side_iff [OF d(9), of m s] castle_side_iff [OF d(10), of m s] d(1-5)
    by (simp add: castles_def castle_base_def king_dest_def)
  then show ?thesis by (metis option.exhaust)
qed

lemma same_is_legal:
  assumes "same_pos b c"
  shows "piece_legal b m = piece_legal c m" and "is_legal b m = is_legal c m"
proof -
  note d = same_posD(1-6) [OF assms] and s = same_castle_side [OF assms]
  show p: "piece_legal b m = piece_legal c m" for m
    by (simp only: piece_legal_def castle_base_def king_dest_def
      rook_dest_def castle_path_clear_def pawn_legal_def line_clear_def d s)
  show "is_legal b m = is_legal c m"
    by (simp only: is_legal_def missing_king_def p castle_base_def king_dest_def
      rook_dest_def duck_step_legal_def captures_ep_def ep_victim_def d s)
qed

lemma filtered_rights:
  assumes "distinct (map fst xs)"
  shows "map_of (filter P xs) side = Some rook \<longleftrightarrow> map_of xs side = Some rook \<and> P (side, rook)"
proof -
  have "distinct (map fst (filter P xs))" using assms by (simp add: distinct_map_filter)
  then show ?thesis using assms by (simp add: map_of_eq_Some_iff)
qed

lemma same_push_raw:
  assumes "same_pos b c" and "is_legal b m" and "promotion_ok (promotion m)"
  shows "same_pos (push_raw b m) (push_raw c m)"
proof -
  note d = same_posD [OF assms(1)] and s = same_castle_side [OF assms(1)]
  have keeps: "keeps_right b m = keeps_right c m"
    by (rule ext) (simp only: keeps_right_def d s)
  have "map_of (filter (keeps_right b m) (rooks b)) = map_of (filter (keeps_right c m) (rooks c))"
  proof
    fix side
    have "map_of (filter (keeps_right b m) (rooks b)) side = Some rook \<longleftrightarrow>
        map_of (filter (keeps_right c m) (rooks c)) side = Some rook" for rook
      using d(5) wf_boardD(6) [OF d(9)] wf_boardD(6) [OF d(10)] by (simp add: filtered_rights keeps)
    then show "map_of (filter (keeps_right b m) (rooks b)) side = map_of (filter (keeps_right c m) (rooks c)) side"
      by (metis option.exhaust)
  qed
  moreover have "push_squares b m = push_squares c m"
    by (simp only: push_squares_def captures_ep_def ep_victim_def moved_piece_def king_dest_def
      rook_dest_def castle_base_def d s)
  moreover have "push_halfmove b m = push_halfmove c m" "push_ep b m = push_ep c m"
    by (simp_all only: push_halfmove_def push_ep_def d s)
  moreover have "wf_board (push_raw b m)" "wf_board (push_raw c m)"
    using push_raw_wf [OF d(9) assms(2,3)] push_raw_wf [OF d(10) _ assms(3)]
      same_is_legal(2) [OF assms(1)] assms(2) by simp_all
  ultimately show ?thesis
    using d(1-4,7,8) by (simp add: same_pos_def push_raw_def cong: option.case_cong)
qed

lemma same_fen_rights:
  assumes "map_of xs = map_of ys" and "distinct (map fst xs)" and "distinct (map fst ys)"
  shows "fen_rights c960 xs = fen_rights c960 ys"
proof -
  have "set (map fst xs) = set (map fst ys)"
    using assms(1) by (metis dom_map_of_conv_image_fst set_map)
  then have "sort (map fst xs) = sort (map fst ys)"
    using assms(2,3) by (metis sorted_list_of_set_sort_remdups distinct_remdups_id)
  then show ?thesis using assms(1) by (simp add: fen_rights_def)
qed

lemma same_fen:
  assumes "same_pos b c"
  shows "fen L e b = fen L e c" and "repetition_key L b = repetition_key L c"
proof -
  note d = same_posD [OF assms]
  have "effective_ep b = effective_ep c"
    unfolding effective_ep_def d(2,3,6) same_is_legal(1) [OF assms] ..
  then show f: "fen L e b = fen L e c" for e
    using d same_fen_rights [OF d(5) wf_boardD(6) [OF d(9)] wf_boardD(6) [OF d(10)]]
    by (simp add: fen_def fen_words_def)
  show "repetition_key L b = repetition_key L c"
    by (simp add: repetition_key_def f)
qed

lemma same_pos_positions: "same_pos (b\<lparr>positions := p\<rparr>) c = same_pos b c"
  by (simp add: same_pos_def wf_board_def ep_ok_def Let_def cong: option.case_cong)

lemma same_push:
  assumes "same_pos b c" and "positions b = positions c" and "push L b m = Inr b'"
    and "promotion_ok (promotion m)"
  shows "\<exists>c'. push L c m = Inr c' \<and> same_pos b' c' \<and> positions b' = positions c'"
proof -
  have l: "is_legal b m" "is_legal c m"
    using assms(3) same_is_legal(2) [OF assms(1), of m] by (auto simp: push_Inr)
  note r = same_push_raw [OF assms(1) l(1) assms(4)]
  let ?c = "(push_raw c m)\<lparr>positions := (positions (push_raw c m))
      (repetition_key L (push_raw c m) := positions (push_raw c m) (repetition_key L (push_raw c m)) + 1)\<rparr>"
  have "push L c m = Inr ?c" using l by (simp add: push_def Let_def)
  moreover have "positions (push_raw b m) = positions (push_raw c m)"
    using assms(2) by (simp add: push_raw_def)
  then have "same_pos b' ?c \<and> positions b' = positions ?c"
    using assms(3) l(1) r same_fen(2) [OF r, of L] same_pos_positions same_pos_sym
    by (auto simp: push_def Let_def)
  ultimately show ?thesis by blast
qed

subsection \<open>The root of a game\<close>

lemma parse_counters_bound:
  "parse_counters h f = Inr (x, y) \<Longrightarrow> x \<le> 1000000000 \<and> y \<le> 1000000000"
  by (auto simp: parse_counters_def split: if_splits option.splits)

lemma set_fen_counters:
  assumes "set_fen L t b = Inr b'"
  shows "halfmove_clock b' \<le> 1000000000 \<and> fullmove_number b' \<le> 1000000000"
    and "move_stack b' = move_stack b" and "chess960 b' = chess960 b"
proof -
  obtain sqs dk where rest: "set_fen_rest L (fen_fields t) b (sqs, dk) = Inr b'"
    by (rule set_fen_Inr [OF assms])
  show "halfmove_clock b' \<le> 1000000000 \<and> fullmove_number b' \<le> 1000000000"
    and "move_stack b' = move_stack b" and "chess960 b' = chess960 b"
    by (rule set_fen_rest_Inr [OF rest], use parse_counters_bound in \<open>fastforce\<close>)+
qed

definition replay :: "square_lib \<Rightarrow> duck_board \<Rightarrow> duck_board result" where
  "replay L b = rbind (board_root L b) (\<lambda>r. fold_result (push L) r (move_stack b))"

lemma game_board_c960: "game_board L c960 b \<Longrightarrow> chess960 b = c960"
proof (induction rule: game_board.induct)
  case (start t b)
  then show ?case
    by (auto simp: new_duck_board_def rbind_eq_Inr Let_def blank_board_def dest!: set_fen_counters(3))
next
  case (play b t m b')
  then show ?case by (auto simp: push_uci_def rbind_eq_Inr push_def push_raw_def Let_def split: if_splits)
qed

lemma new_board_root:
  assumes "square_names_ok L" and "new_duck_board L t c960 = Inr b"
  shows "\<exists>r. board_root L b = Inr r \<and> same_pos b r \<and> positions b = positions r \<and> move_stack b = []
    \<and> root_fen b = fen L False b \<and> move_stack r = []"
proof -
  obtain b0 where b0: "set_fen L t (blank_board c960) = Inr b0"
    and b: "b = b0\<lparr>root_fen := fen L False b0,
      positions := (\<lambda>_. 0)(repetition_key L (b0\<lparr>root_fen := fen L False b0\<rparr>) := 1)\<rparr>"
    using assms(2) by (auto simp: new_duck_board_def rbind_eq_Inr Let_def)
  have wf: "wf_board b" by (rule new_duck_board_wf [OF assms(2)])
  have f: "root_fen b = fen L False b" "move_stack b = []" "chess960 b = c960"
    using set_fen_counters(2,3) [OF b0] unfolding b
    by (simp_all add: fen_def fen_words_def blank_board_def)
  have pos: "positions b = (\<lambda>_. 0)(repetition_key L b := 1)"
    unfolding b by (simp add: repetition_key_positions)
  have cnt: "halfmove_clock b \<le> 1000000000" "fullmove_number b \<le> 1000000000"
    using set_fen_counters(1) [OF b0] unfolding b by simp_all
  from fen_round_trip_board [OF assms(1) wf cnt] obtain r where
    r: "new_duck_board L (fen L False b) (chess960 b) = Inr r"
      "chess960 r = chess960 b \<and> squares r = squares b \<and> duck_square r = duck_square b
    \<and> turn r = turn b \<and> map_of (rooks r) = map_of (rooks b) \<and> ep_square r = ep_square b
    \<and> halfmove_clock r = halfmove_clock b \<and> fullmove_number r = fullmove_number b"
    by blast
  have same: "same_pos b r"
    using r(2) wf new_duck_board_wf [OF r(1)] by (auto simp: same_pos_def)
  have "positions r = (\<lambda>_. 0)(repetition_key L r := 1)" "move_stack r = []"
    using r(1) by (auto simp: new_duck_board_def rbind_eq_Inr Let_def repetition_key_positions blank_board_def
      dest!: set_fen_counters(2))
  then show ?thesis
    using r(1) f same pos same_fen(2) [OF same, of L] by (auto simp: board_root_def)
qed

lemma game_board_replay:
  assumes "square_names_ok L" and "game_board L c960 b"
  shows "\<exists>r c. board_root L b = Inr r \<and> fold_result (push L) r (move_stack b) = Inr c
    \<and> same_pos b c \<and> positions b = positions c"
  using assms(2)
proof (induction rule: game_board.induct)
  case (start t b)
  from new_board_root [OF assms(1) start] show ?case by auto
next
  case (play b t m b')
  from play.hyps(2) have m: "from_uci L t = Inr m" "push L b m = Inr b'"
    by (auto simp: push_uci_def parse_uci_def rbind_eq_Inr split: if_splits)
  obtain r c where rc: "board_root L b = Inr r" "fold_result (push L) r (move_stack b) = Inr c"
    "same_pos b c" "positions b = positions c" using play.IH by blast
  obtain c' where c': "push L c m = Inr c'" "same_pos b' c'" "positions b' = positions c'"
    using same_push [OF rc(3,4) m(2) from_uci_promotion [OF m(1)]] by blast
  have "board_root L b' = board_root L b" "move_stack b' = move_stack b @ [m]"
    using m(2) by (auto simp: push_Inr board_root_def push_raw_def)
  then show ?case using rc(1,2) c' by (simp add: fold_result_append)
qed

end
