(* ===== verification/Variants.thy ===== *)
theory Variants
  imports Duck_Replay
begin

text \<open>
  \<open>cope/variants/__init__.py\<close>: the variant table and the two kinds of position.  The rules
  of orthodox chess are those of the package python-chess: its \<open>Board\<close> is a parameter, a
  record of the operations the program calls on it.  A position is either such a board or a
  duck board; the operations written for both dispatch on the kind.
\<close>

datatype option_value = OptText string | OptInt int | OptBool bool

record variant_definition =
  variant_id :: string
  variant_name :: string
  rules_revision :: string
  variant_chess960 :: bool
  variant_duck :: bool
  requires_openings :: bool

definition variant_list :: "variant_definition list" where
  "variant_list =
    [\<lparr>variant_id = ''standard'', variant_name = ''Standard'', rules_revision = ''chess1'',
      variant_chess960 = False, variant_duck = False, requires_openings = False\<rparr>,
     \<lparr>variant_id = ''dfrc'', variant_name = ''DFRC'', rules_revision = ''chess1'',
      variant_chess960 = True, variant_duck = False, requires_openings = True\<rparr>,
     \<lparr>variant_id = ''duck'', variant_name = ''Duck'', rules_revision = ''duck1'',
      variant_chess960 = False, variant_duck = True, requires_openings = False\<rparr>,
     \<lparr>variant_id = ''duck960'', variant_name = ''Duck960'', rules_revision = ''duck1'',
      variant_chess960 = True, variant_duck = True, requires_openings = True\<rparr>]"

definition VARIANTS :: "(string \<times> variant_definition) list" where
  "VARIANTS = map (\<lambda>v. (variant_id v, v)) variant_list"

definition get_variant :: "string \<Rightarrow> variant_definition result" where
  "get_variant v = or_error (ValueError ''Unknown variant'') (map_of VARIANTS v)"

definition uci_options :: "variant_definition \<Rightarrow> (string \<times> option_value) list" where
  "uci_options v = [(''UCI_Variant'', OptText (if variant_duck v then ''duck'' else ''chess'')),
     (''UCI_Chess960'', OptBool (variant_chess960 v))]"

definition pgn_headers :: "variant_definition \<Rightarrow> (string \<times> string) list" where
  "pgn_headers v =
    (if variant_duck v
     then [(''Variant'', if variant_chess960 v then ''Duck960'' else ''Duck''), (''VariantRules'', rules_revision v)]
     else if variant_chess960 v then [(''Variant'', ''Chess960''), (''CopeVariant'', ''DFRC'')] else [])"

subsection \<open>Positions of either kind\<close>

text \<open>The operations of \<open>chess.Board\<close> and \<open>chess.Outcome\<close> that the program calls.\<close>

record ('c, 'm) chess_rules =
  new_chess_board :: "string \<Rightarrow> bool \<Rightarrow> 'c result"
  chess_fen :: "bool \<Rightarrow> 'c \<Rightarrow> string"
  chess_root :: "'c \<Rightarrow> 'c"
  chess_push :: "'c \<Rightarrow> 'm \<Rightarrow> 'c"
  chess_stack :: "'c \<Rightarrow> 'm list"
  chess_turn :: "'c \<Rightarrow> bool"
  chess_is_960 :: "'c \<Rightarrow> bool"
  chess_legal_moves :: "'c \<Rightarrow> 'm list"
  chess_parse_uci :: "'c \<Rightarrow> string \<Rightarrow> 'm result"
  move_from_uci :: "string \<Rightarrow> 'm result"
  move_uci :: "'m \<Rightarrow> string"
  is_variant_loss :: "'c \<Rightarrow> bool"
  is_variant_win :: "'c \<Rightarrow> bool"
  is_variant_draw :: "'c \<Rightarrow> bool"
  is_checkmate :: "'c \<Rightarrow> bool"
  is_insufficient_material :: "'c \<Rightarrow> bool"
  is_stalemate :: "'c \<Rightarrow> bool"
  is_seventyfive_moves :: "'c \<Rightarrow> bool"
  can_claim_fifty_moves :: "'c \<Rightarrow> bool"
  chess_halfmove_clock :: "'c \<Rightarrow> int"
  chess_insufficient :: "'c \<Rightarrow> bool \<Rightarrow> bool"
  outcome_result :: "bool option \<Rightarrow> string"

datatype 'c position = Standard_Position 'c | Duck_Position duck_board

datatype 'm game_turn = Standard_Turn 'm | Duck_Game_Turn duck_turn

type_synonym ('c, 'm) rules = "square_lib \<times> ('c, 'm) chess_rules"

definition variant_board :: "('c, 'm) rules \<Rightarrow> variant_definition \<Rightarrow> string option \<Rightarrow> 'c position result" where
  "variant_board R v given = (let
     t = (case given of None \<Rightarrow> starting_fen (fst R)
          | Some f \<Rightarrow> if f = [] \<or> f = ''startpos'' then starting_fen (fst R) else f)
   in if variant_duck v
      then rbind (new_duck_board (fst R) t (variant_chess960 v)) (\<lambda>b. Inr (Duck_Position b))
      else rbind (new_chess_board (snd R) t (variant_chess960 v)) (\<lambda>c. Inr (Standard_Position c)))"

definition create_board :: "('c, 'm) rules \<Rightarrow> string option \<Rightarrow> string \<Rightarrow> 'c position result" where
  "create_board R given v = rbind (get_variant v) (\<lambda>d. variant_board R d given)"

fun parse_turn :: "('c, 'm) rules \<Rightarrow> 'c position \<Rightarrow> string \<Rightarrow> 'm game_turn result" where
  "parse_turn R (Duck_Position b) t = rbind (parse_uci (fst R) b t) (\<lambda>m. Inr (Duck_Game_Turn m))"
| "parse_turn R (Standard_Position c) t = rbind (chess_parse_uci (snd R) c t) (\<lambda>m. Inr (Standard_Turn m))"

text \<open>The methods both kinds of board have.\<close>

fun pos_turn :: "('c, 'm) rules \<Rightarrow> 'c position \<Rightarrow> bool" where
  "pos_turn R (Duck_Position b) = turn b"
| "pos_turn R (Standard_Position c) = chess_turn (snd R) c"

fun pos_stack :: "('c, 'm) rules \<Rightarrow> 'c position \<Rightarrow> 'm game_turn list" where
  "pos_stack R (Duck_Position b) = map Duck_Game_Turn (move_stack b)"
| "pos_stack R (Standard_Position c) = map Standard_Turn (chess_stack (snd R) c)"

fun pos_root :: "('c, 'm) rules \<Rightarrow> 'c position \<Rightarrow> 'c position result" where
  "pos_root R (Duck_Position b) = rbind (board_root (fst R) b) (\<lambda>r. Inr (Duck_Position r))"
| "pos_root R (Standard_Position c) = Inr (Standard_Position (chess_root (snd R) c))"

text \<open>
  \<open>fen(shredder=...)\<close> with the default en-passant mode, which is \<open>legal\<close> in python-chess and
  \<open>fen\<close> in the duck board, and \<open>fen(en_passant="legal")\<close>.
\<close>

fun pos_fen :: "('c, 'm) rules \<Rightarrow> bool \<Rightarrow> 'c position \<Rightarrow> string" where
  "pos_fen R shredder (Duck_Position b) = fen (fst R) False b"
| "pos_fen R shredder (Standard_Position c) = chess_fen (snd R) shredder c"

fun pos_legal_fen :: "('c, 'm) rules \<Rightarrow> 'c position \<Rightarrow> string" where
  "pos_legal_fen R (Duck_Position b) = fen (fst R) True b"
| "pos_legal_fen R (Standard_Position c) = chess_fen (snd R) False c"

fun pos_is_960 :: "('c, 'm) rules \<Rightarrow> 'c position \<Rightarrow> bool" where
  "pos_is_960 R (Duck_Position b) = chess960 b"
| "pos_is_960 R (Standard_Position c) = chess_is_960 (snd R) c"

fun pos_push :: "('c, 'm) rules \<Rightarrow> 'c position \<Rightarrow> 'm game_turn \<Rightarrow> 'c position result" where
  "pos_push R (Duck_Position b) (Duck_Game_Turn m) = rbind (push (fst R) b m) (\<lambda>b'. Inr (Duck_Position b'))"
| "pos_push R (Standard_Position c) (Standard_Turn m) = Inr (Standard_Position (chess_push (snd R) c m))"
| "pos_push R (Duck_Position b) (Standard_Turn m) = Inl (ValueError ''Illegal duck turn'')"
| "pos_push R (Standard_Position c) (Duck_Game_Turn m) = Inl (TypeError ''move'')"

fun turn_uci :: "('c, 'm) rules \<Rightarrow> 'm game_turn \<Rightarrow> string" where
  "turn_uci R (Duck_Game_Turn m) = uci (fst R) m"
| "turn_uci R (Standard_Turn m) = move_uci (snd R) m"

text \<open>\<open>move in board.legal_moves\<close>: a duck board accepts no turn of orthodox chess.\<close>

fun legal_turn :: "('c, 'm) rules \<Rightarrow> 'c position \<Rightarrow> 'm game_turn \<Rightarrow> bool" where
  "legal_turn R (Duck_Position b) (Duck_Game_Turn m) = is_legal b m"
| "legal_turn R (Duck_Position b) (Standard_Turn m) = False"
| "legal_turn R (Standard_Position c) (Standard_Turn m) = (m \<in> set (chess_legal_moves (snd R) c))"
| "legal_turn R (Standard_Position c) (Duck_Game_Turn m) = False"

fun pos_insufficient :: "('c, 'm) rules \<Rightarrow> 'c position \<Rightarrow> bool \<Rightarrow> bool" where
  "pos_insufficient R (Duck_Position b) side = has_insufficient_material b side"
| "pos_insufficient R (Standard_Position c) side = chess_insufficient (snd R) c side"

lemma get_variant_Inr:
  "get_variant v = Inr d \<Longrightarrow> variant_id d = v \<and> d \<in> set variant_list"
  unfolding get_variant_def or_error_eq_Inr VARIANTS_def by (drule map_of_SomeD) auto

subsection \<open>What the replay of a game relies on in the chess package\<close>

text \<open>
  Documented behaviour of \<open>chess.Board\<close>: \<open>push\<close> appends to the move stack and leaves the root
  alone, a new board has an empty stack and is its own root, and replaying the stack from the
  root gives the position back.
\<close>

inductive chess_reachable :: "('c, 'm) chess_rules \<Rightarrow> 'c \<Rightarrow> bool" for R :: "('c, 'm) chess_rules" where
  new: "new_chess_board R t v = Inr c \<Longrightarrow> chess_reachable R c"
| pushed: "chess_reachable R c \<Longrightarrow> chess_reachable R (chess_push R c m)"

definition chess_rules_ok :: "('c, 'm) chess_rules \<Rightarrow> bool" where
  "chess_rules_ok R = ((\<forall>t v c. new_chess_board R t v = Inr c \<longrightarrow>
       chess_stack R c = [] \<and> chess_fen R False (chess_root R c) = chess_fen R False c)
     \<and> (\<forall>c m. chess_reachable R c \<longrightarrow> chess_stack R (chess_push R c m) = chess_stack R c @ [m]
          \<and> chess_root R (chess_push R c m) = chess_root R c)
     \<and> (\<forall>c. chess_reachable R c \<longrightarrow>
          chess_fen R False (foldl (chess_push R) (chess_root R c) (chess_stack R c)) = chess_fen R False c))"

inductive game_position :: "('c, 'm) rules \<Rightarrow> 'c position \<Rightarrow> bool" for R :: "('c, 'm) rules" where
  duck: "square_names_ok (fst R) \<Longrightarrow> game_board (fst R) c960 b \<Longrightarrow> game_position R (Duck_Position b)"
| standard: "chess_rules_ok (snd R) \<Longrightarrow> chess_reachable (snd R) c \<Longrightarrow> game_position R (Standard_Position c)"

inductive_cases game_position_duckE: "game_position R (Duck_Position b)"
inductive_cases game_position_standardE: "game_position R (Standard_Position c)"

text \<open>One turn read from its text and played.\<close>

definition pos_play :: "('c, 'm) rules \<Rightarrow> 'c position \<Rightarrow> string \<Rightarrow> 'c position result" where
  "pos_play R p t = rbind (parse_turn R p t) (pos_push R p)"

lemma game_position_play:
  assumes "game_position R p" and "pos_play R p t = Inr p'"
  shows "game_position R p'"
proof (cases p)
  case (Duck_Position b)
  then obtain c960 where g: "square_names_ok (fst R)" "game_board (fst R) c960 b"
    using assms(1) game_position_duckE by blast
  from assms(2) Duck_Position obtain m b' where "parse_uci (fst R) b t = Inr m" "push (fst R) b m = Inr b'"
    and p': "p' = Duck_Position b'" by (auto simp: pos_play_def rbind_eq_Inr)
  then have "push_uci (fst R) b t = Inr (m, b')" by (simp add: push_uci_def)
  from game_position.duck [OF g(1) game_board.play [OF g(2) this]] show ?thesis unfolding p' .
next
  case (Standard_Position c)
  note g = assms(1) [unfolded Standard_Position]
  have c: "chess_rules_ok (snd R)" "chess_reachable (snd R) c"
    by (rule game_position_standardE [OF g], assumption)+
  obtain m where "p' = Standard_Position (chess_push (snd R) c m)"
    using assms(2) Standard_Position by (auto simp: pos_play_def rbind_eq_Inr)
  then show ?thesis
    using game_position.standard [OF c(1) chess_reachable.pushed [OF c(2)]] by simp
qed

end
