(* ===== verification/Game_State.thy ===== *)
theory Game_State
  imports Variants
begin

text \<open>
  \<open>cope/tournament/game_state.py\<close>: the state of one game, that is its position, its result
  and the count of the positions seen.  The counts are kept in step with the board move by
  move, and rebuilt by replaying the board's turns when they are out of step; the locale
  below states what of a board that relies on, and proves that both ways agree.
\<close>

datatype game_termination =
    CHECKMATE | STALEMATE | INSUFFICIENT_MATERIAL | SEVENTYFIVE_MOVES | FIVEFOLD_REPETITION
  | FIFTY_MOVES | THREEFOLD_REPETITION | TIMEOUT | ILLEGAL_MOVE | ENGINE_ERROR | VARIANT_END
  | KING_CAPTURE | NO_LEGAL_MOVE | UNKNOWN

fun termination_value :: "game_termination \<Rightarrow> string" where
  "termination_value CHECKMATE = ''checkmate''"
| "termination_value STALEMATE = ''stalemate''"
| "termination_value INSUFFICIENT_MATERIAL = ''insufficient material''"
| "termination_value SEVENTYFIVE_MOVES = ''seventy-five moves''"
| "termination_value FIVEFOLD_REPETITION = ''fivefold repetition''"
| "termination_value FIFTY_MOVES = ''fifty moves''"
| "termination_value THREEFOLD_REPETITION = ''threefold repetition''"
| "termination_value TIMEOUT = ''timeout''"
| "termination_value ILLEGAL_MOVE = ''illegal move''"
| "termination_value ENGINE_ERROR = ''engine error''"
| "termination_value VARIANT_END = ''variant end''"
| "termination_value KING_CAPTURE = ''king capture''"
| "termination_value NO_LEGAL_MOVE = ''no legal move''"
| "termination_value UNKNOWN = ''unknown''"

fun board_termination :: "chess_termination \<Rightarrow> game_termination" where
  "board_termination Checkmate = CHECKMATE"
| "board_termination Stalemate = STALEMATE"
| "board_termination InsufficientMaterial = INSUFFICIENT_MATERIAL"
| "board_termination SeventyfiveMoves = SEVENTYFIVE_MOVES"
| "board_termination FivefoldRepetition = FIVEFOLD_REPETITION"
| "board_termination FiftyMoves = FIFTY_MOVES"
| "board_termination ThreefoldRepetition = THREEFOLD_REPETITION"
| "board_termination VariantWin = VARIANT_END"
| "board_termination VariantLoss = VARIANT_END"
| "board_termination VariantDraw = VARIANT_END"

type_synonym counts = "string list \<Rightarrow> nat"

record 'c game_state =
  gs_board :: "'c position"
  gs_result :: string
  gs_winner :: "bool option"
  gs_termination :: "game_termination option"
  gs_details :: string
  gs_counts :: counts
  gs_recorded :: nat

definition count_position :: "string list \<Rightarrow> counts \<Rightarrow> counts" where
  "count_position k c = c(k := c k + 1)"

definition position_key :: "('c, 'm) rules \<Rightarrow> 'c position \<Rightarrow> string list" where
  "position_key R p = take 4 (split_ws (pos_legal_fen R p))"

text \<open>The replay of \<open>_reset_position_counts\<close>: the position and the counts after each turn.\<close>

definition replay_turn :: "('c, 'm) rules \<Rightarrow> 'c position \<times> counts \<Rightarrow> 'm game_turn
    \<Rightarrow> ('c position \<times> counts) result" where
  "replay_turn R st m = (case st of (p, c) \<Rightarrow>
     rbind (pos_push R p m) (\<lambda>p'. Inr (p', count_position (position_key R p') c)))"

definition replayed_counts :: "('c, 'm) rules \<Rightarrow> 'c position \<Rightarrow> counts result" where
  "replayed_counts R p = rbind (pos_root R p) (\<lambda>r.
     rbind (fold_result (replay_turn R) (r, (\<lambda>_. 0)(position_key R r := 1)) (pos_stack R p))
       (\<lambda>(p', c). Inr c))"

definition reset_position_counts :: "('c, 'm) rules \<Rightarrow> 'c game_state \<Rightarrow> 'c game_state result" where
  "reset_position_counts R s = rbind (replayed_counts R (gs_board s)) (\<lambda>c.
     Inr (s\<lparr>gs_counts := c, gs_recorded := length (pos_stack R (gs_board s))\<rparr>))"

definition record_position :: "('c, 'm) rules \<Rightarrow> 'c game_state \<Rightarrow> 'c game_state result" where
  "record_position R s = (let stack_size = length (pos_stack R (gs_board s)) in
     if stack_size = gs_recorded s then Inr s
     else if stack_size \<noteq> gs_recorded s + 1 then reset_position_counts R s
     else Inr (s\<lparr>gs_counts := count_position (position_key R (gs_board s)) (gs_counts s),
                 gs_recorded := stack_size\<rparr>))"

definition current_outcome :: "('c, 'm) rules \<Rightarrow> 'c game_state \<Rightarrow> outcome option" where
  "current_outcome R s = (case gs_board s of
     Duck_Position b \<Rightarrow> outcome (fst R) b
   | Standard_Position c \<Rightarrow> (let C = snd R; side = chess_turn C c;
         seen = gs_counts s (position_key R (gs_board s))
       in if is_variant_loss C c then Some (Outcome VariantLoss (Some (\<not> side)))
          else if is_variant_win C c then Some (Outcome VariantWin (Some side))
          else if is_variant_draw C c then Some (Outcome VariantDraw None)
          else if is_checkmate C c then Some (Outcome Checkmate (Some (\<not> side)))
          else if is_insufficient_material C c then Some (Outcome InsufficientMaterial None)
          else if is_stalemate C c then Some (Outcome Stalemate None)
          else if is_seventyfive_moves C c then Some (Outcome SeventyfiveMoves None)
          else if 5 \<le> seen then Some (Outcome FivefoldRepetition None)
          else if 99 \<le> chess_halfmove_clock C c \<and> can_claim_fifty_moves C c then Some (Outcome FiftyMoves None)
          else if 3 \<le> seen then Some (Outcome ThreefoldRepetition None)
          else None))"

fun final_termination :: "'c position \<Rightarrow> chess_termination \<Rightarrow> game_termination" where
  "final_termination (Duck_Position b) t =
     (if t = VariantWin \<or> t = VariantLoss then (if missing_king b then KING_CAPTURE else NO_LEGAL_MOVE)
      else board_termination t)"
| "final_termination (Standard_Position c) t = board_termination t"

definition apply_outcome :: "('c, 'm) rules \<Rightarrow> 'c game_state \<Rightarrow> outcome \<Rightarrow> 'c game_state" where
  "apply_outcome R s out = (let t = final_termination (gs_board s) (outcome_termination out) in
     s\<lparr>gs_result := outcome_result (snd R) (outcome_winner out), gs_winner := outcome_winner out,
       gs_termination := Some t, gs_details := termination_value t\<rparr>)"

definition update_from_board :: "('c, 'm) rules \<Rightarrow> 'c game_state \<Rightarrow> 'c game_state result" where
  "update_from_board R s = rbind (record_position R s) (\<lambda>s.
     Inr (case current_outcome R s of None \<Rightarrow> s | Some out \<Rightarrow> apply_outcome R s out))"

definition blank_state :: "'c position \<Rightarrow> 'c game_state" where
  "blank_state p = \<lparr>gs_board = p, gs_result = ''*'', gs_winner = None, gs_termination = None,
     gs_details = [], gs_counts = (\<lambda>_. 0), gs_recorded = 0\<rparr>"

definition new_game_state :: "('c, 'm) rules \<Rightarrow> 'c position \<Rightarrow> 'c game_state result" where
  "new_game_state R p = rbind (reset_position_counts R (blank_state p)) (update_from_board R)"

definition set_board :: "('c, 'm) rules \<Rightarrow> 'c position \<Rightarrow> 'c game_state \<Rightarrow> 'c game_state result" where
  "set_board R p s = reset_position_counts R (s\<lparr>gs_board := p\<rparr>)"

definition is_finished :: "'c game_state \<Rightarrow> bool" where
  "is_finished s = (gs_result s \<noteq> ''*'')"

definition set_decisive_result :: "bool \<Rightarrow> game_termination \<Rightarrow> string \<Rightarrow> 'c game_state \<Rightarrow> 'c game_state" where
  "set_decisive_result winner t details s = s\<lparr>gs_winner := Some winner, gs_termination := Some t,
     gs_result := (if winner then ''1-0'' else ''0-1''),
     gs_details := termination_value t @ (if details = [] then [] else '': '' @ details)\<rparr>"

definition record_timeout :: "('c, 'm) rules \<Rightarrow> bool \<Rightarrow> 'c game_state \<Rightarrow> 'c game_state" where
  "record_timeout R loser s = (if pos_insufficient R (gs_board s) (\<not> loser)
     then s\<lparr>gs_winner := None, gs_termination := Some INSUFFICIENT_MATERIAL, gs_result := ''1/2-1/2'',
            gs_details := termination_value INSUFFICIENT_MATERIAL\<rparr>
     else set_decisive_result (\<not> loser) TIMEOUT [] s)"

definition record_illegal_move :: "bool \<Rightarrow> string \<Rightarrow> 'c game_state \<Rightarrow> 'c game_state" where
  "record_illegal_move loser move s = set_decisive_result (\<not> loser) ILLEGAL_MOVE move s"

definition record_engine_error :: "bool \<Rightarrow> string \<Rightarrow> 'c game_state \<Rightarrow> 'c game_state" where
  "record_engine_error loser error s = set_decisive_result (\<not> loser) ENGINE_ERROR error s"

definition get_summary :: "'c game_state \<Rightarrow> string" where
  "get_summary s = (if \<not> is_finished s then ''Game in progress''
     else if gs_details s \<noteq> [] then gs_result s @ '' by '' @ gs_details s else gs_result s)"

subsection \<open>Boards that can be replayed\<close>

locale replayable =
  fixes root :: "'b \<Rightarrow> 'b result" and psh :: "'b \<Rightarrow> 'm \<Rightarrow> 'b result" and stack :: "'b \<Rightarrow> 'm list"
    and key :: "'b \<Rightarrow> string list" and reachable :: "'b \<Rightarrow> bool"
  assumes push_stack: "reachable b \<Longrightarrow> psh b m = Inr b' \<Longrightarrow> stack b' = stack b @ [m]"
    and push_root: "reachable b \<Longrightarrow> psh b m = Inr b' \<Longrightarrow> root b' = root b"
    and replays: "reachable b \<Longrightarrow> \<exists>r c. root b = Inr r \<and> fold_result psh r (stack b) = Inr c \<and> key c = key b"
begin

definition step :: "'b \<times> counts \<Rightarrow> 'm \<Rightarrow> ('b \<times> counts) result" where
  "step st m = (case st of (b, c) \<Rightarrow> rbind (psh b m) (\<lambda>b'. Inr (b', count_position (key b') c)))"

definition counts_of :: "'b \<Rightarrow> counts result" where
  "counts_of b = rbind (root b) (\<lambda>r.
     rbind (fold_result step (r, (\<lambda>_. 0)(key r := 1)) (stack b)) (\<lambda>(b', c). Inr c))"

lemma step_pair: "step (b, c) m = rbind (psh b m) (\<lambda>b'. Inr (b', count_position (key b') c))"
  by (simp add: step_def)

lemma fold_step_board:
  "fold_result step (b, c) ms = Inr (b', c') \<Longrightarrow> fold_result psh b ms = Inr b'"
  by (induction ms arbitrary: b c) (auto simp: step_pair rbind_eq_Inr)

lemma fold_step_total:
  "fold_result psh b ms = Inr b' \<Longrightarrow> \<exists>c'. fold_result step (b, c) ms = Inr (b', c')"
  by (induction ms arbitrary: b c) (auto simp: step_pair rbind_eq_Inr)

lemma counts_total:
  assumes "reachable b"
  shows "\<exists>c. counts_of b = Inr c"
proof -
  obtain r e where re: "root b = Inr r" "fold_result psh r (stack b) = Inr e"
    using replays [OF assms] by blast
  obtain c where "fold_result step (r, (\<lambda>_. 0)(key r := 1)) (stack b) = Inr (e, c)"
    using fold_step_total [OF re(2)] by blast
  then show ?thesis using re(1) by (simp add: counts_of_def)
qed

text \<open>Counting one more position gives what the replay gives.\<close>

lemma counts_push:
  assumes "reachable b" and "psh b m = Inr b'" and "reachable b'" and "counts_of b = Inr c"
  shows "counts_of b' = Inr (count_position (key b') c)"
proof -
  obtain r e where re: "root b = Inr r" "fold_result psh r (stack b) = Inr e"
    using replays [OF assms(1)] by blast
  have root': "root b' = Inr r" using push_root [OF assms(1,2)] re(1) by simp
  have st': "stack b' = stack b @ [m]" by (rule push_stack [OF assms(1,2)])
  obtain e' where e': "fold_result psh r (stack b') = Inr e'" "key e' = key b'"
    using replays [OF assms(3)] root' by auto
  have step1: "fold_result step (r, (\<lambda>_. 0)(key r := 1)) (stack b) = Inr (e, c)"
    using assms(4) re fold_step_board [of r "(\<lambda>_. 0)(key r := 1)" "stack b"]
    by (auto simp: counts_of_def rbind_eq_Inr)
  have "psh e m = Inr e'" using e'(1) re(2) unfolding st' by (simp add: fold_result_append rbind_eq_Inr)
  then have "fold_result step (r, (\<lambda>_. 0)(key r := 1)) (stack b') = Inr (e', count_position (key e') c)"
    unfolding st' using step1 by (simp add: fold_result_append step_pair)
  then show ?thesis using root' e'(2) by (simp add: counts_of_def)
qed

text \<open>The counts say how often each position occurred.\<close>

fun seen_keys :: "'b \<Rightarrow> 'm list \<Rightarrow> string list list" where
  "seen_keys b [] = [key b]"
| "seen_keys b (m # ms) = key b # (case psh b m of Inr b' \<Rightarrow> seen_keys b' ms | Inl _ \<Rightarrow> [])"

lemma fold_step_counts:
  "fold_result step (b, c) ms = Inr (b', c') \<Longrightarrow>
   c' k + (if key b = k then 1 else 0) = c k + count_list (seen_keys b ms) k"
proof (induction ms arbitrary: b c)
  case Nil
  then show ?case by simp
next
  case (Cons m ms)
  then obtain b1 where b1: "psh b m = Inr b1"
    "fold_result step (b1, count_position (key b1) c) ms = Inr (b', c')"
    by (auto simp: step_pair rbind_eq_Inr)
  from Cons.IH [OF b1(2)] show ?case using b1(1) by (auto simp: count_position_def split: if_splits)
qed

lemma counts_of_seen:
  assumes "counts_of b = Inr c" and "root b = Inr r"
  shows "c k = count_list (seen_keys r (stack b)) k"
proof -
  obtain e where "fold_result step (r, (\<lambda>_. 0)(key r := 1)) (stack b) = Inr (e, c)"
    using assms by (auto simp: counts_of_def rbind_eq_Inr)
  from fold_step_counts [OF this, of k] show ?thesis by (auto split: if_splits)
qed

end

subsection \<open>Both kinds of position can be replayed\<close>

lemma duck_push_history:
  "push L b m = Inr b' \<Longrightarrow> move_stack b' = move_stack b @ [m] \<and> board_root L b' = board_root L b"
  by (auto simp: push_def Let_def push_raw_def board_root_def split: if_splits)

lemma fold_push_duck:
  "fold_result (push L) b ms = Inr c \<Longrightarrow>
   fold_result (pos_push (L, C)) (Duck_Position b) (map Duck_Game_Turn ms) = Inr (Duck_Position c)"
  by (induction ms arbitrary: b) (auto simp: rbind_eq_Inr)

lemma fold_push_standard:
  "fold_result (pos_push (L, C)) (Standard_Position c) (map Standard_Turn ms)
    = Inr (Standard_Position (foldl (chess_push C) c ms))"
  by (induction ms arbitrary: c) auto

lemma position_push_history:
  assumes "game_position R p" and "pos_push R p m = Inr p'"
  shows "pos_stack R p' = pos_stack R p @ [m] \<and> pos_root R p' = pos_root R p"
proof (cases p)
  case (Duck_Position b)
  then obtain d b' where "m = Duck_Game_Turn d" "push (fst R) b d = Inr b'" "p' = Duck_Position b'"
    using assms(2) by (cases m) (auto simp: rbind_eq_Inr)
  then show ?thesis using Duck_Position duck_push_history [of "fst R" b d b'] by simp
next
  case (Standard_Position c)
  then obtain s where s: "m = Standard_Turn s" "p' = Standard_Position (chess_push (snd R) c s)"
    using assms(2) by (cases m) auto
  have "chess_rules_ok (snd R)" "chess_reachable (snd R) c"
    by (rule game_position_standardE [OF assms(1) [unfolded Standard_Position]], assumption)+
  then show ?thesis using s Standard_Position by (simp add: chess_rules_ok_def)
qed

lemma position_replays:
  assumes "game_position R p"
  shows "\<exists>r c. pos_root R p = Inr r \<and> fold_result (pos_push R) r (pos_stack R p) = Inr c
    \<and> position_key R c = position_key R p"
  using assms
proof cases
  case (duck c960 b)
  obtain r c where rc: "board_root (fst R) b = Inr r" "fold_result (push (fst R)) r (move_stack b) = Inr c"
    "same_pos b c"
    using game_board_replay [OF duck(2,3)] by blast
  have "fold_result (pos_push R) (Duck_Position r) (pos_stack R p) = Inr (Duck_Position c)"
    using fold_push_duck [OF rc(2), of "snd R"] duck(1) by simp
  moreover have "position_key R (Duck_Position c) = position_key R p"
    using same_fen(1) [OF rc(3)] duck(1) by (simp add: position_key_def)
  ultimately show ?thesis using rc(1) duck(1) by auto
next
  case (standard c)
  let ?r = "chess_root (snd R) c"
  have "fold_result (pos_push R) (Standard_Position ?r) (pos_stack R p)
      = Inr (Standard_Position (foldl (chess_push (snd R)) ?r (chess_stack (snd R) c)))"
    using fold_push_standard [of "fst R" "snd R"] standard(1) by simp
  then show ?thesis
    using standard by (simp add: position_key_def chess_rules_ok_def)
qed

interpretation positions: replayable "pos_root R" "pos_push R" "pos_stack R" "position_key R" "game_position R"
  for R :: "('c, 'm) rules"
  by unfold_locales (use position_push_history position_replays in blast)+

lemma replayed_counts_eq: "replayed_counts R p =
  replayable.counts_of (pos_root R) (pos_push R) (pos_stack R) (position_key R) p"
proof -
  have "replay_turn R = positions.step R"
    by (intro ext) (simp add: replay_turn_def positions.step_def split: prod.split)
  then show ?thesis by (simp add: replayed_counts_def positions.counts_of_def)
qed

subsection \<open>The states of a game\<close>

text \<open>
  A game from a new state: the runner plays a turn on the board, then the state is updated.
\<close>

inductive game_run :: "('c, 'm) rules \<Rightarrow> 'c game_state \<Rightarrow> bool" for R :: "('c, 'm) rules" where
  start: "game_position R p \<Longrightarrow> new_game_state R p = Inr s \<Longrightarrow> game_run R s"
| move: "game_run R s \<Longrightarrow> pos_play R (gs_board s) t = Inr p \<Longrightarrow>
    update_from_board R (s\<lparr>gs_board := p\<rparr>) = Inr s' \<Longrightarrow> game_run R s'"

definition counts_in_step :: "('c, 'm) rules \<Rightarrow> 'c game_state \<Rightarrow> bool" where
  "counts_in_step R s = (game_position R (gs_board s)
     \<and> replayed_counts R (gs_board s) = Inr (gs_counts s)
     \<and> gs_recorded s = length (pos_stack R (gs_board s)))"

lemma apply_outcome_counts: "counts_in_step R (apply_outcome R s out) = counts_in_step R s"
  by (simp add: counts_in_step_def apply_outcome_def Let_def)

lemma update_counts:
  assumes "record_position R s = Inr s1" and "update_from_board R s = Inr s'" and "counts_in_step R s1"
  shows "counts_in_step R s'"
  using assms by (cases "current_outcome R s1") (auto simp: update_from_board_def apply_outcome_counts)

lemma reset_in_step:
  assumes "game_position R (gs_board s)"
  shows "\<exists>s'. reset_position_counts R s = Inr s' \<and> counts_in_step R s' \<and> gs_board s' = gs_board s"
  using positions.counts_total [OF assms]
  by (auto simp: reset_position_counts_def replayed_counts_eq counts_in_step_def assms)

lemma record_position_in_step:
  assumes "counts_in_step R s" and "pos_push R (gs_board s) m = Inr p" and "game_position R p"
  shows "\<exists>s1. record_position R (s\<lparr>gs_board := p\<rparr>) = Inr s1 \<and> counts_in_step R s1"
proof -
  note a = assms(1) [unfolded counts_in_step_def]
  have st: "pos_stack R p = pos_stack R (gs_board s) @ [m]"
    using position_push_history [of R "gs_board s" m p] a assms(2) by simp
  have "replayed_counts R p = Inr (count_position (position_key R p) (gs_counts s))"
    unfolding replayed_counts_eq
    by (rule positions.counts_push [OF _ assms(2,3)]) (use a in \<open>simp_all add: replayed_counts_eq\<close>)
  then show ?thesis using a st assms(3) by (simp add: record_position_def counts_in_step_def)
qed

lemma game_run_in_step: "game_run R s \<Longrightarrow> counts_in_step R s"
proof (induction rule: game_run.induct)
  case (start p s)
  obtain s1 where s1: "reset_position_counts R (blank_state p) = Inr s1" "counts_in_step R s1"
    using reset_in_step [of R "blank_state p"] start(1) by (auto simp: blank_state_def)
  then have "update_from_board R s1 = Inr s" using start(2) by (simp add: new_game_state_def)
  moreover have "record_position R s1 = Inr s1"
    using s1(2) by (simp add: record_position_def counts_in_step_def)
  ultimately show ?case using update_counts s1(2) by blast
next
  case (move s t p s')
  have p: "game_position R p"
    using game_position_play [OF _ move.hyps(2)] move.IH by (simp add: counts_in_step_def)
  obtain m where "pos_push R (gs_board s) m = Inr p"
    using move.hyps(2) by (auto simp: pos_play_def rbind_eq_Inr)
  from record_position_in_step [OF move.IH this p] obtain s1 where
    "record_position R (s\<lparr>gs_board := p\<rparr>) = Inr s1" "counts_in_step R s1" by blast
  with move.hyps(3) show ?case using update_counts by blast
qed

text \<open>
  C5: In every state of a game, the counts kept move by move are those a replay of the board's
  turns from its root gives, and the count of a position is how often it has occurred since
  the root; this holds for duck boards and for the chess package's boards.
\<close>
theorem position_counts_exact:
  assumes "game_run R s"
  shows "replayed_counts R (gs_board s) = Inr (gs_counts s)
    \<and> (\<exists>r. pos_root R (gs_board s) = Inr r
         \<and> (\<forall>k. gs_counts s k = count_list (positions.seen_keys R r (pos_stack R (gs_board s))) k))"
proof -
  note c = game_run_in_step [OF assms, unfolded counts_in_step_def]
  obtain r where r: "pos_root R (gs_board s) = Inr r"
    using position_replays [of R "gs_board s"] c by blast
  have "replayable.counts_of (pos_root R) (pos_push R) (pos_stack R) (position_key R) (gs_board s)
      = Inr (gs_counts s)"
    using c by (simp add: replayed_counts_eq)
  then show ?thesis using c r positions.counts_of_seen by blast
qed

text \<open>A chess package that knows only the list of the moves played, for the witnesses.\<close>

definition sample_rules :: "(string list, string) chess_rules" where
  "sample_rules = \<lparr>new_chess_board = (\<lambda>t v. Inr []), chess_fen = (\<lambda>sh c. join '' '' (''board'' # c)),
     chess_root = (\<lambda>c. []), chess_push = (\<lambda>c m. c @ [m]), chess_stack = (\<lambda>c. c),
     chess_turn = (\<lambda>c. even (length c)), chess_is_960 = (\<lambda>c. False), chess_legal_moves = (\<lambda>c. [''e2e4'', ''d2d4'']),
     chess_parse_uci = (\<lambda>c t. if t \<in> {''e2e4'', ''d2d4''} then Inr t else Inl (ValueError t)),
     move_from_uci = Inr, move_uci = (\<lambda>m. m),
     is_variant_loss = (\<lambda>c. False), is_variant_win = (\<lambda>c. False), is_variant_draw = (\<lambda>c. False),
     is_checkmate = (\<lambda>c. False), is_insufficient_material = (\<lambda>c. False), is_stalemate = (\<lambda>c. False),
     is_seventyfive_moves = (\<lambda>c. False), can_claim_fifty_moves = (\<lambda>c. False),
     chess_halfmove_clock = (\<lambda>c. 0), chess_insufficient = (\<lambda>c s. False),
     outcome_result = (\<lambda>w. case w of None \<Rightarrow> ''1/2-1/2'' | Some x \<Rightarrow> if x then ''1-0'' else ''0-1'')\<rparr>"

lemma sample_rules_ok: "chess_rules_ok sample_rules"
proof -
  have "foldl (\<lambda>c m. c @ [m]) a c = a @ c" for a c :: "string list"
    by (induction c arbitrary: a) auto
  then show ?thesis by (simp add: chess_rules_ok_def sample_rules_def)
qed

definition sample_package :: "(string list, string) rules" where
  "sample_package = (sample_squares, sample_rules)"

lemma position_counts_exact_witness:
  "\<exists>s :: string list game_state. gs_board s = Duck_Position sample_board
    \<and> replayed_counts sample_package (Duck_Position sample_board) = Inr (gs_counts s)"
proof -
  let ?R = sample_package and ?p = "Duck_Position sample_board :: string list position"
  have g: "game_position ?R ?p"
    by (rule game_position.duck [of _ False])
      (simp_all add: sample_package_def sample_squares_ok game_board.start [OF sample_board])
  obtain s1 where s1: "reset_position_counts ?R (blank_state ?p) = Inr s1" "counts_in_step ?R s1" "gs_board s1 = ?p"
    using reset_in_step [of ?R "blank_state ?p"] g by (auto simp: blank_state_def)
  then have "record_position ?R s1 = Inr s1" by (simp add: record_position_def counts_in_step_def)
  then obtain s where s: "new_game_state ?R ?p = Inr s" "gs_board s = ?p"
    using s1(1,3) by (auto simp: new_game_state_def update_from_board_def apply_outcome_def Let_def split: option.splits)
  from position_counts_exact [OF game_run.start [OF g s(1)]] s(2) show ?thesis
    by (intro exI [of _ s]) simp
qed

text \<open>
  What a game state records when a side flags: the opponent wins with the timeout
  termination, except that a flag is a draw when the opponent has not the material to mate.
  The recorded state is finished and its summary names both.
\<close>
theorem failure_decides:
  shows "let s' = record_timeout R loser s in is_finished s' \<and>
      (if pos_insufficient R (gs_board s) (\<not> loser)
       then gs_result s' = ''1/2-1/2'' \<and> gs_winner s' = None \<and> gs_termination s' = Some INSUFFICIENT_MATERIAL
       else gs_result s' = (if loser then ''0-1'' else ''1-0'') \<and> gs_winner s' = Some (\<not> loser)
         \<and> gs_termination s' = Some TIMEOUT \<and> get_summary s' = gs_result s' @ '' by timeout'')"
  by (auto simp: record_timeout_def set_decisive_result_def is_finished_def get_summary_def Let_def)

end
