(* ===== verification/Uci_Protocol.thy ===== *)
theory Uci_Protocol
  imports Game_State
begin

text \<open>
  The text the program exchanges with engines and workers: the commands of
  \<open>cope/tournament/uci.py\<close> and the line formats of \<open>cope/core/stream.py\<close>.  The theorem on
  \<open>position_command\<close> reads the command the way an engine does and replays it.
\<close>

subsection \<open>Commands\<close>

definition option_text :: "option_value \<Rightarrow> string" where
  "option_text v = (case v of OptText t \<Rightarrow> t | OptInt i \<Rightarrow> int_str i
     | OptBool b \<Rightarrow> if b then ''true'' else ''false'')"

definition setoption_command :: "string \<Rightarrow> option_value \<Rightarrow> string" where
  "setoption_command name v = ''setoption name '' @ name @ '' value '' @ option_text v"

definition position_command :: "('c, 'm) rules \<Rightarrow> 'c position \<Rightarrow> string result" where
  "position_command R p = rbind (pos_root R p) (\<lambda>root. let
     moves = join '' '' (map (turn_uci R) (pos_stack R p));
     command = (if pos_fen R False root = starting_fen (fst R) then ''position startpos''
       else ''position fen '' @ pos_fen R (pos_is_960 R p) root)
   in Inr (if moves = [] then command else command @ '' moves '' @ moves))"

definition go_keys :: "string list" where
  "go_keys = [''wtime'', ''btime'', ''winc'', ''binc'', ''movetime'', ''movestogo'', ''nodes'']"

definition go_command :: "(string \<rightharpoonup> int) \<Rightarrow> string" where
  "go_command args = join '' '' (''go'' # concat (map (\<lambda>key. case args key of
     None \<Rightarrow> [] | Some v \<Rightarrow> [key, int_str v]) go_keys))"

subsection \<open>Lines\<close>

definition MAX_UCI_INFO_LINE :: nat where
  "MAX_UCI_INFO_LINE = 4096"

definition WORKER_COMMAND_ELAPSED_PREFIX :: string where
  "WORKER_COMMAND_ELAPSED_PREFIX = ''info string cope-worker-command-elapsed-ms ''"

definition clamp_uci_info_line :: "string \<Rightarrow> string" where
  "clamp_uci_info_line line = (if length line \<le> MAX_UCI_INFO_LINE then line else take MAX_UCI_INFO_LINE line)"

definition part_at :: "string list \<Rightarrow> nat \<Rightarrow> string option" where
  "part_at parts i = (if i < length parts then Some (parts ! i) else None)"

text \<open>\<open>int(parts[index])\<close>, \<open>None\<close> when either raises.\<close>

definition int_at :: "string list \<Rightarrow> nat \<Rightarrow> int option" where
  "int_at parts i = Option.bind (part_at parts i) py_int"

definition is_bound :: "string option \<Rightarrow> bool" where
  "is_bound w = (w = Some ''lowerbound'' \<or> w = Some ''upperbound'')"

definition is_full_uci_info_line :: "string \<Rightarrow> bool" where
  "is_full_uci_info_line line = (let parts = split_ws line in
     if parts = [] \<or> parts ! 0 \<noteq> ''info'' then False
     else case (list_index parts ''depth'', list_index parts ''score'') of
       (Some d, Some s) \<Rightarrow>
         if int_at parts (d + 1) = None \<or> int_at parts (s + 2) = None then False
         else if parts ! (s + 1) \<noteq> ''cp'' \<and> parts ! (s + 1) \<noteq> ''mate'' then False
         else if (case list_index parts ''pv'' of
              None \<Rightarrow> \<not> is_bound (part_at parts (s + 3))
            | Some i \<Rightarrow> length parts \<le> i + 1) then False
         else (case list_index parts ''multipv'' of
              None \<Rightarrow> True
            | Some i \<Rightarrow> int_at parts (i + 1) = Some 1)
     | _ \<Rightarrow> False)"

definition worker_command_elapsed_line :: "int \<Rightarrow> string" where
  "worker_command_elapsed_line ms = WORKER_COMMAND_ELAPSED_PREFIX @ int_str (max ms 0)"

definition parse_worker_command_elapsed :: "string \<Rightarrow> int option" where
  "parse_worker_command_elapsed line =
    (if \<not> starts_with line WORKER_COMMAND_ELAPSED_PREFIX then None
     else case py_int (drop (length WORKER_COMMAND_ELAPSED_PREFIX) line) of
       None \<Rightarrow> None
     | Some ms \<Rightarrow> if 0 \<le> ms then Some ms else None)"

text \<open>
  The elapsed time a worker reports on its own line is read back from it, negative times
  as zero, and no line is ever read as a negative time.
\<close>
theorem worker_elapsed_round_trip:
  "parse_worker_command_elapsed (worker_command_elapsed_line ms) = Some (max ms 0)
   \<and> (case parse_worker_command_elapsed line of None \<Rightarrow> True | Some t \<Rightarrow> 0 \<le> t)"
  by (auto simp: parse_worker_command_elapsed_def worker_command_elapsed_line_def starts_with_def
    split: option.splits)

subsection \<open>An engine reading the position command\<close>

text \<open>The reader of the UCI protocol: a root, then the turns played from it.\<close>

definition read_moves :: "square_lib \<Rightarrow> duck_board \<Rightarrow> string list \<Rightarrow> duck_board result" where
  "read_moves L b words = (case words of
     [] \<Rightarrow> Inr b
   | w # ms \<Rightarrow> if w = ''moves'' then fold_result (\<lambda>b t. rbind (push_uci L b t) (\<lambda>r. Inr (snd r))) b ms
       else Inl (ValueError ''moves''))"

definition read_position :: "square_lib \<Rightarrow> bool \<Rightarrow> string \<Rightarrow> duck_board result" where
  "read_position L c960 command = (case split_ws command of
     p # k # rest \<Rightarrow>
       if p \<noteq> ''position'' then Inl (ValueError ''position'')
       else if k = ''startpos'' then rbind (new_duck_board L (starting_fen L) c960) (\<lambda>b. read_moves L b rest)
       else if k = ''fen'' then rbind (new_duck_board L (join '' '' (take 6 rest)) c960)
         (\<lambda>b. read_moves L b (drop 6 rest))
       else Inl (ValueError k)
   | _ \<Rightarrow> Inl (ValueError ''position''))"

lemma game_board_turns_ok:
  "game_board L c960 b \<Longrightarrow> \<forall>m \<in> set (move_stack b). turn_ok m"
proof (induction rule: game_board.induct)
  case (start t b)
  then have "move_stack b = []"
    by (auto simp: new_duck_board_def rbind_eq_Inr Let_def blank_board_def dest!: set_fen_counters(2))
  then show ?case by simp
next
  case (play b t m b')
  from play.hyps(2) have m: "from_uci L t = Inr m" "push L b m = Inr b'"
    by (auto simp: push_uci_def parse_uci_def rbind_eq_Inr split: if_splits)
  have leg: "is_legal b m" "move_stack b' = move_stack b @ [m]"
    using m(2) by (auto simp: push_Inr push_raw_def)
  note l = is_legalD [OF leg(1)]
  have "turn_ok m"
    using piece_legalD(1-3) [OF l(2)] from_uci_promotion [OF m(1)] l(4) duck_step_on_board
    by (auto simp: turn_ok_def split: option.splits)
  then show ?case using play.IH leg(2) by simp
qed

lemma uci_word:
  assumes "square_names_ok L" and "turn_ok m"
  shows "uci L m \<noteq> []" and "\<forall>c \<in> set (uci L m). \<not> is_space c"
proof -
  have sq: "on_board (from_square m)" "on_board (to_square m)" and dk: "\<And>d. duck_to m = Some d \<Longrightarrow> on_board d"
    and p: "promotion_ok (promotion m)"
    using assms(2) by (auto simp: turn_ok_def)
  have "list_all (\<lambda>p. list_all (\<lambda>c. \<not> is_space c) p) [[], ''n'', ''b'', ''r'', ''q'', '','']" by code_simp
  then have pr: "\<forall>c \<in> set (promotion m). \<not> is_space c" and comma: "\<not> is_space (CHR '','')"
    using p by (auto simp: promotion_ok_def)
  note w = name_word [OF assms(1)]
  show "uci L m \<noteq> []" using w(1) [OF sq(1)] by (simp add: uci_def Let_def split: option.splits)
  show "\<forall>c \<in> set (uci L m). \<not> is_space c"
    using w(2) [OF sq(1)] w(2) [OF sq(2)] w(2) dk pr comma
    by (auto simp: uci_def Let_def split: option.splits)
qed

lemma read_moves_replay:
  assumes "square_names_ok L" and "same_pos b c" and "positions b = positions c"
    and "fold_result (push L) b ms = Inr b'" and "\<forall>m \<in> set ms. turn_ok m"
  shows "\<exists>c'. fold_result (\<lambda>b t. rbind (push_uci L b t) (\<lambda>r. Inr (snd r))) c (map (uci L) ms) = Inr c'
    \<and> same_pos b' c' \<and> positions b' = positions c'"
  using assms(2-5)
proof (induction ms arbitrary: b c)
  case Nil
  then show ?case by simp
next
  case (Cons m ms)
  obtain b1 where b1: "push L b m = Inr b1" "fold_result (push L) b1 ms = Inr b'"
    using Cons.prems(3) by (auto simp: rbind_eq_Inr)
  have ok: "turn_ok m" "promotion_ok (promotion m)" using Cons.prems(4) by (auto simp: turn_ok_def)
  obtain c1 where c1: "push L c m = Inr c1" "same_pos b1 c1" "positions b1 = positions c1"
    using same_push [OF Cons.prems(1,2) b1(1) ok(2)] by blast
  have "is_legal c m" using c1(1) by (simp add: push_Inr)
  then have "push_uci L c (uci L m) = Inr (m, c1)"
    using from_uci_uci [OF assms(1) ok(1)] c1(1) by (simp add: push_uci_def parse_uci_def)
  then show ?case using Cons.IH [OF c1(2,3) b1(2)] Cons.prems(4) by simp
qed

lemma join_words: "ws \<noteq> [] \<Longrightarrow> vs \<noteq> [] \<Longrightarrow> join s (ws @ vs) = join s ws @ s @ join s vs"
  by (induction s ws rule: join.induct) (auto simp: neq_Nil_conv)

lemma position_command_words:
  assumes "square_names_ok (fst R)" and "game_board (fst R) c960 b" and "board_root (fst R) b = Inr r"
    and "wf_board r"
  shows "\<exists>cmd. position_command R (Duck_Position b) = Inr cmd \<and> split_ws cmd =
    (if fen (fst R) False r = starting_fen (fst R) then [''position'', ''startpos'']
     else [''position'', ''fen''] @ fen_words (fst R) False r)
    @ (if move_stack b = [] then [] else ''moves'' # map (uci (fst R)) (move_stack b))"
proof -
  let ?L = "fst R"
  let ?head = "if fen ?L False r = starting_fen ?L then [''position'', ''startpos'']
     else [''position'', ''fen''] @ fen_words ?L False r"
  let ?tail = "if move_stack b = [] then [] else ''moves'' # map (uci ?L) (move_stack b)"
  let ?ok = "\<lambda>w. w \<noteq> [] \<and> (\<forall>c \<in> set w. \<not> is_space c)"
  have lit: "?ok ''position''" "?ok ''startpos''" "?ok ''fen''" "?ok ''moves''"
    by (simp_all add: is_space_def char_code_def)
  have ok: "\<forall>w \<in> set (?head @ ?tail). ?ok w"
    using fen_words_ok [OF assms(1,4), of False] uci_word [OF assms(1)] game_board_turns_ok [OF assms(2)] lit
    by auto
  have fw: "fen_words ?L False r \<noteq> []" by (simp add: fen_words_def Let_def)
  have mv: "join '' '' (map (uci ?L) (move_stack b)) = [] \<longleftrightarrow> move_stack b = []"
  proof (cases "move_stack b")
    case (Cons m ms)
    then have "uci ?L m \<noteq> []" using uci_word(1) [OF assms(1)] game_board_turns_ok [OF assms(2)] by simp
    then show ?thesis using Cons by (cases ms) simp_all
  qed simp
  have "turn_uci R \<circ> Duck_Game_Turn = uci ?L" by (rule ext) simp
  then have "position_command R (Duck_Position b) = Inr (join '' '' (?head @ ?tail))"
    using assms(3) mv join_words [of ?head ?tail "'' ''"] join_words [of "[''position'', ''fen'']" _ "'' ''", OF _ fw]
    by (auto simp: position_command_def Let_def fen_def neq_Nil_conv)
  moreover have "split_ws (join '' '' (?head @ ?tail)) = ?head @ ?tail"
    by (rule split_ws_join [OF ok])
  ultimately show ?thesis by blast
qed

text \<open>
  C9: An engine that reads the position command the program sends for a duck chess game, and
  plays its moves from the root it names, reaches the position of the game with its counters
  and repetition counts.
\<close>
theorem position_command_replays:
  assumes "square_names_ok (fst R)" and "game_board (fst R) c960 b"
  shows "\<exists>cmd c. position_command R (Duck_Position b) = Inr cmd
    \<and> read_position (fst R) c960 cmd = Inr c \<and> same_pos b c \<and> positions b = positions c"
proof -
  let ?L = "fst R"
  obtain r e where re: "board_root ?L b = Inr r" "fold_result (push ?L) r (move_stack b) = Inr e"
    "same_pos b e" "positions b = positions e"
    using game_board_replay [OF assms] by blast
  have c960: "chess960 b = c960" by (rule game_board_c960 [OF assms(2)])
  have new: "new_duck_board ?L (root_fen b) c960 = Inr r" using re(1) c960 by (simp add: board_root_def)
  have wf: "wf_board r" by (rule new_duck_board_wf [OF new])
  obtain r' where r': "board_root ?L r = Inr r'" "same_pos r r'" "positions r = positions r'"
    "root_fen r = fen ?L False r"
    using new_board_root [OF assms(1) new] by blast
  have "chess960 r = c960" by (rule game_board_c960 [OF game_board.start [OF new]])
  then have read: "new_duck_board ?L (fen ?L False r) c960 = Inr r'"
    using r'(1,4) by (simp add: board_root_def)
  obtain c where c: "fold_result (\<lambda>b t. rbind (push_uci ?L b t) (\<lambda>r. Inr (snd r))) r' (map (uci ?L) (move_stack b)) = Inr c"
    "same_pos e c" "positions e = positions c"
    using read_moves_replay [OF assms(1) r'(2,3) re(2) game_board_turns_ok [OF assms(2)]] by blast
  have moves: "read_moves ?L r' (if move_stack b = [] then [] else ''moves'' # map (uci ?L) (move_stack b)) = Inr c"
    using c(1) by (cases "move_stack b") (simp_all add: read_moves_def)
  obtain cmd where cmd: "position_command R (Duck_Position b) = Inr cmd"
    "split_ws cmd = (if fen ?L False r = starting_fen ?L then [''position'', ''startpos'']
       else [''position'', ''fen''] @ fen_words ?L False r)
      @ (if move_stack b = [] then [] else ''moves'' # map (uci ?L) (move_stack b))"
    using position_command_words [OF assms re(1) wf] by blast
  have six: "length (fen_words ?L False r) = 6" by (simp add: fen_words_def Let_def)
  have "read_position ?L c960 cmd = Inr c"
  proof -
    obtain tl where tl: "split_ws cmd = (if fen ?L False r = starting_fen ?L then [''position'', ''startpos'']
       else [''position'', ''fen''] @ fen_words ?L False r) @ tl" "read_moves ?L r' tl = Inr c"
      using cmd(2) moves by blast
    show ?thesis
    proof (cases "fen ?L False r = starting_fen ?L")
      case True
      then show ?thesis using tl read by (simp add: read_position_def)
    next
      case False
      then have "split_ws cmd = ''position'' # ''fen'' # fen_words ?L False r @ tl" using tl(1) by simp
      then show ?thesis using tl(2) read six by (simp add: read_position_def fen_def)
    qed
  qed
  moreover have "same_pos b c" using re(3) c(2) by (simp add: same_pos_def)
  ultimately show ?thesis using cmd(1) re(4) c(3) by auto
qed

lemma position_command_replays_witness:
  "\<exists>cmd c. position_command sample_package (Duck_Position sample_next) = Inr cmd
    \<and> read_position sample_squares False cmd = Inr c \<and> squares c = squares sample_next"
  using position_command_replays [of sample_package False sample_next, OF _ game_board.play
      [OF game_board.start, of _ sample_fen False sample_board "''e5d6,d6e3''" sample_turn]]
    sample_board sample_next sample_squares_ok
  by (fastforce simp: sample_package_def same_pos_def)

end
