(* ===== verification/Engine_Results.thy ===== *)
theory Engine_Results
  imports Uci_Protocol
begin

text \<open>
  The parsing half of \<open>cope/tournament/engine_instance.py\<close>: the options an engine advertises
  and the ones sent to it, the info lines of a search, and the result read from its output.
  Subprocesses, threads and the worker transport are outside; their effect on a search is
  described by the lines they deliver.
\<close>

record engine_search_info =
  eval_cp :: "int option"
  eval_mate :: "int option"
  score_bound :: "string option"
  info_depth :: "int option"
  seldepth :: "int option"
  info_nodes :: "int option"
  nps :: "int option"
  hashfull :: "int option"
  time_ms :: int
  pv :: "string option"

definition no_info :: engine_search_info where
  "no_info = \<lparr>eval_cp = None, eval_mate = None, score_bound = None, info_depth = None, seldepth = None,
     info_nodes = None, nps = None, hashfull = None, time_ms = 0, pv = None\<rparr>"

text \<open>The result carries the fields of the last info line beside the move.\<close>

record 'm engine_search_result =
  bestmove :: "'m game_turn"
  command_elapsed_ms :: "int option"
  result_info :: engine_search_info
  info_line :: "string option"

definition int_after :: "string list \<Rightarrow> string \<Rightarrow> int option \<Rightarrow> int option" where
  "int_after parts key dflt = (case list_index parts key of
     None \<Rightarrow> dflt
   | Some i \<Rightarrow> (case int_at parts (i + 1) of None \<Rightarrow> dflt | Some v \<Rightarrow> Some v))"

text \<open>The evaluation after the \<open>score\<close> word: centipawns, mate distance and bound.\<close>

definition score_after :: "string list \<Rightarrow> engine_search_info \<Rightarrow> engine_search_info" where
  "score_after parts info = (case list_index parts ''score'' of
     None \<Rightarrow> info
   | Some s \<Rightarrow> (let
        bound = part_at parts (s + 3);
        info = info\<lparr>score_bound := (if is_bound bound then bound else None)\<rparr>
      in if s + 2 < length parts \<and> parts ! (s + 1) = ''cp'' then
           (case int_at parts (s + 2) of None \<Rightarrow> info
            | Some v \<Rightarrow> info\<lparr>eval_cp := Some v, eval_mate := None\<rparr>)
         else if s + 2 < length parts \<and> parts ! (s + 1) = ''mate'' then
           (case int_at parts (s + 2) of None \<Rightarrow> info
            | Some v \<Rightarrow> info\<lparr>eval_mate := Some v, eval_cp := None\<rparr>)
         else info))"

definition pv_after :: "string list \<Rightarrow> string option \<Rightarrow> string option" where
  "pv_after parts old = (case list_index parts ''pv'' of
     None \<Rightarrow> old
   | Some i \<Rightarrow> if i + 1 < length parts then Some (join '' '' (drop (i + 1) parts)) else old)"

definition parse_info_line :: "string \<Rightarrow> engine_search_info option \<Rightarrow> engine_search_info option" where
  "parse_info_line line previous = (if \<not> is_full_uci_info_line line then None
   else (let
      parts = split_ws line;
      prev = (case previous of None \<Rightarrow> no_info | Some i \<Rightarrow> i);
      time = int_after parts ''time'' (Some (time_ms prev));
      info = prev\<lparr>info_depth := int_after parts ''depth'' (info_depth prev),
        seldepth := int_after parts ''seldepth'' (seldepth prev),
        info_nodes := int_after parts ''nodes'' (info_nodes prev),
        nps := int_after parts ''nps'' (nps prev),
        hashfull := int_after parts ''hashfull'' (hashfull prev),
        time_ms := (case time of None \<Rightarrow> 0 | Some t \<Rightarrow> t)\<rparr>
    in Some ((score_after parts info)\<lparr>pv := pv_after parts (pv prev)\<rparr>)))"

text \<open>A promotion in upper case is accepted on a five letter move.\<close>

definition lower_promotion_letter :: "string \<Rightarrow> string" where
  "lower_promotion_letter w = (if length w = 5 \<and> w ! 4 \<in> set ''QRBN''
     then take 4 w @ [lower_char (w ! 4)] else w)"

subsection \<open>The output of a search\<close>

record 'm search_scan =
  scan_move :: "'m game_turn option"
  scan_elapsed :: "int option"
  scan_info :: engine_search_info
  scan_info_line :: "string option"

definition scan_bestmove :: "('c, 'm) rules \<Rightarrow> 'c position \<Rightarrow> 'm search_scan \<Rightarrow> string list
    \<Rightarrow> 'm search_scan result" where
  "scan_bestmove R board st parts = (if parts \<noteq> [] \<and> parts ! 0 = ''bestmove'' \<and> 2 \<le> length parts then
     (if parts ! 1 = ''(none)'' then Inl (RuntimeError ''returned invalid bestmove'')
      else case parse_turn R board (lower_promotion_letter (parts ! 1)) of
        Inr m \<Rightarrow> Inr (st\<lparr>scan_move := Some m\<rparr>)
      | Inl (ValueError _) \<Rightarrow> Inl (IllegalEngineTurn ''returned illegal or malformed bestmove'')
      | Inl e \<Rightarrow> Inl e)
     else Inr st)"

definition scan_line :: "('c, 'm) rules \<Rightarrow> 'c position \<Rightarrow> 'm search_scan \<Rightarrow> string \<Rightarrow> 'm search_scan result" where
  "scan_line R board st line = (case parse_worker_command_elapsed line of
     Some ms \<Rightarrow> Inr (if scan_elapsed st = None then st\<lparr>scan_elapsed := Some ms\<rparr> else st)
   | None \<Rightarrow> (case parse_info_line line (Some (scan_info st)) of
       Some info \<Rightarrow> Inr (st\<lparr>scan_info := info, scan_info_line := Some (clamp_uci_info_line line)\<rparr>)
     | None \<Rightarrow> scan_bestmove R board st (split_ws line)))"

definition parse_search_result :: "('c, 'm) rules \<Rightarrow> string list \<Rightarrow> 'c position \<Rightarrow> int option
    \<Rightarrow> engine_search_info option \<Rightarrow> string option \<Rightarrow> 'm engine_search_result result" where
  "parse_search_result R lines board elapsed initial initial_line = rbind
     (fold_result (scan_line R board) \<lparr>scan_move = None, scan_elapsed = elapsed,
        scan_info = (case initial of None \<Rightarrow> no_info | Some i \<Rightarrow> i), scan_info_line = initial_line\<rparr> lines)
     (\<lambda>st. case scan_move st of
        None \<Rightarrow> Inl (RuntimeError ''did not return bestmove'')
      | Some m \<Rightarrow> if \<not> legal_turn R board m then Inl (IllegalEngineTurn ''returned illegal bestmove'')
          else Inr \<lparr>bestmove = m, command_elapsed_ms = scan_elapsed st, result_info = scan_info st,
                    info_line = scan_info_line st\<rparr>)"

text \<open>\<open>_record_info_line\<close>: the info and the line kept while the search runs.\<close>

definition record_info_line :: "engine_search_info option \<times> string option \<Rightarrow> string
    \<Rightarrow> engine_search_info option \<times> string option" where
  "record_info_line cur raw = (let line = clamp_uci_info_line raw in
     case parse_info_line line (fst cur) of None \<Rightarrow> cur | Some info \<Rightarrow> (Some info, Some line))"

text \<open>
  \<open>capture_latest_info_result\<close>: the first move of the last principal variation, read as a move
  of orthodox chess, when it is legal.
\<close>

definition capture_latest_info_result :: "('c, 'm) rules \<Rightarrow> 'c position
    \<Rightarrow> engine_search_info option \<times> string option \<Rightarrow> 'm engine_search_result option result" where
  "capture_latest_info_result R board cur = (case fst cur of
     None \<Rightarrow> Inr None
   | Some info \<Rightarrow> (case pv info of
       None \<Rightarrow> Inr None
     | Some line \<Rightarrow> if line = [] then Inr None
         else (case split_ws line of
           [] \<Rightarrow> Inl IndexError
         | w # _ \<Rightarrow> (case move_from_uci (snd R) (lower_promotion_letter w) of
             Inl (ValueError _) \<Rightarrow> Inr None
           | Inl e \<Rightarrow> Inl e
           | Inr m \<Rightarrow> if \<not> legal_turn R board (Standard_Turn m) then Inr None
               else Inr (Some \<lparr>bestmove = Standard_Turn m, command_elapsed_ms = None,
                 result_info = info, info_line = snd cur\<rparr>)))))"

subsection \<open>Options\<close>

fun name_before_type :: "string \<Rightarrow> string \<Rightarrow> string option" where
  "name_before_type seen [] = None"
| "name_before_type seen (c # cs) =
     (if seen \<noteq> [] \<and> starts_with (lower (c # cs)) '' type '' then Some seen
      else name_before_type (seen @ [c]) cs)"

definition option_name :: "string \<Rightarrow> string option" where
  "option_name line = (if starts_with (lower line) ''option name ''
     then map_option lower (name_before_type [] (drop 12 line)) else None)"

definition remember_options :: "string list \<Rightarrow> (string \<times> string) list" where
  "remember_options lines = fold (\<lambda>line adv. case option_name line of
     None \<Rightarrow> adv | Some name \<Rightarrow> AList.update name line adv) lines []"

text \<open>The regular expression \<open>(?:kinds) name(?:\s|$)\<close> searched for without regard to case.\<close>

definition declares :: "string list \<Rightarrow> string \<Rightarrow> string \<Rightarrow> bool" where
  "declares kinds name declaration = list_ex (\<lambda>i. list_ex (\<lambda>kind. let
       w = kind @ '' '' @ name; rest = drop i (lower declaration)
     in starts_with rest w \<and> (case drop (length w) rest of [] \<Rightarrow> True | c # _ \<Rightarrow> is_space c)) kinds)
     [0..<Suc (length declaration)]"

type_synonym options = "(string \<times> option_value) list"

definition set_option :: "string \<Rightarrow> option_value \<Rightarrow> options \<Rightarrow> options" where
  "set_option name v opts = AList.update name v opts"

definition choose_variant :: "(string \<times> string) list \<Rightarrow> options \<Rightarrow> options result" where
  "choose_variant adv opts = (let
     declaration = (case map_of adv ''uci_variant'' of None \<Rightarrow> [] | Some d \<Rightarrow> d)
   in if map_of opts ''UCI_Variant'' = Some (OptText ''duck'') then
        (if \<not> declares [''var'', ''default''] ''duck'' declaration
         then Inl (RuntimeError ''does not advertise UCI_Variant duck'') else Inr opts)
      else if map_of opts ''UCI_Variant'' = Some (OptText ''chess'') then
        (if declaration = [] then Inr (AList.delete ''UCI_Variant'' opts)
         else if declares [''var'', ''default''] ''chess'' declaration then Inr opts
         else if declares [''var'', ''default''] ''standard'' declaration
           then Inr (set_option ''UCI_Variant'' (OptText ''standard'') opts)
         else Inl (RuntimeError ''does not advertise standard chess support''))
      else Inr opts)"

definition choose_960 :: "(string \<times> string) list \<Rightarrow> bool \<Rightarrow> options \<Rightarrow> options result" where
  "choose_960 adv duck opts = (let
     declaration = (case map_of adv ''uci_variant'' of None \<Rightarrow> [] | Some d \<Rightarrow> d)
   in if map_of opts ''UCI_Chess960'' = Some (OptBool True) \<and> map_of adv ''uci_chess960'' = None then
        (if duck \<and> declares [''var''] ''duck960'' declaration
         then Inr (set_option ''UCI_Variant'' (OptText ''duck960'') opts)
         else Inl (RuntimeError ''does not advertise Chess960 support''))
      else Inr opts)"

definition configured_options :: "(string \<times> string) list \<Rightarrow> options \<Rightarrow> options result" where
  "configured_options adv opts = (let duck = (map_of opts ''UCI_Variant'' = Some (OptText ''duck'')) in
     rbind (choose_variant adv opts) (\<lambda>o1.
     rbind (choose_960 adv duck o1) (\<lambda>o2. let
       o3 = (if map_of adv ''uci_chess960'' = None then AList.delete ''UCI_Chess960'' o2 else o2)
     in Inr (if duck then filter (\<lambda>(name, v). lower name \<notin> {''threads'', ''hash''}
          \<or> map_of adv (lower name) \<noteq> None) o3 else o3))))"

subsection \<open>What a parsed result guarantees\<close>

text \<open>The turns that come out of reading a text on a position.\<close>

definition read_turn :: "('c, 'm) rules \<Rightarrow> 'c position \<Rightarrow> 'm game_turn \<Rightarrow> bool" where
  "read_turn R board m = (\<exists>t. parse_turn R board t = Inr m)"

lemma scan_line_move:
  assumes "scan_line R board st line = Inr st'"
    and "\<And>m. scan_move st = Some m \<Longrightarrow> read_turn R board m"
  shows "scan_move st' = Some m \<Longrightarrow> read_turn R board m"
  using assms
  by (auto simp: scan_line_def scan_bestmove_def read_turn_def
    split: option.splits sum.splits if_splits exn.splits)

lemma parse_search_result_move:
  assumes "parse_search_result R lines board elapsed initial initial_line = Inr r"
  shows "legal_turn R board (bestmove r)" and "read_turn R board (bestmove r)"
proof -
  obtain st m where st: "fold_result (scan_line R board) \<lparr>scan_move = None, scan_elapsed = elapsed,
        scan_info = (case initial of None \<Rightarrow> no_info | Some i \<Rightarrow> i), scan_info_line = initial_line\<rparr> lines = Inr st"
    "scan_move st = Some m" "legal_turn R board m" "bestmove r = m"
    using assms by (auto simp: parse_search_result_def rbind_eq_Inr split: option.splits if_splits)
  have "\<forall>m. scan_move st = Some m \<longrightarrow> read_turn R board m"
    by (rule fold_result_invariant [OF st(1)]) (use scan_line_move in \<open>auto, blast\<close>)
  then show "legal_turn R board (bestmove r)" "read_turn R board (bestmove r)" using st by auto
qed

lemma capture_latest_legal:
  "capture_latest_info_result R board cur = Inr (Some r) \<Longrightarrow> legal_turn R board (bestmove r)"
  by (auto simp: capture_latest_info_result_def split: option.splits if_splits list.splits sum.splits exn.splits)

text \<open>
  On a duck board the last principal variation is never captured: its first move is read
  as a move of orthodox chess, which no duck board accepts.  The fallback for a search that
  overruns its time does not exist in duck chess.
\<close>
theorem duck_never_captures:
  "capture_latest_info_result R (Duck_Position b) cur \<noteq> Inr (Some r)"
  by (auto simp: capture_latest_info_result_def split: option.splits list.splits sum.splits exn.splits)

end
