(* ===== verification/Time_Control.thy ===== *)
theory Time_Control
  imports Prelude Complex_Main
begin

text \<open>
  \<open>cope/tournament/time_control.py\<close>: the time controls, the clock of a game and the manager
  that charges the time of a search.  Times are exact rationals where the code has ints or
  floats, in milliseconds; the reading of the performance counter is an argument.  An
  operation that may raise after changing the manager returns the manager with the exception.
\<close>

datatype time_control_category = INCREMENT | MOVETIME | MOVESTOGO | MOVENODES

record runtime_time_control =
  tc_category :: time_control_category
  tc_initial_time :: "int option"
  tc_increment :: "int option"
  tc_move_time :: "int option"
  tc_moves_to_go :: "int option"
  tc_nodes :: "int option"

definition new_time_control :: "time_control_category \<Rightarrow> int option \<Rightarrow> int option \<Rightarrow> int option
    \<Rightarrow> int option \<Rightarrow> int option \<Rightarrow> runtime_time_control result" where
  "new_time_control category initial inc move mtg nodes = (let
     tc = \<lparr>tc_category = category, tc_initial_time = initial, tc_increment = inc, tc_move_time = move,
           tc_moves_to_go = mtg, tc_nodes = nodes\<rparr>
   in case category of
     INCREMENT \<Rightarrow> if initial = None \<or> inc = None
       then Inl (ValueError ''Increment mode needs initial_time and increment'') else Inr tc
   | MOVETIME \<Rightarrow> if move = None then Inl (ValueError ''Movetime mode needs move_time'') else Inr tc
   | MOVESTOGO \<Rightarrow> if initial = None \<or> mtg = None
       then Inl (ValueError ''Moves-to-go mode needs initial_time and moves_to_go'') else Inr tc
   | MOVENODES \<Rightarrow> if nodes = None then Inl (ValueError ''Movenodes mode needs nodes'') else Inr tc)"

subsection \<open>The clock\<close>

record chess_clock =
  clock_start_time :: rat
  clock_running :: bool
  clock_at :: rat

definition new_chess_clock :: "rat \<Rightarrow> chess_clock" where
  "new_chess_clock now = \<lparr>clock_start_time = 0, clock_running = False, clock_at = now\<rparr>"

definition clock_start :: "rat \<Rightarrow> chess_clock \<Rightarrow> chess_clock" where
  "clock_start now c = c\<lparr>clock_at := now, clock_running := True\<rparr>"

definition clock_elapsed :: "rat \<Rightarrow> chess_clock \<Rightarrow> rat" where
  "clock_elapsed now c = (if \<not> clock_running c then 0 else now - clock_at c)"

definition clock_probe :: "rat \<Rightarrow> chess_clock \<Rightarrow> rat" where
  "clock_probe now c = clock_elapsed now c"

definition clock_stop :: "rat \<Rightarrow> chess_clock \<Rightarrow> chess_clock \<times> rat" where
  "clock_stop now c = (c\<lparr>clock_running := False\<rparr>, clock_elapsed now c)"

subsection \<open>The manager\<close>

text \<open>\<open>round(x)\<close>: to the nearest integer, halves to the even one.\<close>

definition py_round :: "rat \<Rightarrow> int" where
  "py_round x = (let f = \<lfloor>x\<rfloor>; d = x - of_int f in
     if d < 1 / 2 then f else if 1 / 2 < d then f + 1 else if even f then f else f + 1)"

record time_manager =
  tm_control :: runtime_time_control
  tm_clock :: chess_clock
  tm_remaining_time :: "rat option"
  tm_remaining_move_time :: "rat option"
  tm_moves_to_go :: "int option"
  tm_nodes :: "int option"

definition create_manager :: "rat \<Rightarrow> runtime_time_control \<Rightarrow> time_manager" where
  "create_manager now tc = \<lparr>tm_control = tc, tm_clock = new_chess_clock now,
     tm_remaining_time = map_option of_int (tc_initial_time tc),
     tm_remaining_move_time = map_option of_int (tc_move_time tc),
     tm_moves_to_go = tc_moves_to_go tc, tm_nodes = tc_nodes tc\<rparr>"

record clock_snapshot =
  snap_remaining_time :: "rat option"
  snap_remaining_move_time :: "rat option"
  snap_moves_to_go :: "int option"
  snap_nodes :: "int option"

definition snapshot :: "time_manager \<Rightarrow> clock_snapshot" where
  "snapshot tm = \<lparr>snap_remaining_time = tm_remaining_time tm,
     snap_remaining_move_time = tm_remaining_move_time tm,
     snap_moves_to_go = tm_moves_to_go tm, snap_nodes = tm_nodes tm\<rparr>"

definition restore :: "clock_snapshot \<Rightarrow> time_manager \<Rightarrow> time_manager" where
  "restore s tm = tm\<lparr>tm_remaining_time := snap_remaining_time s,
     tm_remaining_move_time := snap_remaining_move_time s,
     tm_moves_to_go := snap_moves_to_go s, tm_nodes := snap_nodes s\<rparr>"

definition no_number :: exn where
  "no_number = TypeError ''unsupported operand type(s)''"

definition start_clock :: "rat \<Rightarrow> time_manager \<Rightarrow> time_manager result" where
  "start_clock now tm = rbind
     (if tc_category (tm_control tm) = INCREMENT then
        (case (tm_remaining_time tm, tc_increment (tm_control tm)) of
           (Some r, Some inc) \<Rightarrow> Inr (tm\<lparr>tm_remaining_time := Some (of_int (py_round (r + of_int inc)))\<rparr>)
         | _ \<Rightarrow> Inl no_number)
      else Inr tm)
     (\<lambda>tm. Inr (tm\<lparr>tm_clock := clock_start now (tm_clock tm)\<rparr>))"

definition raise_if_timed_out :: "rat \<Rightarrow> unit result" where
  "raise_if_timed_out remaining = (if remaining \<le> 0 then Inl TimeOutError else Inr ())"

definition probe_amount :: "rat option \<Rightarrow> rat \<Rightarrow> int option result" where
  "probe_amount amount elapsed = rbind (or_error no_number amount) (\<lambda>r.
     rbind (raise_if_timed_out (r - elapsed)) (\<lambda>_. Inr (Some (py_round (r - elapsed)))))"

definition probe_clock :: "rat \<Rightarrow> rat option \<Rightarrow> time_manager \<Rightarrow> int option result" where
  "probe_clock now given tm = (let
     elapsed = (case given of None \<Rightarrow> clock_elapsed now (tm_clock tm) | Some e \<Rightarrow> e)
   in case tc_category (tm_control tm) of
     INCREMENT \<Rightarrow> probe_amount (tm_remaining_time tm) elapsed
   | MOVETIME \<Rightarrow> probe_amount (tm_remaining_move_time tm) elapsed
   | MOVESTOGO \<Rightarrow> probe_amount (tm_remaining_time tm) elapsed
   | MOVENODES \<Rightarrow> Inr (tm_nodes tm))"

text \<open>The manager after \<open>stop_clock\<close>, and the exception it raised, if any.\<close>

definition charge :: "time_manager \<Rightarrow> rat \<Rightarrow> time_manager \<times> exn option" where
  "charge tm r = (if r \<le> 0 then (tm\<lparr>tm_remaining_time := Some r\<rparr>, Some TimeOutError)
     else (tm\<lparr>tm_remaining_time := Some (of_int (py_round r))\<rparr>, None))"

definition stop_clock :: "rat \<Rightarrow> rat option \<Rightarrow> time_manager \<Rightarrow> time_manager \<times> exn option" where
  "stop_clock now given tm0 = (let
     (c, wall) = clock_stop now (tm_clock tm0);
     tm = tm0\<lparr>tm_clock := c\<rparr>;
     elapsed = (case given of None \<Rightarrow> wall | Some e \<Rightarrow> e)
   in case tc_category (tm_control tm) of
     INCREMENT \<Rightarrow> (case tm_remaining_time tm of
         None \<Rightarrow> (tm, Some no_number) | Some r \<Rightarrow> charge tm (r - elapsed))
   | MOVETIME \<Rightarrow> (case tm_remaining_move_time tm of
         None \<Rightarrow> (tm, Some no_number)
       | Some r \<Rightarrow> (tm, if r - elapsed \<le> 0 then Some TimeOutError else None))
   | MOVESTOGO \<Rightarrow> (case tm_remaining_time tm of
         None \<Rightarrow> (tm, Some no_number)
       | Some r \<Rightarrow> (case tm_moves_to_go tm of
           None \<Rightarrow> (tm\<lparr>tm_remaining_time := Some (r - elapsed)\<rparr>, Some no_number)
         | Some n \<Rightarrow> charge (tm\<lparr>tm_moves_to_go := Some (n - 1)\<rparr>) (r - elapsed)))
   | MOVENODES \<Rightarrow> (tm, None))"

definition stop_clock_after_timeout :: "rat \<Rightarrow> time_manager \<Rightarrow> time_manager" where
  "stop_clock_after_timeout now tm = tm\<lparr>tm_clock := fst (clock_stop now (tm_clock tm))\<rparr>"

subsection \<open>Rounding\<close>

lemma py_round_int [simp]: "py_round (of_int n) = n"
  by (simp add: py_round_def)

lemma py_round_near: "\<bar>of_int (py_round x) - x\<bar> \<le> 1 / 2"
proof -
  have "of_int \<lfloor>x\<rfloor> \<le> x" "x < of_int \<lfloor>x\<rfloor> + 1" by linarith+
  then show ?thesis by (auto simp: py_round_def Let_def split: if_splits)
qed

lemma py_round_nonneg: "0 < x \<Longrightarrow> 0 \<le> py_round x"
proof -
  assume "0 < x"
  then have "0 \<le> \<lfloor>x\<rfloor>" by simp
  then show ?thesis by (auto simp: py_round_def Let_def)
qed

subsection \<open>What a manager guarantees\<close>

text \<open>A manager whose control was accepted and whose numbers are there.\<close>

definition manager_ok :: "time_manager \<Rightarrow> bool" where
  "manager_ok tm = (case tc_category (tm_control tm) of
     INCREMENT \<Rightarrow> tm_remaining_time tm \<noteq> None \<and> tc_increment (tm_control tm) \<noteq> None
   | MOVETIME \<Rightarrow> tm_remaining_move_time tm \<noteq> None
   | MOVESTOGO \<Rightarrow> tm_remaining_time tm \<noteq> None \<and> tm_moves_to_go tm \<noteq> None
   | MOVENODES \<Rightarrow> tm_nodes tm \<noteq> None)"

lemma create_manager_ok:
  "new_time_control category i inc mv mtg n = Inr tc \<Longrightarrow> manager_ok (create_manager now tc)"
  by (cases category) (auto simp: new_time_control_def manager_ok_def create_manager_def Let_def split: if_splits)

lemma start_clock_ok:
  "manager_ok tm \<Longrightarrow> \<exists>tm'. start_clock now tm = Inr tm' \<and> manager_ok tm' \<and> clock_running (tm_clock tm')"
  by (cases "tc_category (tm_control tm)")
    (auto simp: manager_ok_def start_clock_def clock_start_def)

lemma stop_clock_ok:
  "manager_ok tm \<Longrightarrow> manager_ok (fst (stop_clock now e tm)) \<and> \<not> clock_running (tm_clock (fst (stop_clock now e tm)))
    \<and> snd (stop_clock now e tm) \<in> {None, Some TimeOutError}"
  by (cases "tc_category (tm_control tm)")
    (auto simp: manager_ok_def stop_clock_def clock_stop_def charge_def Let_def split: option.splits)

text \<open>The time left of the control, for the categories that have one.\<close>

definition time_left :: "time_manager \<Rightarrow> rat option" where
  "time_left tm = (case tc_category (tm_control tm) of
     INCREMENT \<Rightarrow> tm_remaining_time tm | MOVETIME \<Rightarrow> tm_remaining_move_time tm
   | MOVESTOGO \<Rightarrow> tm_remaining_time tm | MOVENODES \<Rightarrow> None)"

text \<open>One search: the clock is started, then stopped with the elapsed time the worker measured.\<close>

definition one_search :: "rat \<Rightarrow> rat \<Rightarrow> rat \<Rightarrow> time_manager \<Rightarrow> (time_manager \<times> exn option) result" where
  "one_search t0 t1 e tm = rbind (start_clock t0 tm) (\<lambda>tm. Inr (stop_clock t1 (Some e) tm))"

text \<open>A game's searches of one side, while no flag falls.\<close>

fun searches :: "rat list \<Rightarrow> time_manager \<Rightarrow> time_manager result" where
  "searches [] tm = Inr tm"
| "searches (e # es) tm = rbind (one_search 0 e e tm) (\<lambda>(tm, err).
     case err of None \<Rightarrow> searches es tm | Some x \<Rightarrow> Inl x)"

text \<open>The exact account the rounding approximates: increments in, elapsed times out.\<close>

definition exact_left :: "rat \<Rightarrow> int \<Rightarrow> rat list \<Rightarrow> rat" where
  "exact_left r inc es = r + of_int (inc * int (length es)) - sum_list es"

lemma one_search_increment:
  assumes "tc_category (tm_control tm) = INCREMENT" and "tc_increment (tm_control tm) = Some inc"
    and "tm_remaining_time tm = Some (of_int r)" and "one_search t0 t1 e tm = Inr (tm', None)"
  shows "\<exists>r'. tm_remaining_time tm' = Some (of_int r') \<and> tm_control tm' = tm_control tm \<and> 0 \<le> r'
    \<and> \<bar>of_int r' - (of_int r + of_int inc - e)\<bar> \<le> 1 / 2"
proof -
  have "py_round (of_int r + of_int inc) = r + inc" using py_round_int [of "r + inc"] by simp
  then have "\<not> of_int (r + inc) - e \<le> 0" "tm_remaining_time tm' = Some (of_int (py_round (of_int (r + inc) - e)))"
    "tm_control tm' = tm_control tm"
    using assms by (auto simp: one_search_def start_clock_def stop_clock_def clock_stop_def charge_def Let_def split: if_splits)
  moreover have "0 \<le> py_round (of_int (r + inc) - e)"
    by (rule py_round_nonneg) (use calculation(1) in simp)
  ultimately show ?thesis
    using py_round_near [of "of_int (r + inc) - e"] by (auto intro!: exI [of _ "py_round (of_int (r + inc) - e)"])
qed

lemma searches_increment:
  assumes "tc_category (tm_control tm) = INCREMENT" and "tc_increment (tm_control tm) = Some inc"
    and "tm_remaining_time tm = Some (of_int r)" and "searches es tm = Inr tm'"
  shows "\<exists>r'. tm_remaining_time tm' = Some (of_int r') \<and> (es \<noteq> [] \<longrightarrow> 0 \<le> r')
    \<and> \<bar>of_int r' - exact_left (of_int r) inc es\<bar> \<le> of_nat (length es) / 2"
  using assms
proof (induction es arbitrary: tm r)
  case Nil
  then show ?case by (auto simp: exact_left_def)
next
  case (Cons e es)
  from Cons.prems(4) obtain tm1 where one: "one_search 0 e e tm = Inr (tm1, None)" "searches es tm1 = Inr tm'"
    by (auto simp: rbind_eq_Inr split: option.splits prod.splits)
  obtain r1 where r1: "tm_remaining_time tm1 = Some (of_int r1)" "tm_control tm1 = tm_control tm" "0 \<le> r1"
      "\<bar>of_int r1 - (of_int r + of_int inc - e)\<bar> \<le> 1 / 2"
    using one_search_increment [OF Cons.prems(1-3) one(1)] by blast
  have c: "tc_category (tm_control tm1) = INCREMENT" "tc_increment (tm_control tm1) = Some inc"
    using r1(2) Cons.prems by simp_all
  obtain r2 where r2: "tm_remaining_time tm' = Some (of_int r2)" "es \<noteq> [] \<longrightarrow> 0 \<le> r2"
    "\<bar>of_int r2 - exact_left (of_int r1) inc es\<bar> \<le> of_nat (length es) / 2"
    using Cons.IH [OF c r1(1) one(2)] by blast
  have "exact_left (of_int r) inc (e # es) = exact_left (of_int r1) inc es + (of_int r + of_int inc - e - of_int r1)"
    by (simp add: exact_left_def algebra_simps)
  then have "of_int r2 - exact_left (of_int r) inc (e # es)
      = (of_int r2 - exact_left (of_int r1) inc es) + (of_int r1 - (of_int r + of_int inc - e))" by simp
  then have "\<bar>of_int r2 - exact_left (of_int r) inc (e # es)\<bar>
      \<le> \<bar>of_int r2 - exact_left (of_int r1) inc es\<bar> + \<bar>of_int r1 - (of_int r + of_int inc - e)\<bar>"
    by (simp only: abs_triangle_ineq)
  moreover have "of_nat (length (e # es)) / 2 = (of_nat (length es) / 2 + 1 / 2 :: rat)"
    by (simp add: field_simps)
  ultimately have "\<bar>of_int r2 - exact_left (of_int r) inc (e # es)\<bar> \<le> of_nat (length (e # es)) / 2"
    using r1(4) r2(3) by linarith
  moreover have "0 \<le> r2"
    using r2 r1 one(2) by (cases es) auto
  ultimately show ?case using r2(1) by blast
qed

text \<open>
  C6: Over a whole game of searches that do not flag, the time an increment control has left
  is an integer, never negative, and differs from the exact account (initial time plus the
  increments minus the elapsed times) by at most half a millisecond a search.
\<close>
theorem increment_account:
  assumes "new_time_control INCREMENT (Some i) (Some inc) mv mtg n = Inr tc"
    and "searches es (create_manager now tc) = Inr tm"
  shows "\<exists>r. tm_remaining_time tm = Some (of_int r) \<and> (es \<noteq> [] \<longrightarrow> 0 \<le> r)
    \<and> \<bar>of_int r - exact_left (of_int i) inc es\<bar> \<le> of_nat (length es) / 2"
  by (rule searches_increment [OF _ _ _ assms(2)])
    (use assms(1) in \<open>auto simp: new_time_control_def create_manager_def Let_def\<close>)

definition sample_control :: runtime_time_control where
  "sample_control = \<lparr>tc_category = INCREMENT, tc_initial_time = Some 1000, tc_increment = Some 10,
     tc_move_time = None, tc_moves_to_go = None, tc_nodes = None\<rparr>"

lemma increment_account_witness:
  "\<exists>r. \<bar>of_int r - (1189 / 2 :: rat)\<bar> \<le> 1 \<and> 0 \<le> r"
proof -
  have c: "new_time_control INCREMENT (Some 1000) (Some 10) None None None = Inr sample_control"
    by (simp add: new_time_control_def sample_control_def)
  have f: "\<lfloor>(1619/2 :: rat)\<rfloor> = 809" "\<lfloor>(1190/2 :: rat)\<rfloor> = 595" by (simp_all add: floor_eq_iff)
  have p: "py_round 1010 = 1010" "py_round (1619/2) = 810" "py_round 820 = 820" "py_round 595 = 595"
    using py_round_int [of 1010] py_round_int [of 820] py_round_int [of 595] f
    by (simp_all add: py_round_def)
  have "\<exists>tm. searches [401/2, 225] (create_manager 0 sample_control) = Inr tm"
    using p by (simp add: one_search_def start_clock_def stop_clock_def clock_stop_def
      charge_def create_manager_def sample_control_def new_chess_clock_def clock_start_def)
  then obtain tm where "searches [401/2, 225] (create_manager 0 sample_control) = Inr tm" ..
  from increment_account [OF c this] show ?thesis by (auto simp: exact_left_def)
qed

text \<open>
  C7: A search flags exactly when its elapsed time reaches the time the control has left
  after the increment, in every category that limits time, and never with a node limit; the
  probe during the search and the stop at its end agree on it.
\<close>
theorem flag_falls_iff:
  assumes "manager_ok tm"
  shows "(snd (stop_clock now (Some e) tm) = Some TimeOutError \<longleftrightarrow>
      (case time_left tm of None \<Rightarrow> False | Some r \<Rightarrow> r \<le> e))
    \<and> (probe_clock now (Some e) tm = Inl TimeOutError \<longleftrightarrow>
      (case time_left tm of None \<Rightarrow> False | Some r \<Rightarrow> r \<le> e))"
  using assms
  by (cases "tc_category (tm_control tm)")
    (auto simp: manager_ok_def stop_clock_def clock_stop_def charge_def time_left_def Let_def
        probe_clock_def probe_amount_def raise_if_timed_out_def split: if_splits)

lemma flag_falls_iff_witness:
  "snd (stop_clock 0 (Some 1000) (create_manager 0 sample_control)) = Some TimeOutError"
proof -
  have "manager_ok (create_manager 0 sample_control)"
    by (simp add: manager_ok_def create_manager_def sample_control_def)
  from flag_falls_iff [OF this, of 0 1000] show ?thesis
    by (simp add: time_left_def create_manager_def sample_control_def)
qed

text \<open>
  With a moves-to-go control every search takes one move off the counter and nothing adds
  to it or to the time, so after \<open>n\<close> searches the counter is the initial value minus \<open>n\<close>,
  zero and negative values included: no new period starts.
\<close>
theorem moves_to_go_never_renewed:
  assumes "new_time_control MOVESTOGO (Some i) inc mv (Some k) n = Inr tc"
    and "searches es (create_manager now tc) = Inr tm"
  shows "tm_moves_to_go tm = Some (k - int (length es))"
proof -
  have step: "tm_moves_to_go tm' = Some (j - int (length es)) \<and> tc_category (tm_control tm') = MOVESTOGO"
    if "tc_category (tm_control t) = MOVESTOGO" "tm_moves_to_go t = Some j" "tm_remaining_time t \<noteq> None"
      "searches es t = Inr tm'" for t j tm' es
    using that
  proof (induction es arbitrary: t j)
    case Nil
    then show ?case by simp
  next
    case (Cons e es)
    from Cons.prems(4) obtain t1 where one: "one_search 0 e e t = Inr (t1, None)" "searches es t1 = Inr tm'"
      by (auto simp: rbind_eq_Inr split: option.splits prod.splits)
    have "tc_category (tm_control t1) = MOVESTOGO" "tm_moves_to_go t1 = Some (j - 1)" "tm_remaining_time t1 \<noteq> None"
      using one(1) Cons.prems(1-3)
      by (auto simp: one_search_def start_clock_def stop_clock_def clock_stop_def charge_def Let_def split: if_splits)
    from Cons.IH [OF this one(2)] show ?case by simp
  qed
  show ?thesis
    using step [OF _ _ _ assms(2), of k] assms(1) by (auto simp: new_time_control_def create_manager_def Let_def)
qed

lemma moves_to_go_never_renewed_witness:
  "\<exists>tm. searches [1, 1] (create_manager 0 \<lparr>tc_category = MOVESTOGO, tc_initial_time = Some 1000,
     tc_increment = None, tc_move_time = None, tc_moves_to_go = Some 2, tc_nodes = None\<rparr>) = Inr tm
   \<and> tm_moves_to_go tm = Some 0"
proof -
  let ?tc = "\<lparr>tc_category = MOVESTOGO, tc_initial_time = Some 1000,
     tc_increment = None, tc_move_time = None, tc_moves_to_go = Some 2, tc_nodes = None\<rparr>"
  have c: "new_time_control MOVESTOGO (Some 1000) None None (Some 2) None = Inr ?tc"
    by (simp add: new_time_control_def)
  have p: "py_round 999 = 999" "py_round 998 = 998"
    using py_round_int [of 999] py_round_int [of 998] by simp_all
  obtain tm where tm: "searches [1, 1] (create_manager 0 ?tc) = Inr tm"
    using p by (simp add: one_search_def start_clock_def stop_clock_def clock_stop_def
      charge_def create_manager_def new_chess_clock_def clock_start_def)
  from moves_to_go_never_renewed [OF c tm] tm show ?thesis by auto
qed

text \<open>A checkpoint of the clocks is read back as it was written.\<close>

lemma restore_snapshot: "restore (snapshot tm) tm' = tm' \<lparr>tm_remaining_time := tm_remaining_time tm,
    tm_remaining_move_time := tm_remaining_move_time tm, tm_moves_to_go := tm_moves_to_go tm,
    tm_nodes := tm_nodes tm\<rparr>"
  by (simp add: restore_def snapshot_def)

end
