(* ===== verification/Game_Runner.thy ===== *)
theory Game_Runner
  imports Engine_Results Time_Control
begin

text \<open>
  \<open>cope/tournament/game_runner.py\<close>: one move of a game.  The search runs in another thread and
  process; what the runner observes of it is a record of the readings it takes: the counter at
  each point where a clock is read, the worker's elapsed time at each probe, the lines the
  engine printed, and the last info line at the moments a capture is tried.  Everything the
  runner does with these readings is modelled; the notifications (\<open>on_tick\<close>, \<open>on_clock_sync\<close>)
  are left out, they change no state of the game.
\<close>

record 'c game =
  g_state :: "'c game_state"
  white_tm :: time_manager
  black_tm :: time_manager

record runner_config =
  lag_compensation_ms :: int
  use_worker_search_clock :: bool
  use_latest_info_move_on_timeout :: bool
  search_until_timeout :: bool

record search_run =
  sr_start :: rat
  sr_remote :: bool
  sr_probes :: "(rat \<times> int option) list"
  sr_failure :: "exn option"
  sr_lines :: "string list"
  sr_elapsed :: "int option"
  sr_initial :: "engine_search_info option \<times> string option"
  sr_info :: "engine_search_info option \<times> string option"
  sr_info_after_stop :: "engine_search_info option \<times> string option"
  sr_stop :: rat

definition new_runner_config :: "int \<Rightarrow> bool \<Rightarrow> bool \<Rightarrow> bool \<Rightarrow> runner_config" where
  "new_runner_config lag worker latest until = \<lparr>lag_compensation_ms = max 0 lag,
     use_worker_search_clock = worker, use_latest_info_move_on_timeout = latest,
     search_until_timeout = until\<rparr>"

definition clock_to_move :: "('c, 'm) rules \<Rightarrow> 'c game \<Rightarrow> time_manager" where
  "clock_to_move R g = (if pos_turn R (gs_board (g_state g)) then white_tm g else black_tm g)"

definition set_clock :: "bool \<Rightarrow> time_manager \<Rightarrow> 'c game \<Rightarrow> 'c game" where
  "set_clock white tm g = (if white then g\<lparr>white_tm := tm\<rparr> else g\<lparr>black_tm := tm\<rparr>)"

definition set_state :: "('c game_state \<Rightarrow> 'c game_state) \<Rightarrow> 'c game \<Rightarrow> 'c game" where
  "set_state f g = g\<lparr>g_state := f (g_state g)\<rparr>"

definition rat_arg :: "rat option \<Rightarrow> int option" where
  "rat_arg r = map_option py_round r"

text \<open>The arguments of the go command; between moves the clocks hold whole milliseconds.\<close>

definition build_go_command :: "'c game \<Rightarrow> time_manager \<Rightarrow> string" where
  "build_go_command g clock = go_command (\<lambda>key.
     if key = ''wtime'' then rat_arg (tm_remaining_time (white_tm g))
     else if key = ''btime'' then rat_arg (tm_remaining_time (black_tm g))
     else if key = ''winc'' \<and> tc_category (tm_control clock) = INCREMENT
       then tc_increment (tm_control (white_tm g))
     else if key = ''binc'' \<and> tc_category (tm_control clock) = INCREMENT
       then tc_increment (tm_control (black_tm g))
     else if key = ''movetime'' \<and> tc_category (tm_control clock) = MOVETIME
       then rat_arg (tm_remaining_move_time clock)
     else if key = ''movestogo'' then tm_moves_to_go clock
     else if key = ''nodes'' then tm_nodes clock
     else None)"

definition worker_clock :: "runner_config \<Rightarrow> search_run \<Rightarrow> bool" where
  "worker_clock cfg run = (use_worker_search_clock cfg \<and> sr_remote run)"

definition compensated :: "runner_config \<Rightarrow> int \<Rightarrow> rat" where
  "compensated cfg ms = of_int (max 0 (ms - lag_compensation_ms cfg))"

text \<open>
  The probes while the engine searches.  Without a reading of the worker's clock a fallen flag
  is not believed when the worker's clock is the one that counts.
\<close>

definition probe_search :: "runner_config \<Rightarrow> search_run \<Rightarrow> time_manager \<Rightarrow> rat \<times> int option \<Rightarrow> unit result" where
  "probe_search cfg run clock probe = (let
     elapsed = (if worker_clock cfg run then map_option (compensated cfg) (snd probe) else None)
   in case probe_clock (fst probe) elapsed clock of
     Inr _ \<Rightarrow> Inr ()
   | Inl TimeOutError \<Rightarrow>
       if \<not> worker_clock cfg run \<or> elapsed \<noteq> None then Inl TimeOutError else Inr ()
   | Inl e \<Rightarrow> Inl e)"

definition finish_search :: "('c, 'm) rules \<Rightarrow> 'c position \<Rightarrow> search_run \<Rightarrow> 'm engine_search_result result" where
  "finish_search R board run = (case sr_failure run of
     Some e \<Rightarrow> Inl e
   | None \<Rightarrow> parse_search_result R (sr_lines run) board (sr_elapsed run)
       (fst (sr_initial run)) (snd (sr_initial run)))"

text \<open>
  The body of the \<open>try\<close>: the move, and the engine's last result as the runner will read it.
\<close>

definition search_body :: "('c, 'm) rules \<Rightarrow> runner_config \<Rightarrow> search_run \<Rightarrow> 'c position \<Rightarrow> time_manager
    \<Rightarrow> 'm engine_search_result result" where
  "search_body R cfg run board clock =
     rbind (fold_result (\<lambda>_. probe_search cfg run clock) () (sr_probes run)) (\<lambda>_.
     rbind (finish_search R board run) (\<lambda>r.
     if search_until_timeout cfg
     then rbind (capture_latest_info_result R board (sr_info run)) (\<lambda>cap.
       Inr (case cap of None \<Rightarrow> r | Some c \<Rightarrow> c))
     else Inr r))"

text \<open>\<open>_capture_search_result\<close>: before the search is stopped, after it, or its own last result.\<close>

definition capture_search_result :: "('c, 'm) rules \<Rightarrow> runner_config \<Rightarrow> search_run \<Rightarrow> 'c position
    \<Rightarrow> 'm engine_search_result option result" where
  "capture_search_result R cfg run board =
     rbind (if use_latest_info_move_on_timeout cfg then capture_latest_info_result R board (sr_info run)
            else Inr None) (\<lambda>r1.
     rbind (if r1 = None \<and> use_latest_info_move_on_timeout cfg
            then capture_latest_info_result R board (sr_info_after_stop run) else Inr r1) (\<lambda>r2.
     Inr (if r2 = None \<and> search_until_timeout cfg
          then (case finish_search R board run of Inr r \<Rightarrow> Some r | Inl _ \<Rightarrow> None) else r2)))"

text \<open>The end of a search: a move to play, or the game is over.\<close>

datatype ('g, 'm) search_end = Play 'g "'m game_turn" | Over 'g

fun failure :: "('c, 'm) rules \<Rightarrow> bool \<Rightarrow> exn \<Rightarrow> 'c game_state \<Rightarrow> 'c game_state" where
  "failure R side TimeOutError s = record_timeout R side s"
| "failure R side (IllegalEngineTurn t) s = record_illegal_move side t s"
| "failure R side (RuntimeError t) s = record_engine_error side t s"
| "failure R side (ValueError t) s = record_engine_error side t s"
| "failure R side (TypeError t) s = record_engine_error side t s"
| "failure R side e s = record_engine_error side [] s"

definition search_failed :: "('c, 'm) rules \<Rightarrow> runner_config \<Rightarrow> search_run \<Rightarrow> bool \<Rightarrow> exn \<Rightarrow> 'c game
    \<Rightarrow> ('c game, 'm) search_end result" where
  "search_failed R cfg run side e g =
     rbind (capture_search_result R cfg run (gs_board (g_state g))) (\<lambda>cap. let
       g' = set_clock side (stop_clock_after_timeout (sr_stop run) (clock_to_move R g)) g
     in Inr (case cap of
          Some r \<Rightarrow> Play g' (bestmove r)
        | None \<Rightarrow> Over (set_state (failure R side e) g')))"

definition search_ended :: "('c, 'm) rules \<Rightarrow> runner_config \<Rightarrow> search_run \<Rightarrow> bool \<Rightarrow> 'm engine_search_result
    \<Rightarrow> 'c game \<Rightarrow> ('c game, 'm) search_end result" where
  "search_ended R cfg run side r g = (let
     elapsed = (if worker_clock cfg run then map_option (compensated cfg) (command_elapsed_ms r) else None);
     (tm, err) = stop_clock (sr_stop run) elapsed (clock_to_move R g);
     g' = set_clock side tm g
   in case err of
     None \<Rightarrow> Inr (Play g' (bestmove r))
   | Some TimeOutError \<Rightarrow>
       rbind (if use_latest_info_move_on_timeout cfg
              then capture_latest_info_result R (gs_board (g_state g)) (sr_info run) else Inr None) (\<lambda>cap.
       Inr (case cap of
          Some c \<Rightarrow> Play g' (bestmove c)
        | None \<Rightarrow> Over (set_state (record_timeout R side) g')))
   | Some e \<Rightarrow> Inl e)"

text \<open>\<open>push_legal_move\<close>, then \<open>update_from_board\<close> when the turn was played.\<close>

definition play_turn :: "('c, 'm) rules \<Rightarrow> bool \<Rightarrow> 'm game_turn \<Rightarrow> 'c game \<Rightarrow> ('c game \<times> 'm game_turn option) result" where
  "play_turn R side m g = (if \<not> legal_turn R (gs_board (g_state g)) m
     then Inr (set_state (record_illegal_move side (turn_uci R m)) g, None)
     else rbind (pos_push R (gs_board (g_state g)) m) (\<lambda>p.
          rbind (update_from_board R ((g_state g)\<lparr>gs_board := p\<rparr>)) (\<lambda>s.
          Inr (g\<lparr>g_state := s\<rparr>, Some m))))"

text \<open>
  \<open>run_next_move\<close>, with what is done with the turn (\<open>push_legal_move\<close> and the update that follows
  it) as a parameter, since a subclass of the runner overrides it.
\<close>

definition run_with :: "(bool \<Rightarrow> 'm game_turn \<Rightarrow> 'c game \<Rightarrow> ('c game \<times> 'm game_turn option) result)
    \<Rightarrow> ('c, 'm) rules \<Rightarrow> runner_config \<Rightarrow> search_run \<Rightarrow> 'c game \<Rightarrow> ('c game \<times> 'm game_turn option) result" where
  "run_with put R cfg run g0 = (if is_finished (g_state g0) then Inr (g0, None)
   else (let side = pos_turn R (gs_board (g_state g0)) in
     rbind (start_clock (sr_start run) (clock_to_move R g0)) (\<lambda>clock. let
       g = set_clock side clock g0
     in rbind (case search_body R cfg run (gs_board (g_state g)) clock of
            Inr r \<Rightarrow> search_ended R cfg run side r g
          | Inl e \<Rightarrow> search_failed R cfg run side e g) (\<lambda>end.
        case end of Over g' \<Rightarrow> Inr (g', None) | Play g' m \<Rightarrow> put side m g'))))"

definition run_next_move :: "('c, 'm) rules \<Rightarrow> runner_config \<Rightarrow> search_run \<Rightarrow> 'c game
    \<Rightarrow> ('c game \<times> 'm game_turn option) result" where
  "run_next_move R = run_with (play_turn R) R"

subsection \<open>A move of the runner is a move of the game\<close>

lemma set_clock_state [simp]: "g_state (set_clock w tm g) = g_state g"
  by (simp add: set_clock_def)

lemma set_state_simps [simp]:
  "g_state (set_state f g) = f (g_state g)" "white_tm (set_state f g) = white_tm g"
  "black_tm (set_state f g) = black_tm g"
  by (simp_all add: set_state_def)

lemma decided:
  "is_finished (failure R side e s) \<and> gs_board (failure R side e s) = gs_board s"
  "is_finished (record_timeout R side s) \<and> gs_board (record_timeout R side s) = gs_board s"
  "is_finished (record_illegal_move side t s) \<and> gs_board (record_illegal_move side t s) = gs_board s"
  by (cases e) (auto simp: record_timeout_def record_illegal_move_def record_engine_error_def
    set_decisive_result_def is_finished_def)

definition other_clock :: "bool \<Rightarrow> 'c game \<Rightarrow> time_manager" where
  "other_clock side g = (if side then black_tm g else white_tm g)"

lemma other_clock_simps [simp]:
  "other_clock side (set_clock side tm g) = other_clock side g"
  "other_clock side (set_state f g) = other_clock side g"
  "other_clock side (g\<lparr>g_state := s\<rparr>) = other_clock side g"
  by (simp_all add: other_clock_def set_clock_def set_state_def)

text \<open>How a search can end: with a turn read on this position, or with the game decided.\<close>

definition end_ok :: "('c, 'm) rules \<Rightarrow> bool \<Rightarrow> 'c game \<Rightarrow> ('c game, 'm) search_end \<Rightarrow> bool" where
  "end_ok R side g e = (case e of
     Play g' m \<Rightarrow> g_state g' = g_state g \<and> other_clock side g' = other_clock side g
       \<and> (legal_turn R (gs_board (g_state g)) m \<longrightarrow> (case m of Standard_Turn _ \<Rightarrow> True
            | Duck_Game_Turn _ \<Rightarrow> read_turn R (gs_board (g_state g)) m))
   | Over g' \<Rightarrow> is_finished (g_state g') \<and> gs_board (g_state g') = gs_board (g_state g)
       \<and> other_clock side g' = other_clock side g)"

lemma captured_standard:
  "capture_latest_info_result R b cur = Inr (Some r) \<Longrightarrow> \<exists>m. bestmove r = Standard_Turn m"
  by (auto simp: capture_latest_info_result_def split: option.splits if_splits list.splits sum.splits exn.splits)

definition good_result :: "('c, 'm) rules \<Rightarrow> 'c position \<Rightarrow> 'm engine_search_result \<Rightarrow> bool" where
  "good_result R b r = (case bestmove r of Standard_Turn _ \<Rightarrow> True | Duck_Game_Turn _ \<Rightarrow> read_turn R b (bestmove r))"

lemma good_resultI: "read_turn R b (bestmove r) \<Longrightarrow> good_result R b r"
  by (cases "bestmove r") (simp_all add: good_result_def)

lemma finish_search_good: "finish_search R board run = Inr r \<Longrightarrow> good_result R board r"
  by (rule good_resultI)
    (auto simp: finish_search_def intro: parse_search_result_move(2) split: option.splits)

lemma captured_good: "capture_latest_info_result R b cur = Inr (Some r) \<Longrightarrow> good_result R b r"
  by (drule captured_standard) (auto simp: good_result_def)

lemma search_body_good: "search_body R cfg run b clock = Inr r \<Longrightarrow> good_result R b r"
  by (auto simp: search_body_def rbind_eq_Inr intro: finish_search_good captured_good
    split: if_splits option.splits)

lemma capture_search_good: "capture_search_result R cfg run b = Inr (Some r) \<Longrightarrow> good_result R b r"
  by (auto simp: capture_search_result_def rbind_eq_Inr intro: finish_search_good captured_good
    split: if_splits sum.splits)

lemma play_ok:
  "good_result R (gs_board (g_state g)) r \<Longrightarrow> g_state g' = g_state g \<Longrightarrow>
   other_clock side g' = other_clock side g \<Longrightarrow> end_ok R side g (Play g' (bestmove r))"
  by (simp add: end_ok_def good_result_def)

lemma over_ok:
  "is_finished (f (g_state g)) \<and> gs_board (f (g_state g)) = gs_board (g_state g) \<Longrightarrow> g_state g' = g_state g \<Longrightarrow>
   other_clock side g' = other_clock side g \<Longrightarrow> end_ok R side g (Over (set_state f g'))"
  by (simp add: end_ok_def)

lemma search_failed_ok:
  assumes "search_failed R cfg run side e g = Inr x"
  shows "end_ok R side g x"
proof -
  obtain cap where cap: "capture_search_result R cfg run (gs_board (g_state g)) = Inr cap"
    using assms by (auto simp: search_failed_def rbind_eq_Inr)
  show ?thesis
  proof (cases cap)
    case None
    then show ?thesis using assms cap
      by (auto simp: search_failed_def Let_def intro!: over_ok decided(1))
  next
    case (Some r)
    then have "good_result R (gs_board (g_state g)) r" using cap capture_search_good by simp
    then show ?thesis using assms cap Some by (auto simp: search_failed_def Let_def intro: play_ok)
  qed
qed

lemma search_ended_ok:
  assumes "good_result R (gs_board (g_state g)) r" and "search_ended R cfg run side r g = Inr x"
  shows "end_ok R side g x"
proof -
  obtain tm err where st: "stop_clock (sr_stop run) (if worker_clock cfg run
      then map_option (compensated cfg) (command_elapsed_ms r) else None) (clock_to_move R g) = (tm, err)"
    by (metis surj_pair)
  note x = assms(2) [unfolded search_ended_def Let_def st prod.case]
  show ?thesis
  proof (cases err)
    case None
    then show ?thesis using x play_ok [OF assms(1), of "set_clock side tm g" side] by simp
  next
    case (Some e)
    have e: "e = TimeOutError" using x Some by (cases e) simp_all
    obtain cap where cap: "(if use_latest_info_move_on_timeout cfg
        then capture_latest_info_result R (gs_board (g_state g)) (sr_info run) else Inr None) = Inr cap"
      using x Some e by (auto simp: rbind_eq_Inr)
    show ?thesis
    proof (cases cap)
      case None
      then show ?thesis using x Some e cap by (auto intro!: over_ok decided(2))
    next
      case cr: (Some c)
      then have "good_result R (gs_board (g_state g)) c"
        using cap captured_good by (simp split: if_splits)
      then show ?thesis using x Some e cap cr by (auto intro: play_ok)
    qed
  qed
qed

lemma pushed_position:
  assumes "game_position R p" and "legal_turn R p m" and "pos_push R p m = Inr p'"
    and "case m of Standard_Turn _ \<Rightarrow> True | Duck_Game_Turn _ \<Rightarrow> read_turn R p m"
  shows "game_position R p'"
proof (cases p)
  case (Duck_Position b)
  then obtain d where d: "m = Duck_Game_Turn d" using assms(2) by (cases m) auto
  then obtain t where "parse_turn R p t = Inr m" using assms(4) by (auto simp: read_turn_def)
  then have "pos_play R p t = Inr p'" using assms(3) by (simp add: pos_play_def)
  then show ?thesis by (rule game_position_play [OF assms(1)])
next
  case (Standard_Position c)
  then obtain s where s: "m = Standard_Turn s" using assms(2) by (cases m) auto
  note g = assms(1) [unfolded Standard_Position]
  have c: "chess_rules_ok (snd R)" "chess_reachable (snd R) c"
    by (rule game_position_standardE [OF g], assumption)+
  show ?thesis
    using game_position.standard [OF c(1) chess_reachable.pushed [OF c(2)]] assms(3) Standard_Position s
    by auto
qed

definition move_outcome :: "('c, 'm) rules \<Rightarrow> 'c game \<Rightarrow> 'c game \<Rightarrow> 'm game_turn option \<Rightarrow> bool" where
  "move_outcome R g g' mv = (let p = gs_board (g_state g) in
     other_clock (pos_turn R p) g' = other_clock (pos_turn R p) g
     \<and> (case mv of
          None \<Rightarrow> is_finished (g_state g') \<and> gs_board (g_state g') = p
        | Some m \<Rightarrow> legal_turn R p m \<and> pos_push R p m = Inr (gs_board (g_state g'))
            \<and> counts_in_step R (g_state g')))"

lemma play_turn_outcome:
  assumes "counts_in_step R (g_state g)" and "end_ok R (pos_turn R (gs_board (g_state g))) g (Play h m)"
    and "play_turn R (pos_turn R (gs_board (g_state g))) m h = Inr (g', mv)"
  shows "move_outcome R g g' mv"
proof -
  let ?p = "gs_board (g_state g)" and ?side = "pos_turn R (gs_board (g_state g))"
  have h: "g_state h = g_state g" "other_clock ?side h = other_clock ?side g"
    using assms(2) by (simp_all add: end_ok_def)
  show ?thesis
  proof (cases "legal_turn R ?p m")
    case False
    then show ?thesis using assms(3) h by (auto simp: play_turn_def move_outcome_def Let_def decided(3))
  next
    case True
    then obtain p' s where p': "pos_push R ?p m = Inr p'"
        "update_from_board R ((g_state g)\<lparr>gs_board := p'\<rparr>) = Inr s" "g' = h\<lparr>g_state := s\<rparr>" "mv = Some m"
      using assms(3) h by (auto simp: play_turn_def rbind_eq_Inr)
    have pos: "game_position R ?p" using assms(1) by (simp add: counts_in_step_def)
    have gp: "game_position R p'"
      by (rule pushed_position [OF pos True p'(1)]) (use assms(2) True in \<open>simp add: end_ok_def\<close>)
    obtain s1 where s1: "record_position R ((g_state g)\<lparr>gs_board := p'\<rparr>) = Inr s1" "counts_in_step R s1"
      using record_position_in_step [OF assms(1) p'(1) gp] by blast
    have "counts_in_step R s" by (rule update_counts [OF s1(1) p'(2) s1(2)])
    moreover have "gs_board s = p'"
    proof -
      have "gs_board s1 = p'" using s1(1)
        by (auto simp: record_position_def reset_position_counts_def rbind_eq_Inr Let_def split: if_splits)
      then show ?thesis using s1(1) p'(2)
        by (cases "current_outcome R s1") (auto simp: update_from_board_def apply_outcome_def Let_def)
    qed
    ultimately show ?thesis using True p' h by (simp add: move_outcome_def Let_def)
  qed
qed

text \<open>How a search of an unfinished game ends, whatever is done with its turn.\<close>

lemma run_with_end:
  assumes "run_with put R cfg run g = Inr (g', mv)" and "\<not> is_finished (g_state g)"
  obtains (over) "end_ok R (pos_turn R (gs_board (g_state g))) g (Over g')" "mv = None"
  | (play) h m where "end_ok R (pos_turn R (gs_board (g_state g))) g (Play h m)"
      "put (pos_turn R (gs_board (g_state g))) m h = Inr (g', mv)"
proof -
  let ?side = "pos_turn R (gs_board (g_state g))"
  obtain clock x where x: "(case search_body R cfg run (gs_board (g_state g)) clock of
      Inr r \<Rightarrow> search_ended R cfg run ?side r (set_clock ?side clock g)
    | Inl e \<Rightarrow> search_failed R cfg run ?side e (set_clock ?side clock g)) = Inr x"
    "(case x of Over h \<Rightarrow> Inr (h, None) | Play h m \<Rightarrow> put ?side m h) = Inr (g', mv)"
    using assms by (auto simp: run_with_def Let_def rbind_eq_Inr)
  have ok: "end_ok R ?side (set_clock ?side clock g) x"
  proof (cases "search_body R cfg run (gs_board (g_state g)) clock")
    case (Inl e)
    then show ?thesis using x(1) search_failed_ok by simp
  next
    case (Inr r)
    then have "good_result R (gs_board (g_state (set_clock ?side clock g))) r"
      using search_body_good by simp
    then show ?thesis using x(1) Inr by (auto intro: search_ended_ok)
  qed
  show thesis
  proof (cases x)
    case (Over h)
    then show ?thesis using x(2) ok by (intro over) (simp_all add: end_ok_def)
  next
    case (Play h m)
    have "end_ok R ?side g (Play h m)" 
      using ok unfolding Play end_ok_def search_end.case set_clock_state other_clock_simps .
    then show ?thesis using x(2) Play by (intro play) simp_all
  qed
qed

lemma run_next_move_outcome:
  assumes "counts_in_step R (g_state g)" and "run_next_move R cfg run g = Inr (g', mv)"
  shows "move_outcome R g g' mv"
proof (cases "is_finished (g_state g)")
  case True
  then show ?thesis using assms(2) by (simp add: run_next_move_def run_with_def move_outcome_def Let_def)
next
  case False
  show ?thesis
    using assms(2) [unfolded run_next_move_def] False
  proof (cases rule: run_with_end)
    case over
    then show ?thesis by (simp add: move_outcome_def end_ok_def Let_def)
  next
    case (play h m)
    then show ?thesis by (rule play_turn_outcome [OF assms(1)])
  qed
qed


text \<open>A first move: the engine prints one line, under a node limit.\<close>

definition sample_game_state :: "string list game_state" where
  "sample_game_state = (case new_game_state sample_package (Standard_Position []) of
     Inr s \<Rightarrow> s | Inl _ \<Rightarrow> blank_state (Standard_Position []))"

definition node_control :: runtime_time_control where
  "node_control = \<lparr>tc_category = MOVENODES, tc_initial_time = None, tc_increment = None,
     tc_move_time = None, tc_moves_to_go = None, tc_nodes = Some 100\<rparr>"

definition sample_game :: "string list game" where
  "sample_game = \<lparr>g_state = sample_game_state, white_tm = create_manager 0 node_control,
     black_tm = create_manager 0 node_control\<rparr>"

definition sample_run :: search_run where
  "sample_run = \<lparr>sr_start = 0, sr_remote = True, sr_probes = [(0, Some 3)], sr_failure = None,
     sr_lines = [''info depth 1 score cp 20 pv e2e4'', ''bestmove e2e4''], sr_elapsed = Some 12,
     sr_initial = (None, None), sr_info = (None, None), sr_info_after_stop = (None, None), sr_stop = 0\<rparr>"

definition sample_config :: runner_config where
  "sample_config = new_runner_config 5 True False False"

lemma sample_game_run: "game_run sample_package (g_state sample_game)"
proof -
  have "is_ok (new_game_state sample_package (Standard_Position []))" by code_simp
  then have "new_game_state sample_package (Standard_Position []) = Inr sample_game_state"
    by (auto simp: sample_game_state_def is_ok_iff)
  moreover have "chess_reachable sample_rules []"
    by (rule chess_reachable.new [of _ "[]" False]) (simp add: sample_rules_def)
  then have "game_position sample_package (Standard_Position [])"
    by (intro game_position.standard) (simp_all add: sample_package_def sample_rules_ok)
  ultimately show ?thesis by (simp add: sample_game_def game_run.start)
qed


text \<open>
  A search whose clock has run out at its end loses on time: when the elapsed time that
  counts reaches what the mover's clock had and no fallback move is captured, the game is over
  with the flag recorded, whatever move the engine returned.
\<close>
theorem overrun_loses:
  assumes "manager_ok (clock_to_move R g)" and "time_left (clock_to_move R g) = Some left"
    and "worker_clock cfg run" and "command_elapsed_ms r = Some ms"
    and "left \<le> compensated cfg ms" and "\<not> use_latest_info_move_on_timeout cfg"
  shows "\<exists>h. search_ended R cfg run side r g = Inr (Over h)
    \<and> g_state h = record_timeout R side (g_state g)"
proof -
  have "snd (stop_clock (sr_stop run) (Some (compensated cfg ms)) (clock_to_move R g)) = Some TimeOutError"
    using assms(1,2,5)
    by (cases "tc_category (tm_control (clock_to_move R g))")
      (auto simp: manager_ok_def stop_clock_def clock_stop_def charge_def time_left_def Let_def)
  then show ?thesis
    using assms(3,4,6) by (auto simp: search_ended_def Let_def split: prod.splits)
qed

lemma overrun_loses_witness:
  "\<exists>h. search_ended sample_package sample_config sample_run True
      \<lparr>bestmove = Standard_Turn ''e2e4'', command_elapsed_ms = Some 1005, result_info = no_info, info_line = None\<rparr>
      (sample_game\<lparr>white_tm := create_manager 0 sample_control\<rparr>) = Inr (Over h)
    \<and> g_state h = record_timeout sample_package True sample_game_state"
proof -
  let ?g = "sample_game\<lparr>white_tm := create_manager 0 sample_control\<rparr>"
  have "pos_turn sample_package (gs_board sample_game_state)" by code_simp
  then have c: "clock_to_move sample_package ?g = create_manager 0 sample_control"
    by (simp add: clock_to_move_def sample_game_def)
  have "\<exists>h. search_ended sample_package sample_config sample_run True
      \<lparr>bestmove = Standard_Turn ''e2e4'', command_elapsed_ms = Some 1005, result_info = no_info, info_line = None\<rparr>
      ?g = Inr (Over h) \<and> g_state h = record_timeout sample_package True (g_state ?g)"
  proof (rule overrun_loses [where left = 1000 and ms = 1005])
    show "manager_ok (clock_to_move sample_package ?g)" "time_left (clock_to_move sample_package ?g) = Some 1000"
      unfolding c by (simp_all add: manager_ok_def time_left_def create_manager_def sample_control_def)
  qed (simp_all add: worker_clock_def sample_config_def new_runner_config_def sample_run_def compensated_def)
  then show ?thesis by (simp add: sample_game_def)
qed

end
