(* ===== verification/Validation.thy ===== *)
theory Validation
  imports Prelude Pystring
begin

text \<open>
  Validation of data at the boundary of the program.  The program's messages and settings are
  pydantic models; the package parses a value into the declared types, tries every field and
  reports the locations of those that fail, and then runs the model's own validators, which
  may raise.  A check returns the list of failing locations, or of the raised message, or the
  accepted value, which a validator may have changed.
\<close>

named_theorems checked_simps \<open>what an accepted value satisfies\<close>

type_synonym 'a checked = "string list + 'a"

definition field_errors :: "string \<Rightarrow> bool \<Rightarrow> string list" where
  "field_errors location ok = (if ok then [] else [location])"

definition nested_errors :: "string \<Rightarrow> 'a checked \<Rightarrow> string list" where
  "nested_errors location r = (case r of Inl es \<Rightarrow> location # map ((@) (location @ ''.'')) es | Inr _ \<Rightarrow> [])"

definition accepted_value :: "'a \<Rightarrow> 'a checked \<Rightarrow> 'a" where
  "accepted_value given r = (case r of Inl _ \<Rightarrow> given | Inr v \<Rightarrow> v)"

definition validated :: "string list list \<Rightarrow> 'a \<Rightarrow> 'a checked" where
  "validated errors v = (if concat errors = [] then Inr v else Inl (concat errors))"

definition optional :: "('a \<Rightarrow> bool) \<Rightarrow> 'a option \<Rightarrow> bool" where
  "optional P v = (case v of None \<Rightarrow> True | Some x \<Rightarrow> P x)"

definition optional_check :: "('a \<Rightarrow> 'a checked) \<Rightarrow> 'a option \<Rightarrow> 'a option checked" where
  "optional_check f v = (case v of None \<Rightarrow> Inr None | Some x \<Rightarrow> rbind (f x) (\<lambda>y. Inr (Some y)))"

definition all_distinct_by :: "('a \<Rightarrow> 'b) \<Rightarrow> 'a list \<Rightarrow> bool" where
  "all_distinct_by f xs = distinct (map f xs)"

text \<open>The string constraints: length bounds, and the patterns of identifiers and digests.\<close>

definition text_between :: "nat \<Rightarrow> nat \<Rightarrow> string \<Rightarrow> bool" where
  "text_between lo hi s = (lo \<le> length s \<and> length s \<le> hi)"

definition pattern :: "(char \<Rightarrow> bool) \<Rightarrow> (char \<Rightarrow> bool) \<Rightarrow> nat \<Rightarrow> string \<Rightarrow> bool" where
  "pattern first rest most s = (case s of [] \<Rightarrow> False
     | c # cs \<Rightarrow> first c \<and> length cs \<le> most \<and> list_all rest cs)"

definition is_alnum :: "char \<Rightarrow> bool" where
  "is_alnum c = (is_digit c \<or> is_lower c \<or> is_upper c)"

definition local_key_pattern :: "string \<Rightarrow> bool" where
  "local_key_pattern = pattern is_alnum (\<lambda>c. is_alnum c \<or> c \<in> set ''._-'') 79"

definition entrypoint_pattern :: "string \<Rightarrow> bool" where
  "entrypoint_pattern = pattern is_alnum (\<lambda>c. is_alnum c \<or> c \<in> set ''._/-'') 255"

definition slug_pattern :: "string \<Rightarrow> bool" where
  "slug_pattern = pattern is_lower (\<lambda>c. is_lower c \<or> is_digit c \<or> c = CHR ''_'') 63"

definition hex_pattern :: "nat \<Rightarrow> string \<Rightarrow> bool" where
  "hex_pattern n s = (length s = n \<and> list_all (\<lambda>c. is_digit c \<or> c \<in> set ''abcdef'') s)"

text \<open>A constructor raises a failed validation as a \<open>ValidationError\<close>, which is a \<open>ValueError\<close>.\<close>

definition validation_result :: "'a checked \<Rightarrow> 'a result" where
  "validation_result r = (case r of Inl errors \<Rightarrow> Inl (ValueError ''validation error'') | Inr v \<Rightarrow> Inr v)"

lemma validation_result_Inr [simp, result_simps]: "validation_result r = Inr v \<longleftrightarrow> r = Inr v"
  by (simp add: validation_result_def split: sum.splits)

lemma field_errors_Nil [simp]: "field_errors l c = [] \<longleftrightarrow> c"
  by (simp add: field_errors_def)

lemma nested_errors_Nil [simp]: "nested_errors l r = [] \<longleftrightarrow> is_ok r"
  by (auto simp: nested_errors_def is_ok_def split: sum.splits)

lemma accepted_value_Inr [simp]: "accepted_value g (Inr v) = v"
  by (simp add: accepted_value_def)

lemma validated_Inr [checked_simps]:
  "validated errors v = Inr w \<longleftrightarrow> list_all (\<lambda>e. e = []) errors \<and> w = v"
  by (auto simp: validated_def list_all_iff)

lemma validated_ok [simp]: "list_all (\<lambda>e. e = []) errors \<Longrightarrow> validated errors v = Inr v"
  by (simp add: validated_Inr)

lemma optional_simps [simp]: "optional P None" "optional P (Some x) = P x"
  by (simp_all add: optional_def)

lemma optional_check_simps [simp]:
  "optional_check f None = Inr None"
  "optional_check f (Some x) = rbind (f x) (\<lambda>y. Inr (Some y))"
  by (simp_all add: optional_check_def)

text \<open>Checks that accept their own results again.\<close>

definition settles :: "('a \<Rightarrow> 'e + 'a) \<Rightarrow> bool" where
  "settles f = (\<forall>x y. f x = Inr y \<longrightarrow> f y = Inr y)"

lemma settlesI [intro?]: "(\<And>x y. f x = Inr y \<Longrightarrow> f y = Inr y) \<Longrightarrow> settles f"
  by (simp add: settles_def)

lemma settlesD: "settles f \<Longrightarrow> f x = Inr y \<Longrightarrow> f y = Inr y"
  by (auto simp: settles_def)

lemma settles_optional: "settles f \<Longrightarrow> settles (optional_check f)"
  by (auto simp: settles_def optional_check_def rbind_eq_Inr split: option.splits)

lemma accepted_nested:
  assumes "settles f" and "is_ok (f x)"
  shows "f (accepted_value x (f x)) = Inr (accepted_value x (f x))"
  using assms by (auto simp: is_ok_iff settles_def)

end
