(* ===== verification/Model_Config.thy ===== *)
theory Model_Config
  imports Validation Variants Complex_Main
begin

text \<open>
  \<open>cope/core/models.py\<close>, the settings: worker resources, time controls, adjudication rules,
  engines, and the configuration of a tournament with its validators.
\<close>

definition worker_memory_capacity_mb :: "int \<Rightarrow> int" where
  "worker_memory_capacity_mb total_ram_mb = (let
     reserve = max 2048 (total_ram_mb div 10)
   in max 1 (total_ram_mb - reserve))"

record worker_resources =
  res_threads :: int
  res_hash_mb :: int

definition check_resources :: "worker_resources \<Rightarrow> worker_resources checked" where
  "check_resources r = validated
     [field_errors ''threads'' (0 < res_threads r),
      field_errors ''hash_mb'' (0 < res_hash_mb r)] r"

definition can_run :: "worker_resources \<Rightarrow> worker_resources \<Rightarrow> bool" where
  "can_run r required = (res_threads required \<le> res_threads r \<and> res_hash_mb required \<le> res_hash_mb r)"

record resource_telemetry =
  cpu_percent :: rat
  memory_used_mb :: rat
  memory_total_mb :: rat
  memory_available_mb :: rat
  coordinator_cpu_cores :: rat
  coordinator_memory_mb :: rat
  engine_cpu_cores :: rat
  engine_memory_mb :: rat
  disk_used_mb :: rat
  disk_free_mb :: rat
  disk_total_mb :: rat
  telemetry_local_keys :: "string list option"

definition check_telemetry :: "resource_telemetry \<Rightarrow> resource_telemetry checked" where
  "check_telemetry t = validated
     [field_errors ''cpu_percent'' (0 \<le> cpu_percent t \<and> cpu_percent t \<le> 100),
      field_errors ''memory_used_mb'' (0 \<le> memory_used_mb t),
      field_errors ''memory_total_mb'' (0 < memory_total_mb t),
      field_errors ''memory_available_mb'' (0 \<le> memory_available_mb t),
      field_errors ''coordinator_cpu_cores'' (0 \<le> coordinator_cpu_cores t),
      field_errors ''coordinator_memory_mb'' (0 \<le> coordinator_memory_mb t),
      field_errors ''engine_cpu_cores'' (0 \<le> engine_cpu_cores t),
      field_errors ''engine_memory_mb'' (0 \<le> engine_memory_mb t),
      field_errors ''disk_used_mb'' (0 \<le> disk_used_mb t),
      field_errors ''disk_free_mb'' (0 \<le> disk_free_mb t),
      field_errors ''disk_total_mb'' (0 < disk_total_mb t),
      field_errors ''worker_local_engine_keys'' (optional (\<lambda>keys. length keys \<le> 500
        \<and> list_all local_key_pattern keys \<and> distinct keys) (telemetry_local_keys t))] t"

subsection \<open>Time controls and adjudication\<close>

datatype config_time_control =
    IncrementTimeControl (initial_ms: int) (increment_ms: int)
  | MoveTimeControl (move_time_ms: int)
  | MovesToGoTimeControl (initial_ms: int) (moves_to_go: int)
  | MoveNodesTimeControl (node_limit: int)

fun check_time_control :: "config_time_control \<Rightarrow> config_time_control checked" where
  "check_time_control (IncrementTimeControl i inc) = validated
     [field_errors ''initial_ms'' (0 < i), field_errors ''increment_ms'' (0 \<le> inc)] (IncrementTimeControl i inc)"
| "check_time_control (MoveTimeControl m) = validated
     [field_errors ''move_time_ms'' (0 < m)] (MoveTimeControl m)"
| "check_time_control (MovesToGoTimeControl i n) = validated
     [field_errors ''initial_ms'' (0 < i), field_errors ''moves_to_go'' (0 < n)] (MovesToGoTimeControl i n)"
| "check_time_control (MoveNodesTimeControl n) = validated
     [field_errors ''nodes'' (0 < n)] (MoveNodesTimeControl n)"

record draw_rule =
  min_fullmove :: int
  max_abs_cp :: int
  draw_plies :: int

definition require_engine_agreement :: "int \<Rightarrow> int" where
  "require_engine_agreement plies = max plies 2"

definition check_draw_rule :: "draw_rule \<Rightarrow> draw_rule checked" where
  "check_draw_rule r = validated
     [field_errors ''min_fullmove'' (0 < min_fullmove r),
      field_errors ''max_abs_cp'' (0 \<le> max_abs_cp r),
      field_errors ''consecutive_plies'' (0 < draw_plies r)]
     (r\<lparr>draw_plies := require_engine_agreement (draw_plies r)\<rparr>)"

record resign_rule =
  min_abs_cp :: int
  resign_plies :: int

definition check_resign_rule :: "resign_rule \<Rightarrow> resign_rule checked" where
  "check_resign_rule r = validated
     [field_errors ''min_abs_cp'' (0 < min_abs_cp r),
      field_errors ''consecutive_plies'' (0 < resign_plies r)]
     (r\<lparr>resign_plies := require_engine_agreement (resign_plies r)\<rparr>)"

record adjudication_config =
  adj_draw :: "draw_rule option"
  adj_resign :: "resign_rule option"
  adj_max_moves :: "int option"

definition check_adjudication :: "adjudication_config \<Rightarrow> adjudication_config checked" where
  "check_adjudication a = (let
     d = optional_check check_draw_rule (adj_draw a);
     r = optional_check check_resign_rule (adj_resign a)
   in validated
     [nested_errors ''draw'' d, nested_errors ''resign'' r,
      field_errors ''max_moves'' (optional (\<lambda>n. 0 < n) (adj_max_moves a))]
     (a\<lparr>adj_draw := accepted_value (adj_draw a) d, adj_resign := accepted_value (adj_resign a) r\<rparr>))"

subsection \<open>Engines\<close>

record artifact_spec =
  artifact_url :: string
  artifact_sha256 :: string
  artifact_size :: int
  artifact_entrypoint :: string

definition check_artifact :: "artifact_spec \<Rightarrow> artifact_spec checked" where
  "check_artifact a = validated
     [field_errors ''url'' (text_between 1 1000 (artifact_url a)),
      field_errors ''sha256'' (hex_pattern 64 (artifact_sha256 a)),
      field_errors ''size'' (0 < artifact_size a),
      field_errors ''entrypoint'' (entrypoint_pattern (artifact_entrypoint a)
        \<and> \<not> (starts_with ''/'' (artifact_entrypoint a)
            \<or> ''..'' \<in> set (split_on CHR ''/'' (artifact_entrypoint a))))] a"

datatype distribution = Managed | Worker_Local

record engine_spec =
  spec_engine_id :: int
  spec_name :: string
  spec_author :: string
  spec_version :: string
  spec_repository_url :: string
  spec_source_ref :: string
  spec_dockerfile :: string
  spec_build_hash :: string
  spec_distribution :: distribution
  spec_local_key :: "string option"
  spec_artifact :: "artifact_spec option"
  spec_uci_options :: "(string \<times> option_value) list"

definition option_names_ok :: "(string \<times> option_value) list \<Rightarrow> bool" where
  "option_names_ok options = list_all (\<lambda>(name, v). strip name \<noteq> []) options"

definition validate_distribution :: "engine_spec \<Rightarrow> engine_spec checked" where
  "validate_distribution e = (if spec_distribution e = Worker_Local
     then (if spec_local_key e = None then Inl [''worker-local engines require a local key'']
       else if spec_artifact e \<noteq> None then Inl [''worker-local engines cannot have a published artifact'']
       else Inr e)
     else if spec_local_key e \<noteq> None then Inl [''managed engines cannot have a worker-local key'']
     else Inr e)"

definition check_engine_spec :: "engine_spec \<Rightarrow> engine_spec checked" where
  "check_engine_spec e = rbind (validated
     [field_errors ''engine_id'' (0 < spec_engine_id e),
      field_errors ''name'' (text_between 1 80 (spec_name e)),
      field_errors ''author'' (text_between 0 120 (spec_author e)),
      field_errors ''version'' (text_between 1 80 (spec_version e)),
      field_errors ''repository_url'' (text_between 0 1000 (spec_repository_url e)),
      field_errors ''source_ref'' (text_between 0 200 (spec_source_ref e)),
      field_errors ''dockerfile'' (text_between 0 100000 (spec_dockerfile e)),
      field_errors ''build_hash'' (hex_pattern 64 (spec_build_hash e)),
      field_errors ''worker_local_key'' (optional local_key_pattern (spec_local_key e)),
      nested_errors ''artifact'' (optional_check check_artifact (spec_artifact e)),
      field_errors ''uci_options'' (option_names_ok (spec_uci_options e))] e)
     validate_distribution"

subsection \<open>Tournament settings\<close>

datatype tournament_format = ROUND_ROBIN | SWISS | KNOCKOUT | GAUNTLET

datatype format_options =
    RoundRobinFormatOptions (cycles: int)
  | SwissFormatOptions (swiss_rounds: int)
  | KnockoutFormatOptions
  | GauntletFormatOptions (hero_engine_id: int) (cycles: int)

fun check_format_options :: "format_options \<Rightarrow> format_options checked" where
  "check_format_options (RoundRobinFormatOptions n) = validated
     [field_errors ''cycles'' (0 < n)] (RoundRobinFormatOptions n)"
| "check_format_options (SwissFormatOptions n) = validated
     [field_errors ''rounds'' (0 < n)] (SwissFormatOptions n)"
| "check_format_options KnockoutFormatOptions = Inr KnockoutFormatOptions"
| "check_format_options (GauntletFormatOptions h n) = validated
     [field_errors ''hero_engine_id'' (0 < h), field_errors ''cycles'' (0 < n)] (GauntletFormatOptions h n)"

record tournament_config =
  config_variant :: string
  config_rules_revision :: string
  format :: tournament_format
  format_options :: format_options
  participants :: "int list"
  config_time_control :: config_time_control
  concurrency :: int
  opening_suite_id :: "int option"
  adjudication :: adjudication_config
  rated :: bool
  lag_compensation_ms :: int
  engine_threads :: int
  engine_hash_mb :: int
  config_uci_options :: "(string \<times> option_value) list"

definition participants_ok :: "int list \<Rightarrow> bool" where
  "participants_ok ps = (2 \<le> length ps \<and> list_all (\<lambda>engine_id. 0 < engine_id) ps \<and> distinct ps)"

definition tournament_options_ok :: "(string \<times> option_value) list \<Rightarrow> bool" where
  "tournament_options_ok options = list_all (\<lambda>(name, v). strip name \<noteq> []
     \<and> lower (strip name) \<noteq> ''threads'' \<and> lower (strip name) \<noteq> ''hash'') options"

fun expected_options :: "tournament_format \<Rightarrow> format_options \<Rightarrow> bool" where
  "expected_options ROUND_ROBIN (RoundRobinFormatOptions n) = True"
| "expected_options SWISS (SwissFormatOptions n) = True"
| "expected_options KNOCKOUT KnockoutFormatOptions = True"
| "expected_options GAUNTLET (GauntletFormatOptions h n) = True"
| "expected_options f opts = False"

definition controlled_option :: "string \<Rightarrow> bool" where
  "controlled_option name = (lower (strip name) \<in> {''uci_variant'', ''uci_chess960'', ''duck960''})"

definition validate_format_options :: "tournament_config \<Rightarrow> tournament_config checked" where
  "validate_format_options c = (case get_variant (config_variant c) of
     Inl e \<Rightarrow> Inl [''Unknown variant'']
   | Inr v \<Rightarrow>
     if config_rules_revision c \<noteq> [] \<and> config_rules_revision c \<noteq> rules_revision v
     then Inl [''Unsupported variant rules revision'']
     else let c = c\<lparr>config_rules_revision := rules_revision v\<rparr> in
     if requires_openings v \<and> opening_suite_id c = None
     then Inl [''tournaments require a starting-position suite'']
     else if variant_duck v \<and> (adj_draw (adjudication c) \<noteq> None \<or> adj_resign (adjudication c) \<noteq> None)
     then Inl [''Duck tournaments do not support evaluation adjudication'']
     else if list_ex (\<lambda>(name, value). controlled_option name) (config_uci_options c)
     then Inl [''Variant options are controlled by the tournament variant'']
     else if \<not> expected_options (format c) (format_options c)
     then Inl [''format requires other format options'']
     else (case format_options c of
         GauntletFormatOptions h n \<Rightarrow> if h \<notin> set (participants c)
           then Inl [''gauntlet hero_engine_id must be in participants''] else Inr c
       | _ \<Rightarrow> Inr c))"

definition check_config :: "tournament_config \<Rightarrow> tournament_config checked" where
  "check_config c = (let adj = check_adjudication (adjudication c) in rbind (validated
     [field_errors ''variant'' (config_variant c \<in> set (map fst VARIANTS)),
      nested_errors ''format_options'' (check_format_options (format_options c)),
      field_errors ''participants'' (participants_ok (participants c)),
      nested_errors ''time_control'' (check_time_control (config_time_control c)),
      field_errors ''concurrency'' (0 < concurrency c),
      field_errors ''opening_suite_id'' (optional (\<lambda>n. 0 < n) (opening_suite_id c)),
      nested_errors ''adjudication'' adj,
      field_errors ''lag_compensation_ms'' (0 \<le> lag_compensation_ms c),
      field_errors ''engine_threads'' (0 < engine_threads c),
      field_errors ''engine_hash_mb'' (0 < engine_hash_mb c),
      field_errors ''uci_options'' (tournament_options_ok (config_uci_options c))]
     (c\<lparr>adjudication := accepted_value (adjudication c) adj\<rparr>))
     validate_format_options)"

text \<open>What the rest of the program may rely on in an accepted configuration.\<close>

definition config_ok :: "tournament_config \<Rightarrow> bool" where
  "config_ok c = (participants_ok (participants c) \<and> expected_options (format c) (format_options c)
     \<and> (case format_options c of
          RoundRobinFormatOptions n \<Rightarrow> 0 < n
        | SwissFormatOptions n \<Rightarrow> 0 < n
        | KnockoutFormatOptions \<Rightarrow> True
        | GauntletFormatOptions h n \<Rightarrow> 0 < n \<and> h \<in> set (participants c))
     \<and> (\<exists>v. get_variant (config_variant c) = Inr v \<and> config_rules_revision c = rules_revision v
          \<and> (requires_openings v \<longrightarrow> opening_suite_id c \<noteq> None)
          \<and> (variant_duck v \<longrightarrow> adj_draw (adjudication c) = None \<and> adj_resign (adjudication c) = None))
     \<and> 0 < concurrency c \<and> 0 < engine_threads c \<and> 0 < engine_hash_mb c
     \<and> optional (\<lambda>r. 2 \<le> draw_plies r) (adj_draw (adjudication c))
     \<and> optional (\<lambda>r. 2 \<le> resign_plies r) (adj_resign (adjudication c)))"

lemma settles_draw_rule: "settles check_draw_rule"
  by (rule settlesI) (auto simp: check_draw_rule_def validated_Inr require_engine_agreement_def)

lemma settles_resign_rule: "settles check_resign_rule"
  by (rule settlesI) (auto simp: check_resign_rule_def validated_Inr require_engine_agreement_def)

lemma check_adjudication_Inr:
  "check_adjudication a = Inr b \<longleftrightarrow> (\<exists>d r. optional_check check_draw_rule (adj_draw a) = Inr d
     \<and> optional_check check_resign_rule (adj_resign a) = Inr r
     \<and> optional (\<lambda>n. 0 < n) (adj_max_moves a) \<and> b = a\<lparr>adj_draw := d, adj_resign := r\<rparr>)"
  by (auto simp: check_adjudication_def Let_def validated_Inr is_ok_iff)

lemma settles_adjudication: "settles check_adjudication"
proof
  fix a b assume "check_adjudication a = Inr b"
  then obtain d r where "optional_check check_draw_rule (adj_draw a) = Inr d"
      "optional_check check_resign_rule (adj_resign a) = Inr r"
      "optional (\<lambda>n. 0 < n) (adj_max_moves a)" "b = a\<lparr>adj_draw := d, adj_resign := r\<rparr>"
    unfolding check_adjudication_Inr by blast
  then show "check_adjudication b = Inr b"
    using settlesD [OF settles_optional [OF settles_draw_rule]]
      settlesD [OF settles_optional [OF settles_resign_rule]]
    by (simp add: check_adjudication_Inr)
qed

lemma adjudication_plies:
  assumes "check_adjudication a = Inr b"
  shows "optional (\<lambda>r. 2 \<le> draw_plies r) (adj_draw b)"
    and "optional (\<lambda>r. 2 \<le> resign_plies r) (adj_resign b)"
    and "adj_draw b = None \<longleftrightarrow> adj_draw a = None" and "adj_resign b = None \<longleftrightarrow> adj_resign a = None"
  using assms
  by (auto simp: check_adjudication_Inr optional_check_def check_draw_rule_def check_resign_rule_def
      validated_Inr require_engine_agreement_def rbind_eq_Inr split: option.splits)

lemma check_format_options_Inr:
  "check_format_options o1 = Inr o2 \<Longrightarrow> o2 = o1 \<and> (case o1 of
     RoundRobinFormatOptions n \<Rightarrow> 0 < n | SwissFormatOptions n \<Rightarrow> 0 < n
   | KnockoutFormatOptions \<Rightarrow> True | GauntletFormatOptions h n \<Rightarrow> 0 < h \<and> 0 < n)"
  by (cases o1) (auto simp: validated_Inr)

definition format_agrees :: "tournament_config \<Rightarrow> bool" where
  "format_agrees c = (expected_options (format c) (format_options c)
     \<and> (case format_options c of GauntletFormatOptions h n \<Rightarrow> h \<in> set (participants c) | _ \<Rightarrow> True))"

lemma format_agrees_update [simp]:
  "format_agrees (c\<lparr>adjudication := a\<rparr>) = format_agrees c"
  "format_agrees (c\<lparr>config_rules_revision := r\<rparr>) = format_agrees c"
  by (cases "format_options c"; simp add: format_agrees_def)+

lemma validate_format_options_Inr:
  "validate_format_options c = Inr c' \<longleftrightarrow> (\<exists>v. get_variant (config_variant c) = Inr v
     \<and> config_rules_revision c \<in> {[], rules_revision v}
     \<and> (requires_openings v \<longrightarrow> opening_suite_id c \<noteq> None)
     \<and> (variant_duck v \<longrightarrow> adj_draw (adjudication c) = None \<and> adj_resign (adjudication c) = None)
     \<and> \<not> list_ex (\<lambda>(name, value). controlled_option name) (config_uci_options c)
     \<and> format_agrees c \<and> c' = c\<lparr>config_rules_revision := rules_revision v\<rparr>)"
  by (cases "get_variant (config_variant c)"; cases "format_options c")
    (simp_all add: validate_format_options_def format_agrees_def Let_def; blast)+

definition config_fields_ok :: "tournament_config \<Rightarrow> bool" where
  "config_fields_ok c = (config_variant c \<in> set (map fst VARIANTS)
     \<and> is_ok (check_format_options (format_options c)) \<and> participants_ok (participants c)
     \<and> is_ok (check_time_control (config_time_control c)) \<and> 0 < concurrency c
     \<and> optional (\<lambda>n. 0 < n) (opening_suite_id c) \<and> 0 \<le> lag_compensation_ms c
     \<and> 0 < engine_threads c \<and> 0 < engine_hash_mb c \<and> tournament_options_ok (config_uci_options c))"

lemma check_config_Inr:
  "check_config c = Inr c' \<longleftrightarrow> (\<exists>adj. check_adjudication (adjudication c) = Inr adj
     \<and> config_fields_ok c \<and> validate_format_options (c\<lparr>adjudication := adj\<rparr>) = Inr c')"
  by (cases "check_adjudication (adjudication c)")
    (auto simp: check_config_def config_fields_ok_def Let_def rbind_eq_Inr validated_Inr)

lemma check_config_settles: "settles check_config"
proof
  fix c c' assume "check_config c = Inr c'"
  then obtain adj v where adj: "check_adjudication (adjudication c) = Inr adj"
    and ok: "config_fields_ok c" and v: "get_variant (config_variant c) = Inr v"
    and rest: "requires_openings v \<longrightarrow> opening_suite_id c \<noteq> None"
      "variant_duck v \<longrightarrow> adj_draw adj = None \<and> adj_resign adj = None"
      "\<not> list_ex (\<lambda>(name, value). controlled_option name) (config_uci_options c)"
      "format_agrees c"
    and c': "c' = c\<lparr>adjudication := adj, config_rules_revision := rules_revision v\<rparr>"
    unfolding check_config_Inr validate_format_options_Inr by auto
  have "check_adjudication adj = Inr adj" by (rule settlesD [OF settles_adjudication adj])
  moreover have "config_fields_ok c'" using ok by (simp add: c' config_fields_ok_def)
  moreover have "validate_format_options c' = Inr c'"
    unfolding validate_format_options_Inr using v rest by (simp add: c')
  moreover have "c'\<lparr>adjudication := adj\<rparr> = c'" "adjudication c' = adj" unfolding c' by simp_all
  ultimately show "check_config c' = Inr c'" unfolding check_config_Inr by metis
qed

lemma check_config_ok:
  assumes "check_config c = Inr c'"
  shows "config_ok c'"
proof -
  obtain adj v where adj: "check_adjudication (adjudication c) = Inr adj"
    and ok: "config_fields_ok c" and v: "get_variant (config_variant c) = Inr v"
    and rest: "requires_openings v \<longrightarrow> opening_suite_id c \<noteq> None"
      "variant_duck v \<longrightarrow> adj_draw adj = None \<and> adj_resign adj = None"
      "format_agrees c"
    and c': "c' = c\<lparr>adjudication := adj, config_rules_revision := rules_revision v\<rparr>"
    using assms unfolding check_config_Inr validate_format_options_Inr by auto
  obtain opts where "check_format_options (format_options c) = Inr opts"
    using ok by (auto simp: config_fields_ok_def is_ok_iff)
  from check_format_options_Inr [OF this] have opts: "case format_options c of
       RoundRobinFormatOptions n \<Rightarrow> 0 < n | SwissFormatOptions n \<Rightarrow> 0 < n
     | KnockoutFormatOptions \<Rightarrow> True | GauntletFormatOptions h n \<Rightarrow> 0 < h \<and> 0 < n" by blast
  show ?thesis
    using ok v rest opts adjudication_plies(1,2) [OF adj]
    by (auto simp: config_ok_def c' config_fields_ok_def format_agrees_def split: format_options.splits)
qed

text \<open>
  C11: An accepted tournament configuration has at least two distinct participants, options of
  its own format with positive counts, a gauntlet hero that takes part, the rules revision of
  its variant, and adjudication rules that need two plies; and it is accepted again unchanged,
  as it must be when it is stored and read back.
\<close>
theorem accepted_config:
  assumes "check_config c = Inr c'"
  shows "config_ok c' \<and> check_config c' = Inr c'"
  using check_config_ok [OF assms] settlesD [OF check_config_settles assms] by blast

definition sample_config :: tournament_config where
  "sample_config = \<lparr>config_variant = ''standard'', config_rules_revision = [], format = GAUNTLET,
     format_options = GauntletFormatOptions 7 2, participants = [7, 3, 5],
     config_time_control = IncrementTimeControl 60000 500, concurrency = 1, opening_suite_id = None,
     adjudication = \<lparr>adj_draw = Some \<lparr>min_fullmove = 40, max_abs_cp = 10, draw_plies = 1\<rparr>,
       adj_resign = None, adj_max_moves = Some 200\<rparr>,
     rated = True, lag_compensation_ms = 50, engine_threads = 1, engine_hash_mb = 16,
     config_uci_options = [(''Contempt'', OptInt 0)]\<rparr>"

lemma sample_config_accepted:
  "check_config sample_config = Inr (sample_config\<lparr>config_rules_revision := ''chess1'',
     adjudication := (adjudication sample_config)\<lparr>adj_draw := Some \<lparr>min_fullmove = 40, max_abs_cp = 10, draw_plies = 2\<rparr>\<rparr>\<rparr>)"
  by code_simp

lemma accepted_config_witness:
  "config_ok (sample_config\<lparr>config_rules_revision := ''chess1'',
     adjudication := (adjudication sample_config)\<lparr>adj_draw := Some \<lparr>min_fullmove = 40, max_abs_cp = 10, draw_plies = 2\<rparr>\<rparr>\<rparr>)"
  using accepted_config [OF sample_config_accepted] by blast

end
