(* ===== verification/System_Chat.thy ===== *)
theory System_Chat
  imports Prelude Pystring
begin

text \<open>
  \<open>cope/chat/system.py\<close>: the system's announcements in the chat of a tournament.  Each has an
  event key; an announcement whose key is already there is not repeated.  The rows of the
  events refer to their messages, and deleting a message deletes its event.  The time of a
  message and the JSON metadata of an event are not modelled.
\<close>

record chat_message =
  message_id :: int
  message_tournament :: int
  display_name :: string
  message_text :: string

record system_event =
  event_tournament :: int
  event_key :: string
  event_type :: string
  event_message :: int

record chat_log =
  messages :: "chat_message list"
  events :: "system_event list"
  next_message :: int

definition create_chat_message :: "chat_log \<Rightarrow> int \<Rightarrow> string \<Rightarrow> string \<Rightarrow> chat_log \<times> int" where
  "create_chat_message c t name body =
     (c\<lparr>messages := messages c @ [\<lparr>message_id = next_message c, message_tournament = t,
          display_name = name, message_text = body\<rparr>], next_message := next_message c + 1\<rparr>, next_message c)"

definition get_chat_message :: "chat_log \<Rightarrow> int \<Rightarrow> chat_message option" where
  "get_chat_message c i = List.find (\<lambda>m. message_id m = i) (messages c)"

definition emit :: "chat_log \<Rightarrow> int \<Rightarrow> string \<Rightarrow> string \<Rightarrow> string \<Rightarrow> (chat_log \<times> chat_message) result" where
  "emit c t kind key body = (let
     existing = List.find (\<lambda>e. event_tournament e = t \<and> event_key e = key) (events c);
     found = (case existing of None \<Rightarrow> None | Some e \<Rightarrow> get_chat_message c (event_message e))
   in case found of Some m \<Rightarrow> Inr (c, m)
   | None \<Rightarrow> let (c', i) = create_chat_message c t ''System'' body in
       if existing \<noteq> None then Inl IntegrityError
       else let c'' = c'\<lparr>events := events c' @ [\<lparr>event_tournament = t, event_key = key, event_type = kind,
           event_message = i\<rparr>]\<rparr>
         in rbind (or_error (RuntimeError ''system chat message disappeared after creation'') (get_chat_message c'' i))
              (\<lambda>m. Inr (c'', m)))"

definition plural :: "int \<Rightarrow> string" where
  "plural n = (if n = 1 then [] else ''s'')"

definition announce_tournament_started :: "chat_log \<Rightarrow> int \<Rightarrow> string \<Rightarrow> int \<Rightarrow> (chat_log \<times> chat_message) result" where
  "announce_tournament_started c t name scheduled_games = emit c t ''tournament.started'' ''tournament.started''
     (name @ '' has started. '' @ int_str scheduled_games @ '' game'' @ plural scheduled_games @ '' scheduled.'')"

definition game_finished_text :: "string \<Rightarrow> string \<Rightarrow> string \<Rightarrow> string \<Rightarrow> string" where
  "game_finished_text white black result termin =
     (if starts_with ''max moves'' termin \<or> contains ''adjudicat'' (lower termin)
      then white @ '' vs '' @ black @ '': ('' @ result @ '') ''
        @ (if result = ''1/2-1/2'' then ''Draw'' else ''Win'') @ '' by adjudication.''
      else ''Game finished: '' @ white @ '' vs '' @ black @ '', '' @ result @ ''. Termination: '' @ termin @ ''.'')"

definition game_finished_key :: "int \<Rightarrow> string" where
  "game_finished_key game = ''game.'' @ int_str game @ ''.finished''"

definition announce_game_finished :: "(int \<Rightarrow> string) \<Rightarrow> chat_log \<Rightarrow> int \<Rightarrow> int \<Rightarrow> int \<Rightarrow> int \<Rightarrow> string \<Rightarrow> string
    \<Rightarrow> (chat_log \<times> chat_message) result" where
  "announce_game_finished label c t game white black result termin =
     emit c t ''game.finished'' (game_finished_key game)
       (game_finished_text (label white) (label black) result termin)"

definition leaders_text :: "string list \<Rightarrow> string" where
  "leaders_text leaders = (case leaders of
     [] \<Rightarrow> ''Final results are available.''
   | [l] \<Rightarrow> ''Winner: '' @ l @ ''.''
   | _ \<Rightarrow> ''Joint winners: '' @ join '', '' leaders @ ''.'')"

definition announce_tournament_finished :: "chat_log \<Rightarrow> int \<Rightarrow> string \<Rightarrow> string list \<Rightarrow> (chat_log \<times> chat_message) result" where
  "announce_tournament_finished c t name leaders = emit c t ''tournament.finished'' ''tournament.finished''
     (name @ '' has finished. '' @ leaders_text leaders)"

definition announce_results_committed :: "chat_log \<Rightarrow> int \<Rightarrow> int \<Rightarrow> int \<Rightarrow> int \<Rightarrow> (chat_log \<times> chat_message) result" where
  "announce_results_committed c t rating_list games_applied engines_updated =
     emit c t ''tournament.results_committed'' (''tournament.results_committed.'' @ int_str rating_list)
       (''Tournament results committed to ratings: '' @ int_str games_applied @ '' games applied across ''
        @ int_str engines_updated @ '' engines.'')"

text \<open>Deleting the announcements of some keys: their messages go, and their events with them.\<close>

definition delete_system_chat_events :: "int \<Rightarrow> string list \<Rightarrow> chat_log \<Rightarrow> chat_log" where
  "delete_system_chat_events t keys c = (let
     gone = map event_message (filter (\<lambda>e. event_tournament e = t \<and> event_key e \<in> set keys) (events c))
   in c\<lparr>messages := filter (\<lambda>m. message_id m \<notin> set gone) (messages c),
        events := filter (\<lambda>e. event_message e \<notin> set gone) (events c)\<rparr>)"

subsection \<open>Every announcement once\<close>

definition event_slot :: "system_event \<Rightarrow> int \<times> string" where
  "event_slot e = (event_tournament e, event_key e)"

definition chat_ok :: "chat_log \<Rightarrow> bool" where
  "chat_ok c = (distinct (map message_id (messages c)) \<and> distinct (map event_slot (events c))
     \<and> distinct (map event_message (events c))
     \<and> (\<forall>m \<in> set (messages c). message_id m < next_message c)
     \<and> (\<forall>e \<in> set (events c). event_message e \<in> message_id ` set (messages c)))"

lemma find_in: "x \<in> set xs \<Longrightarrow> P x \<Longrightarrow> \<exists>y. List.find P xs = Some y"
  by (cases "List.find P xs") (auto simp: find_None_iff_in)

lemma find_snoc:
  "List.find P (xs @ [x]) = (case List.find P xs of None \<Rightarrow> if P x then Some x else None | Some y \<Rightarrow> Some y)"
  by (induction xs) auto

lemma get_message_of_event:
  assumes "chat_ok c" and "e \<in> set (events c)"
  shows "\<exists>m. get_chat_message c (event_message e) = Some m"
  using assms find_in [of _ "messages c" "\<lambda>m. message_id m = event_message e"]
  by (auto simp: chat_ok_def get_chat_message_def)

text \<open>Emitting succeeds in a well-formed chat, keeps it well formed, and the key is then there.\<close>

lemma emit_cases:
  assumes "chat_ok c"
  obtains (again) e m where "e \<in> set (events c)" "event_slot e = (t, key)" "emit c t kind key body = Inr (c, m)"
  | (first) c' m where "(t, key) \<notin> event_slot ` set (events c)" "emit c t kind key body = Inr (c', m)"
    "messages c' = messages c @ [m]" "message_text m = body" "message_id m = next_message c"
    "next_message c' = next_message c + 1"
    "\<exists>e. events c' = events c @ [e] \<and> event_slot e = (t, key) \<and> event_message e = next_message c"
proof (cases "List.find (\<lambda>e. event_tournament e = t \<and> event_key e = key) (events c)")
  case (Some e)
  then have e: "e \<in> set (events c)" "event_slot e = (t, key)"
    using find_Some_iff_in [OF Some] by (simp_all add: event_slot_def)
  obtain m where "get_chat_message c (event_message e) = Some m" using get_message_of_event [OF assms e(1)] by blast
  then show ?thesis using again [OF e] Some by (simp add: emit_def Let_def)
next
  case None
  then have new: "(t, key) \<notin> event_slot ` set (events c)" by (auto simp: find_None_iff_in event_slot_def)
  let ?m = "\<lparr>message_id = next_message c, message_tournament = t, display_name = ''System'', message_text = body\<rparr>"
  let ?c = "c\<lparr>messages := messages c @ [?m], next_message := next_message c + 1,
    events := events c @ [\<lparr>event_tournament = t, event_key = key, event_type = kind, event_message = next_message c\<rparr>]\<rparr>"
  have fresh: "message_id x \<noteq> next_message c" if "x \<in> set (messages c)" for x using assms that by (auto simp: chat_ok_def)
  have "List.find (\<lambda>m. message_id m = next_message c) (xs @ [?m]) = Some ?m"
    if "\<forall>x \<in> set xs. message_id x \<noteq> next_message c" for xs
    using that by (induction xs) auto
  then have "emit c t kind key body = Inr (?c, ?m)"
    using None fresh by (simp add: emit_def create_chat_message_def get_chat_message_def)
  then show ?thesis using first [OF new] by (simp add: event_slot_def)
qed

lemma emit_ok:
  assumes "chat_ok c" and "emit c t kind key body = Inr (c', m)"
  shows "chat_ok c'" and "(t, key) \<in> event_slot ` set (events c')"
proof -
  have "chat_ok c' \<and> (t, key) \<in> event_slot ` set (events c')"
    using assms(1)
  proof (cases rule: emit_cases [of c t key kind body])
    case (again e m0)
    then have "c' = c" using assms(2) by simp
    then show ?thesis using assms(1) again by force
  next
    case (first c0 m0)
    then have c: "c' = c0" using assms(2) by simp
    obtain e where e: "events c0 = events c @ [e]" "event_slot e = (t, key)" "event_message e = next_message c"
      using first(7) by blast
    have "next_message c \<notin> message_id ` set (messages c)" "next_message c \<notin> event_message ` set (events c)"
      using assms(1) by (force simp: chat_ok_def)+
    then show ?thesis using assms(1) first(1,3,5,6) e unfolding c chat_ok_def by (auto intro: less_trans)
  qed
  then show "chat_ok c'" and "(t, key) \<in> event_slot ` set (events c')" by blast+
qed

text \<open>Emitting the same key again returns the message that is there.\<close>

lemma emit_known:
  assumes "List.find (\<lambda>e. event_tournament e = t \<and> event_key e = key) (events c) = Some e"
    and "get_chat_message c (event_message e) = Some m"
  shows "emit c t kind key body = Inr (c, m)"
  using assms by (simp add: emit_def Let_def)

lemma emit_again:
  assumes "chat_ok c" and "emit c t kind key body = Inr (c', m)"
  shows "emit c' t kind' key body' = Inr (c', m)"
proof -
  have old: "List.find (\<lambda>e. event_tournament e = t \<and> event_key e = key) (events c) = None" if "(t, key) \<notin> event_slot ` set (events c)"
    using that by (auto simp: find_None_iff_in event_slot_def)
  show ?thesis
    using assms(1)
  proof (cases rule: emit_cases [of c t key kind body])
    case (again e m0)
    then have c: "c' = c" "m0 = m" using assms(2) by simp_all
    obtain e' where e': "List.find (\<lambda>e. event_tournament e = t \<and> event_key e = key) (events c) = Some e'"
      using find_in [of e "events c" "\<lambda>e. event_tournament e = t \<and> event_key e = key"] again(1,2) by (auto simp: event_slot_def)
    obtain m' where m': "get_chat_message c (event_message e') = Some m'"
      using get_message_of_event [OF assms(1)] find_Some_iff_in [OF e'] by blast
    have "m' = m" using emit_known [OF e' m', of kind body] assms(2) c by simp
    then show ?thesis using emit_known [OF e' m'] c by simp
  next
    case (first c0 m0)
    then have c: "c' = c0" "m0 = m" using assms(2) by simp_all
    obtain e where e: "events c0 = events c @ [e]" "event_slot e = (t, key)" "event_message e = next_message c"
      using first(7) by blast
    have "List.find (\<lambda>m. message_id m = next_message c) (messages c) = None"
      using assms(1) by (force simp: find_None_iff_in chat_ok_def)
    then have "get_chat_message c0 (event_message e) = Some m0"
      using first(3,5) e(3) by (simp add: get_chat_message_def find_snoc)
    moreover have "List.find (\<lambda>e. event_tournament e = t \<and> event_key e = key) (events c0) = Some e"
      using old [OF first(1)] e by (simp add: find_snoc event_slot_def)
    ultimately show ?thesis using emit_known c by simp
  qed
qed

lemma delete_events_ok:
  assumes "chat_ok c"
  shows "chat_ok (delete_system_chat_events t keys c)"
    and "key \<in> set keys \<Longrightarrow> (t, key) \<notin> event_slot ` set (events (delete_system_chat_events t keys c))"
    and "e \<in> set (events c) \<Longrightarrow> event_tournament e \<noteq> t \<or> event_key e \<notin> set keys \<Longrightarrow>
      e \<in> set (events (delete_system_chat_events t keys c))"
proof -
  let ?gone = "map event_message (filter (\<lambda>e. event_tournament e = t \<and> event_key e \<in> set keys) (events c))"
  have inj: "inj_on event_message (set (events c))" using assms by (simp add: chat_ok_def distinct_map)
  show "chat_ok (delete_system_chat_events t keys c)"
    using assms unfolding chat_ok_def delete_system_chat_events_def Let_def by (force simp: distinct_map_filter)
  show "(t, key) \<notin> event_slot ` set (events (delete_system_chat_events t keys c))" if "key \<in> set keys"
    using that by (auto simp: delete_system_chat_events_def Let_def event_slot_def)
  assume e: "e \<in> set (events c)" "event_tournament e \<noteq> t \<or> event_key e \<notin> set keys"
  have "event_message e \<notin> set ?gone" using e inj by (auto dest: inj_onD)
  then show "e \<in> set (events (delete_system_chat_events t keys c))"
    using e(1) by (simp add: delete_system_chat_events_def Let_def)
qed

text \<open>A chat's life: announcements and deletions.\<close>

inductive chat_reachable :: "chat_log \<Rightarrow> bool" where
  empty: "chat_reachable \<lparr>messages = [], events = [], next_message = n\<rparr>"
| announced: "chat_reachable c \<Longrightarrow> emit c t kind key body = Inr (c', m) \<Longrightarrow> chat_reachable c'"
| deleted: "chat_reachable c \<Longrightarrow> chat_reachable (delete_system_chat_events t keys c)"

lemma chat_reachable_ok: "chat_reachable c \<Longrightarrow> chat_ok c"
proof (induction rule: chat_reachable.induct)
  case (empty n)
  show ?case by (simp add: chat_ok_def)
qed (auto intro: emit_ok(1) delete_events_ok(1))

text \<open>
  C19: In every chat made by announcements and deletions, announcing under a key succeeds, the
  key then has its one event, and announcing it again, with whatever text, returns the message
  already there and changes nothing.
\<close>
theorem announced_once:
  assumes "chat_reachable c"
  shows "\<exists>c' m. emit c t kind key body = Inr (c', m)
    \<and> length (filter (\<lambda>e. event_tournament e = t \<and> event_key e = key) (events c')) = 1
    \<and> emit c' t kind' key body' = Inr (c', m)"
proof -
  have ok: "chat_ok c" by (rule chat_reachable_ok [OF assms])
  obtain c' m where em: "emit c t kind key body = Inr (c', m)"
    using ok by (cases rule: emit_cases [of c t key kind body]) auto
  note ok' = emit_ok [OF ok em]
  have "length (filter (\<lambda>e. event_slot e = s) es) = 1" if "distinct (map event_slot es)" "s \<in> event_slot ` set es" for s es
    using that
  proof (induction es)
    case (Cons x xs)
    show ?case
    proof (cases "event_slot x = s")
      case True
      then have "s \<notin> event_slot ` set xs" using Cons.prems(1) by simp
      then have "filter (\<lambda>e. event_slot e = s) xs = []" by (auto simp: filter_empty_conv)
      then show ?thesis using True by simp
    next
      case False
      then show ?thesis using Cons by auto
    qed
  qed simp
  from this [OF _ ok'(2)] have "length (filter (\<lambda>e. event_slot e = (t, key)) (events c')) = 1"
    using ok'(1) by (simp add: chat_ok_def)
  then show ?thesis using em emit_again [OF ok em] by (auto simp: event_slot_def)
qed

lemma announced_once_witness:
  "\<exists>c' m. emit \<lparr>messages = [], events = [], next_message = 1\<rparr> 7 ''k'' ''game.3.finished'' ''a'' = Inr (c', m)
    \<and> length (filter (\<lambda>e. event_tournament e = 7 \<and> event_key e = ''game.3.finished'') (events c')) = 1
    \<and> emit c' 7 ''k'' ''game.3.finished'' ''b'' = Inr (c', m)"
  by (rule announced_once [OF chat_reachable.empty])

end
