(* ===== verification/Tournament_Store.thy ===== *)
theory Tournament_Store
  imports Model_Config System_Chat "HOL-Library.Stream" "HOL-Library.Product_Lexorder"
begin

text \<open>
  The tables of \<open>cope/db/repo.py\<close> that the scheduler reads and writes: tournaments, games,
  matches of a round, and the openings of a suite, with the operations on them.  A table is
  the list of its rows in the order of their keys; a query filters and sorts it the way its
  SQL text does; a violated uniqueness constraint raises \<open>IntegrityError\<close>.  References to
  other tables are taken to hold.  The numbers drawn from \<open>random\<close> are a stream.
\<close>

datatype game_status = Game_Pending | Game_Assigned | Game_Live | Game_Finished | Game_Abandoned

datatype game_outcome = White_Won | Black_Won | Game_Drawn

datatype tiebreak_kind = Extra_Pair | Armageddon

datatype match_status = Match_Pending | Match_Finished | Match_Bye

datatype tournament_status = Draft | Scheduled | Running | Paused | Finished | Aborted

record game_record =
  game_id :: int
  game_tournament :: int
  game_round :: int
  game_pair :: int
  white_engine :: int
  black_engine :: int
  game_match :: "int option"
  game_number :: int
  tiebreak :: "tiebreak_kind option"
  game_opening :: "int option"
  game_status :: game_status
  record_eligible :: bool
  game_result :: "game_outcome option"

record match_record =
  match_id :: int
  match_tournament :: int
  match_round :: int
  match_index :: int
  engine1 :: int
  engine2 :: "int option"
  match_status :: match_status
  winner_engine :: "int option"

record tournament_record =
  tour_id :: int
  tour_name :: string
  tour_config :: tournament_config
  tour_status :: tournament_status
  tour_started :: "string option"
  tour_finished :: "string option"

record opening_row =
  opening_id :: int
  opening_suite :: int
  opening_position :: int

record store =
  tournaments :: "tournament_record list"
  games :: "game_record list"
  matches :: "match_record list"
  openings :: "opening_row list"
  rated_games :: "int list"
  relay_tournaments :: "int list"
  odds_tournaments :: "int list"
  pinned_builds :: "(int \<times> int \<times> string) list"
  engine_builds :: "(int \<times> string) list"
  supported_builds :: "(string \<times> string) list"
  next_game :: int
  next_match :: int
  chat :: chat_log
  draws :: "nat stream"

subsection \<open>Tournaments\<close>

definition get_tournament :: "store \<Rightarrow> int \<Rightarrow> tournament_record option" where
  "get_tournament s t = List.find (\<lambda>r. tour_id r = t) (tournaments s)"

definition update_tournament :: "int \<Rightarrow> (tournament_record \<Rightarrow> tournament_record) \<Rightarrow> store \<Rightarrow> store" where
  "update_tournament t f s = s\<lparr>tournaments := map (\<lambda>r. if tour_id r = t then f r else r) (tournaments s)\<rparr>"

subsection \<open>Games\<close>

text \<open>The columns of the uniqueness constraint of the table.\<close>

definition game_key :: "game_record \<Rightarrow> int \<times> int \<times> int \<times> int \<times> int" where
  "game_key g = (game_tournament g, game_round g, game_pair g, white_engine g, black_engine g)"

definition create_game :: "store \<Rightarrow> int \<Rightarrow> int \<Rightarrow> int \<Rightarrow> int \<Rightarrow> int \<Rightarrow> int option \<Rightarrow> int
    \<Rightarrow> tiebreak_kind option \<Rightarrow> int option \<Rightarrow> (store \<times> int) result" where
  "create_game s t rnd pair white black match number kind opening = (let
     g = \<lparr>game_id = next_game s, game_tournament = t, game_round = rnd, game_pair = pair,
       white_engine = white, black_engine = black, game_match = match, game_number = number,
       tiebreak = kind, game_opening = opening, game_status = Game_Pending, record_eligible = True,
       game_result = None\<rparr>
   in if game_key g \<in> game_key ` set (games s) then Inl IntegrityError
      else Inr (s\<lparr>games := games s @ [g], next_game := next_game s + 1\<rparr>, next_game s))"

definition list_games :: "store \<Rightarrow> int \<Rightarrow> game_record list" where
  "list_games s t = sort_key (\<lambda>g. (game_round g, game_pair g, game_id g))
     (filter (\<lambda>g. game_tournament g = t) (games s))"

record game_removal =
  removed_ids :: "int list"
  removed_pending :: nat
  removed_assigned :: nat
  removed_live :: nat
  removed_finished :: nat
  removed_abandoned :: nat

definition plays :: "int \<Rightarrow> game_record \<Rightarrow> bool" where
  "plays engine_id g = (white_engine g = engine_id \<or> black_engine g = engine_id)"

definition ensure_not_committed :: "store \<Rightarrow> int list \<Rightarrow> unit result" where
  "ensure_not_committed s ids = guard (list_all (\<lambda>i. i \<notin> set (rated_games s)) ids)
     (ValueError ''game results are already part of a rating list'')"

definition removal_of :: "game_record list \<Rightarrow> game_removal" where
  "removal_of rows = (let counted = (\<lambda>st. length (filter (\<lambda>g. game_status g = st) rows)) in
     \<lparr>removed_ids = sort (map game_id rows), removed_pending = counted Game_Pending,
       removed_assigned = counted Game_Assigned, removed_live = counted Game_Live,
       removed_finished = counted Game_Finished, removed_abandoned = counted Game_Abandoned\<rparr>)"

definition invalidate_participant_games :: "store \<Rightarrow> int \<Rightarrow> int \<Rightarrow> (store \<times> game_removal) result" where
  "invalidate_participant_games s t engine_id = (let
     rows = filter (\<lambda>g. game_tournament g = t \<and> plays engine_id g) (games s);
     game_ids = sort (map game_id rows)
   in if game_ids = [] then Inr (s, removal_of rows)
      else rbind (ensure_not_committed s game_ids) (\<lambda>_.
        Inr (s\<lparr>games := filter (\<lambda>g. game_id g \<notin> set game_ids) (games s),
          chat := delete_system_chat_events t (map game_finished_key game_ids @ [''tournament.finished'']) (chat s)\<rparr>,
          removal_of rows)))"

subsection \<open>Matches\<close>

definition match_key :: "match_record \<Rightarrow> int \<times> int \<times> int" where
  "match_key m = (match_tournament m, match_round m, match_index m)"

definition create_tournament_match :: "store \<Rightarrow> int \<Rightarrow> int \<Rightarrow> int \<Rightarrow> int \<Rightarrow> int option
    \<Rightarrow> match_status \<Rightarrow> int option \<Rightarrow> (store \<times> int) result" where
  "create_tournament_match s t rnd index first second status winner = (let
     m = \<lparr>match_id = next_match s, match_tournament = t, match_round = rnd, match_index = index,
       engine1 = first, engine2 = second, match_status = status, winner_engine = winner\<rparr>
   in if match_key m \<in> match_key ` set (matches s) then Inl IntegrityError
      else Inr (s\<lparr>matches := matches s @ [m], next_match := next_match s + 1\<rparr>, next_match s))"

definition list_tournament_matches :: "store \<Rightarrow> int \<Rightarrow> int option \<Rightarrow> match_record list" where
  "list_tournament_matches s t rnd = sort_key (\<lambda>m. (match_round m, match_index m, match_id m))
     (filter (\<lambda>m. match_tournament m = t \<and> (case rnd of None \<Rightarrow> True | Some r \<Rightarrow> match_round m = r)) (matches s))"

definition finish_tournament_match :: "int \<Rightarrow> int option \<Rightarrow> store \<Rightarrow> store" where
  "finish_tournament_match i winner s = s\<lparr>matches := map (\<lambda>m.
     if match_id m = i \<and> match_status m = Match_Pending
     then m\<lparr>match_status := Match_Finished, winner_engine := winner\<rparr> else m) (matches s)\<rparr>"

subsection \<open>Openings\<close>

definition list_suite_opening_ids :: "store \<Rightarrow> int \<Rightarrow> nat \<Rightarrow> int \<Rightarrow> int list" where
  "list_suite_opening_ids s suite limit start = (let
     suite_rows = sort_key opening_position (filter (\<lambda>r. opening_suite r = suite) (openings s));
     first = take limit (filter (\<lambda>r. start \<le> opening_position r) suite_rows);
     rest = take (limit - length first) (filter (\<lambda>r. opening_position r < start) suite_rows)
   in map opening_id (first @ rest))"

text \<open>\<open>random.randint(1, maximum)\<close> consumes a draw.\<close>

definition randint :: "store \<Rightarrow> int \<Rightarrow> store \<times> int" where
  "randint s maximum = (s\<lparr>draws := stl (draws s)\<rparr>, 1 + int (shd (draws s)) mod maximum)"

definition opening_ids :: "store \<Rightarrow> tournament_record \<Rightarrow> nat \<Rightarrow> store \<times> int list" where
  "opening_ids s t limit = (case opening_suite_id (tour_config t) of
     None \<Rightarrow> (s, [])
   | Some suite \<Rightarrow> if limit = 0 then (s, [])
     else let
       positions = map opening_position (filter (\<lambda>r. opening_suite r = suite) (openings s));
       maximum = (if positions = [] then 0 else Max (set positions))
     in if maximum \<le> 0 then (s, [])
        else let (s', start) = randint s maximum
        in (s', list_suite_opening_ids s' suite (min limit (nat maximum)) start))"

subsection \<open>The tables stay well formed\<close>

definition games_ok :: "store \<Rightarrow> bool" where
  "games_ok s = (distinct (map game_id (games s)) \<and> distinct (map game_key (games s))
     \<and> (\<forall>g \<in> set (games s). game_id g < next_game s \<and> optional (\<lambda>m. m < next_match s) (game_match g)))"

definition matches_ok :: "store \<Rightarrow> bool" where
  "matches_ok s = (distinct (map match_id (matches s)) \<and> distinct (map match_key (matches s))
     \<and> (\<forall>m \<in> set (matches s). match_id m < next_match s))"

definition store_ok :: "store \<Rightarrow> bool" where
  "store_ok s = (games_ok s \<and> matches_ok s)"

definition of_tournament :: "int \<Rightarrow> game_record list \<Rightarrow> game_record list" where
  "of_tournament t gs = filter (\<lambda>g. game_tournament g = t) gs"

lemma mset_list_games [simp]: "mset (list_games s t) = mset (of_tournament t (games s))"
  by (simp add: list_games_def of_tournament_def)

lemma set_list_games [simp]: "set (list_games s t) = {g \<in> set (games s). game_tournament g = t}"
  by (simp add: list_games_def)

lemma list_games_Nil [simp]: "list_games s t = [] \<longleftrightarrow> of_tournament t (games s) = []"
  by (metis mset_list_games mset_zero_iff)

lemma set_list_matches [simp]:
  "set (list_tournament_matches s t rnd)
    = {m \<in> set (matches s). match_tournament m = t \<and> (case rnd of None \<Rightarrow> True | Some r \<Rightarrow> match_round m = r)}"
  by (simp add: list_tournament_matches_def)

lemma distinct_map_snoc_key:
  "distinct (map f (xs @ [x])) \<longleftrightarrow> distinct (map f xs) \<and> f x \<notin> f ` set xs"
  by auto

lemma create_game_Inr:
  "create_game s t rnd pair white black m number kind opening = Inr (s', i) \<longleftrightarrow>
     (t, rnd, pair, white, black) \<notin> game_key ` set (games s) \<and> i = next_game s
     \<and> s' = s\<lparr>games := games s @ [\<lparr>game_id = i, game_tournament = t, game_round = rnd, game_pair = pair,
         white_engine = white, black_engine = black, game_match = m, game_number = number,
         tiebreak = kind, game_opening = opening, game_status = Game_Pending, record_eligible = True,
         game_result = None\<rparr>], next_game := i + 1\<rparr>"
  by (auto simp: create_game_def Let_def game_key_def)

lemma create_game_ok:
  assumes "games_ok s" and "optional (\<lambda>i. i < next_match s) m"
    and "create_game s t rnd pair white black m number kind opening = Inr (s', i)"
  shows "games_ok s'"
proof -
  have "next_game s \<notin> game_id ` set (games s)" using assms(1) by (auto simp: games_ok_def)
  then show ?thesis
    using assms unfolding create_game_Inr games_ok_def
    by (auto simp: game_key_def intro: less_trans)
qed

lemma create_match_Inr:
  "create_tournament_match s t rnd index first second status winner = Inr (s', i) \<longleftrightarrow>
     (t, rnd, index) \<notin> match_key ` set (matches s) \<and> i = next_match s
     \<and> s' = s\<lparr>matches := matches s @ [\<lparr>match_id = i, match_tournament = t, match_round = rnd,
         match_index = index, engine1 = first, engine2 = second, match_status = status,
         winner_engine = winner\<rparr>], next_match := i + 1\<rparr>"
  by (auto simp: create_tournament_match_def Let_def match_key_def)

lemma optional_mono: "optional P v \<Longrightarrow> (\<And>x. P x \<Longrightarrow> Q x) \<Longrightarrow> optional Q v"
  by (cases v) auto

lemma create_match_ok:
  assumes "store_ok s"
    and "create_tournament_match s t rnd index first second status winner = Inr (s', i)"
  shows "store_ok s'"
proof -
  have "next_match s \<notin> match_id ` set (matches s)" using assms(1) by (auto simp: store_ok_def matches_ok_def)
  moreover have "optional (\<lambda>m. m < next_match s + 1) (game_match g)" if "g \<in> set (games s)" for g
    using assms(1) that by (auto simp: store_ok_def games_ok_def elim!: optional_mono)
  ultimately show ?thesis
    using assms unfolding create_match_Inr store_ok_def games_ok_def matches_ok_def
    by (auto simp: match_key_def intro: less_trans)
qed

lemma finish_match_facts [simp]:
  "games (finish_tournament_match i w s) = games s"
  "next_game (finish_tournament_match i w s) = next_game s"
  "next_match (finish_tournament_match i w s) = next_match s"
  "draws (finish_tournament_match i w s) = draws s"
  "openings (finish_tournament_match i w s) = openings s"
  "tournaments (finish_tournament_match i w s) = tournaments s"
  "chat (finish_tournament_match i w s) = chat s"
  "map match_id (matches (finish_tournament_match i w s)) = map match_id (matches s)"
  "map match_key (matches (finish_tournament_match i w s)) = map match_key (matches s)"
  by (simp_all add: finish_tournament_match_def match_key_def)

lemma finish_match_ok: "store_ok s \<Longrightarrow> store_ok (finish_tournament_match i w s)"
proof -
  assume ok: "store_ok s"
  have "set (map match_id (matches (finish_tournament_match i w s))) = set (map match_id (matches s))" by simp
  then have "\<forall>m \<in> set (matches (finish_tournament_match i w s)). match_id m < next_match s"
    using ok unfolding store_ok_def matches_ok_def set_map by force
  then show ?thesis using ok unfolding store_ok_def games_ok_def matches_ok_def by simp
qed

lemma opening_ids_store:
  assumes "opening_ids s t limit = (s', ids)"
  obtains d where "s' = s\<lparr>draws := d\<rparr>"
proof -
  have same: "\<exists>d. x = x\<lparr>draws := d\<rparr>" for x :: store
    by (rule exI [of _ "draws x"]) simp
  have "\<exists>d. s' = s\<lparr>draws := d\<rparr>"
    using assms same by (auto simp: opening_ids_def randint_def Let_def split: option.splits if_splits)
  then show thesis using that by blast
qed

lemma rbind_const_Inr: "rbind x (\<lambda>_. Inr (a, b)) = Inr (a', b') \<Longrightarrow> a' = a"
  by (cases x) auto

lemma invalidate_facts:
  assumes "invalidate_participant_games s t e = Inr (s', r)" and "games_ok s"
  shows "games s' = filter (\<lambda>g. \<not> (game_tournament g = t \<and> plays e g)) (games s)"
    and "tournaments s' = tournaments s" and "next_game s' = next_game s" and "next_match s' = next_match s"
proof -
  let ?rows = "filter (\<lambda>g. game_tournament g = t \<and> plays e g) (games s)"
  have "inj_on game_id (set (games s))" using assms(2) by (simp add: games_ok_def distinct_map)
  then have keep: "filter (\<lambda>g. game_id g \<notin> game_id ` set ?rows) (games s)
      = filter (\<lambda>g. \<not> (game_tournament g = t \<and> plays e g)) (games s)"
    by (intro filter_cong refl) (auto dest: inj_onD)
  have "\<exists>c. s' = s\<lparr>games := filter (\<lambda>g. \<not> (game_tournament g = t \<and> plays e g)) (games s), chat := c\<rparr>"
  proof (cases "?rows = []")
    case True
    then have "filter (\<lambda>g. \<not> (game_tournament g = t \<and> plays e g)) (games s) = games s"
      by (auto simp: filter_empty_conv intro: filter_True)
    moreover have "s' = s" using assms(1) True by (simp add: invalidate_participant_games_def Let_def)
    ultimately show ?thesis by (intro exI [of _ "chat s"]) simp
  next
    case False
    have ids: "set (sort (map game_id ?rows)) = game_id ` set ?rows" by simp
    have "length (sort (map game_id ?rows)) = length ?rows" by (simp only: length_sort length_map)
    then have ne: "sort (map game_id ?rows) \<noteq> []" using False by fastforce
    have "s' = s\<lparr>games := filter (\<lambda>g. game_id g \<notin> set (sort (map game_id ?rows))) (games s),
        chat := delete_system_chat_events t (map game_finished_key (sort (map game_id ?rows)) @ [''tournament.finished'']) (chat s)\<rparr>"
      by (rule rbind_const_Inr [OF assms(1) [unfolded invalidate_participant_games_def Let_def if_not_P [OF ne]]])
    then show ?thesis unfolding ids keep by blast
  qed
  then show "games s' = filter (\<lambda>g. \<not> (game_tournament g = t \<and> plays e g)) (games s)"
    and "tournaments s' = tournaments s" and "next_game s' = next_game s" and "next_match s' = next_match s"
    by auto
qed

end
