(* ===== verification/Pairings.thy ===== *)
theory Pairings
  imports Prelude Complex_Main "HOL-Library.Product_Lexorder"
begin

text \<open>
  The pairing algorithms of \<open>cope/runner/scheduler.py\<close>: the circle method of a round robin, the
  seed order of a bracket, and the backtracking search of a Swiss round.  They are pure, and
  the theorems are about all the games a tournament gets out of them.
\<close>

subsection \<open>Round robin\<close>

definition circle_pair :: "nat \<Rightarrow> 'a option list \<Rightarrow> nat \<Rightarrow> ('a \<times> 'a) list" where
  "circle_pair round_index players pair_index =
     (case (players ! pair_index, players ! (length players - 1 - pair_index)) of
        (Some a, Some b) \<Rightarrow> [if (round_index + pair_index) mod 2 = 0 then (a, b) else (b, a)]
      | _ \<Rightarrow> [])"

definition circle_round :: "nat \<Rightarrow> 'a option list \<Rightarrow> ('a \<times> 'a) list" where
  "circle_round round_index players =
     concat (map (circle_pair round_index players) [0..<length players div 2])"

definition circle_turn :: "'a option list \<Rightarrow> 'a option list" where
  "circle_turn players = hd players # last players # butlast (tl players)"

fun circle_rounds :: "nat \<Rightarrow> nat \<Rightarrow> 'a option list \<Rightarrow> ('a \<times> 'a) list list" where
  "circle_rounds round_index 0 players = []"
| "circle_rounds round_index (Suc n) players =
     circle_round round_index players # circle_rounds (Suc round_index) n (circle_turn players)"

definition circle_players :: "'a list \<Rightarrow> 'a option list" where
  "circle_players participants =
     map Some participants @ (if length participants mod 2 = 1 then [None] else [])"

definition round_robin_pairings :: "'a list \<Rightarrow> ('a \<times> 'a) list list" where
  "round_robin_pairings participants = (if length participants < 2 then []
     else (let players = circle_players participants in circle_rounds 0 (length players - 1) players))"

text \<open>The seats after \<open>r\<close> turns: the first stays, the others are rotated.\<close>

definition seats :: "'a option list \<Rightarrow> nat \<Rightarrow> 'a option list" where
  "seats players r = hd players # rotate (r * (length players - 2)) (tl players)"

lemma last_butlast_rotate: "xs \<noteq> [] \<Longrightarrow> last xs # butlast xs = rotate (length xs - 1) xs"
proof -
  assume "xs \<noteq> []"
  then have "rotate (length (butlast xs)) (butlast xs @ [last xs]) = [last xs] @ butlast xs"
    by (rule_tac rotate_append)
  then show ?thesis using \<open>xs \<noteq> []\<close> by simp
qed

lemma circle_turn_seats:
  assumes "2 \<le> length players"
  shows "circle_turn (seats players r) = seats players (Suc r)"
proof -
  let ?t = "tl players" and ?m = "length players - 2"
  have t: "?t \<noteq> []" "length ?t - 1 = ?m" using assms by (cases players; auto)+
  then have ne: "rotate (r * ?m) ?t \<noteq> []" by simp
  have "last (rotate (r * ?m) ?t) # butlast (rotate (r * ?m) ?t) = rotate (length ?t - 1) (rotate (r * ?m) ?t)"
    using last_butlast_rotate [OF ne] by simp
  also have "\<dots> = rotate (Suc r * ?m) ?t" unfolding t(2) rotate_rotate by simp
  finally show ?thesis using ne by (simp add: circle_turn_def seats_def)
qed

lemma circle_rounds_seats:
  assumes "2 \<le> length players"
  shows "circle_rounds r n (seats players r) = map (\<lambda>k. circle_round k (seats players k)) [r..<r + n]"
proof (induction n arbitrary: r)
  case 0
  then show ?case by simp
next
  case (Suc n)
  have "[r..<r + Suc n] = r # [Suc r..<Suc r + n]" by (simp add: upt_conv_Cons)
  then show ?case using Suc circle_turn_seats [OF assms, of r] by simp
qed

lemma seats_0: "players \<noteq> [] \<Longrightarrow> seats players 0 = players"
  by (simp add: seats_def)

lemma length_seats [simp]: "players \<noteq> [] \<Longrightarrow> length (seats players r) = length players"
  by (simp add: seats_def)

lemma set_seats [simp]: "players \<noteq> [] \<Longrightarrow> set (seats players r) = set players"
  by (cases players) (simp_all add: seats_def)

lemma distinct_seats: "players \<noteq> [] \<Longrightarrow> distinct players \<Longrightarrow> distinct (seats players r)"
  by (cases players) (simp_all add: seats_def)

text \<open>Where a seat number of round \<open>r\<close> is found in the first round.\<close>

lemma seats_nth:
  assumes "length players = Suc m" and "0 < i" and "i < Suc m" and "0 < m"
  shows "seats players r ! i = tl players ! ((r * (m - 1) + (i - 1)) mod m)"
proof -
  have t: "length (tl players) = m" using assms(1) by simp
  have d: "i = Suc (i - 1)" "i - 1 < m" "length players - 2 = m - 1" using assms by auto
  have "seats players r ! i = rotate (r * (m - 1)) (tl players) ! (i - 1)"
    by (subst d(1)) (simp add: seats_def d(3))
  then show ?thesis using nth_rotate [of "i - 1" "tl players"] t d(2) by simp
qed

definition meets :: "'a option list \<Rightarrow> nat \<Rightarrow> 'a option \<Rightarrow> 'a option \<Rightarrow> bool" where
  "meets ps h x y = (\<exists>k<h. (ps ! k = x \<and> ps ! (length ps - 1 - k) = y)
     \<or> (ps ! k = y \<and> ps ! (length ps - 1 - k) = x))"

lemma meetsI:
  assumes "length ps = 2 * h" and "i + j = length ps - 1" and "i < length ps" and "j < length ps"
  shows "meets ps h (ps ! i) (ps ! j)"
proof (cases "i < h")
  case True
  have "length ps - 1 - i = j" using assms by simp
  then show ?thesis using True by (auto simp: meets_def)
next
  case False
  then have "j < h" "length ps - 1 - j = i" using assms by auto
  then show ?thesis by (auto simp: meets_def)
qed

text \<open>An odd modulus: twice a number takes every value.\<close>

lemma odd_halving:
  fixes m c :: int
  assumes "odd m" and "0 < m"
  obtains r where "0 \<le> r" and "r < m" and "(2 * r) mod m = c mod m"
proof -
  have "even (m + 1)" using assms(1) by simp
  then obtain h where h: "m + 1 = 2 * h" by blast
  let ?r = "(h * c) mod m"
  have "(2 * ?r) mod m = (2 * h * c) mod m"
    by (metis (no_types, opaque_lifting) mod_mult_right_eq mult.assoc)
  also have "2 * h * c = c + m * c" unfolding h [symmetric] by (simp add: algebra_simps)
  also have "(c + m * c) mod m = c mod m" by simp
  finally show thesis using that [of ?r] assms(2) by simp
qed

text \<open>The seat in round \<open>r\<close> of the player who sat at \<open>a\<close> of the tail.\<close>

lemma seat_of:
  assumes "length players = Suc m" and "0 < m" and "a < m"
  obtains j where "j < m" and "seats players r ! (j + 1) = tl players ! a"
    and "int j mod int m = (int a + int r) mod int m"
proof -
  let ?j = "(a + r) mod m"
  have j: "?j < m" using assms(2) by simp
  have m1: "int (m - 1) = int m - 1" using assms(2) by simp
  have "int ((r * (m - 1) + ?j) mod m) = (int r * (int m - 1) + (int a + int r)) mod int m"
    unfolding zmod_int of_nat_add of_nat_mult m1 by (simp add: mod_simps)
  also have "int r * (int m - 1) + (int a + int r) = int a + int m * int r" by (simp add: algebra_simps)
  also have "(int a + int m * int r) mod int m = int a" using assms(3) by simp
  finally have "(r * (m - 1) + ?j) mod m = a" by (simp only: of_nat_eq_iff)
  then have "seats players r ! (?j + 1) = tl players ! a"
    using seats_nth [OF assms(1), of "?j + 1" r] j assms(2) by simp
  then show thesis using that [OF j] by (simp add: zmod_int)
qed

lemma tail_players_meet:
  assumes "length players = 2 * h" and "length players = Suc m" and "0 < m"
    and "a < m" and "b < m" and "a \<noteq> b"
  shows "\<exists>r<m. meets (seats players r) h (tl players ! a) (tl players ! b)"
proof -
  have "odd m" using assms(1,2) by presburger
  then have "odd (int m)" "0 < int m" using assms(3) by simp_all
  from odd_halving [OF this, of "- 2 - int a - int b"] obtain r where
    r: "0 \<le> r" "r < int m" "(2 * r) mod int m = (- 2 - int a - int b) mod int m" .
  define r' where "r' = nat r"
  have r': "int r' = r" "r' < m" using r by (auto simp: r'_def)
  obtain i where i: "i < m" "seats players r' ! (i + 1) = tl players ! a"
    "int i mod int m = (int a + int r') mod int m"
    by (rule seat_of [OF assms(2,3,4)])
  obtain j where j: "j < m" "seats players r' ! (j + 1) = tl players ! b"
    "int j mod int m = (int b + int r') mod int m"
    by (rule seat_of [OF assms(2,3,5)])
  have "(int i + int j) mod int m = (int a + int b + 2 * r) mod int m"
    using mod_add_cong [OF i(3) j(3)] r'(1) by (simp add: algebra_simps)
  also have "\<dots> = ((int a + int b) + (- 2 - int a - int b)) mod int m"
    using mod_add_cong [OF refl r(3), of "int a + int b"] by simp
  also have "\<dots> = (- 2) mod int m" by simp
  finally have "(int i + int j + 2) mod int m = 0"
    using mod_add_cong [of "int i + int j" "int m" "- 2" 2 2] by simp
  then have "int m dvd int i + int j + 2" by (simp only: mod_eq_0_iff_dvd)
  moreover have "int (i + j + 2) = int i + int j + 2" by simp
  ultimately have "int m dvd int (i + j + 2)" by (simp only:)
  then have "m dvd i + j + 2" by (simp only: of_nat_dvd_iff)
  then obtain q where q: "i + j + 2 = m * q" by blast
  have "i \<noteq> j"
  proof
    assume "i = j"
    then have "tl players ! a = tl players ! b \<and> (int a + int r') mod int m = (int b + int r') mod int m"
      using i j by simp
    then have "(int a + int r' - int r') mod int m = (int b + int r' - int r') mod int m"
      using mod_diff_cong [of "int a + int r'" "int m" "int b + int r'"] by blast
    then show False using assms(4-6) by simp
  qed
  then have "i + j + 2 < 2 * m" "0 < i + j + 2" using i(1) j(1) by auto
  then have "q < 2" "0 < q" unfolding q by auto
  then have "q = 1" by simp
  then have ij: "i + j + 2 = m" using q by simp
  have ne: "players \<noteq> []" using assms(2) by auto
  have "meets (seats players r') h (seats players r' ! (i + 1)) (seats players r' ! (j + 1))"
    by (rule meetsI) (use ij assms(1,2) i(1) j(1) ne in auto)
  then show ?thesis using i(2) j(2) r'(2) by auto
qed

lemma first_player_meets:
  assumes "length players = 2 * h" and "length players = Suc m" and "0 < m" and "a < m"
  shows "\<exists>r<m. meets (seats players r) h (hd players) (tl players ! a)"
proof -
  define r where "r = (m - 1) - a"
  have r: "r < m" "a + r = m - 1" using assms(3,4) by (auto simp: r_def)
  obtain j where j: "j < m" "seats players r ! (j + 1) = tl players ! a"
    "int j mod int m = (int a + int r) mod int m"
    by (rule seat_of [OF assms(2,3,4)])
  have "int a + int r = int (m - 1)" using r(2) by (simp only: flip: of_nat_add)
  then have "int (j mod m) = int ((m - 1) mod m)" using j(3) by (simp only: zmod_int)
  then have jm: "j = m - 1" using j(1) assms(3) by simp
  have ne: "players \<noteq> []" using assms(2) by auto
  have "meets (seats players r) h (seats players r ! 0) (seats players r ! m)"
    by (rule meetsI) (use assms(1,2) ne in auto)
  moreover have "seats players r ! 0 = hd players" by (simp add: seats_def)
  moreover have "seats players r ! m = tl players ! a" using j(2) jm assms(3) by simp
  ultimately show ?thesis using r(1) by auto
qed

text \<open>Any two players meet in some round.\<close>

lemma all_meet:
  assumes "length players = 2 * h" and "0 < h" and "x \<in> set players" and "y \<in> set players" and "x \<noteq> y"
  shows "\<exists>r<length players - 1. meets (seats players r) h x y"
proof -
  obtain m where m: "length players = Suc m" "0 < m"
    using that [of "length players - 1"] assms(1,2) by simp
  have sym: "meets ps h u v \<Longrightarrow> meets ps h v u" for ps and u v :: "'a option"
    by (auto simp: meets_def)
  have split: "z = hd players \<or> (\<exists>a<m. z = tl players ! a)" if "z \<in> set players" for z
    using that m by (cases players) (auto simp: in_set_conv_nth)
  from split [OF assms(3)] split [OF assms(4)] consider
      "x = hd players" "\<exists>b<m. y = tl players ! b"
    | "y = hd players" "\<exists>a<m. x = tl players ! a"
    | (tail) a b where "a < m" "b < m" "x = tl players ! a" "y = tl players ! b"
    using assms(5) by blast
  then show ?thesis
  proof cases
    case 1
    then show ?thesis using first_player_meets [OF assms(1) m] m(1) by auto
  next
    case 2
    then show ?thesis using first_player_meets [OF assms(1) m] m(1) sym by fastforce
  next
    case tail
    then have "a \<noteq> b" using assms(5) by blast
    then show ?thesis using tail_players_meet [OF assms(1) m tail(1,2)] tail(3,4) m(1) by auto
  qed
qed

subsection \<open>Every pair meets once\<close>

definition duel :: "'a list \<Rightarrow> nat \<Rightarrow> 'a set" where
  "duel ps k = {ps ! k, ps ! (length ps - 1 - k)}"

definition duels :: "'a option list \<Rightarrow> 'a option set list" where
  "duels players = concat (map (\<lambda>r. map (duel (seats players r)) [0..<length players div 2])
     [0..<length players - 1])"

lemma circle_pair_duel:
  "map (\<lambda>(a, b). {Some a, Some b}) (circle_pair r ps k) = filter (\<lambda>X. None \<notin> X) [duel ps k]"
  by (auto simp: circle_pair_def duel_def insert_commute split: option.splits)

lemma map_concat_filter:
  assumes "\<And>x. x \<in> set xs \<Longrightarrow> map f (g x) = filter P (k x)"
  shows "map f (concat (map g xs)) = filter P (concat (map k xs))"
  using assms by (induction xs) auto

lemma circle_round_duels:
  "map (\<lambda>(a, b). {Some a, Some b}) (circle_round r ps) =
    filter (\<lambda>X. None \<notin> X) (map (duel ps) [0..<length ps div 2])"
proof -
  have "map (\<lambda>(a, b). {Some a, Some b}) (circle_round r ps)
      = filter (\<lambda>X. None \<notin> X) (concat (map (\<lambda>k. [duel ps k]) [0..<length ps div 2]))"
    unfolding circle_round_def by (rule map_concat_filter) (rule circle_pair_duel)
  also have "concat (map (\<lambda>k. [duel ps k]) xs) = map (duel ps) xs" for xs by (induction xs) auto
  finally show ?thesis .
qed

lemma all_duels:
  assumes "2 \<le> length participants"
  shows "map (\<lambda>(a, b). {Some a, Some b}) (concat (round_robin_pairings participants))
    = filter (\<lambda>X. None \<notin> X) (duels (circle_players participants))"
proof -
  let ?ps = "circle_players participants"
  have len: "2 \<le> length ?ps" using assms by (simp add: circle_players_def)
  then have ne: "?ps \<noteq> []" by auto
  have "round_robin_pairings participants
      = map (\<lambda>r. circle_round r (seats ?ps r)) [0..<0 + (length ?ps - 1)]"
    using assms circle_rounds_seats [OF len, of 0 "length ?ps - 1"] seats_0 [OF ne]
    by (simp add: round_robin_pairings_def Let_def)
  then show ?thesis
    unfolding duels_def by (simp add: map_concat_filter circle_round_duels length_seats [OF ne])
qed

lemma duels_exact:
  assumes "length players = 2 * h" and "0 < h" and "distinct players"
  shows "distinct (duels players)"
    and "set (duels players) = {X. X \<subseteq> set players \<and> card X = 2}"
proof -
  let ?T = "{X. X \<subseteq> set players \<and> card X = 2}"
  have ne: "players \<noteq> []" using assms by auto
  have hd: "length players div 2 = h" using assms(1) by simp
  have sub: "?T \<subseteq> set (duels players)"
  proof
    fix X assume "X \<in> ?T"
    then have X: "X \<subseteq> set players" "card X = 2" by simp_all
    then obtain x y where xy: "X = {x, y}" "x \<noteq> y" by (auto simp: card_2_iff)
    obtain r where r: "r < length players - 1" "meets (seats players r) h x y"
      using all_meet [OF assms(1,2), of x y] X(1) xy by auto
    then obtain k where "k < h" "X = duel (seats players r) k"
      using xy(1) by (auto simp: meets_def duel_def)
    then have "X \<in> set (map (duel (seats players r)) [0..<length players div 2])" using hd by auto
    then show "X \<in> set (duels players)" using r(1) by (force simp: duels_def)
  qed
  have sup: "set (duels players) \<subseteq> ?T"
  proof
    fix X assume "X \<in> set (duels players)"
    then obtain r k where rk: "k < h" "X = duel (seats players r) k"
      using hd by (auto simp: duels_def)
    let ?i = k and ?j = "length players - 1 - k"
    have ij: "?i < length players" "?j < length players" "?i \<noteq> ?j" using rk(1) assms(1) by auto
    have X: "X = {seats players r ! ?i, seats players r ! ?j}"
      using rk(2) by (simp add: duel_def length_seats [OF ne])
    have "seats players r ! ?i \<noteq> seats players r ! ?j"
      using distinct_seats [OF ne assms(3), of r] ij length_seats [OF ne, of r]
      by (simp only: nth_eq_iff_index_eq) simp
    moreover have "seats players r ! ?i \<in> set players" "seats players r ! ?j \<in> set players"
      using ij length_seats [OF ne, of r] set_seats [OF ne, of r] nth_mem by metis+
    ultimately show "X \<in> ?T" using X by simp
  qed
  show eq: "set (duels players) = ?T" using sub sup by blast
  have "length (duels players) = (2 * h - 1) * h"
    using assms(1) hd by (simp add: duels_def length_concat o_def sum_list_triv)
  moreover have "card ?T = (2 * h) choose 2"
    using n_subsets [of "set players" 2] assms(1,3) distinct_card by fastforce
  moreover have "(2 * h) choose 2 = (2 * h - 1) * h"
    by (simp add: choose_two algebra_simps)
  ultimately have "card (set (duels players)) = length (duels players)" unfolding eq by simp
  then show "distinct (duels players)" by (rule card_distinct)
qed

lemma circle_players_facts:
  assumes "distinct participants" and "2 \<le> length participants"
  obtains h where "length (circle_players participants) = 2 * h" and "0 < h"
    and "distinct (circle_players participants)"
proof -
  have "even (length (circle_players participants))"
    by (simp add: circle_players_def) presburger
  then obtain h where h: "length (circle_players participants) = 2 * h" by blast
  moreover have "0 < h" using h assms(2) by (auto simp: circle_players_def split: if_splits)
  moreover have "distinct (circle_players participants)"
    using assms(1) by (auto simp: circle_players_def distinct_map)
  ultimately show thesis by (rule that)
qed

lemma round_robin_duels:
  assumes "distinct participants"
  shows "distinct (map (\<lambda>(a, b). {a, b}) (concat (round_robin_pairings participants)))"
    and "set (map (\<lambda>(a, b). {a, b}) (concat (round_robin_pairings participants)))
      = {X. X \<subseteq> set participants \<and> card X = 2}"
proof -
  let ?L = "concat (round_robin_pairings participants)"
  let ?S = "map (\<lambda>(a, b). {a, b}) ?L" and ?T = "map (\<lambda>(a, b). {Some a, Some b}) ?L"
  have T: "?T = map ((`) Some) ?S" by (simp add: case_prod_beta)
  have "distinct ?T \<and> set ?T = {X. X \<subseteq> Some ` set participants \<and> card X = 2}"
  proof (cases "2 \<le> length participants")
    case True
    obtain h where h: "length (circle_players participants) = 2 * h" "0 < h" "distinct (circle_players participants)"
      by (rule circle_players_facts [OF assms True])
    have all: "?T = filter (\<lambda>X. None \<notin> X) (duels (circle_players participants))"
      by (rule all_duels [OF True])
    have sub: "X \<subseteq> set (circle_players participants) \<and> None \<notin> X \<longleftrightarrow> X \<subseteq> Some ` set participants" for X
      by (auto simp: circle_players_def split: if_splits)
    have "set ?T = {X. X \<subseteq> set (circle_players participants) \<and> None \<notin> X \<and> card X = 2}"
      unfolding all using duels_exact(2) [OF h] by auto
    also have "\<dots> = {X. X \<subseteq> Some ` set participants \<and> card X = 2}"
      by (rule Collect_cong) (simp only: conj_assoc [symmetric] sub)
    finally have "set ?T = {X. X \<subseteq> Some ` set participants \<and> card X = 2}" .
    moreover have "distinct ?T" unfolding all using duels_exact(1) [OF h] by simp
    ultimately show ?thesis by (rule_tac conjI)
  next
    case False
    then have "length participants < 2" by simp
    then have "card (Some ` set participants) < 2" using card_length [of "map Some participants"] by auto
    then have "\<not> (X \<subseteq> Some ` set participants \<and> card X = 2)" for X
      using card_mono [of "Some ` set participants" X] by auto
    then show ?thesis using False by (auto simp: round_robin_pairings_def)
  qed
  then have d: "distinct ?T" and st: "set ?T = {X. X \<subseteq> Some ` set participants \<and> card X = 2}" by blast+
  show "distinct ?S" using d unfolding T by (metis distinct_map)
  have card: "card (Some ` X) = card X" for X :: "'a set" by (rule card_image) simp
  have inj: "inj ((`) (Some :: 'a \<Rightarrow> 'a option))"
    by (rule injI) (simp add: inj_image_eq_iff)
  have mem: "X \<in> set xs \<longleftrightarrow> Some ` X \<in> set (map ((`) Some) xs)" for X :: "'a set" and xs
    using inj_image_mem_iff [of "(`) Some" X "set xs"] inj by simp
  show "set ?S = {X. X \<subseteq> set participants \<and> card X = 2}"
  proof (rule set_eqI)
    fix X
    have "X \<in> set ?S \<longleftrightarrow> Some ` X \<in> set ?T" unfolding T by (rule mem)
    also have "\<dots> \<longleftrightarrow> Some ` X \<subseteq> Some ` set participants \<and> card (Some ` X) = 2" unfolding st by simp
    also have "\<dots> \<longleftrightarrow> X \<in> {X. X \<subseteq> set participants \<and> card X = 2}"
      unfolding card by (simp add: inj_image_subset_iff)
    finally show "X \<in> set ?S \<longleftrightarrow> X \<in> {X. X \<subseteq> set participants \<and> card X = 2}" .
  qed
qed

text \<open>
  C10: In a round robin of distinct participants every two of them are paired exactly once in a
  cycle, and nobody is paired with anybody else: the unordered pairs of all rounds are, without
  repetition, the two-element sets of participants.
\<close>
theorem round_robin_once:
  assumes "distinct participants"
  shows "distinct (map (\<lambda>(a, b). {a, b}) (concat (round_robin_pairings participants)))
    \<and> set (map (\<lambda>(a, b). {a, b}) (concat (round_robin_pairings participants)))
      = {X. X \<subseteq> set participants \<and> card X = 2}"
  using round_robin_duels [OF assms] by simp

lemma round_robin_once_witness:
  "distinct (map (\<lambda>(a, b). {a, b}) (concat (round_robin_pairings [1, 2, 3, 4, 5 :: nat])))"
  using round_robin_once [of "[1, 2, 3, 4, 5 :: nat]"] by simp

end
