(* ===== verification/Scheduler_Games.thy ===== *)
theory Scheduler_Games
  imports Tournament_Store Pairings
begin

text \<open>
  The games that \<open>cope/runner/scheduler.py\<close> schedules for a round robin and a gauntlet.  The
  nested loops of the code fix the arguments of the games before any is created, so they are
  lists of planned games, created one after the other.
\<close>

record planned_game =
  plan_round :: int
  plan_pair :: int
  plan_white :: int
  plan_black :: int
  plan_match :: "int option"
  plan_number :: int
  plan_tiebreak :: "tiebreak_kind option"
  plan_offset :: nat

definition create_scheduled_game :: "tournament_record \<Rightarrow> int list \<Rightarrow> store \<Rightarrow> planned_game \<Rightarrow> (store \<times> int) result" where
  "create_scheduled_game t ids s p = (let
     opening = (if ids \<noteq> [] then Some (ids ! (plan_offset p mod length ids)) else None)
   in create_game s (tour_id t) (plan_round p) (plan_pair p) (plan_white p) (plan_black p)
        (plan_match p) (plan_number p) (plan_tiebreak p) opening)"

definition create_games :: "tournament_record \<Rightarrow> int list \<Rightarrow> store \<Rightarrow> planned_game list \<Rightarrow> store result" where
  "create_games t ids s plans = fold_result (\<lambda>s p. rbind (create_scheduled_game t ids s p) (\<lambda>(s', i). Inr s')) s plans"

subsection \<open>What a list of planned games becomes\<close>

definition plan_key :: "planned_game \<Rightarrow> int \<times> int \<times> int \<times> int" where
  "plan_key p = (plan_round p, plan_pair p, plan_white p, plan_black p)"

definition planned_row :: "tournament_record \<Rightarrow> int list \<Rightarrow> int \<Rightarrow> planned_game \<Rightarrow> game_record" where
  "planned_row t ids i p = \<lparr>game_id = i, game_tournament = tour_id t, game_round = plan_round p,
     game_pair = plan_pair p, white_engine = plan_white p, black_engine = plan_black p,
     game_match = plan_match p, game_number = plan_number p, tiebreak = plan_tiebreak p,
     game_opening = (if ids \<noteq> [] then Some (ids ! (plan_offset p mod length ids)) else None),
     game_status = Game_Pending, record_eligible = True, game_result = None\<rparr>"

fun planned_rows :: "tournament_record \<Rightarrow> int list \<Rightarrow> int \<Rightarrow> planned_game list \<Rightarrow> game_record list" where
  "planned_rows t ids i [] = []"
| "planned_rows t ids i (p # ps) = planned_row t ids i p # planned_rows t ids (i + 1) ps"

definition colours :: "game_record \<Rightarrow> int \<times> int" where
  "colours g = (white_engine g, black_engine g)"

definition plan_colours :: "planned_game \<Rightarrow> int \<times> int" where
  "plan_colours p = (plan_white p, plan_black p)"

lemma planned_row_simps [simp]:
  "game_tournament (planned_row t ids i p) = tour_id t" "game_round (planned_row t ids i p) = plan_round p"
  "game_pair (planned_row t ids i p) = plan_pair p" "game_match (planned_row t ids i p) = plan_match p"
  "game_status (planned_row t ids i p) = Game_Pending" "game_result (planned_row t ids i p) = None"
  "game_id (planned_row t ids i p) = i" "white_engine (planned_row t ids i p) = plan_white p"
  "black_engine (planned_row t ids i p) = plan_black p" "game_number (planned_row t ids i p) = plan_number p"
  "tiebreak (planned_row t ids i p) = plan_tiebreak p"
  by (simp_all add: planned_row_def)

lemma planned_rows_maps [simp]:
  "length (planned_rows t ids i ps) = length ps"
  "map colours (planned_rows t ids i ps) = map plan_colours ps"
  "map game_round (planned_rows t ids i ps) = map plan_round ps"
  "map game_match (planned_rows t ids i ps) = map plan_match ps"
  "map game_pair (planned_rows t ids i ps) = map plan_pair ps"
  by (induction ps arbitrary: i) (simp_all add: colours_def plan_colours_def)

lemma planned_rows_all:
  assumes "g \<in> set (planned_rows t ids i ps)"
  shows "game_tournament g = tour_id t" and "game_status g = Game_Pending" and "game_result g = None"
    and "i \<le> game_id g" and "\<exists>p \<in> set ps. g = planned_row t ids (game_id g) p"
  using assms by (induction ps arbitrary: i) fastforce+

lemma create_scheduled_game_row:
  assumes "(tour_id t, plan_key p) \<notin> game_key ` set (games s)"
  shows "create_scheduled_game t ids s p
    = Inr (s\<lparr>games := games s @ [planned_row t ids (next_game s) p], next_game := next_game s + 1\<rparr>, next_game s)"
  using assms by (simp add: create_scheduled_game_def Let_def plan_key_def create_game_Inr planned_row_def)

lemma game_key_planned_row [simp]: "game_key (planned_row t ids i p) = (tour_id t, plan_key p)"
  by (simp add: game_key_def plan_key_def planned_row_def)

lemma create_games_rows:
  assumes "distinct (map plan_key ps)"
    and "\<And>p. p \<in> set ps \<Longrightarrow> (tour_id t, plan_key p) \<notin> game_key ` set (games s)"
  shows "create_games t ids s ps = Inr (s\<lparr>games := games s @ planned_rows t ids (next_game s) ps,
    next_game := next_game s + int (length ps)\<rparr>)"
  using assms
proof (induction ps arbitrary: s)
  case Nil
  then show ?case by (simp add: create_games_def)
next
  case (Cons p ps)
  let ?s = "s\<lparr>games := games s @ [planned_row t ids (next_game s) p], next_game := next_game s + 1\<rparr>"
  have "(tour_id t, plan_key q) \<notin> game_key ` set (games ?s)" if "q \<in> set ps" for q
  proof -
    have "plan_key q \<in> plan_key ` set ps" using that by (rule imageI)
    moreover have "plan_key p \<notin> plan_key ` set ps"
      using Cons.prems(1) by (simp only: list.map distinct.simps set_map simp_thms)
    ultimately have "plan_key q \<noteq> plan_key p" by metis
    moreover have "(tour_id t, plan_key q) \<notin> game_key ` set (games s)" by (rule Cons.prems(2)) (simp add: that)
    ultimately show ?thesis by simp
  qed
  then have "create_games t ids ?s ps = Inr (?s\<lparr>games := games ?s @ planned_rows t ids (next_game ?s) ps,
      next_game := next_game ?s + int (length ps)\<rparr>)"
    by (rule_tac Cons.IH) (use Cons.prems(1) in simp)
  moreover have "create_scheduled_game t ids s p = Inr (?s, next_game s)"
    by (rule create_scheduled_game_row) (rule Cons.prems(2), simp)
  ultimately show ?case by (simp add: create_games_def add.assoc)
qed

lemma create_games_ok:
  assumes "games_ok s" and "create_games t ids s ps = Inr s'"
    and "\<And>p. p \<in> set ps \<Longrightarrow> optional (\<lambda>m. m < next_match s) (plan_match p)"
  shows "games_ok s' \<and> next_match s' = next_match s"
  using assms(2) unfolding create_games_def
proof (rule fold_result_invariant)
  show "games_ok s \<and> next_match s = next_match s" using assms(1) by simp
  fix r p r'
  assume r: "games_ok r \<and> next_match r = next_match s" and p: "p \<in> set ps"
    and step: "rbind (create_scheduled_game t ids r p) (\<lambda>(s', i). Inr s') = Inr r'"
  then obtain i where i: "create_scheduled_game t ids r p = Inr (r', i)" by (auto simp: rbind_eq_Inr)
  then have "games_ok r'"
    using r assms(3) [OF p] unfolding create_scheduled_game_def Let_def by (auto intro: create_game_ok)
  moreover have "next_match r' = next_match r"
    using i by (auto simp: create_scheduled_game_def Let_def create_game_Inr)
  ultimately show "games_ok r' \<and> next_match r' = next_match s" using r by simp
qed

end
