(* ===== verification/Scheduler_Round_Robin.thy ===== *)
theory Scheduler_Round_Robin
  imports Scheduler_Games
begin

text \<open>
  Round robin schedules: the games of all cycles, and the games of an engine that joins a
  running tournament.
\<close>

subsection \<open>The schedule\<close>

text \<open>The two games of a pairing: the same opening, colours reversed.\<close>

definition two_legs :: "int \<Rightarrow> int \<Rightarrow> nat \<Rightarrow> nat \<Rightarrow> int \<times> int \<Rightarrow> planned_game list" where
  "two_legs rnd pair cyc offset pairing = map (\<lambda>leg. let
     (white, black) = (if leg = 1 then (snd pairing, fst pairing) else pairing)
   in \<lparr>plan_round = rnd, plan_pair = pair, plan_white = white, plan_black = black, plan_match = None,
       plan_number = int (cyc * 2 + leg + 1), plan_tiebreak = None, plan_offset = offset\<rparr>) [0, 1]"

fun running_offsets :: "nat \<Rightarrow> 'a list list \<Rightarrow> nat list" where
  "running_offsets n [] = []"
| "running_offsets n (xs # xss) = n # running_offsets (n + length xs) xss"

definition cycle_plan :: "(int \<times> int) list list \<Rightarrow> nat \<Rightarrow> planned_game list" where
  "cycle_plan rounds cyc = concat (map (\<lambda>(base_round, pairings).
     concat (map (\<lambda>(pair_index, pairing).
       two_legs (int (base_round + cyc * length rounds)) (int pair_index) cyc
         (cyc * length (concat rounds) + running_offsets 0 rounds ! (base_round - 1) + pair_index - 1) pairing)
       (enumerate 1 pairings)))
     (enumerate 1 rounds))"

definition round_robin_plan :: "int list \<Rightarrow> nat \<Rightarrow> planned_game list" where
  "round_robin_plan ps cycle_count = concat (map (cycle_plan (round_robin_pairings ps)) [0..<cycle_count])"

definition generate_round_robin_games :: "store \<Rightarrow> tournament_record \<Rightarrow> (store \<times> int) result" where
  "generate_round_robin_games s t = (case format_options (tour_config t) of
     RoundRobinFormatOptions n \<Rightarrow> let
       plans = round_robin_plan (participants (tour_config t)) (nat n);
       (s1, ids) = opening_ids s t (nat n * length (concat (round_robin_pairings (participants (tour_config t)))))
     in rbind (create_games t ids s1 plans) (\<lambda>s2. Inr (s2, int (length plans)))
   | _ \<Rightarrow> Inl (ValueError ''round robin tournament has invalid format options''))"

subsection \<open>Lists of lists without repetition\<close>

lemma distinct_concat_tagged:
  assumes "distinct xs" and "\<And>x. x \<in> set xs \<Longrightarrow> distinct (f x)"
    and "\<And>x y. x \<in> set xs \<Longrightarrow> y \<in> set (f x) \<Longrightarrow> tag y = x"
  shows "distinct (concat (map f xs))"
  using assms
proof (induction xs)
  case Nil
  then show ?case by simp
next
  case (Cons x xs)
  have "set (f x) \<inter> set (concat (map f xs)) = {}"
  proof -
    have False if "y \<in> set (f x)" "z \<in> set xs" "y \<in> set (f z)" for y z
      using Cons.prems(1) Cons.prems(3) [of x y] Cons.prems(3) [of z y] that by simp
    then show ?thesis by auto
  qed
  moreover have "distinct (concat (map f xs))" by (rule Cons.IH) (use Cons.prems in auto)
  ultimately show ?case using Cons.prems(2) [of x] by simp
qed

lemma map_enumerate_snd [simp]: "map (\<lambda>x. f (snd x)) (enumerate k xs) = map f xs"
proof -
  have "map (\<lambda>x. f (snd x)) (enumerate k xs) = map f (map snd (enumerate k xs))"
    by (simp only: map_map) (simp add: o_def)
  then show ?thesis by simp
qed

definition both_ways :: "('a \<times> 'a) list \<Rightarrow> ('a \<times> 'a) list" where
  "both_ways L = concat (map (\<lambda>(a, b). [(a, b), (b, a)]) L)"

definition ordered_pairs :: "'a set \<Rightarrow> ('a \<times> 'a) set" where
  "ordered_pairs P = {(a, b). a \<in> P \<and> b \<in> P \<and> a \<noteq> b}"

lemma both_ways_simps [simp]:
  "both_ways [] = []" "both_ways ((a, b) # L) = (a, b) # (b, a) # both_ways L"
  "both_ways (L @ M) = both_ways L @ both_ways M"
  by (simp_all add: both_ways_def)

lemma in_both_ways: "(a, b) \<in> set (both_ways L) \<longleftrightarrow> (a, b) \<in> set L \<or> (b, a) \<in> set L"
  by (induction L) auto

lemma distinct_both_ways:
  assumes "distinct (map (\<lambda>(a, b). {a, b}) L)" and "\<And>a b. (a, b) \<in> set L \<Longrightarrow> a \<noteq> b"
  shows "distinct (both_ways L)"
  using assms
proof (induction L)
  case Nil
  then show ?case by simp
next
  case (Cons p L)
  obtain a b where p: "p = (a, b)" by (cases p)
  have ab: "a \<noteq> b" using Cons.prems(2) [of a b] p by simp
  have mem: "{x, y} \<in> (\<lambda>(a, b). {a, b}) ` set L" if "(x, y) \<in> set (both_ways L)" for x y
    using that unfolding in_both_ways by (force simp: insert_commute)
  have "{a, b} \<notin> (\<lambda>(a, b). {a, b}) ` set L" "distinct (both_ways L)"
    using Cons.prems p Cons.IH by auto
  then have "(a, b) \<notin> set (both_ways L)" "(b, a) \<notin> set (both_ways L)"
    using mem [of a b] mem [of b a] by (auto simp: insert_commute)
  then show ?case using ab \<open>distinct (both_ways L)\<close> by (simp add: p)
qed

text \<open>The pairings of a cycle, played both ways, are the ordered pairs of participants.\<close>

lemma pairing_apart:
  assumes "distinct ps" and "(a, b) \<in> set (concat (round_robin_pairings ps))"
  shows "a \<noteq> b" and "a \<in> set ps" and "b \<in> set ps"
proof -
  have "{a, b} \<in> set (map (\<lambda>(a, b). {a, b}) (concat (round_robin_pairings ps)))"
    using assms(2) by force
  then have "{a, b} \<subseteq> set ps" "card {a, b} = 2" unfolding round_robin_duels(2) [OF assms(1)] by simp_all
  then show "a \<noteq> b" "a \<in> set ps" "b \<in> set ps" by auto
qed

lemma cycle_both_ways:
  assumes "distinct ps"
  shows "distinct (both_ways (concat (round_robin_pairings ps)))"
    and "set (both_ways (concat (round_robin_pairings ps))) = ordered_pairs (set ps)"
proof -
  let ?L = "concat (round_robin_pairings ps)"
  show "distinct (both_ways ?L)"
    by (rule distinct_both_ways [OF round_robin_duels(1) [OF assms]]) (rule pairing_apart(1) [OF assms])
  have "(a, b) \<in> set (both_ways ?L)" if "(a, b) \<in> ordered_pairs (set ps)" for a b
  proof -
    have "{a, b} \<in> set (map (\<lambda>(a, b). {a, b}) ?L)"
      using that unfolding round_robin_duels(2) [OF assms] by (auto simp: ordered_pairs_def)
    then obtain c d where "(c, d) \<in> set ?L" "{a, b} = {c, d}" by auto
    then show ?thesis unfolding in_both_ways by (metis doubleton_eq_iff)
  qed
  moreover have "(a, b) \<in> ordered_pairs (set ps)" if "(a, b) \<in> set (both_ways ?L)" for a b
  proof -
    from that consider "(a, b) \<in> set ?L" | "(b, a) \<in> set ?L" unfolding in_both_ways by blast
    then show ?thesis
      by cases (use pairing_apart [OF assms, of a b] pairing_apart [OF assms, of b a] in
        \<open>simp_all add: ordered_pairs_def del: set_concat\<close>)
  qed
  ultimately show "set (both_ways ?L) = ordered_pairs (set ps)" by auto
qed

lemma mset_both_ways_cycle:
  "distinct ps \<Longrightarrow> mset (both_ways (concat (round_robin_pairings ps))) = mset_set (ordered_pairs (set ps))"
  using cycle_both_ways [of ps] mset_set_set [of "both_ways (concat (round_robin_pairings ps))"] by simp

subsection \<open>The games of all cycles\<close>

lemma two_legs_colours: "map plan_colours (two_legs rnd pair cyc offset (a, b)) = [(a, b), (b, a)]"
  by (simp add: two_legs_def plan_colours_def)

lemma both_ways_concat: "both_ways (concat Ls) = concat (map both_ways Ls)"
  by (induction Ls) auto

lemma cycle_plan_colours: "map plan_colours (cycle_plan rounds cyc) = both_ways (concat rounds)"
proof -
  let ?off = "\<lambda>base_round pair_index. cyc * length (concat rounds) + running_offsets 0 rounds ! (base_round - 1) + pair_index - 1"
  have legs: "map plan_colours (two_legs rnd pair cyc offset p) = both_ways [p]" for rnd pair offset p
    by (cases p) (simp add: two_legs_colours)
  have single: "concat (map (\<lambda>p. both_ways [p]) L) = both_ways L" for L :: "(int \<times> int) list"
    by (induction L) auto
  have "map plan_colours (concat (map (\<lambda>(pair_index, pairing).
      two_legs (int (base_round + cyc * length rounds)) (int pair_index) cyc (?off base_round pair_index) pairing)
      (enumerate 1 pairings))) = both_ways pairings" for base_round pairings
    using map_enumerate_snd [of "\<lambda>p. both_ways [p]" "Suc 0" pairings]
    by (simp add: map_concat o_def case_prod_beta legs single)
  then show ?thesis
    by (simp add: cycle_plan_def map_concat o_def case_prod_beta both_ways_concat)
qed

lemma mset_concat_repeat:
  "(\<And>x. x \<in> set xs \<Longrightarrow> mset (f x) = M) \<Longrightarrow> mset (concat (map f xs)) = repeat_mset (length xs) M"
  by (induction xs) auto

lemma round_robin_colours:
  assumes "distinct ps"
  shows "mset (map plan_colours (round_robin_plan ps n)) = repeat_mset n (mset_set (ordered_pairs (set ps)))"
  using mset_concat_repeat [of "[0..<n]" "\<lambda>cyc. map plan_colours (cycle_plan (round_robin_pairings ps) cyc)"
      "mset_set (ordered_pairs (set ps))"] mset_both_ways_cycle [OF assms]
  by (simp add: round_robin_plan_def map_concat o_def cycle_plan_colours del: mset_map)

text \<open>No two games of the schedule have the same key.\<close>

lemma two_legs_keys:
  "map plan_key (two_legs rnd pair cyc offset p) = [(rnd, pair, fst p, snd p), (rnd, pair, snd p, fst p)]"
  by (cases p) (simp add: two_legs_def plan_key_def)

lemma cycle_plan_keys:
  assumes "\<And>a b. (a, b) \<in> set (concat rounds) \<Longrightarrow> a \<noteq> b"
  shows "distinct (map plan_key (cycle_plan rounds cyc))"
    and "k \<in> set (map plan_key (cycle_plan rounds cyc)) \<Longrightarrow>
      int (cyc * length rounds) < fst k \<and> fst k \<le> int (Suc cyc * length rounds)"
proof -
  let ?keys = "\<lambda>(base_round, pairings). concat (map (\<lambda>(pair_index, a, b).
    [(int (base_round + cyc * length rounds), int pair_index, a, b),
     (int (base_round + cyc * length rounds), int pair_index, b, a)]) (enumerate 1 pairings))"
  have keys: "map plan_key (cycle_plan rounds cyc) = concat (map ?keys (enumerate 1 rounds))"
    by (simp add: cycle_plan_def map_concat o_def case_prod_unfold two_legs_keys)
  have range: "r \<in> {1..length rounds} \<and> x = rounds ! (r - 1)" if "(r, x) \<in> set (enumerate 1 rounds)" for r x
    using that by (auto simp: in_set_enumerate_eq)
  show "distinct (map plan_key (cycle_plan rounds cyc))" unfolding keys
  proof (rule distinct_concat_tagged)
    show "distinct (enumerate 1 rounds)" by simp
    fix x assume x: "x \<in> set (enumerate 1 rounds)"
    obtain r pairings where rp: "x = (r, pairings)" by (cases x)
    have p: "pairings \<in> set rounds" using range [of r pairings] x rp by auto
    show "distinct (?keys x)" unfolding rp prod.case
    proof (rule distinct_concat_tagged)
      show "distinct (enumerate 1 pairings)" by simp
      fix q assume q0: "q \<in> set (enumerate 1 pairings)"
      obtain i a b where q: "q = (i, a, b)" by (cases q)
      then have "pairings ! (i - 1) = (a, b)" "i - 1 < length pairings"
        using q0 by (auto simp: in_set_enumerate_eq)
      then have "(a, b) \<in> set pairings" using nth_mem by metis
      then have "a \<noteq> b" using assms p by auto
      then show "distinct (case q of (pair_index, a, b) \<Rightarrow>
          [(int (r + cyc * length rounds), int pair_index, a, b),
           (int (r + cyc * length rounds), int pair_index, b, a)])"
        using q by simp
    next
      fix q k assume q: "q \<in> set (enumerate 1 pairings)" and k: "k \<in> set (case q of (pair_index, a, b) \<Rightarrow>
          [(int (r + cyc * length rounds), int pair_index, a, b),
           (int (r + cyc * length rounds), int pair_index, b, a)])"
      have "q = (fst q, pairings ! (fst q - 1))" using q by (auto simp: in_set_enumerate_eq)
      moreover have "fst q = nat (fst (snd k))" using k by (cases q) auto
      ultimately show "(nat (fst (snd k)), pairings ! (nat (fst (snd k)) - 1)) = q" by simp
    qed
  next
    fix x k assume x: "x \<in> set (enumerate 1 rounds)" and k: "k \<in> set (?keys x)"
    obtain r pairings where rp: "x = (r, pairings)" by (cases x)
    have "fst k = int (r + cyc * length rounds)" using k rp by auto
    then have "nat (fst k) - cyc * length rounds = r" by (simp only: nat_int diff_add_inverse2)
    then show "(nat (fst k) - cyc * length rounds, rounds ! (nat (fst k) - cyc * length rounds - 1)) = x"
      using range [of r pairings] x rp by simp
  qed
  assume "k \<in> set (map plan_key (cycle_plan rounds cyc))"
  then obtain x where x: "x \<in> set (enumerate 1 rounds)" "k \<in> set (?keys x)"
    unfolding keys set_concat set_map by blast
  obtain r pairings where "x = (r, pairings)" by (cases x)
  with x have "(r, pairings) \<in> set (enumerate 1 rounds)" "k \<in> set (?keys (r, pairings))" by simp_all
  then have "1 \<le> r" "r \<le> length rounds" "fst k = int (r + cyc * length rounds)"
    using range by auto
  then show "int (cyc * length rounds) < fst k \<and> fst k \<le> int (Suc cyc * length rounds)" by simp
qed

lemma round_robin_keys:
  assumes "distinct ps"
  shows "distinct (map plan_key (round_robin_plan ps n))"
proof -
  let ?rounds = "round_robin_pairings ps"
  let ?R = "length ?rounds"
  have apart: "a \<noteq> b" if "(a, b) \<in> set (concat ?rounds)" for a b
    by (rule pairing_apart(1) [OF assms that])
  have "distinct (concat (map (\<lambda>cyc. map plan_key (cycle_plan ?rounds cyc)) [0..<n]))"
  proof (rule distinct_concat_tagged)
    show "distinct (map plan_key (cycle_plan ?rounds cyc))" for cyc by (rule cycle_plan_keys(1) [OF apart])
    fix cyc k assume "k \<in> set (map plan_key (cycle_plan ?rounds cyc))"
    then have k: "int (cyc * ?R) < fst k" "fst k \<le> int (Suc cyc * ?R)"
      using cycle_plan_keys(2) [OF apart] by blast+
    define m where "m = nat (fst k) - 1"
    have "cyc * ?R \<le> m" "m < Suc cyc * ?R" using k unfolding m_def by linarith+
    then have "m div ?R = cyc" by (intro div_nat_eqI) (simp_all add: mult.commute)
    then show "(nat (fst k) - 1) div ?R = cyc" by (simp add: m_def)
  qed simp
  then show ?thesis by (simp add: round_robin_plan_def map_concat o_def)
qed

text \<open>The games of a tournament and their colours.\<close>

definition tournament_colours :: "store \<Rightarrow> int \<Rightarrow> (int \<times> int) multiset" where
  "tournament_colours s t = mset (map colours (of_tournament t (games s)))"

lemma of_tournament_append [simp]: "of_tournament t (xs @ ys) = of_tournament t xs @ of_tournament t ys"
  by (simp add: of_tournament_def)

lemma of_tournament_rows [simp]:
  "of_tournament t' (planned_rows t ids i ps) = (if tour_id t = t' then planned_rows t ids i ps else [])"
  by (induction ps arbitrary: i) (auto simp: of_tournament_def)

text \<open>Creating games whose keys are new to the tournament succeeds.\<close>

lemma create_fresh_games:
  assumes "distinct (map plan_key ps)" and "opening_ids s t limit = (s1, ids)"
    and "\<And>p. p \<in> set ps \<Longrightarrow> (tour_id t, plan_key p) \<notin> game_key ` set (games s)"
  obtains s2 d where "create_games t ids s1 ps = Inr s2"
    and "s2 = s\<lparr>games := games s @ planned_rows t ids (next_game s) ps,
      next_game := next_game s + int (length ps), draws := d\<rparr>"
    and "tournament_colours s2 (tour_id t) = tournament_colours s (tour_id t) + mset (map plan_colours ps)"
proof -
  obtain d where s1: "s1 = s\<lparr>draws := d\<rparr>" by (rule opening_ids_store [OF assms(2)])
  let ?s2 = "s\<lparr>games := games s @ planned_rows t ids (next_game s) ps,
      next_game := next_game s + int (length ps), draws := d\<rparr>"
  have "create_games t ids s1 ps = Inr ?s2"
    using create_games_rows [of ps t s1 ids] assms(1,3) unfolding s1 by simp
  moreover have "tournament_colours ?s2 (tour_id t) = tournament_colours s (tour_id t) + mset (map plan_colours ps)"
    unfolding tournament_colours_def by (simp del: mset_map)
  ultimately show thesis using that by blast
qed

lemma fresh_key:
  assumes "of_tournament t (games s) = []"
  shows "(t, k) \<notin> game_key ` set (games s)"
  using assms by (auto simp: of_tournament_def game_key_def filter_empty_conv)

definition full_round_robin :: "int list \<Rightarrow> nat \<Rightarrow> (int \<times> int) multiset" where
  "full_round_robin ps n = repeat_mset n (mset_set (ordered_pairs (set ps)))"

lemma round_robin_schedule:
  assumes "distinct (participants (tour_config t))"
    and "format_options (tour_config t) = RoundRobinFormatOptions n"
    and "of_tournament (tour_id t) (games s) = []"
  obtains s' where "generate_round_robin_games s t
      = Inr (s', int (length (round_robin_plan (participants (tour_config t)) (nat n))))"
    and "tournament_colours s' (tour_id t) = full_round_robin (participants (tour_config t)) (nat n)"
    and "\<exists>rows d. s' = s\<lparr>games := games s @ rows, next_game := next_game s + int (length rows), draws := d\<rparr>"
proof -
  let ?ps = "participants (tour_config t)"
  let ?plan = "round_robin_plan ?ps (nat n)"
  obtain s1 ids where ids: "opening_ids s t (nat n * length (concat (round_robin_pairings ?ps))) = (s1, ids)"
    by (cases "opening_ids s t (nat n * length (concat (round_robin_pairings ?ps)))")
  obtain s2 d where s2: "create_games t ids s1 ?plan = Inr s2"
      "s2 = s\<lparr>games := games s @ planned_rows t ids (next_game s) ?plan,
        next_game := next_game s + int (length ?plan), draws := d\<rparr>"
      "tournament_colours s2 (tour_id t) = tournament_colours s (tour_id t) + mset (map plan_colours ?plan)"
    by (rule create_fresh_games [OF round_robin_keys [OF assms(1)] ids]) (rule fresh_key [OF assms(3)])
  have "tournament_colours s (tour_id t) = {#}" using assms(3) by (simp add: tournament_colours_def)
  then have "tournament_colours s2 (tour_id t) = full_round_robin ?ps (nat n)"
    using s2(3) round_robin_colours [OF assms(1), of "nat n"] by (simp add: full_round_robin_def)
  moreover have "generate_round_robin_games s t = Inr (s2, int (length ?plan))"
    using s2(1) assms(2) ids by (simp add: generate_round_robin_games_def)
  moreover have "\<exists>rows d. s2 = s\<lparr>games := games s @ rows, next_game := next_game s + int (length rows), draws := d\<rparr>"
    unfolding s2(2) by (intro exI [of _ "planned_rows t ids (next_game s) ?plan"] exI [of _ d]) simp
  ultimately show thesis using that by blast
qed

end
