(* ===== verification/Scheduler_Joining.thy ===== *)
theory Scheduler_Joining
  imports Scheduler_Round_Robin
begin

text \<open>
  The games of an engine that joins a running round robin: the pairings of the enlarged
  schedule that involve it, placed after the games each round already has.
\<close>

definition pair_after :: "(int \<rightharpoonup> int) \<Rightarrow> int \<Rightarrow> int" where
  "pair_after counter rnd = (case counter rnd of None \<Rightarrow> 1 | Some i \<Rightarrow> i)"

definition count_pair :: "(int \<rightharpoonup> int) \<Rightarrow> game_record \<Rightarrow> int \<rightharpoonup> int" where
  "count_pair counter g = counter(game_round g \<mapsto> max (pair_after counter (game_round g)) (game_pair g + 1))"

definition next_pair_index :: "game_record list \<Rightarrow> int \<rightharpoonup> int" where
  "next_pair_index gs = foldl count_pair Map.empty gs"

definition involves :: "int \<Rightarrow> int \<times> int \<Rightarrow> bool" where
  "involves e p = (e = fst p \<or> e = snd p)"

fun join_plans :: "int \<Rightarrow> nat \<Rightarrow> (int \<rightharpoonup> int) \<Rightarrow> nat \<Rightarrow> (nat \<times> nat \<times> (int \<times> int) list) list
    \<Rightarrow> planned_game list" where
  "join_plans e rounds_per_cycle counter offset [] = []"
| "join_plans e rounds_per_cycle counter offset ((cyc, base_round, pairings) # items) =
     (case List.find (involves e) pairings of
        None \<Rightarrow> join_plans e rounds_per_cycle counter offset items
      | Some pairing \<Rightarrow> let
          rnd = int (base_round + cyc * rounds_per_cycle);
          pair_index = pair_after counter rnd
        in two_legs rnd pair_index cyc offset pairing
           @ join_plans e rounds_per_cycle (counter(rnd \<mapsto> pair_index + 1)) (offset + 1) items)"

definition join_items :: "int list \<Rightarrow> nat \<Rightarrow> (nat \<times> nat \<times> (int \<times> int) list) list" where
  "join_items ps cycle_count = concat (map (\<lambda>cyc. map (\<lambda>(base_round, pairings). (cyc, base_round, pairings))
     (enumerate 1 (round_robin_pairings ps))) [0..<cycle_count])"

definition generate_round_robin_participant_games :: "store \<Rightarrow> tournament_record \<Rightarrow> int \<Rightarrow> (store \<times> int) result" where
  "generate_round_robin_participant_games s t engine_id = (case format_options (tour_config t) of
     RoundRobinFormatOptions n \<Rightarrow> let
       ps = participants (tour_config t);
       (s1, ids) = opening_ids s t (nat n * (length ps - 1));
       plans = join_plans engine_id (length (round_robin_pairings ps))
         (next_pair_index (list_games s1 (tour_id t))) 0 (join_items ps (nat n))
     in rbind (create_games t ids s1 plans) (\<lambda>s2. Inr (s2, int (length plans)))
   | _ \<Rightarrow> Inl (ValueError ''round robin tournament has invalid format options''))"

subsection \<open>New keys\<close>

lemma pair_after_upd [simp]:
  "pair_after (counter(r \<mapsto> i)) r' = (if r' = r then i else pair_after counter r')"
  by (simp add: pair_after_def)

lemma next_pair_index_bound:
  assumes "g \<in> set gs"
  shows "game_pair g < pair_after (next_pair_index gs) (game_round g)"
proof -
  have step: "pair_after c r \<le> pair_after (count_pair c x) r" for c r x
    by (simp add: count_pair_def)
  have mono: "pair_after c r \<le> pair_after (foldl count_pair c xs) r" for c r xs
  proof (induction xs arbitrary: c)
    case (Cons x xs)
    show ?case using order_trans [OF step Cons.IH] by simp
  qed simp
  have "game_pair g < pair_after (foldl count_pair c gs) (game_round g)" for c
    using assms
  proof (induction gs arbitrary: c)
    case (Cons x xs)
    show ?case
    proof (cases "x = g")
      case True
      have "game_pair g < pair_after (count_pair c g) (game_round g)" by (simp add: count_pair_def)
      also have "\<dots> \<le> pair_after (foldl count_pair (count_pair c g) xs) (game_round g)" by (rule mono)
      finally show ?thesis using True by simp
    next
      case False
      then show ?thesis using Cons by simp
    qed
  qed simp
  then show ?thesis unfolding next_pair_index_def .
qed

lemma join_plans_keys:
  assumes "\<And>cyc r pairings a b. (cyc, r, pairings) \<in> set items \<Longrightarrow> (a, b) \<in> set pairings \<Longrightarrow> a \<noteq> b"
  shows "distinct (map plan_key (join_plans e R counter offset items))
    \<and> (\<forall>k \<in> set (map plan_key (join_plans e R counter offset items)). pair_after counter (fst k) \<le> fst (snd k))"
  using assms
proof (induction e R counter offset items rule: join_plans.induct)
  case (1 e R counter offset)
  then show ?case by simp
next
  case (2 e R counter offset cyc r pairings items)
  have tail: "a \<noteq> b" if "(c, q, ps) \<in> set items" "(a, b) \<in> set ps" for c q ps a b
    by (rule 2(3) [of c q ps, OF _ that(2)]) (simp add: that(1))
  show ?case
  proof (cases "List.find (involves e) pairings")
    case None
    then show ?thesis using 2(1) [OF None tail] by simp
  next
    case (Some p)
    let ?rnd = "int (r + cyc * R)"
    let ?i = "pair_after counter ?rnd"
    let ?rest = "join_plans e R (counter(?rnd \<mapsto> ?i + 1)) (offset + 1) items"
    have p: "(fst p, snd p) \<in> set pairings" using find_Some_iff_in [OF Some] by simp
    have ne: "fst p \<noteq> snd p" by (rule 2(3) [of cyc r pairings, OF _ p]) simp
    have IH: "distinct (map plan_key ?rest)
        \<and> (\<forall>k \<in> set (map plan_key ?rest). pair_after (counter(?rnd \<mapsto> ?i + 1)) (fst k) \<le> fst (snd k))"
      by (rule 2(2) [OF Some refl refl]) (rule tail)
    have ih: "distinct (map plan_key ?rest)"
      "k \<in> set (map plan_key ?rest) \<Longrightarrow> pair_after (counter(?rnd \<mapsto> ?i + 1)) (fst k) \<le> fst (snd k)" for k
      using IH by blast+
    have low: "pair_after counter (fst k) \<le> fst (snd k) \<and> (fst k = ?rnd \<longrightarrow> ?i < fst (snd k))"
      if "k \<in> set (map plan_key ?rest)" for k
      using ih(2) [OF that] by (auto split: if_splits)
    have keys: "map plan_key (join_plans e R counter offset ((cyc, r, pairings) # items))
        = [(?rnd, ?i, fst p, snd p), (?rnd, ?i, snd p, fst p)] @ map plan_key ?rest"
      using Some by (simp add: Let_def two_legs_keys)
    have new: "(?rnd, ?i, x) \<notin> set (map plan_key ?rest)" for x
      using low [of "(?rnd, ?i, x)"] by auto
    have "distinct ([(?rnd, ?i, fst p, snd p), (?rnd, ?i, snd p, fst p)] @ map plan_key ?rest)"
      unfolding distinct_append using ih(1) ne new by (cases p) simp
    moreover have "pair_after counter (fst k) \<le> fst (snd k)"
      if "k \<in> set ([(?rnd, ?i, fst p, snd p), (?rnd, ?i, snd p, fst p)] @ map plan_key ?rest)" for k
    proof -
      from that consider "k = (?rnd, ?i, fst p, snd p)" | "k = (?rnd, ?i, snd p, fst p)"
        | "k \<in> set (map plan_key ?rest)" by (simp only: set_append list.set Un_iff insert_iff empty_iff simp_thms) blast
      then show ?thesis by cases (simp_all add: low)
    qed
    ultimately show ?thesis unfolding keys by blast
  qed
qed

subsection \<open>A round pairs nobody twice\<close>

definition players_of :: "('a \<times> 'a) list \<Rightarrow> 'a list" where
  "players_of L = concat (map (\<lambda>(a, b). [a, b]) L)"

lemma players_of_concat: "players_of (concat Ls) = concat (map players_of Ls)"
  by (induction Ls) (simp_all add: players_of_def)

lemma in_players_of: "e \<in> set (players_of L) \<longleftrightarrow> (\<exists>q \<in> set L. involves e q)"
  by (induction L) (auto simp: players_of_def involves_def)

lemma list_index_self: "distinct xs \<Longrightarrow> i < length xs \<Longrightarrow> list_index xs (xs ! i) = Some i"
proof (induction xs arbitrary: i)
  case (Cons x xs)
  then show ?case by (cases i) auto
qed simp

lemma circle_round_players:
  assumes "distinct ps" and "length ps = 2 * h"
  shows "distinct (players_of (circle_round r ps))"
proof -
  let ?seat = "\<lambda>y. case list_index ps (Some y) of None \<Rightarrow> 0 | Some i \<Rightarrow> min i (length ps - 1 - i)"
  have "players_of (circle_round r ps) = concat (map (\<lambda>k. players_of (circle_pair r ps k)) [0..<length ps div 2])"
    by (simp add: players_of_concat circle_round_def o_def)
  also have "distinct \<dots>"
  proof (rule distinct_concat_tagged)
    fix k assume "k \<in> set [0..<length ps div 2]"
    then have k: "k < length ps" "length ps - 1 - k < length ps" "k < length ps - 1 - k" using assms(2) by auto
    then have ne: "ps ! k \<noteq> ps ! (length ps - 1 - k)" using assms(1) by (simp add: nth_eq_iff_index_eq)
    show "distinct (players_of (circle_pair r ps k))"
      using ne by (auto simp: players_of_def circle_pair_def split: option.splits)
    fix y assume "y \<in> set (players_of (circle_pair r ps k))"
    then have "Some y = ps ! k \<or> Some y = ps ! (length ps - 1 - k)"
      by (auto simp: players_of_def circle_pair_def split: option.splits if_splits)
    then show "?seat y = k"
      using list_index_self [OF assms(1) k(1)] list_index_self [OF assms(1) k(2)] k by auto
  qed simp
  finally show ?thesis .
qed

lemma round_players:
  assumes "distinct ps" and "pairings \<in> set (round_robin_pairings ps)"
  shows "distinct (players_of pairings)"
proof -
  have two: "2 \<le> length ps" using assms(2) by (auto simp: round_robin_pairings_def split: if_splits)
  obtain h where h: "length (circle_players ps) = 2 * h" "0 < h" "distinct (circle_players ps)"
    by (rule circle_players_facts [OF assms(1) two])
  have ne: "circle_players ps \<noteq> []" and len: "2 \<le> length (circle_players ps)" using h by auto
  have "pairings \<in> set (circle_rounds 0 (length (circle_players ps) - 1) (seats (circle_players ps) 0))"
    using assms(2) two by (simp add: round_robin_pairings_def Let_def seats_0 [OF ne])
  then obtain r where "pairings = circle_round r (seats (circle_players ps) r)"
    unfolding circle_rounds_seats [OF len] by auto
  then show ?thesis
    using circle_round_players [OF distinct_seats [OF ne h(3), of r], of h r] h(1) length_seats [OF ne] by simp
qed

lemma find_once:
  assumes "distinct (players_of L)"
  shows "filter (involves e) L = (case List.find (involves e) L of None \<Rightarrow> [] | Some p \<Rightarrow> [p])"
  using assms
proof (induction L)
  case (Cons p L)
  show ?case
  proof (cases "involves e p")
    case True
    have "\<not> involves e q" if "q \<in> set L" for q
    proof
      assume "involves e q"
      then have "e \<in> set (players_of L)" using that by (auto simp: in_players_of)
      then show False using Cons.prems True by (auto simp: players_of_def involves_def split: prod.splits)
    qed
    then show ?thesis using True by (simp add: filter_empty_conv)
  next
    case False
    then show ?thesis using Cons by (simp add: players_of_def split: prod.splits)
  qed
qed simp

subsection \<open>The games of the newcomer\<close>

lemma join_plans_colours:
  assumes "\<And>cyc r pairings. (cyc, r, pairings) \<in> set items \<Longrightarrow> distinct (players_of pairings)"
  shows "map plan_colours (join_plans e R counter offset items)
    = both_ways (filter (involves e) (concat (map (\<lambda>(cyc, r, pairings). pairings) items)))"
  using assms
proof (induction e R counter offset items rule: join_plans.induct)
  case (2 e R counter offset cyc r pairings items)
  have tail: "distinct (players_of ps)" if "(c, q, ps) \<in> set items" for c q ps
    by (rule 2(3) [of c q]) (simp add: that)
  have head: "filter (involves e) pairings = (case List.find (involves e) pairings of None \<Rightarrow> [] | Some p \<Rightarrow> [p])"
    by (rule find_once) (rule 2(3) [of cyc r], simp)
  show ?case
  proof (cases "List.find (involves e) pairings")
    case None
    then show ?thesis using 2(1) [OF None tail] head by simp
  next
    case (Some p)
    let ?rnd = "int (r + cyc * R)"
    have "map plan_colours (join_plans e R (counter(?rnd \<mapsto> pair_after counter ?rnd + 1)) (offset + 1) items)
        = both_ways (filter (involves e) (concat (map (\<lambda>(cyc, r, pairings). pairings) items)))"
      by (rule 2(2) [OF Some refl refl]) (rule tail)
    then show ?thesis using Some head
      by (cases p) (simp add: Let_def two_legs_colours)
  qed
qed simp

definition pairs_with :: "int \<Rightarrow> int set \<Rightarrow> (int \<times> int) set" where
  "pairs_with e P = {p \<in> ordered_pairs P. involves e p}"

lemma both_ways_involves: "both_ways (filter (involves e) L) = filter (involves e) (both_ways L)"
  by (induction L) (auto simp: involves_def)

lemma finite_ordered_pairs [simp]: "finite P \<Longrightarrow> finite (ordered_pairs P)"
  by (rule finite_subset [of _ "P \<times> P"]) (auto simp: ordered_pairs_def)

lemma join_items_facts:
  "(cyc, r, pairings) \<in> set (join_items ps n) \<Longrightarrow> pairings \<in> set (round_robin_pairings ps)"
  "concat (map (\<lambda>(cyc, r, pairings). pairings) (join_items ps n))
    = concat (map (\<lambda>cyc. concat (round_robin_pairings ps)) [0..<n])"
proof -
  assume "(cyc, r, pairings) \<in> set (join_items ps n)"
  then have "(r, pairings) \<in> set (enumerate 1 (round_robin_pairings ps))"
    by (auto simp: join_items_def)
  then have "pairings = round_robin_pairings ps ! (r - 1)" "r - 1 < length (round_robin_pairings ps)"
    by (auto simp: in_set_enumerate_eq)
  then show "pairings \<in> set (round_robin_pairings ps)" by simp
next
  have "concat (map (\<lambda>(cyc, r, pairings). pairings) (concat Ls))
      = concat (map (\<lambda>L. concat (map (\<lambda>(cyc, r, pairings). pairings) L)) Ls)"
    for Ls :: "(nat \<times> nat \<times> (int \<times> int) list) list list"
    by (induction Ls) auto
  then show "concat (map (\<lambda>(cyc, r, pairings). pairings) (join_items ps n))
      = concat (map (\<lambda>cyc. concat (round_robin_pairings ps)) [0..<n])"
    by (simp add: join_items_def o_def case_prod_unfold)
qed

lemma both_ways_filter_repeat:
  "filter P (both_ways (concat (map (\<lambda>x. L) xs))) = concat (map (\<lambda>x. filter P (both_ways L)) xs)"
  by (induction xs) simp_all

lemma join_colours:
  assumes "distinct ps"
  shows "mset (map plan_colours (join_plans e R counter offset (join_items ps n)))
    = repeat_mset n (mset_set (pairs_with e (set ps)))"
proof -
  let ?L = "concat (round_robin_pairings ps)"
  have "distinct (players_of pairings)" if "(cyc, r, pairings) \<in> set (join_items ps n)" for cyc r pairings
    by (rule round_players [OF assms join_items_facts(1) [OF that]])
  then have "map plan_colours (join_plans e R counter offset (join_items ps n))
      = both_ways (filter (involves e) (concat (map (\<lambda>cyc. ?L) [0..<n])))"
    unfolding join_items_facts(2) [symmetric] by (rule join_plans_colours)
  also have "\<dots> = concat (map (\<lambda>cyc. filter (involves e) (both_ways ?L)) [0..<n])"
    unfolding both_ways_involves by (rule both_ways_filter_repeat)
  also have "mset \<dots> = repeat_mset (length [0..<n]) (filter_mset (involves e) (mset (both_ways ?L)))"
    by (rule mset_concat_repeat) simp
  also have "\<dots> = repeat_mset n (mset_set (pairs_with e (set ps)))"
    unfolding mset_both_ways_cycle [OF assms] by (simp add: pairs_with_def)
  finally show ?thesis .
qed

lemma full_round_robin_join:
  assumes "e \<notin> set ps"
  shows "full_round_robin (ps @ [e]) n = full_round_robin ps n + repeat_mset n (mset_set (pairs_with e (set (ps @ [e]))))"
proof -
  have "ordered_pairs (set (ps @ [e])) = ordered_pairs (set ps) \<union> pairs_with e (set (ps @ [e]))"
    by (auto simp: ordered_pairs_def pairs_with_def involves_def)
  moreover have "ordered_pairs (set ps) \<inter> pairs_with e (set (ps @ [e])) = {}"
    using assms by (auto simp: ordered_pairs_def pairs_with_def involves_def)
  moreover have "finite (pairs_with e (set (ps @ [e])))"
    by (rule finite_subset [of _ "ordered_pairs (set (ps @ [e]))"]) (auto simp: pairs_with_def)
  ultimately show ?thesis
    by (simp add: full_round_robin_def mset_set_Union)
qed

text \<open>A pair index not below the counter is new to its round.\<close>

lemma counted_key_fresh:
  assumes "pair_after (next_pair_index (list_games s t)) (fst k) \<le> fst (snd k)"
  shows "(t, k) \<notin> game_key ` set (games s)"
proof
  assume "(t, k) \<in> game_key ` set (games s)"
  then obtain g where g: "g \<in> set (games s)" "game_key g = (t, k)" by force
  then have "g \<in> set (list_games s t)" by (auto simp: game_key_def)
  then have "game_pair g < pair_after (next_pair_index (list_games s t)) (game_round g)"
    by (rule next_pair_index_bound)
  then show False using g(2) assms by (auto simp: game_key_def)
qed

lemma round_robin_join:
  assumes "distinct (participants (tour_config t))"
    and "format_options (tour_config t) = RoundRobinFormatOptions n"
  obtains s' k where "generate_round_robin_participant_games s t e = Inr (s', k)"
    and "tournament_colours s' (tour_id t) = tournament_colours s (tour_id t)
      + repeat_mset (nat n) (mset_set (pairs_with e (set (participants (tour_config t)))))"
    and "\<exists>rows d. s' = s\<lparr>games := games s @ rows, next_game := next_game s + int (length rows), draws := d\<rparr>"
proof -
  let ?ps = "participants (tour_config t)"
  let ?R = "length (round_robin_pairings ?ps)"
  obtain s1 ids where ids: "opening_ids s t (nat n * (length ?ps - 1)) = (s1, ids)"
    by (cases "opening_ids s t (nat n * (length ?ps - 1))")
  then obtain d where s1: "s1 = s\<lparr>draws := d\<rparr>" by (rule opening_ids_store)
  have same: "list_games s1 (tour_id t) = list_games s (tour_id t)" by (simp add: s1 list_games_def)
  let ?counter = "next_pair_index (list_games s (tour_id t))"
  let ?plan = "join_plans e ?R ?counter 0 (join_items ?ps (nat n))"
  have apart: "a \<noteq> b" if "(cyc, r, pairings) \<in> set (join_items ?ps (nat n))" "(a, b) \<in> set pairings"
    for cyc r pairings a b
  proof (rule pairing_apart(1) [OF assms(1)])
    show "(a, b) \<in> set (concat (round_robin_pairings ?ps))"
      using join_items_facts(1) [OF that(1)] that(2) by auto
  qed
  have all_keys: "distinct (map plan_key ?plan)
      \<and> (\<forall>k \<in> set (map plan_key ?plan). pair_after ?counter (fst k) \<le> fst (snd k))"
    by (rule join_plans_keys) (rule apart)
  have keys: "distinct (map plan_key ?plan)"
    "k \<in> set (map plan_key ?plan) \<Longrightarrow> pair_after ?counter (fst k) \<le> fst (snd k)" for k
    using all_keys by blast+
  have fresh: "(tour_id t, plan_key p) \<notin> game_key ` set (games s)" if "p \<in> set ?plan" for p
    by (rule counted_key_fresh [OF keys(2)]) (unfold set_map, rule imageI, rule that)
  obtain s2 d' where s2: "create_games t ids s1 ?plan = Inr s2"
      "s2 = s\<lparr>games := games s @ planned_rows t ids (next_game s) ?plan,
        next_game := next_game s + int (length ?plan), draws := d'\<rparr>"
      "tournament_colours s2 (tour_id t) = tournament_colours s (tour_id t) + mset (map plan_colours ?plan)"
    by (rule create_fresh_games [OF keys(1) ids fresh])
  have "generate_round_robin_participant_games s t e = Inr (s2, int (length ?plan))"
    using s2(1) assms(2) ids same by (simp add: generate_round_robin_participant_games_def Let_def)
  moreover have "tournament_colours s2 (tour_id t) = tournament_colours s (tour_id t)
      + repeat_mset (nat n) (mset_set (pairs_with e (set ?ps)))"
    using s2(3) join_colours [OF assms(1)] by simp
  moreover have "\<exists>rows d. s2 = s\<lparr>games := games s @ rows, next_game := next_game s + int (length rows), draws := d\<rparr>"
    unfolding s2(2) by (intro exI [of _ "planned_rows t ids (next_game s) ?plan"] exI [of _ d']) simp
  ultimately show thesis using that by metis
qed

end
