(* ===== verification/Scheduler_Gauntlet.thy ===== *)
theory Scheduler_Gauntlet
  imports Scheduler_Joining
begin

text \<open>
  Gauntlet schedules: the hero meets every other participant with both colours in each cycle.
\<close>

definition hero_game :: "int \<Rightarrow> nat \<Rightarrow> nat \<Rightarrow> int \<Rightarrow> nat \<Rightarrow> nat \<Rightarrow> int \<Rightarrow> nat \<Rightarrow> planned_game" where
  "hero_game hero opponents number pair_index opponent_index rnd opponent offset = (let
     hero_is_white = ((number + opponent_index) mod 2 = 0);
     (white, black) = (if hero_is_white then (hero, opponent) else (opponent, hero))
   in \<lparr>plan_round = int rnd, plan_pair = pair_index, plan_white = white, plan_black = black,
       plan_match = None, plan_number = int number, plan_tiebreak = None, plan_offset = offset\<rparr>)"

definition gauntlet_opponents :: "int \<Rightarrow> int list \<Rightarrow> int list" where
  "gauntlet_opponents hero ps = filter (\<lambda>e. e \<noteq> hero) ps"

definition gauntlet_leg :: "int \<Rightarrow> int list \<Rightarrow> nat \<Rightarrow> nat \<Rightarrow> planned_game list" where
  "gauntlet_leg hero opponents cyc leg = (let number = cyc * 2 + leg + 1 in
     map (\<lambda>(opponent_index, opponent). hero_game hero (length opponents) number 1 opponent_index
         ((number - 1) * length opponents + opponent_index) opponent
         (cyc * length opponents + opponent_index - 1))
       (enumerate 1 opponents))"

definition gauntlet_plan :: "int \<Rightarrow> int list \<Rightarrow> nat \<Rightarrow> planned_game list" where
  "gauntlet_plan hero opponents cycle_count = concat (map (\<lambda>cyc.
     concat (map (gauntlet_leg hero opponents cyc) [0, 1])) [0..<cycle_count])"

definition generate_gauntlet_games :: "store \<Rightarrow> tournament_record \<Rightarrow> (store \<times> int) result" where
  "generate_gauntlet_games s t = (case format_options (tour_config t) of
     GauntletFormatOptions hero n \<Rightarrow> let
       opponents = gauntlet_opponents hero (participants (tour_config t));
       (s1, ids) = opening_ids s t (nat n * length opponents);
       plans = gauntlet_plan hero opponents (nat n)
     in rbind (create_games t ids s1 plans) (\<lambda>s2. Inr (s2, int (length plans)))
   | _ \<Rightarrow> Inl (ValueError ''gauntlet tournament has invalid format options''))"

text \<open>The games of an opponent that joins.\<close>

fun join_gauntlet_plans :: "int \<Rightarrow> int \<Rightarrow> nat \<Rightarrow> nat \<Rightarrow> (int \<rightharpoonup> int) \<Rightarrow> (nat \<times> nat) list \<Rightarrow> planned_game list" where
  "join_gauntlet_plans hero e opponents opponent_index counter [] = []"
| "join_gauntlet_plans hero e opponents opponent_index counter ((cyc, leg) # items) = (let
     number = cyc * 2 + leg + 1;
     rnd = (number - 1) * opponents + opponent_index;
     pair_index = pair_after counter (int rnd)
   in hero_game hero opponents number pair_index opponent_index rnd e cyc
      # join_gauntlet_plans hero e opponents opponent_index (counter(int rnd \<mapsto> pair_index + 1)) items)"

definition generate_gauntlet_participant_games :: "store \<Rightarrow> tournament_record \<Rightarrow> int \<Rightarrow> (store \<times> int) result" where
  "generate_gauntlet_participant_games s t engine_id = (case format_options (tour_config t) of
     GauntletFormatOptions hero n \<Rightarrow>
       if engine_id = hero then Inl (ValueError ''the gauntlet hero cannot be added as an opponent'')
       else let opponents = gauntlet_opponents hero (participants (tour_config t))
       in rbind (or_error (ValueError ''not in list'') (list_index opponents engine_id)) (\<lambda>i. let
         (s1, ids) = opening_ids s t (nat n);
         plans = join_gauntlet_plans hero engine_id (length opponents) (i + 1)
           (next_pair_index (list_games s1 (tour_id t)))
           (concat (map (\<lambda>cyc. [(cyc, 0), (cyc, 1)]) [0..<nat n]))
       in rbind (create_games t ids s1 plans) (\<lambda>s2. Inr (s2, n * 2)))
   | _ \<Rightarrow> Inl (ValueError ''gauntlet tournament has invalid format options''))"

subsection \<open>The schedule is complete\<close>

lemma hero_game_simps [simp]:
  "plan_round (hero_game h n num pair i rnd opp off) = int rnd"
  "plan_pair (hero_game h n num pair i rnd opp off) = pair"
  "plan_colours (hero_game h n num pair i rnd opp off) = (if (num + i) mod 2 = 0 then (h, opp) else (opp, h))"
  by (simp_all add: hero_game_def plan_colours_def)

lemma fst_plan_key [simp]: "fst (plan_key p) = plan_round p" "fst (snd (plan_key p)) = plan_pair p"
  by (simp_all add: plan_key_def)

lemma gauntlet_leg_rounds:
  "map plan_round (gauntlet_leg h opps cyc leg)
    = map (\<lambda>i. int ((cyc * 2 + leg) * length opps + i + 1)) [0..<length opps]"
  by (rule nth_equalityI) (auto simp: gauntlet_leg_def Let_def nth_enumerate_eq)

lemma gauntlet_keys: "distinct (map plan_key (gauntlet_plan h opps n))"
proof -
  let ?m = "length opps"
  let ?number = "\<lambda>r. (nat r - 1) div ?m"
  have number: "?number r = cyc * 2 + leg" if "r \<in> set (map plan_round (gauntlet_leg h opps cyc leg))" for r cyc leg
  proof -
    note r = that [unfolded gauntlet_leg_rounds set_map set_upt]
    obtain i where i: "r = int ((cyc * 2 + leg) * ?m + i + 1)" and "i \<in> {0..<?m}"
      by (rule imageE [OF r])
    then have "i < ?m" by simp
    define k where "k = cyc * 2 + leg"
    have "nat r - 1 = k * ?m + i" using i unfolding k_def by (simp only: nat_int diff_add_inverse2)
    moreover have "(k * ?m + i) div ?m = k" using \<open>i < ?m\<close> by (intro div_nat_eqI) (simp_all add: mult.commute)
    ultimately show ?thesis by (simp add: k_def)
  qed
  have "distinct (concat (map (\<lambda>cyc. concat (map (\<lambda>leg. map plan_round (gauntlet_leg h opps cyc leg)) [0, 1])) [0..<n]))"
  proof (rule distinct_concat_tagged)
    fix cyc
    show "distinct (concat (map (\<lambda>leg. map plan_round (gauntlet_leg h opps cyc leg)) [0, 1]))"
    proof (rule distinct_concat_tagged)
      show "distinct (map plan_round (gauntlet_leg h opps cyc leg))" for leg
        unfolding gauntlet_leg_rounds by (simp add: distinct_map inj_on_def)
      fix leg r assume "leg \<in> set [0, 1 :: nat]" and "r \<in> set (map plan_round (gauntlet_leg h opps cyc leg))"
      then show "?number r - cyc * 2 = leg" using number by simp
    qed simp
    fix r assume "r \<in> set (concat (map (\<lambda>leg. map plan_round (gauntlet_leg h opps cyc leg)) [0, 1]))"
    then obtain leg where leg: "leg \<in> {0, 1}" "r \<in> set (map plan_round (gauntlet_leg h opps cyc leg))"
      by fastforce
    then have "?number r = cyc * 2 + leg" using number by blast
    then show "?number r div 2 = cyc" using leg(1) by auto
  qed simp
  then have "distinct (map plan_round (gauntlet_plan h opps n))"
    by (simp only: gauntlet_plan_def map_concat map_map o_def)
  then have "distinct (map fst (map plan_key (gauntlet_plan h opps n)))" by (simp add: o_def)
  then show ?thesis by (metis distinct_map)
qed

lemma gauntlet_cycle_colours:
  "mset (map plan_colours (concat (map (gauntlet_leg h opps cyc) [0, 1])))
    = mset (both_ways (map (\<lambda>q. (h, q)) opps))"
proof -
  have par: "(num + i) mod 2 = 0 \<longleftrightarrow> \<not> (Suc num + i) mod 2 = 0" for num i :: nat by presburger
  have leg: "map plan_colours (gauntlet_leg h opps cyc leg)
      = map (\<lambda>(i, opp). if (cyc * 2 + leg + 1 + i) mod 2 = 0 then (h, opp) else (opp, h)) (enumerate 1 opps)" for leg
    by (simp add: gauntlet_leg_def Let_def case_prod_unfold)
  have "mset (map (\<lambda>(i, opp). if (num + i) mod 2 = 0 then (h, opp) else (opp, h)) (enumerate k xs))
      + mset (map (\<lambda>(i, opp). if (Suc num + i) mod 2 = 0 then (h, opp) else (opp, h)) (enumerate k xs))
      = mset (both_ways (map (\<lambda>q. (h, q)) xs))" for num k and xs :: "int list"
  proof (induction xs arbitrary: k)
    case (Cons x xs)
    show ?case using Cons.IH [of "Suc k"] par [of num k] by (cases "(num + k) mod 2 = 0") simp_all
  qed simp
  from this [of "cyc * 2 + 1" 1 opps] show ?thesis by (simp add: leg)
qed

definition full_gauntlet :: "int \<Rightarrow> int list \<Rightarrow> nat \<Rightarrow> (int \<times> int) multiset" where
  "full_gauntlet hero ps n = repeat_mset n (mset_set (pairs_with hero (set ps)))"

lemma hero_pairs:
  assumes "distinct ps" and "h \<in> set ps"
  shows "mset (both_ways (map (\<lambda>q. (h, q)) (gauntlet_opponents h ps))) = mset_set (pairs_with h (set ps))"
proof -
  let ?L = "map (\<lambda>q. (h, q)) (gauntlet_opponents h ps)"
  have "distinct (map (\<lambda>(a, b). {a, b}) ?L)"
    using assms(1) by (auto simp: distinct_map gauntlet_opponents_def inj_on_def doubleton_eq_iff)
  then have "distinct (both_ways ?L)"
    by (rule distinct_both_ways) (auto simp: gauntlet_opponents_def)
  moreover have "p \<in> set (both_ways ?L) \<longleftrightarrow> p \<in> pairs_with h (set ps)" for p
    using assms(2) by (cases p)
      (auto simp: in_both_ways gauntlet_opponents_def pairs_with_def ordered_pairs_def involves_def)
  then have "set (both_ways ?L) = pairs_with h (set ps)" by blast
  ultimately show ?thesis using mset_set_set [of "both_ways ?L"] by simp
qed

lemma gauntlet_colours:
  assumes "distinct ps" and "h \<in> set ps"
  shows "mset (map plan_colours (gauntlet_plan h (gauntlet_opponents h ps) n)) = full_gauntlet h ps n"
proof -
  have "mset (concat (map (\<lambda>cyc. map plan_colours (concat (map (gauntlet_leg h (gauntlet_opponents h ps) cyc) [0, 1]))) [0..<n]))
      = repeat_mset (length [0..<n]) (mset_set (pairs_with h (set ps)))"
    by (rule mset_concat_repeat) (simp only: gauntlet_cycle_colours hero_pairs [OF assms])
  then show ?thesis by (simp add: gauntlet_plan_def full_gauntlet_def map_concat o_def)
qed

lemma gauntlet_schedule:
  assumes "distinct (participants (tour_config t))"
    and "format_options (tour_config t) = GauntletFormatOptions h n" and "h \<in> set (participants (tour_config t))"
    and "of_tournament (tour_id t) (games s) = []"
  obtains s' k where "generate_gauntlet_games s t = Inr (s', k)"
    and "tournament_colours s' (tour_id t) = full_gauntlet h (participants (tour_config t)) (nat n)"
    and "\<exists>rows d. s' = s\<lparr>games := games s @ rows, next_game := next_game s + int (length rows), draws := d\<rparr>"
proof -
  let ?ps = "participants (tour_config t)"
  let ?opps = "gauntlet_opponents h ?ps"
  let ?plan = "gauntlet_plan h ?opps (nat n)"
  obtain s1 ids where ids: "opening_ids s t (nat n * length ?opps) = (s1, ids)"
    by (cases "opening_ids s t (nat n * length ?opps)")
  obtain s2 d where s2: "create_games t ids s1 ?plan = Inr s2"
      "s2 = s\<lparr>games := games s @ planned_rows t ids (next_game s) ?plan,
        next_game := next_game s + int (length ?plan), draws := d\<rparr>"
      "tournament_colours s2 (tour_id t) = tournament_colours s (tour_id t) + mset (map plan_colours ?plan)"
    by (rule create_fresh_games [OF gauntlet_keys ids]) (rule fresh_key [OF assms(4)])
  have "tournament_colours s (tour_id t) = {#}" using assms(4) by (simp add: tournament_colours_def)
  then have "tournament_colours s2 (tour_id t) = full_gauntlet h ?ps (nat n)"
    using s2(3) gauntlet_colours [OF assms(1,3), of "nat n"] by simp
  moreover have "generate_gauntlet_games s t = Inr (s2, int (length ?plan))"
    using s2(1) assms(2) ids by (simp add: generate_gauntlet_games_def Let_def)
  moreover have "\<exists>rows d. s2 = s\<lparr>games := games s @ rows, next_game := next_game s + int (length rows), draws := d\<rparr>"
    unfolding s2(2) by (intro exI [of _ "planned_rows t ids (next_game s) ?plan"] exI [of _ d]) simp
  ultimately show thesis using that by blast
qed

subsection \<open>An opponent joins\<close>

lemma join_gauntlet_keys:
  "distinct (map plan_key (join_gauntlet_plans h e m i counter items))
    \<and> (\<forall>k \<in> set (map plan_key (join_gauntlet_plans h e m i counter items)).
        pair_after counter (fst k) \<le> fst (snd k))"
proof (induction h e m i counter items rule: join_gauntlet_plans.induct)
  case (2 h e m i counter cyc leg items)
  let ?num = "cyc * 2 + leg + 1"
  let ?rnd = "(?num - 1) * m + i"
  let ?p = "pair_after counter (int ?rnd)"
  let ?rest = "join_gauntlet_plans h e m i (counter(int ?rnd \<mapsto> ?p + 1)) items"
  let ?g = "hero_game h m ?num ?p i ?rnd e cyc"
  have plans: "join_gauntlet_plans h e m i counter ((cyc, leg) # items) = ?g # ?rest"
    by (simp add: Let_def)
  have ih: "distinct (map plan_key ?rest)"
    "k \<in> set (map plan_key ?rest) \<Longrightarrow> pair_after (counter(int ?rnd \<mapsto> ?p + 1)) (fst k) \<le> fst (snd k)" for k
    using 2 [OF refl refl refl] by blast+
  have low: "pair_after counter (fst k) \<le> fst (snd k) \<and> (fst k = int ?rnd \<longrightarrow> ?p < fst (snd k))"
    if "k \<in> set (map plan_key ?rest)" for k
    using ih(2) [OF that] unfolding pair_after_upd by (cases "fst k = int ?rnd") simp_all
  have "plan_key ?g \<notin> set (map plan_key ?rest)" using low [of "plan_key ?g"] by auto
  then have "distinct (map plan_key (?g # ?rest))" using ih(1) by (simp only: list.map distinct.simps simp_thms)
  moreover have "pair_after counter (fst k) \<le> fst (snd k)" if "k \<in> set (map plan_key (?g # ?rest))" for k
  proof -
    from that consider "k = plan_key ?g" | "k \<in> set (map plan_key ?rest)" by auto
    then show ?thesis by cases (simp_all only: fst_plan_key hero_game_simps low order.refl)
  qed
  ultimately show ?case unfolding plans by blast
qed simp

lemma join_gauntlet_colours:
  "mset (map plan_colours (join_gauntlet_plans h e m i counter (concat (map (\<lambda>cyc. [(cyc, 0), (cyc, 1)]) cycs))))
    = repeat_mset (length cycs) {#(h, e), (e, h)#}"
proof (induction cycs arbitrary: counter)
  case (Cons c cycs)
  have par: "(c * 2 + 1 + i) mod 2 = 0 \<longleftrightarrow> \<not> (c * 2 + 2 + i) mod 2 = 0" by presburger
  show ?case using par Cons.IH by (cases "(c * 2 + 1 + i) mod 2 = 0") (simp_all add: Let_def)
qed simp

lemma list_index_in: "x \<in> set xs \<Longrightarrow> \<exists>i. list_index xs x = Some i"
  by (cases "list_index xs x") (auto simp: list_index_None)

lemma gauntlet_join:
  assumes "format_options (tour_config t) = GauntletFormatOptions h n"
    and "e \<noteq> h" and "e \<in> set (participants (tour_config t))"
  obtains s' k where "generate_gauntlet_participant_games s t e = Inr (s', k)"
    and "tournament_colours s' (tour_id t) = tournament_colours s (tour_id t) + repeat_mset (nat n) {#(h, e), (e, h)#}"
    and "\<exists>rows d. s' = s\<lparr>games := games s @ rows, next_game := next_game s + int (length rows), draws := d\<rparr>"
proof -
  let ?opps = "gauntlet_opponents h (participants (tour_config t))"
  have "e \<in> set ?opps" using assms(2,3) by (simp add: gauntlet_opponents_def)
  then obtain i where i: "list_index ?opps e = Some i" using list_index_in by metis
  obtain s1 ids where ids: "opening_ids s t (nat n) = (s1, ids)" by (cases "opening_ids s t (nat n)")
  then obtain d where s1: "s1 = s\<lparr>draws := d\<rparr>" by (rule opening_ids_store)
  have same: "list_games s1 (tour_id t) = list_games s (tour_id t)" by (simp add: s1 list_games_def)
  let ?counter = "next_pair_index (list_games s (tour_id t))"
  let ?plan = "join_gauntlet_plans h e (length ?opps) (i + 1) ?counter
    (concat (map (\<lambda>cyc. [(cyc, 0), (cyc, 1)]) [0..<nat n]))"
  have keys: "distinct (map plan_key ?plan)"
    "k \<in> set (map plan_key ?plan) \<Longrightarrow> pair_after ?counter (fst k) \<le> fst (snd k)" for k
    using join_gauntlet_keys by blast+
  have fresh: "(tour_id t, plan_key p) \<notin> game_key ` set (games s)" if "p \<in> set ?plan" for p
    by (rule counted_key_fresh [OF keys(2)]) (unfold set_map, rule imageI, rule that)
  obtain s2 d' where s2: "create_games t ids s1 ?plan = Inr s2"
      "s2 = s\<lparr>games := games s @ planned_rows t ids (next_game s) ?plan,
        next_game := next_game s + int (length ?plan), draws := d'\<rparr>"
      "tournament_colours s2 (tour_id t) = tournament_colours s (tour_id t) + mset (map plan_colours ?plan)"
    by (rule create_fresh_games [OF keys(1) ids fresh])
  have "generate_gauntlet_participant_games s t e = Inr (s2, n * 2)"
    using s2(1) assms(1,2) ids same i by (simp add: generate_gauntlet_participant_games_def Let_def)
  moreover have "tournament_colours s2 (tour_id t)
      = tournament_colours s (tour_id t) + repeat_mset (nat n) {#(h, e), (e, h)#}"
    using s2(3) join_gauntlet_colours [of h e "length ?opps" "i + 1" ?counter "[0..<nat n]"] by simp
  moreover have "\<exists>rows d. s2 = s\<lparr>games := games s @ rows, next_game := next_game s + int (length rows), draws := d\<rparr>"
    unfolding s2(2) by (intro exI [of _ "planned_rows t ids (next_game s) ?plan"] exI [of _ d']) simp
  ultimately show thesis by (rule that)
qed

lemma full_gauntlet_join:
  assumes "e \<notin> set ps" and "h \<in> set ps"
  shows "full_gauntlet h (ps @ [e]) n = full_gauntlet h ps n + repeat_mset n {#(h, e), (e, h)#}"
proof -
  have split: "pairs_with h (set (ps @ [e])) = pairs_with h (set ps) \<union> {(h, e), (e, h)}"
    using assms by (auto simp: ordered_pairs_def pairs_with_def involves_def)
  have disjoint: "pairs_with h (set ps) \<inter> {(h, e), (e, h)} = {}"
    using assms by (auto simp: ordered_pairs_def pairs_with_def involves_def)
  have fin: "finite (pairs_with h (set ps))"
    by (rule finite_subset [of _ "ordered_pairs (set ps)"]) (auto simp: pairs_with_def)
  have "distinct [(h, e), (e, h)]" using assms by auto
  from mset_set_set [OF this] have two: "mset_set {(h, e), (e, h)} = {#(h, e), (e, h)#}" by simp
  have "mset_set (pairs_with h (set (ps @ [e]))) = mset_set (pairs_with h (set ps)) + {#(h, e), (e, h)#}"
    unfolding split using mset_set_Union [OF fin _ disjoint] two by simp
  then show ?thesis by (simp only: full_gauntlet_def repeat_mset_distrib2)
qed

end
