(* ===== verification/Scheduler_Roster.thy ===== *)
theory Scheduler_Roster
  imports Scheduler_Gauntlet
begin

text \<open>
  Engines join and leave a running tournament.  Whatever the sequence of changes, the games of
  the tournament remain those of a complete schedule of its current participants.
\<close>

subsection \<open>Participants of the stored tournament\<close>

definition with_hero :: "int option \<Rightarrow> format_options \<Rightarrow> format_options result" where
  "with_hero hero opts = (case hero of None \<Rightarrow> Inr opts
     | Some h \<Rightarrow> (case opts of GauntletFormatOptions old n \<Rightarrow> Inr (GauntletFormatOptions h n)
         | _ \<Rightarrow> Inl (ValueError ''extra inputs are not permitted'')))"

text \<open>
  A tournament whose engine builds are pinned needs a build of every participant; with a
  variant, one with recorded support.  A build is found among the tournament's pins first.
\<close>

definition pinned :: "store \<Rightarrow> int \<Rightarrow> bool" where
  "pinned s tid = list_ex (\<lambda>(t, v, h). t = tid) (pinned_builds s)"

definition engine_build :: "store \<Rightarrow> int \<Rightarrow> int \<Rightarrow> string option" where
  "engine_build s tid e = (case List.find (\<lambda>(t, v, h). t = tid \<and> v = e) (pinned_builds s) of
     Some (t, v, h) \<Rightarrow> Some h
   | None \<Rightarrow> map_of (engine_builds s) e)"

definition pin_participant :: "int \<Rightarrow> string \<Rightarrow> store \<Rightarrow> int \<Rightarrow> store result" where
  "pin_participant tid variant s e =
     rbind (or_error (ValueError ''Tournament participant is unavailable'') (engine_build s tid e)) (\<lambda>h.
     rbind (guard (variant = ''standard'' \<or> (h, variant) \<in> set (supported_builds s))
       (ValueError ''Variant participants require recorded capability evidence'')) (\<lambda>_.
     Inr (if list_ex (\<lambda>(t, v, h'). t = tid \<and> v = e) (pinned_builds s) then s
          else s\<lparr>pinned_builds := pinned_builds s @ [(tid, e, h)]\<rparr>)))"

definition pin_participants :: "store \<Rightarrow> int \<Rightarrow> string \<Rightarrow> int list \<Rightarrow> store result" where
  "pin_participants s tid variant ps = (if pinned s tid then fold_result (pin_participant tid variant) s ps else Inr s)"

definition set_tournament_participants :: "store \<Rightarrow> tournament_record \<Rightarrow> int list \<Rightarrow> int option
    \<Rightarrow> (store \<times> tournament_record) result" where
  "set_tournament_participants s t ps hero =
     (if tour_id t \<in> set (relay_tournaments s) \<and> ps \<noteq> participants (tour_config t)
      then Inl (ValueError ''engine relay tournament anchors cannot be changed'')
      else rbind (with_hero hero (format_options (tour_config t))) (\<lambda>opts.
        rbind (validation_result (check_config ((tour_config t)\<lparr>participants := ps, format_options := opts\<rparr>))) (\<lambda>config.
        rbind (pin_participants s (tour_id t) (config_variant config) ps) (\<lambda>s0. let
            s' = update_tournament (tour_id t) (\<lambda>r. r\<lparr>tour_config := config\<rparr>) s0
          in rbind (or_error (ValueError ''tournament does not exist'') (get_tournament s' (tour_id t)))
               (\<lambda>updated. Inr (s', updated))))))"

definition lock_live_roster_tournament :: "store \<Rightarrow> int \<Rightarrow> tournament_record result" where
  "lock_live_roster_tournament s tid =
     rbind (or_error (ValueError ''tournament does not exist'') (get_tournament s tid)) (\<lambda>t.
     rbind (guard (tid \<notin> set (odds_tournaments s)) (ValueError ''Duck vs Fish odds participants cannot change'')) (\<lambda>_.
     rbind (guard (tour_status t \<in> {Running, Paused})
       (ValueError ''participants can only be changed while the tournament is running or paused'')) (\<lambda>_.
     rbind (guard (format (tour_config t) \<in> {ROUND_ROBIN, GAUNTLET})
       (ValueError ''live participant changes are only available for round-robin and gauntlet tournaments'')) (\<lambda>_.
     Inr t))))"

definition add_running_tournament_participant :: "store \<Rightarrow> int \<Rightarrow> int \<Rightarrow> (store \<times> tournament_record \<times> int) result" where
  "add_running_tournament_participant s tid engine_id =
     rbind (lock_live_roster_tournament s tid) (\<lambda>t.
     rbind (guard (engine_id \<notin> set (participants (tour_config t)))
       (ValueError ''engine is already participating in this tournament'')) (\<lambda>_.
     rbind (set_tournament_participants s t (participants (tour_config t) @ [engine_id]) None) (\<lambda>(s', updated).
     rbind (if format (tour_config updated) = ROUND_ROBIN
        then generate_round_robin_participant_games s' updated engine_id
        else generate_gauntlet_participant_games s' updated engine_id) (\<lambda>(s'', scheduled).
     Inr (s'', updated, scheduled)))))"

definition remove_running_tournament_participant :: "store \<Rightarrow> int \<Rightarrow> int
    \<Rightarrow> (store \<times> tournament_record \<times> game_removal \<times> int) result" where
  "remove_running_tournament_participant s tid engine_id =
     rbind (lock_live_roster_tournament s tid) (\<lambda>t.
     rbind (guard (engine_id \<in> set (participants (tour_config t)))
       (ValueError ''engine is not participating in this tournament'')) (\<lambda>_.
     rbind (guard (2 < length (participants (tour_config t)))
       (ValueError ''a running tournament must keep at least two participants'')) (\<lambda>_. let
       ps = filter (\<lambda>p. p \<noteq> engine_id) (participants (tour_config t))
     in rbind (invalidate_participant_games s (tour_id t) engine_id) (\<lambda>(s1, invalidated). let
       hero = (case format_options (tour_config t) of
           GauntletFormatOptions h n \<Rightarrow> if h = engine_id then Some (hd ps) else None
         | _ \<Rightarrow> None)
     in rbind (set_tournament_participants s1 t ps hero) (\<lambda>(s2, updated).
        rbind (if hero \<noteq> None then generate_gauntlet_games s2 updated else Inr (s2, 0)) (\<lambda>(s3, scheduled).
        Inr (s3, updated, invalidated, scheduled)))))))"

subsection \<open>Complete schedules\<close>

definition full_schedule :: "tournament_config \<Rightarrow> (int \<times> int) multiset" where
  "full_schedule c = (case format_options c of
     RoundRobinFormatOptions n \<Rightarrow> full_round_robin (participants c) (nat n)
   | GauntletFormatOptions h n \<Rightarrow> full_gauntlet h (participants c) (nat n)
   | _ \<Rightarrow> {#})"

definition roster_ok :: "store \<Rightarrow> int \<Rightarrow> bool" where
  "roster_ok s tid = (games_ok s \<and> (case get_tournament s tid of None \<Rightarrow> False
     | Some t \<Rightarrow> is_ok (check_config (tour_config t)) \<and> format (tour_config t) \<in> {ROUND_ROBIN, GAUNTLET}
         \<and> tournament_colours s tid = full_schedule (tour_config t)))"

text \<open>
  A tournament's life after its start: engines join and leave, and games are played, which
  keeps the keys of their rows.
\<close>

inductive roster_step :: "int \<Rightarrow> store \<Rightarrow> store \<Rightarrow> bool" for tid where
  joined: "add_running_tournament_participant s tid e = Inr (s', t, n) \<Longrightarrow> roster_step tid s s'"
| left: "remove_running_tournament_participant s tid e = Inr (s', t, r, n) \<Longrightarrow> roster_step tid s s'"
| played: "list_all2 (\<lambda>g g'. game_id g' = game_id g \<and> game_key g' = game_key g \<and> game_match g' = game_match g)
     (games s) gs \<Longrightarrow> roster_step tid s (s\<lparr>games := gs\<rparr>)"

inductive_cases roster_stepE: "roster_step tid s s'"

lemma get_tournament_id: "get_tournament s tid = Some t \<Longrightarrow> tour_id t = tid"
  unfolding get_tournament_def by (drule find_Some_iff_in) simp

lemma get_updated_tournament:
  assumes "get_tournament s tid = Some t"
  shows "get_tournament (update_tournament tid (\<lambda>r. r\<lparr>tour_config := c\<rparr>) s) tid = Some (t\<lparr>tour_config := c\<rparr>)"
proof -
  have "List.find (\<lambda>r. tour_id r = tid) (map (\<lambda>r. if tour_id r = tid then r\<lparr>tour_config := c\<rparr> else r) rs)
      = map_option (\<lambda>r. r\<lparr>tour_config := c\<rparr>) (List.find (\<lambda>r. tour_id r = tid) rs)" for rs
    by (induction rs) auto
  from this [of "tournaments s"] show ?thesis using assms by (simp add: get_tournament_def update_tournament_def)
qed

lemma lock_live_Inr:
  "lock_live_roster_tournament s tid = Inr t \<longleftrightarrow> get_tournament s tid = Some t \<and> tid \<notin> set (odds_tournaments s)
     \<and> tour_status t \<in> {Running, Paused} \<and> format (tour_config t) \<in> {ROUND_ROBIN, GAUNTLET}"
  by (auto simp: lock_live_roster_tournament_def rbind_eq_Inr)

lemma pin_participant_Inr:
  "pin_participant tid variant s e = Inr s' \<Longrightarrow> \<exists>p. s' = s\<lparr>pinned_builds := p\<rparr>"
  by (auto simp: pin_participant_def rbind_eq_Inr split: if_splits intro: exI [of _ "pinned_builds s"])

lemma pin_participants_Inr:
  assumes "pin_participants s tid variant ps = Inr s'"
  obtains p where "s' = s\<lparr>pinned_builds := p\<rparr>"
proof -
  have same: "s = s\<lparr>pinned_builds := pinned_builds s\<rparr>" by simp
  have "\<exists>p. s' = s\<lparr>pinned_builds := p\<rparr>"
  proof (cases "pinned s tid")
    case True
    then have "fold_result (pin_participant tid variant) s ps = Inr s'"
      using assms by (simp add: pin_participants_def)
    then show ?thesis
    proof (rule fold_result_invariant)
      fix r x r' assume "\<exists>p. r = s\<lparr>pinned_builds := p\<rparr>" "pin_participant tid variant r x = Inr r'"
      then obtain p q where "r = s\<lparr>pinned_builds := p\<rparr>" "r' = r\<lparr>pinned_builds := q\<rparr>"
        using pin_participant_Inr by blast
      then show "\<exists>p. r' = s\<lparr>pinned_builds := p\<rparr>" by auto
    qed (use same in blast)
  next
    case False
    then have "s' = s" using assms by (simp add: pin_participants_def)
    then show ?thesis using same by blast
  qed
  then show thesis using that by blast
qed

text \<open>Every participant has a build, and one that supports the variant.\<close>

definition available :: "store \<Rightarrow> int \<Rightarrow> string \<Rightarrow> int \<Rightarrow> bool" where
  "available s tid variant e = (case engine_build s tid e of None \<Rightarrow> False
     | Some h \<Rightarrow> variant = ''standard'' \<or> (h, variant) \<in> set (supported_builds s))"

lemma pin_participant_ok:
  assumes "available s tid variant e"
  shows "\<exists>s'. pin_participant tid variant s e = Inr s' \<and> (\<forall>x. available s tid variant x \<longrightarrow> available s' tid variant x)"
proof -
  obtain h where h: "engine_build s tid e = Some h" "variant = ''standard'' \<or> (h, variant) \<in> set (supported_builds s)"
    using assms by (auto simp: available_def split: option.splits)
  have same: "engine_build (s\<lparr>pinned_builds := pinned_builds s @ [(tid, e, h)]\<rparr>) tid x = engine_build s tid x" for x
    using h(1) by (cases "x = e"; cases "List.find (\<lambda>(t, v, h). t = tid \<and> v = x) (pinned_builds s)")
      (auto simp: engine_build_def find_append)
  have kept: "available (s\<lparr>pinned_builds := pinned_builds s @ [(tid, e, h)]\<rparr>) tid variant x = available s tid variant x" for x
    by (cases "engine_build s tid x") (simp_all add: available_def same)
  show ?thesis
  proof (cases "list_ex (\<lambda>(t, v, h'). t = tid \<and> v = e) (pinned_builds s)")
    case True
    then show ?thesis using h by (simp add: pin_participant_def)
  next
    case False
    then show ?thesis using h kept by (simp add: pin_participant_def)
  qed
qed

lemma pin_participants_ok:
  assumes "\<And>p. pinned s tid \<Longrightarrow> p \<in> set ps \<Longrightarrow> available s tid variant p"
  shows "\<exists>s'. pin_participants s tid variant ps = Inr s'"
proof (cases "pinned s tid")
  case True
  have "\<exists>s'. fold_result (pin_participant tid variant) s ps = Inr s'"
    using assms [OF True]
  proof (induction ps arbitrary: s)
    case (Cons p ps)
    obtain s1 where s1: "pin_participant tid variant s p = Inr s1"
      "\<And>x. available s tid variant x \<Longrightarrow> available s1 tid variant x"
      using pin_participant_ok [of s tid variant p] Cons.prems by auto
    have "\<exists>s'. fold_result (pin_participant tid variant) s1 ps = Inr s'"
      by (rule Cons.IH) (use s1(2) Cons.prems in auto)
    then show ?case using s1(1) by simp
  qed simp
  then show ?thesis by (simp add: pin_participants_def)
qed (simp add: pin_participants_def)

lemma set_participants_Inr:
  assumes "set_tournament_participants s t ps hero = Inr (s', u)" and "get_tournament s (tour_id t) = Some t"
  obtains opts c where "with_hero hero (format_options (tour_config t)) = Inr opts"
    and "check_config ((tour_config t)\<lparr>participants := ps, format_options := opts\<rparr>) = Inr c"
    and "u = t\<lparr>tour_config := c\<rparr>" and "games s' = games s" and "next_game s' = next_game s"
    and "next_match s' = next_match s" and "get_tournament s' (tour_id t) = Some u"
proof -
  from assms(1) obtain opts c s0 where o: "with_hero hero (format_options (tour_config t)) = Inr opts"
    "check_config ((tour_config t)\<lparr>participants := ps, format_options := opts\<rparr>) = Inr c"
    "pin_participants s (tour_id t) (config_variant c) ps = Inr s0"
    "s' = update_tournament (tour_id t) (\<lambda>r. r\<lparr>tour_config := c\<rparr>) s0"
    "get_tournament s' (tour_id t) = Some u"
    by (auto simp: set_tournament_participants_def rbind_eq_Inr Let_def split: if_splits)
  obtain p where s0: "s0 = s\<lparr>pinned_builds := p\<rparr>" by (rule pin_participants_Inr [OF o(3)])
  have "get_tournament s0 (tour_id t) = Some t" using assms(2) s0 by (simp add: get_tournament_def)
  then have "u = t\<lparr>tour_config := c\<rparr>" using o(4,5) get_updated_tournament [of s0 "tour_id t" t c] by simp
  then show thesis using that o s0 by (simp add: update_tournament_def)
qed

text \<open>The parts of a configuration that a check keeps.\<close>

lemma check_config_keeps:
  assumes "check_config c = Inr c'"
  shows "participants c' = participants c" and "format_options c' = format_options c" and "format c' = format c"
    and "config_variant c' = config_variant c"
  using assms unfolding check_config_Inr validate_format_options_Inr by auto

subsection \<open>The rows stay well formed\<close>

lemma join_plans_unmatched: "p \<in> set (join_plans e R counter offset items) \<Longrightarrow> plan_match p = None"
proof (induction items arbitrary: counter offset)
  case (Cons item items)
  obtain cyc r pairings where item: "item = (cyc, r, pairings)" by (cases item)
  show ?case
  proof (cases "List.find (involves e) pairings")
    case None
    then show ?thesis using Cons item by simp
  next
    case (Some q)
    then consider rnd pair off where "p \<in> set (two_legs rnd pair cyc off q)"
      | counter' off where "p \<in> set (join_plans e R counter' off items)"
      using Cons.prems item by (auto simp: Let_def)
    then show ?thesis by cases (cases q, auto simp: two_legs_def Cons.IH)+
  qed
qed simp

lemma join_gauntlet_plans_unmatched:
  "p \<in> set (join_gauntlet_plans h e m i counter items) \<Longrightarrow> plan_match p = None"
proof (induction items arbitrary: counter)
  case (Cons item items)
  then consider num pair rnd off where "p = hero_game h m num pair i rnd e off"
    | counter' where "p \<in> set (join_gauntlet_plans h e m i counter' items)"
    by (cases item) (auto simp: Let_def)
  then show ?case by cases (simp_all add: hero_game_def Let_def Cons.IH)
qed simp

lemma gauntlet_plan_unmatched: "p \<in> set (gauntlet_plan h opps n) \<Longrightarrow> plan_match p = None"
  by (auto simp: gauntlet_plan_def gauntlet_leg_def hero_game_def Let_def)

lemma planned_games_ok:
  assumes "games_ok s" and "opening_ids s t limit = (s1, ids)" and "create_games t ids s1 plans = Inr s2"
    and "\<And>p. p \<in> set plans \<Longrightarrow> plan_match p = None"
  shows "games_ok s2"
proof -
  obtain d where "s1 = s\<lparr>draws := d\<rparr>" by (rule opening_ids_store [OF assms(2)])
  then have "games_ok s1" using assms(1) by (simp add: games_ok_def)
  then show ?thesis using create_games_ok [OF _ assms(3)] assms(4) by simp
qed

lemma generated_games_ok:
  "generate_round_robin_participant_games s t e = Inr (s', k) \<Longrightarrow> games_ok s \<Longrightarrow> games_ok s'"
  "generate_gauntlet_participant_games s t e = Inr (s', k) \<Longrightarrow> games_ok s \<Longrightarrow> games_ok s'"
  "generate_gauntlet_games s t = Inr (s', k) \<Longrightarrow> games_ok s \<Longrightarrow> games_ok s'"
proof -
  show "generate_round_robin_participant_games s t e = Inr (s', k) \<Longrightarrow> games_ok s \<Longrightarrow> games_ok s'"
    by (auto simp: generate_round_robin_participant_games_def Let_def rbind_eq_Inr
        split: format_options.splits prod.splits intro: planned_games_ok join_plans_unmatched)
  assume gen: "generate_gauntlet_participant_games s t e = Inr (s', k)" and ok: "games_ok s"
  then obtain h n where opts: "format_options (tour_config t) = GauntletFormatOptions h n"
    by (auto simp: generate_gauntlet_participant_games_def split: format_options.splits)
  obtain s1 ids where ids: "opening_ids s t (nat n) = (s1, ids)" by (cases "opening_ids s t (nat n)")
  obtain m i counter items where "create_games t ids s1 (join_gauntlet_plans h e m i counter items) = Inr s'"
    using gen by (auto simp: generate_gauntlet_participant_games_def Let_def rbind_eq_Inr opts ids split: if_splits)
  then show "games_ok s'" by (rule planned_games_ok [OF ok ids]) (rule join_gauntlet_plans_unmatched)
next
  show "generate_gauntlet_games s t = Inr (s', k) \<Longrightarrow> games_ok s \<Longrightarrow> games_ok s'"
    by (auto simp: generate_gauntlet_games_def Let_def rbind_eq_Inr
        split: format_options.splits prod.splits intro: planned_games_ok gauntlet_plan_unmatched)
qed

lemma games_ok_cong:
  "games s' = games s \<Longrightarrow> next_game s' = next_game s \<Longrightarrow> next_match s' = next_match s \<Longrightarrow> games_ok s' = games_ok s"
  by (simp add: games_ok_def)

lemma games_ok_filter:
  "games_ok s \<Longrightarrow> games s' = filter P (games s) \<Longrightarrow> next_game s' = next_game s \<Longrightarrow> next_match s' = next_match s \<Longrightarrow> games_ok s'"
  by (auto simp: games_ok_def distinct_map_filter)

subsection \<open>What leaving removes\<close>

lemma colours_after_removal:
  assumes "games s' = filter (\<lambda>g. \<not> (game_tournament g = t \<and> plays e g)) (games s)"
  shows "tournament_colours s' t = filter_mset (\<lambda>p. \<not> involves e p) (tournament_colours s t)"
proof -
  have "map colours (of_tournament t (filter (\<lambda>g. \<not> (game_tournament g = t \<and> plays e g)) gs))
      = filter (\<lambda>p. \<not> involves e p) (map colours (of_tournament t gs))" for gs
    by (induction gs) (auto simp: of_tournament_def plays_def involves_def colours_def)
  then show ?thesis unfolding tournament_colours_def assms by (simp del: mset_map flip: mset_filter)
qed

lemma filter_repeat_mset: "filter_mset P (repeat_mset n M) = repeat_mset n (filter_mset P M)"
  by (induction n) auto

lemma full_round_robin_leave:
  "filter_mset (\<lambda>p. \<not> involves e p) (full_round_robin ps n) = full_round_robin (filter (\<lambda>p. p \<noteq> e) ps) n"
proof -
  have "{p \<in> ordered_pairs (set ps). \<not> involves e p} = ordered_pairs (set (filter (\<lambda>p. p \<noteq> e) ps))"
    by (auto simp: ordered_pairs_def involves_def)
  then show ?thesis by (simp add: full_round_robin_def filter_repeat_mset)
qed

lemma finite_pairs_with [simp]: "finite (pairs_with h (set ps))"
  by (rule finite_subset [of _ "ordered_pairs (set ps)"]) (auto simp: pairs_with_def)

lemma full_gauntlet_leave:
  assumes "e \<noteq> h"
  shows "filter_mset (\<lambda>p. \<not> involves e p) (full_gauntlet h ps n) = full_gauntlet h (filter (\<lambda>p. p \<noteq> e) ps) n"
proof -
  have "{p \<in> pairs_with h (set ps). \<not> involves e p} = pairs_with h (set (filter (\<lambda>p. p \<noteq> e) ps))"
    using assms by (auto simp: pairs_with_def ordered_pairs_def involves_def)
  then show ?thesis by (simp add: full_gauntlet_def filter_repeat_mset)
qed

lemma full_gauntlet_hero_leaves: "filter_mset (\<lambda>p. \<not> involves h p) (full_gauntlet h ps n) = {#}"
proof -
  have none: "{p \<in> pairs_with h (set ps). \<not> involves h p} = {}" by (auto simp: pairs_with_def)
  show ?thesis
    by (simp only: full_gauntlet_def filter_repeat_mset filter_mset_mset_set [OF finite_pairs_with] none
        mset_set.empty repeat_mset_empty)
qed

lemma no_colours: "tournament_colours s t = {#} \<longleftrightarrow> of_tournament t (games s) = []"
  by (simp add: tournament_colours_def)

subsection \<open>Every change keeps the schedule complete\<close>

text \<open>What an accepted configuration of either format looks like.\<close>

lemma live_config_cases [consumes 2, case_names round_robin gauntlet]:
  assumes "check_config c0 = Inr c" and "format c \<in> {ROUND_ROBIN, GAUNTLET}"
  obtains (round_robin) n where "format c = ROUND_ROBIN" "format_options c = RoundRobinFormatOptions n"
  | (gauntlet) h n where "format c = GAUNTLET" "format_options c = GauntletFormatOptions h n" "h \<in> set (participants c)"
  using check_config_ok [OF assms(1)] assms(2)
  by (cases "format c"; cases "format_options c") (auto simp: config_ok_def)

lemma accepted_distinct: "check_config c0 = Inr c \<Longrightarrow> distinct (participants c)"
  by (drule check_config_ok) (simp add: config_ok_def participants_ok_def)

lemma roster_okD:
  assumes "roster_ok s tid" and "get_tournament s tid = Some t"
  shows "games_ok s" and "tournament_colours s tid = full_schedule (tour_config t)"
    and "\<exists>c. check_config (tour_config t) = Inr c"
  using assms by (auto simp: roster_ok_def is_ok_iff)

lemma roster_okI:
  assumes "games_ok s" and "get_tournament s tid = Some t" and "check_config c0 = Inr (tour_config t)"
    and "format (tour_config t) \<in> {ROUND_ROBIN, GAUNTLET}"
    and "tournament_colours s tid = full_schedule (tour_config t)"
  shows "roster_ok s tid"
  using assms settlesD [OF check_config_settles assms(3)] by (simp add: roster_ok_def)

lemma generated_tournament:
  assumes "\<exists>rows d. s' = s\<lparr>games := games s @ rows, next_game := n + int (length rows), draws := d\<rparr>"
  shows "get_tournament s' tid = get_tournament s tid"
  using assms by (auto simp: get_tournament_def)

lemma joined_games:
  assumes "check_config c0 = Inr (tour_config u)" and "format (tour_config u) \<in> {ROUND_ROBIN, GAUNTLET}"
    and "participants (tour_config u) = ps @ [e]" and "e \<notin> set ps"
    and "full_schedule ((tour_config u)\<lparr>participants := ps\<rparr>) = tournament_colours s (tour_id u)"
    and "case format_options (tour_config u) of GauntletFormatOptions h n \<Rightarrow> h \<in> set ps | _ \<Rightarrow> True"
  obtains s' k where "(if format (tour_config u) = ROUND_ROBIN then generate_round_robin_participant_games s u e
      else generate_gauntlet_participant_games s u e) = Inr (s', k)"
    and "tournament_colours s' (tour_id u) = full_schedule (tour_config u)"
    and "get_tournament s' tid = get_tournament s tid"
  using assms(1,2)
proof (cases rule: live_config_cases)
  case (round_robin n)
  have d: "distinct (participants (tour_config u))" by (rule accepted_distinct [OF assms(1)])
  obtain s' k where g: "generate_round_robin_participant_games s u e = Inr (s', k)"
    "tournament_colours s' (tour_id u) = tournament_colours s (tour_id u)
      + repeat_mset (nat n) (mset_set (pairs_with e (set (participants (tour_config u)))))"
    "\<exists>rows d. s' = s\<lparr>games := games s @ rows, next_game := next_game s + int (length rows), draws := d\<rparr>"
    by (rule round_robin_join [OF d round_robin(2)])
  have "tournament_colours s' (tour_id u) = full_schedule (tour_config u)"
    using g(2) assms(3,5) full_round_robin_join [OF assms(4), of "nat n"] round_robin(2)
    by (simp add: full_schedule_def)
  then show ?thesis using that g(1) generated_tournament [OF g(3)] round_robin(1) by simp
next
  case (gauntlet h n)
  have h: "h \<in> set ps" using assms(6) gauntlet(2) by simp
  have e: "e \<noteq> h" "e \<in> set (participants (tour_config u))" using h assms(3,4) by auto
  obtain s' k where g: "generate_gauntlet_participant_games s u e = Inr (s', k)"
    "tournament_colours s' (tour_id u) = tournament_colours s (tour_id u) + repeat_mset (nat n) {#(h, e), (e, h)#}"
    "\<exists>rows d. s' = s\<lparr>games := games s @ rows, next_game := next_game s + int (length rows), draws := d\<rparr>"
    by (rule gauntlet_join [OF gauntlet(2) e])
  have "tournament_colours s' (tour_id u) = full_schedule (tour_config u)"
    using g(2) assms(3,5) full_gauntlet_join [OF assms(4) h, of "nat n"] gauntlet(2)
    by (simp add: full_schedule_def)
  then show ?thesis using that g(1) generated_tournament [OF g(3)] gauntlet(1) by simp
qed

lemma full_schedule_cong:
  "participants c = participants c' \<Longrightarrow> format_options c = format_options c' \<Longrightarrow> full_schedule c = full_schedule c'"
  by (cases "format_options c'") (simp_all add: full_schedule_def)

text \<open>A changed list of participants is accepted when it is itself in order.\<close>

lemma check_config_participants:
  assumes "check_config c = Inr c0" and "participants_ok ps" and "is_ok (check_format_options opts)"
    and "expected_options (format c) opts"
    and "case opts of GauntletFormatOptions h n \<Rightarrow> h \<in> set ps | _ \<Rightarrow> True"
  shows "\<exists>c'. check_config (c\<lparr>participants := ps, format_options := opts\<rparr>) = Inr c'"
proof -
  let ?c = "c\<lparr>participants := ps, format_options := opts\<rparr>"
  obtain adj v where adj: "check_adjudication (adjudication c) = Inr adj"
    and ok: "config_fields_ok c" and v: "get_variant (config_variant c) = Inr v"
      "config_rules_revision c \<in> {[], rules_revision v}" "requires_openings v \<longrightarrow> opening_suite_id c \<noteq> None"
      "variant_duck v \<longrightarrow> adj_draw adj = None \<and> adj_resign adj = None"
      "\<not> list_ex (\<lambda>(name, value). controlled_option name) (config_uci_options c)"
    using assms(1) unfolding check_config_Inr validate_format_options_Inr by auto
  have "config_fields_ok ?c" using ok assms(2,3) by (simp add: config_fields_ok_def)
  moreover have "format_agrees ?c" using assms(4,5) by (cases opts) (simp_all add: format_agrees_def)
  moreover have "adjudication ?c = adjudication c" "config_variant ?c = config_variant c"
    "config_rules_revision ?c = config_rules_revision c" "opening_suite_id ?c = opening_suite_id c"
    "config_uci_options ?c = config_uci_options c" by simp_all
  ultimately show ?thesis
    unfolding check_config_Inr validate_format_options_Inr using adj v
    by (intro exI [of _ "?c\<lparr>adjudication := adj, config_rules_revision := rules_revision v\<rparr>"]
        exI [of _ adj] conjI exI [of _ v]) auto
qed

lemma add_participant_effect:
  assumes "roster_ok s tid" and "get_tournament s tid = Some t" and "e \<notin> set (participants (tour_config t))"
    and "set_tournament_participants s t (participants (tour_config t) @ [e]) None = Inr (s1, u)"
    and "format (tour_config t) \<in> {ROUND_ROBIN, GAUNTLET}"
  obtains s' k where "(if format (tour_config u) = ROUND_ROBIN then generate_round_robin_participant_games s1 u e
      else generate_gauntlet_participant_games s1 u e) = Inr (s', k)" and "roster_ok s' tid"
proof -
  let ?ps = "participants (tour_config t)"
  have tid: "tour_id t = tid" by (rule get_tournament_id [OF assms(2)])
  note old = roster_okD [OF assms(1,2)]
  have t: "get_tournament s (tour_id t) = Some t" using assms(2) tid by simp
  obtain opts c where c: "with_hero None (format_options (tour_config t)) = Inr opts"
    "check_config ((tour_config t)\<lparr>participants := ?ps @ [e], format_options := opts\<rparr>) = Inr c"
    "u = t\<lparr>tour_config := c\<rparr>" "games s1 = games s" "next_game s1 = next_game s"
    "next_match s1 = next_match s" "get_tournament s1 (tour_id t) = Some u"
    by (rule set_participants_Inr [OF assms(4) t])
  have opts: "opts = format_options (tour_config t)" using c(1) by (simp add: with_hero_def)
  note kept = check_config_keeps [OF c(2)]
  have u: "check_config ((tour_config t)\<lparr>participants := ?ps @ [e], format_options := opts\<rparr>) = Inr (tour_config u)"
    "participants (tour_config u) = ?ps @ [e]" "format_options (tour_config u) = format_options (tour_config t)"
    "format (tour_config u) = format (tour_config t)" "tour_id u = tid"
    using c(2,3) kept opts tid by simp_all
  obtain c0 where c0: "check_config (tour_config t) = Inr c0" using old(3) by blast
  note kept0 = check_config_keeps [OF c0]
  have hero: "case format_options (tour_config u) of GauntletFormatOptions h n \<Rightarrow> h \<in> set ?ps | _ \<Rightarrow> True"
    using check_config_ok [OF c0] kept0 u(3) by (auto simp: config_ok_def split: format_options.splits)
  have fmt: "format (tour_config u) \<in> {ROUND_ROBIN, GAUNTLET}" using assms(5) u(4) by simp
  have "full_schedule ((tour_config u)\<lparr>participants := ?ps\<rparr>) = full_schedule (tour_config t)"
    by (rule full_schedule_cong) (simp_all add: u(3))
  then have sched: "full_schedule ((tour_config u)\<lparr>participants := ?ps\<rparr>) = tournament_colours s1 (tour_id u)"
    using old(2) u(5) c(4) by (simp add: tournament_colours_def)
  obtain s' k where g: "(if format (tour_config u) = ROUND_ROBIN then generate_round_robin_participant_games s1 u e
      else generate_gauntlet_participant_games s1 u e) = Inr (s', k)"
    "tournament_colours s' (tour_id u) = full_schedule (tour_config u)"
    "get_tournament s' tid = get_tournament s1 tid"
    by (rule joined_games [OF u(1) fmt u(2) assms(3) sched hero])
  have "games_ok s1" using old(1) games_ok_cong [OF c(4,5,6)] by simp
  then have "games_ok s'" using g(1) generated_games_ok(1,2) by (auto split: if_splits)
  moreover have "get_tournament s' tid = Some u" using g(3) c(7) tid by simp
  ultimately have "roster_ok s' tid" using roster_okI [OF _ _ u(1) fmt] g(2) u(5) by simp
  then show thesis using that g(1) by blast
qed

lemma add_keeps_roster:
  assumes "roster_ok s tid" and "add_running_tournament_participant s tid e = Inr (s', u, k)"
  shows "roster_ok s' tid"
proof -
  obtain t s1 where t: "get_tournament s tid = Some t" "e \<notin> set (participants (tour_config t))"
    "set_tournament_participants s t (participants (tour_config t) @ [e]) None = Inr (s1, u)"
    "format (tour_config t) \<in> {ROUND_ROBIN, GAUNTLET}"
    and g: "(if format (tour_config u) = ROUND_ROBIN then generate_round_robin_participant_games s1 u e
      else generate_gauntlet_participant_games s1 u e) = Inr (s', k)"
    using assms(2) unfolding add_running_tournament_participant_def rbind_eq_Inr lock_live_Inr
    by (auto simp: rbind_eq_Inr simp del: insert_iff)
  from add_participant_effect [OF assms(1) t] g show ?thesis by (metis prod.inject sum.inject(2))
qed

lemma remove_participant_effect:
  assumes "roster_ok s tid" and "get_tournament s tid = Some t"
    and "invalidate_participant_games s tid e = Inr (s1, r)"
    and hero: "hero = (case format_options (tour_config t) of
        GauntletFormatOptions h n \<Rightarrow> if h = e then Some (hd (filter (\<lambda>p. p \<noteq> e) (participants (tour_config t)))) else None
      | _ \<Rightarrow> None)"
    and "set_tournament_participants s1 t (filter (\<lambda>p. p \<noteq> e) (participants (tour_config t))) hero = Inr (s2, u)"
    and "format (tour_config t) \<in> {ROUND_ROBIN, GAUNTLET}"
  obtains s3 k where "(if hero \<noteq> None then generate_gauntlet_games s2 u else Inr (s2, 0)) = Inr (s3, k)"
    and "roster_ok s3 tid"
proof -
  let ?ps = "filter (\<lambda>p. p \<noteq> e) (participants (tour_config t))"
  have tid: "tour_id t = tid" by (rule get_tournament_id [OF assms(2)])
  note old = roster_okD [OF assms(1,2)]
  note s1 = invalidate_facts [OF assms(3) old(1)]
  have t: "get_tournament s1 (tour_id t) = Some t" using assms(2) tid by (simp add: s1(2) get_tournament_def)
  obtain opts c where c: "with_hero hero (format_options (tour_config t)) = Inr opts"
    "check_config ((tour_config t)\<lparr>participants := ?ps, format_options := opts\<rparr>) = Inr c"
    "u = t\<lparr>tour_config := c\<rparr>" "games s2 = games s1" "next_game s2 = next_game s1"
    "next_match s2 = next_match s1" "get_tournament s2 (tour_id t) = Some u"
    by (rule set_participants_Inr [OF assms(5) t])
  note kept = check_config_keeps [OF c(2)]
  have u: "check_config ((tour_config t)\<lparr>participants := ?ps, format_options := opts\<rparr>) = Inr (tour_config u)"
    "participants (tour_config u) = ?ps" "format_options (tour_config u) = opts"
    "format (tour_config u) = format (tour_config t)" "tour_id u = tid"
    using c(2,3) kept tid by simp_all
  have fmt: "format (tour_config u) \<in> {ROUND_ROBIN, GAUNTLET}" using assms(6) u(4) by simp
  have ok2: "games_ok s2" using games_ok_filter [OF old(1) s1(1,3,4)] games_ok_cong [OF c(4,5,6)] by simp
  have "tournament_colours s2 tid = tournament_colours s1 tid" using c(4) by (simp add: tournament_colours_def)
  also have "\<dots> = filter_mset (\<lambda>p. \<not> involves e p) (full_schedule (tour_config t))"
    unfolding colours_after_removal [OF s1(1)] old(2) ..
  finally have left: "tournament_colours s2 tid = filter_mset (\<lambda>p. \<not> involves e p) (full_schedule (tour_config t))" .
  have get2: "get_tournament s2 tid = Some u" using c(7) tid by simp
  from u(1) fmt show thesis
  proof (cases rule: live_config_cases)
    case (round_robin n)
    then have o: "format_options (tour_config t) = RoundRobinFormatOptions n" "hero = None"
      using c(1) hero u(3) by (auto simp: with_hero_def split: format_options.splits option.splits if_splits)
    have "tournament_colours s2 tid = full_schedule (tour_config u)"
      using left full_round_robin_leave o(1) round_robin(2) u(2) by (simp add: full_schedule_def)
    then have "roster_ok s2 tid" by (rule roster_okI [OF ok2 get2 u(1) fmt])
    then show ?thesis using that o(2) by simp
  next
    case (gauntlet h n)
    then obtain old_hero where o: "format_options (tour_config t) = GauntletFormatOptions old_hero n"
      using c(1) hero u(3) by (auto simp: with_hero_def split: format_options.splits option.splits if_splits)
    show ?thesis
    proof (cases "old_hero = e")
      case False
      then have none: "hero = None" using hero o by simp
      have "opts = GauntletFormatOptions old_hero n" using c(1) by (simp add: none o with_hero_def)
      then have "h = old_hero" using u(3) gauntlet(2) by simp
      then have "tournament_colours s2 tid = full_schedule (tour_config u)"
        using left full_gauntlet_leave [of e old_hero] False o gauntlet(2) u(2) by (simp add: full_schedule_def)
      then have "roster_ok s2 tid" by (rule roster_okI [OF ok2 get2 u(1) fmt])
      then show ?thesis using that none by simp
    next
      case True
      then have some: "hero \<noteq> None" using hero o by simp
      have "tournament_colours s2 tid = {#}"
        using left True o by (simp only: full_schedule_def format_options.case full_gauntlet_hero_leaves)
      then have none: "of_tournament (tour_id u) (games s2) = []" by (simp add: no_colours u(5))
      have d: "distinct (participants (tour_config u))" by (rule accepted_distinct [OF u(1)])
      obtain s3 k where g: "generate_gauntlet_games s2 u = Inr (s3, k)"
        "tournament_colours s3 (tour_id u) = full_gauntlet h (participants (tour_config u)) (nat n)"
        "\<exists>rows d. s3 = s2\<lparr>games := games s2 @ rows, next_game := next_game s2 + int (length rows), draws := d\<rparr>"
        by (rule gauntlet_schedule [OF d gauntlet(2,3) none])
      have "tournament_colours s3 tid = full_schedule (tour_config u)"
        using g(2) gauntlet(2) u(5) by (simp add: full_schedule_def)
      moreover have "get_tournament s3 tid = Some u" using generated_tournament [OF g(3)] get2 by simp
      ultimately have "roster_ok s3 tid"
        using roster_okI [OF generated_games_ok(3) [OF g(1) ok2] _ u(1) fmt] by simp
      then show ?thesis using that some g(1) by simp
    qed
  qed
qed

lemma remove_keeps_roster:
  assumes "roster_ok s tid" and "remove_running_tournament_participant s tid e = Inr (s', u, r, k)"
  shows "roster_ok s' tid"
proof -
  let ?hero = "\<lambda>t. case format_options (tour_config t) of
        GauntletFormatOptions h n \<Rightarrow> if h = e then Some (hd (filter (\<lambda>p. p \<noteq> e) (participants (tour_config t)))) else None
      | _ \<Rightarrow> None"
  obtain t s1 s2 where t: "get_tournament s tid = Some t"
    "invalidate_participant_games s (tour_id t) e = Inr (s1, r)"
    "set_tournament_participants s1 t (filter (\<lambda>p. p \<noteq> e) (participants (tour_config t))) (?hero t) = Inr (s2, u)"
    "format (tour_config t) \<in> {ROUND_ROBIN, GAUNTLET}"
    and g: "(if ?hero t \<noteq> None then generate_gauntlet_games s2 u else Inr (s2, 0)) = Inr (s', k)"
    using assms(2) unfolding remove_running_tournament_participant_def Let_def rbind_eq_Inr lock_live_Inr
    by (auto simp: rbind_eq_Inr simp del: insert_iff)
  have inv: "invalidate_participant_games s tid e = Inr (s1, r)"
    using t(2) get_tournament_id [OF t(1)] by simp
  obtain s3 k' where "(if ?hero t \<noteq> None then generate_gauntlet_games s2 u else Inr (s2, 0)) = Inr (s3, k')"
    and ok: "roster_ok s3 tid"
    by (rule remove_participant_effect [OF assms(1) t(1) inv refl t(3,4)])
  then have "s3 = s'" using g by simp
  then show ?thesis using ok by simp
qed

lemma played_keeps_roster:
  assumes "roster_ok s tid"
    and "list_all2 (\<lambda>g g'. game_id g' = game_id g \<and> game_key g' = game_key g \<and> game_match g' = game_match g) (games s) gs"
  shows "roster_ok (s\<lparr>games := gs\<rparr>) tid"
proof -
  have cols: "tournament_colours (s\<lparr>games := gs\<rparr>) tid = tournament_colours s tid"
    using assms(2) unfolding tournament_colours_def
    by (induction rule: list_all2_induct) (auto simp: of_tournament_def colours_def game_key_def)
  have maps: "map game_id gs = map game_id (games s)" "map game_key gs = map game_key (games s)"
    "map game_match gs = map game_match (games s)"
    using assms(2) by (induction rule: list_all2_induct) auto
  have "\<exists>g' \<in> set (games s). game_id g' = game_id g \<and> game_match g' = game_match g" if "g \<in> set gs" for g
    using assms(2) that by (induction rule: list_all2_induct) auto
  moreover have "games_ok s" using assms(1) by (simp add: roster_ok_def)
  ultimately have "game_id g < next_game s \<and> optional (\<lambda>m. m < next_match s) (game_match g)" if "g \<in> set gs" for g
    using that unfolding games_ok_def by metis
  then have "games_ok (s\<lparr>games := gs\<rparr>)"
    using \<open>games_ok s\<close> maps by (simp add: games_ok_def)
  moreover have "get_tournament (s\<lparr>games := gs\<rparr>) tid = get_tournament s tid" by (simp add: get_tournament_def)
  ultimately show ?thesis using assms(1) unfolding roster_ok_def cols by simp
qed

lemma roster_step_ok: "roster_step tid s s' \<Longrightarrow> roster_ok s tid \<Longrightarrow> roster_ok s' tid"
  by (erule roster_stepE) (auto intro: add_keeps_roster remove_keeps_roster played_keeps_roster)

lemma roster_steps_ok: "(roster_step tid)\<^sup>*\<^sup>* s s' \<Longrightarrow> roster_ok s tid \<Longrightarrow> roster_ok s' tid"
  by (induction rule: rtranclp_induct) (auto intro: roster_step_ok)

text \<open>A round robin just generated is complete.\<close>

lemma generated_round_robin_ok:
  assumes "games_ok s" and "get_tournament s tid = Some t" and "check_config c0 = Inr (tour_config t)"
    and "format (tour_config t) = ROUND_ROBIN" and "of_tournament tid (games s) = []"
  shows "\<exists>s' n. generate_round_robin_games s t = Inr (s', n) \<and> roster_ok s' tid"
proof -
  have tid: "tour_id t = tid" by (rule get_tournament_id [OF assms(2)])
  have none: "of_tournament (tour_id t) (games s) = []" using assms(5) tid by simp
  have fmt: "format (tour_config t) \<in> {ROUND_ROBIN, GAUNTLET}" using assms(4) by simp
  obtain n where n: "format_options (tour_config t) = RoundRobinFormatOptions n"
    using assms(3) fmt by (cases rule: live_config_cases) (use assms(4) in auto)
  obtain s' where g: "generate_round_robin_games s t
      = Inr (s', int (length (round_robin_plan (participants (tour_config t)) (nat n))))"
    "tournament_colours s' (tour_id t) = full_round_robin (participants (tour_config t)) (nat n)"
    "\<exists>rows d. s' = s\<lparr>games := games s @ rows, next_game := next_game s + int (length rows), draws := d\<rparr>"
    by (rule round_robin_schedule [OF accepted_distinct [OF assms(3)] n none])
  have "plan_match p = None" if "p \<in> set (round_robin_plan ps m)" for p ps m
    using that by (auto simp: round_robin_plan_def cycle_plan_def two_legs_def)
  then have "games_ok s'"
    using g(1) assms(1) n by (auto simp: generate_round_robin_games_def Let_def rbind_eq_Inr
        split: prod.splits intro: planned_games_ok)
  moreover have "get_tournament s' tid = Some t" using generated_tournament [OF g(3)] assms(2) by simp
  moreover have "tournament_colours s' tid = full_schedule (tour_config t)"
    using g(2) n tid by (simp add: full_schedule_def)
  ultimately have "roster_ok s' tid" by (intro roster_okI [OF _ _ assms(3) fmt])
  then show ?thesis using g(1) by blast
qed

lemma generated_gauntlet_ok:
  assumes "games_ok s" and "get_tournament s tid = Some t" and "check_config c0 = Inr (tour_config t)"
    and "format (tour_config t) = GAUNTLET" and "of_tournament tid (games s) = []"
  shows "\<exists>s' n. generate_gauntlet_games s t = Inr (s', n) \<and> roster_ok s' tid"
proof -
  have tid: "tour_id t = tid" by (rule get_tournament_id [OF assms(2)])
  have none: "of_tournament (tour_id t) (games s) = []" using assms(5) tid by simp
  have fmt: "format (tour_config t) \<in> {ROUND_ROBIN, GAUNTLET}" using assms(4) by simp
  obtain h n where n: "format_options (tour_config t) = GauntletFormatOptions h n" "h \<in> set (participants (tour_config t))"
    using assms(3) fmt by (cases rule: live_config_cases) (use assms(4) in auto)
  obtain s' k where g: "generate_gauntlet_games s t = Inr (s', k)"
    "tournament_colours s' (tour_id t) = full_gauntlet h (participants (tour_config t)) (nat n)"
    "\<exists>rows d. s' = s\<lparr>games := games s @ rows, next_game := next_game s + int (length rows), draws := d\<rparr>"
    by (rule gauntlet_schedule [OF accepted_distinct [OF assms(3)] n none])
  have "games_ok s'" by (rule generated_games_ok(3) [OF g(1) assms(1)])
  moreover have "get_tournament s' tid = Some t" using generated_tournament [OF g(3)] assms(2) by simp
  moreover have "tournament_colours s' tid = full_schedule (tour_config t)"
    using g(2) n tid by (simp add: full_schedule_def)
  ultimately have "roster_ok s' tid" by (intro roster_okI [OF _ _ assms(3) fmt])
  then show ?thesis using g(1) by blast
qed

subsection \<open>A newcomer is always accepted\<close>

text \<open>Scheduling changes only the games and the stream of draws.\<close>

lemma planned_frame:
  assumes "opening_ids s t limit = (s1, ids)" and "create_games t ids s1 plans = Inr s2"
  shows "\<exists>gs n d. s2 = s\<lparr>games := gs, next_game := n, draws := d\<rparr>"
proof -
  obtain d where s1: "s1 = s\<lparr>draws := d\<rparr>" by (rule opening_ids_store [OF assms(1)])
  from assms(2) have "\<exists>gs n. s2 = s1\<lparr>games := gs, next_game := n\<rparr>"
    unfolding create_games_def
  proof (rule fold_result_invariant)
    show "\<exists>gs n. s1 = s1\<lparr>games := gs, next_game := n\<rparr>"
      by (intro exI [of _ "games s1"] exI [of _ "next_game s1"]) simp
    fix r p r'
    assume r: "\<exists>gs n. r = s1\<lparr>games := gs, next_game := n\<rparr>"
      and step: "rbind (create_scheduled_game t ids r p) (\<lambda>(s', i). Inr s') = Inr r'"
    from step obtain i where "create_scheduled_game t ids r p = Inr (r', i)" by (auto simp: rbind_eq_Inr)
    then obtain gs n where "r' = r\<lparr>games := gs, next_game := n\<rparr>"
      unfolding create_scheduled_game_def Let_def create_game_Inr by blast
    moreover obtain gs' n' where "r = s1\<lparr>games := gs', next_game := n'\<rparr>" using r by blast
    ultimately show "\<exists>gs n. r' = s1\<lparr>games := gs, next_game := n\<rparr>"
      by (intro exI [of _ gs] exI [of _ n]) simp
  qed
  then obtain gs n where "s2 = s1\<lparr>games := gs, next_game := n\<rparr>" by blast
  then show ?thesis unfolding s1 by (intro exI [of _ gs] exI [of _ n] exI [of _ d]) simp
qed

lemma generated_frame:
  "generate_round_robin_participant_games s t e = Inr (s', k) \<Longrightarrow> \<exists>gs n d. s' = s\<lparr>games := gs, next_game := n, draws := d\<rparr>"
  "generate_gauntlet_participant_games s t e = Inr (s', k) \<Longrightarrow> \<exists>gs n d. s' = s\<lparr>games := gs, next_game := n, draws := d\<rparr>"
proof -
  show "generate_round_robin_participant_games s t e = Inr (s', k) \<Longrightarrow> \<exists>gs n d. s' = s\<lparr>games := gs, next_game := n, draws := d\<rparr>"
    by (auto simp: generate_round_robin_participant_games_def Let_def rbind_eq_Inr
        split: format_options.splits prod.splits intro: planned_frame)
next
  assume gen: "generate_gauntlet_participant_games s t e = Inr (s', k)"
  then obtain h n where opts: "format_options (tour_config t) = GauntletFormatOptions h n"
    by (auto simp: generate_gauntlet_participant_games_def split: format_options.splits)
  obtain s1 ids where ids: "opening_ids s t (nat n) = (s1, ids)" by (cases "opening_ids s t (nat n)")
  obtain plans where "create_games t ids s1 plans = Inr s'"
    using gen by (auto simp: generate_gauntlet_participant_games_def Let_def rbind_eq_Inr opts ids split: if_splits)
  then show "\<exists>gs n d. s' = s\<lparr>games := gs, next_game := n, draws := d\<rparr>" by (rule planned_frame [OF ids])
qed

lemma set_participants_ok:
  assumes "get_tournament s (tour_id t) = Some t" and "tour_id t \<notin> set (relay_tournaments s)"
    and "with_hero hero (format_options (tour_config t)) = Inr opts"
    and "check_config ((tour_config t)\<lparr>participants := ps, format_options := opts\<rparr>) = Inr c"
    and "\<And>p. pinned s (tour_id t) \<Longrightarrow> p \<in> set ps \<Longrightarrow> available s (tour_id t) (config_variant c) p"
  obtains s1 where "set_tournament_participants s t ps hero = Inr (s1, t\<lparr>tour_config := c\<rparr>)"
    and "get_tournament s1 (tour_id t) = Some (t\<lparr>tour_config := c\<rparr>)"
proof -
  obtain s0 where pins: "pin_participants s (tour_id t) (config_variant c) ps = Inr s0"
    using pin_participants_ok [OF assms(5)] by blast
  obtain p where s0: "s0 = s\<lparr>pinned_builds := p\<rparr>" by (rule pin_participants_Inr [OF pins])
  have "get_tournament s0 (tour_id t) = Some t" using assms(1) s0 by (simp add: get_tournament_def)
  note get = get_updated_tournament [OF this, of c]
  show thesis using that assms(2-4) pins get
    by (simp add: set_tournament_participants_def Let_def validation_result_def)
qed

lemma newcomer_accepted:
  assumes "roster_ok s tid" and "get_tournament s tid = Some t"
    and "tour_status t = Running \<or> tour_status t = Paused"
    and "tid \<notin> set (relay_tournaments s)" and "tid \<notin> set (odds_tournaments s)"
    and "0 < e" and "e \<notin> set (participants (tour_config t))"
    and "\<And>p. pinned s tid \<Longrightarrow> p \<in> insert e (set (participants (tour_config t))) \<Longrightarrow> available s tid (config_variant (tour_config t)) p"
  shows "\<exists>s' u n. add_running_tournament_participant s tid e = Inr (s', u, n)
    \<and> get_tournament s' tid = Some u \<and> participants (tour_config u) = participants (tour_config t) @ [e]"
proof -
  have tid: "tour_id t = tid" by (rule get_tournament_id [OF assms(2)])
  have fmt: "format (tour_config t) \<in> {ROUND_ROBIN, GAUNTLET}"
    using assms(1,2) by (simp add: roster_ok_def)
  obtain c0 where c0: "check_config (tour_config t) = Inr c0" using roster_okD(3) [OF assms(1,2)] by blast
  have ok: "config_fields_ok (tour_config t)" "format_agrees (tour_config t)"
    using c0 unfolding check_config_Inr validate_format_options_Inr by auto
  have "participants_ok (participants (tour_config t) @ [e])"
    using ok(1) assms(6,7) by (simp add: config_fields_ok_def participants_ok_def)
  moreover have "is_ok (check_format_options (format_options (tour_config t)))"
    using ok(1) by (simp add: config_fields_ok_def)
  moreover have "expected_options (format (tour_config t)) (format_options (tour_config t))"
    using ok(2) by (simp add: format_agrees_def)
  moreover have "case format_options (tour_config t) of
      GauntletFormatOptions h n \<Rightarrow> h \<in> set (participants (tour_config t) @ [e]) | _ \<Rightarrow> True"
    using ok(2) by (cases "format_options (tour_config t)") (simp_all add: format_agrees_def)
  ultimately obtain c where c: "check_config ((tour_config t)\<lparr>participants := participants (tour_config t) @ [e],
      format_options := format_options (tour_config t)\<rparr>) = Inr c"
    using check_config_participants [OF c0] by blast
  have t: "get_tournament s (tour_id t) = Some t" using assms(2) tid by simp
  let ?u = "t\<lparr>tour_config := c\<rparr>"
  have avail: "available s (tour_id t) (config_variant c) p"
    if "pinned s (tour_id t)" "p \<in> set (participants (tour_config t) @ [e])" for p
    using assms(8) [of p] that check_config_keeps(4) [OF c] tid by auto
  have relay: "tour_id t \<notin> set (relay_tournaments s)"
    and none: "with_hero None (format_options (tour_config t)) = Inr (format_options (tour_config t))"
    using assms(4) tid by (simp_all add: with_hero_def)
  obtain s1 where set: "set_tournament_participants s t (participants (tour_config t) @ [e]) None = Inr (s1, ?u)"
    and get1: "get_tournament s1 (tour_id t) = Some ?u"
    by (rule set_participants_ok [OF t relay none c avail])
  obtain s' k where g: "(if format (tour_config ?u) = ROUND_ROBIN then generate_round_robin_participant_games s1 ?u e
      else generate_gauntlet_participant_games s1 ?u e) = Inr (s', k)" and ok': "roster_ok s' tid"
    by (rule add_participant_effect [OF assms(1,2,7) set fmt])
  have lock: "lock_live_roster_tournament s tid = Inr t"
    using assms(2,3,5) fmt by (auto simp: lock_live_Inr)
  have add: "add_running_tournament_participant s tid e = Inr (s', ?u, k)"
    unfolding add_running_tournament_participant_def lock rbind_Inr set using assms(7) g by simp
  moreover have "get_tournament s' tid = get_tournament s1 tid"
  proof -
    have "\<exists>gs n d. s' = s1\<lparr>games := gs, next_game := n, draws := d\<rparr>"
      using g by (auto split: if_splits intro: generated_frame)
    then show ?thesis by (auto simp: get_tournament_def)
  qed
  moreover have "get_tournament s1 tid = Some ?u" using get1 tid by simp
  moreover have "participants (tour_config ?u) = participants (tour_config t) @ [e]"
    using check_config_keeps(1) [OF c] by simp
  ultimately show ?thesis by (intro exI [of _ s'] exI [of _ ?u] exI [of _ k]) simp
qed

end
