(* ===== verification/Swiss_Bracket.thy ===== *)
theory Swiss_Bracket
  imports Pairings
begin

text \<open>
  The seed order of a knockout bracket and the pairing search of a Swiss round.  A points
  table is a function of the engine id; the values are multiples of a half, which the code's
  floats hold exactly.
\<close>

subsection \<open>Bracket order\<close>

definition mirror_seeds :: "int list \<Rightarrow> int list" where
  "mirror_seeds order = (let mirror = int (length order) * 2 + 1 in
     concat (map (\<lambda>current. [current, mirror - current]) order))"

lemma length_mirror_seeds [simp]: "length (mirror_seeds order) = 2 * length order"
  by (simp add: mirror_seeds_def Let_def length_concat o_def sum_list_triv)

function grow_bracket :: "nat \<Rightarrow> int list \<Rightarrow> int list" where
  "grow_bracket width order = (if order \<noteq> [] \<and> length order < width
     then grow_bracket width (mirror_seeds order) else order)"
  by pat_completeness auto
termination
proof (relation "measure (\<lambda>(width, order). width - length order)")
  fix width :: nat and order :: "int list"
  assume a: "order \<noteq> [] \<and> length order < width"
  then have "0 < length order" by simp
  with a have "width - 2 * length order < width - length order" by linarith
  then show "((width, mirror_seeds order), width, order) \<in> measure (\<lambda>(width, order). width - length order)"
    by simp
qed simp

declare grow_bracket.simps [simp del]

definition bracket_seed_order :: "nat \<Rightarrow> int list" where
  "bracket_seed_order width = take width (grow_bracket width [1, 2])"

definition bracket_ok :: "int list \<Rightarrow> bool" where
  "bracket_ok order = (distinct order \<and> set order = {1..int (length order)}
     \<and> (\<forall>i. 2 * i + 1 < length order \<longrightarrow> order ! (2 * i) + order ! (2 * i + 1) = int (length order) + 1))"

lemma mirror_seeds_nth:
  assumes "i < length order"
  shows "mirror_seeds order ! (2 * i) = order ! i"
    and "mirror_seeds order ! (2 * i + 1) = int (length order) * 2 + 1 - order ! i"
proof -
  have "concat (map (\<lambda>c. [c, M - c]) xs) ! (2 * i) = xs ! i
      \<and> concat (map (\<lambda>c. [c, M - c]) xs) ! (2 * i + 1) = M - xs ! i" if "i < length xs" for xs i and M :: int
    using that
  proof (induction xs arbitrary: i)
    case (Cons x xs)
    then show ?case by (cases i) auto
  qed simp
  from this [OF assms] show "mirror_seeds order ! (2 * i) = order ! i"
    and "mirror_seeds order ! (2 * i + 1) = int (length order) * 2 + 1 - order ! i"
    by (simp_all add: mirror_seeds_def Let_def)
qed

lemma mirror_seeds_ok:
  assumes "bracket_ok order"
  shows "bracket_ok (mirror_seeds order)"
proof -
  let ?n = "int (length order)"
  have d: "distinct order" and s: "set order = {1..?n}" using assms by (simp_all add: bracket_ok_def)
  have img: "(\<lambda>c. 2 * ?n + 1 - c) ` {1..?n} = {?n + 1..2 * ?n}"
  proof -
    have "x \<in> (\<lambda>c. 2 * ?n + 1 - c) ` {1..?n}" if "x \<in> {?n + 1..2 * ?n}" for x
      using that by (intro image_eqI [of _ _ "2 * ?n + 1 - x"]) auto
    then show ?thesis by auto
  qed
  have "set (mirror_seeds order) = set order \<union> (\<lambda>c. 2 * ?n + 1 - c) ` set order"
    by (auto simp: mirror_seeds_def Let_def algebra_simps)
  then have set': "set (mirror_seeds order) = {1..2 * ?n}" unfolding s img by auto
  then have "card (set (mirror_seeds order)) = length (mirror_seeds order)" by simp
  then have "distinct (mirror_seeds order)" by (rule card_distinct)
  moreover have "mirror_seeds order ! (2 * i) + mirror_seeds order ! (2 * i + 1) = 2 * ?n + 1"
    if "2 * i + 1 < length (mirror_seeds order)" for i
    using mirror_seeds_nth [of i order] that by simp
  ultimately show ?thesis using set' by (simp add: bracket_ok_def)
qed

lemma grow_bracket_ok:
  assumes "bracket_ok order" and "length order = 2 ^ j" and "j \<le> k"
  shows "bracket_ok (grow_bracket (2 ^ k) order) \<and> length (grow_bracket (2 ^ k) order) = 2 ^ k"
  using assms
proof (induction "k - j" arbitrary: order j)
  case 0
  then have "\<not> length order < 2 ^ k" by simp
  then show ?case using 0 by (subst (1 2) grow_bracket.simps) simp
next
  case (Suc d)
  then have "length order < 2 ^ k" "order \<noteq> []" by auto
  then have step: "grow_bracket (2 ^ k) order = grow_bracket (2 ^ k) (mirror_seeds order)"
    by (subst grow_bracket.simps) simp
  show ?case unfolding step
    by (rule Suc.hyps(1) [of "Suc j"]) (use Suc mirror_seeds_ok in auto)
qed

lemma bracket_seed_order_ok:
  assumes "0 < k"
  shows "bracket_ok (bracket_seed_order (2 ^ k))" and "length (bracket_seed_order (2 ^ k)) = 2 ^ k"
proof -
  have "bracket_ok [1, 2]" by (auto simp: bracket_ok_def)
  from grow_bracket_ok [OF this, of 1 k] assms
  show "bracket_ok (bracket_seed_order (2 ^ k))" "length (bracket_seed_order (2 ^ k)) = 2 ^ k"
    by (simp_all add: bracket_seed_order_def)
qed

text \<open>The first round: the bracket is the least power of two that holds the participants.\<close>

function bracket_size_from :: "nat \<Rightarrow> nat \<Rightarrow> nat" where
  "bracket_size_from n width = (if 0 < width \<and> width < n then bracket_size_from n (width * 2) else width)"
  by pat_completeness auto
termination
  by (relation "measure (\<lambda>(n, width). n - width)") auto

declare bracket_size_from.simps [simp del]

fun adjacent_pairs :: "'a list \<Rightarrow> ('a \<times> 'a) list" where
  "adjacent_pairs (x # y # zs) = (x, y) # adjacent_pairs zs"
| "adjacent_pairs _ = []"

definition first_round_pairings :: "'a list \<Rightarrow> ('a option \<times> 'a option) list" where
  "first_round_pairings participants = (let
     width = bracket_size_from (length participants) 1;
     seeded = map (\<lambda>seed. if seed \<le> int (length participants) then Some (participants ! nat (seed - 1)) else None)
       (bracket_seed_order width)
   in adjacent_pairs seeded)"

lemma bracket_size_power:
  assumes "width = 2 ^ j" and "width = 1 \<or> width < 2 * n"
  shows "\<exists>k. j \<le> k \<and> bracket_size_from n width = 2 ^ k \<and> n \<le> 2 ^ k \<and> (2 ^ k = (1::nat) \<or> 2 ^ k < 2 * n)"
  using assms
proof (induction n width arbitrary: j rule: bracket_size_from.induct)
  case (1 n width)
  show ?case
  proof (cases "0 < width \<and> width < n")
    case True
    then have "bracket_size_from n width = bracket_size_from n (width * 2)"
      by (subst bracket_size_from.simps) simp
    moreover have "\<exists>k. Suc j \<le> k \<and> bracket_size_from n (width * 2) = 2 ^ k \<and> n \<le> 2 ^ k
        \<and> (2 ^ k = (1::nat) \<or> 2 ^ k < 2 * n)"
      by (rule 1(1) [OF True]) (use 1(2) True in auto)
    ultimately show ?thesis using Suc_leD by auto
  next
    case False
    then have "bracket_size_from n width = width" "n \<le> width"
      using 1(2) by (subst bracket_size_from.simps, auto)
    then show ?thesis using 1(2,3) by blast
  qed
qed

lemma adjacent_pairs_nth:
  "i < length xs div 2 \<Longrightarrow> adjacent_pairs xs ! i = (xs ! (2 * i), xs ! (2 * i + 1))"
proof (induction xs arbitrary: i rule: adjacent_pairs.induct)
  case (1 x y zs)
  then show ?case by (cases i) auto
qed auto

lemma length_adjacent_pairs [simp]: "length (adjacent_pairs xs) = length xs div 2"
  by (induction xs rule: adjacent_pairs.induct) auto

lemma concat_adjacent_pairs: "even (length xs) \<Longrightarrow> concat (map (\<lambda>(a, b). [a, b]) (adjacent_pairs xs)) = xs"
  by (induction xs rule: adjacent_pairs.induct) auto

lemma first_round_facts:
  assumes "2 \<le> length participants"
  shows "mset (concat (map (\<lambda>(a, b). [a, b]) (first_round_pairings participants)))
      = mset (map Some participants) + replicate_mset
          (2 * length (first_round_pairings participants) - length participants) None"
    and "p \<in> set (first_round_pairings participants) \<Longrightarrow> fst p \<noteq> None \<or> snd p \<noteq> None"
    and "\<exists>k>0. length (first_round_pairings participants) = 2 ^ (k - 1)
      \<and> length participants \<le> 2 ^ k \<and> 2 ^ k < 2 * length participants"
proof -
  let ?n = "length participants" and ?width = "bracket_size_from (length participants) 1"
  obtain k where k: "?width = 2 ^ k" "?n \<le> 2 ^ k" "2 ^ k = (1::nat) \<or> 2 ^ k < 2 * ?n"
    using bracket_size_power [of 1 0 ?n] by auto
  then have k0: "0 < k" using assms by (cases k) auto
  have small: "2 ^ k < 2 * ?n" using k(3) k0 assms by auto
  let ?o = "bracket_seed_order (2 ^ k)"
  define f where "f seed = (if seed \<le> int ?n then Some (participants ! nat (seed - 1)) else None)" for seed
  have fr: "first_round_pairings participants = adjacent_pairs (map f ?o)"
    unfolding first_round_pairings_def Let_def k(1) f_def ..
  note ok = bracket_seed_order_ok [OF k0]
  have ev: "even (length (map f ?o))" using ok(2) k0 by simp
  have len: "length (first_round_pairings participants) = 2 ^ (k - 1)"
    unfolding fr using ok(2) k0 by (cases k) simp_all
  then show "\<exists>k>0. length (first_round_pairings participants) = 2 ^ (k - 1)
      \<and> ?n \<le> 2 ^ k \<and> 2 ^ k < 2 * ?n"
    using k0 k(2) small by blast
  have kn: "int ?n \<le> 2 ^ k"
    using k(2) of_nat_le_iff [of ?n "2 ^ k", where 'a = int] by (simp only: of_nat_power of_nat_numeral)
  have n1: "1 \<le> int ?n" using assms by simp
  have "mset ?o = mset_set {1..2 ^ k}"
    using ok by (simp add: bracket_ok_def mset_set_set flip: mset_set_set)
  moreover have "mset [1..2 ^ k] = mset_set {1..2 ^ k :: int}"
    using mset_set_set [of "[1..2 ^ k :: int]"] by simp
  ultimately have "mset ?o = mset [1..2 ^ k]" by simp
  also have "[1..2 ^ k] = [1..int ?n] @ [int ?n + 1..2 ^ k]"
    by (rule upto_split2 [OF n1 kn])
  finally have "mset (map f ?o) = mset (map f [1..int ?n]) + mset (map f [int ?n + 1..2 ^ k])"
    by (metis map_append mset_append mset_map)
  moreover have "map f [1..int ?n] = map Some participants"
    by (rule nth_equalityI) (auto simp: f_def)
  moreover have "map f [int ?n + 1..2 ^ k] = replicate (nat (2 ^ k - int ?n)) None"
    by (rule nth_equalityI) (auto simp: f_def)
  moreover have "nat (2 ^ k - int ?n) = 2 * length (first_round_pairings participants) - ?n"
    using len k0 k(2) by (cases k) (simp_all add: nat_diff_distrib' nat_mult_distrib nat_power_eq)
  ultimately show "mset (concat (map (\<lambda>(a, b). [a, b]) (first_round_pairings participants)))
      = mset (map Some participants) + replicate_mset
          (2 * length (first_round_pairings participants) - ?n) None"
    using concat_adjacent_pairs [OF ev] fr by simp
  have sm: "2 ^ k < 2 * int ?n"
    using small of_nat_less_iff [of "2 ^ k" "2 * ?n", where 'a = int]
    by (simp only: of_nat_power of_nat_numeral of_nat_mult)
  assume "p \<in> set (first_round_pairings participants)"
  then obtain i where i: "i < length (first_round_pairings participants)" "p = first_round_pairings participants ! i"
    by (auto simp: in_set_conv_nth)
  have bound: "2 * i + 1 < 2 ^ k" using i(1) len k0 by (cases k) auto
  have p: "p = (f (?o ! (2 * i)), f (?o ! (2 * i + 1)))"
    using i adjacent_pairs_nth [of i "map f ?o"] bound ok(2) unfolding fr by simp
  have "?o ! (2 * i) + ?o ! (2 * i + 1) = 2 ^ k + 1"
    using ok bound by (simp add: bracket_ok_def)
  then have "?o ! (2 * i) \<le> int ?n \<or> ?o ! (2 * i + 1) \<le> int ?n"
    using sm by linarith
  then show "fst p \<noteq> None \<or> snd p \<noteq> None" unfolding p by (auto simp: f_def)
qed

text \<open>
  The first round of a knockout has a power of two of matches, every participant in exactly
  one of them, no match without a participant, and as few byes as that allows.
\<close>
theorem first_round_complete:
  assumes "2 \<le> length participants"
  shows "mset (concat (map (\<lambda>(a, b). [a, b]) (first_round_pairings participants)))
      = mset (map Some participants) + replicate_mset
          (2 * length (first_round_pairings participants) - length participants) None
    \<and> list_all (\<lambda>p. fst p \<noteq> None \<or> snd p \<noteq> None) (first_round_pairings participants)
    \<and> (\<exists>k. length (first_round_pairings participants) = 2 ^ k
        \<and> length participants \<le> 2 * 2 ^ k \<and> 2 ^ k < length participants)"
proof -
  obtain k where k: "0 < k" "length (first_round_pairings participants) = 2 ^ (k - 1)"
      "length participants \<le> 2 ^ k" "2 ^ k < 2 * length participants"
    using first_round_facts(3) [OF assms] by blast
  then have "length participants \<le> 2 * 2 ^ (k - 1) \<and> 2 ^ (k - 1) < length participants"
    by (cases k) auto
  then show ?thesis using first_round_facts(1,2) [OF assms] k(2) by (auto simp: list_all_iff)
qed

lemma first_round_complete_witness:
  "list_all (\<lambda>p. fst p \<noteq> None \<or> snd p \<noteq> None) (first_round_pairings [10, 20, 30, 40, 50 :: nat])"
  using first_round_complete [of "[10, 20, 30, 40, 50 :: nat]"] by simp

end
