(* ===== verification/Swiss_Search.thy ===== *)
theory Swiss_Search
  imports Tournament_Store Swiss_Bracket
begin

text \<open>
  The pairing of a Swiss round: points and opponents from the games so far, the backtracking
  search for pairings without a rematch, and the choice of colours.
\<close>

subsection \<open>Points and opponents\<close>

definition add_points :: "int \<Rightarrow> rat \<Rightarrow> (int \<Rightarrow> rat) \<Rightarrow> int \<Rightarrow> rat" where
  "add_points e p table = table(e := table e + p)"

definition swiss_points :: "game_record list \<Rightarrow> match_record list \<Rightarrow> int \<Rightarrow> rat" where
  "swiss_points gs ms = (let
     after_games = foldl (\<lambda>points g. case game_result g of
         Some White_Won \<Rightarrow> add_points (white_engine g) 1 points
       | Some Black_Won \<Rightarrow> add_points (black_engine g) 1 points
       | Some Game_Drawn \<Rightarrow> add_points (black_engine g) (1 / 2) (add_points (white_engine g) (1 / 2) points)
       | None \<Rightarrow> points) (\<lambda>e. 0) gs
   in foldl (\<lambda>points m. if match_status m = Match_Bye then add_points (engine1 m) 1 points else points) after_games ms)"

definition swiss_buchholz :: "game_record list \<Rightarrow> (int \<Rightarrow> rat) \<Rightarrow> int \<Rightarrow> rat" where
  "swiss_buchholz gs points = foldl (\<lambda>buchholz g. case game_result g of
       None \<Rightarrow> buchholz
     | Some r \<Rightarrow> add_points (black_engine g) (points (white_engine g))
         (add_points (white_engine g) (points (black_engine g)) buchholz)) (\<lambda>e. 0) gs"

definition opponent_history :: "game_record list \<Rightarrow> int \<Rightarrow> int set" where
  "opponent_history gs = foldl (\<lambda>opponents g. let
       o1 = opponents(white_engine g := insert (black_engine g) (opponents (white_engine g)))
     in o1(black_engine g := insert (white_engine g) (o1 (black_engine g)))) (\<lambda>e. {}) gs"

lemma opponent_history_iff:
  "b \<in> opponent_history gs a \<longleftrightarrow> (\<exists>g \<in> set gs. (white_engine g, black_engine g) \<in> {(a, b), (b, a)})"
proof -
  have "b \<in> foldl (\<lambda>opponents g. let
       o1 = opponents(white_engine g := insert (black_engine g) (opponents (white_engine g)))
     in o1(black_engine g := insert (white_engine g) (o1 (black_engine g)))) opp gs a
    \<longleftrightarrow> b \<in> opp a \<or> (\<exists>g \<in> set gs. (white_engine g, black_engine g) \<in> {(a, b), (b, a)})" for opp
    by (induction gs arbitrary: opp) (auto simp: Let_def)
  then show ?thesis by (simp add: opponent_history_def)
qed

lemma opponent_history_sym: "b \<in> opponent_history gs a \<longleftrightarrow> a \<in> opponent_history gs b"
  unfolding opponent_history_iff by (auto simp: insert_commute)

subsection \<open>The search\<close>

text \<open>The key by which candidates are tried: rematches last, then by points and rank.\<close>

definition candidate_key :: "(int \<Rightarrow> int set) \<Rightarrow> (int \<Rightarrow> rat) \<Rightarrow> (int \<Rightarrow> int) \<Rightarrow> int \<Rightarrow> int \<Rightarrow> bool \<times> rat \<times> int" where
  "candidate_key opponents points rank first second =
     (second \<in> opponents first, \<bar>points first - points second\<bar>, \<bar>rank first - rank second\<bar>)"

function (sequential) swiss_pair :: "(int \<Rightarrow> int set) \<Rightarrow> (int \<Rightarrow> rat) \<Rightarrow> (int \<Rightarrow> int) \<Rightarrow> bool
    \<Rightarrow> int list \<Rightarrow> (int \<times> int) list option"
  and swiss_try :: "(int \<Rightarrow> int set) \<Rightarrow> (int \<Rightarrow> rat) \<Rightarrow> (int \<Rightarrow> int) \<Rightarrow> bool
    \<Rightarrow> int \<Rightarrow> int list \<Rightarrow> int list \<Rightarrow> (int \<times> int) list option" where
  "swiss_pair opponents points rank allow_rematches [] = Some []"
| "swiss_pair opponents points rank allow_rematches (first # others) =
     swiss_try opponents points rank allow_rematches first others
       (sort_key (candidate_key opponents points rank first) others)"
| "swiss_try opponents points rank allow_rematches first others [] = None"
| "swiss_try opponents points rank allow_rematches first others (second # candidates) =
     (if \<not> allow_rematches \<and> second \<in> opponents first
      then swiss_try opponents points rank allow_rematches first others candidates
      else case swiss_pair opponents points rank allow_rematches (filter (\<lambda>e. e \<noteq> second) others) of
          Some paired_rest \<Rightarrow> Some ((first, second) # paired_rest)
        | None \<Rightarrow> swiss_try opponents points rank allow_rematches first others candidates)"
  by pat_completeness auto
termination
  by (relation "measures [\<lambda>args. case args of
        Inl (opponents, points, rank, allow, remaining) \<Rightarrow> 2 * length remaining
      | Inr (opponents, points, rank, allow, first, others, candidates) \<Rightarrow> 2 * length others + 1,
    \<lambda>args. case args of Inl (opponents, points, rank, allow, remaining) \<Rightarrow> 0
      | Inr (opponents, points, rank, allow, first, others, candidates) \<Rightarrow> length candidates]")
    (auto simp: le_imp_less_Suc)

definition index_of :: "int list \<Rightarrow> int \<Rightarrow> int" where
  "index_of ranked e = (case list_index ranked e of Some i \<Rightarrow> int i | None \<Rightarrow> 0)"

definition swiss_pairings :: "int list \<Rightarrow> (int \<Rightarrow> rat) \<Rightarrow> (int \<Rightarrow> int set) \<Rightarrow> (int \<times> int) list" where
  "swiss_pairings ranked points opponents = (case swiss_pair opponents points (index_of ranked) False ranked of
     Some (p # ps) \<Rightarrow> p # ps
   | _ \<Rightarrow> (case swiss_pair opponents points (index_of ranked) True ranked of Some ps \<Rightarrow> ps | None \<Rightarrow> []))"

subsection \<open>What the search finds\<close>

definition matching_of :: "(int \<Rightarrow> int \<Rightarrow> bool) \<Rightarrow> int list \<Rightarrow> (int \<times> int) list \<Rightarrow> bool" where
  "matching_of allowed remaining ps = (mset (concat (map (\<lambda>(a, b). [a, b]) ps)) = mset remaining
     \<and> (\<forall>(a, b) \<in> set ps. allowed a b))"

lemma matching_of_Nil [simp]: "matching_of allowed [] ps \<longleftrightarrow> ps = []"
  by (cases ps) (auto simp: matching_of_def)

lemma mset_take_out:
  assumes "distinct xs" and "x \<in> set xs"
  shows "mset xs = add_mset x (mset (filter (\<lambda>e. e \<noteq> x) xs))"
  using assms
proof (induction xs)
  case (Cons y ys)
  show ?case
  proof (cases "x = y")
    case True
    then have "\<And>z. z \<in> set ys \<Longrightarrow> z \<noteq> x" using Cons.prems(1) by auto
    then have "filter (\<lambda>e. e \<noteq> x) ys = ys" by (rule filter_True [OF ballI])
    then show ?thesis using True by (simp del: mset_filter)
  next
    case False
    then show ?thesis using Cons by auto
  qed
qed simp

lemma matching_of_Cons:
  assumes "distinct (first # others)" and "second \<in> set others" and "allowed first second"
    and "matching_of allowed (filter (\<lambda>e. e \<noteq> second) others) ps"
  shows "matching_of allowed (first # others) ((first, second) # ps)"
proof -
  have "mset others = add_mset second (mset (filter (\<lambda>e. e \<noteq> second) others))"
    using assms(1,2) by (intro mset_take_out) simp_all
  then show ?thesis using assms(3,4) by (simp add: matching_of_def)
qed

lemma swiss_search_sound:
  "swiss_pair opponents points rank allow remaining = Some ps \<Longrightarrow> distinct remaining \<Longrightarrow>
    matching_of (\<lambda>a b. allow \<or> b \<notin> opponents a) remaining ps"
  "swiss_try opponents points rank allow first others candidates = Some ps \<Longrightarrow> distinct (first # others) \<Longrightarrow>
    set candidates \<subseteq> set others \<Longrightarrow> matching_of (\<lambda>a b. allow \<or> b \<notin> opponents a) (first # others) ps"
proof (induction opponents points rank allow remaining and opponents points rank allow first others candidates
    arbitrary: ps and ps rule: swiss_pair_swiss_try.induct)
  case (4 opponents points rank allow first others second candidates)
  show ?case
  proof (cases "\<not> allow \<and> second \<in> opponents first")
    case True
    then show ?thesis using 4 by simp
  next
    case False
    show ?thesis
    proof (cases "swiss_pair opponents points rank allow (filter (\<lambda>e. e \<noteq> second) others)")
      case None
      then show ?thesis using 4 False by auto
    next
      case (Some rest)
      then have ps: "ps = (first, second) # rest" using 4(4) False by simp
      have "matching_of (\<lambda>a b. allow \<or> b \<notin> opponents a) (filter (\<lambda>e. e \<noteq> second) others) rest"
        by (rule 4(2) [OF False Some]) (use 4(5) in simp)
      then show ?thesis unfolding ps
        by (rule matching_of_Cons [rotated 3]) (use 4(5,6) False in auto)
    qed
  qed
qed auto

text \<open>Taking the pair of one engine out of a matching.\<close>

lemma matching_of_first:
  assumes "matching_of allowed (first # others) M" and "distinct (first # others)"
    and "\<And>a b. allowed a b \<longleftrightarrow> allowed b a"
  shows "\<exists>second M'. second \<in> set others \<and> allowed first second
    \<and> matching_of allowed (filter (\<lambda>e. e \<noteq> second) others) M'"
proof -
  have m: "mset (concat (map (\<lambda>(a, b). [a, b]) M)) = mset (first # others)" using assms(1) by (simp add: matching_of_def)
  then have "first \<in> set (concat (map (\<lambda>(a, b). [a, b]) M))" by (metis list.set_intros(1) set_mset_mset)
  then obtain a b where ab: "(a, b) \<in> set M" "first = a \<or> first = b" by auto
  define second where "second = (if first = a then b else a)"
  have al: "allowed first second" using assms(1,3) ab by (auto simp: matching_of_def second_def)
  obtain M1 M2 where M: "M = M1 @ (a, b) # M2" using ab(1) by (meson split_list)
  have pair: "{#a, b#} = {#first, second#}" using ab(2) by (auto simp: second_def add_mset_commute)
  have "mset (concat (map (\<lambda>(a, b). [a, b]) (M1 @ M2))) + {#a, b#} = mset (first # others)"
    using m unfolding M by simp
  then have rest: "add_mset second (mset (concat (map (\<lambda>(a, b). [a, b]) (M1 @ M2)))) = mset others"
    unfolding pair by simp
  then have s: "second \<in> set others" by (metis set_mset_mset union_single_eq_member)
  have "mset others = add_mset second (mset (filter (\<lambda>e. e \<noteq> second) others))"
    using assms(2) s by (intro mset_take_out) simp_all
  then have "mset (concat (map (\<lambda>(a, b). [a, b]) (M1 @ M2))) = mset (filter (\<lambda>e. e \<noteq> second) others)"
    using rest by (metis add_mset_add_mset_same_iff)
  then have "matching_of allowed (filter (\<lambda>e. e \<noteq> second) others) (M1 @ M2)"
    using assms(1) unfolding M by (auto simp: matching_of_def)
  then show ?thesis using s al by blast
qed

lemma swiss_search_complete:
  assumes sym: "\<And>a b. b \<in> opponents a \<longleftrightarrow> a \<in> opponents b"
  shows "distinct remaining \<Longrightarrow> matching_of (\<lambda>a b. allow \<or> b \<notin> opponents a) remaining M \<Longrightarrow>
      \<exists>ps. swiss_pair opponents points rank allow remaining = Some ps"
    and "distinct (first # others) \<Longrightarrow> second \<in> set candidates \<Longrightarrow> allow \<or> second \<notin> opponents first \<Longrightarrow>
      matching_of (\<lambda>a b. allow \<or> b \<notin> opponents a) (filter (\<lambda>e. e \<noteq> second) others) M \<Longrightarrow>
      \<exists>ps. swiss_try opponents points rank allow first others candidates = Some ps"
  using sym
proof (induction opponents points rank allow remaining and opponents points rank allow first others candidates
    arbitrary: M and M second rule: swiss_pair_swiss_try.induct)
  case (2 opponents points rank allow first others)
  have "\<exists>second M'. second \<in> set others \<and> (allow \<or> second \<notin> opponents first)
      \<and> matching_of (\<lambda>a b. allow \<or> b \<notin> opponents a) (filter (\<lambda>e. e \<noteq> second) others) M'"
    by (rule matching_of_first [OF 2(3,2)]) (use 2(4) in blast)
  then obtain second M' where s: "second \<in> set others" "allow \<or> second \<notin> opponents first"
      "matching_of (\<lambda>a b. allow \<or> b \<notin> opponents a) (filter (\<lambda>e. e \<noteq> second) others) M'"
    by blast
  have "\<exists>ps. swiss_try opponents points rank allow first others
      (sort_key (candidate_key opponents points rank first) others) = Some ps"
    by (rule 2(1) [of second M']) (use 2(2,4) s in auto)
  then show ?case by simp
next
  case (4 opponents points rank allow first others other candidates)
  show ?case
  proof (cases "\<not> allow \<and> other \<in> opponents first")
    case True
    then have "second \<noteq> other" using 4(6) by auto
    then have "\<exists>ps. swiss_try opponents points rank allow first others candidates = Some ps"
      using 4(5) by (intro 4(1) [OF True 4(4) _ 4(6,7,8)]) auto
    then show ?thesis using True by simp
  next
    case False
    show ?thesis
    proof (cases "swiss_pair opponents points rank allow (filter (\<lambda>e. e \<noteq> other) others)")
      case None
      have "second \<noteq> other"
      proof
        assume eq: "second = other"
        have "distinct (filter (\<lambda>e. e \<noteq> other) others)" using 4(4) by simp
        from 4(2) [OF False this 4(7) [unfolded eq] 4(8)] None show False by simp
      qed
      then have "\<exists>ps. swiss_try opponents points rank allow first others candidates = Some ps"
        using 4(5) by (intro 4(3) [OF False None 4(4) _ 4(6,7,8)]) auto
      then show ?thesis using False None by (cases allow) auto
    next
      case (Some rest)
      then show ?thesis using False by (cases allow) auto
    qed
  qed
qed auto

lemma adjacent_matching:
  assumes "even (length xs)"
  shows "matching_of (\<lambda>a b. True) xs (adjacent_pairs xs)"
  using concat_adjacent_pairs [OF assms] by (simp add: matching_of_def)

lemma swiss_pairings_facts:
  assumes "distinct ranked" and "even (length ranked)"
  shows "matching_of (\<lambda>a b. True) ranked (swiss_pairings ranked points (opponent_history gs))"
    and "matching_of (\<lambda>a b. b \<notin> opponent_history gs a) ranked M \<Longrightarrow>
      matching_of (\<lambda>a b. b \<notin> opponent_history gs a) ranked (swiss_pairings ranked points (opponent_history gs))"
proof -
  let ?opp = "opponent_history gs"
  let ?pair = "\<lambda>allow. swiss_pair ?opp points (index_of ranked) allow ranked"
  note sound = swiss_search_sound(1) [OF _ assms(1)]
  obtain all where all: "?pair True = Some all"
    using swiss_search_complete(1) [OF opponent_history_sym assms(1), where allow = True and M = "adjacent_pairs ranked"]
      adjacent_matching [OF assms(2)] by (simp, blast)
  have all_ok: "matching_of (\<lambda>a b. True) ranked all" using sound [OF all] by simp
  have weaken: "matching_of (\<lambda>a b. True) ranked ps" if "matching_of P ranked ps" for P ps
    using that by (auto simp: matching_of_def)
  show "matching_of (\<lambda>a b. True) ranked (swiss_pairings ranked points ?opp)"
    using all all_ok weaken [OF sound] by (auto simp: swiss_pairings_def split: option.splits list.splits)
  assume "matching_of (\<lambda>a b. b \<notin> ?opp a) ranked M"
  then obtain ps where ps: "?pair False = Some ps"
    using swiss_search_complete(1) [OF opponent_history_sym assms(1), where allow = False and M = M] by (simp, blast)
  have ps_ok: "matching_of (\<lambda>a b. b \<notin> ?opp a) ranked ps" using sound [OF ps] by simp
  show "matching_of (\<lambda>a b. b \<notin> ?opp a) ranked (swiss_pairings ranked points ?opp)"
  proof (cases ps)
    case Nil
    then have "ranked = []" using ps_ok by (simp add: matching_of_def)
    then have "all = []" using all_ok by simp
    then show ?thesis using ps all Nil ps_ok by (simp add: swiss_pairings_def)
  next
    case (Cons p qs)
    then show ?thesis using ps ps_ok by (simp add: swiss_pairings_def)
  qed
qed

text \<open>
  C12: The Swiss search pairs every engine exactly once, whatever the points and the games so
  far, and without a rematch whenever some pairing without a rematch exists.
\<close>
theorem swiss_pairings_perfect:
  assumes "distinct ranked" and "even (length ranked)"
  shows "matching_of (\<lambda>a b. True) ranked (swiss_pairings ranked points (opponent_history gs))
    \<and> ((\<exists>M. matching_of (\<lambda>a b. b \<notin> opponent_history gs a) ranked M) \<longrightarrow>
      matching_of (\<lambda>a b. b \<notin> opponent_history gs a) ranked (swiss_pairings ranked points (opponent_history gs)))"
  using swiss_pairings_facts [OF assms] by blast

definition sample_game :: "int \<Rightarrow> int \<Rightarrow> int \<Rightarrow> game_record" where
  "sample_game i white black = \<lparr>game_id = i, game_tournament = 1, game_round = 1, game_pair = i,
     white_engine = white, black_engine = black, game_match = None, game_number = 1, tiebreak = None,
     game_opening = None, game_status = Game_Finished, record_eligible = True, game_result = Some White_Won\<rparr>"

lemma swiss_pairings_perfect_witness:
  "swiss_pairings [1, 2, 3, 4] (swiss_points [sample_game 1 1 3, sample_game 2 2 4] [])
      (opponent_history [sample_game 1 1 3, sample_game 2 2 4]) = [(1, 2), (3, 4)]
    \<and> matching_of (\<lambda>a b. True) [1, 2, 3, 4] (swiss_pairings [1, 2, 3, 4]
      (swiss_points [sample_game 1 1 3, sample_game 2 2 4] [])
      (opponent_history [sample_game 1 1 3, sample_game 2 2 4]))"
proof (rule conjI)
  show "swiss_pairings [1, 2, 3, 4] (swiss_points [sample_game 1 1 3, sample_game 2 2 4] [])
      (opponent_history [sample_game 1 1 3, sample_game 2 2 4]) = [(1, 2), (3, 4)]"
    by (simp add: swiss_pairings_def swiss_points_def opponent_history_def add_points_def sample_game_def
        index_of_def candidate_key_def Let_def)
qed (rule conjunct1 [OF swiss_pairings_perfect], simp_all)

subsection \<open>Colours\<close>

text \<open>The colours an engine had, in the order of its games; \<open>True\<close> is white.\<close>

definition colour_history :: "int \<Rightarrow> game_record list \<Rightarrow> bool list" where
  "colour_history e gs = concat (map (\<lambda>g. (if white_engine g = e then [True] else [])
     @ (if black_engine g = e then [False] else [])) gs)"

definition colour_balance :: "int \<Rightarrow> game_record list \<Rightarrow> int" where
  "colour_balance e gs = foldl (\<lambda>b g. (if black_engine g = e then (if white_engine g = e then b + 1 else b) - 1
     else if white_engine g = e then b + 1 else b)) 0 gs"

definition ends_with :: "'a list \<Rightarrow> 'a list \<Rightarrow> bool" where
  "ends_with suffix xs = (drop (length xs - length suffix) xs = suffix)"

definition colour_cost :: "game_record list \<Rightarrow> int \<times> int \<Rightarrow> int" where
  "colour_cost gs = (\<lambda>(white, black).
     \<bar>colour_balance white gs + 1\<bar> + \<bar>colour_balance black gs - 1\<bar>
     + (if ends_with [True] (colour_history white gs) then 2 else 0)
     + (if ends_with [False] (colour_history black gs) then 2 else 0)
     + (if ends_with [True, True] (colour_history white gs) then 8 else 0)
     + (if ends_with [False, False] (colour_history black gs) then 8 else 0))"

definition swiss_colours :: "int \<Rightarrow> int \<Rightarrow> game_record list \<Rightarrow> int \<times> int" where
  "swiss_colours first second gs = min_key (colour_cost gs) (first, second) [(second, first)]"

lemma ends_with_iff: "ends_with suffix xs \<longleftrightarrow> (\<exists>ys. xs = ys @ suffix)"
proof
  assume "ends_with suffix xs"
  then show "\<exists>ys. xs = ys @ suffix"
    unfolding ends_with_def by (metis append_take_drop_id)
qed (auto simp: ends_with_def)

lemma ends_with_twice: "ends_with [c, c] xs \<Longrightarrow> ends_with [c] xs"
  unfolding ends_with_iff by (metis append.assoc append_Cons append_Nil)

lemma ends_with_clash: "ends_with [True] xs \<Longrightarrow> \<not> ends_with [False] xs"
  by (auto simp: ends_with_iff)

lemma ends_with_twice_clash: "ends_with [True, True] xs \<Longrightarrow> \<not> ends_with [False, False] xs"
  using ends_with_twice [of True xs] ends_with_twice [of False xs] ends_with_clash [of xs] by blast

lemma swiss_colours_cases:
  obtains "swiss_colours first second gs = (first, second)" "colour_cost gs (first, second) \<le> colour_cost gs (second, first)"
  | "swiss_colours first second gs = (second, first)" "colour_cost gs (second, first) < colour_cost gs (first, second)"
  by (cases "colour_cost gs (second, first) < colour_cost gs (first, second)") (auto simp: swiss_colours_def)

lemma balance_gap:
  fixes x y :: int
  shows "\<bar>x + 1\<bar> + \<bar>y - 1\<bar> \<le> \<bar>y + 1\<bar> + \<bar>x - 1\<bar> + 4"
proof -
  have "\<bar>x + 1\<bar> \<le> \<bar>x - 1\<bar> + 2" for x :: int by arith
  moreover have "\<bar>y - 1\<bar> \<le> \<bar>y + 1\<bar> + 2" by arith
  ultimately show ?thesis using add_mono by fastforce
qed

text \<open>The cost of giving a third white in a row is never the lower one.\<close>

lemma third_white_costs:
  assumes "ends_with [True, True] (colour_history a gs)" and "\<not> ends_with [True, True] (colour_history b gs)"
  shows "colour_cost gs (b, a) < colour_cost gs (a, b)"
proof -
  note last = ends_with_twice [OF assms(1)]
  have a: "ends_with [True] (colour_history a gs)" "\<not> ends_with [False] (colour_history a gs)"
    "\<not> ends_with [False, False] (colour_history a gs)"
    by (rule last, rule ends_with_clash [OF last], rule ends_with_twice_clash [OF assms(1)])
  show ?thesis
    using assms a balance_gap [of "colour_balance b gs" "colour_balance a gs"]
    by (simp add: colour_cost_def)
qed

lemma third_black_costs:
  assumes "ends_with [False, False] (colour_history a gs)" and "\<not> ends_with [False, False] (colour_history b gs)"
  shows "colour_cost gs (a, b) < colour_cost gs (b, a)"
proof -
  note last = ends_with_twice [OF assms(1)]
  have a: "ends_with [False] (colour_history a gs)" "\<not> ends_with [True] (colour_history a gs)"
    "\<not> ends_with [True, True] (colour_history a gs)"
    by (rule last, use ends_with_clash last in fast, use ends_with_twice_clash assms(1) in fast)
  show ?thesis
    using assms a balance_gap [of "colour_balance a gs" "colour_balance b gs"]
    by (simp add: colour_cost_def)
qed

text \<open>
  C13: Two paired engines get the two colours, and neither gets the same colour a third time in
  a row, unless both had that colour in their last two games.
\<close>
theorem no_third_colour:
  assumes "first \<noteq> second" and "swiss_colours first second gs = (white, black)"
  shows "{white, black} = {first, second}
    \<and> (ends_with [True, True] (colour_history white gs) \<longrightarrow> ends_with [True, True] (colour_history black gs))
    \<and> (ends_with [False, False] (colour_history black gs) \<longrightarrow> ends_with [False, False] (colour_history white gs))"
proof (cases rule: swiss_colours_cases [of first second gs])
  case 1
  then have "white = first" "black = second" "\<not> colour_cost gs (black, white) < colour_cost gs (white, black)"
    using assms(2) by auto
  then show ?thesis using third_white_costs [of white gs black] third_black_costs [of black gs white] by blast
next
  case 2
  then have "white = second" "black = first" "\<not> colour_cost gs (black, white) < colour_cost gs (white, black)"
    using assms(2) by auto
  then show ?thesis using third_white_costs [of white gs black] third_black_costs [of black gs white] by blast
qed

lemma no_third_colour_witness:
  "swiss_colours 1 2 [sample_game 1 1 3, sample_game 2 1 4] = (2, 1)
    \<and> {2, 1} = {1, 2 :: int}"
proof (rule conjI)
  show c: "swiss_colours 1 2 [sample_game 1 1 3, sample_game 2 1 4] = (2, 1)"
    by (simp add: swiss_colours_def colour_cost_def colour_balance_def colour_history_def ends_with_def sample_game_def)
  show "{2, 1} = {1, 2 :: int}" by (rule conjunct1 [OF no_third_colour [OF _ c]]) simp
qed

end
