(* ===== verification/Scheduler_Rounds.thy ===== *)
theory Scheduler_Rounds
  imports Scheduler_Games Swiss_Search
begin

text \<open>
  The rounds of the Swiss and knockout formats: the matches of a round with their games, how a
  match is decided, and how a finished round leads to the next one.
\<close>

subsection \<open>Deciding a match\<close>

definition game_winner :: "game_record \<Rightarrow> int option" where
  "game_winner g = (case game_result g of
     Some White_Won \<Rightarrow> Some (white_engine g) | Some Black_Won \<Rightarrow> Some (black_engine g) | _ \<Rightarrow> None)"

definition count_match_game :: "match_record \<Rightarrow> rat \<times> rat \<Rightarrow> game_record \<Rightarrow> rat \<times> rat" where
  "count_match_game m = (\<lambda>(first_points, second_points) g.
     if tiebreak g = Some Armageddon then (first_points, second_points)
     else if game_result g = Some Game_Drawn then (first_points + 1 / 2, second_points + 1 / 2)
     else if game_winner g = Some (engine1 m) then (first_points + 1, second_points)
     else if game_winner g = engine2 m then (first_points, second_points + 1)
     else (first_points, second_points))"

definition match_points :: "match_record \<Rightarrow> game_record list \<Rightarrow> rat \<times> rat" where
  "match_points m gs = foldl (count_match_game m) (0, 0) gs"

text \<open>The games of a match: the entry of the dictionary \<open>games_by_match\<close>, empty where it has none.\<close>

definition games_by_match :: "game_record list \<Rightarrow> int \<Rightarrow> game_record list" where
  "games_by_match gs m = sort_key (\<lambda>g. (game_number g, game_id g)) (filter (\<lambda>g. game_match g = Some m) gs)"

record tournament_advance =
  created_games :: int
  complete :: bool

subsection \<open>Swiss rounds\<close>

definition swiss_ranking :: "int list \<Rightarrow> game_record list \<Rightarrow> match_record list \<Rightarrow> int list" where
  "swiss_ranking ps gs ms = (let points = swiss_points gs ms; buchholz = swiss_buchholz gs points
     in sort_key (\<lambda>e. (- points e, - buchholz e, index_of ps e)) ps)"

definition swiss_bye :: "int list \<Rightarrow> match_record list \<Rightarrow> int option" where
  "swiss_bye ranked ms = (if length ranked mod 2 = 1 then
     (let previous_byes = map engine1 (filter (\<lambda>m. match_status m = Match_Bye \<and> engine2 m = None) ms)
      in case List.find (\<lambda>e. e \<notin> set previous_byes) (rev ranked) of
           Some e \<Rightarrow> Some e | None \<Rightarrow> Some (last ranked))
     else None)"

definition match_legs :: "int \<Rightarrow> int \<Rightarrow> int \<Rightarrow> int \<Rightarrow> int \<Rightarrow> nat \<Rightarrow> planned_game list" where
  "match_legs rnd index match white black offset = map (\<lambda>(number, w, b).
     \<lparr>plan_round = rnd, plan_pair = index, plan_white = w, plan_black = b, plan_match = Some match,
      plan_number = number, plan_tiebreak = None, plan_offset = offset\<rparr>)
     [(1, white, black), (2, black, white)]"

definition create_swiss_match :: "tournament_record \<Rightarrow> int \<Rightarrow> game_record list \<Rightarrow> int list
    \<Rightarrow> store \<Rightarrow> nat \<times> int \<times> int \<Rightarrow> store result" where
  "create_swiss_match t rnd gs ids s = (\<lambda>(index, first, second). let
     (white, black) = swiss_colours first second gs
   in rbind (create_tournament_match s (tour_id t) rnd (int index) first (Some second) Match_Pending None)
     (\<lambda>(s', match). create_games t ids s' (match_legs rnd (int index) match white black (index - 1))))"

text \<open>Who has the bye and who plays whom.\<close>

definition swiss_round_pairings :: "int \<Rightarrow> int list \<Rightarrow> game_record list \<Rightarrow> match_record list
    \<Rightarrow> int option \<times> (int \<times> int) list" where
  "swiss_round_pairings rnd ps gs ms = (let
     all_ranked = swiss_ranking ps gs ms;
     bye = swiss_bye all_ranked ms;
     ranked = (case bye of None \<Rightarrow> all_ranked | Some e \<Rightarrow> remove1 e all_ranked);
     midpoint = length ranked div 2
   in (bye, if rnd = 1 then zip (take midpoint ranked) (drop midpoint ranked)
       else swiss_pairings ranked (swiss_points gs ms) (opponent_history gs)))"

definition generate_swiss_round :: "store \<Rightarrow> tournament_record \<Rightarrow> int \<Rightarrow> (store \<times> int) result" where
  "generate_swiss_round s t rnd = (case format_options (tour_config t) of
     SwissFormatOptions rounds \<Rightarrow>
       if rnd < 1 \<or> rnd > rounds then Inr (s, 0)
       else let
         gs = list_games s (tour_id t);
         ms = list_tournament_matches s (tour_id t) None;
         (bye, pairings) = swiss_round_pairings rnd (participants (tour_config t)) gs ms;
         (s1, ids) = opening_ids s t (length pairings)
       in rbind (fold_result (create_swiss_match t rnd gs ids) s1 (enumerate 1 pairings)) (\<lambda>s2.
          case bye of None \<Rightarrow> Inr (s2, int (2 * length pairings))
          | Some e \<Rightarrow> rbind (create_tournament_match s2 (tour_id t) rnd (int (length pairings + 1)) e None Match_Bye (Some e))
              (\<lambda>(s3, i). Inr (s3, int (2 * length pairings))))
   | _ \<Rightarrow> Inl (ValueError ''Swiss tournament has invalid format options''))"

definition finish_swiss_match :: "(int \<Rightarrow> game_record list) \<Rightarrow> store \<Rightarrow> match_record \<Rightarrow> store" where
  "finish_swiss_match by_match s m = (let (first_points, second_points) = match_points m (by_match (match_id m)) in
     finish_tournament_match (match_id m)
       (if first_points > second_points then Some (engine1 m)
        else if second_points > first_points then engine2 m else None) s)"

text \<open>
  The loop over the pending matches of a round: it stops the whole step, keeping the matches
  finished so far, at a match that has no games.
\<close>

fun finish_swiss_matches :: "(int \<Rightarrow> game_record list) \<Rightarrow> store \<Rightarrow> match_record list \<Rightarrow> store \<times> bool" where
  "finish_swiss_matches by_match s [] = (s, True)"
| "finish_swiss_matches by_match s (m # ms) =
     (if match_status m \<noteq> Match_Pending then finish_swiss_matches by_match s ms
      else if by_match (match_id m) = [] then (s, False)
      else finish_swiss_matches by_match (finish_swiss_match by_match s m) ms)"

definition current_round :: "match_record list \<Rightarrow> int" where
  "current_round ms = Max (set (map match_round ms))"

definition advance_swiss :: "store \<Rightarrow> tournament_record \<Rightarrow> (store \<times> tournament_advance) result" where
  "advance_swiss s t = (case format_options (tour_config t) of
     SwissFormatOptions rounds \<Rightarrow> let ms = list_tournament_matches s (tour_id t) None in
       if ms = [] then rbind (generate_swiss_round s t 1) (\<lambda>(s', n). Inr (s', \<lparr>created_games = n, complete = False\<rparr>))
       else let
         rnd = current_round ms;
         round_matches = filter (\<lambda>m. match_round m = rnd) ms;
         by_match = games_by_match (list_games s (tour_id t))
       in if list_ex (\<lambda>m. match_status m \<noteq> Match_Bye
             \<and> list_ex (\<lambda>g. game_status g \<noteq> Game_Finished) (by_match (match_id m))) round_matches
          then Inr (s, \<lparr>created_games = 0, complete = False\<rparr>)
          else (case finish_swiss_matches by_match s round_matches of
              (s', False) \<Rightarrow> Inr (s', \<lparr>created_games = 0, complete = False\<rparr>)
            | (s', True) \<Rightarrow> if rounds \<le> rnd then Inr (s', \<lparr>created_games = 0, complete = True\<rparr>)
                else rbind (generate_swiss_round s' t (rnd + 1)) (\<lambda>(s'', n).
                  Inr (s'', \<lparr>created_games = n, complete = False\<rparr>)))
   | _ \<Rightarrow> Inr (s, \<lparr>created_games = 0, complete = False\<rparr>))"

subsection \<open>Knockout rounds\<close>

definition create_knockout_match :: "tournament_record \<Rightarrow> int \<Rightarrow> int list \<Rightarrow> store \<times> int \<times> int
    \<Rightarrow> nat \<times> int option \<times> int option \<Rightarrow> (store \<times> int \<times> int) result" where
  "create_knockout_match t rnd ids = (\<lambda>(s, pair_index, created) (index, first, second).
     case (if first \<noteq> None then first else second) of
       None \<Rightarrow> Inr (s, pair_index, created)
     | Some entrant \<Rightarrow> (case (first, second) of
         (Some a, Some b) \<Rightarrow>
           rbind (create_tournament_match s (tour_id t) rnd (int index) a (Some b) Match_Pending None) (\<lambda>(s', match).
           rbind (create_games t ids s' (map (\<lambda>number.
             \<lparr>plan_round = rnd, plan_pair = pair_index + number - 1,
              plan_white = (if number mod 2 = 1 then a else b), plan_black = (if number mod 2 = 1 then b else a),
              plan_match = Some match, plan_number = number, plan_tiebreak = None, plan_offset = index - 1\<rparr>) [1, 2]))
           (\<lambda>s''. Inr (s'', pair_index + 2, created + 2)))
       | _ \<Rightarrow> rbind (create_tournament_match s (tour_id t) rnd (int index) entrant None Match_Bye (Some entrant))
           (\<lambda>(s', match). Inr (s', pair_index, created))))"

definition create_knockout_round :: "store \<Rightarrow> tournament_record \<Rightarrow> int \<Rightarrow> (int option \<times> int option) list
    \<Rightarrow> (store \<times> int) result" where
  "create_knockout_round s t rnd pairings = (case format_options (tour_config t) of
     KnockoutFormatOptions \<Rightarrow> let (s1, ids) = opening_ids s t (length pairings) in
       rbind (fold_result (create_knockout_match t rnd ids) (s1, 1, 0) (enumerate 1 pairings))
         (\<lambda>(s2, pair_index, created). Inr (s2, created))
   | _ \<Rightarrow> Inl (ValueError ''knockout tournament has invalid format options''))"

definition generate_knockout_first_round :: "store \<Rightarrow> tournament_record \<Rightarrow> (store \<times> int) result" where
  "generate_knockout_first_round s t = (case format_options (tour_config t) of
     KnockoutFormatOptions \<Rightarrow> create_knockout_round s t 1 (first_round_pairings (participants (tour_config t)))
   | _ \<Rightarrow> Inl (ValueError ''knockout tournament has invalid format options''))"

definition append_plans :: "match_record \<Rightarrow> int \<Rightarrow> int \<Rightarrow> int \<Rightarrow> nat \<Rightarrow> tiebreak_kind \<Rightarrow> planned_game list" where
  "append_plans m second next_number next_pair number_of_games kind = map (\<lambda>offset. let
       number = next_number + int offset
     in \<lparr>plan_round = match_round m, plan_pair = next_pair + int offset,
         plan_white = (if number mod 2 = 1 then engine1 m else second),
         plan_black = (if number mod 2 = 1 then second else engine1 m),
         plan_match = Some (match_id m), plan_number = number, plan_tiebreak = Some kind,
         plan_offset = offset div 2\<rparr>) [0..<number_of_games]"

definition append_knockout_games :: "store \<Rightarrow> tournament_record \<Rightarrow> match_record \<Rightarrow> game_record list
    \<Rightarrow> nat \<Rightarrow> tiebreak_kind \<Rightarrow> (store \<times> int) result" where
  "append_knockout_games s t m gs number_of_games kind = (case engine2 m of
     None \<Rightarrow> Inr (s, 0)
   | Some second \<Rightarrow> let
       next_number = Max (set (map game_number gs)) + 1;
       pairs = map game_pair (filter (\<lambda>g. game_round g = match_round m) (list_games s (tour_id t)));
       next_pair = (if pairs = [] then 0 else Max (set pairs)) + 1;
       (s1, ids) = opening_ids s t ((number_of_games + 1) div 2);
       plans = append_plans m second next_number next_pair number_of_games kind
     in rbind (create_games t ids s1 plans) (\<lambda>s2. Inr (s2, int number_of_games)))"

definition resolve_knockout_match :: "store \<Rightarrow> tournament_record \<Rightarrow> match_record \<Rightarrow> game_record list
    \<Rightarrow> (store \<times> int option \<times> int) result" where
  "resolve_knockout_match s t m gs = (case List.find (\<lambda>g. tiebreak g = Some Armageddon) gs of
     Some armageddon \<Rightarrow> Inr (s, Some (case game_winner armageddon of None \<Rightarrow> black_engine armageddon | Some w \<Rightarrow> w), 0)
   | None \<Rightarrow> let
       (first_points, second_points) = match_points m gs;
       extra_games = filter (\<lambda>g. tiebreak g = Some Extra_Pair) gs;
       base_complete = (2 \<le> length gs);
       extra_complete = (extra_games = [] \<or> length extra_games mod 2 = 0)
     in if base_complete \<and> extra_complete \<and> first_points \<noteq> second_points
        then Inr (s, if first_points > second_points then Some (engine1 m) else engine2 m, 0)
        else if \<not> base_complete \<or> \<not> extra_complete then Inr (s, None, 0)
        else rbind (append_knockout_games s t m gs 2 Extra_Pair) (\<lambda>(s', n). Inr (s', None, n)))"

definition settle_knockout_match :: "tournament_record \<Rightarrow> (int \<Rightarrow> game_record list) \<Rightarrow> store \<times> bool \<times> int
    \<Rightarrow> match_record \<Rightarrow> (store \<times> bool \<times> int) result" where
  "settle_knockout_match t by_match = (\<lambda>(s, waiting, so_far) m.
     if match_status m \<noteq> Match_Pending then Inr (s, waiting, so_far)
     else let match_games = by_match (match_id m) in
       if match_games = [] \<or> list_ex (\<lambda>g. game_status g \<noteq> Game_Finished) match_games then Inr (s, True, so_far)
       else rbind (resolve_knockout_match s t m match_games) (\<lambda>(s', winner, created).
         case winner of None \<Rightarrow> Inr (s', True, so_far + created)
         | Some w \<Rightarrow> Inr (finish_tournament_match (match_id m) (Some w) s', waiting, so_far + created)))"

text \<open>The pairs of adjacent winners; an odd winner out has no opponent to index.\<close>

fun next_pairings :: "'a list \<Rightarrow> ('a \<times> 'a) list result" where
  "next_pairings [] = Inr []"
| "next_pairings [w] = Inl IndexError"
| "next_pairings (v # w # ws) = rbind (next_pairings ws) (\<lambda>ps. Inr ((v, w) # ps))"

fun advance_knockout_loop :: "nat \<Rightarrow> store \<Rightarrow> tournament_record \<Rightarrow> int \<Rightarrow> (store \<times> tournament_advance) result option" where
  "advance_knockout_loop 0 s t so_far = None"
| "advance_knockout_loop (Suc fuel) s t so_far = (let ms = list_tournament_matches s (tour_id t) None in
     if ms = [] then Some (rbind (generate_knockout_first_round s t) (\<lambda>(s', n).
       Inr (s', \<lparr>created_games = n, complete = False\<rparr>)))
     else let
       rnd = current_round ms;
       by_match = games_by_match (list_games s (tour_id t))
     in case fold_result (settle_knockout_match t by_match) (s, False, so_far) (filter (\<lambda>m. match_round m = rnd) ms) of
       Inl e \<Rightarrow> Some (Inl e)
     | Inr (s1, waiting, created1) \<Rightarrow> let round_matches = list_tournament_matches s1 (tour_id t) (Some rnd) in
         if waiting \<or> list_ex (\<lambda>m. match_status m = Match_Pending) round_matches
         then Some (Inr (s1, \<lparr>created_games = created1, complete = False\<rparr>))
         else if length round_matches = 1 then Some (Inr (s1, \<lparr>created_games = created1, complete = True\<rparr>))
         else if list_ex (\<lambda>m. winner_engine m = None) round_matches
         then Some (Inr (s1, \<lparr>created_games = created1, complete = False\<rparr>))
         else (case rbind (next_pairings (map winner_engine round_matches)) (create_knockout_round s1 t (rnd + 1)) of
             Inl e \<Rightarrow> Some (Inl e)
           | Inr (s2, n) \<Rightarrow> advance_knockout_loop fuel s2 t (created1 + n)))"

definition advance_knockout :: "store \<Rightarrow> tournament_record \<Rightarrow> (store \<times> tournament_advance) result option" where
  "advance_knockout s t = (case format_options (tour_config t) of
     KnockoutFormatOptions \<Rightarrow> advance_knockout_loop 2 s t 0
   | _ \<Rightarrow> Some (Inr (s, \<lparr>created_games = 0, complete = False\<rparr>)))"

subsection \<open>A small tournament for examples\<close>

definition sample_tournament :: "tournament_format \<Rightarrow> format_options \<Rightarrow> int list \<Rightarrow> tournament_record" where
  "sample_tournament fmt opts ps = \<lparr>tour_id = 1, tour_name = ''cup'',
     tour_config = sample_config\<lparr>format := fmt, format_options := opts, participants := ps\<rparr>,
     tour_status = Running, tour_started = Some ''t0'', tour_finished = None\<rparr>"

definition sample_store :: "tournament_record \<Rightarrow> store" where
  "sample_store t = \<lparr>tournaments = [t], games = [], matches = [], openings = [], rated_games = [],
     relay_tournaments = [], odds_tournaments = [], pinned_builds = [], engine_builds = [],
     supported_builds = [], next_game = 1, next_match = 1, chat = \<lparr>messages = [], events = [], next_message = 1\<rparr>, draws = sconst 0\<rparr>"

text \<open>Four engines: both matches of the first round are over, with one game each.\<close>

definition sample_match :: "int \<Rightarrow> int \<Rightarrow> int \<Rightarrow> match_record" where
  "sample_match i a b = \<lparr>match_id = i, match_tournament = 1, match_round = 1, match_index = i,
     engine1 = a, engine2 = Some b, match_status = Match_Finished, winner_engine = Some a\<rparr>"

definition sample_semifinals :: store where
  "sample_semifinals = (sample_store (sample_tournament KNOCKOUT KnockoutFormatOptions [1, 2, 3, 4]))
     \<lparr>matches := [sample_match 1 1 4, sample_match 2 2 3], next_match := 3,
      games := [(sample_game 1 1 4)\<lparr>game_match := Some 1\<rparr>, (sample_game 2 2 3)\<lparr>game_match := Some 2\<rparr>],
      next_game := 3\<rparr>"

lemma sample_semifinals_ok: "store_ok sample_semifinals"
  by (simp add: sample_semifinals_def sample_store_def sample_match_def sample_game_def store_ok_def
      games_ok_def matches_ok_def game_key_def match_key_def)

end
