(* ===== verification/Scheduler_Progress.thy ===== *)
theory Scheduler_Progress
  imports Scheduler_Rounds
begin

text \<open>
  The steps between rounds: the tables stay well formed, and the loop that advances a knockout
  ends after at most two passes, because a round it has just created is waiting for its games.
\<close>

named_theorems grows_intros \<open>operations that only add rows\<close>

text \<open>Rows are added: pending games, and matches of one round with new ids.\<close>

definition grows :: "int \<Rightarrow> int \<Rightarrow> store \<Rightarrow> store \<Rightarrow> bool" where
  "grows tid rnd s s' = (next_match s \<le> next_match s'
     \<and> (\<exists>gs. games s' = games s @ gs \<and> (\<forall>g \<in> set gs. game_status g = Game_Pending))
     \<and> (\<exists>ms. matches s' = matches s @ ms
         \<and> (\<forall>m \<in> set ms. match_tournament m = tid \<and> match_round m = rnd \<and> next_match s \<le> match_id m)))"

lemma grows_refl [simp]: "grows tid rnd s s"
  by (simp add: grows_def)

lemma grows_trans:
  assumes "grows tid rnd s s'" and "grows tid rnd s' s''"
  shows "grows tid rnd s s''"
proof -
  obtain gs ms gs' ms' where *: "games s' = games s @ gs" "\<forall>g \<in> set gs. game_status g = Game_Pending"
    "matches s' = matches s @ ms"
    "\<forall>m \<in> set ms. match_tournament m = tid \<and> match_round m = rnd \<and> next_match s \<le> match_id m"
    "games s'' = games s' @ gs'" "\<forall>g \<in> set gs'. game_status g = Game_Pending"
    "matches s'' = matches s' @ ms'"
    "\<forall>m \<in> set ms'. match_tournament m = tid \<and> match_round m = rnd \<and> next_match s' \<le> match_id m"
    using assms unfolding grows_def by blast
  have le: "next_match s \<le> next_match s'" "next_match s' \<le> next_match s''" using assms by (simp_all add: grows_def)
  have "\<forall>m \<in> set (ms @ ms'). match_tournament m = tid \<and> match_round m = rnd \<and> next_match s \<le> match_id m"
    using * le by (auto intro: order_trans)
  moreover have "\<forall>g \<in> set (gs @ gs'). game_status g = Game_Pending" using * by auto
  moreover have "games s'' = games s @ (gs @ gs')" "matches s'' = matches s @ (ms @ ms')" using * by simp_all
  ultimately show ?thesis using le unfolding grows_def by (meson order_trans)
qed

lemma create_games_grow:
  assumes "create_games t ids s plans = Inr s'"
  shows "grows tid rnd s s' \<and> matches s' = matches s \<and> next_match s' = next_match s"
  using assms unfolding create_games_def
proof (rule fold_result_invariant)
  fix r p r'
  assume r: "grows tid rnd s r \<and> matches r = matches s \<and> next_match r = next_match s"
    and step: "rbind (create_scheduled_game t ids r p) (\<lambda>(s', i). Inr s') = Inr r'"
  from step obtain i where "create_scheduled_game t ids r p = Inr (r', i)" by (auto simp: rbind_eq_Inr)
  then have "grows tid rnd r r'" "matches r' = matches r" "next_match r' = next_match r"
    by (auto simp: create_scheduled_game_def Let_def create_game_Inr grows_def)
  then show "grows tid rnd s r' \<and> matches r' = matches s \<and> next_match r' = next_match s"
    using r grows_trans by metis
qed simp

lemma create_match_grows:
  assumes "create_tournament_match s tid rnd index first second status winner = Inr (s', i)"
  shows "grows tid rnd s s'" and "i = next_match s" and "next_match s' = next_match s + 1"
    and "\<exists>m. matches s' = matches s @ [m] \<and> match_id m = i \<and> match_round m = rnd \<and> match_tournament m = tid
      \<and> match_index m = index \<and> match_status m = status \<and> engine1 m = first \<and> engine2 m = second \<and> winner_engine m = winner"
  using assms unfolding create_match_Inr by (auto simp: grows_def)

lemma opening_ids_grow: "opening_ids s t limit = (s', ids) \<Longrightarrow> grows tid rnd s s'"
  by (erule opening_ids_store) (simp add: grows_def)

lemma opening_ids_ok: "opening_ids s t limit = (s', ids) \<Longrightarrow> store_ok s' = store_ok s"
  by (erule opening_ids_store) (simp add: store_ok_def games_ok_def matches_ok_def)

lemma create_games_store_ok:
  assumes "store_ok s" and "create_games t ids s plans = Inr s'"
    and "\<And>p. p \<in> set plans \<Longrightarrow> optional (\<lambda>m. m < next_match s) (plan_match p)"
  shows "store_ok s'"
proof -
  have "games_ok s'" using create_games_ok [OF _ assms(2)] assms(1,3) by (simp add: store_ok_def)
  moreover have "matches s' = matches s" "next_match s' = next_match s"
    using create_games_grow [OF assms(2)] by simp_all
  ultimately show ?thesis using assms(1) by (simp add: store_ok_def matches_ok_def)
qed

subsection \<open>A knockout round that has just been created\<close>

lemma create_knockout_match_facts:
  assumes "create_knockout_match t rnd ids (s, pair_index, created) (index, first, second) = Inr (s', pair_index', created')"
    and "store_ok s"
  shows "store_ok s'" and "grows (tour_id t) rnd s s'"
    and "first \<noteq> None \<Longrightarrow> second \<noteq> None \<Longrightarrow> \<exists>m \<in> set (matches s').
      match_tournament m = tour_id t \<and> match_round m = rnd \<and> match_status m = Match_Pending \<and> next_match s \<le> match_id m"
proof -
  have "store_ok s' \<and> grows (tour_id t) rnd s s' \<and> (first \<noteq> None \<and> second \<noteq> None \<longrightarrow> (\<exists>m \<in> set (matches s').
      match_tournament m = tour_id t \<and> match_round m = rnd \<and> match_status m = Match_Pending \<and> next_match s \<le> match_id m))"
  proof (cases "\<exists>a b. first = Some a \<and> second = Some b")
    case True
    then obtain a b where ab: "first = Some a" "second = Some b" by blast
    obtain s1 i where s1: "create_tournament_match s (tour_id t) rnd (int index) a (Some b) Match_Pending None = Inr (s1, i)"
      and g: "create_games t ids s1 (map (\<lambda>number.
         \<lparr>plan_round = rnd, plan_pair = pair_index + number - 1,
          plan_white = (if number mod 2 = 1 then a else b), plan_black = (if number mod 2 = 1 then b else a),
          plan_match = Some i, plan_number = number, plan_tiebreak = None, plan_offset = index - 1\<rparr>) [1, 2]) = Inr s'"
      using assms(1) ab by (auto simp: create_knockout_match_def rbind_eq_Inr)
    note m = create_match_grows [OF s1]
    have ok1: "store_ok s1" by (rule create_match_ok [OF assms(2) s1])
    have "store_ok s'" by (rule create_games_store_ok [OF ok1 g]) (auto simp: m(2,3))
    moreover have "grows (tour_id t) rnd s s'" using grows_trans [OF m(1)] create_games_grow [OF g] by blast
    moreover have "\<exists>m \<in> set (matches s'). match_tournament m = tour_id t \<and> match_round m = rnd
        \<and> match_status m = Match_Pending \<and> next_match s \<le> match_id m"
      using m(2,4) create_games_grow [OF g, of "tour_id t" rnd] by force
    ultimately show ?thesis by blast
  next
    case False
    show ?thesis
    proof (cases "first = None \<and> second = None")
      case True
      then show ?thesis using assms by (auto simp: create_knockout_match_def)
    next
      case bye: False
      then obtain e where "create_tournament_match s (tour_id t) rnd (int index) e None Match_Bye (Some e) = Inr (s', pair_index')
          \<or> (\<exists>i. create_tournament_match s (tour_id t) rnd (int index) e None Match_Bye (Some e) = Inr (s', i))"
        using assms(1) False
        by (cases first; cases second) (auto simp: create_knockout_match_def rbind_eq_Inr)
      then obtain i where s1: "create_tournament_match s (tour_id t) rnd (int index) e None Match_Bye (Some e) = Inr (s', i)"
        by blast
      show ?thesis using create_match_ok [OF assms(2) s1] create_match_grows(1) [OF s1] False by auto
    qed
  qed
  then show "store_ok s'" and "grows (tour_id t) rnd s s'"
    and "first \<noteq> None \<Longrightarrow> second \<noteq> None \<Longrightarrow> \<exists>m \<in> set (matches s').
      match_tournament m = tour_id t \<and> match_round m = rnd \<and> match_status m = Match_Pending \<and> next_match s \<le> match_id m"
    by blast+
qed

lemma create_knockout_fold:
  assumes "fold_result (create_knockout_match t rnd ids) (s, pair_index, created) items = Inr (s', pair_index', created')"
    and "store_ok s"
  shows "store_ok s' \<and> grows (tour_id t) rnd s s'"
proof -
  have "(case (s', pair_index', created') of (r, p, c) \<Rightarrow> store_ok r \<and> grows (tour_id t) rnd s r)"
    using assms(1)
  proof (rule fold_result_invariant)
    show "case (s, pair_index, created) of (r, p, c) \<Rightarrow> store_ok r \<and> grows (tour_id t) rnd s r"
      using assms(2) by simp
    fix x item x'
    assume x: "case x of (r, p, c) \<Rightarrow> store_ok r \<and> grows (tour_id t) rnd s r"
      and step: "create_knockout_match t rnd ids x item = Inr x'"
    obtain r p c where r: "x = (r, p, c)" by (cases x)
    obtain r' p' c' where r': "x' = (r', p', c')" by (cases x')
    obtain i a b where item: "item = (i, a, b)" by (cases item)
    have ok: "store_ok r" "grows (tour_id t) rnd s r" using x r by simp_all
    note step' = step [unfolded r r' item]
    show "case x' of (r, p, c) \<Rightarrow> store_ok r \<and> grows (tour_id t) rnd s r"
      using create_knockout_match_facts(1,2) [OF step' ok(1)] grows_trans [OF ok(2)] r' by simp
  qed
  then show ?thesis by simp
qed

lemma create_knockout_round_facts:
  assumes "create_knockout_round s t rnd pairings = Inr (s', n)" and "store_ok s"
  shows "store_ok s' \<and> grows (tour_id t) rnd s s'"
    and "pairings = (Some a, Some b) # rest \<Longrightarrow> \<exists>m \<in> set (matches s'). match_tournament m = tour_id t
      \<and> match_round m = rnd \<and> match_status m = Match_Pending \<and> next_match s \<le> match_id m"
proof -
  obtain s1 ids where ids: "opening_ids s t (length pairings) = (s1, ids)"
    by (cases "opening_ids s t (length pairings)")
  have opts: "format_options (tour_config t) = KnockoutFormatOptions"
    using assms(1) by (auto simp: create_knockout_round_def split: format_options.splits)
  obtain p where f: "fold_result (create_knockout_match t rnd ids) (s1, 1, 0) (enumerate 1 pairings) = Inr (s', p, n)"
    using assms(1) by (auto simp: create_knockout_round_def opts ids rbind_eq_Inr)
  have ok1: "store_ok s1" using assms(2) opening_ids_ok [OF ids] by simp
  note g1 = opening_ids_grow [OF ids, of "tour_id t" rnd]
  show "store_ok s' \<and> grows (tour_id t) rnd s s'"
    using create_knockout_fold [OF f ok1] grows_trans [OF g1] by blast
  assume "pairings = (Some a, Some b) # rest"
  then obtain s2 p2 c2 where step: "create_knockout_match t rnd ids (s1, 1, 0) (1, Some a, Some b) = Inr (s2, p2, c2)"
    and f2: "fold_result (create_knockout_match t rnd ids) (s2, p2, c2) (enumerate 2 rest) = Inr (s', p, n)"
    using f by (auto simp: rbind_eq_Inr numeral_2_eq_2)
  note first = create_knockout_match_facts [OF step ok1]
  obtain m where m: "m \<in> set (matches s2)" "match_tournament m = tour_id t" "match_round m = rnd"
    "match_status m = Match_Pending" "next_match s1 \<le> match_id m"
    using first(3) by blast
  have "grows (tour_id t) rnd s2 s'" using create_knockout_fold [OF f2 first(1)] by blast
  then have "m \<in> set (matches s')" using m(1) by (auto simp: grows_def)
  moreover have "next_match s \<le> next_match s1" using g1 by (simp add: grows_def)
  ultimately show "\<exists>m \<in> set (matches s'). match_tournament m = tour_id t
      \<and> match_round m = rnd \<and> match_status m = Match_Pending \<and> next_match s \<le> match_id m"
    using m by force
qed

subsection \<open>Settling the matches of a round\<close>

lemma append_games_facts:
  assumes "append_knockout_games s t m gs k kind = Inr (s', n)" and "store_ok s" and "match_id m < next_match s"
  shows "store_ok s'" and "matches s' = matches s" and "grows (tour_id t) rnd s s'" and "next_match s' = next_match s"
proof -
  have "store_ok s' \<and> matches s' = matches s \<and> grows (tour_id t) rnd s s' \<and> next_match s' = next_match s"
  proof (cases "engine2 m")
    case None
    then show ?thesis using assms by (simp add: append_knockout_games_def)
  next
    case (Some second)
    obtain s1 ids where ids: "opening_ids s t ((k + 1) div 2) = (s1, ids)" by (cases "opening_ids s t ((k + 1) div 2)")
    obtain a b where g: "create_games t ids s1 (append_plans m second a b k kind) = Inr s'"
      using assms(1) Some ids by (auto simp: append_knockout_games_def Let_def rbind_eq_Inr)
    have plans: "plan_match p = Some (match_id m)" if "p \<in> set (append_plans m second a b k kind)" for p
      using that by (auto simp: append_plans_def Let_def)
    have ok1: "store_ok s1" using assms(2) opening_ids_ok [OF ids] by simp
    have same: "matches s1 = matches s" "next_match s1 = next_match s"
      using opening_ids_store [OF ids] by force+
    have "store_ok s'" by (rule create_games_store_ok [OF ok1 g]) (simp add: plans assms(3) same(2))
    then show ?thesis
      using create_games_grow [OF g, of "tour_id t" rnd] same grows_trans [OF opening_ids_grow [OF ids]] by simp
  qed
  then show "store_ok s'" and "matches s' = matches s" and "grows (tour_id t) rnd s s'" and "next_match s' = next_match s"
    by simp_all
qed

lemma resolve_facts:
  assumes "resolve_knockout_match s t m gs = Inr (s', winner, n)" and "store_ok s" and "match_id m < next_match s"
  shows "store_ok s'" and "matches s' = matches s" and "grows (tour_id t) rnd s s'" and "next_match s' = next_match s"
proof -
  from assms(1) consider "s' = s" | n' where "append_knockout_games s t m gs 2 Extra_Pair = Inr (s', n')"
    by (auto simp: resolve_knockout_match_def Let_def rbind_eq_Inr split: option.splits prod.splits if_splits)
  then have "store_ok s' \<and> matches s' = matches s \<and> grows (tour_id t) rnd s s' \<and> next_match s' = next_match s"
  proof cases
    case 1
    then show ?thesis using assms by simp
  next
    case 2
    then show ?thesis using append_games_facts [OF 2 assms(2,3)] by blast
  qed
  then show "store_ok s'" and "matches s' = matches s" and "grows (tour_id t) rnd s s'" and "next_match s' = next_match s"
    by simp_all
qed

text \<open>One pass over the matches: their keys stay, games are only added, a match that waits is noticed.\<close>

definition settles_to :: "store \<Rightarrow> store \<Rightarrow> bool" where
  "settles_to s s' = (store_ok s' \<and> map match_key (matches s') = map match_key (matches s)
     \<and> next_match s' = next_match s \<and> map match_id (matches s') = map match_id (matches s))"

lemma settle_step:
  assumes "settle_knockout_match t by_match (s, waiting, n) m = Inr (s', waiting', n')"
    and "store_ok s" and "match_id m < next_match s"
  shows "settles_to s s'" and "waiting \<Longrightarrow> waiting'"
    and "match_status m = Match_Pending \<Longrightarrow>
      by_match (match_id m) = [] \<or> list_ex (\<lambda>g. game_status g \<noteq> Game_Finished) (by_match (match_id m)) \<Longrightarrow> waiting'"
proof -
  let ?wait = "by_match (match_id m) = [] \<or> list_ex (\<lambda>g. game_status g \<noteq> Game_Finished) (by_match (match_id m))"
  have "settles_to s s' \<and> (waiting \<longrightarrow> waiting') \<and> (match_status m = Match_Pending \<and> ?wait \<longrightarrow> waiting')"
  proof (cases "match_status m \<noteq> Match_Pending \<or> ?wait")
    case True
    then show ?thesis using assms by (auto simp: settle_knockout_match_def Let_def settles_to_def split: if_splits)
  next
    case False
    then have eq: "rbind (resolve_knockout_match s t m (by_match (match_id m))) (\<lambda>(s', winner, created).
         case winner of None \<Rightarrow> Inr (s', True, n + created)
         | Some w \<Rightarrow> Inr (finish_tournament_match (match_id m) (Some w) s', waiting, n + created)) = Inr (s', waiting', n')"
      using assms(1) by (simp add: settle_knockout_match_def Let_def)
    then obtain x where "resolve_knockout_match s t m (by_match (match_id m)) = Inr x"
      by (cases "resolve_knockout_match s t m (by_match (match_id m))") auto
    moreover obtain s1 winner created where x: "x = (s1, winner, created)" by (cases x)
    ultimately have r: "resolve_knockout_match s t m (by_match (match_id m)) = Inr (s1, winner, created)" by simp
    have w: "(case winner of None \<Rightarrow> Inr (s1, True, n + created)
        | Some w \<Rightarrow> Inr (finish_tournament_match (match_id m) (Some w) s1, waiting, n + created)) = (Inr (s', waiting', n') :: (store \<times> bool \<times> int) result)"
      using eq unfolding r by simp
    have s': "s' = (case winner of None \<Rightarrow> s1 | Some w \<Rightarrow> finish_tournament_match (match_id m) (Some w) s1)"
        "waiting' = (winner = None \<or> waiting)"
      using w by (cases winner; simp)+
    note f = resolve_facts [OF r assms(2,3)]
    have "settles_to s s'"
      using s'(1) f(1,2,4) finish_match_ok [OF f(1)] by (auto simp: settles_to_def split: option.splits)
    then show ?thesis using s'(2) False by simp
  qed
  then show "settles_to s s'" and "waiting \<Longrightarrow> waiting'"
    and "match_status m = Match_Pending \<Longrightarrow> ?wait \<Longrightarrow> waiting'"
    by blast+
qed

lemma settle_fold:
  assumes "fold_result (settle_knockout_match t by_match) (s, waiting, n) ms = Inr (s', waiting', n')"
    and "store_ok s" and "\<And>m. m \<in> set ms \<Longrightarrow> match_id m < next_match s"
  shows "settles_to s s'" and "waiting \<Longrightarrow> waiting'"
    and "m \<in> set ms \<Longrightarrow> match_status m = Match_Pending \<Longrightarrow>
      by_match (match_id m) = [] \<or> list_ex (\<lambda>g. game_status g \<noteq> Game_Finished) (by_match (match_id m)) \<Longrightarrow> waiting'"
proof -
  have "settles_to s s' \<and> (waiting \<longrightarrow> waiting') \<and> (\<forall>m \<in> set ms. match_status m = Match_Pending \<and>
      (by_match (match_id m) = [] \<or> list_ex (\<lambda>g. game_status g \<noteq> Game_Finished) (by_match (match_id m))) \<longrightarrow> waiting')"
    using assms
  proof (induction ms arbitrary: s waiting n)
    case Nil
    then show ?case by (simp add: settles_to_def)
  next
    case (Cons m ms)
    obtain s1 waiting1 n1 where step: "settle_knockout_match t by_match (s, waiting, n) m = Inr (s1, waiting1, n1)"
      and rest: "fold_result (settle_knockout_match t by_match) (s1, waiting1, n1) ms = Inr (s', waiting', n')"
      using Cons.prems(1) by (auto simp: rbind_eq_Inr)
    note one = settle_step [OF step Cons.prems(2) Cons.prems(3) [OF list.set_intros(1)]]
    have "store_ok s1" "next_match s1 = next_match s" using one(1) by (simp_all add: settles_to_def)
    then have "settles_to s1 s' \<and> (waiting1 \<longrightarrow> waiting') \<and> (\<forall>m \<in> set ms. match_status m = Match_Pending \<and>
        (by_match (match_id m) = [] \<or> list_ex (\<lambda>g. game_status g \<noteq> Game_Finished) (by_match (match_id m))) \<longrightarrow> waiting')"
      using Cons.prems(3) by (intro Cons.IH [OF rest]) simp_all
    then show ?case using one by (auto simp: settles_to_def)
  qed
  then show "settles_to s s'" and "waiting \<Longrightarrow> waiting'"
    and "m \<in> set ms \<Longrightarrow> match_status m = Match_Pending \<Longrightarrow>
      by_match (match_id m) = [] \<or> list_ex (\<lambda>g. game_status g \<noteq> Game_Finished) (by_match (match_id m)) \<Longrightarrow> waiting'"
    by blast+
qed

subsection \<open>The loop ends\<close>

lemma next_pairings_Inr:
  assumes "next_pairings ws = Inr ps" and "ws \<noteq> []"
  shows "\<exists>a b rest. ps = (a, b) # rest \<and> a \<in> set ws \<and> b \<in> set ws"
  using assms by (cases ws rule: next_pairings.cases) (auto simp: rbind_eq_Inr)

lemma in_games_by_match:
  "g \<in> set (games_by_match (list_games s tid) i) \<longleftrightarrow> g \<in> set (games s) \<and> game_tournament g = tid \<and> game_match g = Some i"
  by (auto simp: games_by_match_def)

text \<open>A pending match all of whose games are pending makes the loop return.\<close>

lemma advance_returns_waiting:
  assumes "store_ok s" and "m \<in> set (matches s)" and "match_tournament m = tour_id t" and "match_status m = Match_Pending"
    and "match_round m = current_round (list_tournament_matches s (tour_id t) None)"
    and "\<And>g. g \<in> set (games s) \<Longrightarrow> game_match g = Some (match_id m) \<Longrightarrow> game_status g = Game_Pending"
  shows "advance_knockout_loop (Suc fuel) s t n \<noteq> None"
proof -
  let ?ms = "list_tournament_matches s (tour_id t) None"
  let ?by = "games_by_match (list_games s (tour_id t))"
  let ?round = "filter (\<lambda>m. match_round m = current_round ?ms) ?ms"
  have m: "m \<in> set ?ms" using assms(2,3) by simp
  then have ne: "?ms \<noteq> []" by (metis empty_iff list.set(1))
  have mr: "m \<in> set ?round" using m assms(5) by simp
  have bound: "match_id x < next_match s" if "x \<in> set ?round" for x
    using that assms(1) by (auto simp: store_ok_def matches_ok_def)
  have waits: "?by (match_id m) = [] \<or> list_ex (\<lambda>g. game_status g \<noteq> Game_Finished) (?by (match_id m))"
  proof (cases "?by (match_id m)")
    case (Cons g gs)
    then have "g \<in> set (?by (match_id m))" by simp
    then have "game_status g = Game_Pending" using assms(6) unfolding in_games_by_match by blast
    then show ?thesis using Cons by simp
  qed simp
  show ?thesis
  proof (cases "fold_result (settle_knockout_match t ?by) (s, False, n) ?round")
    case (Inl e)
    then show ?thesis using ne by (simp add: Let_def)
  next
    case (Inr x)
    obtain s1 waiting n1 where x: "x = (s1, waiting, n1)" by (cases x)
    have "waiting"
      by (rule settle_fold(3) [OF Inr [unfolded x] assms(1) bound mr assms(4) waits])
    then show ?thesis using ne Inr x by (simp add: Let_def)
  qed
qed

lemma current_round_ge: "m \<in> set ms \<Longrightarrow> match_round m \<le> current_round ms"
  by (simp add: current_round_def)

text \<open>After a round is created the loop returns in its next pass.\<close>

lemma advance_after_round:
  assumes "store_ok s" and "create_knockout_round s t rnd ((Some a, Some b) # rest) = Inr (s', k)"
    and "\<And>m. m \<in> set (matches s) \<Longrightarrow> match_tournament m = tour_id t \<Longrightarrow> match_round m \<le> rnd"
  shows "advance_knockout_loop (Suc fuel) s' t n \<noteq> None"
proof -
  note f = create_knockout_round_facts [OF assms(2,1)]
  have ok: "store_ok s'" and grow: "grows (tour_id t) rnd s s'" using f(1) by simp_all
  obtain m where m: "m \<in> set (matches s')" "match_tournament m = tour_id t" "match_round m = rnd"
    "match_status m = Match_Pending" "next_match s \<le> match_id m"
    using f(2) [OF refl] by blast
  obtain gs ms where new: "games s' = games s @ gs" "\<forall>g \<in> set gs. game_status g = Game_Pending"
    "matches s' = matches s @ ms" "\<forall>m \<in> set ms. match_tournament m = tour_id t \<and> match_round m = rnd"
    using grow unfolding grows_def by blast
  have top: "match_round x \<le> rnd" if "x \<in> set (list_tournament_matches s' (tour_id t) None)" for x
    using that assms(3) new(3,4) by auto
  have mem: "m \<in> set (list_tournament_matches s' (tour_id t) None)" using m(1,2) by simp
  have "current_round (list_tournament_matches s' (tour_id t) None) = rnd"
  proof (rule antisym)
    show "current_round (list_tournament_matches s' (tour_id t) None) \<le> rnd"
      unfolding current_round_def using mem top by (subst Max_le_iff) auto
    show "rnd \<le> current_round (list_tournament_matches s' (tour_id t) None)"
      using current_round_ge [OF mem] m(3) by simp
  qed
  then have cur: "match_round m = current_round (list_tournament_matches s' (tour_id t) None)" using m(3) by simp
  have "game_status g = Game_Pending" if "g \<in> set (games s')" "game_match g = Some (match_id m)" for g
  proof -
    have "g \<notin> set (games s)"
    proof
      assume "g \<in> set (games s)"
      then have "optional (\<lambda>i. i < next_match s) (game_match g)" using assms(1) by (auto simp: store_ok_def games_ok_def)
      then show False using that(2) m(5) by simp
    qed
    then show ?thesis using that(1) new(1,2) by auto
  qed
  then show ?thesis by (rule advance_returns_waiting [OF ok m(1,2,4) cur])
qed

lemma advance_knockout_two_passes:
  assumes "store_ok s"
  shows "advance_knockout_loop (Suc (Suc fuel)) s t n \<noteq> None"
proof -
  let ?ms = "list_tournament_matches s (tour_id t) None"
  let ?rnd = "current_round ?ms"
  let ?by = "games_by_match (list_games s (tour_id t))"
  let ?round = "filter (\<lambda>m. match_round m = ?rnd) ?ms"
  show ?thesis
  proof (cases "?ms = []")
    case True
    then show ?thesis by (simp add: Let_def)
  next
    case ne: False
    have bound: "match_id x < next_match s" if "x \<in> set ?round" for x
      using that assms by (auto simp: store_ok_def matches_ok_def)
    show ?thesis
    proof (cases "fold_result (settle_knockout_match t ?by) (s, False, n) ?round")
      case (Inl e)
      then show ?thesis using ne by (simp add: Let_def)
    next
      case (Inr x)
      obtain s1 waiting n1 where x: "x = (s1, waiting, n1)" by (cases x)
      have st: "settles_to s s1" by (rule settle_fold(1) [OF Inr [unfolded x] assms bound])
      let ?rm = "list_tournament_matches s1 (tour_id t) (Some ?rnd)"
      let ?stop = "waiting \<or> list_ex (\<lambda>m. match_status m = Match_Pending) ?rm \<or> length ?rm = 1
        \<or> list_ex (\<lambda>m. winner_engine m = None) ?rm"
      let ?created = "rbind (next_pairings (map winner_engine ?rm)) (create_knockout_round s1 t (?rnd + 1))"
      show ?thesis
      proof (cases "?stop \<or> (\<exists>e. ?created = Inl e)")
        case True
        then show ?thesis using ne Inr x by (auto simp: Let_def)
      next
        case False
        then obtain s2 k where c: "?created = Inr (s2, k)" by (cases ?created) auto
        then obtain ps where ps: "next_pairings (map winner_engine ?rm) = Inr ps"
          "create_knockout_round s1 t (?rnd + 1) ps = Inr (s2, k)"
          by (auto simp: rbind_eq_Inr)
        have keys: "match_key ` set (matches s1) = match_key ` set (matches s)"
          using st unfolding settles_to_def set_map [symmetric] by simp
        have some: "?rm \<noteq> []"
        proof -
          have "?rnd \<in> set (map match_round ?ms)" unfolding current_round_def
            by (rule Max_in) (simp, use ne in \<open>simp del: set_list_matches\<close>)
          then obtain m where m: "m \<in> set (matches s)" "match_tournament m = tour_id t" "match_round m = ?rnd" by auto
          then have "match_key m \<in> match_key ` set (matches s1)" using keys by simp
          then obtain m1 where "m1 \<in> set (matches s1)" "match_key m1 = match_key m" by force
          then have "m1 \<in> set ?rm" using m(2,3) by (simp add: match_key_def)
          then show ?thesis by (metis empty_iff list.set(1))
        qed
        have all_won: "w \<noteq> None" if "w \<in> set (map winner_engine ?rm)" for w
          using that False by (auto simp: list_ex_iff)
        obtain a b rest where "ps = (a, b) # rest" "a \<noteq> None" "b \<noteq> None"
          using next_pairings_Inr [OF ps(1)] some all_won by (metis map_is_Nil_conv)
        then obtain a' b' where pairs: "ps = (Some a', Some b') # rest" by auto
        have below: "match_round m \<le> ?rnd + 1" if "m \<in> set (matches s1)" "match_tournament m = tour_id t" for m
        proof -
          have "match_key m \<in> match_key ` set (matches s)" using that(1) keys by blast
          then obtain m0 where "m0 \<in> set (matches s)" "match_key m0 = match_key m" by force
          then have "match_round m \<le> ?rnd" using that(2) current_round_ge [of m0 ?ms] by (simp add: match_key_def)
          then show ?thesis by simp
        qed
        have ok1: "store_ok s1" using st by (simp add: settles_to_def)
        have "advance_knockout_loop (Suc fuel) s2 t (n1 + k) \<noteq> None"
          by (rule advance_after_round [OF ok1 ps(2) [unfolded pairs] below])
        then show ?thesis using ne Inr x False c by (simp add: Let_def)
      qed
    qed
  qed
qed

lemma advance_more_fuel:
  "advance_knockout_loop fuel s t n = Some r \<Longrightarrow> advance_knockout_loop (fuel + k) s t n = Some r"
proof (induction fuel arbitrary: s n)
  case (Suc fuel)
  let ?ms = "list_tournament_matches s (tour_id t) None"
  let ?rnd = "current_round ?ms"
  let ?fold = "fold_result (settle_knockout_match t (games_by_match (list_games s (tour_id t)))) (s, False, n)
    (filter (\<lambda>m. match_round m = ?rnd) ?ms)"
  show ?case
  proof (cases "?ms = []")
    case True
    then show ?thesis using Suc.prems by (simp add: Let_def)
  next
    case ne: False
    show ?thesis
    proof (cases ?fold)
      case (Inl e)
      then show ?thesis using Suc.prems ne by (simp add: Let_def)
    next
      case (Inr x)
      obtain s1 waiting n1 where x: "x = (s1, waiting, n1)" by (cases x)
      let ?rm = "list_tournament_matches s1 (tour_id t) (Some ?rnd)"
      let ?stop1 = "waiting \<or> list_ex (\<lambda>m. match_status m = Match_Pending) ?rm"
      let ?stop3 = "list_ex (\<lambda>m. winner_engine m = None) ?rm"
      let ?created = "rbind (next_pairings (map winner_engine ?rm)) (create_knockout_round s1 t (?rnd + 1))"
      show ?thesis
      proof (cases "?stop1 \<or> length ?rm = 1 \<or> ?stop3 \<or> (\<exists>e. ?created = Inl e)")
        case True
        then show ?thesis using Suc.prems ne Inr x by (auto simp: Let_def)
      next
        case False
        then obtain s2 k2 where c: "?created = Inr (s2, k2)" by (cases ?created) auto
        have "advance_knockout_loop fuel s2 t (n1 + k2) = Some r"
          using Suc.prems ne Inr x False c by (simp add: Let_def)
        then have "advance_knockout_loop (fuel + k) s2 t (n1 + k2) = Some r"
          by (rule Suc.IH)
        then show ?thesis using ne Inr x False c by (simp add: Let_def)
      qed
    qed
  qed
qed simp

text \<open>
  C15: The loop that advances a knockout never runs a third time: two passes always produce a
  result, and more change nothing, whatever the matches and games of the tournament.
\<close>
theorem advance_knockout_ends:
  assumes "store_ok s"
  shows "\<exists>r. \<forall>fuel. 2 \<le> fuel \<longrightarrow> advance_knockout_loop fuel s t 0 = Some r"
proof -
  obtain r where r: "advance_knockout_loop 2 s t 0 = Some r"
    using advance_knockout_two_passes [OF assms, of 0 t 0] unfolding numeral_2_eq_2 by blast
  then have "advance_knockout_loop fuel s t 0 = Some r" if "2 \<le> fuel" for fuel
    using advance_more_fuel [OF r, of "fuel - 2"] that by (simp only: le_add_diff_inverse)
  then show ?thesis by blast
qed

lemma advance_knockout_ends_witness:
  "\<exists>r. \<forall>fuel. 2 \<le> fuel \<longrightarrow> advance_knockout_loop fuel sample_semifinals
    (sample_tournament KNOCKOUT KnockoutFormatOptions [1, 2, 3, 4]) 0 = Some r"
  by (rule advance_knockout_ends [OF sample_semifinals_ok])

end
