(* ===== verification/Swiss_Rounds.thy ===== *)
theory Swiss_Rounds
  imports Scheduler_Progress
begin

text \<open>
  A Swiss round gives every participant one opponent or the bye, and every match two games with
  the colours reversed.
\<close>

lemma match_legs_facts:
  "map plan_key (match_legs rnd i m w b off) = [(rnd, i, w, b), (rnd, i, b, w)]"
  "map plan_colours (match_legs rnd i m w b off) = [(w, b), (b, w)]"
  "p \<in> set (match_legs rnd i m w b off) \<Longrightarrow> plan_match p = Some m"
  by (auto simp: match_legs_def plan_key_def plan_colours_def)

text \<open>The entrants of a match, and what a pairing becomes.\<close>

definition entrants :: "match_record \<Rightarrow> int list" where
  "entrants m = engine1 m # (case engine2 m of None \<Rightarrow> [] | Some e \<Rightarrow> [e])"

definition two_games :: "game_record list \<Rightarrow> match_record \<Rightarrow> bool" where
  "two_games gs m = (\<exists>w b. mset (entrants m) = {#w, b#}
     \<and> map colours (filter (\<lambda>g. game_match g = Some (match_id m)) gs) = [(w, b), (b, w)])"

definition round_free :: "store \<Rightarrow> int \<Rightarrow> int \<Rightarrow> int \<Rightarrow> bool" where
  "round_free s tid rnd k = ((\<forall>m \<in> set (matches s). match_tournament m = tid \<longrightarrow> match_round m = rnd \<longrightarrow> match_index m < k)
     \<and> (\<forall>g \<in> set (games s). game_tournament g = tid \<longrightarrow> game_round g = rnd \<longrightarrow> game_pair g < k))"

lemma swiss_colours_pair: "swiss_colours a b gs = (a, b) \<or> swiss_colours a b gs = (b, a)"
  by (rule swiss_colours_cases [of a b gs]) simp_all

lemma create_swiss_match_ok:
  assumes "store_ok s" and "round_free s (tour_id t) rnd (int k)" and "a \<noteq> b"
  obtains s' m gs' where "create_swiss_match t rnd gs ids s (k, a, b) = Inr s'" and "store_ok s'"
    and "round_free s' (tour_id t) rnd (int (Suc k))" and "matches s' = matches s @ [m]"
    and "games s' = games s @ gs'" and "match_tournament m = tour_id t" and "match_round m = rnd"
    and "entrants m = [a, b]" and "match_status m = Match_Pending" and "match_id m = next_match s"
    and "next_match s' = next_match s + 1" and "two_games gs' m"
    and "\<forall>g \<in> set gs'. game_match g = Some (match_id m)"
proof -
  obtain w b' where col: "swiss_colours a b gs = (w, b')" by (cases "swiss_colours a b gs")
  have wb: "(w = a \<and> b' = b) \<or> (w = b \<and> b' = a)" using swiss_colours_pair [of a b gs] col by auto
  have fresh: "(tour_id t, rnd, int k) \<notin> match_key ` set (matches s)"
    using assms(2) by (force simp: round_free_def match_key_def)
  define m where "m = \<lparr>match_id = next_match s, match_tournament = tour_id t, match_round = rnd,
    match_index = int k, engine1 = a, engine2 = Some b, match_status = Match_Pending, winner_engine = None\<rparr>"
  define s1 where "s1 = s\<lparr>matches := matches s @ [m], next_match := next_match s + 1\<rparr>"
  have s1: "create_tournament_match s (tour_id t) rnd (int k) a (Some b) Match_Pending None = Inr (s1, next_match s)"
    using fresh by (simp add: create_match_Inr s1_def m_def)
  have ok1: "store_ok s1" by (rule create_match_ok [OF assms(1) s1])
  let ?legs = "match_legs rnd (int k) (next_match s) w b' (k - 1)"
  have keys: "distinct (map plan_key ?legs)" using wb assms(3) by (auto simp: match_legs_facts)
  have new: "(tour_id t, plan_key p) \<notin> game_key ` set (games s1)" if "p \<in> set ?legs" for p
  proof
    assume "(tour_id t, plan_key p) \<in> game_key ` set (games s1)"
    then obtain g where g: "g \<in> set (games s)" "game_key g = (tour_id t, plan_key p)" by (force simp: s1_def)
    have "plan_round p = rnd" "plan_pair p = int k" using that by (auto simp: match_legs_def)
    then show False using g assms(2) by (auto simp: round_free_def game_key_def plan_key_def)
  qed
  define gs' where "gs' = planned_rows t ids (next_game s1) ?legs"
  define s2 where "s2 = s1\<lparr>games := games s1 @ gs', next_game := next_game s1 + int (length ?legs)\<rparr>"
  have g: "create_games t ids s1 ?legs = Inr s2"
    unfolding s2_def gs'_def by (rule create_games_rows [OF keys new])
  have "create_swiss_match t rnd gs ids s (k, a, b) = Inr s2"
    using s1 g col by (simp add: create_swiss_match_def)
  moreover have "store_ok s2"
    by (rule create_games_store_ok [OF ok1 g]) (simp add: match_legs_facts(3) s1_def)
  moreover have row: "game_match r = Some (next_match s) \<and> game_round r = rnd \<and> game_pair r = int k" if "r \<in> set gs'" for r
  proof -
    note r = that [unfolded gs'_def]
    obtain p where p: "p \<in> set ?legs" "r = planned_row t ids (game_id r) p"
      using planned_rows_all(5) [OF r] by blast
    then have "plan_match p = Some (next_match s)" "plan_round p = rnd" "plan_pair p = int k"
      by (auto simp: match_legs_def)
    then show ?thesis using p(2) by (metis planned_row_simps(2,3,4))
  qed
  then have "filter (\<lambda>g. game_match g = Some (match_id m)) gs' = gs'" by (auto simp: m_def intro: filter_True)
  then have "two_games gs' m"
    using wb by (auto simp: two_games_def entrants_def m_def gs'_def match_legs_facts)
  moreover have "round_free s2 (tour_id t) rnd (int (Suc k))"
    unfolding round_free_def
  proof (intro conjI ballI impI)
    fix x assume "x \<in> set (matches s2)" "match_tournament x = tour_id t" "match_round x = rnd"
    then have "x = m \<or> match_index x < int k" using assms(2) by (auto simp: round_free_def s2_def s1_def)
    then show "match_index x < int (Suc k)" by (auto simp: m_def)
  next
    fix g assume "g \<in> set (games s2)" "game_tournament g = tour_id t" "game_round g = rnd"
    then have "g \<in> set gs' \<or> game_pair g < int k" using assms(2) by (auto simp: round_free_def s2_def s1_def)
    then show "game_pair g < int (Suc k)" using row [of g] by fastforce
  qed
  ultimately show thesis
    using that [of s2 m gs'] row by (simp add: s2_def s1_def m_def entrants_def)
qed

text \<open>All matches of the round.\<close>

definition new_round :: "int \<Rightarrow> int \<Rightarrow> int \<Rightarrow> match_record list \<Rightarrow> game_record list \<Rightarrow> bool" where
  "new_round tid rnd least ms gs = ((\<forall>m \<in> set ms. match_tournament m = tid \<and> match_round m = rnd
      \<and> match_status m = Match_Pending \<and> least \<le> match_id m \<and> two_games gs m)
     \<and> (\<forall>g \<in> set gs. \<exists>m \<in> set ms. game_match g = Some (match_id m)))"

lemma two_games_append:
  assumes "\<And>g. g \<in> set gs' \<Longrightarrow> game_match g \<noteq> Some (match_id m)"
  shows "two_games (gs' @ gs) m = two_games gs m" and "two_games (gs @ gs') m = two_games gs m"
proof -
  have "filter (\<lambda>g. game_match g = Some (match_id m)) gs' = []" using assms by (simp add: filter_empty_conv)
  then show "two_games (gs' @ gs) m = two_games gs m" and "two_games (gs @ gs') m = two_games gs m"
    by (simp_all add: two_games_def)
qed

lemma create_swiss_matches_ok:
  assumes "store_ok s" and "round_free s (tour_id t) rnd (int k)" and "\<And>a b. (a, b) \<in> set pairings \<Longrightarrow> a \<noteq> b"
  shows "\<exists>s' ms gs'. fold_result (create_swiss_match t rnd gs ids) s (enumerate k pairings) = Inr s' \<and> store_ok s'
    \<and> round_free s' (tour_id t) rnd (int (k + length pairings)) \<and> matches s' = matches s @ ms
    \<and> games s' = games s @ gs' \<and> map entrants ms = map (\<lambda>(a, b). [a, b]) pairings
    \<and> new_round (tour_id t) rnd (next_match s) ms gs'"
  using assms
proof (induction pairings arbitrary: s k)
  case Nil
  then show ?case by (simp add: new_round_def)
next
  case (Cons p pairings)
  obtain a b where p: "p = (a, b)" by (cases p)
  have ab: "a \<noteq> b" using Cons.prems(3) [of a b] p by simp
  obtain s1 m gs1 where one: "create_swiss_match t rnd gs ids s (k, a, b) = Inr s1" "store_ok s1"
    "round_free s1 (tour_id t) rnd (int (Suc k))" "matches s1 = matches s @ [m]"
    "games s1 = games s @ gs1" "match_tournament m = tour_id t" "match_round m = rnd"
    "entrants m = [a, b]" "match_status m = Match_Pending" "match_id m = next_match s"
    "next_match s1 = next_match s + 1" "two_games gs1 m"
    "\<forall>g \<in> set gs1. game_match g = Some (match_id m)"
    by (rule create_swiss_match_ok [OF Cons.prems(1,2) ab])
  have rest: "\<And>a b. (a, b) \<in> set pairings \<Longrightarrow> a \<noteq> b" using Cons.prems(3) by simp
  obtain s' ms gs2 where ih: "fold_result (create_swiss_match t rnd gs ids) s1 (enumerate (Suc k) pairings) = Inr s'"
    "store_ok s'" "round_free s' (tour_id t) rnd (int (Suc k + length pairings))" "matches s' = matches s1 @ ms"
    "games s' = games s1 @ gs2" "map entrants ms = map (\<lambda>(a, b). [a, b]) pairings"
    "new_round (tour_id t) rnd (next_match s1) ms gs2"
    using Cons.IH [OF one(2,3) rest] by blast
  have later: "next_match s < match_id x" if "x \<in> set ms" for x
    using ih(7) that one(11) by (force simp: new_round_def)
  have "two_games (gs1 @ gs2) m"
  proof -
    have "game_match g \<noteq> Some (match_id m)" if "g \<in> set gs2" for g
      using ih(7) that later one(10) by (fastforce simp: new_round_def)
    then show ?thesis using two_games_append(2) one(12) by blast
  qed
  moreover have "two_games (gs1 @ gs2) x" if "x \<in> set ms" for x
  proof -
    have "game_match g \<noteq> Some (match_id x)" if "g \<in> set gs1" for g
      using one(10,13) later [OF \<open>x \<in> set ms\<close>] that by auto
    moreover have "two_games gs2 x" using ih(7) that by (simp add: new_round_def)
    ultimately show ?thesis using two_games_append(1) by blast
  qed
  moreover have "next_match s \<le> match_id x" if "x \<in> set ms" for x using later [OF that] by simp
  ultimately have "new_round (tour_id t) rnd (next_match s) (m # ms) (gs1 @ gs2)"
    using one(6,7,9,10,13) ih(7) by (auto simp: new_round_def)
  moreover have "fold_result (create_swiss_match t rnd gs ids) s (enumerate k (p # pairings)) = Inr s'"
    using one(1) ih(1) p by simp
  moreover have "map entrants (m # ms) = map (\<lambda>(a, b). [a, b]) (p # pairings)" using one(8) ih(6) p by simp
  ultimately show ?case
    using ih(2,3,4,5) one(4,5) by (intro exI [of _ s'] exI [of _ "m # ms"] exI [of _ "gs1 @ gs2"]) simp
qed

subsection \<open>The round\<close>

lemma mset_swiss_ranking: "mset (swiss_ranking ps gs ms) = mset ps"
  by (simp add: swiss_ranking_def Let_def)

lemma swiss_bye_cases:
  obtains "swiss_bye ranked ms = None" "even (length ranked)"
  | e where "swiss_bye ranked ms = Some e" "e \<in> set ranked" "odd (length ranked)"
proof (cases "even (length ranked)")
  case True
  then show ?thesis using that(1) by (simp add: swiss_bye_def even_iff_mod_2_eq_zero)
next
  case False
  then have odd: "length ranked mod 2 = 1" and ne: "ranked \<noteq> []" by (auto simp: odd_iff_mod_2_eq_one)
  let ?find = "List.find (\<lambda>e. e \<notin> set (map engine1 (filter (\<lambda>m. match_status m = Match_Bye \<and> engine2 m = None) ms))) (rev ranked)"
  show ?thesis
  proof (cases ?find)
    case None
    then show ?thesis using that(2) [of "last ranked"] odd ne False by (simp add: swiss_bye_def Let_def)
  next
    case (Some e)
    then have "e \<in> set ranked" using find_Some_iff_in [OF Some] by simp
    then show ?thesis using that(2) [of e] odd False Some by (simp add: swiss_bye_def Let_def)
  qed
qed

lemma halves_matching:
  assumes "even (length xs)"
  shows "matching_of (\<lambda>a b. True) xs (zip (take (length xs div 2) xs) (drop (length xs div 2) xs))"
proof -
  have "mset (concat (map (\<lambda>(a, b). [a, b]) (zip us vs))) = mset us + mset vs" if "length us = length vs" for us vs :: "int list"
    using that by (induction us vs rule: list_induct2) simp_all
  moreover have "length (take (length xs div 2) xs) = length (drop (length xs div 2) xs)" using assms by auto
  ultimately have "mset (concat (map (\<lambda>(a, b). [a, b]) (zip (take (length xs div 2) xs) (drop (length xs div 2) xs))))
      = mset (take (length xs div 2) xs @ drop (length xs div 2) xs)" by (simp only: mset_append)
  then show ?thesis by (simp only: matching_of_def append_take_drop_id) simp
qed

lemma matching_apart:
  assumes "matching_of P xs ps" and "distinct xs" and "(a, b) \<in> set ps"
  shows "a \<noteq> b"
proof
  assume "a = b"
  obtain us vs where "ps = us @ (a, b) # vs" using assms(3) by (meson split_list)
  then have "distinct (concat (map (\<lambda>(a, b). [a, b]) (us @ (a, b) # vs)))"
    using assms(1,2) mset_eq_imp_distinct_iff by (metis matching_of_def)
  then show False using \<open>a = b\<close> by simp
qed

lemma swiss_round_pairings_ok:
  assumes "distinct ps" and "swiss_round_pairings rnd ps gs ms = (bye, pairings)"
  obtains ranked where "distinct ranked" and "mset ps = mset ranked + (case bye of None \<Rightarrow> {#} | Some e \<Rightarrow> {#e#})"
    and "length ps mod 2 = (case bye of None \<Rightarrow> 0 | Some e \<Rightarrow> 1)" and "matching_of (\<lambda>a b. True) ranked pairings"
proof -
  define ranked0 where "ranked0 = swiss_ranking ps gs ms"
  define ranked where "ranked = (case bye of None \<Rightarrow> ranked0 | Some e \<Rightarrow> remove1 e ranked0)"
  note plan = assms(2) [unfolded swiss_round_pairings_def Let_def, folded ranked0_def]
  have bye_def: "bye = swiss_bye ranked0 ms" by (rule sym) (use plan in \<open>simp only: prod.inject\<close>)
  have pairings_def: "pairings = (if rnd = 1 then zip (take (length ranked div 2) ranked) (drop (length ranked div 2) ranked)
           else swiss_pairings ranked (swiss_points gs ms) (opponent_history gs))"
    by (rule sym) (use plan in \<open>simp only: prod.inject ranked_def bye_def\<close>)
  have m0: "mset ranked0 = mset ps" by (simp add: ranked0_def mset_swiss_ranking)
  have d0: "distinct ranked0" "length ranked0 = length ps"
    using mset_eq_imp_distinct_iff [OF m0] assms(1) mset_eq_length [OF m0] by blast+
  have rk: "distinct ranked \<and> even (length ranked)
      \<and> mset ps = mset ranked + (case bye of None \<Rightarrow> {#} | Some e \<Rightarrow> {#e#})
      \<and> length ps mod 2 = (case bye of None \<Rightarrow> 0 | Some e \<Rightarrow> 1)"
  proof (cases rule: swiss_bye_cases [of ranked0 ms])
    case 1
    then have "bye = None" by (simp add: bye_def)
    then show ?thesis using 1(2) d0 m0 by (simp add: ranked_def even_iff_mod_2_eq_zero)
  next
    case (2 e)
    then have bye: "bye = Some e" by (simp add: bye_def)
    have "length (remove1 e ranked0) = length ranked0 - 1" using 2(2) by (simp add: length_remove1)
    then have "even (length (remove1 e ranked0))" using 2(3) by simp
    moreover have "mset ranked0 = add_mset e (mset (remove1 e ranked0))" using 2(2) by simp
    moreover have "length ps mod 2 = 1" using 2(3) d0(2) by (simp add: odd_iff_mod_2_eq_one)
    ultimately show ?thesis using d0(1) m0 by (simp add: ranked_def bye)
  qed
  then have rk: "distinct ranked" "even (length ranked)"
    "mset ps = mset ranked + (case bye of None \<Rightarrow> {#} | Some e \<Rightarrow> {#e#})"
    "length ps mod 2 = (case bye of None \<Rightarrow> 0 | Some e \<Rightarrow> 1)" by blast+
  have pm: "matching_of (\<lambda>a b. True) ranked pairings"
    using halves_matching [OF rk(2)] swiss_pairings_facts(1) [OF rk(1,2)] by (simp add: pairings_def)
  show thesis by (rule that [OF rk(1,3,4) pm])
qed

text \<open>A round that may be generated: its number is in range and nothing of it exists.\<close>

definition swiss_ready :: "store \<Rightarrow> tournament_record \<Rightarrow> int \<Rightarrow> bool" where
  "swiss_ready s t rnd = (store_ok s \<and> distinct (participants (tour_config t))
     \<and> (case format_options (tour_config t) of SwissFormatOptions n \<Rightarrow> 1 \<le> rnd \<and> rnd \<le> n | _ \<Rightarrow> False)
     \<and> round_free s (tour_id t) rnd 1)"

text \<open>The new round: everybody once, as an entrant of a match with two games or with the bye.\<close>

definition swiss_round_of :: "store \<Rightarrow> store \<Rightarrow> tournament_record \<Rightarrow> int \<Rightarrow> bool" where
  "swiss_round_of s s' t rnd = (\<exists>ms gs byes. matches s' = matches s @ ms @ byes \<and> games s' = games s @ gs
     \<and> new_round (tour_id t) rnd (next_match s) ms gs
     \<and> list_all (\<lambda>m. match_status m = Match_Bye \<and> match_round m = rnd \<and> match_tournament m = tour_id t
          \<and> engine2 m = None \<and> winner_engine m = Some (engine1 m)) byes
     \<and> length byes = length (participants (tour_config t)) mod 2
     \<and> mset (concat (map entrants (ms @ byes))) = mset (participants (tour_config t)))"

lemma generate_swiss_round_ok:
  assumes "swiss_ready s t rnd"
  shows "\<exists>s' n. generate_swiss_round s t rnd = Inr (s', n) \<and> store_ok s' \<and> swiss_round_of s s' t rnd"
proof -
  let ?ps = "participants (tour_config t)"
  obtain rounds where opts: "format_options (tour_config t) = SwissFormatOptions rounds" "1 \<le> rnd" "rnd \<le> rounds"
    using assms unfolding swiss_ready_def by (cases "format_options (tour_config t)") simp_all
  have ok: "store_ok s" "distinct ?ps" "round_free s (tour_id t) rnd 1"
    using assms unfolding swiss_ready_def by blast+
  define gs where "gs = list_games s (tour_id t)"
  define ms where "ms = list_tournament_matches s (tour_id t) None"
  obtain bye pairings where plan: "swiss_round_pairings rnd ?ps gs ms = (bye, pairings)"
    by (cases "swiss_round_pairings rnd ?ps gs ms")
  obtain ranked where rk: "distinct ranked" "mset ?ps = mset ranked + (case bye of None \<Rightarrow> {#} | Some e \<Rightarrow> {#e#})"
    "length ?ps mod 2 = (case bye of None \<Rightarrow> 0 | Some e \<Rightarrow> 1)" and pm: "matching_of (\<lambda>a b. True) ranked pairings"
    by (rule swiss_round_pairings_ok [OF ok(2) plan])
  obtain s1 ids where ids: "opening_ids s t (length pairings) = (s1, ids)" by (cases "opening_ids s t (length pairings)")
  then obtain d where s1: "s1 = s\<lparr>draws := d\<rparr>" by (rule opening_ids_store)
  have ok1: "store_ok s1" using ok(1) opening_ids_ok [OF ids] by simp
  have free1: "round_free s1 (tour_id t) rnd (int 1)" using ok(3) by (simp add: round_free_def s1)
  obtain s2 ms2 gs2 where two: "fold_result (create_swiss_match t rnd gs ids) s1 (enumerate 1 pairings) = Inr s2"
    "store_ok s2" "round_free s2 (tour_id t) rnd (int (1 + length pairings))" "matches s2 = matches s1 @ ms2"
    "games s2 = games s1 @ gs2" "map entrants ms2 = map (\<lambda>(a, b). [a, b]) pairings"
    "new_round (tour_id t) rnd (next_match s1) ms2 gs2"
    using create_swiss_matches_ok [OF ok1 free1 matching_apart [OF pm rk(1)]] by blast
  have flat: "mset (concat (map entrants ms2)) = mset ranked" using pm two(6) by (simp add: matching_of_def)
  have gen: "generate_swiss_round s t rnd = rbind (Inr s2) (\<lambda>s2. case bye of
      None \<Rightarrow> Inr (s2, int (2 * length pairings))
    | Some e \<Rightarrow> rbind (create_tournament_match s2 (tour_id t) rnd (int (length pairings + 1)) e None Match_Bye (Some e))
              (\<lambda>(s3, i). Inr (s3, int (2 * length pairings))))"
    using opts ids two(1) plan by (simp add: generate_swiss_round_def gs_def ms_def)
  show ?thesis
  proof (cases bye)
    case None
    have "swiss_round_of s s2 t rnd" unfolding swiss_round_of_def
      by (rule exI [of _ ms2], rule exI [of _ gs2], rule exI [of _ "[]"])
        (use two(4,5,7) flat rk(2,3) None in \<open>simp add: s1\<close>)
    then show ?thesis using gen None two(2) by simp
  next
    case (Some e)
    have "(tour_id t, rnd, int (length pairings + 1)) \<notin> match_key ` set (matches s2)"
      using two(3) by (force simp: round_free_def match_key_def)
    then obtain s3 i where s3: "create_tournament_match s2 (tour_id t) rnd (int (length pairings + 1)) e None Match_Bye (Some e) = Inr (s3, i)"
      by (simp add: create_match_Inr)
    obtain m where m: "matches s3 = matches s2 @ [m]" "match_round m = rnd" "match_tournament m = tour_id t"
      "match_status m = Match_Bye" "engine1 m = e" "engine2 m = None" "winner_engine m = Some e"
      using create_match_grows(4) [OF s3] by blast
    have g3: "games s3 = games s2" using s3 by (simp add: create_match_Inr)
    have "swiss_round_of s s3 t rnd" unfolding swiss_round_of_def
      by (rule exI [of _ ms2], rule exI [of _ gs2], rule exI [of _ "[m]"])
        (use two(4,5,7) flat rk(2,3) Some m g3 in \<open>simp add: s1 entrants_def\<close>)
    then show ?thesis using gen Some s3 create_match_ok [OF two(2) s3] by simp
  qed
qed

text \<open>
  C14: Generating a Swiss round that has not been generated succeeds, keeps the tables well
  formed, only adds rows, and pairs everybody exactly once: each entrant is in one new match
  with two new games of exchanged colours, or is the single bye of an odd field, which counts
  as won.
\<close>
theorem swiss_round_complete:
  assumes "swiss_ready s t rnd"
  shows "\<exists>s' n. generate_swiss_round s t rnd = Inr (s', n) \<and> store_ok s' \<and> swiss_round_of s s' t rnd"
  by (rule generate_swiss_round_ok [OF assms])

lemma swiss_round_complete_witness:
  "\<exists>s' n. generate_swiss_round (sample_store (sample_tournament SWISS (SwissFormatOptions 3) [1, 2, 3, 4, 5]))
      (sample_tournament SWISS (SwissFormatOptions 3) [1, 2, 3, 4, 5]) 1 = Inr (s', n) \<and> store_ok s'
    \<and> swiss_round_of (sample_store (sample_tournament SWISS (SwissFormatOptions 3) [1, 2, 3, 4, 5])) s'
      (sample_tournament SWISS (SwissFormatOptions 3) [1, 2, 3, 4, 5]) 1"
  by (rule swiss_round_complete) (simp add: swiss_ready_def sample_store_def sample_tournament_def store_ok_def
      games_ok_def matches_ok_def round_free_def)

end
