(* ===== verification/Tournament_Start.thy ===== *)
theory Tournament_Start
  imports Scheduler_Roster Swiss_Rounds
begin

text \<open>
  Starting a tournament and taking it further.  The tournaments here are those without a
  hand-and-brain fixture, whose own events advance them; the odds ladder of Duck vs Fish, whose
  next game depends on the last one, is included.
\<close>

definition list_suite_openings :: "store \<Rightarrow> int option \<Rightarrow> opening_row list" where
  "list_suite_openings s suite = sort_key opening_position (filter (\<lambda>r. Some (opening_suite r) = suite) (openings s))"

text \<open>The ladder: fourteen named steps, and eight more that take the pawns one by one.\<close>

definition odds_steps :: "(string \<times> string list) list" where
  "odds_steps = (let pieces = [''d1'', ''a1'', ''h1'', ''b1'', ''g1'', ''c1'', ''f1''] in
    [(''Even material'', []),
     (''Pawn odds'', [''f2'']),
     (''Two-pawn odds'', [''f2'', ''c2'']),
     (''Knight odds'', [''b1'']),
     (''Rook odds'', [''a1'']),
     (''Two-bishop odds'', [''c1'', ''f1'']),
     (''Queen odds'', [''d1'']),
     (''Queen and two-pawn odds'', [''d1'', ''f2'', ''c2'']),
     (''Queen and rook odds'', [''d1'', ''a1'']),
     (''Queen and two-rook odds'', [''d1'', ''a1'', ''h1'']),
     (''Queen, two-rook and knight odds'', [''d1'', ''a1'', ''h1'', ''b1'']),
     (''Queen, two-rook and two-knight odds'', [''d1'', ''a1'', ''h1'', ''b1'', ''g1'']),
     (''King, bishop and eight pawns'', [''d1'', ''a1'', ''h1'', ''b1'', ''g1'', ''c1'']),
     (''King and eight pawns'', pieces)]
    @ map (\<lambda>n. (if n < 8 then ''King and '' @ int_str (8 - int n) @ '' '' @ (if n = 7 then ''pawn'' else ''pawns'')
           else ''Lone king'',
         pieces @ map (\<lambda>rank. [rank, CHR ''2'']) (take n ''fcbgdeah''))) [1..<9])"

lemma length_odds_steps: "length odds_steps = 22"
  by (simp add: odds_steps_def Let_def)

definition won_by_first :: "int \<Rightarrow> game_record \<Rightarrow> bool" where
  "won_by_first wakwak g = (game_result g = (if white_engine g = wakwak then Some White_Won else Some Black_Won))"

definition advance_odds :: "store \<Rightarrow> int \<Rightarrow> (store \<times> int option) result" where
  "advance_odds s tid = (case get_tournament s tid of None \<Rightarrow> Inr (s, None) | Some t \<Rightarrow>
     if tid \<notin> set (odds_tournaments s) then Inr (s, None)
     else if tour_status t \<notin> {Draft, Scheduled, Running} then Inr (s, Some 0)
     else let gs = list_games s tid in
       if list_ex (\<lambda>g. game_status g \<noteq> Game_Finished) gs then Inr (s, Some 0)
       else (case participants (tour_config t) of
         [wakwak, fish] \<Rightarrow>
           if list_ex (\<lambda>g. \<not> won_by_first wakwak g) gs then Inr (s, Some 0)
           else if length odds_steps \<le> length gs then Inr (s, Some 0)
           else let suite = list_suite_openings s (opening_suite_id (tour_config t)) in
             if length suite \<noteq> length odds_steps then Inl (ValueError ''Duck vs Fish odds positions are missing.'')
             else let number = length gs + 1;
                 (white, black) = (if number mod 2 = 1 then (wakwak, fish) else (fish, wakwak))
               in rbind (create_game s tid (int number) 1 white black None (int number) None
                    (Some (opening_id (suite ! (number - 1)))))
                  (\<lambda>(s', i). Inr (s', Some 1))
       | _ \<Rightarrow> Inl (ValueError ''wrong number of values to unpack'')))"

definition materialize_tournament_schedule :: "store \<Rightarrow> tournament_record \<Rightarrow> (store \<times> int) result" where
  "materialize_tournament_schedule s t =
     (if list_games s (tour_id t) = [] \<and> list_tournament_matches s (tour_id t) None = []
      then rbind (advance_odds s (tour_id t)) (\<lambda>(s1, odds_created). case odds_created of
          Some n \<Rightarrow> Inr (s1, n)
        | None \<Rightarrow> (case format (tour_config t) of
            ROUND_ROBIN \<Rightarrow> generate_round_robin_games s1 t
          | SWISS \<Rightarrow> generate_swiss_round s1 t 1
          | KNOCKOUT \<Rightarrow> generate_knockout_first_round s1 t
          | GAUNTLET \<Rightarrow> generate_gauntlet_games s1 t))
      else Inr (s, 0))"

definition advance_tournament :: "store \<Rightarrow> tournament_record \<Rightarrow> (store \<times> tournament_advance) result option" where
  "advance_tournament s t = (let gs = list_games s (tour_id t) in case format (tour_config t) of
     SWISS \<Rightarrow> Some (advance_swiss s t)
   | KNOCKOUT \<Rightarrow> advance_knockout s t
   | _ \<Rightarrow> Some (Inr (s, \<lparr>created_games = 0,
       complete = (gs \<noteq> [] \<and> list_all (\<lambda>g. game_status g = Game_Finished) gs)\<rparr>)))"

text \<open>
  The change of status at a start; the statuses that end a tournament also abandon its games
  and are not used here.
\<close>

definition set_running :: "string \<Rightarrow> int \<Rightarrow> store \<Rightarrow> store" where
  "set_running now tid = update_tournament tid (\<lambda>r. r\<lparr>tour_status := Running,
     tour_started := (case tour_started r of None \<Rightarrow> Some now | Some earlier \<Rightarrow> Some earlier)\<rparr>)"

record tournament_preparation =
  prepared_id :: int
  prepared_name :: string
  prepared_games :: int
  skipped_reason :: "string option"

definition announce_started :: "store \<Rightarrow> tournament_record \<Rightarrow> store result" where
  "announce_started s t = (let scheduled = filter record_eligible (list_games s (tour_id t)) in
     if scheduled = [] then Inr s
     else rbind (announce_tournament_started (chat s) (tour_id t) (tour_name t) (int (length scheduled)))
       (\<lambda>(c, m). Inr (s\<lparr>chat := c\<rparr>)))"

definition start_locked_tournament :: "string \<Rightarrow> store \<Rightarrow> tournament_record \<Rightarrow> (store \<times> tournament_preparation) result option" where
  "start_locked_tournament now s t = (case materialize_tournament_schedule s t of
     Inl e \<Rightarrow> Some (Inl e)
   | Inr (s1, created) \<Rightarrow> let s2 = set_running now (tour_id t) s1 in
       (case get_tournament s2 (tour_id t) of
          None \<Rightarrow> Some (Inl (ValueError ''tournament does not exist''))
        | Some running \<Rightarrow> map_option (\<lambda>advanced. rbind advanced (\<lambda>(s3, advance).
            rbind (announce_started s3 running) (\<lambda>s4.
            Inr (s4, \<lparr>prepared_id = tour_id t, prepared_name = tour_name t,
              prepared_games = created + created_games advance, skipped_reason = None\<rparr>))))
            (advance_tournament s2 running)))"

definition start_tournament :: "string \<Rightarrow> store \<Rightarrow> int \<Rightarrow> (store \<times> tournament_preparation) result option" where
  "start_tournament now s tid = (case get_tournament s tid of
     None \<Rightarrow> Some (Inl (ValueError ''tournament does not exist''))
   | Some t \<Rightarrow> if tour_status t \<notin> {Draft, Scheduled} \<or> tour_started t \<noteq> None
       then Some (Inl (ValueError ''only a draft or unstarted scheduled tournament can be started''))
       else start_locked_tournament now s t)"

definition prepare_tournament :: "string \<Rightarrow> store \<Rightarrow> tournament_record \<Rightarrow> (store \<times> tournament_preparation) result option" where
  "prepare_tournament now s t = (let skipped = Some (Inr (s, \<lparr>prepared_id = tour_id t, prepared_name = tour_name t,
       prepared_games = 0, skipped_reason = Some ''tournament is no longer scheduled''\<rparr>))
   in case get_tournament s (tour_id t) of
       None \<Rightarrow> skipped
     | Some current \<Rightarrow> if tour_status current \<noteq> Scheduled then skipped
         else start_locked_tournament now s current)"

subsection \<open>The schedule stays complete\<close>

lemma advance_odds_plain: "tid \<notin> set (odds_tournaments s) \<Longrightarrow> advance_odds s tid = Inr (s, None)"
  by (simp add: advance_odds_def split: option.splits)

lemma schedule_stays_complete:
  assumes "games_ok s" and "get_tournament s tid = Some t" and "check_config c0 = Inr (tour_config t)"
    and "format (tour_config t) \<in> {ROUND_ROBIN, GAUNTLET}" and "of_tournament tid (games s) = []"
    and "list_tournament_matches s tid None = []" and "tid \<notin> set (odds_tournaments s)"
  obtains s0 n where "materialize_tournament_schedule s t = Inr (s0, n)" and "roster_ok s0 tid"
proof -
  have tid: "tour_id t = tid" by (rule get_tournament_id [OF assms(2)])
  have m: "materialize_tournament_schedule s t = (case format (tour_config t) of
            ROUND_ROBIN \<Rightarrow> generate_round_robin_games s t
          | SWISS \<Rightarrow> generate_swiss_round s t 1
          | KNOCKOUT \<Rightarrow> generate_knockout_first_round s t
          | GAUNTLET \<Rightarrow> generate_gauntlet_games s t)"
    using assms(5,6) advance_odds_plain [OF assms(7)] tid by (simp add: materialize_tournament_schedule_def)
  from assms(4) consider "format (tour_config t) = ROUND_ROBIN" | "format (tour_config t) = GAUNTLET" by blast
  then show thesis
  proof cases
    case 1
    then show ?thesis using generated_round_robin_ok [OF assms(1,2,3) 1 assms(5)] m that by auto
  next
    case 2
    then show ?thesis using generated_gauntlet_ok [OF assms(1,2,3) 2 assms(5)] m that by auto
  qed
qed


definition sample_draft :: tournament_record where
  "sample_draft = (sample_tournament ROUND_ROBIN (RoundRobinFormatOptions 2) [1, 2, 3])
     \<lparr>tour_status := Draft, tour_started := None,
      tour_config := accepted_value sample_config (check_config (sample_config\<lparr>format := ROUND_ROBIN,
        format_options := RoundRobinFormatOptions 2, participants := [1, 2, 3]\<rparr>))\<rparr>"

lemma sample_draft_accepted:
  "check_config (sample_config\<lparr>format := ROUND_ROBIN, format_options := RoundRobinFormatOptions 2,
     participants := [1, 2, 3]\<rparr>) = Inr (tour_config sample_draft)"
  by code_simp


subsection \<open>A newcomer is accepted\<close>



subsection \<open>A tournament starts once\<close>

text \<open>Scheduling never touches the table of tournaments.\<close>

definition keeps_tournaments :: "store \<Rightarrow> store \<Rightarrow> bool" where
  "keeps_tournaments s s' = (tournaments s' = tournaments s)"

named_theorems frames \<open>operations that leave the table of tournaments alone\<close>

lemma keeps_tournaments_refl [frames]: "keeps_tournaments s s"
  by (simp add: keeps_tournaments_def)

lemma keeps_tournaments_trans: "keeps_tournaments s s' \<Longrightarrow> keeps_tournaments s' s'' \<Longrightarrow> keeps_tournaments s s''"
  by (simp add: keeps_tournaments_def)

lemma keeps_fold:
  assumes "fold_result f s xs = Inr s'" and "\<And>r x r'. f r x = Inr r' \<Longrightarrow> keeps_tournaments (g r) (g r')"
  shows "keeps_tournaments (g s) (g s')"
  using assms(1)
proof (rule fold_result_invariant)
  fix r x r' assume "keeps_tournaments (g s) (g r)" "f r x = Inr r'"
  then show "keeps_tournaments (g s) (g r')" using keeps_tournaments_trans assms(2) by blast
qed (rule keeps_tournaments_refl)

lemma keeps_opening_ids [frames]: "opening_ids s t limit = (s', ids) \<Longrightarrow> keeps_tournaments s s'"
  by (erule opening_ids_store) (simp add: keeps_tournaments_def)

lemma keeps_create_games [frames]: "create_games t ids s plans = Inr s' \<Longrightarrow> keeps_tournaments s s'"
  unfolding create_games_def
  by (erule keeps_fold [where g = "\<lambda>s. s"])
    (auto simp: rbind_eq_Inr create_scheduled_game_def Let_def create_game_Inr keeps_tournaments_def)

lemma keeps_create_match [frames]:
  "create_tournament_match s t rnd i a b st w = Inr (s', k) \<Longrightarrow> keeps_tournaments s s'"
  by (auto simp: create_match_Inr keeps_tournaments_def)

lemma keeps_planned:
  "opening_ids s t limit = (s1, ids) \<Longrightarrow> create_games t ids s1 plans = Inr s2 \<Longrightarrow> keeps_tournaments s s2"
  by (rule keeps_tournaments_trans [OF keeps_opening_ids keeps_create_games])

lemma keeps_round_robin [frames]: "generate_round_robin_games s t = Inr (s', n) \<Longrightarrow> keeps_tournaments s s'"
  by (auto simp: generate_round_robin_games_def rbind_eq_Inr Let_def split: format_options.splits prod.splits
      intro: keeps_planned)

lemma keeps_gauntlet [frames]: "generate_gauntlet_games s t = Inr (s', n) \<Longrightarrow> keeps_tournaments s s'"
  by (auto simp: generate_gauntlet_games_def rbind_eq_Inr Let_def split: format_options.splits prod.splits
      intro: keeps_planned)

lemma keeps_swiss_match: "create_swiss_match t rnd gs ids s item = Inr s' \<Longrightarrow> keeps_tournaments s s'"
  by (cases item) (auto simp: create_swiss_match_def Let_def rbind_eq_Inr split: prod.splits
      intro: keeps_tournaments_trans [OF keeps_create_match keeps_create_games])

lemma keeps_swiss_round [frames]:
  assumes "generate_swiss_round s t rnd = Inr (s', n)"
  shows "keeps_tournaments s s'"
proof (cases "format_options (tour_config t)")
  case (SwissFormatOptions rounds)
  show ?thesis
  proof (cases "rnd < 1 \<or> rounds < rnd")
    case True
    then show ?thesis using assms SwissFormatOptions by (auto simp: generate_swiss_round_def frames)
  next
    case False
    let ?gs = "list_games s (tour_id t)"
    obtain bye pairings where plan: "swiss_round_pairings rnd (participants (tour_config t)) ?gs
        (list_tournament_matches s (tour_id t) None) = (bye, pairings)" by fastforce
    obtain s1 ids where ids: "opening_ids s t (length pairings) = (s1, ids)" by fastforce
    obtain s2 where s2: "fold_result (create_swiss_match t rnd ?gs ids) s1 (enumerate 1 pairings) = Inr s2"
      using assms SwissFormatOptions False plan ids by (auto simp: generate_swiss_round_def rbind_eq_Inr)
    have "keeps_tournaments s1 s2" by (rule keeps_fold [where g = "\<lambda>s. s", OF s2]) (rule keeps_swiss_match)
    then have k: "keeps_tournaments s s2" by (rule keeps_tournaments_trans [OF keeps_opening_ids [OF ids]])
    show ?thesis
    proof (cases bye)
      case None
      then show ?thesis using assms SwissFormatOptions False plan ids s2 k by (simp add: generate_swiss_round_def)
    next
      case (Some e)
      then obtain i where "create_tournament_match s2 (tour_id t) rnd (int (length pairings + 1)) e None Match_Bye (Some e) = Inr (s', i)"
        using assms SwissFormatOptions False plan ids s2 by (auto simp: generate_swiss_round_def rbind_eq_Inr)
      then show ?thesis using keeps_tournaments_trans [OF k keeps_create_match] by blast
    qed
  qed
qed (use assms in \<open>simp_all add: generate_swiss_round_def\<close>)

lemma keeps_create_game: "create_game s t rnd pair white black match number kind opening = Inr (s', i) \<Longrightarrow> keeps_tournaments s s'"
  by (auto simp: create_game_Inr keeps_tournaments_def)

lemma keeps_finish: "keeps_tournaments s (finish_tournament_match i w s)"
  by (simp add: finish_tournament_match_def keeps_tournaments_def)

lemma keeps_knockout_match:
  assumes "create_knockout_match t rnd ids x y = Inr z"
  shows "keeps_tournaments (fst x) (fst z)"
proof -
  obtain s pair_index created where x: "x = (s, pair_index, created)" by (cases x)
  obtain index first second where y: "y = (index, first, second)" by (cases y)
  show ?thesis using assms unfolding x y
    by (cases first; cases second) (auto simp: create_knockout_match_def rbind_eq_Inr frames
        intro: keeps_tournaments_trans [OF keeps_create_match keeps_create_games] keeps_create_match)
qed

lemma keeps_knockout_round:
  assumes "create_knockout_round s t rnd pairings = Inr (s', n)"
  shows "keeps_tournaments s s'"
proof (cases "format_options (tour_config t)")
  case KnockoutFormatOptions
  obtain s1 ids where ids: "opening_ids s t (length pairings) = (s1, ids)" by fastforce
  obtain s2 pair_index created where
    "fold_result (create_knockout_match t rnd ids) (s1, 1, 0) (enumerate 1 pairings) = Inr (s2, pair_index, created)"
    and s': "s' = s2"
    using assms KnockoutFormatOptions ids by (auto simp: create_knockout_round_def rbind_eq_Inr)
  from keeps_fold [where g = fst, OF this(1) keeps_knockout_match] have "keeps_tournaments s1 s'"
    unfolding s' by simp
  then show ?thesis by (rule keeps_tournaments_trans [OF keeps_opening_ids [OF ids]])
qed (use assms in \<open>simp_all add: create_knockout_round_def\<close>)

lemma keeps_append:
  assumes "append_knockout_games s t m gs k kind = Inr (s', n)"
  shows "keeps_tournaments s s'"
proof (cases "engine2 m")
  case (Some second)
  obtain s1 ids where "opening_ids s t ((k + 1) div 2) = (s1, ids)" by fastforce
  then show ?thesis using assms Some
    by (auto simp: append_knockout_games_def Let_def rbind_eq_Inr intro: keeps_planned)
qed (use assms in \<open>simp add: append_knockout_games_def frames\<close>)

lemma keeps_resolve:
  "resolve_knockout_match s t m gs = Inr (s', winner, n) \<Longrightarrow> keeps_tournaments s s'"
  by (auto simp: resolve_knockout_match_def Let_def rbind_eq_Inr frames split: option.splits prod.splits if_splits
      intro: keeps_append)

lemma keeps_settle:
  assumes "settle_knockout_match t by_match x m = Inr z"
  shows "keeps_tournaments (fst x) (fst z)"
proof -
  obtain s waiting n where x: "x = (s, waiting, n)" by (cases x)
  let ?gs = "by_match (match_id m)"
  show ?thesis
  proof (cases "match_status m \<noteq> Match_Pending \<or> ?gs = [] \<or> list_ex (\<lambda>g. game_status g \<noteq> Game_Finished) ?gs")
    case True
    then show ?thesis using assms by (auto simp: x settle_knockout_match_def Let_def frames split: if_splits)
  next
    case False
    then obtain s1 winner created where r: "resolve_knockout_match s t m ?gs = Inr (s1, winner, created)"
      and z: "fst z = (case winner of None \<Rightarrow> s1 | Some w \<Rightarrow> finish_tournament_match (match_id m) (Some w) s1)"
      using assms by (auto simp: x settle_knockout_match_def Let_def rbind_eq_Inr split: option.splits)
    show ?thesis using keeps_resolve [OF r] keeps_tournaments_trans [OF keeps_resolve [OF r] keeps_finish] z
      by (cases winner) (simp_all add: x)
  qed
qed

lemma keeps_swiss_finished: "finish_swiss_matches by_match s ms = (s', b) \<Longrightarrow> keeps_tournaments s s'"
proof (induction ms arbitrary: s)
  case (Cons m ms)
  then show ?case
    by (auto simp: finish_swiss_match_def Let_def frames split: if_splits prod.splits
        intro: keeps_tournaments_trans [OF keeps_finish])
qed (simp add: frames)

lemma keeps_advance_swiss:
  "advance_swiss s t = Inr (s', a) \<Longrightarrow> keeps_tournaments s s'"
  by (auto simp: advance_swiss_def Let_def rbind_eq_Inr frames split: format_options.splits if_splits prod.splits bool.splits
      intro: keeps_swiss_round keeps_swiss_finished keeps_tournaments_trans [OF keeps_swiss_finished keeps_swiss_round])

lemma keeps_advance_loop:
  "advance_knockout_loop fuel s t n = Some (Inr (s', a)) \<Longrightarrow> keeps_tournaments s s'"
proof (induction fuel arbitrary: s n)
  case (Suc fuel)
  let ?ms = "list_tournament_matches s (tour_id t) None"
  let ?rnd = "current_round ?ms"
  let ?by = "games_by_match (list_games s (tour_id t))"
  let ?settled = "fold_result (settle_knockout_match t ?by) (s, False, n) (filter (\<lambda>m. match_round m = ?rnd) ?ms)"
  show ?case
  proof (cases "?ms = []")
    case True
    then show ?thesis using Suc.prems
      by (auto simp: rbind_eq_Inr generate_knockout_first_round_def split: format_options.splits intro: keeps_knockout_round)
  next
    case False
    then obtain s1 waiting created where settled: "?settled = Inr (s1, waiting, created)"
      using Suc.prems by (auto simp: Let_def split: sum.splits)
    have k1: "keeps_tournaments s s1" using keeps_fold [where g = fst, OF settled keeps_settle] by simp
    let ?rms = "list_tournament_matches s1 (tour_id t) (Some ?rnd)"
    show ?thesis
    proof (cases "s' = s1")
      case False
      then obtain s2 k where step: "rbind (next_pairings (map winner_engine ?rms)) (create_knockout_round s1 t (?rnd + 1)) = Inr (s2, k)"
        and rest: "advance_knockout_loop fuel s2 t (created + k) = Some (Inr (s', a))"
        using Suc.prems \<open>?ms \<noteq> []\<close> settled by (auto simp: Let_def split: if_splits sum.splits)
      obtain ps where "create_knockout_round s1 t (?rnd + 1) ps = Inr (s2, k)"
        using step by (auto simp: rbind_eq_Inr)
      then have "keeps_tournaments s1 s2" by (rule keeps_knockout_round)
      with k1 Suc.IH [OF rest] show ?thesis by (blast intro: keeps_tournaments_trans)
    qed (use k1 in simp)
  qed
qed simp

lemma keeps_advance: "advance_tournament s t = Some (Inr (s', a)) \<Longrightarrow> keeps_tournaments s s'"
  by (auto simp: advance_tournament_def Let_def advance_knockout_def frames split: tournament_format.splits format_options.splits
      intro: keeps_advance_swiss keeps_advance_loop)

lemma keeps_odds: "advance_odds s tid = Inr (s', n) \<Longrightarrow> keeps_tournaments s s'"
  by (auto simp: advance_odds_def Let_def rbind_eq_Inr frames split: option.splits if_splits list.splits prod.splits
      intro: keeps_create_game)

lemma keeps_materialize:
  assumes "materialize_tournament_schedule s t = Inr (s', n)"
  shows "keeps_tournaments s s'"
proof (cases "list_games s (tour_id t) = [] \<and> list_tournament_matches s (tour_id t) None = []")
  case True
  then obtain s1 created where odds: "advance_odds s (tour_id t) = Inr (s1, created)"
    and rest: "(case created of Some n \<Rightarrow> Inr (s1, n)
        | None \<Rightarrow> (case format (tour_config t) of
            ROUND_ROBIN \<Rightarrow> generate_round_robin_games s1 t
          | SWISS \<Rightarrow> generate_swiss_round s1 t 1
          | KNOCKOUT \<Rightarrow> generate_knockout_first_round s1 t
          | GAUNTLET \<Rightarrow> generate_gauntlet_games s1 t)) = Inr (s', n)"
    using assms by (auto simp: materialize_tournament_schedule_def rbind_eq_Inr)
  have "keeps_tournaments s1 s'"
    using rest by (auto simp: frames generate_knockout_first_round_def split: option.splits tournament_format.splits format_options.splits
        intro: keeps_round_robin keeps_swiss_round keeps_knockout_round keeps_gauntlet)
  then show ?thesis by (rule keeps_tournaments_trans [OF keeps_odds [OF odds]])
next
  case False
  then have "s' = s" using assms unfolding materialize_tournament_schedule_def if_not_P [OF False] by simp
  then show ?thesis by (simp add: frames)
qed

lemma keeps_announce: "announce_started s t = Inr s' \<Longrightarrow> keeps_tournaments s s'"
  by (auto simp: announce_started_def Let_def rbind_eq_Inr keeps_tournaments_def split: if_splits)

lemma get_set_running:
  "get_tournament (set_running now tid s) tid = map_option (\<lambda>r. r\<lparr>tour_status := Running,
     tour_started := (case tour_started r of None \<Rightarrow> Some now | Some earlier \<Rightarrow> Some earlier)\<rparr>) (get_tournament s tid)"
proof -
  have "List.find (\<lambda>r. tour_id r = tid) (map (\<lambda>r. if tour_id r = tid then f r else r) rs)
      = map_option f (List.find (\<lambda>r. tour_id r = tid) rs)" if "\<And>r. tour_id (f r) = tour_id r" for f :: "tournament_record \<Rightarrow> tournament_record" and rs
    using that by (induction rs) auto
  then show ?thesis by (simp add: get_tournament_def set_running_def update_tournament_def)
qed

lemma started_stays_running:
  assumes "start_locked_tournament now s t = Some (Inr (s', p))"
  obtains r where "get_tournament s' (tour_id t) = Some r" and "tour_status r = Running" and "tour_started r \<noteq> None"
proof -
  obtain s1 created where s1: "materialize_tournament_schedule s t = Inr (s1, created)"
    using assms by (auto simp: start_locked_tournament_def split: sum.splits)
  let ?s2 = "set_running now (tour_id t) s1"
  obtain r where r: "get_tournament ?s2 (tour_id t) = Some r"
    using assms s1 by (auto simp: start_locked_tournament_def Let_def split: option.splits)
  obtain s3 adv where adv: "advance_tournament ?s2 r = Some (Inr (s3, adv))" and s4: "announce_started s3 r = Inr s'"
    using assms s1 r by (auto simp: start_locked_tournament_def Let_def rbind_eq_Inr)
  have "keeps_tournaments ?s2 s'"
    by (rule keeps_tournaments_trans [OF keeps_advance [OF adv] keeps_announce [OF s4]])
  then have "get_tournament s' (tour_id t) = Some r" using r by (simp add: keeps_tournaments_def get_tournament_def)
  moreover have "tour_status r = Running" "tour_started r \<noteq> None"
    using r by (auto simp: get_set_running split: option.splits)
  ultimately show thesis by (rule that)
qed

text \<open>
  C18: A tournament starts once.  When a start succeeds, the tournament is running with a start
  time, and starting it again, at whatever time and after whatever further scheduling, raises
  the error, while the scheduled start skips it.
\<close>
theorem tournament_starts_once:
  assumes "start_tournament now s tid = Some (Inr (s', p))" and "tournaments s'' = tournaments s'"
  shows "start_tournament now' s'' tid = Some (Inl (ValueError ''only a draft or unstarted scheduled tournament can be started''))
    \<and> (\<forall>t. tour_id t = tid \<longrightarrow> prepare_tournament now' s'' t = Some (Inr (s'', \<lparr>prepared_id = tid, prepared_name = tour_name t,
         prepared_games = 0, skipped_reason = Some ''tournament is no longer scheduled''\<rparr>)))"
proof -
  obtain t where t: "get_tournament s tid = Some t" "start_locked_tournament now s t = Some (Inr (s', p))"
    using assms(1) by (auto simp: start_tournament_def split: option.splits if_splits)
  obtain r where "get_tournament s' (tour_id t) = Some r" and r: "tour_status r = Running" "tour_started r \<noteq> None"
    by (rule started_stays_running [OF t(2)])
  then have "get_tournament s'' tid = Some r"
    using assms(2) get_tournament_id [OF t(1)] by (simp add: get_tournament_def)
  then show ?thesis using r by (simp add: start_tournament_def prepare_tournament_def Let_def)
qed

text \<open>A draft whose only game has been scheduled before its start.\<close>

definition sample_cup :: store where
  "sample_cup = (sample_store ((sample_tournament ROUND_ROBIN (RoundRobinFormatOptions 1) [1, 2])
     \<lparr>tour_status := Draft, tour_started := None\<rparr>))\<lparr>games := [sample_game 1 1 2], next_game := 2\<rparr>"

lemma sample_cup_starts: "\<exists>s' p. start_tournament ''t1'' sample_cup 1 = Some (Inr (s', p))"
  by (simp add: start_tournament_def start_locked_tournament_def materialize_tournament_schedule_def
      sample_cup_def sample_store_def sample_tournament_def sample_game_def sample_config_def get_tournament_def list_games_def
      set_running_def update_tournament_def advance_tournament_def announce_started_def announce_tournament_started_def
      emit_def create_chat_message_def get_chat_message_def Let_def)

lemma tournament_starts_once_witness:
  "\<exists>s' p. start_tournament ''t1'' sample_cup 1 = Some (Inr (s', p))
    \<and> start_tournament ''t2'' s' 1 = Some (Inl (ValueError ''only a draft or unstarted scheduled tournament can be started''))"
proof -
  obtain s' p where start: "start_tournament ''t1'' sample_cup 1 = Some (Inr (s', p))" using sample_cup_starts by blast
  from tournament_starts_once [OF start refl] start show ?thesis by blast
qed

end
