(* ===== verification/Game_Lifecycle.thy ===== *)
theory Game_Lifecycle
  imports Tournament_Store
begin

text \<open>
  The life of a game in the tables of \<open>cope/db/repo.py\<close>: it is assigned to a worker under an
  assignment key, acknowledged, played live, paused with a checkpoint and resumed, lost with its
  worker and reset, finished, replayed, abandoned with its tournament and restored.  The tables
  are lists of rows; a foreign key with \<open>ON DELETE CASCADE\<close> is written out where rows are
  deleted.  JSON texts are strings; the metadata of a progress row and the events of an engine
  relay are left out.  What \<open>utc_now()\<close> returns is the argument \<open>now\<close>.
\<close>

datatype assignment_status = Asg_Assigned | Asg_Acked | Asg_Live | Asg_Finished | Asg_Abandoned | Asg_Expired

record assignment_record =
  asg_id :: int
  asg_game :: int
  asg_key :: string
  asg_worker :: "int option"
  asg_status :: assignment_status
  asg_sent :: "string option"
  asg_acked :: "string option"
  asg_finished :: "string option"
  asg_error :: "string option"

record game_row = game_record +
  game_termination :: "string option"
  game_pgn :: "string option"
  game_started :: "string option"
  game_ended :: "string option"

record checkpoint_record =
  checkpoint_game :: int
  checkpoint_state :: string
  checkpoint_paused :: string

record move_record =
  move_game :: int
  move_ply :: int
  move_uci :: string
  move_san :: string
  move_is_book :: bool
  move_eval_cp :: "int option"
  move_eval_mate :: "int option"
  move_score_bound :: "string option"
  move_depth :: "int option"
  move_seldepth :: "int option"
  move_nodes :: "int option"
  move_nps :: "int option"
  move_hashfull :: "int option"
  move_pv :: "string option"
  move_info_line :: "string option"
  move_time_ms :: int
  move_clock_after_ms :: int
  move_engine_version :: "int option"

datatype progress_status = Progress_Pending | Progress_Running | Progress_Completed | Progress_Failed

record progress_row =
  progress_id :: int
  progress_assignment :: int
  progress_key :: string
  progress_game :: int
  progress_source :: string
  progress_stage :: string
  progress_stage_label :: string
  progress_stage_order :: int
  progress_substage :: string
  progress_status :: progress_status
  progress_detail :: string
  progress_engine :: "int option"
  progress_engine_name :: "string option"
  progress_current :: "int option"
  progress_total :: "int option"
  progress_at :: string

datatype worker_status = Minted | Connected | Downloading | Ready | Busy | Offline | Revoked

record worker_row =
  worker_id :: int
  worker_label :: string
  worker_status :: worker_status
  worker_session :: "string option"
  worker_seen :: "string option"

record lifecycle =
  life_tournaments :: "tournament_record list"
  life_games :: "game_row list"
  assignments :: "assignment_record list"
  checkpoints :: "checkpoint_record list"
  life_moves :: "move_record list"
  progress_rows :: "progress_row list"
  workers :: "worker_row list"
  fixture_workers :: "(int \<times> int) list"
  hardware_scores :: "(int \<times> int) list"
  rating_commits :: "(int \<times> string) list"
  life_rated :: "int list"
  life_chat :: chat_log
  next_assignment :: int
  next_progress :: int

subsection \<open>Tables\<close>

definition update_rows :: "('a \<Rightarrow> bool) \<Rightarrow> ('a \<Rightarrow> 'a) \<Rightarrow> 'a list \<Rightarrow> 'a list" where
  "update_rows P f rows = map (\<lambda>r. if P r then f r else r) rows"

definition coalesce :: "'a option \<Rightarrow> 'a \<Rightarrow> 'a option" where
  "coalesce known x = (case known of None \<Rightarrow> Some x | Some y \<Rightarrow> Some y)"

definition status_text :: "assignment_status \<Rightarrow> string" where
  "status_text st = (case st of Asg_Assigned \<Rightarrow> ''assigned'' | Asg_Acked \<Rightarrow> ''acked'' | Asg_Live \<Rightarrow> ''live''
     | Asg_Finished \<Rightarrow> ''finished'' | Asg_Abandoned \<Rightarrow> ''abandoned'' | Asg_Expired \<Rightarrow> ''expired'')"

definition active :: "assignment_record \<Rightarrow> bool" where
  "active a = (asg_status a \<in> {Asg_Assigned, Asg_Acked, Asg_Live})"

definition get_game_row :: "lifecycle \<Rightarrow> int \<Rightarrow> game_row option" where
  "get_game_row s g = List.find (\<lambda>r. game_id r = g) (life_games s)"

definition get_game_assignment :: "lifecycle \<Rightarrow> int \<Rightarrow> assignment_record option" where
  "get_game_assignment s i = List.find (\<lambda>a. asg_id a = i) (assignments s)"

definition get_game_assignment_for_game :: "lifecycle \<Rightarrow> int \<Rightarrow> assignment_record option" where
  "get_game_assignment_for_game s g = List.find (\<lambda>a. asg_game a = g) (assignments s)"

definition get_game_pause_checkpoint :: "lifecycle \<Rightarrow> int \<Rightarrow> checkpoint_record option" where
  "get_game_pause_checkpoint s g = List.find (\<lambda>c. checkpoint_game c = g) (checkpoints s)"

definition list_moves :: "lifecycle \<Rightarrow> int \<Rightarrow> move_record list" where
  "list_moves s g = sort_key move_ply (filter (\<lambda>m. move_game m = g) (life_moves s))"

definition update_assignments :: "(assignment_record \<Rightarrow> bool) \<Rightarrow> (assignment_record \<Rightarrow> assignment_record) \<Rightarrow> lifecycle \<Rightarrow> lifecycle" where
  "update_assignments P f s = s\<lparr>assignments := update_rows P f (assignments s)\<rparr>"

definition update_games :: "(game_row \<Rightarrow> bool) \<Rightarrow> (game_row \<Rightarrow> game_row) \<Rightarrow> lifecycle \<Rightarrow> lifecycle" where
  "update_games P f s = s\<lparr>life_games := update_rows P f (life_games s)\<rparr>"

subsection \<open>Assigning, acknowledging, playing\<close>

text \<open>The upsert: a game has one assignment row, which a new assignment takes over.\<close>

definition fresh_assignment :: "int \<Rightarrow> int \<Rightarrow> string \<Rightarrow> int \<Rightarrow> string \<Rightarrow> assignment_record" where
  "fresh_assignment i g key w now = \<lparr>asg_id = i, asg_game = g, asg_key = key, asg_worker = Some w,
     asg_status = Asg_Assigned, asg_sent = Some now, asg_acked = None, asg_finished = None, asg_error = None\<rparr>"

definition assign_game_to_worker :: "string \<Rightarrow> lifecycle \<Rightarrow> int \<Rightarrow> string \<Rightarrow> int
    \<Rightarrow> (lifecycle \<times> assignment_record option) result" where
  "assign_game_to_worker now s g key w =
     (if \<not> list_ex (\<lambda>r. game_id r = g \<and> game_status r = Game_Pending) (life_games s) then Inr (s, None)
      else let s1 = update_games (\<lambda>r. game_id r = g \<and> game_status r = Game_Pending)
                (\<lambda>r. r\<lparr>game_status := Game_Assigned\<rparr>) s
        in if list_ex (\<lambda>a. asg_key a = key \<and> asg_game a \<noteq> g) (assignments s1) then Inl IntegrityError
           else let s2 = (if list_ex (\<lambda>a. asg_game a = g) (assignments s1)
               then update_assignments (\<lambda>a. asg_game a = g) (\<lambda>a. fresh_assignment (asg_id a) g key w now) s1
               else s1\<lparr>assignments := assignments s1 @ [fresh_assignment (next_assignment s1) g key w now],
                       next_assignment := next_assignment s1 + 1\<rparr>)
             in rbind (or_error (RuntimeError (''failed to assign game '' @ int_str g)) (get_game_assignment_for_game s2 g))
                  (\<lambda>a. Inr (s2, Some a)))"

definition acknowledge_game_assignment :: "string \<Rightarrow> lifecycle \<Rightarrow> int \<Rightarrow> string \<Rightarrow> lifecycle result" where
  "acknowledge_game_assignment now s i key = (let
     P = (\<lambda>a. asg_id a = i \<and> asg_key a = key \<and> asg_status a \<in> {Asg_Assigned, Asg_Acked})
   in if length (filter P (assignments s)) \<noteq> 1
      then Inl (RuntimeError (''assignment '' @ int_str i @ '' is no longer awaiting readiness''))
      else Inr (update_assignments P (\<lambda>a. a\<lparr>asg_status := Asg_Acked, asg_acked := coalesce (asg_acked a) now\<rparr>) s))"

definition mark_game_assignment_live :: "string \<Rightarrow> int \<Rightarrow> lifecycle \<Rightarrow> lifecycle" where
  "mark_game_assignment_live now i = update_assignments (\<lambda>a. asg_id a = i \<and> active a)
     (\<lambda>a. a\<lparr>asg_status := Asg_Live, asg_acked := coalesce (asg_acked a) now\<rparr>)"

definition mark_game_live :: "string \<Rightarrow> int \<Rightarrow> lifecycle \<Rightarrow> lifecycle" where
  "mark_game_live now g = update_games (\<lambda>r. game_id r = g)
     (\<lambda>r. r\<lparr>game_status := Game_Live, game_started := coalesce (game_started r) now\<rparr>)"

definition mark_worker_assignment_live :: "string \<Rightarrow> lifecycle \<Rightarrow> int \<Rightarrow> lifecycle result" where
  "mark_worker_assignment_live now s i =
     rbind (or_error (RuntimeError (''unknown assignment '' @ int_str i)) (get_game_assignment s i)) (\<lambda>a.
     rbind (guard (active a) (RuntimeError (''assignment '' @ int_str i @ '' is no longer active ('' @ status_text (asg_status a) @ '')''))) (\<lambda>_.
     Inr (mark_game_live now (asg_game a) (mark_game_assignment_live now i s))))"

definition validated_assignment_record :: "lifecycle \<Rightarrow> int \<Rightarrow> string \<Rightarrow> int \<Rightarrow> assignment_record result" where
  "validated_assignment_record s i key g =
     rbind (or_error (RuntimeError (''unknown assignment '' @ int_str i)) (get_game_assignment s i)) (\<lambda>a.
     rbind (guard (asg_key a = key) (RuntimeError (''stale assignment '' @ int_str i))) (\<lambda>_.
     rbind (guard (asg_game a = g) (RuntimeError (''assignment '' @ int_str i @ '' game mismatch''))) (\<lambda>_.
     rbind (guard (active a) (RuntimeError (''assignment '' @ int_str i @ '' is no longer active ('' @ status_text (asg_status a) @ '')''))) (\<lambda>_.
     Inr a))))"

definition validate_new_game_attempt :: "move_record list \<Rightarrow> bool \<Rightarrow> unit result" where
  "validate_new_game_attempt recorded has_pause_checkpoint = guard (recorded = [] \<or> has_pause_checkpoint)
     (RuntimeError ''game assignment contains moves from an earlier attempt; interrupted games must be reset before reassignment'')"

definition insert_move :: "lifecycle \<Rightarrow> move_record \<Rightarrow> lifecycle result" where
  "insert_move s m = (if (move_game m, move_ply m) \<in> set (map (\<lambda>m. (move_game m, move_ply m)) (life_moves s))
     then Inl IntegrityError else Inr (s\<lparr>life_moves := life_moves s @ [m]\<rparr>))"

definition record_move :: "lifecycle \<Rightarrow> int option \<Rightarrow> string option \<Rightarrow> move_record \<Rightarrow> lifecycle result" where
  "record_move s assignment key m = (case (assignment, key) of
     (None, None) \<Rightarrow> insert_move s m
   | (Some i, Some k) \<Rightarrow>
       if list_ex (\<lambda>a. asg_id a = i \<and> asg_key a = k \<and> asg_game a = move_game m \<and> active a) (assignments s)
       then insert_move s m
       else Inl (RuntimeError (''assignment '' @ int_str i @ '' is no longer active''))
   | _ \<Rightarrow> Inl (ValueError ''assignment id and key must be provided together''))"

definition finish_game :: "string \<Rightarrow> int \<Rightarrow> game_outcome \<Rightarrow> string \<Rightarrow> string option \<Rightarrow> lifecycle \<Rightarrow> lifecycle" where
  "finish_game now g res termin pgn s = (let
     s1 = update_games (\<lambda>r. game_id r = g) (\<lambda>r. r\<lparr>game_status := Game_Finished, game_result := Some res,
       game_termination := Some termin, game_pgn := pgn, game_ended := Some now\<rparr>) s
   in s1\<lparr>checkpoints := filter (\<lambda>c. checkpoint_game c \<noteq> g) (checkpoints s1)\<rparr>)"

definition finish_game_assignment :: "string \<Rightarrow> int \<Rightarrow> string \<Rightarrow> lifecycle \<Rightarrow> lifecycle" where
  "finish_game_assignment now i key = update_assignments (\<lambda>a. asg_id a = i \<and> asg_key a = key)
     (\<lambda>a. a\<lparr>asg_status := Asg_Finished, asg_finished := Some now\<rparr>)"

subsection \<open>Pausing and resuming\<close>

definition expire :: "string \<Rightarrow> assignment_record \<Rightarrow> assignment_record" where
  "expire now a = a\<lparr>asg_status := Asg_Expired, asg_finished := Some now, asg_error := None, asg_worker := None\<rparr>"

definition put_checkpoint :: "checkpoint_record \<Rightarrow> checkpoint_record list \<Rightarrow> checkpoint_record list" where
  "put_checkpoint row rows = (if list_ex (\<lambda>c. checkpoint_game c = checkpoint_game row) rows
     then update_rows (\<lambda>c. checkpoint_game c = checkpoint_game row) (\<lambda>c. row) rows else rows @ [row])"

definition pause_game_assignment :: "string \<Rightarrow> lifecycle \<Rightarrow> int \<Rightarrow> string \<Rightarrow> string \<Rightarrow> lifecycle result" where
  "pause_game_assignment now s i key state = (let
     gone = Inl (RuntimeError (''assignment '' @ int_str i @ '' is no longer active''));
     P = (\<lambda>a. asg_id a = i \<and> asg_key a = key \<and> active a)
   in case get_game_assignment s i of None \<Rightarrow> gone
    | Some a \<Rightarrow> if asg_key a \<noteq> key then gone
        else if length (filter P (assignments s)) \<noteq> 1 then gone
        else let s1 = update_assignments P (expire now) s
          in Inr (s1\<lparr>checkpoints := put_checkpoint \<lparr>checkpoint_game = asg_game a, checkpoint_state = state,
               checkpoint_paused = now\<rparr> (checkpoints s1)\<rparr>))"

definition pause_unstarted_game_assignment :: "string \<Rightarrow> int \<Rightarrow> string \<Rightarrow> lifecycle \<Rightarrow> lifecycle" where
  "pause_unstarted_game_assignment now i key s = (let
     P = (\<lambda>a. asg_id a = i \<and> asg_key a = key \<and> asg_status a \<in> {Asg_Assigned, Asg_Acked})
   in case get_game_assignment s i of None \<Rightarrow> s
    | Some a \<Rightarrow> if asg_key a \<noteq> key then s
        else let s1 = update_assignments P (expire now) s
          in if length (filter P (assignments s)) = 1
             then update_games (\<lambda>r. game_id r = asg_game a \<and> game_status r = Game_Assigned)
                    (\<lambda>r. r\<lparr>game_status := Game_Pending\<rparr>) s1
             else s1)"

definition resume_paused_tournament_games :: "int \<Rightarrow> lifecycle \<Rightarrow> lifecycle \<times> nat" where
  "resume_paused_tournament_games t s = (let
     P = (\<lambda>r. game_tournament r = t \<and> game_status r = Game_Live
            \<and> list_ex (\<lambda>c. checkpoint_game c = game_id r) (checkpoints s))
   in (update_games P (\<lambda>r. r\<lparr>game_status := Game_Pending\<rparr>) s, length (filter P (life_games s))))"

subsection \<open>Resetting\<close>

text \<open>
  Games that are reset lose everything of their last attempt; of every attempt one progress row
  tells that it was replayed.
\<close>

definition resettable :: "bool \<Rightarrow> game_status \<Rightarrow> bool" where
  "resettable include_abandoned st = (st \<in> {Game_Pending, Game_Assigned, Game_Live} \<or> include_abandoned \<and> st = Game_Abandoned)"

definition replayed_attempt :: "string \<Rightarrow> string \<Rightarrow> move_record list \<Rightarrow> int \<Rightarrow> assignment_record \<Rightarrow> progress_row" where
  "replayed_attempt reason now ms i a = (let plies = map move_ply (filter (\<lambda>m. move_game m = asg_game a) ms) in
     \<lparr>progress_id = i, progress_assignment = asg_id a, progress_key = asg_key a, progress_game = asg_game a,
      progress_source = ''server'', progress_stage = ''assignment'', progress_stage_label = ''Assignment'',
      progress_stage_order = 0, progress_substage = ''attempt_replayed'', progress_status = Progress_Failed,
      progress_detail = take 4000 reason, progress_engine = None, progress_engine_name = None,
      progress_current = (if plies = [] then None else Some (Max (set plies))), progress_total = None,
      progress_at = now\<rparr>)"

definition log_replayed :: "string \<Rightarrow> string \<Rightarrow> int list \<Rightarrow> lifecycle \<Rightarrow> lifecycle" where
  "log_replayed reason now ids s = (let
     attempts = filter (\<lambda>a. asg_game a \<in> set ids \<and> asg_status a \<noteq> Asg_Finished
       \<and> \<not> list_ex (\<lambda>p. progress_assignment p = asg_id a \<and> progress_key p = asg_key a
             \<and> progress_substage p = ''attempt_replayed'') (progress_rows s)) (assignments s)
   in s\<lparr>progress_rows := progress_rows s @ map (\<lambda>(i, a). replayed_attempt reason now (life_moves s) (next_progress s + int i) a)
          (enumerate 0 attempts), next_progress := next_progress s + int (length attempts)\<rparr>)"

definition reset_row :: "game_row \<Rightarrow> game_row" where
  "reset_row r = r\<lparr>game_status := Game_Pending, game_result := None, game_termination := None, game_pgn := None,
     game_started := None, game_ended := None\<rparr>"

definition reset_games_for_replay :: "bool \<Rightarrow> string \<Rightarrow> string \<Rightarrow> int list \<Rightarrow> lifecycle \<Rightarrow> lifecycle" where
  "reset_games_for_replay include_abandoned reason now wanted s = (let
     ids = map game_id (filter (\<lambda>r. game_id r \<in> set wanted \<and> resettable include_abandoned (game_status r)) (life_games s))
   in if ids = [] then s
      else let s1 = log_replayed reason now ids s
        in update_games (\<lambda>r. game_id r \<in> set ids \<and> resettable include_abandoned (game_status r)) reset_row
             (s1\<lparr>life_moves := filter (\<lambda>m. move_game m \<notin> set ids) (life_moves s1),
                 checkpoints := filter (\<lambda>c. checkpoint_game c \<notin> set ids) (checkpoints s1),
                 hardware_scores := filter (\<lambda>(g, e). g \<notin> set ids) (hardware_scores s1)\<rparr>))"

definition abandon :: "string \<Rightarrow> string \<Rightarrow> assignment_record \<Rightarrow> assignment_record" where
  "abandon now reason a = a\<lparr>asg_status := Asg_Abandoned, asg_finished := Some now, asg_error := Some (take 500 reason)\<rparr>"

definition fail_game_assignment :: "string \<Rightarrow> int \<Rightarrow> string \<Rightarrow> string \<Rightarrow> lifecycle \<Rightarrow> lifecycle" where
  "fail_game_assignment now i key reason s = (let
     P = (\<lambda>a. asg_id a = i \<and> asg_key a = key \<and> active a)
   in case get_game_assignment s i of None \<Rightarrow> s
    | Some a \<Rightarrow> if asg_key a \<noteq> key then s
        else let s1 = update_assignments P (abandon now reason) s
          in if length (filter P (assignments s)) = 1
             then reset_games_for_replay False reason now [asg_game a] s1 else s1)"

subsection \<open>Losing a worker\<close>

definition active_worker_game_ids :: "lifecycle \<Rightarrow> int \<Rightarrow> int list" where
  "active_worker_game_ids s w = map asg_game (filter (\<lambda>a. asg_worker a = Some w \<and> active a) (assignments s))"

definition active_worker_tournament_ids :: "lifecycle \<Rightarrow> int \<Rightarrow> int list" where
  "active_worker_tournament_ids s w = remdups (concat (map (\<lambda>a. map game_tournament
       (filter (\<lambda>r. game_id r = asg_game a \<and> game_status r \<in> {Game_Assigned, Game_Live}) (life_games s)))
     (filter (\<lambda>a. asg_worker a = Some w \<and> active a) (assignments s))))"

definition release_worker_active_assignments :: "string \<Rightarrow> string \<Rightarrow> int \<Rightarrow> lifecycle \<Rightarrow> lifecycle" where
  "release_worker_active_assignments now reason w s =
     reset_games_for_replay False reason now (active_worker_game_ids s w)
       (update_assignments (\<lambda>a. asg_worker a = Some w \<and> active a) (abandon now reason) s)"

definition session_matches :: "string option \<Rightarrow> worker_row \<Rightarrow> bool" where
  "session_matches session r = (session = None \<or> worker_session r = session)"

definition disconnect_worker :: "string \<Rightarrow> int \<Rightarrow> string option \<Rightarrow> string \<Rightarrow> lifecycle \<Rightarrow> lifecycle \<times> int list" where
  "disconnect_worker now w session reason s = (case List.find (\<lambda>r. worker_id r = w) (workers s) of
     None \<Rightarrow> (s, [])
   | Some row \<Rightarrow> if worker_status row = Revoked then (s, [])
       else if \<not> session_matches session row then (s, [])
       else let s1 = release_worker_active_assignments now reason w s
         in (s1\<lparr>fixture_workers := filter (\<lambda>(t, v). v \<noteq> w) (fixture_workers s1),
                workers := update_rows (\<lambda>r. worker_id r = w \<and> worker_status r \<noteq> Revoked \<and> session_matches session r)
                  (\<lambda>r. r\<lparr>worker_status := Offline, worker_seen := Some now\<rparr>) (workers s1)\<rparr>,
             active_worker_tournament_ids s w))"

text \<open>The row of a worker goes: its assignments keep their history without it.\<close>

definition delete_worker_row :: "int \<Rightarrow> lifecycle \<Rightarrow> lifecycle" where
  "delete_worker_row w s = (update_assignments (\<lambda>a. asg_worker a = Some w) (\<lambda>a. a\<lparr>asg_worker := None\<rparr>) s)
     \<lparr>workers := filter (\<lambda>r. worker_id r \<noteq> w) (workers s),
      fixture_workers := filter (\<lambda>(t, v). v \<noteq> w) (fixture_workers s)\<rparr>"

definition revoke_worker :: "string \<Rightarrow> int \<Rightarrow> lifecycle \<Rightarrow> lifecycle" where
  "revoke_worker now w s = delete_worker_row w (release_worker_active_assignments now ''worker revoked'' w s)"

definition delete_worker :: "string \<Rightarrow> int \<Rightarrow> lifecycle \<Rightarrow> lifecycle" where
  "delete_worker now w s = (let
     s1 = update_assignments (\<lambda>a. asg_worker a = Some w) (\<lambda>a. if active a
       then a\<lparr>asg_status := Asg_Expired, asg_finished := Some now, asg_error := Some ''worker deleted''\<rparr> else a) s
   in delete_worker_row w (reset_games_for_replay False ''worker deleted'' now (active_worker_game_ids s w) s1))"

definition update_worker_status :: "string \<Rightarrow> int \<Rightarrow> worker_status \<Rightarrow> string option \<Rightarrow> lifecycle \<Rightarrow> lifecycle \<times> bool" where
  "update_worker_status now w st session s = (let
     P = (\<lambda>r. worker_id r = w \<and> worker_status r \<noteq> Revoked \<and> session_matches session r)
   in (s\<lparr>workers := update_rows P (\<lambda>r. r\<lparr>worker_status := st, worker_seen := Some now\<rparr>) (workers s)\<rparr>,
       list_ex P (workers s)))"

definition touch_worker_seen :: "string \<Rightarrow> int \<Rightarrow> string option \<Rightarrow> lifecycle \<Rightarrow> lifecycle \<times> bool" where
  "touch_worker_seen now w session s = (let
     P = (\<lambda>r. worker_id r = w \<and> worker_status r \<in> {Connected, Downloading, Ready, Busy} \<and> session_matches session r)
   in (s\<lparr>workers := update_rows P (\<lambda>r. r\<lparr>worker_seen := Some now\<rparr>) (workers s)\<rparr>, list_ex P (workers s)))"

definition touch_workers_seen :: "string \<Rightarrow> (int \<times> string) list \<Rightarrow> lifecycle \<Rightarrow> lifecycle \<times> int list" where
  "touch_workers_seen now sessions s = (if sessions = [] then (s, []) else let
     P = (\<lambda>r. worker_status r \<in> {Connected, Downloading, Ready, Busy}
        \<and> list_ex (\<lambda>(w, session). worker_id r = w \<and> worker_session r = Some session) sessions)
   in (s\<lparr>workers := update_rows P (\<lambda>r. r\<lparr>worker_seen := Some now\<rparr>) (workers s)\<rparr>, map worker_id (filter P (workers s))))"

subsection \<open>Ending and reopening a tournament\<close>

definition get_life_tournament :: "lifecycle \<Rightarrow> int \<Rightarrow> tournament_record option" where
  "get_life_tournament s t = List.find (\<lambda>r. tour_id r = t) (life_tournaments s)"

definition abandon_tournament_games :: "string \<Rightarrow> int \<Rightarrow> lifecycle \<Rightarrow> lifecycle" where
  "abandon_tournament_games now t s = (let
     reason = ''tournament aborted'';
     unfinished = map game_id (filter (\<lambda>r. game_tournament r = t \<and> game_status r \<noteq> Game_Finished) (life_games s))
   in update_games (\<lambda>r. game_tournament r = t \<and> game_status r \<noteq> Game_Finished)
        (\<lambda>r. r\<lparr>game_status := Game_Abandoned, game_termination := coalesce (game_termination r) reason,
           game_ended := coalesce (game_ended r) now\<rparr>)
        (update_assignments (\<lambda>a. active a \<and> asg_game a \<in> set unfinished)
          (\<lambda>a. a\<lparr>asg_status := Asg_Abandoned, asg_finished := coalesce (asg_finished a) now,
             asg_error := coalesce (asg_error a) reason\<rparr>) s))"

definition with_status :: "string \<Rightarrow> tournament_status \<Rightarrow> tournament_record \<Rightarrow> tournament_record" where
  "with_status now st r = r\<lparr>tour_status := st,
     tour_started := (if st = Running then coalesce (tour_started r) now else tour_started r),
     tour_finished := (if st \<in> {Finished, Aborted} then Some now else tour_finished r)\<rparr>"

definition set_tournament_status :: "string \<Rightarrow> int \<Rightarrow> tournament_status \<Rightarrow> lifecycle \<Rightarrow> lifecycle" where
  "set_tournament_status now t st s = (let
     s1 = s\<lparr>life_tournaments := update_rows (\<lambda>r. tour_id r = t) (with_status now st) (life_tournaments s)\<rparr>
   in if st = Aborted \<and> get_life_tournament s t \<noteq> None then abandon_tournament_games now t s1 else s1)"

definition restore_tournament :: "string \<Rightarrow> lifecycle \<Rightarrow> int \<Rightarrow> lifecycle result" where
  "restore_tournament now s t =
     rbind (or_error (ValueError ''tournament does not exist'') (get_life_tournament s t)) (\<lambda>r.
     rbind (guard (tour_status r = Aborted) (ValueError ''only an aborted tournament can be restored'')) (\<lambda>_.
     rbind (guard (\<not> list_ex (\<lambda>(c, st). c = t \<and> st \<in> {''pending'', ''claimed'', ''applied''}) (rating_commits s))
       (ValueError ''uncommit the tournament ratings before restoring it'')) (\<lambda>_. let
       ids = map game_id (filter (\<lambda>r. game_tournament r = t \<and> game_status r = Game_Abandoned) (life_games s));
       s1 = reset_games_for_replay True ''tournament restored after abort'' now ids s
     in Inr (s1\<lparr>life_tournaments := update_rows (\<lambda>r. tour_id r = t)
          (\<lambda>r. r\<lparr>tour_status := Paused, tour_started := coalesce (tour_started r) now, tour_finished := None\<rparr>)
          (life_tournaments s1)\<rparr>))))"

definition games_not_committed :: "lifecycle \<Rightarrow> int list \<Rightarrow> unit result" where
  "games_not_committed s ids = guard (list_all (\<lambda>i. i \<notin> set (life_rated s)) ids)
     (ValueError ''game results are already part of a rating list'')"

definition replay_game :: "lifecycle \<Rightarrow> int \<Rightarrow> int \<Rightarrow> (lifecycle \<times> bool) result" where
  "replay_game s t g =
     rbind (or_error (ValueError ''game does not belong to this tournament'')
       (List.find (\<lambda>r. game_id r = g \<and> game_tournament r = t) (life_games s))) (\<lambda>r.
     rbind (guard (game_status r = Game_Finished \<and> game_result r \<noteq> None)
       (ValueError ''only completed games can be replayed'')) (\<lambda>_.
     rbind (games_not_committed s [g]) (\<lambda>_. let
       s1 = s\<lparr>life_chat := delete_system_chat_events t [game_finished_key g, ''tournament.finished''] (life_chat s),
         life_moves := filter (\<lambda>m. move_game m \<noteq> g) (life_moves s),
         hardware_scores := filter (\<lambda>(h, e). h \<noteq> g) (hardware_scores s)\<rparr>;
       s2 = update_games (\<lambda>r. game_id r = g) reset_row s1;
       P = (\<lambda>r. tour_id r = t \<and> tour_status r \<in> {Finished, Aborted})
     in Inr (s2\<lparr>life_tournaments := update_rows P (\<lambda>r. r\<lparr>tour_status := Running, tour_finished := None\<rparr>) (life_tournaments s2)\<rparr>,
          list_ex P (life_tournaments s2)))))"

text \<open>Rows that refer to a deleted game go with it.\<close>

definition delete_games :: "int list \<Rightarrow> lifecycle \<Rightarrow> lifecycle" where
  "delete_games ids s = s\<lparr>life_games := filter (\<lambda>r. game_id r \<notin> set ids) (life_games s),
     assignments := filter (\<lambda>a. asg_game a \<notin> set ids) (assignments s),
     checkpoints := filter (\<lambda>c. checkpoint_game c \<notin> set ids) (checkpoints s),
     life_moves := filter (\<lambda>m. move_game m \<notin> set ids) (life_moves s),
     progress_rows := filter (\<lambda>p. progress_game p \<notin> set ids) (progress_rows s),
     hardware_scores := filter (\<lambda>(g, e). g \<notin> set ids) (hardware_scores s)\<rparr>"

definition in_pair_of :: "game_row \<Rightarrow> int \<Rightarrow> game_row \<Rightarrow> bool" where
  "in_pair_of g t r = (let first = (if game_number g mod 2 = 1 then game_number g else game_number g - 1)
     in game_tournament r = t \<and> game_match r = game_match g \<and> game_number r \<in> {first, first + 1}
       \<and> (game_match g = None \<longrightarrow> (white_engine r, black_engine r)
            \<in> {(white_engine g, black_engine g), (black_engine g, white_engine g)}))"

definition invalidate_game_pair :: "lifecycle \<Rightarrow> int \<Rightarrow> int \<Rightarrow> (lifecycle \<times> int list) result" where
  "invalidate_game_pair s t g =
     rbind (or_error (ValueError ''game does not belong to this tournament'')
       (List.find (\<lambda>r. game_id r = g \<and> game_tournament r = t) (life_games s))) (\<lambda>row. let
       found = map game_id (filter (in_pair_of row t) (life_games s));
       ids = (if g \<in> set found then sort found else sort (g # found))
     in rbind (games_not_committed s ids) (\<lambda>_. Inr (delete_games ids
          (s\<lparr>life_chat := delete_system_chat_events t (map game_finished_key ids @ [''tournament.finished'']) (life_chat s)\<rparr>), ids)))"

subsection \<open>Progress\<close>

record progress_report =
  report_assignment :: int
  report_key :: string
  report_game :: int
  report_stage :: string
  report_stage_label :: string
  report_stage_order :: int
  report_substage :: string
  report_status :: progress_status
  report_detail :: string
  report_engine :: "int option"
  report_engine_name :: "string option"
  report_current :: "int option"
  report_total :: "int option"

definition progress_row_of :: "string \<Rightarrow> int \<Rightarrow> string \<Rightarrow> progress_report \<Rightarrow> progress_row" where
  "progress_row_of now i source p = \<lparr>progress_id = i, progress_assignment = report_assignment p,
     progress_key = report_key p, progress_game = report_game p, progress_source = source,
     progress_stage = report_stage p, progress_stage_label = report_stage_label p,
     progress_stage_order = report_stage_order p, progress_substage = report_substage p,
     progress_status = report_status p, progress_detail = report_detail p, progress_engine = report_engine p,
     progress_engine_name = report_engine_name p, progress_current = report_current p,
     progress_total = report_total p, progress_at = now\<rparr>"

definition insert_progress :: "string \<Rightarrow> lifecycle \<Rightarrow> progress_report \<times> string \<Rightarrow> lifecycle" where
  "insert_progress now s = (\<lambda>(p, source). s\<lparr>progress_rows := progress_rows s @ [progress_row_of now (next_progress s) source p],
     next_progress := next_progress s + 1\<rparr>)"

definition record_game_assignment_progress :: "string \<Rightarrow> lifecycle \<Rightarrow> progress_report \<Rightarrow> string \<Rightarrow> (lifecycle \<times> int) result" where
  "record_game_assignment_progress now s p source =
     rbind (or_error (RuntimeError (''unknown assignment '' @ int_str (report_assignment p)))
       (get_game_assignment s (report_assignment p))) (\<lambda>a.
     rbind (guard (asg_key a = report_key p \<and> asg_game a = report_game p)
       (RuntimeError (''progress does not match assignment '' @ int_str (report_assignment p)))) (\<lambda>_.
     Inr (insert_progress now s (p, source), next_progress s)))"

definition record_game_assignment_progress_batch :: "string \<Rightarrow> (progress_report \<times> string) list \<Rightarrow> lifecycle \<Rightarrow> lifecycle" where
  "record_game_assignment_progress_batch now items s = foldl (insert_progress now) s
     (filter (\<lambda>(p, source). list_ex (\<lambda>a. asg_id a = report_assignment p \<and> asg_key a = report_key p
        \<and> asg_game a = report_game p) (assignments s)) items)"

definition list_game_assignment_progress :: "lifecycle \<Rightarrow> int \<Rightarrow> int \<Rightarrow> progress_row list" where
  "list_game_assignment_progress s g limit = (case get_game_assignment_for_game s g of None \<Rightarrow> []
   | Some a \<Rightarrow> let rows = sort_key progress_id (filter (\<lambda>p. progress_game p = g \<and> progress_key p = asg_key a) (progress_rows s));
         n = nat (max 1 (min limit 500))
       in drop (length rows - n) rows)"

text \<open>\<open>SELECT DISTINCT ON\<close> a key, the last row of each.\<close>

definition latest_by :: "(progress_row \<Rightarrow> 'k) \<Rightarrow> progress_row list \<Rightarrow> progress_row list" where
  "latest_by key rows = filter (\<lambda>p. \<not> list_ex (\<lambda>q. key q = key p \<and> progress_id p < progress_id q) rows) rows"

definition list_game_assignment_stage_progress :: "lifecycle \<Rightarrow> int \<Rightarrow> progress_row list" where
  "list_game_assignment_stage_progress s g = (case get_game_assignment_for_game s g of None \<Rightarrow> []
   | Some a \<Rightarrow> sort_key (\<lambda>p. (progress_stage_order p, progress_id p))
       (latest_by progress_stage (filter (\<lambda>p. progress_game p = g \<and> progress_key p = asg_key a) (progress_rows s))))"

end
