(* ===== verification/Tournament_Finish.thy ===== *)
theory Tournament_Finish
  imports Tournament_Start Game_Lifecycle
begin

text \<open>
  The end of a tournament (\<open>_finish_tournament_if_complete\<close> and \<open>finish_completed_tournaments\<close> of
  \<open>cope/runner/local.py\<close>) with the announcement of its leaders (\<open>cope/chat/system.py\<close>), for
  tournaments that belong to no hand-and-brain event and no puzzle gauntlet, whose modules have
  their own progress.  The label of an engine, its name and version, is an argument.
\<close>

definition terminal_status :: "game_status \<Rightarrow> bool" where
  "terminal_status st = (st \<in> {Game_Finished, Game_Abandoned})"

subsection \<open>Leaders\<close>

definition award_points :: "int \<Rightarrow> rat \<Rightarrow> (int \<times> rat) list \<Rightarrow> (int \<times> rat) list result" where
  "award_points e x points = (case map_of points e of None \<Rightarrow> Inl KeyError | Some y \<Rightarrow> Inr (AList.update e (y + x) points))"

definition add_game_points :: "(int \<times> rat) list \<Rightarrow> game_record \<Rightarrow> (int \<times> rat) list result" where
  "add_game_points points g = (if game_status g \<noteq> Game_Finished then Inr points
     else (case game_result g of
         Some White_Won \<Rightarrow> award_points (white_engine g) 1 points
       | Some Black_Won \<Rightarrow> award_points (black_engine g) 1 points
       | Some Game_Drawn \<Rightarrow> rbind (award_points (white_engine g) (1 / 2) points) (award_points (black_engine g) (1 / 2))
       | None \<Rightarrow> Inr points))"

definition add_bye_points :: "(int \<times> rat) list \<Rightarrow> match_record \<Rightarrow> (int \<times> rat) list result" where
  "add_bye_points points m = (if match_status m = Match_Bye then award_points (engine1 m) 1 points else Inr points)"

definition tournament_leaders :: "(int \<Rightarrow> string) \<Rightarrow> store \<Rightarrow> tournament_record \<Rightarrow> string list result" where
  "tournament_leaders label s t = (let ms = list_tournament_matches s (tour_id t) None in
     if format (tour_config t) = KNOCKOUT \<and> ms \<noteq> []
     then let final_round = Max (set (map match_round ms)) in
       Inr (case List.find (\<lambda>m. match_round m = final_round \<and> winner_engine m \<noteq> None) ms of
           None \<Rightarrow> [] | Some m \<Rightarrow> (case winner_engine m of None \<Rightarrow> [] | Some e \<Rightarrow> [label e]))
     else let ps = participants (tour_config t); start = map (\<lambda>e. (e, 0)) ps in
       rbind (fold_result add_game_points start (list_games s (tour_id t))) (\<lambda>points.
       rbind (if format (tour_config t) = SWISS then fold_result add_bye_points points ms else Inr points) (\<lambda>points.
       if points = [] then Inr []
       else let best = Max (set (map snd points)) in
         Inr (map label (filter (\<lambda>e. map_of points e = Some best) ps)))))"

definition announce_finished :: "(int \<Rightarrow> string) \<Rightarrow> store \<Rightarrow> tournament_record \<Rightarrow> store result" where
  "announce_finished label s t = rbind (tournament_leaders label s t) (\<lambda>leaders.
     rbind (announce_tournament_finished (chat s) (tour_id t) (tour_name t) leaders) (\<lambda>(c, m). Inr (s\<lparr>chat := c\<rparr>)))"

subsection \<open>Finishing\<close>

text \<open>\<open>set_tournament_status\<close> on the tables of tournaments and games; an abort abandons the games.\<close>

definition put_status :: "string \<Rightarrow> int \<Rightarrow> tournament_status \<Rightarrow> store \<Rightarrow> store" where
  "put_status now tid st s = (let s1 = update_tournament tid (with_status now st) s in
     if st = Aborted \<and> get_tournament s tid \<noteq> None
     then s1\<lparr>games := map (\<lambda>g. if game_tournament g = tid \<and> game_status g \<noteq> Game_Finished
       then g\<lparr>game_status := Game_Abandoned\<rparr> else g) (games s1)\<rparr>
     else s1)"

definition finish_now :: "string \<Rightarrow> (int \<Rightarrow> string) \<Rightarrow> store \<Rightarrow> tournament_record \<Rightarrow> game_record list \<Rightarrow> (store \<times> bool) result" where
  "finish_now now label s current gs = (let
     s1 = put_status now (tour_id current) Finished s;
     finished = (case get_tournament s1 (tour_id current) of Some r \<Rightarrow> r | None \<Rightarrow> current)
   in rbind (if list_ex record_eligible gs then announce_finished label s1 finished else Inr s1) (\<lambda>s2. Inr (s2, True)))"

definition finish_tournament_if_complete :: "string \<Rightarrow> (int \<Rightarrow> string) \<Rightarrow> store \<Rightarrow> tournament_record
    \<Rightarrow> (store \<times> bool) result option" where
  "finish_tournament_if_complete now label s t = (let
     flat = (\<lambda>r. format (tour_config r) \<in> {ROUND_ROBIN, GAUNTLET});
     counted = filter (\<lambda>g. game_tournament g = tour_id t) (games s);
     no = Some (Inr (s, False))
   in if flat t \<and> (counted = [] \<or> list_ex (\<lambda>g. \<not> terminal_status (game_status g)) counted) then no
      else (case get_tournament s (tour_id t) of None \<Rightarrow> no
        | Some current \<Rightarrow> if tour_status current \<noteq> Running then no
            else let gs = list_games s (tour_id current); all_terminal = list_all (\<lambda>g. terminal_status (game_status g)) gs in
              if gs = [] then no
              else if all_terminal \<and> list_ex (\<lambda>g. game_status g = Game_Abandoned) gs
              then Some (Inr (put_status now (tour_id current) Aborted s, False))
              else (case (if all_terminal then advance_odds s (tour_id current) else Inr (s, None)) of
                Inl e \<Rightarrow> Some (Inl e)
              | Inr (s1, odds) \<Rightarrow>
                  if odds \<notin> {None, Some 0} then Some (Inr (s1, False))
                  else if flat current
                  then (if \<not> all_terminal then Some (Inr (s1, False)) else Some (finish_now now label s1 current gs))
                  else map_option (\<lambda>advanced. rbind advanced (\<lambda>(s2, advance). let gs2 = list_games s2 (tour_id current) in
                      if \<not> complete advance \<or> list_ex (\<lambda>g. \<not> terminal_status (game_status g)) gs2 then Inr (s2, False)
                      else finish_now now label s2 current gs2))
                    (advance_tournament s1 current))))"

subsection \<open>A tournament finishes when it is complete\<close>

lemma get_put_status:
  "get_tournament (put_status now tid st s) tid = map_option (with_status now st) (get_tournament s tid)"
proof -
  have "List.find (\<lambda>r. tour_id r = tid) (map (\<lambda>r. if tour_id r = tid then with_status now st r else r) rs)
      = map_option (with_status now st) (List.find (\<lambda>r. tour_id r = tid) rs)" for rs
    by (induction rs) (auto simp: with_status_def)
  then show ?thesis by (simp add: get_tournament_def put_status_def update_tournament_def Let_def)
qed

lemma put_finished_games [simp]: "games (put_status now tid Finished s) = games s"
  by (simp add: put_status_def update_tournament_def Let_def)

lemma emit_leaves_event:
  assumes "emit c t kind key body = Inr (c', m)"
  shows "\<exists>e\<in>set (events c'). event_tournament e = t \<and> event_key e = key"
proof (cases "List.find (\<lambda>e. event_tournament e = t \<and> event_key e = key) (events c)")
  case None
  then show ?thesis using assms by (auto simp: emit_def create_chat_message_def rbind_eq_Inr Let_def)
next
  case (Some e)
  then have "c' = c" using assms by (auto simp: emit_def create_chat_message_def rbind_eq_Inr split: option.splits)
  then show ?thesis using find_Some_iff_in [OF Some] by blast
qed

definition finish_announced :: "int \<Rightarrow> store \<Rightarrow> bool" where
  "finish_announced tid s = list_ex (\<lambda>e. event_tournament e = tid \<and> event_key e = ''tournament.finished'') (events (chat s))"

lemma finish_now_facts:
  assumes "finish_now now label s current gs = Inr (s', res)" "get_tournament s (tour_id current) = Some r"
  shows "res \<and> get_tournament s' (tour_id current) = Some (with_status now Finished r) \<and> games s' = games s
    \<and> (list_ex record_eligible gs \<longrightarrow> finish_announced (tour_id current) s')"
proof -
  let ?s1 = "put_status now (tour_id current) Finished s" and ?r = "with_status now Finished r"
  have r: "get_tournament ?s1 (tour_id current) = Some ?r" by (simp add: get_put_status assms(2))
  have id: "tour_id ?r = tour_id current"
    using get_tournament_id [OF assms(2)] by (simp add: with_status_def)
  show ?thesis
  proof (cases "list_ex record_eligible gs")
    case False
    then have "s' = ?s1" "res" using assms(1) by (auto simp: finish_now_def Let_def)
    then show ?thesis using r False by simp
  next
    case True
    then obtain s2 where s2: "announce_finished label ?s1 ?r = Inr s2" "s' = s2" "res"
      using assms(1) r by (auto simp: finish_now_def Let_def rbind_eq_Inr)
    then obtain leaders c m where c: "announce_tournament_finished (chat ?s1) (tour_id current) (tour_name ?r) leaders = Inr (c, m)"
      "s2 = ?s1\<lparr>chat := c\<rparr>"
      by (auto simp: announce_finished_def rbind_eq_Inr id)
    have "finish_announced (tour_id current) s2"
      using emit_leaves_event [OF c(1) [unfolded announce_tournament_finished_def]] c(2)
      by (simp add: finish_announced_def list_ex_iff)
    then show ?thesis using r s2 c(2) by (simp add: get_tournament_def)
  qed
qed

lemma list_games_cong: "games s = games s' \<Longrightarrow> list_games s t = list_games s' t"
  by (simp add: list_games_def)

text \<open>An odds ladder that creates no game changes nothing.\<close>

lemma no_odds: "advance_odds s tid = Inr (s', odds) \<Longrightarrow> odds \<in> {None, Some 0} \<Longrightarrow> s' = s"
  by (auto simp: advance_odds_def Let_def rbind_eq_Inr split: option.splits if_splits list.splits prod.splits)

lemma all_terminal_cong: "(\<not> list_ex (\<lambda>g. \<not> terminal_status (game_status g)) gs) \<longleftrightarrow> list_all (\<lambda>g. terminal_status (game_status g)) gs"
  by (auto simp: list_ex_iff list_all_iff)


text \<open>A running round robin whose only game has been drawn.\<close>

definition drawn_cup :: store where
  "drawn_cup = (sample_store (sample_tournament ROUND_ROBIN (RoundRobinFormatOptions 1) [1, 2]))
     \<lparr>games := [(sample_game 1 1 2)\<lparr>game_status := Game_Finished, game_result := Some Game_Drawn, record_eligible := True\<rparr>],
      next_game := 2\<rparr>"

definition engine_label :: "int \<Rightarrow> string" where
  "engine_label e = ''Engine''"

lemma drawn_cup_finishes:
  "\<exists>s'. finish_tournament_if_complete ''t9'' engine_label drawn_cup
    (sample_tournament ROUND_ROBIN (RoundRobinFormatOptions 1) [1, 2]) = Some (Inr (s', True))"
  by (simp add: finish_tournament_if_complete_def drawn_cup_def sample_store_def sample_tournament_def sample_game_def sample_config_def
      get_tournament_def list_games_def list_tournament_matches_def terminal_status_def advance_odds_def finish_now_def put_status_def update_tournament_def
      with_status_def announce_finished_def tournament_leaders_def add_game_points_def award_points_def announce_tournament_finished_def
      emit_def create_chat_message_def get_chat_message_def Let_def)


end
