(* ===== verification/Relay_Teams.thy ===== *)
theory Relay_Teams
  imports Game_Lifecycle
begin

text \<open>
  Engine relays (\<open>cope/events/engine_relay.py\<close>): a team of engines shares a side and its members
  move in turn.  A fixture of an event ties a tournament to its teams; a team is known in the
  tournament by its anchor engine.  Of a cast member's JSON metadata the fields that the relay reads
  are columns here, and the colours of a team are left out.  The rotation is repeated in
  \<open>cope/runner/local.py\<close>, where the runner asks for the member to move.
\<close>

record relay_fixture =
  fixture_id :: int
  fixture_event :: int
  fixture_position :: int
  fixture_tournament :: int
  team_a :: int
  team_b :: int
  anchor_a :: int
  anchor_b :: int
  kibitzer_engine :: "int option"
  kibitzer_threads :: "int option"
  kibitzer_hash_mb :: "int option"

record fixture_team =
  ft_fixture :: int
  ft_team :: int
  ft_anchor :: int
  ft_position :: int

datatype cast_kind = Cast_Engine | Cast_Team | Cast_Person | Cast_Other

record cast_member =
  cast_id :: int
  cast_event :: int
  cast_kind :: cast_kind
  cast_parent :: "int option"
  cast_name :: string
  cast_short_name :: string
  cast_active :: bool
  cast_engine :: "int option"
  cast_position :: int
  meta_threads :: "int option"
  meta_hash_mb :: "int option"
  meta_relay_order :: "int option"

record event_row =
  event_id :: int
  event_handler :: string
  event_closed :: bool
  event_config_tournament :: "int option"

record event_tables =
  relay_fixtures :: "relay_fixture list"
  fixture_teams_table :: "fixture_team list"
  cast_table :: "cast_member list"
  event_rows :: "event_row list"
  gauntlet_events :: "(int \<times> int option) list"

subsection \<open>Reading the tables\<close>

definition get_fixture_for_tournament :: "event_tables \<Rightarrow> int \<Rightarrow> relay_fixture option" where
  "get_fixture_for_tournament E t = List.find (\<lambda>f. fixture_tournament f = t) (relay_fixtures E)"

definition fixture_teams :: "event_tables \<Rightarrow> relay_fixture \<Rightarrow> fixture_team list" where
  "fixture_teams E f = (let rows = sort_key (\<lambda>r. (ft_position r, ft_team r))
       (filter (\<lambda>r. ft_fixture r = fixture_id f) (fixture_teams_table E))
   in if rows = [] then
        [\<lparr>ft_fixture = fixture_id f, ft_team = team_a f, ft_anchor = anchor_a f, ft_position = 0\<rparr>,
         \<lparr>ft_fixture = fixture_id f, ft_team = team_b f, ft_anchor = anchor_b f, ft_position = 1\<rparr>]
      else rows)"

definition list_event_cast :: "event_tables \<Rightarrow> int \<Rightarrow> cast_member list" where
  "list_event_cast E e = sort_key (\<lambda>m. (cast_position m, cast_id m)) (filter (\<lambda>m. cast_event m = e) (cast_table E))"

definition relay_order :: "cast_member \<Rightarrow> int" where
  "relay_order m = (case meta_relay_order m of Some n \<Rightarrow> n | None \<Rightarrow> cast_position m)"

definition team_members :: "event_tables \<Rightarrow> int \<Rightarrow> int \<Rightarrow> cast_member list" where
  "team_members E e team = sort_key (\<lambda>m. (relay_order m, cast_id m))
     (filter (\<lambda>m. cast_kind m = Cast_Engine \<and> cast_parent m = Some team) (list_event_cast E e))"

definition or_default :: "'a option \<Rightarrow> 'a \<Rightarrow> 'a" where
  "or_default v d = (case v of None \<Rightarrow> d | Some x \<Rightarrow> x)"

definition member_threads :: "cast_member \<Rightarrow> int" where
  "member_threads m = max 1 (or_default (meta_threads m) 1)"

definition member_hash_mb :: "cast_member \<Rightarrow> int" where
  "member_hash_mb m = max 1 (or_default (meta_hash_mb m) 256)"

definition member_order :: "cast_member \<Rightarrow> int" where
  "member_order m = max 0 (relay_order m)"

subsection \<open>The teams of a game\<close>

record relay_member =
  relay_engine :: int
  relay_threads :: int
  relay_hash_mb :: int
  relay_position :: int

record relay_team =
  team_id :: int
  team_name :: string
  team_short_name :: string
  members :: "relay_member list"

record relay_kibitzer =
  kib_engine :: int
  kib_threads :: int
  kib_hash_mb :: int

record relay_assignment =
  relay_event :: int
  relay_fixture_id :: int
  white_team :: relay_team
  black_team :: relay_team
  hand_brain_mode :: bool
  role_swap :: bool
  kibitzer :: "relay_kibitzer option"

definition check_relay_member :: "relay_member \<Rightarrow> relay_member checked" where
  "check_relay_member m = validated
     [field_errors ''engine_id'' (0 < relay_engine m),
      field_errors ''threads'' (0 < relay_threads m),
      field_errors ''hash_mb'' (0 < relay_hash_mb m),
      field_errors ''position'' (0 \<le> relay_position m)] m"

definition check_relay_team :: "relay_team \<Rightarrow> relay_team checked" where
  "check_relay_team t = rbind (validated
     [field_errors ''team_id'' (0 < team_id t),
      field_errors ''name'' (text_between 1 120 (team_name t)),
      field_errors ''short_name'' (text_between 0 20 (team_short_name t)),
      field_errors ''members'' (members t \<noteq> [])] t)
     (\<lambda>t. if distinct (map relay_engine (members t)) then Inr t
        else Inl [''relay team engine ids must be unique''])"

definition check_relay_kibitzer :: "relay_kibitzer \<Rightarrow> relay_kibitzer checked" where
  "check_relay_kibitzer k = validated
     [field_errors ''engine_id'' (0 < kib_engine k),
      field_errors ''threads'' (0 < kib_threads k),
      field_errors ''hash_mb'' (0 < kib_hash_mb k)] k"

definition relay_players :: "relay_assignment \<Rightarrow> relay_member list" where
  "relay_players r = members (white_team r) @ members (black_team r)"

definition validate_kibitzer :: "relay_assignment \<Rightarrow> relay_assignment checked" where
  "validate_kibitzer r =
     (if hand_brain_mode r \<and> (kibitzer r \<noteq> None \<or> length (members (white_team r)) \<noteq> 2 \<or> length (members (black_team r)) \<noteq> 2)
      then Inl [''hand and brain requires two engines per team and no kibitzer'']
      else if hand_brain_mode r \<and> list_ex (\<lambda>m. relay_threads m \<noteq> 1) (relay_players r)
      then Inl [''hand and brain engines must use one thread'']
      else if (case kibitzer r of None \<Rightarrow> False | Some k \<Rightarrow> kib_engine k \<in> relay_engine ` set (relay_players r))
      then Inl [''the relay kibitzer must be independent from both teams'']
      else Inr r)"

definition check_relay_assignment :: "relay_assignment \<Rightarrow> relay_assignment checked" where
  "check_relay_assignment r = rbind (validated
     [field_errors ''event_id'' (0 < relay_event r),
      field_errors ''fixture_id'' (0 < relay_fixture_id r),
      field_errors ''teams'' (distinct (map relay_engine (relay_players r)))] r) validate_kibitzer"

definition relay_member_of :: "cast_member \<Rightarrow> int \<Rightarrow> relay_member" where
  "relay_member_of m e = \<lparr>relay_engine = e, relay_threads = member_threads m, relay_hash_mb = member_hash_mb m,
     relay_position = member_order m\<rparr>"

definition playing_members :: "cast_member list \<Rightarrow> relay_member list" where
  "playing_members ms = concat (map (\<lambda>m. case cast_engine m of None \<Rightarrow> [] | Some e \<Rightarrow> [relay_member_of m e]) ms)"

definition team_assignment :: "event_tables \<Rightarrow> int \<Rightarrow> cast_member \<Rightarrow> relay_team result" where
  "team_assignment E e team = rbind
     (map_result (\<lambda>m. validation_result (check_relay_member m)) (playing_members (team_members E e (cast_id team))))
     (\<lambda>ms. validation_result (check_relay_team \<lparr>team_id = cast_id team, team_name = cast_name team,
        team_short_name = cast_short_name team, members = ms\<rparr>))"

definition team_by_anchor :: "event_tables \<Rightarrow> relay_fixture \<Rightarrow> int \<Rightarrow> cast_member option" where
  "team_by_anchor E f e = (case map_of (rev (map (\<lambda>r. (ft_anchor r, ft_team r)) (fixture_teams E f))) e of
     None \<Rightarrow> None
   | Some team \<Rightarrow> List.find (\<lambda>m. cast_id m = team) (list_event_cast E (fixture_event f)))"

definition fixture_kibitzer :: "relay_fixture \<Rightarrow> relay_kibitzer option result" where
  "fixture_kibitzer f = (case kibitzer_engine f of None \<Rightarrow> Inr None
     | Some e \<Rightarrow> rbind (validation_result (check_relay_kibitzer \<lparr>kib_engine = e,
         kib_threads = or_default (kibitzer_threads f) 1, kib_hash_mb = or_default (kibitzer_hash_mb f) 256\<rparr>))
       (\<lambda>k. Inr (Some k)))"

definition relay_assignment_for_game :: "event_tables \<Rightarrow> game_row \<Rightarrow> relay_assignment option result" where
  "relay_assignment_for_game E g = (case get_fixture_for_tournament E (game_tournament g) of
     None \<Rightarrow> Inr None
   | Some f \<Rightarrow> (case (team_by_anchor E f (white_engine g), team_by_anchor E f (black_engine g)) of
       (Some w, Some b) \<Rightarrow>
         rbind (team_assignment E (fixture_event f) w) (\<lambda>wt.
         rbind (team_assignment E (fixture_event f) b) (\<lambda>bt.
         rbind (or_error (TypeError ''NoneType'') (List.find (\<lambda>e. event_id e = fixture_event f) (event_rows E))) (\<lambda>event.
         rbind (fixture_kibitzer f) (\<lambda>k.
         rbind (validation_result (check_relay_assignment \<lparr>relay_event = fixture_event f, relay_fixture_id = fixture_id f,
             white_team = wt, black_team = bt, hand_brain_mode = (event_handler event = ''engine-hand-brain''),
             role_swap = ((game_number g - 1) div 2 = 1), kibitzer = k\<rparr>)) (\<lambda>r. Inr (Some r))))))
     | _ \<Rightarrow> Inl (RuntimeError ''relay fixture team is missing'')))"

definition relay_engine_ids_for_game :: "event_tables \<Rightarrow> game_row \<Rightarrow> int list result" where
  "relay_engine_ids_for_game E g = rbind (relay_assignment_for_game E g) (\<lambda>relay. case relay of
     None \<Rightarrow> Inr []
   | Some r \<Rightarrow> Inr (map relay_engine (relay_players r) @ (case kibitzer r of None \<Rightarrow> [] | Some k \<Rightarrow> [kib_engine k])))"

definition relay_engine_ids_for_tournament :: "event_tables \<Rightarrow> int \<Rightarrow> int list" where
  "relay_engine_ids_for_tournament E t = (case get_fixture_for_tournament E t of
     None \<Rightarrow> []
   | Some f \<Rightarrow> concat (map (\<lambda>r. map relay_engine (playing_members (team_members E (fixture_event f) (ft_team r)))) (fixture_teams E f))
       @ (case kibitzer_engine f of None \<Rightarrow> [] | Some k \<Rightarrow> [k]))"

definition relay_engine_count_for_tournament :: "event_tables \<Rightarrow> int \<Rightarrow> nat" where
  "relay_engine_count_for_tournament E t = (case get_fixture_for_tournament E t of
     None \<Rightarrow> 2
   | Some f \<Rightarrow> sum_list (map (\<lambda>r. length (team_members E (fixture_event f) (ft_team r))) (fixture_teams E f))
       + (if kibitzer_engine f \<noteq> None then 1 else 0))"

text \<open>The threads and hash of each engine; the kibitzer searches while a member does.\<close>

definition relay_resources_for_tournament :: "event_tables \<Rightarrow> int \<Rightarrow> int list option \<Rightarrow> (int \<times> int) list" where
  "relay_resources_for_tournament E t selected = (case get_fixture_for_tournament E t of
     None \<Rightarrow> []
   | Some f \<Rightarrow> let
       teams = filter (\<lambda>r. case selected of None \<Rightarrow> True | Some anchors \<Rightarrow> ft_anchor r \<in> set anchors) (fixture_teams E f);
       resources = concat (map (\<lambda>r. map (\<lambda>m. (member_threads m, member_hash_mb m))
           (team_members E (fixture_event f) (ft_team r))) teams)
     in (if kibitzer_engine f \<noteq> None
         then resources @ [(fold max (map fst resources) 0 + or_default (kibitzer_threads f) 1, or_default (kibitzer_hash_mb f) 256)]
         else resources))"

definition puzzle_gauntlet_engine_ids_for_tournament :: "event_tables \<Rightarrow> int \<Rightarrow> int list" where
  "puzzle_gauntlet_engine_ids_for_tournament E t = (case List.find (\<lambda>(e, v). v = Some t) (gauntlet_events E) of
     None \<Rightarrow> []
   | Some (e, v) \<Rightarrow> concat (map (\<lambda>m. case cast_engine m of None \<Rightarrow> [] | Some i \<Rightarrow> [i])
       (filter (\<lambda>m. cast_kind m = Cast_Engine \<and> cast_parent m = None \<and> cast_active m) (list_event_cast E e))))"

subsection \<open>Moving in turn\<close>

definition relay_member_at :: "relay_team \<Rightarrow> nat \<Rightarrow> relay_member" where
  "relay_member_at t n = members t ! (n mod length (members t))"

definition own_move :: "bool \<Rightarrow> move_record \<Rightarrow> bool" where
  "own_move white m = (\<not> move_is_book m \<and> (move_ply m mod 2 = 1) = white)"

definition relay_moves_played :: "move_record list \<Rightarrow> bool \<Rightarrow> nat" where
  "relay_moves_played moves white = length (filter (own_move white) moves)"

text \<open>Who made each of a side's moves: the member the runner asked given the moves before it.\<close>

fun relay_movers :: "relay_team \<Rightarrow> bool \<Rightarrow> move_record list \<Rightarrow> move_record list \<Rightarrow> relay_member list" where
  "relay_movers t white before [] = []"
| "relay_movers t white before (m # ms) =
     (if own_move white m then [relay_member_at t (relay_moves_played before white)] else [])
     @ relay_movers t white (before @ [m]) ms"

lemma relay_movers_eq:
  "relay_movers t white before ms = map (relay_member_at t)
     [relay_moves_played before white..<relay_moves_played (before @ ms) white]"
proof (induction ms arbitrary: before)
  case Nil
  then show ?case by simp
next
  case (Cons m ms)
  let ?p = "relay_moves_played before white" and ?q = "relay_moves_played (before @ m # ms) white"
  have p: "relay_moves_played (before @ [m]) white = (if own_move white m then Suc ?p else ?p)"
    and "own_move white m \<Longrightarrow> ?p < ?q"
    by (simp_all add: relay_moves_played_def)
  then show ?case using Cons.IH [of "before @ [m]"] by (simp add: upt_conv_Cons)
qed

lemma count_rotation:
  assumes "distinct xs" "i < length xs"
  shows "count_list (map (\<lambda>k. xs ! (k mod length xs)) [0..<n]) (xs ! i)
    = n div length xs + (if i < n mod length xs then 1 else 0)"
proof (induction n)
  case 0
  then show ?case by simp
next
  case (Suc n)
  have "n mod length xs < length xs" using assms(2) by (intro mod_less_divisor) auto
  then have "xs ! (n mod length xs) = xs ! i \<longleftrightarrow> n mod length xs = i"
    using assms nth_eq_iff_index_eq by blast
  then show ?case using Suc assms(2) by (auto simp: div_Suc mod_Suc)
qed

lemma accepted_team:
  assumes "check_relay_team t = Inr t'"
  shows "t' = t" "members t \<noteq> []" "distinct (map relay_engine (members t))"
  using assms by (auto simp: check_relay_team_def rbind_eq_Inr checked_simps split: if_splits)

text \<open>
  C32: The members of a relay team move in turn.  In every game, whatever book moves and moves of
  the other side come between, no member of an accepted team has made two moves more than another
  one, and only members of the team have moved.
\<close>

theorem relay_turns_even:
  assumes "check_relay_team t = Inr t'" and "a \<in> set (members t)" and "b \<in> set (members t)"
  shows "count_list (relay_movers t white [] ms) a \<le> count_list (relay_movers t white [] ms) b + 1
    \<and> set (relay_movers t white [] ms) \<subseteq> set (members t)
    \<and> length (relay_movers t white [] ms) = relay_moves_played ms white"
proof -
  have d: "distinct (members t)" and ne: "members t \<noteq> []"
    using accepted_team [OF assms(1)] by (auto simp: distinct_map)
  obtain i j where "i < length (members t)" "a = members t ! i" "j < length (members t)" "b = members t ! j"
    using assms(2,3) by (auto simp: in_set_conv_nth)
  moreover have m: "relay_movers t white [] ms = map (relay_member_at t) [0..<relay_moves_played ms white]"
    by (simp add: relay_movers_eq) (simp add: relay_moves_played_def)
  moreover have "set (map (relay_member_at t) [0..<n]) \<subseteq> set (members t)" for n
    using ne by (auto simp: relay_member_at_def)
  ultimately show ?thesis
    using count_rotation [OF d] by (simp add: relay_member_at_def [abs_def])
qed

text \<open>A team of three on White; the first two half moves are from the book.\<close>

definition sample_team :: relay_team where
  "sample_team = \<lparr>team_id = 1, team_name = ''Fish'', team_short_name = [],
     members = map (\<lambda>e. \<lparr>relay_engine = e, relay_threads = 1, relay_hash_mb = 16, relay_position = e\<rparr>) [1, 2, 3]\<rparr>"

definition relay_ply :: "int \<Rightarrow> move_record" where
  "relay_ply n = \<lparr>move_game = 1, move_ply = n, move_uci = ''e2e4'', move_san = ''e4'', move_is_book = (n \<le> 2),
     move_eval_cp = None, move_eval_mate = None, move_score_bound = None, move_depth = None, move_seldepth = None,
     move_nodes = None, move_nps = None, move_hashfull = None, move_pv = None, move_info_line = None, move_time_ms = 10,
     move_clock_after_ms = 100, move_engine_version = None\<rparr>"

lemma relay_turns_even_witness:
  "map relay_engine (relay_movers sample_team True [] (map relay_ply [1..9])) = [1, 2, 3, 1]
    \<and> count_list (relay_movers sample_team True [] (map relay_ply [1..9])) (members sample_team ! 0)
      \<le> count_list (relay_movers sample_team True [] (map relay_ply [1..9])) (members sample_team ! 2) + 1"
proof -
  have "check_relay_team sample_team = Inr sample_team"
    "members sample_team ! 0 \<in> set (members sample_team)" "members sample_team ! 2 \<in> set (members sample_team)"
    by code_simp+
  moreover have "map relay_engine (relay_movers sample_team True [] (map relay_ply [1..9])) = [1, 2, 3, 1]" by code_simp
  ultimately show ?thesis using relay_turns_even by blast
qed

end
