(* ===== verification/Dispatch.thy ===== *)
theory Dispatch
  imports Relay_Teams Tournament_Finish "HOL-Library.Char_ord" "HOL-Library.List_Lexorder"
begin

text \<open>
  Handing games to workers (\<open>next_worker_assignment\<close> of \<open>cope/runner/local.py\<close>, with the queries of
  \<open>cope/db/repo.py\<close> and \<open>cope/db/benchmarks.py\<close> it asks).  A worker that may play for an event claims a
  fixture and then plays only that; otherwise it takes the next game of a running tournament in its
  scope whose engines it has, if its free threads and memory suffice.  The assignment key drawn for a
  tournament is an argument; the set of engines of a game is a list here, whose order shows only in
  which of several missing engines an error names.  The settings of tournaments are positive, so the
  constructor of \<open>WorkerResources\<close> accepts what is computed.  Of the message to the worker the parts
  that only repeat the tournament and the opening are left out.
\<close>

record worker_hardware =
  logical_cores :: int
  total_ram_mb :: int

record dispatch_worker =
  dw_id :: int
  dw_hardware :: "worker_hardware option"
  dw_core_limit :: "int option"
  dw_all_tournaments :: bool

record benchmark_row =
  bench_build :: string
  bench_sha256 :: "string option"
  bench_hardware :: string
  bench_nps :: int

record dispatch =
  life :: lifecycle
  event_data :: event_tables
  event_permissions :: "(int \<times> int) list"
  tournament_permissions :: "(int \<times> int) list"
  draining_workers :: "int list"
  discoveries :: "(int \<times> string) list"
  engine_versions :: "engine_spec list"
  pinned_engines :: "((int \<times> int) \<times> engine_spec) list"
  artifact_builds :: "(string \<times> string) list"
  benchmark_rows :: "benchmark_row list"
  hardware_rows :: "(string \<times> string) list"
  current_rounds :: "int \<Rightarrow> int"
  scheduled_starts :: "int \<Rightarrow> string option"

record benchmark_reference =
  ref_hardware :: string
  ref_nps :: "(int \<times> int) list"

record worker_assignment =
  wa_record :: assignment_record
  wa_game :: game_row
  wa_options :: "(int \<times> (string \<times> option_value) list) list"
  wa_relay :: "relay_assignment option"
  wa_engines :: "(int \<times> engine_spec) list"
  wa_resources :: worker_resources
  wa_benchmark :: "benchmark_reference option"

subsection \<open>Resources\<close>

definition engine_process_memory_overhead_mb :: int where
  "engine_process_memory_overhead_mb = 64"

definition worker_capacity :: "dispatch_worker \<Rightarrow> worker_resources option" where
  "worker_capacity w = (case dw_hardware w of None \<Rightarrow> None
     | Some hw \<Rightarrow> Some \<lparr>res_threads = min (logical_cores hw) (case dw_core_limit w of
           Some n \<Rightarrow> if n = 0 then logical_cores hw else n | None \<Rightarrow> logical_cores hw),
         res_hash_mb = worker_memory_capacity_mb (total_ram_mb hw)\<rparr>)"

definition tournament_required_resources :: "event_tables \<Rightarrow> tournament_record \<Rightarrow> int \<Rightarrow> int list option \<Rightarrow> worker_resources" where
  "tournament_required_resources E t engine_count anchors = (let relay = relay_resources_for_tournament E (tour_id t) anchors in
     if relay \<noteq> []
     then \<lparr>res_threads = Max (set (map fst relay)), res_hash_mb = sum_list (map (\<lambda>(n, h). h + engine_process_memory_overhead_mb) relay)\<rparr>
     else \<lparr>res_threads = engine_threads (tour_config t),
        res_hash_mb = (engine_hash_mb (tour_config t) + engine_process_memory_overhead_mb) * max 1 engine_count\<rparr>)"

definition event_preload_required_resources :: "event_tables \<Rightarrow> tournament_record \<Rightarrow> int \<Rightarrow> worker_resources" where
  "event_preload_required_resources E t engine_count = (let
     gauntlet = puzzle_gauntlet_engine_ids_for_tournament E (tour_id t); n = int (card (set gauntlet))
   in if gauntlet \<noteq> []
      then \<lparr>res_threads = engine_threads (tour_config t) * n,
        res_hash_mb = (engine_hash_mb (tour_config t) + engine_process_memory_overhead_mb) * n\<rparr>
      else tournament_required_resources E t engine_count None)"

definition life_tournament :: "lifecycle \<Rightarrow> int \<Rightarrow> tournament_record option" where
  "life_tournament s t = List.find (\<lambda>r. tour_id r = t) (life_tournaments s)"

definition active_worker_games :: "lifecycle \<Rightarrow> int \<Rightarrow> game_row list" where
  "active_worker_games s w = concat (map (\<lambda>a. filter (\<lambda>g. game_id g = asg_game a
       \<and> game_status g \<in> {Game_Assigned, Game_Live}) (life_games s))
     (filter (\<lambda>a. asg_worker a = Some w \<and> active a) (assignments s)))"

definition game_resources :: "dispatch \<Rightarrow> game_row \<Rightarrow> worker_resources option" where
  "game_resources s g = map_option (\<lambda>t. tournament_required_resources (event_data s) t 2 (Some [white_engine g, black_engine g]))
     (life_tournament (life s) (game_tournament g))"

definition used_by_games :: "dispatch \<Rightarrow> game_row list \<Rightarrow> int \<times> int" where
  "used_by_games s gs = (let rs = List.map_filter (game_resources s) gs
   in (sum_list (map res_threads rs), sum_list (map res_hash_mb rs)))"

definition worker_available_resources :: "dispatch \<Rightarrow> dispatch_worker \<Rightarrow> (int \<times> int) option \<Rightarrow> (int \<times> int) option" where
  "worker_available_resources s w used = (case worker_capacity w of None \<Rightarrow> None
     | Some capacity \<Rightarrow> let (threads, hash) = (case used of None \<Rightarrow> used_by_games s (active_worker_games (life s) (dw_id w)) | Some u \<Rightarrow> u)
       in Some (max 0 (res_threads capacity - threads), max 0 (res_hash_mb capacity - hash)))"

subsection \<open>Event fixtures\<close>

text \<open>The fixtures of all kinds of events: tournament, event, position and identity.\<close>

definition event_fixtures :: "event_tables \<Rightarrow> (int \<times> int \<times> int \<times> int) list" where
  "event_fixtures E = map (\<lambda>f. (fixture_tournament f, fixture_event f, fixture_position f, fixture_id f)) (relay_fixtures E)
     @ List.map_filter (\<lambda>(e, v). map_option (\<lambda>t. (t, e, 0, e)) v) (gauntlet_events E)
     @ List.map_filter (\<lambda>e. map_option (\<lambda>t. (t, event_id e, 0, event_id e)) (event_config_tournament e))
         (filter (\<lambda>e. event_handler e = ''duck-vs-fish'') (event_rows E))"

definition may_play_fixture :: "dispatch \<Rightarrow> int \<Rightarrow> int \<Rightarrow> int \<Rightarrow> bool" where
  "may_play_fixture s w e t = ((w, e) \<in> set (event_permissions s) \<or> (w, t) \<in> set (tournament_permissions s))"

definition event_fixture_worker :: "lifecycle \<Rightarrow> int \<Rightarrow> int option" where
  "event_fixture_worker s t = map_of (fixture_workers s) t"

definition get_worker_event_fixture :: "lifecycle \<Rightarrow> int \<Rightarrow> lifecycle \<times> int option" where
  "get_worker_event_fixture s w = (case List.find (\<lambda>(t, v). v = w \<and> life_tournament s t \<noteq> None) (fixture_workers s) of
     None \<Rightarrow> (s, None)
   | Some (t, v) \<Rightarrow> if (case life_tournament s t of None \<Rightarrow> False | Some r \<Rightarrow> tour_status r \<in> {Scheduled, Running, Paused})
       then (s, Some t)
       else (s\<lparr>fixture_workers := filter (\<lambda>(u, v). u \<noteq> t) (fixture_workers s)\<rparr>, None))"

definition nulls_last :: "string option \<Rightarrow> bool \<times> string" where
  "nulls_last v = (case v of None \<Rightarrow> (True, []) | Some x \<Rightarrow> (False, x))"

definition list_worker_event_fixture_candidates :: "dispatch \<Rightarrow> int \<Rightarrow> int list" where
  "list_worker_event_fixture_candidates s w = map fst (sort_key
     (\<lambda>(t, e, position, i). (life_tournament (life s) t \<noteq> None \<and> tour_status (the (life_tournament (life s) t)) \<noteq> Running,
        nulls_last (scheduled_starts s t), position, i))
     (filter (\<lambda>(t, e, position, i). list_ex (\<lambda>r. event_id r = e \<and> \<not> event_closed r) (event_rows (event_data s))
        \<and> (case life_tournament (life s) t of None \<Rightarrow> False | Some r \<Rightarrow> tour_status r \<in> {Scheduled, Running})
        \<and> event_fixture_worker (life s) t = None \<and> may_play_fixture s w e t)
       (event_fixtures (event_data s))))"

definition event_fixture_has_worker_permissions :: "dispatch \<Rightarrow> int \<Rightarrow> bool" where
  "event_fixture_has_worker_permissions s t = list_ex (\<lambda>(u, e, position, i). u = t
     \<and> (event_fixture_worker (life s) t \<noteq> None \<or> e \<in> set (map snd (event_permissions s))
        \<or> t \<in> set (map snd (tournament_permissions s)))) (event_fixtures (event_data s))"

text \<open>The insertion skips a tournament that has a worker and a worker that has a tournament.\<close>

definition claim_event_fixture_worker :: "dispatch \<Rightarrow> int \<Rightarrow> int \<Rightarrow> dispatch \<times> bool" where
  "claim_event_fixture_worker s t w = (let
     allowed = list_ex (\<lambda>(u, e, position, i). u = t \<and> may_play_fixture s w e t) (event_fixtures (event_data s))
       \<and> (case life_tournament (life s) t of None \<Rightarrow> False | Some r \<Rightarrow> tour_status r \<in> {Scheduled, Running});
     free = t \<notin> set (map fst (fixture_workers (life s))) \<and> w \<notin> set (map snd (fixture_workers (life s)));
     s' = (if allowed \<and> free then s\<lparr>life := (life s)\<lparr>fixture_workers := fixture_workers (life s) @ [(t, w)]\<rparr>\<rparr> else s)
   in (s', event_fixture_worker (life s') t = Some w))"

definition release_event_fixture_worker :: "dispatch \<Rightarrow> int \<Rightarrow> int \<Rightarrow> dispatch" where
  "release_event_fixture_worker s t w =
     s\<lparr>life := (life s)\<lparr>fixture_workers := filter (\<lambda>(u, v). \<not> (u = t \<and> v = w)) (fixture_workers (life s))\<rparr>\<rparr>"

subsection \<open>The next game of a tournament\<close>

text \<open>The game number halved as SQL divides, towards zero.\<close>

definition pair_number :: "int \<Rightarrow> int" where
  "pair_number n = (if 1 \<le> n then (n - 1) div 2 else - ((1 - n) div 2))"

definition queue_key :: "game_row \<Rightarrow> int \<times> int \<times> int \<times> int \<times> int" where
  "queue_key g = (pair_number (game_number g), game_round g, game_pair g, game_number g, game_id g)"

definition lacks_local_engine :: "dispatch \<Rightarrow> int \<Rightarrow> game_row \<Rightarrow> bool" where
  "lacks_local_engine s w g = list_ex (\<lambda>v. spec_engine_id v \<in> {white_engine g, black_engine g}
     \<and> spec_distribution v = Worker_Local
     \<and> \<not> list_ex (\<lambda>(u, k). u = w \<and> Some k = spec_local_key v) (discoveries s)) (engine_versions s)"

definition playable_for_worker :: "dispatch \<Rightarrow> int \<Rightarrow> int \<Rightarrow> int list \<Rightarrow> int list \<Rightarrow> game_row \<Rightarrow> bool" where
  "playable_for_worker s t w excluded_engines excluded_games g =
     (game_tournament g = t \<and> game_status g = Game_Pending \<and> \<not> lacks_local_engine s w g
      \<and> white_engine g \<notin> set excluded_engines \<and> black_engine g \<notin> set excluded_engines
      \<and> game_id g \<notin> set excluded_games)"

definition next_playable_game_for_worker :: "dispatch \<Rightarrow> int \<Rightarrow> int \<Rightarrow> int list \<Rightarrow> int list \<Rightarrow> game_row option" where
  "next_playable_game_for_worker s t w excluded_engines excluded_games =
     (case sort_key queue_key (filter (playable_for_worker s t w excluded_engines excluded_games) (life_games (life s))) of
       [] \<Rightarrow> None | g # gs \<Rightarrow> Some g)"

definition active_game_count :: "lifecycle \<Rightarrow> int \<Rightarrow> nat" where
  "active_game_count s t = length (filter (\<lambda>g. game_tournament g = t \<and> game_status g \<in> {Game_Assigned, Game_Live}) (life_games s))"

definition get_engine :: "dispatch \<Rightarrow> int \<Rightarrow> int \<Rightarrow> engine_spec option" where
  "get_engine s e t = (case map_of (pinned_engines s) (t, e) of
     Some spec \<Rightarrow> Some spec | None \<Rightarrow> List.find (\<lambda>v. spec_engine_id v = e) (engine_versions s))"

definition assignment_engines :: "dispatch \<Rightarrow> game_row \<Rightarrow> bool \<Rightarrow> (int \<times> engine_spec) list result" where
  "assignment_engines s g preload = rbind (relay_engine_ids_for_game (event_data s) g) (\<lambda>relay.
     map_result (\<lambda>e. rbind (or_error (RuntimeError (''unknown engine '' @ int_str e)) (get_engine s e (game_tournament g)))
         (\<lambda>spec. Inr (e, spec)))
       (remdups (white_engine g # black_engine g # relay
          @ (if preload then relay_engine_ids_for_tournament (event_data s) (game_tournament g)
               @ puzzle_gauntlet_engine_ids_for_tournament (event_data s) (game_tournament g) else []))))"

definition local_keys :: "engine_spec list \<Rightarrow> string list" where
  "local_keys engines = List.map_filter spec_local_key (filter (\<lambda>e. spec_distribution e = Worker_Local) engines)"

definition worker_has_local_engines :: "dispatch \<Rightarrow> int \<Rightarrow> engine_spec list \<Rightarrow> bool" where
  "worker_has_local_engines s w engines = list_all (\<lambda>k. (w, k) \<in> set (discoveries s)) (local_keys engines)"

text \<open>The oldest hardware on which every managed build of the game has been measured.\<close>

definition measured_on :: "dispatch \<Rightarrow> string \<Rightarrow> string \<Rightarrow> benchmark_row list" where
  "measured_on s hardware build = filter (\<lambda>b. bench_build b = build \<and> bench_hardware b = hardware
     \<and> list_ex (\<lambda>(a, sha). a = build \<and> bench_sha256 b = Some sha) (artifact_builds s)) (benchmark_rows s)"

definition get_common_benchmark_reference :: "dispatch \<Rightarrow> (int \<times> engine_spec) list \<Rightarrow> benchmark_reference option" where
  "get_common_benchmark_reference s engines = (let builds = remdups (map (\<lambda>(e, spec). spec_build_hash spec) engines) in
     case sort_key (\<lambda>(k, created). (created, k)) (filter (\<lambda>(k, created). list_all (\<lambda>b. measured_on s k b \<noteq> []) builds) (hardware_rows s)) of
       [] \<Rightarrow> None
     | (k, created) # rest \<Rightarrow> Some \<lparr>ref_hardware = k,
         ref_nps = map (\<lambda>(e, spec). (spec_engine_id spec, bench_nps (hd (measured_on s k (spec_build_hash spec))))) engines\<rparr>)"

subsection \<open>The assignment\<close>

definition tournament_engine_options :: "tournament_record \<Rightarrow> int \<Rightarrow> relay_assignment option
    \<Rightarrow> (string \<times> option_value) list result" where
  "tournament_engine_options t e relay = rbind (get_variant (config_variant (tour_config t))) (\<lambda>v. let
     options = fold (\<lambda>(k, x). AList.update k x) (uci_options v) (config_uci_options (tour_config t));
     member = (case relay of None \<Rightarrow> None | Some r \<Rightarrow> List.find (\<lambda>m. relay_engine m = e) (relay_players r));
     kib = (case relay of None \<Rightarrow> None | Some r \<Rightarrow> (case kibitzer r of None \<Rightarrow> None | Some k \<Rightarrow> if kib_engine k = e then Some k else None));
     threads = (case member of Some m \<Rightarrow> relay_threads m | None \<Rightarrow> (case kib of Some k \<Rightarrow> kib_threads k | None \<Rightarrow> engine_threads (tour_config t)));
     hash = (case member of Some m \<Rightarrow> relay_hash_mb m | None \<Rightarrow> (case kib of Some k \<Rightarrow> kib_hash_mb k | None \<Rightarrow> engine_hash_mb (tour_config t)))
   in Inr (AList.update ''Hash'' (OptInt hash) (AList.update ''Threads'' (OptInt threads) options)))"

definition worker_assignment_payload :: "dispatch \<Rightarrow> tournament_record \<Rightarrow> game_row \<Rightarrow> assignment_record
    \<Rightarrow> (int \<times> engine_spec) list \<Rightarrow> worker_resources \<Rightarrow> benchmark_reference option \<Rightarrow> worker_assignment result" where
  "worker_assignment_payload s t g a engines required reference =
     rbind (relay_assignment_for_game (event_data s) g) (\<lambda>relay.
     rbind (map_result (\<lambda>(e, spec). rbind (tournament_engine_options t e relay) (\<lambda>o1. Inr (e, o1))) engines) (\<lambda>options.
     Inr \<lparr>wa_record = a, wa_game = g, wa_options = options, wa_relay = relay, wa_engines = engines,
        wa_resources = required, wa_benchmark = reference\<rparr>))"

definition set_tournament_current_round_at_least :: "dispatch \<Rightarrow> int \<Rightarrow> int \<Rightarrow> dispatch" where
  "set_tournament_current_round_at_least s t r =
     (if current_rounds s t < r then s\<lparr>current_rounds := (current_rounds s)(t := r)\<rparr> else s)"

text \<open>
  What a game needs before it is handed out: the engines to send, and those it must be compatible
  with, which for an event fixture are all of the event's.
\<close>

definition suits_worker :: "dispatch \<Rightarrow> dispatch_worker \<Rightarrow> tournament_record \<Rightarrow> int \<times> int \<Rightarrow> int list \<Rightarrow> bool
    \<Rightarrow> (int \<times> engine_spec) list \<Rightarrow> worker_resources \<Rightarrow> bool" where
  "suits_worker s w t free excluded_engines event compatible required = (let
     capacity = (if event then event_preload_required_resources (event_data s) t (int (length compatible)) else required)
   in set excluded_engines \<inter> set (map fst compatible) = {}
     \<and> worker_has_local_engines s (dw_id w) (map snd compatible)
     \<and> res_threads capacity \<le> fst free \<and> res_hash_mb capacity \<le> snd free)"

definition hand_out :: "string \<Rightarrow> string \<Rightarrow> dispatch \<Rightarrow> dispatch_worker \<Rightarrow> tournament_record \<Rightarrow> game_row \<Rightarrow> bool
    \<Rightarrow> (int \<times> engine_spec) list \<Rightarrow> worker_resources \<Rightarrow> benchmark_reference option
    \<Rightarrow> (dispatch \<times> worker_assignment option) result" where
  "hand_out now key s w t g claim engines required reference = (let
     (s1, claimed) = (if claim then claim_event_fixture_worker s (tour_id t) (dw_id w) else (s, False))
   in if claim \<and> \<not> claimed then Inr (s1, None)
      else let s2 = set_tournament_current_round_at_least s1 (tour_id t) (game_round g) in
        rbind (assign_game_to_worker now (life s2) (game_id g) key (dw_id w)) (\<lambda>(l, assigned). case assigned of
          None \<Rightarrow> Inr (if claimed then release_event_fixture_worker (s2\<lparr>life := l\<rparr>) (tour_id t) (dw_id w) else s2\<lparr>life := l\<rparr>, None)
        | Some a \<Rightarrow> rbind (worker_assignment_payload (s2\<lparr>life := l\<rparr>) t g a engines required reference)
            (\<lambda>wa. Inr (s2\<lparr>life := l\<rparr>, Some wa))))"

definition next_tournament_worker_assignment :: "string \<Rightarrow> (int \<Rightarrow> string) \<Rightarrow> dispatch_worker \<Rightarrow> int \<times> int \<Rightarrow> int list \<Rightarrow> int list
    \<Rightarrow> bool \<Rightarrow> bool \<Rightarrow> dispatch \<Rightarrow> tournament_record \<Rightarrow> (dispatch \<times> worker_assignment option) result" where
  "next_tournament_worker_assignment now keys w free excluded_engines excluded_games claim preload s t =
     (if tour_status t \<notin> {Running, Scheduled} \<or> concurrency (tour_config t) \<le> int (active_game_count (life s) (tour_id t))
        \<or> dw_hardware w = None then Inr (s, None)
      else case next_playable_game_for_worker s (tour_id t) (dw_id w) excluded_engines excluded_games of
        None \<Rightarrow> Inr (s, None)
      | Some g \<Rightarrow>
          rbind (assignment_engines s g False) (\<lambda>runtime.
          rbind (if preload then assignment_engines s g True else Inr runtime) (\<lambda>engines.
          rbind (if claim \<and> \<not> preload then assignment_engines s g True else Inr engines) (\<lambda>compatible. let
            required = tournament_required_resources (event_data s) t (int (length runtime)) (Some [white_engine g, black_engine g]);
            managed = filter (\<lambda>(e, spec). spec_distribution spec = Managed) engines;
            reference = (if managed \<noteq> [] then get_common_benchmark_reference s managed else None)
          in if \<not> suits_worker s w t free excluded_engines (claim \<or> preload) compatible required then Inr (s, None)
             else if managed \<noteq> [] \<and> reference = None then Inr (s, None)
             else hand_out now (keys (tour_id t)) s w t g claim engines required reference))))"

fun first_assignment :: "('a \<Rightarrow> dispatch \<Rightarrow> (dispatch \<times> worker_assignment option) result) \<Rightarrow> 'a list \<Rightarrow> dispatch
    \<Rightarrow> (dispatch \<times> worker_assignment option) result" where
  "first_assignment f [] s = Inr (s, None)"
| "first_assignment f (x # xs) s = rbind (f x s) (\<lambda>(s', assigned). case assigned of
     Some a \<Rightarrow> Inr (s', Some a) | None \<Rightarrow> first_assignment f xs s')"

definition list_tournaments :: "lifecycle \<Rightarrow> tournament_record list" where
  "list_tournaments s = rev (sort_key tour_id (life_tournaments s))"

text \<open>Whether a worker without a fixture may play in a running tournament.\<close>

definition open_to_worker :: "dispatch \<Rightarrow> dispatch_worker \<Rightarrow> tournament_record \<Rightarrow> bool" where
  "open_to_worker s w t = (tour_status t = Running
     \<and> (case event_fixture_worker (life s) (tour_id t) of
          Some v \<Rightarrow> v = dw_id w | None \<Rightarrow> \<not> event_fixture_has_worker_permissions s (tour_id t))
     \<and> (dw_all_tournaments w \<or> (dw_id w, tour_id t) \<in> set (tournament_permissions s)))"

definition next_worker_assignment :: "string \<Rightarrow> (int \<Rightarrow> string) \<Rightarrow> dispatch \<Rightarrow> dispatch_worker \<Rightarrow> (int \<times> int) option
    \<Rightarrow> int list \<Rightarrow> int list \<Rightarrow> (dispatch \<times> worker_assignment option) result" where
  "next_worker_assignment now keys s w used excluded_engines excluded_games =
     (if dw_id w \<in> set (draining_workers s) then Inr (s, None)
      else case worker_available_resources s w used of None \<Rightarrow> Inr (s, None)
      | Some free \<Rightarrow> let
          assign = next_tournament_worker_assignment now keys w free excluded_engines excluded_games;
          idle = (used \<in> {None, Some (0, 0)});
          (l, fixture) = get_worker_event_fixture (life s) (dw_id w); s0 = s\<lparr>life := l\<rparr>
        in case fixture of
          Some f \<Rightarrow> (case life_tournament l f of None \<Rightarrow> Inr (s0, None)
            | Some t \<Rightarrow> if tour_status t = Paused \<or> tour_status t = Scheduled \<and> \<not> idle then Inr (s0, None)
                else assign False (tour_status t = Scheduled) s0 t)
        | None \<Rightarrow> let candidates = list_worker_event_fixture_candidates s0 (dw_id w) in
            if candidates \<noteq> [] \<and> \<not> idle then Inr (s0, None)
            else rbind (first_assignment (\<lambda>c s1. case life_tournament (life s1) c of None \<Rightarrow> Inr (s1, None)
                  | Some t \<Rightarrow> assign True (tour_status t = Scheduled) s1 t) candidates s0)
              (\<lambda>(s1, assigned). case assigned of Some a \<Rightarrow> Inr (s1, Some a)
               | None \<Rightarrow> first_assignment (\<lambda>t s2. if open_to_worker s2 w t then assign False False s2 t else Inr (s2, None))
                   (list_tournaments (life s1)) s1))"

end
