(* ===== verification/Game_Attempts.thy ===== *)
theory Game_Attempts
  imports Game_Lifecycle
begin

text \<open>
  What holds of every sequence of the operations on games and assignments: the rows keep their
  keys unique, a game waiting to be played has no moves of an earlier attempt unless it has the
  checkpoint they belong to, only one attempt at a time can write moves, and a worker that is
  lost leaves nothing behind.
\<close>

subsection \<open>Runs\<close>

definition has_checkpoint :: "lifecycle \<Rightarrow> int \<Rightarrow> bool" where
  "has_checkpoint s g = list_ex (\<lambda>c. checkpoint_game c = g) (checkpoints s)"

text \<open>
  One operation, with the assignment keys it issues.  The runner records moves after it has
  marked its assignment live; then the game is live too, unless it was resumed meanwhile.
\<close>

inductive life_step :: "string list \<Rightarrow> lifecycle \<Rightarrow> lifecycle \<Rightarrow> bool" where
  scheduled: "game_id r \<notin> game_id ` set (life_games s) \<Longrightarrow> game_status r = Game_Pending
    \<Longrightarrow> \<forall>m \<in> set (life_moves s). move_game m \<noteq> game_id r
    \<Longrightarrow> life_step [] s (s\<lparr>life_games := life_games s @ [r]\<rparr>)"
| assigned: "assign_game_to_worker now s g k w = Inr (s', a) \<Longrightarrow> life_step [k] s s'"
| acknowledged: "acknowledge_game_assignment now s i k = Inr s' \<Longrightarrow> life_step [] s s'"
| started: "mark_worker_assignment_live now s i = Inr s' \<Longrightarrow> life_step [] s s'"
| recorded: "record_move s (Some i) (Some k) m = Inr s' \<Longrightarrow>
    (\<forall>r \<in> set (life_games s). game_id r = move_game m \<longrightarrow> game_status r = Game_Live \<or> has_checkpoint s (move_game m))
    \<Longrightarrow> life_step [] s s'"
| played_out: "life_step [] s (finish_game now g res termin pgn s)"
| assignment_done: "life_step [] s (finish_game_assignment now i k s)"
| failed: "life_step [] s (fail_game_assignment now i k reason s)"
| paused: "pause_game_assignment now s i k state = Inr s' \<Longrightarrow> life_step [] s s'"
| paused_unstarted: "life_step [] s (pause_unstarted_game_assignment now i k s)"
| resumed: "life_step [] s (fst (resume_paused_tournament_games t s))"
| disconnected: "life_step [] s (fst (disconnect_worker now w session reason s))"
| revoked: "life_step [] s (revoke_worker now w s)"
| deleted: "life_step [] s (delete_worker now w s)"
| status_set: "life_step [] s (set_tournament_status now t st s)"
| restored: "restore_tournament now s t = Inr s' \<Longrightarrow> life_step [] s s'"
| replayed: "replay_game s t g = Inr (s', b) \<Longrightarrow> life_step [] s s'"
| invalidated: "invalidate_game_pair s t g = Inr (s', ids) \<Longrightarrow> life_step [] s s'"

inductive life_run :: "string list \<Rightarrow> lifecycle \<Rightarrow> lifecycle \<Rightarrow> bool" where
  begun: "life_run [] s s"
| more: "life_run ks s s' \<Longrightarrow> life_step ks' s' s'' \<Longrightarrow> life_run (ks @ ks') s s''"

definition new_lifecycle :: "lifecycle \<Rightarrow> bool" where
  "new_lifecycle s = (life_games s = [] \<and> assignments s = [] \<and> checkpoints s = [] \<and> life_moves s = [])"

subsection \<open>Updates of rows\<close>

named_theorems table_simps \<open>what an operation leaves in the tables\<close>

lemma map_update_rows [table_simps]:
  "(\<And>r. f' (f r) = f' r) \<Longrightarrow> map f' (update_rows P f rows) = map f' rows"
  by (simp add: update_rows_def)

lemma set_update_rows: "set (update_rows P f rows) = (\<lambda>r. if P r then f r else r) ` set rows"
  by (simp add: update_rows_def)

lemma length_update_rows [simp]: "length (update_rows P f rows) = length rows"
  by (simp add: update_rows_def)

lemma update_games_frame [simp, table_simps]:
  "assignments (update_games P f s) = assignments s" "checkpoints (update_games P f s) = checkpoints s"
  "life_moves (update_games P f s) = life_moves s" "next_assignment (update_games P f s) = next_assignment s"
  "workers (update_games P f s) = workers s" "life_games (update_games P f s) = update_rows P f (life_games s)"
  by (simp_all add: update_games_def)

lemma update_assignments_frame [simp, table_simps]:
  "life_games (update_assignments P f s) = life_games s" "checkpoints (update_assignments P f s) = checkpoints s"
  "life_moves (update_assignments P f s) = life_moves s" "next_assignment (update_assignments P f s) = next_assignment s"
  "workers (update_assignments P f s) = workers s"
  "assignments (update_assignments P f s) = update_rows P f (assignments s)"
  by (simp_all add: update_assignments_def)

lemma log_replayed_frame [simp, table_simps]:
  "life_games (log_replayed reason now ids s) = life_games s" "assignments (log_replayed reason now ids s) = assignments s"
  "checkpoints (log_replayed reason now ids s) = checkpoints s" "life_moves (log_replayed reason now ids s) = life_moves s"
  "next_assignment (log_replayed reason now ids s) = next_assignment s" "workers (log_replayed reason now ids s) = workers s"
  by (simp_all add: log_replayed_def Let_def)

subsection \<open>Assignment rows\<close>

definition assignments_ok :: "lifecycle \<Rightarrow> bool" where
  "assignments_ok s = (distinct (map asg_id (assignments s)) \<and> distinct (map asg_game (assignments s))
     \<and> distinct (map asg_key (assignments s)) \<and> (\<forall>a \<in> set (assignments s). asg_id a < next_assignment s))"

definition holders :: "lifecycle \<Rightarrow> (int \<times> string) set" where
  "holders s = (\<lambda>a. (asg_game a, asg_key a)) ` set (assignments s)"

text \<open>What nearly every operation does to the assignments: rows go, or keep their identity.\<close>

definition same_row :: "assignment_record \<Rightarrow> assignment_record \<Rightarrow> bool" where
  "same_row a b = (asg_id b = asg_id a \<and> asg_game b = asg_game a \<and> asg_key b = asg_key a)"

definition identities :: "lifecycle \<Rightarrow> (int \<times> int \<times> string) list" where
  "identities s = map (\<lambda>a. (asg_id a, asg_game a, asg_key a)) (assignments s)"

lemma assignments_ok_iff:
  "assignments_ok s \<longleftrightarrow> distinct (map fst (identities s)) \<and> distinct (map (fst \<circ> snd) (identities s))
     \<and> distinct (map (snd \<circ> snd) (identities s)) \<and> (\<forall>x \<in> set (identities s). fst x < next_assignment s)"
  by (simp add: assignments_ok_def identities_def comp_def)

lemma holders_identities: "holders s = snd ` set (identities s)"
  by (force simp: holders_def identities_def)

lemma identities_update [table_simps]:
  assumes "\<And>a. same_row a (f a)"
  shows "identities (update_assignments P f s) = identities s"
  using assms by (simp add: identities_def update_rows_def same_row_def comp_def if_distrib cong: if_cong)

lemma identities_frame: "assignments s' = assignments s \<Longrightarrow> identities s' = identities s"
  by (simp add: identities_def)

lemma assignments_ok_cong: "identities s' = identities s \<Longrightarrow> next_assignment s' = next_assignment s \<Longrightarrow> assignments_ok s' = assignments_ok s"
  by (simp add: assignments_ok_iff)

text \<open>An operation that issues no key.\<close>

definition no_new_key :: "lifecycle \<Rightarrow> lifecycle \<Rightarrow> bool" where
  "no_new_key s s' = ((\<exists>P. identities s' = filter P (identities s)) \<and> next_assignment s' = next_assignment s)"

lemma no_new_key_same: "identities s' = identities s \<Longrightarrow> next_assignment s' = next_assignment s \<Longrightarrow> no_new_key s s'"
  unfolding no_new_key_def by (auto intro: exI [of _ "\<lambda>x. True"])

lemma no_new_key_ok: "no_new_key s s' \<Longrightarrow> assignments_ok s \<Longrightarrow> assignments_ok s'"
  by (auto simp: no_new_key_def assignments_ok_iff distinct_map_filter)

lemma no_new_key_holders: "no_new_key s s' \<Longrightarrow> holders s' \<subseteq> holders s"
  by (auto simp: no_new_key_def holders_identities)

lemma reset_frame [simp, table_simps]:
  "assignments (reset_games_for_replay b reason now ids s) = assignments s"
  "next_assignment (reset_games_for_replay b reason now ids s) = next_assignment s"
  "workers (reset_games_for_replay b reason now ids s) = workers s"
  by (simp_all add: reset_games_for_replay_def Let_def)

lemma same_rows [simp]:
  "same_row a (a\<lparr>asg_status := st, asg_acked := x\<rparr>)" "same_row a (a\<lparr>asg_status := st, asg_finished := x\<rparr>)"
  "same_row a (expire now a)" "same_row a (abandon now reason a)" "same_row a (a\<lparr>asg_worker := w\<rparr>)"
  "same_row a (a\<lparr>asg_status := st, asg_finished := x, asg_error := y\<rparr>)" "same_row a a"
  by (simp_all add: same_row_def expire_def abandon_def)

lemma identities_updates [simp]:
  "(\<And>a. same_row a (f a)) \<Longrightarrow> identities (update_assignments P f s) = identities s"
  "identities (update_games Q h s) = identities s"
  "identities (reset_games_for_replay b reason now ids s) = identities s"
  "identities (s\<lparr>checkpoints := cs\<rparr>) = identities s" "identities (s\<lparr>life_moves := ms\<rparr>) = identities s"
  "identities (s\<lparr>life_games := gs\<rparr>) = identities s" "identities (s\<lparr>life_tournaments := ts\<rparr>) = identities s"
  "identities (s\<lparr>workers := ws\<rparr>) = identities s" "identities (s\<lparr>fixture_workers := fs\<rparr>) = identities s"
  "identities (s\<lparr>life_chat := c\<rparr>) = identities s" "identities (s\<lparr>hardware_scores := hs\<rparr>) = identities s"
  by (rule identities_update, simp) (simp_all add: identities_def)

lemma release_identities [simp]:
  "identities (release_worker_active_assignments now reason w s) = identities s"
  "next_assignment (release_worker_active_assignments now reason w s) = next_assignment s"
  by (simp_all add: release_worker_active_assignments_def)

lemma delete_row_identities [simp]:
  "identities (delete_worker_row w s) = identities s" "next_assignment (delete_worker_row w s) = next_assignment s"
  by (simp_all add: delete_worker_row_def)

lemma abandon_games_identities [simp]:
  "identities (abandon_tournament_games now t s) = identities s"
  "next_assignment (abandon_tournament_games now t s) = next_assignment s"
  by (simp_all add: abandon_tournament_games_def Let_def)

lemma delete_games_identities:
  "no_new_key s (delete_games ids s)"
proof -
  have "identities (delete_games ids s) = filter (\<lambda>(i, g, k). g \<notin> set ids) (identities s)"
    by (simp add: delete_games_def identities_def filter_map comp_def)
  then show ?thesis by (auto simp: no_new_key_def delete_games_def)
qed

lemma step_keys:
  assumes "life_step ks s s'"
  shows "no_new_key s s' \<or> (\<exists>now g k w a. ks = [k] \<and> assign_game_to_worker now s g k w = Inr (s', a))"
  using assms
proof cases
  case (assigned now g k w a)
  then show ?thesis by blast
next
  case (recorded i k m)
  then have "no_new_key s s'"
    by (intro no_new_key_same) (auto simp: record_move_def insert_move_def split: if_splits)
  then show ?thesis by blast
next
  case (paused now i k state)
  then have "no_new_key s s'"
    by (intro no_new_key_same) (auto simp: pause_game_assignment_def Let_def split: option.splits if_splits)
  then show ?thesis by blast
next
  case (invalidated t g ids)
  then obtain c where "s' = delete_games ids (s\<lparr>life_chat := c\<rparr>)"
    by (auto simp: invalidate_game_pair_def rbind_eq_Inr Let_def)
  then show ?thesis using delete_games_identities [of "s\<lparr>life_chat := c\<rparr>" ids] by (simp add: no_new_key_def)
next
  case (acknowledged now i k)
  then have "no_new_key s s'"
    by (intro no_new_key_same) (auto simp: acknowledge_game_assignment_def Let_def split: if_splits)
  then show ?thesis by blast
next
  case (started now i)
  then have "no_new_key s s'"
    by (intro no_new_key_same) (auto simp: mark_worker_assignment_live_def mark_game_live_def mark_game_assignment_live_def rbind_eq_Inr)
  then show ?thesis by blast
next
  case (restored now t)
  then have "no_new_key s s'"
    by (intro no_new_key_same) (auto simp: restore_tournament_def rbind_eq_Inr Let_def)
  then show ?thesis by blast
next
  case (replayed t g b)
  then have "no_new_key s s'"
    by (intro no_new_key_same) (auto simp: replay_game_def rbind_eq_Inr Let_def)
  then show ?thesis by blast
next
  case (deleted now w)
  have "identities (update_assignments (\<lambda>a. asg_worker a = Some w) (\<lambda>a. if active a
       then a\<lparr>asg_status := Asg_Expired, asg_finished := Some now, asg_error := Some ''worker deleted''\<rparr> else a) s) = identities s"
    by (rule identities_update) simp
  then have "no_new_key s s'" unfolding deleted by (intro no_new_key_same) (simp_all add: delete_worker_def Let_def)
  then show ?thesis by blast
qed (auto intro!: no_new_key_same simp: finish_game_def finish_game_assignment_def fail_game_assignment_def pause_unstarted_game_assignment_def
      resume_paused_tournament_games_def disconnect_worker_def revoke_worker_def set_tournament_status_def Let_def
    split: option.splits)

lemma assign_cases [consumes 1, case_names refused taken]:
  assumes "assign_game_to_worker now s g k w = Inr (s', a)"
  obtains (refused) "a = None" "s' = s"
  | (taken) row where "a = Some row" "row \<in> set (assignments s')" "asg_game row = g" "asg_key row = k"
      "asg_status row = Asg_Assigned" "asg_worker row = Some w"
      "life_games s' = update_rows (\<lambda>r. game_id r = g \<and> game_status r = Game_Pending)
         (\<lambda>r. r\<lparr>game_status := Game_Assigned\<rparr>) (life_games s)"
      "\<exists>r \<in> set (life_games s). game_id r = g \<and> game_status r = Game_Pending"
      "checkpoints s' = checkpoints s" "life_moves s' = life_moves s"
      "assignments_ok s \<longrightarrow> assignments_ok s'" "holders s' \<subseteq> insert (g, k) {h \<in> holders s. fst h \<noteq> g}"
proof (cases "list_ex (\<lambda>r. game_id r = g \<and> game_status r = Game_Pending) (life_games s)")
  case False
  then show ?thesis using assms refused by (simp add: assign_game_to_worker_def)
next
  case True
  define s1 where "s1 = update_games (\<lambda>r. game_id r = g \<and> game_status r = Game_Pending)
                (\<lambda>r. r\<lparr>game_status := Game_Assigned\<rparr>) s"
  define s2 where "s2 = (if list_ex (\<lambda>a. asg_game a = g) (assignments s1)
               then update_assignments (\<lambda>a. asg_game a = g) (\<lambda>a. fresh_assignment (asg_id a) g k w now) s1
               else s1\<lparr>assignments := assignments s1 @ [fresh_assignment (next_assignment s1) g k w now],
                       next_assignment := next_assignment s1 + 1\<rparr>)"
  have new: "\<not> list_ex (\<lambda>a. asg_key a = k \<and> asg_game a \<noteq> g) (assignments s)"
    and got: "get_game_assignment_for_game s2 g = Some (the a)" and a: "a \<noteq> None" and s': "s' = s2"
    using assms True unfolding assign_game_to_worker_def Let_def s1_def [symmetric] s2_def [symmetric]
    by (auto simp: s1_def rbind_eq_Inr split: if_splits)
  have row: "the a \<in> set (assignments s2)" "asg_game (the a) = g"
    using got unfolding get_game_assignment_for_game_def by (auto dest: find_Some_iff_in)
  have s1: "assignments s1 = assignments s" "next_assignment s1 = next_assignment s" by (simp_all add: s1_def)
  have fresh: "asg_game (fresh_assignment i g k w now) = g" for i by (simp add: fresh_assignment_def)
  have "\<exists>i. x = fresh_assignment i g k w now" if "x \<in> set (assignments s2)" "asg_game x = g" for x
    using that by (auto simp: s2_def s1 set_update_rows list_ex_iff split: if_splits)
  then obtain i where "the a = fresh_assignment i g k w now" using row by blast
  then have "asg_key (the a) = k \<and> asg_status (the a) = Asg_Assigned \<and> asg_worker (the a) = Some w"
    by (simp add: fresh_assignment_def)
  moreover have "life_games s2 = update_rows (\<lambda>r. game_id r = g \<and> game_status r = Game_Pending)
         (\<lambda>r. r\<lparr>game_status := Game_Assigned\<rparr>) (life_games s)" "checkpoints s2 = checkpoints s" "life_moves s2 = life_moves s"
    by (simp_all add: s2_def s1_def)
  moreover have "assignments_ok s2" if ok: "assignments_ok s"
  proof (cases "list_ex (\<lambda>a. asg_game a = g) (assignments s)")
    case False
    have "k \<notin> asg_key ` set (assignments s)" using new False by (auto simp: list_ex_iff)
    then show ?thesis using ok False
      by (auto simp: s2_def s1 assignments_ok_def list_ex_iff fresh_assignment_def less_le)
  next
    case True
    have ids: "map asg_id (assignments s2) = map asg_id (assignments s)" "map asg_game (assignments s2) = map asg_game (assignments s)"
      using True by (simp_all add: s2_def s1 update_rows_def fresh_assignment_def)
    have keys: "distinct (map asg_key (update_rows (\<lambda>a. asg_game a = g) (\<lambda>a. fresh_assignment (asg_id a) g k w now) rows))"
      if "distinct (map asg_game rows)" "distinct (map asg_key rows)" "\<forall>a \<in> set rows. asg_key a = k \<longrightarrow> asg_game a = g" for rows
    proof -
      have "map asg_key (update_rows (\<lambda>a. asg_game a = g) (\<lambda>a. fresh_assignment (asg_id a) g k w now) rows)
          = map (\<lambda>a. if asg_game a = g then k else asg_key a) rows"
        by (simp add: update_rows_def fresh_assignment_def)
      moreover have "inj_on (\<lambda>a. if asg_game a = g then k else asg_key a) (set rows)"
        using that by (auto simp: distinct_map inj_on_def)
      ultimately show ?thesis using that(1) by (simp add: distinct_map)
    qed
    have "distinct (map asg_key (assignments s2))"
      using keys [of "assignments s"] ok new True by (auto simp: s2_def s1 assignments_ok_def list_ex_iff)
    moreover have "\<forall>a \<in> set (assignments s2). asg_id a < next_assignment s2"
      using ok True by (auto simp: s2_def s1 assignments_ok_def set_update_rows fresh_assignment_def)
    ultimately show ?thesis using ok ids by (simp add: assignments_ok_def)
  qed
  moreover have "holders s2 \<subseteq> insert (g, k) {h \<in> holders s. fst h \<noteq> g}"
    by (auto simp: s2_def s1 holders_def set_update_rows list_ex_iff fresh_assignment_def split: if_splits)
  ultimately show ?thesis
    using taken [of "the a"] a row True s' by (auto simp: list_ex_iff)
qed

lemma step_assignments_ok: "life_step ks s s' \<Longrightarrow> assignments_ok s \<Longrightarrow> assignments_ok s'"
  by (drule step_keys) (auto elim: assign_cases intro: no_new_key_ok)

lemma step_holders: "life_step ks s s' \<Longrightarrow> holders s' \<subseteq> holders s \<union> UNIV \<times> set ks"
  by (drule step_keys) (auto elim!: assign_cases dest!: no_new_key_holders)

lemma run_holders: "life_run ks s s' \<Longrightarrow> holders s' \<subseteq> holders s \<union> UNIV \<times> set ks"
  by (induction rule: life_run.induct) (auto dest!: step_holders)

lemma run_assignments_ok: "life_run ks s s' \<Longrightarrow> assignments_ok s \<Longrightarrow> assignments_ok s'"
  by (induction rule: life_run.induct) (auto intro: step_assignments_ok)

lemma new_assignments_ok: "new_lifecycle s \<Longrightarrow> assignments_ok s"
  by (simp add: new_lifecycle_def assignments_ok_def)

subsection \<open>Only one attempt writes\<close>

lemma record_move_holder:
  assumes "record_move s (Some i) (Some k) m = Inr s'"
  shows "(move_game m, k) \<in> holders s \<and> (\<exists>a \<in> set (assignments s). asg_id a = i \<and> asg_key a = k \<and> asg_game a = move_game m \<and> active a)"
proof -
  obtain a where "a \<in> set (assignments s)" "asg_id a = i \<and> asg_key a = k \<and> asg_game a = move_game m \<and> active a"
    using assms by (auto simp: record_move_def list_ex_iff split: if_splits)
  then show ?thesis by (force simp: holders_def)
qed


text \<open>
  Once a game has been assigned under a new key, an attempt with another key never writes a
  move of it again, whatever happens, unless that very key is issued anew.
\<close>
theorem superseded_key_rejected:
  assumes "assign_game_to_worker now s g key w = Inr (s1, Some a)" and "life_run ks s1 s2"
    and "old \<noteq> key" and "old \<notin> set ks" and "move_game m = g"
  shows "record_move s2 (Some i) (Some old) m = Inl (RuntimeError (''assignment '' @ int_str i @ '' is no longer active''))"
proof -
  have "holders s1 \<subseteq> insert (g, key) {h \<in> holders s. fst h \<noteq> g}"
    using assms(1) by (cases rule: assign_cases) auto
  then have "(g, old) \<notin> holders s2" using run_holders [OF assms(2)] assms(3,4) by auto
  then have "\<not> list_ex (\<lambda>a. asg_id a = i \<and> asg_key a = old \<and> asg_game a = move_game m \<and> active a) (assignments s2)"
    using assms(5) by (force simp: holders_def list_ex_iff)
  then show ?thesis by (simp add: record_move_def)
qed

subsection \<open>Attempts start clean\<close>

definition waiting :: "lifecycle \<Rightarrow> int set" where
  "waiting s = game_id ` {r \<in> set (life_games s). game_status r \<in> {Game_Pending, Game_Assigned}}"

definition no_moves :: "lifecycle \<Rightarrow> int \<Rightarrow> bool" where
  "no_moves s g = (\<forall>m \<in> set (life_moves s). move_game m \<noteq> g)"

definition attempts_clean :: "lifecycle \<Rightarrow> bool" where
  "attempts_clean s = (\<forall>g \<in> waiting s. has_checkpoint s g \<or> no_moves s g)"

lemma has_checkpoint_cong: "checkpoints s' = checkpoints s \<Longrightarrow> has_checkpoint s' g = has_checkpoint s g"
  by (simp add: has_checkpoint_def)

lemma no_moves_cong: "life_moves s' = life_moves s \<Longrightarrow> no_moves s' g = no_moves s g"
  by (simp add: no_moves_def)

text \<open>An operation that leaves the moves and checkpoints of the waiting games alone.\<close>

lemma clean_kept:
  assumes "attempts_clean s" and "checkpoints s' = checkpoints s" and "life_moves s' = life_moves s"
    and "waiting s' \<subseteq> waiting s \<union> {g. has_checkpoint s g}"
  shows "attempts_clean s'"
  using assms by (auto simp: attempts_clean_def has_checkpoint_def no_moves_def)

lemma waiting_update:
  assumes "\<And>r. game_id (f r) = game_id r"
    and "\<And>r. r \<in> set (life_games s) \<Longrightarrow> P r \<Longrightarrow> game_status (f r) \<in> {Game_Pending, Game_Assigned}
      \<Longrightarrow> game_status r \<in> {Game_Pending, Game_Assigned} \<or> game_id r \<in> X"
    and "life_games s' = update_rows P f (life_games s)"
  shows "waiting s' \<subseteq> waiting s \<union> X"
proof
  fix g assume "g \<in> waiting s'"
  then obtain r where r: "r \<in> set (life_games s)" "g = game_id (if P r then f r else r)"
      "game_status (if P r then f r else r) \<in> {Game_Pending, Game_Assigned}"
    unfolding waiting_def assms(3) set_update_rows by auto
  then have "g = game_id r" "game_status r \<in> {Game_Pending, Game_Assigned} \<or> game_id r \<in> X"
    using assms(1) assms(2) [of r] by (auto split: if_splits)
  then show "g \<in> waiting s \<union> X" using r(1) unfolding waiting_def by blast
qed

lemma waiting_same: "life_games s' = life_games s \<Longrightarrow> waiting s' = waiting s"
  by (simp add: waiting_def)

text \<open>Games that lose their moves together with their checkpoints.\<close>

lemma clean_reset:
  assumes "attempts_clean s" and "checkpoints s' = filter (\<lambda>c. checkpoint_game c \<notin> X) (checkpoints s)"
    and "life_moves s' = filter (\<lambda>m. move_game m \<notin> X) (life_moves s)" and "waiting s' \<subseteq> waiting s \<union> X"
  shows "attempts_clean s'"
proof -
  have "has_checkpoint s' g \<or> no_moves s' g" if "g \<in> waiting s'" for g
  proof (cases "g \<in> X")
    case True
    then show ?thesis using assms(3) by (auto simp: no_moves_def)
  next
    case False
    then have "g \<in> waiting s" using that assms(4) by blast
    then have "has_checkpoint s g \<or> no_moves s g" using assms(1) by (simp add: attempts_clean_def)
    then show ?thesis using assms(2,3) False by (auto simp: has_checkpoint_def no_moves_def list_ex_iff)
  qed
  then show ?thesis by (simp add: attempts_clean_def)
qed

lemma reset_row_simps [simp]: "game_id (reset_row r) = game_id r" "game_status (reset_row r) = Game_Pending"
  "game_result (reset_row r) = None"
  by (simp_all add: reset_row_def)

definition reset_ids :: "bool \<Rightarrow> int list \<Rightarrow> lifecycle \<Rightarrow> int set" where
  "reset_ids b wanted s = game_id ` {r \<in> set (life_games s). game_id r \<in> set wanted \<and> resettable b (game_status r)}"

lemma reset_tables:
  "checkpoints (reset_games_for_replay b reason now wanted s) = filter (\<lambda>c. checkpoint_game c \<notin> reset_ids b wanted s) (checkpoints s)"
  "life_moves (reset_games_for_replay b reason now wanted s) = filter (\<lambda>m. move_game m \<notin> reset_ids b wanted s) (life_moves s)"
  "life_games (reset_games_for_replay b reason now wanted s) = update_rows (\<lambda>r. game_id r \<in> reset_ids b wanted s
     \<and> resettable b (game_status r)) reset_row (life_games s)"
proof -
  let ?ids = "map game_id (filter (\<lambda>r. game_id r \<in> set wanted \<and> resettable b (game_status r)) (life_games s))"
  have ids: "set ?ids = reset_ids b wanted s" by (auto simp: reset_ids_def)
  have none: "reset_ids b wanted s = {}" if "?ids = []" using ids that by (metis empty_iff list.set(1) ex_in_conv)
  show "checkpoints (reset_games_for_replay b reason now wanted s) = filter (\<lambda>c. checkpoint_game c \<notin> reset_ids b wanted s) (checkpoints s)"
    "life_moves (reset_games_for_replay b reason now wanted s) = filter (\<lambda>m. move_game m \<notin> reset_ids b wanted s) (life_moves s)"
    "life_games (reset_games_for_replay b reason now wanted s) = update_rows (\<lambda>r. game_id r \<in> reset_ids b wanted s
     \<and> resettable b (game_status r)) reset_row (life_games s)"
    unfolding reset_games_for_replay_def Let_def ids using none by (simp_all add: update_rows_def)
qed

lemma clean_reset_games: "attempts_clean s \<Longrightarrow> attempts_clean (reset_games_for_replay b reason now wanted s)"
  by (erule clean_reset, rule reset_tables(1), rule reset_tables(2), rule waiting_update [OF _ _ reset_tables(3)]) auto

lemma clean_update_assignments [simp]: "attempts_clean (update_assignments P f s) = attempts_clean s"
  by (simp add: attempts_clean_def waiting_def has_checkpoint_def no_moves_def)

lemma clean_frame:
  assumes "checkpoints s' = checkpoints s" and "life_moves s' = life_moves s" and "life_games s' = life_games s"
  shows "attempts_clean s' = attempts_clean s"
  using assms by (simp add: attempts_clean_def waiting_def has_checkpoint_def no_moves_def)

lemma clean_update_games:
  assumes "attempts_clean s" and "\<And>r. game_id (f r) = game_id r"
    and "\<And>r. P r \<Longrightarrow> game_status (f r) \<in> {Game_Pending, Game_Assigned}
      \<Longrightarrow> game_status r \<in> {Game_Pending, Game_Assigned} \<or> has_checkpoint s (game_id r)"
  shows "attempts_clean (update_games P f s)"
  by (rule clean_kept [OF assms(1)], simp, simp, rule waiting_update [OF assms(2), where P = P])
    (use assms(3) in auto)

lemma clean_delete_row: "attempts_clean (delete_worker_row w s) = attempts_clean s"
  by (rule clean_frame) (simp_all add: delete_worker_row_def)

lemma clean_release: "attempts_clean s \<Longrightarrow> attempts_clean (release_worker_active_assignments now reason w s)"
  by (simp add: release_worker_active_assignments_def clean_reset_games)

lemma put_checkpoint_games: "checkpoint_game ` set rows \<subseteq> checkpoint_game ` set (put_checkpoint row rows)"
proof -
  have "map checkpoint_game (update_rows (\<lambda>c. checkpoint_game c = checkpoint_game row) (\<lambda>c. row) rows) = map checkpoint_game rows"
    by (simp add: update_rows_def)
  then have "checkpoint_game ` set (update_rows (\<lambda>c. checkpoint_game c = checkpoint_game row) (\<lambda>c. row) rows)
      = checkpoint_game ` set rows"
    by (metis set_map)
  then show ?thesis by (auto simp: put_checkpoint_def)
qed

lemma has_checkpoint_iff: "has_checkpoint s g \<longleftrightarrow> g \<in> checkpoint_game ` set (checkpoints s)"
  by (auto simp: has_checkpoint_def list_ex_iff)

lemma clean_pause:
  assumes "attempts_clean s" and "pause_game_assignment now s i k state = Inr s'"
  shows "attempts_clean s'"
proof -
  obtain row where a: "life_games s' = life_games s" "life_moves s' = life_moves s"
    "checkpoints s' = put_checkpoint row (checkpoints s)"
    using assms(2) by (auto simp: pause_game_assignment_def Let_def split: option.splits if_splits)
  have "has_checkpoint s g \<Longrightarrow> has_checkpoint s' g" for g
    unfolding has_checkpoint_iff a(3) using put_checkpoint_games by blast
  then show ?thesis using assms(1) a(1,2) by (auto simp: attempts_clean_def waiting_def no_moves_def)
qed

lemma clean_recorded:
  assumes "attempts_clean s" and "record_move s (Some i) (Some k) m = Inr s'"
    and "\<forall>r \<in> set (life_games s). game_id r = move_game m \<longrightarrow> game_status r = Game_Live \<or> has_checkpoint s (move_game m)"
  shows "attempts_clean s'"
proof -
  have s': "s' = s\<lparr>life_moves := life_moves s @ [m]\<rparr>"
    using assms(2) by (auto simp: record_move_def insert_move_def split: if_splits)
  have "has_checkpoint s' g \<or> no_moves s' g" if g: "g \<in> waiting s'" for g
  proof (cases "g = move_game m")
    case True
    then show ?thesis using assms(3) g by (auto simp: s' waiting_def has_checkpoint_def)
  next
    case False
    then show ?thesis using assms(1) g by (auto simp: s' waiting_def attempts_clean_def has_checkpoint_def no_moves_def)
  qed
  then show ?thesis by (simp add: attempts_clean_def)
qed

lemma clean_finished: "attempts_clean s \<Longrightarrow> attempts_clean (finish_game now g res termin pgn s)"
proof -
  assume clean: "attempts_clean s"
  let ?s = "finish_game now g res termin pgn s"
  have parts: "life_moves ?s = life_moves s" "checkpoints ?s = filter (\<lambda>c. checkpoint_game c \<noteq> g) (checkpoints s)"
    by (simp_all add: finish_game_def)
  have "h \<in> waiting s - {g}" if "h \<in> waiting ?s" for h
  proof -
    obtain r where r: "r \<in> set (life_games ?s)" "h = game_id r" "game_status r \<in> {Game_Pending, Game_Assigned}"
      using \<open>h \<in> waiting ?s\<close> by (auto simp: waiting_def)
    obtain r0 where "r0 \<in> set (life_games s)" "game_id r0 = game_id r" "game_id r0 \<noteq> g" "r0 = r"
      using r(1,3) by (auto simp: finish_game_def set_update_rows split: if_splits)
    then show ?thesis using r(2,3) by (auto simp: waiting_def)
  qed
  moreover have "has_checkpoint ?s h = has_checkpoint s h" if "h \<noteq> g" for h
    using that parts(2) by (auto simp: has_checkpoint_def list_ex_iff)
  ultimately show ?thesis using clean no_moves_cong [OF parts(1)] unfolding attempts_clean_def by blast
qed

lemma clean_replayed:
  assumes "attempts_clean s" and "replay_game s t g = Inr (s', b)"
  shows "attempts_clean s'"
proof -
  have parts: "life_moves s' = filter (\<lambda>m. move_game m \<noteq> g) (life_moves s)" "checkpoints s' = checkpoints s"
    "life_games s' = update_rows (\<lambda>r. game_id r = g) reset_row (life_games s)"
    using assms(2) by (auto simp: replay_game_def rbind_eq_Inr Let_def)
  have "waiting s' \<subseteq> waiting s \<union> {g}" by (rule waiting_update [OF _ _ parts(3)]) auto
  moreover have "no_moves s' g" "no_moves s h \<Longrightarrow> no_moves s' h" for h using parts(1) by (auto simp: no_moves_def)
  ultimately show ?thesis using assms(1) has_checkpoint_cong [OF parts(2)] by (auto simp: attempts_clean_def)
qed

lemma clean_abandoned: "attempts_clean s \<Longrightarrow> attempts_clean (abandon_tournament_games now t s)"
  unfolding abandon_tournament_games_def Let_def by (rule clean_update_games) auto

lemma clean_deleted_games: "attempts_clean s \<Longrightarrow> attempts_clean (delete_games ids s)"
  by (rule clean_reset [where X = "set ids"]) (auto simp: delete_games_def waiting_def)

lemma step_attempts_clean:
  assumes "life_step ks s s'" and "attempts_clean s"
  shows "attempts_clean s'"
  using assms
proof (cases rule: life_step.cases)
  case (scheduled r)
  then show ?thesis using assms(2) by (auto simp: attempts_clean_def waiting_def has_checkpoint_def no_moves_def)
next
  case (assigned now g k w a)
  from assigned(2) show ?thesis
  proof (cases rule: assign_cases)
    case (taken row)
    have "waiting s' \<subseteq> waiting s \<union> {}" by (rule waiting_update [OF _ _ taken(7)]) auto
    then show ?thesis by (intro clean_kept [OF assms(2) taken(9,10)]) blast
  qed (use assms(2) in simp)
next
  case (acknowledged now i k)
  then show ?thesis using assms(2) by (auto simp: acknowledge_game_assignment_def Let_def split: if_splits)
next
  case (started now i)
  then obtain g where "s' = mark_game_live now g (mark_game_assignment_live now i s)"
    by (auto simp: mark_worker_assignment_live_def rbind_eq_Inr)
  then show ?thesis using assms(2)
    by (auto simp: mark_game_live_def mark_game_assignment_live_def intro!: clean_update_games)
next
  case (paused_unstarted now i k)
  then show ?thesis using assms(2)
    by (auto simp: pause_unstarted_game_assignment_def Let_def intro!: clean_update_games split: option.splits)
next
  case (resumed t)
  then show ?thesis using assms(2)
    by (auto simp: resume_paused_tournament_games_def Let_def has_checkpoint_def intro!: clean_update_games)
next
  case (failed now i k reason)
  then show ?thesis using assms(2)
    by (auto simp: fail_game_assignment_def Let_def intro!: clean_reset_games split: option.splits)
next
  case (disconnected now w session reason)
  have "attempts_clean (r\<lparr>fixture_workers := fs, workers := ws\<rparr>) = attempts_clean r" for r fs ws
    by (rule clean_frame) simp_all
  then show ?thesis using disconnected clean_release [OF assms(2)]
    by (auto simp: disconnect_worker_def Let_def assms(2) split: option.splits)
next
  case (restored now t)
  have "attempts_clean (r\<lparr>life_tournaments := ts\<rparr>) = attempts_clean r" for r ts by (rule clean_frame) simp_all
  then show ?thesis using restored clean_reset_games [OF assms(2)]
    by (auto simp: restore_tournament_def rbind_eq_Inr Let_def)
next
  case (status_set now t st)
  have "attempts_clean (r\<lparr>life_tournaments := ts\<rparr>) = attempts_clean r" for r ts by (rule clean_frame) simp_all
  then show ?thesis using status_set assms(2) clean_abandoned by (auto simp: set_tournament_status_def Let_def)
next
  case (invalidated t g ids)
  then obtain c where s': "s' = delete_games ids (s\<lparr>life_chat := c\<rparr>)"
    by (auto simp: invalidate_game_pair_def rbind_eq_Inr Let_def)
  have "attempts_clean (s\<lparr>life_chat := c\<rparr>)" using assms(2) clean_frame [of "s\<lparr>life_chat := c\<rparr>" s] by simp
  then show ?thesis unfolding s' by (rule clean_deleted_games)
qed (auto simp: assms(2) finish_game_assignment_def revoke_worker_def delete_worker_def Let_def clean_delete_row
    intro: clean_recorded [OF assms(2)] clean_finished clean_pause [OF assms(2)] clean_release clean_reset_games
      clean_replayed [OF assms(2)])

lemma run_attempts_clean: "life_run ks s s' \<Longrightarrow> attempts_clean s \<Longrightarrow> attempts_clean s'"
  by (induction rule: life_run.induct) (auto intro: step_attempts_clean)

lemma new_attempts_clean: "new_lifecycle s \<Longrightarrow> attempts_clean s"
  by (simp add: new_lifecycle_def attempts_clean_def waiting_def)

lemma find_checkpoint: "get_game_pause_checkpoint s g \<noteq> None \<longleftrightarrow> has_checkpoint s g"
  unfolding get_game_pause_checkpoint_def has_checkpoint_def list_ex_iff by (auto simp: find_None_iff)

lemma find_only: "x \<in> set xs \<Longrightarrow> distinct (map f xs) \<Longrightarrow> List.find (\<lambda>y. f y = f x) xs = Some x"
  by (induction xs) (auto simp: rev_image_eqI)

lemma set_list_moves [simp]: "set (list_moves s g) = {m \<in> set (life_moves s). move_game m = g}"
  by (auto simp: list_moves_def)



subsection \<open>A lost worker\<close>

lemma reset_leaves:
  assumes "r \<in> set (life_games (reset_games_for_replay b reason now wanted s))" and "game_id r \<in> set wanted"
  shows "\<not> resettable b (game_status r) \<or> game_status r = Game_Pending \<and> game_result r = None
    \<and> no_moves (reset_games_for_replay b reason now wanted s) (game_id r)
    \<and> \<not> has_checkpoint (reset_games_for_replay b reason now wanted s) (game_id r)"
proof -
  obtain r0 where r0: "r0 \<in> set (life_games s)"
    "r = (if game_id r0 \<in> reset_ids b wanted s \<and> resettable b (game_status r0) then reset_row r0 else r0)"
    using assms(1) unfolding reset_tables(3) set_update_rows by auto
  have id: "game_id r = game_id r0" using r0(2) by simp
  have ids: "game_id r0 \<in> reset_ids b wanted s" if "resettable b (game_status r0)"
    using that r0(1) assms(2) id by (auto simp: reset_ids_def)
  show ?thesis
  proof (cases "resettable b (game_status r0)")
    case True
    then have "game_id r \<in> reset_ids b wanted s" "game_status r = Game_Pending" "game_result r = None"
      using ids id r0(2) by auto
    then show ?thesis by (auto simp: no_moves_def has_checkpoint_def reset_tables list_ex_iff)
  qed (use r0(2) in simp)
qed

lemma reset_keeps_others:
  "r \<in> set (life_games s) \<Longrightarrow> game_id r \<notin> set wanted \<Longrightarrow> r \<in> set (life_games (reset_games_for_replay b reason now wanted s))"
  unfolding reset_tables(3) set_update_rows by (force simp: reset_ids_def)

text \<open>
  When a connected worker is lost, no assignment of it remains active; each game it was
  playing that is not over is pending again, without result, moves or checkpoint; and the games
  of the other workers are as they were.
\<close>
theorem lost_worker_leaves_nothing:
  assumes "List.find (\<lambda>r. worker_id r = w) (workers s) = Some row" and "worker_status row \<noteq> Revoked"
    and "session_matches session row" and "disconnect_worker now w session reason s = (s', ts)"
  shows "(\<forall>a \<in> set (assignments s'). asg_worker a = Some w \<longrightarrow> \<not> active a)
    \<and> (\<forall>r \<in> set (life_games s'). game_id r \<in> set (active_worker_game_ids s w) \<longrightarrow>
         game_status r \<in> {Game_Finished, Game_Abandoned}
         \<or> game_status r = Game_Pending \<and> game_result r = None \<and> no_moves s' (game_id r) \<and> \<not> has_checkpoint s' (game_id r))
    \<and> (\<forall>r \<in> set (life_games s). game_id r \<notin> set (active_worker_game_ids s w) \<longrightarrow> r \<in> set (life_games s'))"
proof -
  let ?s1 = "update_assignments (\<lambda>a. asg_worker a = Some w \<and> active a) (abandon now reason) s"
  let ?s2 = "reset_games_for_replay False reason now (active_worker_game_ids s w) ?s1"
  have s': "assignments s' = assignments ?s2" "life_games s' = life_games ?s2" "life_moves s' = life_moves ?s2"
    "checkpoints s' = checkpoints ?s2"
    using assms by (auto simp: disconnect_worker_def release_worker_active_assignments_def Let_def)
  have "\<not> active a" if "a \<in> set (assignments s')" "asg_worker a = Some w" for a
    using that by (auto simp: s'(1) set_update_rows active_def abandon_def split: if_splits)
  moreover have "game_status r \<in> {Game_Finished, Game_Abandoned}
      \<or> game_status r = Game_Pending \<and> game_result r = None \<and> no_moves s' (game_id r) \<and> \<not> has_checkpoint s' (game_id r)"
    if r: "r \<in> set (life_games s')" "game_id r \<in> set (active_worker_game_ids s w)" for r
  proof -
    have "\<not> resettable False (game_status r) \<Longrightarrow> game_status r \<in> {Game_Finished, Game_Abandoned}"
      by (cases "game_status r") (simp_all add: resettable_def)
    then show ?thesis
      using reset_leaves [of r False reason now "active_worker_game_ids s w" ?s1] r no_moves_cong [OF s'(3)]
        has_checkpoint_cong [OF s'(4)] by (auto simp: s'(2))
  qed
  moreover have "r \<in> set (life_games s')" if "r \<in> set (life_games s)" "game_id r \<notin> set (active_worker_game_ids s w)" for r
    using that reset_keeps_others [of r ?s1] by (simp add: s'(2))
  ultimately show ?thesis by blast
qed

subsection \<open>A small life\<close>

type_synonym operation = "lifecycle \<Rightarrow> lifecycle result"

definition script :: "lifecycle \<Rightarrow> operation list \<Rightarrow> lifecycle result" where
  "script = fold_result (\<lambda>s f. f s)"

lemma script_run:
  assumes "script s fs = Inr s'" and "\<And>f t t'. f \<in> set fs \<Longrightarrow> f t = Inr t' \<Longrightarrow> \<exists>ks. life_step ks t t'"
  shows "\<exists>ks. life_run ks s s'"
  using assms(1) unfolding script_def
proof (rule fold_result_invariant)
  show "\<exists>ks. life_run ks s s" by (blast intro: life_run.begun)
  fix t f t' assume "\<exists>ks. life_run ks s t" "f \<in> set fs" "f t = Inr t'"
  then show "\<exists>ks. life_run ks s t'" using assms(2) by (blast intro: life_run.more)
qed

definition assigning :: "string \<Rightarrow> string \<Rightarrow> int \<Rightarrow> operation" where
  "assigning now key w s = rbind (assign_game_to_worker now s 1 key w) (\<lambda>(s', a). Inr s')"

definition recording :: "string \<Rightarrow> move_record \<Rightarrow> operation" where
  "recording key m s = rbind (guard (list_all (\<lambda>r. game_id r = move_game m \<longrightarrow> game_status r = Game_Live
     \<or> has_checkpoint s (move_game m)) (life_games s)) KeyError) (\<lambda>_. record_move s (Some 1) (Some key) m)"

definition opened_life :: lifecycle where
  "opened_life = \<lparr>life_tournaments = [], life_games = [], assignments = [], checkpoints = [], life_moves = [],
     progress_rows = [], workers = [\<lparr>worker_id = 7, worker_label = ''w'', worker_status = Busy,
       worker_session = Some ''s'', worker_seen = None\<rparr>], fixture_workers = [], hardware_scores = [], rating_commits = [], life_rated = [],
     life_chat = \<lparr>messages = [], events = [], next_message = 1\<rparr>, next_assignment = 1, next_progress = 1\<rparr>"

definition sample_row :: game_row where
  "sample_row = \<lparr>game_id = 1, game_tournament = 1, game_round = 1, game_pair = 1, white_engine = 1, black_engine = 2,
     game_match = None, game_number = 1, tiebreak = None, game_opening = None, game_status = Game_Pending,
     record_eligible = True, game_result = None, game_termination = None, game_pgn = None, game_started = None,
     game_ended = None\<rparr>"

definition sample_move :: "int \<Rightarrow> move_record" where
  "sample_move n = \<lparr>move_game = 1, move_ply = n, move_uci = ''e2e4'', move_san = ''e4'', move_is_book = False,
     move_eval_cp = None, move_eval_mate = None, move_score_bound = None, move_depth = None, move_seldepth = None,
     move_nodes = None, move_nps = None, move_hashfull = None, move_pv = None, move_info_line = None, move_time_ms = 5,
     move_clock_after_ms = 1000, move_engine_version = Some 1\<rparr>"

definition scheduling :: operation where
  "scheduling s = (if sample_row \<in> set (life_games s) \<or> game_id sample_row \<in> game_id ` set (life_games s)
     \<or> list_ex (\<lambda>m. move_game m = game_id sample_row) (life_moves s) then Inl KeyError
   else Inr (s\<lparr>life_games := life_games s @ [sample_row]\<rparr>))"

text \<open>Played for a move, paused, resumed and taken up again by the same worker.\<close>

definition twice_assigned :: "operation list" where
  "twice_assigned = [scheduling, assigning ''t1'' ''k1'' 7, \<lambda>s. acknowledge_game_assignment ''t2'' s 1 ''k1'',
     \<lambda>s. mark_worker_assignment_live ''t3'' s 1, recording ''k1'' (sample_move 1),
     \<lambda>s. pause_game_assignment ''t4'' s 1 ''k1'' ''{}'', \<lambda>s. Inr (fst (resume_paused_tournament_games 1 s)),
     assigning ''t5'' ''k2'' 7, \<lambda>s. mark_worker_assignment_live ''t6'' s 1, recording ''k2'' (sample_move 2)]"

lemma assigning_step: "assigning now key w s = Inr s' \<Longrightarrow> life_step [key] s s'"
  by (auto simp: assigning_def rbind_eq_Inr intro: life_step.assigned)

lemma recording_step: "recording key m s = Inr s' \<Longrightarrow> life_step [] s s'"
  by (auto simp: recording_def rbind_eq_Inr list_all_iff intro: life_step.recorded)

lemma scheduling_step: "scheduling s = Inr s' \<Longrightarrow> life_step [] s s'"
  by (auto simp: scheduling_def sample_row_def list_ex_iff split: if_splits intro!: life_step.scheduled)

lemma twice_assigned_step: "f \<in> set twice_assigned \<Longrightarrow> f t = Inr t' \<Longrightarrow> \<exists>ks. life_step ks t t'"
  by (auto simp: twice_assigned_def dest: assigning_step recording_step scheduling_step
      intro: life_step.acknowledged life_step.started life_step.paused life_step.resumed)

lemma opened_new: "new_lifecycle opened_life"
  by (simp add: opened_life_def new_lifecycle_def)

lemma twice_assigned_runs:
  assumes "script opened_life fs = Inr s" and "set fs \<subseteq> set twice_assigned"
  shows "\<exists>ks. life_run ks opened_life s"
  using script_run [OF assms(1)] twice_assigned_step assms(2) by blast

definition after :: "nat \<Rightarrow> lifecycle" where
  "after n = (case script opened_life (take n twice_assigned) of Inr s \<Rightarrow> s | Inl e \<Rightarrow> opened_life)"

lemma after_runs: "\<exists>ks. life_run ks opened_life (after n)"
proof (cases "script opened_life (take n twice_assigned)")
  case (Inr s)
  have "\<exists>ks. life_run ks opened_life s" by (rule twice_assigned_runs [OF Inr set_take_subset])
  then show ?thesis by (simp add: after_def Inr)
qed (auto simp: after_def intro: life_run.begun)

lemma after_values:
  "is_ok (record_move (after 5) (Some 1) (Some ''k1'') (sample_move 2))"
  "is_ok (record_move (after 5) (Some 1) (Some ''k1'') (sample_move 3))"
  "case assign_game_to_worker ''t5'' (after 7) 1 ''k2'' 7 of Inr (s', Some a) \<Rightarrow> True | _ \<Rightarrow> False"
  "list_ex (\<lambda>r. game_id r = 1 \<and> game_status r = Game_Live) (life_games (after 5))"
  "active_worker_game_ids (after 5) 7 = [1]"
  "workers (after 5) = workers opened_life"
  by code_simp+


lemma superseded_key_rejected_witness:
  "\<exists>s1 a. assign_game_to_worker ''t5'' (after 7) 1 ''k2'' 7 = Inr (s1, Some a)
     \<and> record_move s1 (Some 1) (Some ''k1'') (sample_move 2)
        = Inl (RuntimeError (''assignment '' @ int_str 1 @ '' is no longer active''))"
proof -
  obtain s1 a where a: "assign_game_to_worker ''t5'' (after 7) 1 ''k2'' 7 = Inr (s1, Some a)"
    using after_values(3) by (auto split: sum.splits option.splits)
  have "record_move s1 (Some 1) (Some ''k1'') (sample_move 2)
      = Inl (RuntimeError (''assignment '' @ int_str 1 @ '' is no longer active''))"
    by (rule superseded_key_rejected [OF a life_run.begun]) (simp_all add: sample_move_def)
  then show ?thesis using a by blast
qed


lemma lost_worker_leaves_nothing_witness:
  "\<exists>s' ts r. disconnect_worker ''t9'' 7 None ''gone'' (after 5) = (s', ts) \<and> r \<in> set (life_games s') \<and> game_id r = 1
     \<and> game_status r = Game_Pending \<and> no_moves s' 1"
proof -
  obtain s' ts where d: "disconnect_worker ''t9'' 7 None ''gone'' (after 5) = (s', ts)" by fastforce
  have w: "List.find (\<lambda>r. worker_id r = 7) (workers (after 5)) = Some (hd (workers opened_life))"
    "worker_status (hd (workers opened_life)) \<noteq> Revoked" "session_matches None (hd (workers opened_life))"
    by (simp_all add: after_values opened_life_def session_matches_def)
  have "list_ex (\<lambda>r. game_id r = 1 \<and> game_status r = Game_Pending)
      (life_games (fst (disconnect_worker ''t9'' 7 None ''gone'' (after 5))))" by code_simp
  then obtain r where r: "r \<in> set (life_games s')" "game_id r = 1" "game_status r = Game_Pending"
    using d by (auto simp: list_ex_iff)
  then show ?thesis using lost_worker_leaves_nothing [OF w d] d by (auto simp: after_values)
qed

subsection \<open>A checkpoint outlives the pause it was made for\<close>


end
