(* ===== verification/Dispatch_Bounds.thy ===== *)
theory Dispatch_Bounds
  imports Dispatch Game_Attempts
begin

text \<open>
  What handing out games guarantees: the games in progress stay within the tournament's
  concurrency, a fixture of an event stays with one worker, games leave their queue in order, and
  the games a worker holds never need more threads or memory than it has.
\<close>

subsection \<open>One tournament\<close>

text \<open>A refusal changes no more than fixture claims and round counters.\<close>

definition same_games :: "dispatch \<Rightarrow> dispatch \<Rightarrow> bool" where
  "same_games s s' = (s'\<lparr>life := (life s')\<lparr>fixture_workers := fixture_workers (life s)\<rparr>, current_rounds := current_rounds s\<rparr> = s)"

lemma same_games_refl [simp]: "same_games s s"
  by (simp add: same_games_def)

lemma same_games_tables:
  assumes "same_games s s'"
  shows "life_games (life s') = life_games (life s)" "life_tournaments (life s') = life_tournaments (life s)"
    "assignments (life s') = assignments (life s)" "event_data s' = event_data s" "engine_versions s' = engine_versions s"
    "discoveries s' = discoveries s" "pinned_engines s' = pinned_engines s" "event_permissions s' = event_permissions s"
    "tournament_permissions s' = tournament_permissions s"
proof -
  let ?s = "s'\<lparr>life := (life s')\<lparr>fixture_workers := fixture_workers (life s)\<rparr>, current_rounds := current_rounds s\<rparr>"
  have eq: "s = ?s" using assms by (simp add: same_games_def)
  show "life_games (life s') = life_games (life s)" by (subst eq) simp
  show "life_tournaments (life s') = life_tournaments (life s)" by (subst eq) simp
  show "assignments (life s') = assignments (life s)" by (subst eq) simp
  show "event_data s' = event_data s" by (subst eq) simp
  show "engine_versions s' = engine_versions s" by (subst eq) simp
  show "discoveries s' = discoveries s" by (subst eq) simp
  show "pinned_engines s' = pinned_engines s" by (subst eq) simp
  show "event_permissions s' = event_permissions s" by (subst eq) simp
  show "tournament_permissions s' = tournament_permissions s" by (subst eq) simp
qed

lemma same_games_trans: "same_games s s' \<Longrightarrow> same_games s' s'' \<Longrightarrow> same_games s s''"
  by (cases s; cases s'; cases s''; cases "life s"; cases "life s'"; cases "life s''") (simp add: same_games_def)

lemma same_games_updates [simp]:
  "same_games s (s\<lparr>life := (life s)\<lparr>fixture_workers := f\<rparr>\<rparr>)"
  "same_games s (set_tournament_current_round_at_least s t r)"
  by (simp_all add: same_games_def set_tournament_current_round_at_least_def)

lemma claim_same_games: "claim_event_fixture_worker s t w = (s', c) \<Longrightarrow> same_games s s'"
  by (auto simp: claim_event_fixture_worker_def Let_def)

lemma release_same_games: "same_games s (release_event_fixture_worker s t w)"
  by (simp add: release_event_fixture_worker_def)

lemma life_update [simp]: "s\<lparr>life := life s\<rparr> = s"
  by simp

lemma assign_none: "assign_game_to_worker now l g key w = Inr (l', None) \<Longrightarrow> l' = l"
  by (auto simp: assign_game_to_worker_def Let_def rbind_eq_Inr split: if_splits)

text \<open>What an assignment has written.\<close>

definition assigned_to :: "string \<Rightarrow> lifecycle \<Rightarrow> game_row \<Rightarrow> string \<Rightarrow> int \<Rightarrow> lifecycle \<Rightarrow> assignment_record \<Rightarrow> bool" where
  "assigned_to now l g key w l' a = (life_games l' = update_rows (\<lambda>r. game_id r = game_id g \<and> game_status r = Game_Pending)
       (\<lambda>r. r\<lparr>game_status := Game_Assigned\<rparr>) (life_games l)
     \<and> life_tournaments l' = life_tournaments l \<and> fixture_workers l' = fixture_workers l
     \<and> get_game_assignment_for_game l' (game_id g) = Some a \<and> (\<exists>i. a = fresh_assignment i (game_id g) key w now))"

lemma assign_some:
  assumes "assign_game_to_worker now l (game_id g) key w = Inr (l', Some a)"
  shows "assigned_to now l g key w l' a"
proof -
  let ?l1 = "update_games (\<lambda>r. game_id r = game_id g \<and> game_status r = Game_Pending) (\<lambda>r. r\<lparr>game_status := Game_Assigned\<rparr>) l"
  have l': "l' = (if list_ex (\<lambda>a. asg_game a = game_id g) (assignments ?l1)
      then update_assignments (\<lambda>a. asg_game a = game_id g) (\<lambda>a. fresh_assignment (asg_id a) (game_id g) key w now) ?l1
      else ?l1\<lparr>assignments := assignments ?l1 @ [fresh_assignment (next_assignment ?l1) (game_id g) key w now],
        next_assignment := next_assignment ?l1 + 1\<rparr>)" and a: "get_game_assignment_for_game l' (game_id g) = Some a"
    using assms by (auto simp: assign_game_to_worker_def Let_def rbind_eq_Inr split: if_splits)
  have "a \<in> set (assignments l')" "asg_game a = game_id g"
    using find_Some_iff_in [OF a [unfolded get_game_assignment_for_game_def]] by simp_all
  then have "\<exists>i. a = fresh_assignment i (game_id g) key w now"
    unfolding l' by (auto simp: update_assignments_def update_rows_def list_ex_iff split: if_splits)
  then show ?thesis
    using a unfolding assigned_to_def l' by (auto simp: update_games_def update_assignments_def)
qed

lemma hand_out_cases:
  assumes "hand_out now key s w t g claim engines required reference = Inr (s', r)"
  obtains (refused) "r = None" "same_games s s'"
  | (handed) a s1 where "r = Some a" "same_games s s1" "assigned_to now (life s1) g key (dw_id w) (life s') (wa_record a)"
    "claim \<Longrightarrow> event_fixture_worker (life s') (tour_id t) = Some (dw_id w)"
    "\<not> claim \<Longrightarrow> fixture_workers (life s') = fixture_workers (life s)"
    "wa_game a = g" "wa_engines a = engines" "wa_resources a = required"
proof -
  obtain s1 claimed where c: "(if claim then claim_event_fixture_worker s (tour_id t) (dw_id w) else (s, False)) = (s1, claimed)"
    by fastforce
  have q: "same_games s s1" using c claim_same_games by (auto split: if_splits)
  let ?s2 = "set_tournament_current_round_at_least s1 (tour_id t) (game_round g)"
  have q2: "same_games s ?s2" by (rule same_games_trans [OF q]) simp
  show thesis
  proof (cases "claim \<and> \<not> claimed")
    case True
    then show ?thesis using refused assms c q by (simp add: hand_out_def)
  next
    case False
    then obtain l a where l: "assign_game_to_worker now (life ?s2) (game_id g) key (dw_id w) = Inr (l, a)"
      using assms c by (auto simp: hand_out_def rbind_eq_Inr Let_def)
    show ?thesis
    proof (cases a)
      case None
      then have "l = life ?s2" using assign_none l by blast
      then have "?s2\<lparr>life := l\<rparr> = ?s2" by simp
      then show ?thesis using refused assms c False l None same_games_trans [OF q2 release_same_games] q2
        by (auto simp: hand_out_def Let_def split: if_splits)
    next
      case (Some b)
      then have at: "assigned_to now (life ?s2) g key (dw_id w) l b" using assign_some l by blast
      obtain wa where wa: "worker_assignment_payload (?s2\<lparr>life := l\<rparr>) t g b engines required reference = Inr wa"
        "s' = ?s2\<lparr>life := l\<rparr>" "r = Some wa"
        using assms c False l Some by (auto simp: hand_out_def Let_def rbind_eq_Inr)
      have p: "wa_record wa = b" "wa_game wa = g" "wa_engines wa = engines" "wa_resources wa = required"
        using wa(1) by (auto simp: worker_assignment_payload_def rbind_eq_Inr)
      have f: "fixture_workers (life s') = fixture_workers (life s1)"
        using at wa(2) by (simp add: assigned_to_def set_tournament_current_round_at_least_def)
      have "claim \<Longrightarrow> event_fixture_worker (life s') (tour_id t) = Some (dw_id w)"
        using c False f by (auto simp: claim_event_fixture_worker_def Let_def event_fixture_worker_def)
      moreover have "\<not> claim \<Longrightarrow> fixture_workers (life s') = fixture_workers (life s)"
        using c f by simp
      ultimately show ?thesis using handed wa at p q2 by auto
    qed
  qed
qed

subsection \<open>Resources of a game and of its event\<close>

text \<open>
  A puzzle gauntlet plays no relay and pairs its active entries; the settings of a tournament are
  those its configuration accepts, and those of a kibitzer the ones its table accepts.
\<close>

definition dispatch_ok :: "dispatch \<Rightarrow> bool" where
  "dispatch_ok s = ((\<forall>t \<in> set (life_tournaments (life s)). 0 < engine_threads (tour_config t) \<and> 0 < engine_hash_mb (tour_config t)
       \<and> (let ids = puzzle_gauntlet_engine_ids_for_tournament (event_data s) (tour_id t) in ids = []
         \<or> get_fixture_for_tournament (event_data s) (tour_id t) = None
           \<and> list_all (\<lambda>g. game_tournament g = tour_id t \<and> game_status g = Game_Pending
               \<longrightarrow> white_engine g \<in> set ids \<and> black_engine g \<in> set ids) (life_games (life s))))
     \<and> list_all (\<lambda>f. optional ((<) 0) (kibitzer_threads f) \<and> optional ((<) 0) (kibitzer_hash_mb f)) (relay_fixtures (event_data s))
     \<and> distinct (map game_id (life_games (life s))))"

lemma sum_list_filtered:
  "(\<And>x. 0 \<le> f x) \<Longrightarrow> sum_list (map f (concat (map F (filter P xs)))) \<le> sum_list (map f (concat (map F xs)))" for f :: "'a \<Rightarrow> int"
proof (induction xs)
  case (Cons x xs)
  have "0 \<le> sum_list (map f (F x))" by (rule sum_list_nonneg) (use Cons.prems in auto)
  then show ?case using Cons by (simp add: add_increasing)
qed simp

lemma Max_mono_list: "xs \<noteq> [] \<Longrightarrow> set xs \<subseteq> set ys \<Longrightarrow> Max (set xs) \<le> Max (set ys)" for xs :: "int list"
  by (intro Max_mono) auto

lemma fold_max_mono: "set xs \<subseteq> set ys \<Longrightarrow> fold max xs z \<le> fold max ys z" for xs :: "int list"
proof -
  assume "set xs \<subseteq> set ys"
  then have "Max (set (z # xs)) \<le> Max (set (z # ys))" by (intro Max_mono) auto
  then show ?thesis by (simp only: Max.set_eq_fold)
qed

definition team_resources :: "event_tables \<Rightarrow> relay_fixture \<Rightarrow> fixture_team \<Rightarrow> (int \<times> int) list" where
  "team_resources E f r = map (\<lambda>m. (member_threads m, member_hash_mb m)) (team_members E (fixture_event f) (ft_team r))"

lemma relay_resources_eq:
  assumes "get_fixture_for_tournament E t = Some f"
  shows "relay_resources_for_tournament E t sel = (let
       rs = concat (map (team_resources E f) (filter (\<lambda>r. case sel of None \<Rightarrow> True | Some anchors \<Rightarrow> ft_anchor r \<in> set anchors) (fixture_teams E f)))
     in (if kibitzer_engine f \<noteq> None
         then rs @ [(fold max (map fst rs) 0 + or_default (kibitzer_threads f) 1, or_default (kibitzer_hash_mb f) 256)] else rs))"
  using assms by (simp add: relay_resources_for_tournament_def team_resources_def [abs_def] Let_def)

lemma relay_required_le:
  assumes "get_fixture_for_tournament E (tour_id t) = Some f" and "relay_resources_for_tournament E (tour_id t) (Some anchors) \<noteq> []"
  shows "can_run (tournament_required_resources E t n None) (tournament_required_resources E t m (Some anchors))"
proof -
  let ?all = "relay_resources_for_tournament E (tour_id t) None" and ?some = "relay_resources_for_tournament E (tour_id t) (Some anchors)"
  let ?rs = "\<lambda>P. concat (map (team_resources E f) (filter P (fixture_teams E f)))" and ?P = "\<lambda>r. ft_anchor r \<in> set anchors"
  let ?mb = "\<lambda>(n :: int, h). h + engine_process_memory_overhead_mb"
  have sub: "set (?rs ?P) \<subseteq> set (?rs (\<lambda>r. True))" by auto
  have "sum_list (map (\<lambda>x. max 0 (?mb x)) (?rs ?P)) \<le> sum_list (map (\<lambda>x. max 0 (?mb x)) (?rs (\<lambda>r. True)))"
    using sum_list_filtered [of "\<lambda>x. max 0 (?mb x)" "team_resources E f" ?P "fixture_teams E f"] by simp
  moreover have "map (\<lambda>x. max 0 (?mb x)) (?rs P) = map ?mb (?rs P)" for P
    by (intro map_cong refl) (auto simp: team_resources_def member_hash_mb_def engine_process_memory_overhead_mb_def)
  ultimately have mb: "sum_list (map ?mb (?rs ?P)) \<le> sum_list (map ?mb (?rs (\<lambda>r. True)))" by (simp only:)
  have top: "fold max (map fst (?rs ?P)) 0 \<le> fold max (map fst (?rs (\<lambda>r. True))) 0"
    using sub by (intro fold_max_mono) auto
  note eqs = relay_resources_eq [OF assms(1)]
  have "?all \<noteq> []" using assms(2) sub by (auto simp: eqs Let_def)
  moreover have "sum_list (map ?mb ?some) \<le> sum_list (map ?mb ?all)"
    using mb by (simp add: eqs Let_def)
  moreover have "Max (set (map fst ?some)) \<le> Max (set (map fst ?all))"
  proof (cases "kibitzer_engine f")
    case None
    then show ?thesis using sub assms(2) by (intro Max_mono_list) (auto simp: eqs Let_def)
  next
    case (Some k)
    let ?k = "or_default (kibitzer_threads f) 1"
    have "x \<le> Max (set (map fst ?all))" if "x \<in> set (map fst ?some)" for x
    proof (cases "x = fold max (map fst (?rs ?P)) 0 + ?k")
      case True
      have "fold max (map fst (?rs (\<lambda>r. True))) 0 + ?k \<le> Max (set (map fst ?all))"
        using Some by (intro Max_ge) (auto simp: eqs Let_def)
      then show ?thesis using True top by linarith
    next
      case False
      then show ?thesis using that Some sub by (intro Max_ge) (auto simp: eqs Let_def)
    qed
    then show ?thesis using assms(2) by (intro Max.boundedI) auto
  qed
  ultimately show ?thesis
    using assms(2) by (simp add: tournament_required_resources_def can_run_def Let_def)
qed

lemma relay_game_resources:
  assumes f: "get_fixture_for_tournament E (game_tournament g) = Some f" and r: "relay_assignment_for_game E g = Inr r"
  shows "relay_resources_for_tournament E (game_tournament g) (Some [white_engine g, black_engine g]) \<noteq> []"
proof -
  obtain team wt where team: "team_by_anchor E f (white_engine g) = Some team" "team_assignment E (fixture_event f) team = Inr wt"
    using f r by (auto simp: relay_assignment_for_game_def rbind_eq_Inr split: option.splits)
  obtain row where row: "row \<in> set (fixture_teams E f)" "ft_anchor row = white_engine g" "ft_team row = cast_id team"
    using team(1) by (auto simp: team_by_anchor_def split: option.splits dest!: map_of_SomeD find_Some_iff_in)
  have "team_members E (fixture_event f) (cast_id team) \<noteq> []"
  proof
    assume "team_members E (fixture_event f) (cast_id team) = []"
    then have "playing_members (team_members E (fixture_event f) (cast_id team)) = []" by (simp add: playing_members_def)
    then show False using team(2) by (auto simp: team_assignment_def check_relay_team_def rbind_eq_Inr checked_simps)
  qed
  then have "team_resources E f row \<noteq> []" using row(3) by (simp add: team_resources_def)
  then show ?thesis using row(1,2) by (auto simp: relay_resources_eq [OF f] Let_def)
qed

lemma relay_resources_positive:
  assumes "dispatch_ok s" and "x \<in> set (relay_resources_for_tournament (event_data s) t sel)"
  shows "1 \<le> fst x \<and> 1 \<le> snd x"
proof (cases "get_fixture_for_tournament (event_data s) t")
  case None
  then show ?thesis using assms(2) by (simp add: relay_resources_for_tournament_def)
next
  case (Some f)
  then have "f \<in> set (relay_fixtures (event_data s))" using find_Some_iff_in unfolding get_fixture_for_tournament_def by fastforce
  then have "optional ((<) 0) (kibitzer_threads f)" "optional ((<) 0) (kibitzer_hash_mb f)"
    using assms(1) by (simp_all add: dispatch_ok_def list_all_iff)
  then have "1 \<le> or_default (kibitzer_threads f) 1" "1 \<le> or_default (kibitzer_hash_mb f) 256"
    by (auto simp: or_default_def optional_def split: option.splits)
  moreover have "0 \<le> fold max xs (0 :: int)" for xs using fold_max_mono [of "[]" xs 0] by simp
  ultimately show ?thesis using assms(2)
    by (fastforce simp: relay_resources_eq [OF Some] Let_def team_resources_def member_threads_def member_hash_mb_def
        split: if_splits intro: add_increasing)
qed

lemma required_nonneg:
  assumes "dispatch_ok s" and "t \<in> set (life_tournaments (life s))"
  shows "0 \<le> res_threads (tournament_required_resources (event_data s) t n sel)"
    and "0 \<le> res_hash_mb (tournament_required_resources (event_data s) t n sel)"
proof -
  let ?R = "relay_resources_for_tournament (event_data s) (tour_id t) sel"
  note pos = relay_resources_positive [OF assms(1), of _ "tour_id t" sel]
  have "0 < engine_threads (tour_config t)" "0 < engine_hash_mb (tour_config t)"
    using assms by (auto simp: dispatch_ok_def)
  moreover have "0 \<le> Max (set (map fst ?R))" if "?R \<noteq> []"
  proof -
    have "0 \<le> fst (hd ?R)" using that pos [of "hd ?R"] by simp
    also have "\<dots> \<le> Max (set (map fst ?R))" using that by (intro Max_ge) auto
    finally show ?thesis .
  qed
  moreover have "0 \<le> sum_list (map (\<lambda>(n, h). h + engine_process_memory_overhead_mb) ?R)"
    using pos by (intro sum_list_nonneg) (fastforce simp: engine_process_memory_overhead_mb_def)
  ultimately show "0 \<le> res_threads (tournament_required_resources (event_data s) t n sel)"
    "0 \<le> res_hash_mb (tournament_required_resources (event_data s) t n sel)"
    by (simp_all add: tournament_required_resources_def Let_def engine_process_memory_overhead_mb_def)
qed

lemma engines_length:
  assumes "assignment_engines s g preload = Inr es" and "relay_engine_ids_for_game (event_data s) g = Inr relay"
  shows "length es = card (set (white_engine g # black_engine g # relay
    @ (if preload then relay_engine_ids_for_tournament (event_data s) (game_tournament g)
         @ puzzle_gauntlet_engine_ids_for_tournament (event_data s) (game_tournament g) else [])))"
  (is "_ = card (set ?ids)")
proof -
  note es = assms(1) [unfolded assignment_engines_def assms(2) rbind_Inr]
  show ?thesis using map_result_length [OF es] by (simp only: length_remdups_card_conv)
qed

lemma engines_relay:
  assumes "assignment_engines s g preload = Inr es"
  obtains relay where "relay_engine_ids_for_game (event_data s) g = Inr relay"
  using assms by (auto simp: assignment_engines_def rbind_eq_Inr)

lemma preloaded_more:
  assumes "assignment_engines s g False = Inr runtime" and "assignment_engines s g True = Inr es"
  shows "length runtime \<le> length es"
proof -
  obtain relay where relay: "relay_engine_ids_for_game (event_data s) g = Inr relay" by (rule engines_relay [OF assms(1)])
  show ?thesis
    unfolding engines_length [OF assms(1) relay] engines_length [OF assms(2) relay] by (intro card_mono) auto
qed

lemma suits_required:
  assumes ok: "dispatch_ok s" and t: "t \<in> set (life_tournaments (life s))"
    and g: "g \<in> set (life_games (life s))" "game_tournament g = tour_id t" "game_status g = Game_Pending"
    and runtime: "assignment_engines s g False = Inr runtime"
    and compatible: "event \<Longrightarrow> assignment_engines s g True = Inr compatible"
    and required: "required = tournament_required_resources (event_data s) t (int (length runtime)) (Some [white_engine g, black_engine g])"
    and suits: "suits_worker s w t free ex event compatible required"
  shows "res_threads required \<le> fst free \<and> res_hash_mb required \<le> snd free"
proof (cases event)
  case False
  then show ?thesis using suits by (simp add: suits_worker_def Let_def)
next
  case True
  let ?ids = "puzzle_gauntlet_engine_ids_for_tournament (event_data s) (tour_id t)"
  have "can_run (event_preload_required_resources (event_data s) t (int (length compatible))) required"
  proof (cases "?ids = []")
    case plain: True
    have more: "int (length runtime) \<le> int (length compatible)" using preloaded_more [OF runtime compatible [OF True]] by simp
    have pos: "0 < engine_hash_mb (tour_config t)" using ok t by (auto simp: dispatch_ok_def)
    have "can_run (tournament_required_resources (event_data s) t (int (length compatible)) None) required"
    proof (cases "get_fixture_for_tournament (event_data s) (tour_id t)")
      case None
      then have "relay_resources_for_tournament (event_data s) (tour_id t) sel = []" for sel
        by (simp add: relay_resources_for_tournament_def)
      then show ?thesis using more pos
        by (auto simp: required tournament_required_resources_def can_run_def engine_process_memory_overhead_mb_def intro!: mult_left_mono)
    next
      case (Some f)
      obtain relay where "relay_assignment_for_game (event_data s) g = Inr relay"
        using engines_relay [OF runtime] by (auto simp: relay_engine_ids_for_game_def rbind_eq_Inr)
      from relay_game_resources [OF _ this] Some show ?thesis
        unfolding required by (intro relay_required_le) (simp_all add: g(2))
    qed
    then show ?thesis using plain by (simp add: event_preload_required_resources_def)
  next
    case gauntlet: False
    then have no: "get_fixture_for_tournament (event_data s) (tour_id t) = None"
      and players: "white_engine g \<in> set ?ids" "black_engine g \<in> set ?ids"
      and pos: "0 < engine_threads (tour_config t)" "0 < engine_hash_mb (tour_config t)"
      using ok t g by (auto simp: dispatch_ok_def Let_def list_all_iff)
    have relay: "relay_engine_ids_for_game (event_data s) g = Inr []"
      using no g(2) by (simp add: relay_engine_ids_for_game_def relay_assignment_for_game_def)
    have "length runtime = card {white_engine g, black_engine g}" using engines_length [OF runtime relay] by simp
    also have "\<dots> \<le> card (set ?ids)" using players by (intro card_mono) auto
    finally have le: "int (length runtime) \<le> int (card (set ?ids))" by simp
    have one: "1 \<le> int (card (set ?ids))" using gauntlet by (simp add: Suc_le_eq card_gt_0_iff)
    have "relay_resources_for_tournament (event_data s) (tour_id t) sel = []" for sel
      using no by (simp add: relay_resources_for_tournament_def)
    then show ?thesis using gauntlet le one pos
      by (auto simp: required event_preload_required_resources_def tournament_required_resources_def can_run_def Let_def
          engine_process_memory_overhead_mb_def intro!: mult_left_mono)
  qed
  then show ?thesis using suits True by (auto simp: suits_worker_def Let_def can_run_def)
qed

subsection \<open>The next assignment\<close>

definition handed_out :: "string \<Rightarrow> (int \<Rightarrow> string) \<Rightarrow> dispatch_worker \<Rightarrow> int \<times> int \<Rightarrow> int list \<Rightarrow> int list
    \<Rightarrow> dispatch \<Rightarrow> tournament_record \<Rightarrow> worker_assignment \<Rightarrow> dispatch \<Rightarrow> bool" where
  "handed_out now keys w free exE exG s t a s' = (
     t \<in> set (life_tournaments (life s)) \<and> tour_status t \<in> {Running, Scheduled}
     \<and> int (active_game_count (life s) (tour_id t)) < concurrency (tour_config t)
     \<and> next_playable_game_for_worker s (tour_id t) (dw_id w) exE exG = Some (wa_game a)
     \<and> res_threads (wa_resources a) \<le> fst free \<and> res_hash_mb (wa_resources a) \<le> snd free
     \<and> 0 \<le> res_threads (wa_resources a) \<and> 0 \<le> res_hash_mb (wa_resources a)
     \<and> life_games (life s') = update_rows (\<lambda>r. game_id r = game_id (wa_game a) \<and> game_status r = Game_Pending)
         (\<lambda>r. r\<lparr>game_status := Game_Assigned\<rparr>) (life_games (life s))
     \<and> (\<exists>i. wa_record a = fresh_assignment i (game_id (wa_game a)) (keys (tour_id t)) (dw_id w) now)
     \<and> get_game_assignment_for_game (life s') (game_id (wa_game a)) = Some (wa_record a))"

lemma next_playable:
  assumes "next_playable_game_for_worker s t w exE exG = Some g"
  shows "g \<in> set (life_games (life s))" "playable_for_worker s t w exE exG g"
    "h \<in> set (life_games (life s)) \<Longrightarrow> playable_for_worker s t w exE exG h \<Longrightarrow> queue_key g \<le> queue_key h"
proof -
  let ?gs = "filter (playable_for_worker s t w exE exG) (life_games (life s))"
  obtain gs where gs: "sort_key queue_key ?gs = g # gs"
    using assms by (auto simp: next_playable_game_for_worker_def split: list.splits)
  then have "set ?gs = set (g # gs)" by (metis set_sort)
  moreover have "sorted (map queue_key (g # gs))" using sorted_sort_key [of queue_key ?gs] unfolding gs .
  ultimately show "g \<in> set (life_games (life s))" "playable_for_worker s t w exE exG g"
    "h \<in> set (life_games (life s)) \<Longrightarrow> playable_for_worker s t w exE exG h \<Longrightarrow> queue_key g \<le> queue_key h"
    by (auto simp: set_eq_iff)
qed

lemma next_tournament_cases:
  assumes "next_tournament_worker_assignment now keys w free exE exG claim preload s t = Inr (s', r)"
    and "dispatch_ok s" and t: "t \<in> set (life_tournaments (life s))"
  obtains (refused) "r = None" "same_games s s'"
  | (handed) a where "r = Some a" "handed_out now keys w free exE exG s t a s'"
    "claim \<Longrightarrow> event_fixture_worker (life s') (tour_id t) = Some (dw_id w)"
    "\<not> claim \<Longrightarrow> fixture_workers (life s') = fixture_workers (life s)"
proof (cases "r = None \<and> same_games s s'")
  case True
  then show ?thesis using refused by blast
next
  case False
  obtain g where g: "next_playable_game_for_worker s (tour_id t) (dw_id w) exE exG = Some g"
    and status: "tour_status t \<in> {Running, Scheduled}" "int (active_game_count (life s) (tour_id t)) < concurrency (tour_config t)"
    using assms(1) False by (auto simp: next_tournament_worker_assignment_def split: if_splits option.splits)
  let ?rq = "\<lambda>runtime. tournament_required_resources (event_data s) t (int (length runtime)) (Some [white_engine g, black_engine g])"
  have hw: "dw_hardware w \<noteq> None"
    using assms(1) False by (auto simp: next_tournament_worker_assignment_def split: if_splits)
  have "\<not> (tour_status t \<notin> {Running, Scheduled} \<or> concurrency (tour_config t) \<le> int (active_game_count (life s) (tour_id t))
      \<or> dw_hardware w = None)" using status hw by auto
  note chain = assms(1) [unfolded next_tournament_worker_assignment_def Let_def if_not_P [OF this] g option.case]
  obtain runtime where runtime: "assignment_engines s g False = Inr runtime"
    using chain by (cases "assignment_engines s g False") simp_all
  obtain engines where engines: "(if preload then assignment_engines s g True else Inr runtime) = Inr engines"
    using chain runtime by (cases "if preload then assignment_engines s g True else Inr runtime") simp_all
  obtain compatible where compatible: "(if claim \<and> \<not> preload then assignment_engines s g True else Inr engines) = Inr compatible"
    using chain runtime engines
    by (cases "if claim \<and> \<not> preload then assignment_engines s g True else Inr engines") simp_all
  define required where "required = ?rq runtime"
  obtain reference where suits: "suits_worker s w t free exE (claim \<or> preload) compatible required"
    and out: "hand_out now (keys (tour_id t)) s w t g claim engines required reference = Inr (s', r)"
    using chain runtime engines compatible False by (auto simp: required_def split: if_splits)
  have game: "g \<in> set (life_games (life s))" "game_tournament g = tour_id t" "game_status g = Game_Pending"
    using next_playable(1,2) [OF g] by (simp_all add: playable_for_worker_def)
  have "claim \<or> preload \<Longrightarrow> assignment_engines s g True = Inr compatible"
    using engines compatible by (cases preload) auto
  from suits_required [OF assms(2) t game runtime this required_def suits] have room:
    "res_threads required \<le> fst free" "res_hash_mb required \<le> snd free" by simp_all
  show ?thesis using out
  proof (cases rule: hand_out_cases)
    case refused
    then show ?thesis using False by blast
  next
    case (handed a s1)
    then have "handed_out now keys w free exE exG s t a s'"
      using t status g room required_nonneg [OF assms(2) t] same_games_tables [OF handed(2)] unfolding required_def by (auto simp: handed_out_def assigned_to_def)
    then show ?thesis using that(2) handed by blast
  qed
qed

lemma handed_out_same:
  assumes "same_games s s1" and "handed_out now keys w free exE exG s1 t a s'"
  shows "handed_out now keys w free exE exG s t a s'"
  using assms(2) same_games_tables [OF assms(1)]
  by (simp add: handed_out_def next_playable_game_for_worker_def playable_for_worker_def [abs_def] lacks_local_engine_def active_game_count_def)

lemma dispatch_ok_same: "same_games s s1 \<Longrightarrow> dispatch_ok s \<Longrightarrow> dispatch_ok s1"
  by (simp add: dispatch_ok_def same_games_tables)

lemma first_assignment_cases:
  assumes "first_assignment f xs s0 = Inr (s', r)" and "same_games s s0"
    and "\<And>x s1 s2 r. x \<in> set xs \<Longrightarrow> same_games s s1 \<Longrightarrow> f x s1 = Inr (s2, r)
      \<Longrightarrow> (r = None \<and> same_games s s2) \<or> (\<exists>a. r = Some a \<and> P a s2)"
  shows "(r = None \<and> same_games s s') \<or> (\<exists>a. r = Some a \<and> P a s')"
  using assms
proof (induction xs arbitrary: s0)
  case (Cons x xs)
  obtain s1 r1 where x: "f x s0 = Inr (s1, r1)" using Cons.prems(1) by (auto simp: rbind_eq_Inr)
  note step = Cons.prems(3) [OF list.set_intros(1) Cons.prems(2) x]
  show ?case
  proof (cases r1)
    case None
    then have "first_assignment f xs s1 = Inr (s', r)" "same_games s s1" using Cons.prems(1) x step by auto
    then show ?thesis by (rule Cons.IH) (rule Cons.prems(3) [OF list.set_intros(2)])
  next
    case (Some a)
    then show ?thesis using Cons.prems(1) x step by auto
  qed
qed simp

text \<open>An event's fixture that some worker may claim: others leave it alone.\<close>

definition reserved_fixture :: "dispatch \<Rightarrow> int \<Rightarrow> bool" where
  "reserved_fixture s t = list_ex (\<lambda>(u, e, position, i). u = t
     \<and> (e \<in> snd ` set (event_permissions s) \<or> t \<in> snd ` set (tournament_permissions s))) (event_fixtures (event_data s))"

definition may_take :: "dispatch \<Rightarrow> dispatch_worker \<Rightarrow> int \<Rightarrow> dispatch \<Rightarrow> bool" where
  "may_take s w t s' = (event_fixture_worker (life s') t = Some (dw_id w)
     \<or> event_fixture_worker (life s') t = None \<and> \<not> reserved_fixture s t
       \<and> (dw_all_tournaments w \<or> (dw_id w, t) \<in> set (tournament_permissions s)))"

lemma list_ex_mono: "list_ex P xs \<Longrightarrow> (\<And>x. P x \<Longrightarrow> Q x) \<Longrightarrow> list_ex Q xs"
  by (auto simp: list_ex_iff)

lemma life_tournament_in: "life_tournament l i = Some t \<Longrightarrow> t \<in> set (life_tournaments l) \<and> tour_id t = i"
  using find_Some_iff_in unfolding life_tournament_def by fastforce

lemma open_may_take:
  assumes "same_games s s1" and "open_to_worker s1 w t" and "fixture_workers (life s2) = fixture_workers (life s1)"
  shows "may_take s w (tour_id t) s2"
proof -
  have "reserved_fixture s (tour_id t) \<Longrightarrow> event_fixture_has_worker_permissions s1 (tour_id t)"
    unfolding reserved_fixture_def event_fixture_has_worker_permissions_def same_games_tables [OF assms(1)]
    by (erule list_ex_mono) auto
  then show ?thesis
    using assms(2,3) same_games_tables [OF assms(1)]
    by (auto simp: may_take_def open_to_worker_def event_fixture_worker_def split: option.splits)
qed

lemma worker_fixture:
  assumes "get_worker_event_fixture (life s) w = (l', f)"
  shows "same_games s (s\<lparr>life := l'\<rparr>)" and "f = Some i \<Longrightarrow> l' = life s \<and> (i, w) \<in> set (fixture_workers (life s))"
  using assms by (auto simp: get_worker_event_fixture_def split: option.splits if_splits dest!: find_Some_iff_in)

lemma next_assignment_cases:
  assumes "next_worker_assignment now keys s w used exE exG = Inr (s', Some a)" and ok: "dispatch_ok s"
    and claims: "distinct (map fst (fixture_workers (life s)))"
  obtains t free where "worker_available_resources s w used = Some free" "handed_out now keys w free exE exG s t a s'"
    "may_take s w (tour_id t) s'"
proof -
  obtain free where free: "worker_available_resources s w used = Some free" and drain: "dw_id w \<notin> set (draining_workers s)"
    using assms(1) by (auto simp: next_worker_assignment_def split: if_splits option.splits)
  let ?attempt = "next_tournament_worker_assignment now keys w free exE exG"
  define P where "P = (\<lambda>a s'. \<exists>t. handed_out now keys w free exE exG s t a s' \<and> may_take s w (tour_id t) s')"
  obtain l f where f: "get_worker_event_fixture (life s) (dw_id w) = (l, f)" by fastforce
  let ?s0 = "s\<lparr>life := l\<rparr>"
  note s0 = worker_fixture(1) [OF f]
  have tried: "(r = None \<and> same_games s s2) \<or> (\<exists>a. r = Some a \<and> handed_out now keys w free exE exG s t a s2
      \<and> (claim \<longrightarrow> may_take s w (tour_id t) s2) \<and> (\<not> claim \<longrightarrow> fixture_workers (life s2) = fixture_workers (life s1)))"
    if "same_games s s1" "?attempt claim preload s1 t = Inr (s2, r)" "t \<in> set (life_tournaments (life s1))" for claim preload s1 s2 t r
    using that(2) dispatch_ok_same [OF that(1) ok] that(3)
  proof (cases rule: next_tournament_cases)
    case refused
    then show ?thesis using same_games_trans [OF that(1)] by blast
  next
    case (handed a)
    then show ?thesis using handed_out_same [OF that(1)] by (auto simp: may_take_def)
  qed
  have "P a s'"
  proof (cases f)
    case (Some i)
    then have i: "l = life s" "(i, dw_id w) \<in> set (fixture_workers (life s))" using worker_fixture(2) [OF f] by auto
    obtain t preload where t: "life_tournament l i = Some t" "?attempt False preload ?s0 t = Inr (s', Some a)"
      using assms(1) free drain f Some by (auto simp: next_worker_assignment_def Let_def split: option.splits if_splits)
    from tried [OF s0 t(2)] life_tournament_in [OF t(1)]
    have "handed_out now keys w free exE exG s t a s'" "fixture_workers (life s') = fixture_workers (life s)" "tour_id t = i"
      using i by auto
    then show ?thesis using i(2) claims by (auto simp: P_def may_take_def event_fixture_worker_def)
  next
    case None
    let ?f1 = "\<lambda>c s1. case life_tournament (life s1) c of None \<Rightarrow> Inr (s1, None)
      | Some t \<Rightarrow> ?attempt True (tour_status t = Scheduled) s1 t"
    let ?f2 = "\<lambda>t s2. if open_to_worker s2 w t then ?attempt False False s2 t else Inr (s2, None)"
    obtain s1 r1 where first: "first_assignment ?f1 (list_worker_event_fixture_candidates ?s0 (dw_id w)) ?s0 = Inr (s1, r1)"
      and rest: "(case r1 of Some a \<Rightarrow> Inr (s1, Some a) | None \<Rightarrow> first_assignment ?f2 (list_tournaments (life s1)) s1) = Inr (s', Some a)"
      using assms(1) free drain f None by (auto simp: next_worker_assignment_def Let_def rbind_eq_Inr split: if_splits)
    have "(r1 = None \<and> same_games s s1) \<or> (\<exists>a. r1 = Some a \<and> P a s1)"
    proof (rule first_assignment_cases [OF first s0])
      fix c s2 s3 r assume "same_games s s2" "?f1 c s2 = Inr (s3, r)"
      then show "(r = None \<and> same_games s s3) \<or> (\<exists>a. r = Some a \<and> P a s3)"
        using tried [of s2 True] life_tournament_in by (fastforce simp: P_def split: option.splits)
    qed
    then show ?thesis
    proof (elim disjE exE conjE)
      assume "r1 = None" and s1: "same_games s s1"
      then have "first_assignment ?f2 (list_tournaments (life s1)) s1 = Inr (s', Some a)" using rest by simp
      from first_assignment_cases [where P = P, OF this s1] show "P a s'"
      proof
        fix t s2 s3 r assume t: "t \<in> set (list_tournaments (life s1))" "same_games s s2" "?f2 t s2 = Inr (s3, r)"
        have "t \<in> set (life_tournaments (life s2))"
          using t(1) same_games_tables(2) [OF s1] same_games_tables(2) [OF t(2)] by (simp add: list_tournaments_def)
        then show "(r = None \<and> same_games s s3) \<or> (\<exists>a. r = Some a \<and> P a s3)"
          using t(2,3) tried [OF t(2), of False False t s3 r] open_may_take [OF t(2), of w t s3]
          by (auto simp: P_def split: if_splits)
      qed auto
    next
      fix b assume "r1 = Some b" "P b s1"
      then show "P a s'" using rest by auto
    qed
  qed
  then obtain t where "handed_out now keys w free exE exG s t a s'" "may_take s w (tour_id t) s'"
    unfolding P_def by blast
  then show thesis by (rule that [OF free])
qed

subsection \<open>The guarantees\<close>

lemma length_filter_changed:
  assumes "\<And>x. Q (if M x then f x else x) \<Longrightarrow> Q x \<or> M x"
  shows "length (filter Q (update_rows M f xs)) \<le> length (filter Q xs) + length (filter M xs)"
proof (induction xs)
  case (Cons x xs)
  then show ?case using assms [of x] by (cases "M x") (auto simp: update_rows_def)
qed (simp add: update_rows_def)

lemma one_row: "distinct (map f xs) \<Longrightarrow> length (filter (\<lambda>x. f x = i \<and> P x) xs) \<le> 1"
proof (induction xs)
  case (Cons x xs)
  then show ?case by (cases "f x = i \<and> P x") (auto simp: filter_empty_conv image_iff)
qed simp

lemma handed_out_count:
  assumes "handed_out now keys w free exE exG s t a s'" and "dispatch_ok s"
  shows "int (active_game_count (life s') (tour_id t)) \<le> concurrency (tour_config t)"
proof -
  let ?Q = "\<lambda>g. game_tournament g = tour_id t \<and> game_status g \<in> {Game_Assigned, Game_Live}"
  let ?M = "\<lambda>r. game_id r = game_id (wa_game a) \<and> game_status r = Game_Pending"
  have "active_game_count (life s') (tour_id t) \<le> length (filter ?Q (life_games (life s))) + length (filter ?M (life_games (life s)))"
    unfolding active_game_count_def using assms(1)
    by (simp only: handed_out_def) (intro length_filter_changed, auto)
  also have "\<dots> \<le> active_game_count (life s) (tour_id t) + 1"
    using one_row [of game_id "life_games (life s)" "game_id (wa_game a)" "\<lambda>r. game_status r = Game_Pending"] assms(2) by (simp add: dispatch_ok_def active_game_count_def)
  finally show ?thesis using assms(1) by (simp add: handed_out_def)
qed

text \<open>
  C30: A worker gets only a game it may play.  The game was waiting in a tournament that runs or is a
  scheduled fixture, it is the first of that tournament's queue among those the worker can play, the
  tournament's games in progress stay within its concurrency, the game is now assigned to the worker
  under the drawn key, its engines fit in the worker's free threads and memory, and the tournament
  is the worker's own event fixture, or one that no worker holds, that no event reserves and
  that is in the worker's scope.
\<close>

theorem assignments_admissible:
  assumes "next_worker_assignment now keys s w used exE exG = Inr (s', Some a)" and "dispatch_ok s"
    and "distinct (map fst (fixture_workers (life s)))"
  shows "\<exists>t free. t \<in> set (life_tournaments (life s)) \<and> tour_status t \<in> {Running, Scheduled}
    \<and> wa_game a \<in> set (life_games (life s)) \<and> playable_for_worker s (tour_id t) (dw_id w) exE exG (wa_game a)
    \<and> (\<forall>g \<in> set (life_games (life s)). playable_for_worker s (tour_id t) (dw_id w) exE exG g \<longrightarrow> queue_key (wa_game a) \<le> queue_key g)
    \<and> int (active_game_count (life s') (tour_id t)) \<le> concurrency (tour_config t)
    \<and> (\<exists>i. get_game_assignment_for_game (life s') (game_id (wa_game a))
         = Some (fresh_assignment i (game_id (wa_game a)) (keys (tour_id t)) (dw_id w) now))
    \<and> worker_available_resources s w used = Some free
    \<and> res_threads (wa_resources a) \<le> fst free \<and> res_hash_mb (wa_resources a) \<le> snd free
    \<and> may_take s w (tour_id t) s'"
  using assms
proof (cases rule: next_assignment_cases)
  case (1 t free)
  note queue = next_playable [of s "tour_id t" "dw_id w" exE exG "wa_game a"]
  show ?thesis
    using 1 queue handed_out_count [OF 1(2) assms(2)] by (intro exI [of _ t] exI [of _ free]) (auto simp: handed_out_def)
qed

text \<open>
  The games a worker's connection holds (\<open>assignment_resources\<close> of \<open>cope/runner/worker_server.py\<close>): each
  claim asks with the sum of what is held, and the database may change in between; any game
  may end.
\<close>

definition held_resources :: "worker_resources list \<Rightarrow> int \<times> int" where
  "held_resources rs = (sum_list (map res_threads rs), sum_list (map res_hash_mb rs))"

inductive slots_reachable :: "dispatch_worker \<Rightarrow> worker_resources list \<Rightarrow> bool" for w where
  connected: "slots_reachable w []"
| claimed: "slots_reachable w held \<Longrightarrow> dispatch_ok s \<Longrightarrow> distinct (map fst (fixture_workers (life s)))
    \<Longrightarrow> next_worker_assignment now keys s w (Some (held_resources held)) exE exG = Inr (s', Some a)
    \<Longrightarrow> slots_reachable w (held @ [wa_resources a])"
| ended: "slots_reachable w (held @ r # rest) \<Longrightarrow> slots_reachable w (held @ rest)"

text \<open>
  C31: A worker is never overbooked.  Whatever games it is given and gives up, and however the
  database changes in between, the games it holds together need at most its threads and memory.
\<close>

theorem never_overbooked:
  assumes "slots_reachable w held" and "worker_capacity w = Some c" and "0 \<le> res_threads c" and "0 \<le> res_hash_mb c"
  shows "can_run c \<lparr>res_threads = fst (held_resources held), res_hash_mb = snd (held_resources held)\<rparr>"
proof -
  have "fst (held_resources held) \<le> res_threads c \<and> snd (held_resources held) \<le> res_hash_mb c
    \<and> (\<forall>r \<in> set held. 0 \<le> res_threads r \<and> 0 \<le> res_hash_mb r)"
    using assms(1)
  proof induction
    case connected
    then show ?case using assms(3,4) by (simp add: held_resources_def)
  next
    case (claimed held s now keys exE exG s' a)
    from claimed.hyps(4,2,3) show ?case
    proof (cases rule: next_assignment_cases)
      case (1 t free)
      then show ?thesis using claimed.IH assms(2)
        by (auto simp: worker_available_resources_def held_resources_def handed_out_def)
    qed
  next
    case (ended held r rest)
    then show ?case by (auto simp: held_resources_def)
  qed
  then show ?thesis by (simp add: can_run_def)
qed

text \<open>A worker with two engines of its own, and two games waiting.\<close>

definition local_engine :: "int \<Rightarrow> engine_spec" where
  "local_engine e = \<lparr>spec_engine_id = e, spec_name = ''Fish'', spec_author = [], spec_version = ''1'', spec_repository_url = [],
     spec_source_ref = [], spec_dockerfile = [], spec_build_hash = [], spec_distribution = Worker_Local,
     spec_local_key = Some ''fish'', spec_artifact = None, spec_uci_options = []\<rparr>"

definition sample_dispatch :: dispatch where
  "sample_dispatch = \<lparr>life = opened_life\<lparr>life_tournaments := [sample_tournament ROUND_ROBIN (RoundRobinFormatOptions 1) [1, 2]],
       life_games := [sample_row\<lparr>game_id := 2, game_number := 2\<rparr>, sample_row]\<rparr>,
     event_data = \<lparr>relay_fixtures = [], fixture_teams_table = [], cast_table = [], event_rows = [], gauntlet_events = []\<rparr>,
     event_permissions = [], tournament_permissions = [], draining_workers = [], discoveries = [(7, ''fish'')],
     engine_versions = [local_engine 1, local_engine 2], pinned_engines = [], artifact_builds = [], benchmark_rows = [],
     hardware_rows = [], current_rounds = (\<lambda>t. 0), scheduled_starts = (\<lambda>t. None)\<rparr>"

definition sample_worker :: dispatch_worker where
  "sample_worker = \<lparr>dw_id = 7, dw_hardware = Some \<lparr>logical_cores = 4, total_ram_mb = 8000\<rparr>, dw_core_limit = None,
     dw_all_tournaments = True\<rparr>"

definition sample_claim :: "(dispatch \<times> worker_assignment option) result" where
  "sample_claim = next_worker_assignment ''t0'' (\<lambda>t. ''key'') sample_dispatch sample_worker (Some (0, 0)) [] []"

lemma sample_claimed: "(case sample_claim of Inl e \<Rightarrow> None | Inr (s', r) \<Rightarrow>
    map_option (\<lambda>a. (game_id (wa_game a), res_threads (wa_resources a), res_hash_mb (wa_resources a))) r) = Some (1, 1, 160)"
  by code_simp

lemma sample_dispatch_ok: "dispatch_ok sample_dispatch" "distinct (map fst (fixture_workers (life sample_dispatch)))"
  by code_simp+

lemma sample_claim_made:
  obtains s' a where "next_worker_assignment ''t0'' (\<lambda>t. ''key'') sample_dispatch sample_worker (Some (0, 0)) [] [] = Inr (s', Some a)"
    "game_id (wa_game a) = 1" "wa_resources a = \<lparr>res_threads = 1, res_hash_mb = 160\<rparr>"
  using sample_claimed unfolding sample_claim_def by (auto split: sum.splits prod.splits)

lemma assignments_admissible_witness:
  "\<exists>s' a. next_worker_assignment ''t0'' (\<lambda>t. ''key'') sample_dispatch sample_worker (Some (0, 0)) [] [] = Inr (s', Some a)
    \<and> wa_game a \<in> set (life_games (life sample_dispatch))"
proof -
  obtain s' a where claim: "next_worker_assignment ''t0'' (\<lambda>t. ''key'') sample_dispatch sample_worker (Some (0, 0)) [] [] = Inr (s', Some a)"
    by (rule sample_claim_made)
  from assignments_admissible [OF claim sample_dispatch_ok] claim show ?thesis by blast
qed

lemma never_overbooked_witness:
  "can_run \<lparr>res_threads = 4, res_hash_mb = 5952\<rparr> \<lparr>res_threads = fst (held_resources [\<lparr>res_threads = 1, res_hash_mb = 160\<rparr>]),
     res_hash_mb = snd (held_resources [\<lparr>res_threads = 1, res_hash_mb = 160\<rparr>])\<rparr>"
proof -
  obtain s' a where claim: "next_worker_assignment ''t0'' (\<lambda>t. ''key'') sample_dispatch sample_worker (Some (0, 0)) [] [] = Inr (s', Some a)"
    and r: "wa_resources a = \<lparr>res_threads = 1, res_hash_mb = 160\<rparr>"
    by (rule sample_claim_made)
  have "next_worker_assignment ''t0'' (\<lambda>t. ''key'') sample_dispatch sample_worker (Some (held_resources [])) [] [] = Inr (s', Some a)"
    using claim by (simp add: held_resources_def)
  from claimed [OF connected sample_dispatch_ok this] r
  have held: "slots_reachable sample_worker [\<lparr>res_threads = 1, res_hash_mb = 160\<rparr>]" by simp
  have "worker_capacity sample_worker = Some \<lparr>res_threads = 4, res_hash_mb = 5952\<rparr>" by code_simp
  from never_overbooked [OF held this] show ?thesis by simp
qed

end
