(* ===== verification/Puzzle_Gauntlet.thy ===== *)
theory Puzzle_Gauntlet
  imports Relay_Teams Tournament_Finish "HOL-Library.Char_ord" "HOL-Library.List_Lexorder"
begin

text \<open>
  Puzzle gauntlets (\<open>cope/events/puzzle_gauntlet.py\<close>).  Each round every engine still in plays one move
  from a puzzle's position, as a game with itself; the engines that miss are out, unless all of them
  miss; the time shrinks from round to round.  The state that the event keeps as JSON is a record, its
  times count milliseconds.  The parser of a game's PGN belongs to python-chess and is an argument, and
  so is the test that an engine exists and is benchmarked.  A message to the event's chat is its text.
\<close>

subsection \<open>Tables\<close>

record puzzle_row =
  puzzle_id :: int
  puzzle_event :: int
  puzzle_opening :: int
  puzzle_position :: int
  puzzle_title :: string
  puzzle_fen :: string
  puzzle_solutions :: "string list"

datatype attempt_outcome = Attempt_Pending | Attempt_Correct | Attempt_Incorrect | Attempt_Saved

record attempt_row =
  attempt_id :: int
  attempt_event :: int
  attempt_puzzle :: int
  attempt_member :: int
  attempt_game :: int
  attempt_outcome :: attempt_outcome
  attempt_move :: "string option"
  attempt_elapsed :: "int option"

record gauntlet_config =
  gc_event :: int
  gc_tournament :: "int option"
  gc_suite :: int
  gc_start_time :: int
  gc_decrement :: int
  gc_minimum :: int
  gc_threads :: int
  gc_hash_mb :: int

record round_report =
  report_puzzle :: int
  report_position :: int
  report_title :: string
  report_fen :: string
  report_solutions :: "string list"
  report_completed_at :: string
  report_void :: bool
  report_correct :: "int list"
  report_eliminated :: "int list"

record gauntlet_transition =
  completed_puzzle :: int
  next_puzzle :: int
  transition_started :: int
  transition_starts :: int

datatype gauntlet_phase = Phase_Unset | Phase_Countdown | Phase_Live | Phase_Intermission | Phase_Completed

record gauntlet_state =
  phase :: gauntlet_phase
  current_puzzle :: int
  transition :: "gauntlet_transition option"
  rounds_done :: "round_report list"
  winner_ids :: "int list"

datatype event_status = Ev_Draft | Ev_Announced | Ev_Scheduled | Ev_Live | Ev_Intermission | Ev_Postponed | Ev_Completed | Ev_Cancelled

record gauntlet_event =
  ge_id :: int
  ge_title :: string
  ge_status :: event_status
  ge_state :: gauntlet_state
  ge_scheduled_start :: "int option"

record gauntlet =
  g_store :: store
  g_moves :: "move_record list"
  g_pgns :: "(int \<times> string) list"
  g_events :: "gauntlet_event list"
  g_configs :: "gauntlet_config list"
  g_puzzles :: "puzzle_row list"
  g_attempts :: "attempt_row list"
  g_cast :: "cast_member list"
  g_eliminations :: "(int \<times> (int \<times> int)) list"
  g_names :: "int \<Rightarrow> string"
  g_chat :: "(int \<times> string) list"
  next_attempt :: int
  next_tournament :: int

definition gauntlet_event_of :: "gauntlet \<Rightarrow> int \<Rightarrow> gauntlet_event option" where
  "gauntlet_event_of s e = List.find (\<lambda>r. ge_id r = e) (g_events s)"

definition config_of_tournament :: "gauntlet \<Rightarrow> int \<Rightarrow> gauntlet_config option" where
  "config_of_tournament s t = List.find (\<lambda>c. gc_tournament c = Some t) (g_configs s)"

definition puzzle_rows :: "gauntlet \<Rightarrow> int \<Rightarrow> puzzle_row list" where
  "puzzle_rows s e = sort_key (\<lambda>p. (puzzle_position p, puzzle_id p)) (filter (\<lambda>p. puzzle_event p = e) (g_puzzles s))"

definition entry_rows :: "gauntlet \<Rightarrow> int \<Rightarrow> cast_member list" where
  "entry_rows s e = sort_key (\<lambda>m. (cast_position m, cast_id m))
     (filter (\<lambda>m. cast_event m = e \<and> cast_kind m = Cast_Engine \<and> cast_parent m = None \<and> cast_engine m \<noteq> None) (g_cast s))"

definition active_entries :: "gauntlet \<Rightarrow> int \<Rightarrow> cast_member list" where
  "active_entries s e = filter cast_active (entry_rows s e)"

definition entry_engine :: "cast_member \<Rightarrow> int" where
  "entry_engine m = (case cast_engine m of Some e \<Rightarrow> e | None \<Rightarrow> 0)"

definition time_for_position :: "gauntlet_config \<Rightarrow> int \<Rightarrow> int" where
  "time_for_position c position = max (gc_minimum c) (gc_start_time c - gc_decrement c * position)"

subsection \<open>Scheduling a round\<close>

definition practice_game :: "store \<Rightarrow> int \<Rightarrow> int \<Rightarrow> int \<Rightarrow> int \<Rightarrow> int \<Rightarrow> (store \<times> int) result" where
  "practice_game s t rnd pair engine opening = rbind (create_game s t rnd pair engine engine None 1 None (Some opening))
     (\<lambda>(s', i). Inr (s'\<lparr>games := map (\<lambda>g. if game_id g = i then g\<lparr>record_eligible := False\<rparr> else g) (games s')\<rparr>, i))"

definition schedule_entry :: "int \<Rightarrow> int \<Rightarrow> puzzle_row \<Rightarrow> gauntlet \<Rightarrow> nat \<times> cast_member \<Rightarrow> gauntlet result" where
  "schedule_entry e t p s entry = (case entry of (i, m) \<Rightarrow>
     rbind (practice_game (g_store s) t (puzzle_position p + 1) (int i) (entry_engine m) (puzzle_opening p)) (\<lambda>(st, g).
       if list_ex (\<lambda>a. attempt_puzzle a = puzzle_id p \<and> attempt_member a = cast_id m \<or> attempt_game a = g) (g_attempts s)
       then Inl IntegrityError
       else Inr (s\<lparr>g_store := st, next_attempt := next_attempt s + 1,
         g_attempts := g_attempts s @ [\<lparr>attempt_id = next_attempt s, attempt_event = e, attempt_puzzle = puzzle_id p,
           attempt_member = cast_id m, attempt_game = g, attempt_outcome = Attempt_Pending, attempt_move = None,
           attempt_elapsed = None\<rparr>]\<rparr>)))"

definition schedule_round :: "gauntlet \<Rightarrow> int \<Rightarrow> int \<Rightarrow> puzzle_row \<Rightarrow> cast_member list \<Rightarrow> gauntlet result" where
  "schedule_round s e t p entries = fold_result (schedule_entry e t p) s (enumerate 1 entries)"

definition set_event_state :: "int \<Rightarrow> gauntlet_state \<Rightarrow> gauntlet \<Rightarrow> gauntlet" where
  "set_event_state e st s = s\<lparr>g_events := map (\<lambda>r. if ge_id r = e then r\<lparr>ge_state := st\<rparr> else r) (g_events s)\<rparr>"

definition set_gauntlet_status :: "int \<Rightarrow> event_status \<Rightarrow> gauntlet \<Rightarrow> gauntlet result" where
  "set_gauntlet_status e st s = (if gauntlet_event_of s e = None then Inl (ValueError ''event does not exist'')
     else Inr (s\<lparr>g_events := map (\<lambda>r. if ge_id r = e then r\<lparr>ge_status := st\<rparr> else r) (g_events s)\<rparr>))"

text \<open>
  A change of the tournament's status carries over to its event
  (\<open>reconcile_engine_relay_events_for_tournament\<close> of \<open>cope/db/events.py\<close>).
\<close>

fun reconciled_status :: "tournament_status \<Rightarrow> event_status \<Rightarrow> event_status" where
  "reconciled_status Draft es = es"
| "reconciled_status Scheduled es = Ev_Scheduled"
| "reconciled_status Running es = Ev_Live"
| "reconciled_status Paused es = Ev_Intermission"
| "reconciled_status Finished es = Ev_Completed"
| "reconciled_status Aborted es = Ev_Cancelled"

fun reconciled_phase :: "tournament_status \<Rightarrow> gauntlet_phase \<Rightarrow> gauntlet_phase" where
  "reconciled_phase Draft ph = (if ph = Phase_Unset then Phase_Countdown else ph)"
| "reconciled_phase Scheduled ph = Phase_Countdown"
| "reconciled_phase Running ph = Phase_Live"
| "reconciled_phase Paused ph = Phase_Live"
| "reconciled_phase Finished ph = Phase_Completed"
| "reconciled_phase Aborted ph = Phase_Completed"

definition reconcile_gauntlet :: "int \<Rightarrow> gauntlet \<Rightarrow> gauntlet" where
  "reconcile_gauntlet t s = (case (config_of_tournament s t, get_tournament (g_store s) t) of
     (Some c, Some r) \<Rightarrow> s\<lparr>g_events := map (\<lambda>e. if ge_id e = gc_event c
         then e\<lparr>ge_status := reconciled_status (tour_status r) (ge_status e),
           ge_state := (ge_state e)\<lparr>phase := reconciled_phase (tour_status r) (phase (ge_state e))\<rparr>\<rparr> else e) (g_events s)\<rparr>
   | _ \<Rightarrow> s)"

definition set_gauntlet_tournament_status :: "string \<Rightarrow> int \<Rightarrow> tournament_status \<Rightarrow> gauntlet \<Rightarrow> gauntlet" where
  "set_gauntlet_tournament_status stamp t st s = reconcile_gauntlet t (s\<lparr>g_store := put_status stamp t st (g_store s)\<rparr>)"

subsection \<open>Releasing a round\<close>

text \<open>The runner asks until the round may start; \<open>stopped\<close> fails the game.\<close>

datatype release = Released | Waiting | Stopped

definition release_puzzle_gauntlet_round :: "int \<Rightarrow> gauntlet \<Rightarrow> int \<Rightarrow> int \<Rightarrow> (gauntlet \<times> release) result" where
  "release_puzzle_gauntlet_round now s t p = (let
     row = (case config_of_tournament s t of None \<Rightarrow> None
       | Some c \<Rightarrow> (case (gauntlet_event_of s (gc_event c), get_tournament (g_store s) t) of
           (Some e, Some r) \<Rightarrow> Some (e, r) | _ \<Rightarrow> None))
   in case row of None \<Rightarrow> Inr (s, Stopped)
   | Some (e, r) \<Rightarrow> let st = ge_state e in
       if ge_status e \<notin> {Ev_Live, Ev_Scheduled} \<or> tour_status r \<noteq> Running then Inr (s, Stopped)
       else if ge_status e = Ev_Scheduled \<and> phase st = Phase_Countdown \<and> current_puzzle st = p
       then rbind (set_gauntlet_status (ge_id e) Ev_Live
           (set_event_state (ge_id e) (st\<lparr>phase := Phase_Live, transition := None\<rparr>) s)) (\<lambda>s'. Inr (s', Released))
       else if phase st = Phase_Live \<and> current_puzzle st = p then Inr (s, Released)
       else (case transition st of
           Some tr \<Rightarrow> if phase st \<noteq> Phase_Intermission \<or> next_puzzle tr \<noteq> p then Inr (s, Stopped)
             else if now < transition_starts tr then Inr (s, Waiting)
             else Inr (set_event_state (ge_id e) (st\<lparr>phase := Phase_Live, current_puzzle := p, transition := None\<rparr>) s, Released)
         | None \<Rightarrow> Inr (s, Stopped)))"

subsection \<open>Closing a round\<close>

definition first_move :: "gauntlet \<Rightarrow> int \<Rightarrow> move_record option" where
  "first_move s g = (case sort_key move_ply (filter (\<lambda>m. move_game m = g \<and> \<not> move_is_book m) (g_moves s)) of
     [] \<Rightarrow> None | m # ms \<Rightarrow> Some m)"

definition attempt_move_uci :: "(string \<Rightarrow> string option) \<Rightarrow> gauntlet \<Rightarrow> int \<Rightarrow> string option" where
  "attempt_move_uci read_pgn s g = (case first_move s g of
     Some m \<Rightarrow> Some (lower (move_uci m))
   | None \<Rightarrow> (case map_of (g_pgns s) g of
       Some pgn \<Rightarrow> if pgn = [] then None else map_option lower (read_pgn pgn)
     | None \<Rightarrow> None))"

text \<open>The latest puzzle that has attempts, and its attempts whose entry and game still exist.\<close>

definition latest_puzzle :: "gauntlet \<Rightarrow> int \<Rightarrow> puzzle_row option" where
  "latest_puzzle s e = (case rev (sort_key puzzle_position
       (filter (\<lambda>p. puzzle_event p = e \<and> list_ex (\<lambda>a. attempt_puzzle a = puzzle_id p) (g_attempts s)) (g_puzzles s))) of
     [] \<Rightarrow> None | p # ps \<Rightarrow> Some p)"

definition round_attempts :: "gauntlet \<Rightarrow> puzzle_row \<Rightarrow> attempt_row list" where
  "round_attempts s p = sort_key attempt_id (filter (\<lambda>a. attempt_puzzle a = puzzle_id p
     \<and> list_ex (\<lambda>m. cast_id m = attempt_member a) (g_cast s)
     \<and> list_ex (\<lambda>g. game_id g = attempt_game a) (games (g_store s))) (g_attempts s))"

definition correct_members :: "(string \<Rightarrow> string option) \<Rightarrow> gauntlet \<Rightarrow> puzzle_row \<Rightarrow> int list" where
  "correct_members read_pgn s p = map attempt_member (filter
     (\<lambda>a. case attempt_move_uci read_pgn s (attempt_game a) of None \<Rightarrow> False | Some u \<Rightarrow> u \<in> lower ` set (puzzle_solutions p))
     (round_attempts s p))"

definition outcome_of :: "int list \<Rightarrow> int \<Rightarrow> attempt_outcome" where
  "outcome_of correct m = (if correct = [] then Attempt_Saved else if m \<in> set correct then Attempt_Correct else Attempt_Incorrect)"

definition close_attempt :: "(string \<Rightarrow> string option) \<Rightarrow> puzzle_row \<Rightarrow> int list \<Rightarrow> gauntlet \<Rightarrow> attempt_row \<Rightarrow> gauntlet" where
  "close_attempt read_pgn p correct s a = (let
     result = outcome_of correct (attempt_member a);
     s1 = s\<lparr>g_attempts := map (\<lambda>b. if attempt_id b = attempt_id a
       then b\<lparr>attempt_outcome := result, attempt_move := attempt_move_uci read_pgn s (attempt_game a),
          attempt_elapsed := map_option move_time_ms (first_move s (attempt_game a))\<rparr> else b) (g_attempts s)\<rparr>
   in if result = Attempt_Incorrect
      then s1\<lparr>g_cast := map (\<lambda>m. if cast_id m = attempt_member a then m\<lparr>cast_active := False\<rparr> else m) (g_cast s1),
        g_eliminations := AList.update (attempt_member a) (puzzle_id p, puzzle_position p + 1) (g_eliminations s1)\<rparr>
      else s1)"

definition say :: "int \<Rightarrow> string \<Rightarrow> gauntlet \<Rightarrow> gauntlet" where
  "say e body s = s\<lparr>g_chat := g_chat s @ [(e, body)]\<rparr>"

definition entry_name :: "gauntlet \<Rightarrow> int \<Rightarrow> int \<Rightarrow> string" where
  "entry_name s e i = (case List.find (\<lambda>m. cast_id m = i) (entry_rows s e) of
     Some m \<Rightarrow> g_names s (entry_engine m) | None \<Rightarrow> ''Engine '' @ int_str i)"

definition announce_round :: "int \<Rightarrow> puzzle_row \<Rightarrow> int list \<Rightarrow> int list \<Rightarrow> gauntlet \<Rightarrow> gauntlet" where
  "announce_round e p correct eliminated s = (let number = int_str (puzzle_position p + 1); found = card (set correct) in
     if correct = [] then say e (''Puzzle '' @ number @ '': every engine missed. Nobody was knocked out.'') s
     else fold (\<lambda>i s. say e (entry_name s e i @ '' was knocked out on puzzle '' @ number @ ''.'') s) eliminated
       (say e (''Puzzle '' @ number @ '' complete. '' @ int_str (int found) @ '' engine''
          @ (if found \<noteq> 1 then ''s'' else []) @ '' found the solution.'') s))"

datatype advance_result = Gauntlet_Completed | Gauntlet_Advanced

definition puzzle_gauntlet_transition_ms :: int where
  "puzzle_gauntlet_transition_ms = 2000"

definition close_round :: "(string \<Rightarrow> string option) \<Rightarrow> gauntlet \<Rightarrow> puzzle_row \<Rightarrow> gauntlet" where
  "close_round read_pgn s p = (let correct = correct_members read_pgn s p
   in fold (\<lambda>a s1. close_attempt read_pgn p correct s1 a) (round_attempts s p) s)"

definition next_round :: "int \<Rightarrow> gauntlet \<Rightarrow> gauntlet_event \<Rightarrow> gauntlet_config \<Rightarrow> tournament_record \<Rightarrow> puzzle_row \<Rightarrow> puzzle_row
    \<Rightarrow> round_report list \<Rightarrow> (gauntlet \<times> advance_result option) result" where
  "next_round now s e c t p q reports =
     rbind (validation_result (check_config ((tour_config t)\<lparr>config_time_control := MoveTimeControl (time_for_position c (puzzle_position q))\<rparr>)))
       (\<lambda>config. rbind (schedule_round (s\<lparr>g_store := update_tournament (tour_id t) (\<lambda>r. r\<lparr>tour_config := config\<rparr>) (g_store s)\<rparr>)
           (ge_id e) (tour_id t) q (active_entries s (ge_id e)))
         (\<lambda>s1. Inr (set_event_state (ge_id e) ((ge_state e)\<lparr>phase := Phase_Intermission, current_puzzle := puzzle_id p,
             transition := Some \<lparr>completed_puzzle = puzzle_id p, next_puzzle = puzzle_id q, transition_started = now,
               transition_starts = now + puzzle_gauntlet_transition_ms\<rparr>, rounds_done := reports, winner_ids := []\<rparr>) s1,
           Some Gauntlet_Advanced)))"

definition report_of :: "string \<Rightarrow> puzzle_row \<Rightarrow> int list \<Rightarrow> int list \<Rightarrow> round_report" where
  "report_of stamp p correct eliminated = \<lparr>report_puzzle = puzzle_id p, report_position = puzzle_position p,
     report_title = puzzle_title p, report_fen = puzzle_fen p, report_solutions = sort (remdups (map lower (puzzle_solutions p))),
     report_completed_at = stamp, report_void = (correct = []), report_correct = sort (remdups correct),
     report_eliminated = eliminated\<rparr>"

definition advance_puzzle_gauntlet :: "(string \<Rightarrow> string option) \<Rightarrow> string \<Rightarrow> int \<Rightarrow> gauntlet \<Rightarrow> int
    \<Rightarrow> (gauntlet \<times> advance_result option) result" where
  "advance_puzzle_gauntlet read_pgn stamp now s t = (case config_of_tournament s t of
     None \<Rightarrow> Inr (s, None)
   | Some c \<Rightarrow> (case (gauntlet_event_of s (gc_event c), get_tournament (g_store s) t) of
       (Some e, Some r) \<Rightarrow> (case latest_puzzle s (ge_id e) of
           None \<Rightarrow> Inr (s, None)
         | Some p \<Rightarrow> let
             correct = correct_members read_pgn s p;
             missed = sort (filter (\<lambda>m. m \<notin> set correct) (map attempt_member (round_attempts s p)));
             eliminated = (if correct = [] then [] else missed);
             reports = rounds_done (ge_state e) @ [report_of stamp p correct eliminated];
             s1 = announce_round (ge_id e) p correct eliminated (close_round read_pgn s p);
             active = active_entries s1 (ge_id e);
             puzzles = puzzle_rows s1 (ge_id e)
           in if length active \<le> 1 \<or> int (length puzzles) - 1 \<le> puzzle_position p
              then rbind (set_gauntlet_status (ge_id e) Ev_Completed (set_event_state (ge_id e)
                  ((ge_state e)\<lparr>phase := Phase_Completed, current_puzzle := puzzle_id p, rounds_done := reports,
                     winner_ids := map cast_id active\<rparr>) s1)) (\<lambda>s2. Inr (s2, Some Gauntlet_Completed))
              else next_round now s1 e c r p (puzzles ! nat (puzzle_position p + 1)) reports)
     | _ \<Rightarrow> Inr (s, None)))"

subsection \<open>Starting, pausing, resetting\<close>

text \<open>A request that is refused is answered with its status code.\<close>

datatype refusal = Http int string | Failed exn

definition or_failed :: "'a result \<Rightarrow> refusal + 'a" where
  "or_failed r = (case r of Inl e \<Rightarrow> Inl (Failed e) | Inr x \<Rightarrow> Inr x)"

definition gauntlet_tournament_config :: "gauntlet_config \<Rightarrow> int list \<Rightarrow> tournament_config" where
  "gauntlet_tournament_config c engines = \<lparr>config_variant = ''standard'', config_rules_revision = [], format = ROUND_ROBIN,
     format_options = RoundRobinFormatOptions 1, participants = engines, config_time_control = MoveTimeControl (gc_start_time c),
     concurrency = int (length engines), opening_suite_id = Some (gc_suite c),
     adjudication = \<lparr>adj_draw = None, adj_resign = None, adj_max_moves = Some 1\<rparr>, rated = False, lag_compensation_ms = 0,
     engine_threads = gc_threads c, engine_hash_mb = gc_hash_mb c, config_uci_options = []\<rparr>"

definition start_gauntlet :: "(int \<Rightarrow> bool) \<Rightarrow> string \<Rightarrow> int \<Rightarrow> gauntlet \<Rightarrow> int \<Rightarrow> refusal + gauntlet" where
  "start_gauntlet benchmarked stamp now s i = (case gauntlet_event_of s i of
     None \<Rightarrow> Inl (Http 404 ''Puzzle Gauntlet event not found.'')
   | Some e \<Rightarrow> (case List.find (\<lambda>c. gc_event c = i) (g_configs s) of
       None \<Rightarrow> Inl (Http 404 ''Puzzle Gauntlet configuration not found.'')
     | Some c \<Rightarrow> let puzzles = puzzle_rows s i; entries = active_entries s i; engines = map entry_engine entries in
         rbind (guard (gc_tournament c = None) (Http 409 ''The gauntlet is already armed.'')) (\<lambda>u.
         rbind (guard (puzzles \<noteq> []) (Http 409 ''Add at least one puzzle before starting.'')) (\<lambda>u.
         rbind (guard (2 \<le> length entries) (Http 409 ''Enter at least two engines before starting.'')) (\<lambda>u.
         rbind (guard (list_all benchmarked engines) (Http 409 ''needs a completed benchmark before entering the gauntlet.'')) (\<lambda>u.
         rbind (or_failed (validation_result (check_config (gauntlet_tournament_config c engines)))) (\<lambda>config. let
           future = (case ge_scheduled_start e of None \<Rightarrow> False | Some start \<Rightarrow> now < start);
           t = \<lparr>tour_id = next_tournament s, tour_name = ge_title e @ '' runtime'', tour_config = config,
             tour_status = (if future then Scheduled else Running), tour_started = None, tour_finished = None\<rparr>;
           s1 = s\<lparr>g_store := (g_store s)\<lparr>tournaments := tournaments (g_store s) @ [t]\<rparr>, next_tournament := next_tournament s + 1\<rparr>
         in rbind (or_failed (schedule_round s1 i (tour_id t) (hd puzzles) entries)) (\<lambda>s2. let
           s3 = s2\<lparr>g_configs := map (\<lambda>d. if gc_event d = i then d\<lparr>gc_tournament := Some (tour_id t)\<rparr> else d) (g_configs s2)\<rparr>;
           s4 = (if future then s3 else set_gauntlet_tournament_status stamp (tour_id t) Running s3);
           st = \<lparr>phase = (if future then Phase_Countdown else Phase_Live), current_puzzle = puzzle_id (hd puzzles), transition = None,
             rounds_done = [], winner_ids = []\<rparr>
         in or_failed (set_gauntlet_status i (if future then Ev_Scheduled else Ev_Live) (set_event_state i st s4))))))))))"

datatype gauntlet_action = Pause | Resume | Abort

definition gauntlet_action :: "string \<Rightarrow> gauntlet \<Rightarrow> int \<Rightarrow> gauntlet_action \<Rightarrow> refusal + gauntlet" where
  "gauntlet_action stamp s i action = (case List.find (\<lambda>c. gc_event c = i) (g_configs s) of
     None \<Rightarrow> Inl (Http 404 ''Puzzle Gauntlet configuration not found.'')
   | Some c \<Rightarrow> (case gc_tournament c of
       None \<Rightarrow> Inl (Http 409 ''The gauntlet has not started.'')
     | Some t \<Rightarrow> (case get_tournament (g_store s) t of
         None \<Rightarrow> Inl (Http 404 ''Gauntlet runtime not found.'')
       | Some r \<Rightarrow> let put = (\<lambda>st es. or_failed (set_gauntlet_status i es (set_gauntlet_tournament_status stamp t st s))) in
           (case action of
             Pause \<Rightarrow> if tour_status r \<noteq> Running then Inl (Http 409 ''Only a live gauntlet can be paused.'')
               else put Paused Ev_Intermission
           | Resume \<Rightarrow> if tour_status r \<noteq> Paused then Inl (Http 409 ''Only a paused gauntlet can resume.'')
               else put Running Ev_Live
           | Abort \<Rightarrow> if tour_status r \<notin> {Scheduled, Running, Paused} then Inl (Http 409 ''This gauntlet can no longer be aborted.'')
               else rbind (put Aborted Ev_Cancelled) (\<lambda>s1. case gauntlet_event_of s1 i of
                   Some e \<Rightarrow> Inr (set_event_state i ((ge_state e)\<lparr>phase := Phase_Completed, winner_ids := []\<rparr>) s1)
                 | None \<Rightarrow> Inr s1)))))"

definition reset_puzzle_gauntlet :: "gauntlet \<Rightarrow> int \<Rightarrow> gauntlet" where
  "reset_puzzle_gauntlet s e = (if \<not> list_ex (\<lambda>c. gc_event c = e) (g_configs s) then s
     else s\<lparr>g_attempts := filter (\<lambda>a. attempt_event a \<noteq> e) (g_attempts s),
       g_configs := map (\<lambda>c. if gc_event c = e then c\<lparr>gc_tournament := None\<rparr> else c) (g_configs s),
       g_cast := map (\<lambda>m. if cast_event m = e \<and> cast_kind m = Cast_Engine then m\<lparr>cast_active := True\<rparr> else m) (g_cast s),
       g_eliminations := filter (\<lambda>(i, x). \<not> list_ex (\<lambda>m. cast_id m = i \<and> cast_event m = e \<and> cast_kind m = Cast_Engine) (g_cast s))
         (g_eliminations s)\<rparr>)"

end
