(* ===== verification/Gauntlet_Rounds.thy ===== *)
theory Gauntlet_Rounds
  imports Puzzle_Gauntlet
begin

text \<open>
  The rounds of a puzzle gauntlet: an engine is knocked out exactly by missing a puzzle that another
  one solved, so somebody always remains; and a pause before the first round is released
  leaves a gauntlet that never starts.
\<close>

subsection \<open>A pause between two rounds\<close>

lemma find_mapped:
  "(\<And>r. key (f r) = key r) \<Longrightarrow> List.find (\<lambda>r. key r = i) (map (\<lambda>r. if key r = i then f r else r) rs)
     = map_option f (List.find (\<lambda>r. key r = i) rs)"
  by (induction rs) auto

lemma set_gauntlet_status_event:
  assumes "set_gauntlet_status i es s = Inr s'"
  shows "g_configs s' = g_configs s" "g_store s' = g_store s"
    "gauntlet_event_of s' i = map_option (\<lambda>e. e\<lparr>ge_status := es\<rparr>) (gauntlet_event_of s i)"
  using assms find_mapped [of ge_id "\<lambda>e. e\<lparr>ge_status := es\<rparr>" i "g_events s"]
  by (auto simp: set_gauntlet_status_def gauntlet_event_of_def split: if_splits)

lemma reconciled_event:
  assumes "config_of_tournament s t = Some c" and "get_tournament (g_store s) t = Some r"
  shows "gauntlet_event_of (set_gauntlet_tournament_status stamp t st s) (gc_event c)
    = map_option (\<lambda>e. e\<lparr>ge_status := reconciled_status st (ge_status e),
        ge_state := (ge_state e)\<lparr>phase := reconciled_phase st (phase (ge_state e))\<rparr>\<rparr>) (gauntlet_event_of s (gc_event c))"
    and "g_configs (set_gauntlet_tournament_status stamp t st s) = g_configs s"
    and "get_tournament (g_store (set_gauntlet_tournament_status stamp t st s)) t = Some (with_status stamp st r)"
proof -
  let ?s = "s\<lparr>g_store := put_status stamp t st (g_store s)\<rparr>"
  have "config_of_tournament ?s t = Some c" "get_tournament (g_store ?s) t = Some (with_status stamp st r)"
    using assms by (simp_all add: config_of_tournament_def get_put_status)
  moreover have "tour_status (with_status stamp st r) = st" by (simp add: with_status_def)
  ultimately show "gauntlet_event_of (set_gauntlet_tournament_status stamp t st s) (gc_event c)
    = map_option (\<lambda>e. e\<lparr>ge_status := reconciled_status st (ge_status e),
        ge_state := (ge_state e)\<lparr>phase := reconciled_phase st (phase (ge_state e))\<rparr>\<rparr>) (gauntlet_event_of s (gc_event c))"
    and "g_configs (set_gauntlet_tournament_status stamp t st s) = g_configs s"
    and "get_tournament (g_store (set_gauntlet_tournament_status stamp t st s)) t = Some (with_status stamp st r)"
    by (simp_all add: set_gauntlet_tournament_status_def reconcile_gauntlet_def gauntlet_event_of_def find_mapped)
qed

lemma gauntlet_action_event:
  assumes "gauntlet_action stamp s i action = Inr s'" and "action = Pause \<and> st = Paused \<or> action = Resume \<and> st = Running"
    and "List.find (\<lambda>c. gc_event c = i) (g_configs s) = Some c" and "config_of_tournament s t = Some c"
    and "gauntlet_event_of s i = Some e"
  shows "g_configs s' = g_configs s"
    and "gauntlet_event_of s' i = Some (e\<lparr>ge_status := (if action = Pause then Ev_Intermission else Ev_Live),
      ge_state := (ge_state e)\<lparr>phase := Phase_Live\<rparr>\<rparr>)"
proof -
  have t: "gc_tournament c = Some t" using assms(4) find_Some_iff_in unfolding config_of_tournament_def by fastforce
  have i: "gc_event c = i" using assms(3) find_Some_iff_in by fastforce
  obtain r where r: "get_tournament (g_store s) t = Some r"
    and put: "set_gauntlet_status i (if action = Pause then Ev_Intermission else Ev_Live) (set_gauntlet_tournament_status stamp t st s) = Inr s'"
    using assms(1,2,3) t
    by (auto simp: gauntlet_action_def or_failed_def Let_def split: option.splits if_splits sum.splits)
  note event = reconciled_event [OF assms(4) r, of stamp st, unfolded i assms(5)]
  show "g_configs s' = g_configs s" using set_gauntlet_status_event(1) [OF put] event(2) by simp
  show "gauntlet_event_of s' i = Some (e\<lparr>ge_status := (if action = Pause then Ev_Intermission else Ev_Live),
      ge_state := (ge_state e)\<lparr>phase := Phase_Live\<rparr>\<rparr>)"
    using set_gauntlet_status_event(3) [OF put] event(1) assms(2) by auto
qed

lemma gauntlet_action_succeeds:
  assumes "action = Pause \<and> st = Paused \<and> tour_status r = Running \<or> action = Resume \<and> st = Running \<and> tour_status r = Paused"
    and "List.find (\<lambda>c. gc_event c = i) (g_configs s) = Some c" and "config_of_tournament s t = Some c"
    and "gauntlet_event_of s i = Some e" and "get_tournament (g_store s) t = Some r"
  obtains s' where "gauntlet_action stamp s i action = Inr s'" "get_tournament (g_store s') t = Some (with_status stamp st r)"
proof -
  have t: "gc_tournament c = Some t" using assms(3) find_Some_iff_in unfolding config_of_tournament_def by fastforce
  have i: "gc_event c = i" using assms(2) find_Some_iff_in by fastforce
  let ?s = "set_gauntlet_tournament_status stamp t st s"
  note event = reconciled_event [OF assms(3,5), of stamp st, unfolded i assms(4)]
  obtain s' where s': "set_gauntlet_status i (if action = Pause then Ev_Intermission else Ev_Live) ?s = Inr s'"
    using event(1) by (simp add: set_gauntlet_status_def)
  show thesis
  proof (rule that)
    show "gauntlet_action stamp s i action = Inr s'"
      using assms(1,2,5) t s' by (auto simp: gauntlet_action_def or_failed_def Let_def)
    show "get_tournament (g_store s') t = Some (with_status stamp st r)"
      using set_gauntlet_status_event(2) [OF s'] event(3) by simp
  qed
qed

text \<open>
  C34: A pause between two rounds stops a gauntlet for good.  While the next round waits for its
  start, it is released once its time has come; but when the gauntlet is paused and
  resumed before that, every request to release it is answered with \<open>stopped\<close>, at whatever time, and
  the games that ask fail.
\<close>

theorem paused_intermission_never_ends:
  assumes "List.find (\<lambda>c. gc_event c = i) (g_configs s) = Some c" and "config_of_tournament s t = Some c"
    and "gauntlet_event_of s i = Some e" and "phase (ge_state e) = Phase_Intermission" and "ge_status e = Ev_Live"
    and "transition (ge_state e) = Some tr" and "next_puzzle tr \<noteq> current_puzzle (ge_state e)"
    and "get_tournament (g_store s) t = Some r" and "tour_status r = Running"
    and "gauntlet_action stamp s i Pause = Inr s1" and "gauntlet_action stamp' s1 i Resume = Inr s2"
  shows "(\<exists>s'. release_puzzle_gauntlet_round (transition_starts tr) s t (next_puzzle tr) = Inr (s', Released))
    \<and> release_puzzle_gauntlet_round now s2 t (next_puzzle tr) = Inr (s2, Stopped)"
proof
  have i: "gc_event c = i" using assms(1) find_Some_iff_in by fastforce
  show "\<exists>s'. release_puzzle_gauntlet_round (transition_starts tr) s t (next_puzzle tr) = Inr (s', Released)"
    using assms(2-9) i by (simp add: release_puzzle_gauntlet_round_def Let_def)
  note paused = gauntlet_action_event [OF assms(10) _ assms(1-3), of Paused, simplified]
  have c1: "List.find (\<lambda>c. gc_event c = i) (g_configs s1) = Some c" "config_of_tournament s1 t = Some c"
    using assms(1,2) paused(1) by (simp_all add: config_of_tournament_def)
  note resumed = gauntlet_action_event [OF assms(11) _ c1 paused(2), of Running, simplified]
  have "config_of_tournament s2 t = Some c" using c1(2) resumed(1) by (simp add: config_of_tournament_def)
  then show "release_puzzle_gauntlet_round now s2 t (next_puzzle tr) = Inr (s2, Stopped)"
    using assms(6,7) i resumed(2)
    by (cases "get_tournament (g_store s2) t") (simp_all add: release_puzzle_gauntlet_round_def Let_def)
qed

subsection \<open>Rounds\<close>

text \<open>
  The tables while a gauntlet runs: puzzles are numbered from 0, attempts have growing ids, and
  their games exist.
\<close>

definition field_ok :: "gauntlet \<Rightarrow> int \<Rightarrow> bool" where
  "field_ok s i = (distinct (map cast_id (g_cast s)) \<and> distinct (map puzzle_id (g_puzzles s))
     \<and> map puzzle_position (puzzle_rows s i) = map int [0..<length (puzzle_rows s i)]
     \<and> sorted (map attempt_id (g_attempts s)) \<and> distinct (map attempt_id (g_attempts s))
     \<and> (\<forall>a \<in> set (g_attempts s). attempt_id a < next_attempt s)
     \<and> attempt_game ` set (g_attempts s) \<subseteq> game_id ` set (games (g_store s))
     \<and> distinct (map attempt_game (g_attempts s)) \<and> (\<forall>g \<in> set (games (g_store s)). game_id g < next_game (g_store s)))"

text \<open>The round of puzzle \<open>p\<close> is scheduled: each entry that is still in has its attempt, and there is one.\<close>

definition attempts_at :: "gauntlet \<Rightarrow> puzzle_row \<Rightarrow> attempt_row list" where
  "attempts_at s p = filter (\<lambda>a. attempt_puzzle a = puzzle_id p) (g_attempts s)"

definition round_ready :: "gauntlet \<Rightarrow> int \<Rightarrow> puzzle_row \<Rightarrow> bool" where
  "round_ready s i p = (p \<in> set (puzzle_rows s i) \<and> map attempt_member (attempts_at s p) = map cast_id (active_entries s i)
     \<and> active_entries s i \<noteq> []
     \<and> (\<forall>q \<in> set (puzzle_rows s i). attempts_at s q \<noteq> [] \<longrightarrow> puzzle_position q \<le> puzzle_position p))"

lemma puzzle_at:
  assumes "field_ok s i" and "q \<in> set (puzzle_rows s i)"
  shows "0 \<le> puzzle_position q" "nat (puzzle_position q) < length (puzzle_rows s i)"
    "puzzle_rows s i ! nat (puzzle_position q) = q"
proof -
  obtain k where k: "k < length (puzzle_rows s i)" "q = puzzle_rows s i ! k" using assms(2) by (auto simp: in_set_conv_nth)
  have "map puzzle_position (puzzle_rows s i) ! k = int k" using assms(1) k(1) unfolding field_ok_def by simp
  then have "puzzle_position q = int k" using k by simp
  then show "0 \<le> puzzle_position q" "nat (puzzle_position q) < length (puzzle_rows s i)"
    "puzzle_rows s i ! nat (puzzle_position q) = q" using k by simp_all
qed

lemma rev_sort_hd:
  assumes "rev (sort_key f xs) = y # ys"
  shows "y \<in> set xs" "x \<in> set xs \<Longrightarrow> f x \<le> f y"
proof -
  have s: "sort_key f xs = rev ys @ [y]" using assms by (metis rev.simps(2) rev_rev_ident)
  have set: "set xs = set (rev ys @ [y])" using s by (metis set_sort)
  show "y \<in> set xs" using set by simp
  show "f x \<le> f y" if "x \<in> set xs"
    using that set sorted_sort_key [of f xs] unfolding s by (auto simp: sorted_append)
qed

lemma in_set_Cons: "x \<in> set ys \<Longrightarrow> \<exists>z zs. ys = z # zs"
  by (cases ys) auto

lemma latest_ready:
  assumes "field_ok s i" and "round_ready s i p"
  shows "latest_puzzle s i = Some p"
proof -
  let ?L = "filter (\<lambda>p. puzzle_event p = i \<and> list_ex (\<lambda>a. attempt_puzzle a = puzzle_id p) (g_attempts s)) (g_puzzles s)"
  have L: "q \<in> set ?L \<longleftrightarrow> q \<in> set (puzzle_rows s i) \<and> attempts_at s q \<noteq> []" for q
    by (auto simp: puzzle_rows_def attempts_at_def filter_empty_conv list_ex_iff)
  have ne: "attempts_at s p \<noteq> []" using assms(2) by (auto simp: round_ready_def)
  then have "p \<in> set ?L" using L assms(2) by (simp add: round_ready_def)
  then have "p \<in> set (rev (sort_key puzzle_position ?L))" by (simp only: set_rev set_sort)
  then obtain x xs where x: "rev (sort_key puzzle_position ?L) = x # xs" using in_set_Cons by metis
  have "x \<in> set ?L" "puzzle_position p \<le> puzzle_position x" using rev_sort_hd [OF x] \<open>p \<in> set ?L\<close> by blast+
  then have "puzzle_position x = puzzle_position p" "x \<in> set (puzzle_rows s i)" "p \<in> set (puzzle_rows s i)"
    using L assms(2) by (auto simp: round_ready_def intro: antisym)
  then have "x = p" using puzzle_at(3) [OF assms(1)] by metis
  then show ?thesis using x by (simp add: latest_puzzle_def)
qed

lemma round_attempts_ready:
  assumes "field_ok s i" and "round_ready s i p"
  shows "round_attempts s p = attempts_at s p"
proof -
  have "list_ex (\<lambda>m. cast_id m = attempt_member a) (g_cast s)" if "a \<in> set (attempts_at s p)" for a
  proof -
    have "attempt_member a \<in> set (map cast_id (active_entries s i))" using that assms(2) by (metis imageI list.set_map round_ready_def)
    then show ?thesis by (auto simp: active_entries_def entry_rows_def list_ex_iff)
  qed
  moreover have "list_ex (\<lambda>g. game_id g = attempt_game a) (games (g_store s))" if "a \<in> set (g_attempts s)" for a
    using that assms(1) by (fastforce simp: field_ok_def list_ex_iff)
  ultimately have "filter (\<lambda>a. attempt_puzzle a = puzzle_id p \<and> list_ex (\<lambda>m. cast_id m = attempt_member a) (g_cast s)
      \<and> list_ex (\<lambda>g. game_id g = attempt_game a) (games (g_store s))) (g_attempts s) = attempts_at s p"
    unfolding attempts_at_def by (intro filter_cong) (auto simp: attempts_at_def)
  moreover have "sorted (map attempt_id (attempts_at s p))"
    using assms(1) by (simp add: attempts_at_def field_ok_def sorted_filter)
  ultimately show ?thesis by (simp add: round_attempts_def sort_key_id_if_sorted)
qed

subsection \<open>Closing a round\<close>

definition attempt_key :: "attempt_row \<Rightarrow> int \<times> int \<times> int \<times> int" where
  "attempt_key a = (attempt_id a, attempt_puzzle a, attempt_member a, attempt_game a)"

text \<open>What closing a round leaves as it is.\<close>

definition same_round :: "gauntlet \<Rightarrow> gauntlet \<Rightarrow> bool" where
  "same_round s s' = (g_store s' = g_store s \<and> g_configs s' = g_configs s \<and> g_events s' = g_events s \<and> g_puzzles s' = g_puzzles s
     \<and> next_attempt s' = next_attempt s \<and> map attempt_key (g_attempts s') = map attempt_key (g_attempts s))"

lemma same_round_trans: "same_round s s' \<Longrightarrow> same_round s' s'' \<Longrightarrow> same_round s s''"
  by (simp add: same_round_def)

definition knock_out :: "int list \<Rightarrow> int set \<Rightarrow> cast_member \<Rightarrow> cast_member" where
  "knock_out correct ms m = (if outcome_of correct (cast_id m) = Attempt_Incorrect \<and> cast_id m \<in> ms
     then m\<lparr>cast_active := False\<rparr> else m)"

lemma knock_out_simps [simp]:
  "cast_id (knock_out c ms m) = cast_id m" "cast_event (knock_out c ms m) = cast_event m" "cast_kind (knock_out c ms m) = cast_kind m"
  "cast_parent (knock_out c ms m) = cast_parent m" "cast_engine (knock_out c ms m) = cast_engine m"
  "cast_position (knock_out c ms m) = cast_position m"
  by (simp_all add: knock_out_def)

lemma close_attempt_same: "same_round s (close_attempt read_pgn p correct s a)"
  by (auto simp: same_round_def close_attempt_def Let_def attempt_key_def)

lemma close_attempt_cast: "g_cast (close_attempt read_pgn p correct s a) = map (knock_out correct {attempt_member a}) (g_cast s)"
  by (auto simp: close_attempt_def Let_def knock_out_def intro!: map_idI [symmetric])

lemma close_fold:
  "same_round s (fold (\<lambda>a s1. close_attempt read_pgn p correct s1 a) as s)
   \<and> g_cast (fold (\<lambda>a s1. close_attempt read_pgn p correct s1 a) as s) = map (knock_out correct (attempt_member ` set as)) (g_cast s)"
proof (induction as arbitrary: s)
  case Nil
  then show ?case by (simp add: same_round_def knock_out_def)
next
  case (Cons a as)
  let ?s = "close_attempt read_pgn p correct s a"
  have "knock_out correct (attempt_member ` set as) \<circ> knock_out correct {attempt_member a} = knock_out correct (attempt_member ` set (a # as))"
    by (auto simp: knock_out_def fun_eq_iff)
  moreover have "same_round s (fold (\<lambda>a s1. close_attempt read_pgn p correct s1 a) as ?s)"
    using Cons.IH [of ?s] by (intro same_round_trans [OF close_attempt_same [of s read_pgn p correct a]]) simp
  ultimately show ?case using Cons.IH [of ?s] by (simp add: close_attempt_cast)
qed

definition chat_only :: "gauntlet \<Rightarrow> gauntlet \<Rightarrow> bool" where
  "chat_only s s' = (\<exists>chat. s' = s\<lparr>g_chat := chat\<rparr>)"

lemma chat_only_trans: "chat_only s s' \<Longrightarrow> chat_only s' s'' \<Longrightarrow> chat_only s s''"
  by (auto simp: chat_only_def)

lemma chat_only_say: "chat_only s (say e t s)"
  by (auto simp: chat_only_def say_def)

lemma announce_frame: "chat_only s (announce_round e p correct eliminated s)"
proof -
  have "chat_only s (fold (\<lambda>i s. say e (entry_name s e i @ t) s) is s)" for "is" t s
  proof (induction "is" arbitrary: s)
    case Nil
    show ?case unfolding chat_only_def by (rule exI [of _ "g_chat s"]) simp
  next
    case (Cons i "is")
    from chat_only_trans [OF chat_only_say this] show ?case by simp
  qed
  note said = this
  show ?thesis
  proof (cases "correct = []")
    case True
    show ?thesis unfolding announce_round_def Let_def if_P [OF True] by (rule chat_only_say)
  next
    case False
    show ?thesis unfolding announce_round_def Let_def if_not_P [OF False] by (rule chat_only_trans [OF chat_only_say said])
  qed
qed

lemma entries_knocked:
  assumes "g_cast s' = map (knock_out correct ms) (g_cast s)"
  shows "active_entries s' i = filter (\<lambda>m. \<not> (outcome_of correct (cast_id m) = Attempt_Incorrect \<and> cast_id m \<in> ms)) (active_entries s i)"
proof -
  have "entry_rows s' i = map (knock_out correct ms) (entry_rows s i)"
    unfolding entry_rows_def assms filter_map by (subst sort_key_map) (simp_all add: comp_def)
  moreover have "filter cast_active (map (knock_out correct ms) xs)
      = filter (\<lambda>m. \<not> (outcome_of correct (cast_id m) = Attempt_Incorrect \<and> cast_id m \<in> ms)) (filter cast_active xs)" for xs
    by (induction xs) (auto simp: knock_out_def)
  ultimately show ?thesis by (simp add: active_entries_def)
qed

subsection \<open>Scheduling a round\<close>

lemma practice_game_Inr:
  assumes "practice_game st t rnd pair engine opening = Inr (st', g)"
  shows "g = next_game st" "map game_id (games st') = map game_id (games st) @ [g]" "next_game st' = g + 1"
    "tournaments st' = tournaments st"
  using assms by (auto simp: practice_game_def rbind_eq_Inr create_game_Inr comp_def)

lemma schedule_entry_facts:
  assumes "schedule_entry e t p s (n, m) = Inr s'" and "field_ok s i"
  shows "field_ok s' i" "g_cast s' = g_cast s" "g_puzzles s' = g_puzzles s" "g_configs s' = g_configs s" "g_events s' = g_events s"
    "\<exists>a. g_attempts s' = g_attempts s @ [a] \<and> attempt_member a = cast_id m \<and> attempt_puzzle a = puzzle_id p
      \<and> attempt_event a = e \<and> attempt_outcome a = Attempt_Pending"
proof -
  obtain st g where st: "practice_game (g_store s) t (puzzle_position p + 1) (int n) (entry_engine m) (puzzle_opening p) = Inr (st, g)"
    and s': "s' = s\<lparr>g_store := st, next_attempt := next_attempt s + 1,
         g_attempts := g_attempts s @ [\<lparr>attempt_id = next_attempt s, attempt_event = e, attempt_puzzle = puzzle_id p,
           attempt_member = cast_id m, attempt_game = g, attempt_outcome = Attempt_Pending, attempt_move = None,
           attempt_elapsed = None\<rparr>]\<rparr>"
    using assms(1) by (auto simp: schedule_entry_def rbind_eq_Inr split: if_splits)
  note game = practice_game_Inr [OF st]
  have ids: "game_id ` set (games st) = insert g (game_id ` set (games (g_store s)))"
    using arg_cong [OF game(2), of set] by auto
  have fresh: "g \<notin> attempt_game ` set (g_attempts s)"
    using assms(2) game(1) unfolding field_ok_def by fastforce
  have "puzzle_rows s' i = puzzle_rows s i" by (simp add: puzzle_rows_def s')
  moreover have "\<forall>r \<in> set (games st). game_id r < next_game st"
  proof
    fix r assume "r \<in> set (games st)"
    then have "game_id r \<in> insert g (game_id ` set (games (g_store s)))" using ids by blast
    then show "game_id r < next_game st" using assms(2) game(1,3) unfolding field_ok_def by force
  qed
  ultimately show "field_ok s' i"
    using assms(2) fresh ids by (auto simp: field_ok_def s' sorted_append intro: less_imp_le less_trans)
  show "g_cast s' = g_cast s" "g_puzzles s' = g_puzzles s" "g_configs s' = g_configs s" "g_events s' = g_events s"
    "\<exists>a. g_attempts s' = g_attempts s @ [a] \<and> attempt_member a = cast_id m \<and> attempt_puzzle a = puzzle_id p
      \<and> attempt_event a = e \<and> attempt_outcome a = Attempt_Pending"
    by (simp_all add: s')
qed

lemma schedule_round_facts:
  assumes "fold_result (schedule_entry e t p) s (enumerate n ms) = Inr s'" and "field_ok s i"
  shows "field_ok s' i \<and> g_cast s' = g_cast s \<and> g_puzzles s' = g_puzzles s \<and> g_configs s' = g_configs s \<and> g_events s' = g_events s
    \<and> (\<exists>new. g_attempts s' = g_attempts s @ new \<and> map attempt_member new = map cast_id ms
        \<and> (\<forall>a \<in> set new. attempt_puzzle a = puzzle_id p))"
  using assms
proof (induction ms arbitrary: s n)
  case (Cons m ms)
  obtain s1 where s1: "schedule_entry e t p s (n, m) = Inr s1" and rest: "fold_result (schedule_entry e t p) s1 (enumerate (Suc n) ms) = Inr s'"
    using Cons.prems(1) by (auto simp: rbind_eq_Inr)
  note one = schedule_entry_facts [OF s1 Cons.prems(2)]
  obtain a where a: "g_attempts s1 = g_attempts s @ [a]" "attempt_member a = cast_id m" "attempt_puzzle a = puzzle_id p"
    using one(6) by blast
  obtain new where new: "g_attempts s' = g_attempts s1 @ new" "map attempt_member new = map cast_id ms"
    "\<forall>a \<in> set new. attempt_puzzle a = puzzle_id p"
    using Cons.IH [OF rest one(1)] by blast
  have "g_attempts s' = g_attempts s @ (a # new) \<and> map attempt_member (a # new) = map cast_id (m # ms)
      \<and> (\<forall>b \<in> set (a # new). attempt_puzzle b = puzzle_id p)"
    using a new by simp
  then show ?case using Cons.IH [OF rest one(1)] one(1-5) by metis
qed simp

subsection \<open>From one round to the next\<close>

lemma field_ok_same:
  assumes "field_ok s i" and "g_puzzles s' = g_puzzles s" and "map cast_id (g_cast s') = map cast_id (g_cast s)"
    and keys: "map attempt_key (g_attempts s') = map attempt_key (g_attempts s)" and "next_attempt s' = next_attempt s"
    and "games (g_store s') = games (g_store s)" and "next_game (g_store s') = next_game (g_store s)"
  shows "field_ok s' i"
proof -
  have ids: "map attempt_id (g_attempts s') = map attempt_id (g_attempts s)"
    using arg_cong [OF keys, of "map fst"] by (simp add: comp_def attempt_key_def)
  have gs: "map attempt_game (g_attempts s') = map attempt_game (g_attempts s)"
    using arg_cong [OF keys, of "map (\<lambda>k. snd (snd (snd k)))"] by (simp add: comp_def attempt_key_def)
  have "\<forall>a \<in> set (g_attempts s'). attempt_id a < next_attempt s'"
  proof
    fix a assume "a \<in> set (g_attempts s')"
    then have "attempt_id a \<in> set (map attempt_id (g_attempts s))" unfolding ids [symmetric] by simp
    then show "attempt_id a < next_attempt s'" using assms(1,5) by (auto simp: field_ok_def)
  qed
  moreover have "attempt_game ` set (g_attempts s') = attempt_game ` set (g_attempts s)"
    using arg_cong [OF gs, of set] by simp
  moreover have "puzzle_rows s' i = puzzle_rows s i" using assms(2) by (simp add: puzzle_rows_def)
  ultimately show ?thesis using assms ids gs by (simp add: field_ok_def)
qed

lemma attempts_at_same:
  assumes "map attempt_key (g_attempts s') = map attempt_key (g_attempts s)"
  shows "map attempt_member (attempts_at s' p) = map attempt_member (attempts_at s p)"
    and "attempts_at s' p = [] \<longleftrightarrow> attempts_at s p = []"
proof -
  have "map attempt_member (filter (\<lambda>a. attempt_puzzle a = k) xs) = map (\<lambda>x. fst (snd (snd x))) (filter (\<lambda>x. fst (snd x) = k) (map attempt_key xs))"
    for k xs by (induction xs) (auto simp: attempt_key_def)
  then show "map attempt_member (attempts_at s' p) = map attempt_member (attempts_at s p)"
    using assms by (simp add: attempts_at_def)
  then show "attempts_at s' p = [] \<longleftrightarrow> attempts_at s p = []" by (metis map_is_Nil_conv)
qed

lemma correct_members_in:
  assumes "field_ok s i" and "round_ready s i p"
  shows "set (correct_members read_pgn s p) \<subseteq> set (map cast_id (active_entries s i))"
proof -
  have "set (correct_members read_pgn s p) \<subseteq> set (map attempt_member (attempts_at s p))"
    by (auto simp: correct_members_def round_attempts_ready [OF assms])
  moreover have "map attempt_member (attempts_at s p) = map cast_id (active_entries s i)" using assms(2) by (simp add: round_ready_def)
  ultimately show ?thesis by simp
qed

lemma close_round_facts:
  assumes "field_ok s i" and "round_ready s i p" and "correct = correct_members read_pgn s p"
    and "s1 = announce_round i p correct missed (close_round read_pgn s p)"
  shows "same_round s s1" "field_ok s1 i"
    "active_entries s1 i = (if correct = [] then active_entries s i else filter (\<lambda>m. cast_id m \<in> set correct) (active_entries s i))"
    "active_entries s1 i \<noteq> []"
proof -
  let ?s = "close_round read_pgn s p"
  note fold = close_fold [of s read_pgn p correct "attempts_at s p"]
  have same: "same_round s ?s" and cast: "g_cast ?s = map (knock_out correct (attempt_member ` set (attempts_at s p))) (g_cast s)"
    using fold assms(3) by (simp_all add: close_round_def round_attempts_ready [OF assms(1,2)])
  have members: "attempt_member ` set (attempts_at s p) = cast_id ` set (active_entries s i)"
    using assms(2) by (metis list.set_map round_ready_def)
  obtain chat where s1: "s1 = ?s\<lparr>g_chat := chat\<rparr>" using announce_frame assms(4) unfolding chat_only_def by metis
  show "same_round s s1" using same by (simp add: s1 same_round_def)
  have "map cast_id (g_cast ?s) = map cast_id (g_cast s)" by (simp add: cast comp_def)
  then show "field_ok s1 i" using same by (intro field_ok_same [OF assms(1)]) (simp_all add: s1 same_round_def)
  have "active_entries s1 i = active_entries ?s i" by (simp add: s1 active_entries_def entry_rows_def)
  then show active: "active_entries s1 i = (if correct = [] then active_entries s i else filter (\<lambda>m. cast_id m \<in> set correct) (active_entries s i))"
    unfolding entries_knocked [OF cast] members by (auto simp: outcome_of_def intro!: filter_cong)
  show "active_entries s1 i \<noteq> []"
  proof (cases "correct = []")
    case True
    then show ?thesis using active assms(2) by (simp add: round_ready_def)
  next
    case False
    then obtain c where "c \<in> set correct" by (cases correct) auto
    then show ?thesis using False active correct_members_in [OF assms(1,2), of read_pgn] assms(3) by (auto simp: filter_empty_conv)
  qed
qed

lemma schedule_ready:
  assumes "schedule_round s i t q (active_entries s i) = Inr s'" and "field_ok s i" and "q \<in> set (puzzle_rows s i)"
    and "active_entries s i \<noteq> []" and "\<forall>r \<in> set (puzzle_rows s i). attempts_at s r \<noteq> [] \<longrightarrow> puzzle_position r < puzzle_position q"
  shows "field_ok s' i" "round_ready s' i q" "g_cast s' = g_cast s" "g_events s' = g_events s" "g_configs s' = g_configs s"
proof -
  obtain new where facts: "field_ok s' i" "g_cast s' = g_cast s" "g_puzzles s' = g_puzzles s" "g_configs s' = g_configs s"
    "g_events s' = g_events s" and new: "g_attempts s' = g_attempts s @ new"
    "map attempt_member new = map cast_id (active_entries s i)" "\<forall>a \<in> set new. attempt_puzzle a = puzzle_id q"
    using schedule_round_facts [OF assms(1)[unfolded schedule_round_def] assms(2)] by blast
  show "field_ok s' i" "g_cast s' = g_cast s" "g_events s' = g_events s" "g_configs s' = g_configs s" by fact+
  have active: "active_entries s' i = active_entries s i" using facts(2) by (simp add: active_entries_def entry_rows_def)
  have rows: "puzzle_rows s' i = puzzle_rows s i" using facts(3) by (simp add: puzzle_rows_def)
  have at: "attempts_at s' r = attempts_at s r @ filter (\<lambda>a. attempt_puzzle a = puzzle_id r) new" for r
    by (simp add: attempts_at_def new(1))
  have "attempts_at s q = []" using assms(3,5) by auto
  then have q: "attempts_at s' q = new" using new(3) by (simp add: at)
  have "puzzle_position r \<le> puzzle_position q" if r: "r \<in> set (puzzle_rows s i)" "attempts_at s' r \<noteq> []" for r
  proof (cases "attempts_at s r = []")
    case True
    then have "puzzle_id r = puzzle_id q" using r new(3) by (auto simp: at filter_empty_conv)
    moreover have "r \<in> set (g_puzzles s)" "q \<in> set (g_puzzles s)" using r(1) assms(3) by (simp_all add: puzzle_rows_def)
    ultimately have "r = q" using assms(2) by (auto simp: field_ok_def distinct_map dest: inj_onD)
    then show ?thesis by simp
  next
    case False
    then show ?thesis using assms(5) r(1) by force
  qed
  then show "round_ready s' i q" using assms(3,4) q new(2) unfolding round_ready_def by (simp add: active rows)
qed

lemma next_round_ready:
  assumes "next_round now s e c r p q reports = Inr (s', answer)" and "ge_id e = i" and "field_ok s i"
    and "q \<in> set (puzzle_rows s i)" and "active_entries s i \<noteq> []"
    and "\<forall>x \<in> set (puzzle_rows s i). attempts_at s x \<noteq> [] \<longrightarrow> puzzle_position x < puzzle_position q"
  shows "answer = Some Gauntlet_Advanced" "field_ok s' i" "round_ready s' i q" "active_entries s' i = active_entries s i"
proof -
  obtain s2 config st
    where s2: "schedule_round (s\<lparr>g_store := update_tournament (tour_id r) (\<lambda>r. r\<lparr>tour_config := config\<rparr>) (g_store s)\<rparr>)
           i (tour_id r) q (active_entries s i) = Inr s2" (is "schedule_round ?s _ _ _ _ = _")
      and s': "s' = set_event_state i st s2" and answer: "answer = Some Gauntlet_Advanced"
    using assms(1,2) by (auto simp: next_round_def rbind_eq_Inr)
  have active: "active_entries ?s i = active_entries s i" by (simp add: active_entries_def entry_rows_def)
  have rows: "puzzle_rows ?s i = puzzle_rows s i" by (simp add: puzzle_rows_def)
  have "attempts_at ?s x = attempts_at s x" for x by (simp add: attempts_at_def)
  moreover have "field_ok ?s i" by (rule field_ok_same [OF assms(3)]) (simp_all add: update_tournament_def)
  ultimately have ready: "field_ok s2 i" "round_ready s2 i q" "g_cast s2 = g_cast ?s"
    using schedule_ready [of ?s i "tour_id r" q s2] s2 assms(4-6) unfolding active rows by simp_all
  show "answer = Some Gauntlet_Advanced" by (rule answer)
  show "active_entries s' i = active_entries s i" using ready(3) by (simp add: s' set_event_state_def active_entries_def entry_rows_def)
  show "field_ok s' i" by (rule field_ok_same [OF ready(1)]) (simp_all add: s' set_event_state_def)
  show "round_ready s' i q" using ready(2)
    by (simp add: s' set_event_state_def round_ready_def attempts_at_def puzzle_rows_def active_entries_def entry_rows_def)
qed

lemma or_failed_Inr: "or_failed r = Inr x \<longleftrightarrow> r = Inr x"
  by (cases r) (simp_all add: or_failed_def)

lemma set_running_frame:
  "g_puzzles (set_gauntlet_tournament_status stamp t Running s) = g_puzzles s"
  "g_attempts (set_gauntlet_tournament_status stamp t Running s) = g_attempts s"
  "g_cast (set_gauntlet_tournament_status stamp t Running s) = g_cast s"
  "next_attempt (set_gauntlet_tournament_status stamp t Running s) = next_attempt s"
  "games (g_store (set_gauntlet_tournament_status stamp t Running s)) = games (g_store s)"
  "next_game (g_store (set_gauntlet_tournament_status stamp t Running s)) = next_game (g_store s)"
  by (simp_all add: set_gauntlet_tournament_status_def reconcile_gauntlet_def put_status_def update_tournament_def Let_def
      split: option.split)

lemma set_gauntlet_status_frame:
  assumes "set_gauntlet_status i es s = Inr s'"
  shows "g_puzzles s' = g_puzzles s" "g_attempts s' = g_attempts s" "g_cast s' = g_cast s" "next_attempt s' = next_attempt s"
    "g_store s' = g_store s"
  using assms by (auto simp: set_gauntlet_status_def split: if_splits)

lemma start_gauntlet_Inr:
  assumes "start_gauntlet benchmarked stamp now s i = Inr s'"
  obtains t k s2 cs es st where "schedule_round (s\<lparr>g_store := (g_store s)\<lparr>tournaments := tournaments (g_store s) @ [t]\<rparr>, next_tournament := next_tournament s + 1\<rparr>)
        i k (hd (puzzle_rows s i)) (active_entries s i) = Inr s2"
    and "puzzle_rows s i \<noteq> []" and "2 \<le> length (active_entries s i)"
    and "set_gauntlet_status i es (set_event_state i st (s2\<lparr>g_configs := cs\<rparr>)) = Inr s'
      \<or> set_gauntlet_status i es (set_event_state i st (set_gauntlet_tournament_status stamp k Running (s2\<lparr>g_configs := cs\<rparr>))) = Inr s'"
proof -
  obtain e c where "gauntlet_event_of s i = Some e" "List.find (\<lambda>c. gc_event c = i) (g_configs s) = Some c"
    using assms by (auto simp: start_gauntlet_def split: option.splits)
  then show ?thesis
    using assms that unfolding start_gauntlet_def Let_def
    by (simp add: rbind_eq_Inr or_failed_Inr del: One_nat_def split: if_splits) (elim conjE exE, rule that, assumption+, blast)+
qed

text \<open>A gauntlet that has no attempts starts with the round of its first puzzle.\<close>

lemma gauntlet_starts:
  assumes "start_gauntlet benchmarked stamp now s i = Inr s'" and "field_ok s i"
    and "\<forall>q \<in> set (puzzle_rows s i). attempts_at s q = []"
  shows "field_ok s' i" "round_ready s' i (hd (puzzle_rows s i))" "active_entries s' i = active_entries s i"
proof -
  obtain t k s2 cs es st where s2: "schedule_round (s\<lparr>g_store := (g_store s)\<lparr>tournaments := tournaments (g_store s) @ [t]\<rparr>, next_tournament := next_tournament s + 1\<rparr>)
        i k (hd (puzzle_rows s i)) (active_entries s i) = Inr s2" (is "schedule_round ?s _ _ _ _ = _")
    and rows: "puzzle_rows s i \<noteq> []" and entries: "2 \<le> length (active_entries s i)"
    and last: "set_gauntlet_status i es (set_event_state i st (s2\<lparr>g_configs := cs\<rparr>)) = Inr s'
      \<or> set_gauntlet_status i es (set_event_state i st (set_gauntlet_tournament_status stamp k Running (s2\<lparr>g_configs := cs\<rparr>))) = Inr s'"
    using assms(1) by (rule start_gauntlet_Inr)
  from last have s': "g_puzzles s' = g_puzzles s2" "g_attempts s' = g_attempts s2" "g_cast s' = g_cast s2" "next_attempt s' = next_attempt s2"
      "games (g_store s') = games (g_store s2)" "next_game (g_store s') = next_game (g_store s2)"
    by (auto simp: set_event_state_def set_running_frame dest: set_gauntlet_status_frame)
  have active: "active_entries ?s i = active_entries s i" by (simp add: active_entries_def entry_rows_def)
  have "puzzle_rows ?s i = puzzle_rows s i" "attempts_at ?s x = attempts_at s x" for x by (simp_all add: puzzle_rows_def attempts_at_def)
  moreover have "field_ok ?s i" by (rule field_ok_same [OF assms(2)]) simp_all
  ultimately have ready: "field_ok s2 i" "round_ready s2 i (hd (puzzle_rows s i))" "g_cast s2 = g_cast ?s"
    using schedule_ready [of ?s i k "hd (puzzle_rows s i)" s2] s2 assms(3) rows entries unfolding active by (simp_all, force+)
  show "active_entries s' i = active_entries s i" using ready(3) s'(3) by (simp add: active_entries_def entry_rows_def)
  show "field_ok s' i" by (rule field_ok_same [OF ready(1)]) (simp_all add: s')
  show "round_ready s' i (hd (puzzle_rows s i))" using ready(2) s'
    by (simp add: round_ready_def attempts_at_def puzzle_rows_def active_entries_def entry_rows_def)
qed

text \<open>
  C33: Each round of a gauntlet knocks out exactly the engines that missed a puzzle another one solved,
  so somebody always remains.  When a round is closed, the entries still in are those that
  solved the puzzle, or all of them when nobody did; there is at least one; when the gauntlet goes on,
  the next puzzle of the list is scheduled for exactly these entries; and when it is complete, they are
  its winners.
\<close>

theorem gauntlet_round:
  assumes "field_ok s i" and "round_ready s i p" and "config_of_tournament s t = Some c" and "gc_event c = i"
    and "gauntlet_event_of s i = Some e" and "get_tournament (g_store s) t = Some r"
    and "advance_puzzle_gauntlet read_pgn stamp now s t = Inr (s', answer)"
    and "correct = correct_members read_pgn s p"
  shows "active_entries s' i = (if correct = [] then active_entries s i else filter (\<lambda>m. cast_id m \<in> set correct) (active_entries s i))
    \<and> active_entries s' i \<noteq> []
    \<and> (answer = Some Gauntlet_Advanced \<and> field_ok s' i \<and> round_ready s' i (puzzle_rows s i ! nat (puzzle_position p + 1))
      \<or> answer = Some Gauntlet_Completed
         \<and> map_option (winner_ids \<circ> ge_state) (gauntlet_event_of s' i) = Some (map cast_id (active_entries s' i)))"
proof -
  have ei: "ge_id e = i" using assms(5) find_Some_iff_in unfolding gauntlet_event_of_def by fastforce
  define missed where "missed = (if correct = [] then [] else sort (filter (\<lambda>m. m \<notin> set correct) (map attempt_member (round_attempts s p))))"
  define reports where "reports = rounds_done (ge_state e) @ [report_of stamp p correct missed]"
  define s1 where "s1 = announce_round i p correct missed (close_round read_pgn s p)"
  note closed = close_round_facts [OF assms(1,2,8) s1_def]
  have rows: "puzzle_rows s1 i = puzzle_rows s i" using closed(1) by (simp add: same_round_def puzzle_rows_def)
  have step: "(if length (active_entries s1 i) \<le> 1 \<or> int (length (puzzle_rows s i)) - 1 \<le> puzzle_position p
              then rbind (set_gauntlet_status i Ev_Completed (set_event_state i
                  ((ge_state e)\<lparr>phase := Phase_Completed, current_puzzle := puzzle_id p, rounds_done := reports,
                     winner_ids := map cast_id (active_entries s1 i)\<rparr>) s1)) (\<lambda>s2. Inr (s2, Some Gauntlet_Completed))
              else next_round now s1 e c r p (puzzle_rows s i ! nat (puzzle_position p + 1)) reports) = Inr (s', answer)"
    using assms(7) unfolding advance_puzzle_gauntlet_def Let_def
    by (simp add: assms(3-6) latest_ready [OF assms(1,2)] ei missed_def [unfolded assms(8), symmetric]
        reports_def [unfolded assms(8), symmetric] s1_def [unfolded assms(8), symmetric] rows cong: if_cong)
  show ?thesis
  proof (cases "length (active_entries s1 i) \<le> 1 \<or> int (length (puzzle_rows s i)) - 1 \<le> puzzle_position p")
    case True
    let ?st = "(ge_state e)\<lparr>phase := Phase_Completed, current_puzzle := puzzle_id p, rounds_done := reports,
                     winner_ids := map cast_id (active_entries s1 i)\<rparr>"
    have completed: "set_gauntlet_status i Ev_Completed (set_event_state i ?st s1) = Inr s'" "answer = Some Gauntlet_Completed"
      using step True by (auto simp: rbind_eq_Inr)
    have "active_entries s' i = active_entries s1 i"
      using completed(1) by (auto simp: set_gauntlet_status_def set_event_state_def active_entries_def entry_rows_def split: if_splits)
    moreover have "gauntlet_event_of (set_event_state i ?st s1) i = Some (e\<lparr>ge_state := ?st\<rparr>)"
      using closed(1) assms(5) find_mapped [of ge_id "\<lambda>e. e\<lparr>ge_state := ?st\<rparr>" i "g_events s1"]
      by (simp add: gauntlet_event_of_def set_event_state_def same_round_def)
    ultimately show ?thesis using closed(3,4) completed(2) set_gauntlet_status_event(3) [OF completed(1)] by simp
  next
    case False
    let ?q = "puzzle_rows s i ! nat (puzzle_position p + 1)"
    have p: "p \<in> set (puzzle_rows s i)" using assms(2) by (simp add: round_ready_def)
    have lt: "nat (puzzle_position p + 1) < length (puzzle_rows s i)" using False puzzle_at(1) [OF assms(1) p] by linarith
    have "map puzzle_position (puzzle_rows s i) ! nat (puzzle_position p + 1) = int (nat (puzzle_position p + 1))"
      using assms(1) lt unfolding field_ok_def by simp
    then have pos: "puzzle_position ?q = puzzle_position p + 1" using lt puzzle_at(1) [OF assms(1) p] by simp
    have "attempts_at s1 x = [] \<longleftrightarrow> attempts_at s x = []" for x
      using closed(1) by (intro attempts_at_same(2)) (simp add: same_round_def)
    then have "\<forall>x \<in> set (puzzle_rows s i). attempts_at s1 x \<noteq> [] \<longrightarrow> puzzle_position x < puzzle_position ?q"
      using assms(2) pos by (force simp: round_ready_def)
    moreover have "next_round now s1 e c r p ?q reports = Inr (s', answer)" using step False by simp
    ultimately have "answer = Some Gauntlet_Advanced" "field_ok s' i" "round_ready s' i ?q" "active_entries s' i = active_entries s1 i"
      using next_round_ready [of now s1 e c r p ?q reports s' answer i] closed(2,4) lt ei rows by simp_all
    then show ?thesis using closed(3,4) by simp
  qed
qed

subsection \<open>A gauntlet of three engines\<close>

text \<open>
  Engines 11, 12 and 13 are at the first of two puzzles: the first plays its solution, and the others another move.
\<close>

definition trial_entry :: "int \<Rightarrow> cast_member" where
  "trial_entry i = \<lparr>cast_id = i, cast_event = 1, cast_kind = Cast_Engine, cast_parent = None, cast_name = ''e'',
     cast_short_name = ''e'', cast_active = True, cast_engine = Some (10 + i), cast_position = i, meta_threads = None,
     meta_hash_mb = None, meta_relay_order = None\<rparr>"

definition trial_puzzle :: "int \<Rightarrow> puzzle_row" where
  "trial_puzzle k = \<lparr>puzzle_id = 20 + k, puzzle_event = 1, puzzle_opening = 30 + k, puzzle_position = k, puzzle_title = ''p'',
     puzzle_fen = ''f'', puzzle_solutions = [''d2d4'']\<rparr>"

definition trial_attempt :: "int \<Rightarrow> attempt_row" where
  "trial_attempt i = \<lparr>attempt_id = i, attempt_event = 1, attempt_puzzle = 20, attempt_member = i, attempt_game = i,
     attempt_outcome = Attempt_Pending, attempt_move = None, attempt_elapsed = None\<rparr>"

definition trial_game :: "int \<Rightarrow> game_record" where
  "trial_game i = \<lparr>game_id = i, game_tournament = 1, game_round = 1, game_pair = i, white_engine = 10 + i, black_engine = 10 + i,
     game_match = None, game_number = 1, tiebreak = None, game_opening = Some 30, game_status = Game_Finished,
     record_eligible = False, game_result = None\<rparr>"

definition trial_config :: gauntlet_config where
  "trial_config = \<lparr>gc_event = 1, gc_tournament = Some 1, gc_suite = 4, gc_start_time = 1000, gc_decrement = 100, gc_minimum = 200,
     gc_threads = 1, gc_hash_mb = 16\<rparr>"

definition trial_event :: "gauntlet_state \<Rightarrow> gauntlet_event" where
  "trial_event st = \<lparr>ge_id = 1, ge_title = ''trial'', ge_status = Ev_Live, ge_state = st, ge_scheduled_start = None\<rparr>"

definition trial_state :: gauntlet_state where
  "trial_state = \<lparr>phase = Phase_Live, current_puzzle = 20, transition = None, rounds_done = [], winner_ids = []\<rparr>"

definition trial_tournament :: tournament_record where
  "trial_tournament = sample_tournament ROUND_ROBIN (RoundRobinFormatOptions 1) [11, 12, 13]"

definition trial_gauntlet :: gauntlet where
  "trial_gauntlet = \<lparr>g_store = (sample_store trial_tournament)\<lparr>games := map trial_game [1, 2, 3], next_game := 4\<rparr>,
     g_moves = [], g_pgns = [(1, ''d2d4''), (2, ''g1f3''), (3, ''e2e4'')], g_events = [trial_event trial_state],
     g_configs = [trial_config], g_puzzles = [trial_puzzle 0, trial_puzzle 1], g_attempts = map trial_attempt [1, 2, 3],
     g_cast = map trial_entry [1, 2, 3], g_eliminations = [], g_names = (\<lambda>i. ''e''), g_chat = [], next_attempt = 4,
     next_tournament = 2\<rparr>"

lemmas trial_defs = trial_gauntlet_def trial_entry_def trial_puzzle_def trial_attempt_def trial_game_def trial_config_def trial_event_def
  trial_state_def trial_tournament_def

lemma trial_active: "map cast_id (active_entries trial_gauntlet 1) = [1, 2, 3]"
  by (simp add: active_entries_def entry_rows_def trial_defs)

lemma trial_puzzles: "puzzle_rows trial_gauntlet 1 = [trial_puzzle 0, trial_puzzle 1]"
  by (simp add: puzzle_rows_def trial_defs)

lemma trial_field_ok: "field_ok trial_gauntlet 1"
  by (simp add: field_ok_def trial_puzzles) (simp add: trial_defs sample_store_def)

lemma trial_ready: "round_ready trial_gauntlet 1 (trial_puzzle 0)"
proof -
  have "active_entries trial_gauntlet 1 \<noteq> []" using trial_active by auto
  then show ?thesis by (simp add: round_ready_def trial_active trial_puzzles) (simp add: attempts_at_def trial_defs)
qed

lemma trial_moves: "lower ''d2d4'' = ''d2d4''" "lower ''g1f3'' = ''g1f3''" "lower ''e2e4'' = ''e2e4''"
  by code_simp+

lemma trial_correct: "correct_members Some trial_gauntlet (trial_puzzle 0) = [1]"
  unfolding correct_members_def round_attempts_ready [OF trial_field_ok trial_ready]
  by (simp add: attempts_at_def attempt_move_uci_def first_move_def trial_defs trial_moves)

lemma trial_tables:
  "config_of_tournament trial_gauntlet 1 = Some trial_config" "gc_event trial_config = 1" "ge_id (trial_event st) = 1"
  "gauntlet_event_of trial_gauntlet 1 = Some (trial_event trial_state)" "get_tournament (g_store trial_gauntlet) 1 = Some trial_tournament"
  by (simp_all add: config_of_tournament_def gauntlet_event_of_def get_tournament_def trial_defs sample_store_def sample_tournament_def)

lemma trial_survivor: "map cast_id (filter (\<lambda>m. cast_id m = 1) (active_entries trial_gauntlet 1)) = [1]"
proof -
  have "map cast_id (filter (\<lambda>m. cast_id m = 1) xs) = filter (\<lambda>k. k = 1) (map cast_id xs)" for xs :: "cast_member list"
    by (induction xs) auto
  then show ?thesis by (simp add: trial_active)
qed

lemma trial_completes: "\<exists>s' answer. advance_puzzle_gauntlet Some ''t'' 0 trial_gauntlet 1 = Inr (s', answer)"
proof -
  have "\<exists>s'. set_gauntlet_status 1 Ev_Completed (set_event_state 1 st (announce_round 1 p c m (close_round Some trial_gauntlet q))) = Inr s'"
    for st p c m q
  proof -
    obtain chat where "announce_round 1 p c m (close_round Some trial_gauntlet q) = (close_round Some trial_gauntlet q)\<lparr>g_chat := chat\<rparr>"
      using announce_frame unfolding chat_only_def by metis
    then have "g_events (announce_round 1 p c m (close_round Some trial_gauntlet q)) = g_events trial_gauntlet"
      using close_fold [of trial_gauntlet Some q "correct_members Some trial_gauntlet q" "round_attempts trial_gauntlet q"]
      by (simp add: close_round_def same_round_def)
    then show ?thesis
      by (simp add: set_gauntlet_status_def gauntlet_event_of_def set_event_state_def trial_gauntlet_def trial_event_def)
  qed
  moreover have "length (active_entries (announce_round 1 (trial_puzzle 0) [1] m (close_round Some trial_gauntlet (trial_puzzle 0))) 1) = 1" for m
    using close_round_facts(3) [OF trial_field_ok trial_ready trial_correct [symmetric] refl] arg_cong [OF trial_survivor, of length] by simp
  ultimately show ?thesis
    by (simp add: advance_puzzle_gauntlet_def latest_ready [OF trial_field_ok trial_ready] trial_correct Let_def trial_tables)
      (auto simp: rbind_eq_Inr)
qed

theorem gauntlet_round_witness:
  "\<exists>s' answer. advance_puzzle_gauntlet Some ''t'' 0 trial_gauntlet 1 = Inr (s', answer) \<and> map cast_id (active_entries s' 1) = [1]"
proof -
  obtain s' answer where s': "advance_puzzle_gauntlet Some ''t'' 0 trial_gauntlet 1 = Inr (s', answer)" using trial_completes by blast
  have "active_entries s' 1 = filter (\<lambda>m. cast_id m = 1) (active_entries trial_gauntlet 1)"
    using gauntlet_round [OF trial_field_ok trial_ready trial_tables(1,2,4,5) s' trial_correct [symmetric]] by simp
  then show ?thesis using s' trial_survivor by simp
qed

text \<open>The same gauntlet between its rounds, where a pause stops it.\<close>

definition trial_break :: gauntlet where
  "trial_break = trial_gauntlet\<lparr>g_events := [trial_event (trial_state\<lparr>phase := Phase_Intermission,
     transition := Some \<lparr>completed_puzzle = 20, next_puzzle = 21, transition_started = 0, transition_starts = 2000\<rparr>\<rparr>)]\<rparr>"

theorem paused_intermission_never_ends_witness:
  "\<exists>s1 s2. gauntlet_action ''t1'' trial_break 1 Pause = Inr s1 \<and> gauntlet_action ''t2'' s1 1 Resume = Inr s2
    \<and> release_puzzle_gauntlet_round 9000 s2 1 21 = Inr (s2, Stopped)"
proof -
  let ?e = "trial_event (trial_state\<lparr>phase := Phase_Intermission,
     transition := Some \<lparr>completed_puzzle = 20, next_puzzle = 21, transition_started = 0, transition_starts = 2000\<rparr>\<rparr>)"
  have tables: "List.find (\<lambda>c. gc_event c = 1) (g_configs trial_break) = Some trial_config"
    "config_of_tournament trial_break 1 = Some trial_config" "gauntlet_event_of trial_break 1 = Some ?e"
    "get_tournament (g_store trial_break) 1 = Some trial_tournament"
    using trial_tables by (simp_all add: trial_break_def config_of_tournament_def gauntlet_event_of_def trial_gauntlet_def)
  obtain s1 where s1: "gauntlet_action ''t1'' trial_break 1 Pause = Inr s1"
    "get_tournament (g_store s1) 1 = Some (with_status ''t1'' Paused trial_tournament)"
    by (rule gauntlet_action_succeeds [of Pause Paused trial_tournament, OF _ tables])
      (simp_all add: trial_tournament_def sample_tournament_def)
  note paused = gauntlet_action_event [OF s1(1) _ tables(1-3), of Paused, simplified]
  obtain s2 where s2: "gauntlet_action ''t2'' s1 1 Resume = Inr s2"
    using gauntlet_action_succeeds [of Resume Running, OF _ _ _ paused(2) s1(2), of trial_config] tables(1,2) paused(1)
    by (auto simp: config_of_tournament_def with_status_def)
  show ?thesis
    using s1(1) s2 paused_intermission_never_ends [OF tables(1-3) _ _ _ _ tables(4) _ s1(1) s2, of _ 9000]
    by (simp add: trial_event_def trial_state_def trial_tournament_def sample_tournament_def)
qed

end
