(* ===== verification/Benchmark_Jobs.thy ===== *)
theory Benchmark_Jobs
  imports Model_Config "HOL-Library.Char_ord" "HOL-Library.List_Lexorder" "HOL-Library.Product_Lexorder"
begin

text \<open>
  Benchmarks of engine builds (\<open>cope/db/benchmarks.py\<close>) and the transactions of the benchmark server
  (\<open>cope/runner/benchmark_server.py\<close>).  Benchmark machines register under a credential that is bound
  to their hardware, claim queued jobs of that hardware and report a speed or a failure.  Every pair of a
  build and a hardware profile has at most one job and one result.  The digests of tokens, of hardware
  profiles and the random keys of jobs are arguments; so is the table of execution ownership, as
  the set of jobs that may be claimed.  The description of a machine and of an engine that is stored as
  JSON is kept as it is.  A constraint of the tables that is violated is an \<open>IntegrityError\<close>; the keys that
  refer to engine versions, which live elsewhere, are not checked.
\<close>

subsection \<open>Tables\<close>

datatype benchmarker_status = Bm_Minted | Bm_Connected | Bm_Busy | Bm_Offline | Bm_Revoked

record benchmarker =
  bm_id :: int
  bm_label :: string
  bm_token :: "string option"
  bm_expires :: "int option"
  bm_status :: benchmarker_status
  bm_session :: "string option"
  bm_commit :: "string option"
  bm_protocol :: "int option"
  bm_machine :: "string option"
  bm_hardware :: "string option"
  bm_hw :: "string option"
  bm_created :: string
  bm_seen :: "string option"

datatype job_status = Job_Queued | Job_Running | Job_Succeeded | Job_Failed

record bench_job =
  job_id :: int
  job_key :: string
  job_benchmarker :: "int option"
  job_engine :: "int option"
  job_spec :: engine_spec
  job_build :: string
  job_hardware :: string
  job_status :: job_status
  job_attempt :: int
  job_scheduled :: string
  job_started :: "string option"
  job_finished :: "string option"
  job_error :: string
  job_output :: string

record hardware_profile =
  hp_key :: string
  hp_machine :: string
  hp_hw :: string
  hp_created :: string

record engine_benchmark =
  eb_job :: int
  eb_engine :: "int option"
  eb_build :: string
  eb_sha256 :: "string option"
  eb_hardware :: string
  eb_nps :: int
  eb_elapsed :: int
  eb_output :: string
  eb_recorded :: string

record bench =
  benchmarkers :: "benchmarker list"
  jobs :: "bench_job list"
  profiles :: "hardware_profile list"
  results :: "engine_benchmark list"
  build_artifacts :: "(string \<times> artifact_spec) list"
  next_benchmarker :: int
  next_job :: int

definition get_benchmarker :: "bench \<Rightarrow> int \<Rightarrow> benchmarker option" where
  "get_benchmarker s i = List.find (\<lambda>b. bm_id b = i) (benchmarkers s)"

definition get_benchmarker_by_token :: "(string \<Rightarrow> string) \<Rightarrow> bench \<Rightarrow> string \<Rightarrow> benchmarker option" where
  "get_benchmarker_by_token digest s token = List.find (\<lambda>b. bm_token b = Some (digest token)) (benchmarkers s)"

definition get_benchmarker_by_session_id :: "bench \<Rightarrow> string \<Rightarrow> benchmarker option" where
  "get_benchmarker_by_session_id s session = List.find (\<lambda>b. bm_session b = Some session) (benchmarkers s)"

definition benchmarker_token_is_valid :: "int \<Rightarrow> benchmarker \<Rightarrow> bool" where
  "benchmarker_token_is_valid now b = (bm_status b \<noteq> Bm_Revoked
     \<and> (case bm_expires b of None \<Rightarrow> False | Some t \<Rightarrow> now < t))"

subsection \<open>Benchmark machines\<close>

definition update_benchmarkers :: "(benchmarker \<Rightarrow> bool) \<Rightarrow> (benchmarker \<Rightarrow> benchmarker) \<Rightarrow> bench \<Rightarrow> bench" where
  "update_benchmarkers P f s = s\<lparr>benchmarkers := map (\<lambda>b. if P b then f b else b) (benchmarkers s)\<rparr>"

definition update_jobs :: "(bench_job \<Rightarrow> bool) \<Rightarrow> (bench_job \<Rightarrow> bench_job) \<Rightarrow> bench \<Rightarrow> bench" where
  "update_jobs P f s = s\<lparr>jobs := map (\<lambda>j. if P j then f j else j) (jobs s)\<rparr>"

definition mint_benchmarker_token :: "(string \<Rightarrow> string) \<Rightarrow> string \<Rightarrow> int \<Rightarrow> string \<Rightarrow> int \<Rightarrow> string \<Rightarrow> bench \<Rightarrow> bench result" where
  "mint_benchmarker_token digest stamp now label ttl token s =
     (if list_ex (\<lambda>b. bm_token b = Some (digest token)) (benchmarkers s) then Inl IntegrityError
      else Inr (s\<lparr>benchmarkers := benchmarkers s @ [\<lparr>bm_id = next_benchmarker s, bm_label = label,
        bm_token = Some (digest token), bm_expires = Some (now + ttl), bm_status = Bm_Minted, bm_session = None,
        bm_commit = None, bm_protocol = None, bm_machine = None, bm_hardware = None, bm_hw = None,
        bm_created = stamp, bm_seen = None\<rparr>], next_benchmarker := next_benchmarker s + 1\<rparr>))"

definition add_profile :: "string \<Rightarrow> string \<Rightarrow> string \<Rightarrow> string \<Rightarrow> bench \<Rightarrow> bench" where
  "add_profile key machine hw stamp s = (if list_ex (\<lambda>h. hp_key h = key) (profiles s) then s
     else s\<lparr>profiles := profiles s @ [\<lparr>hp_key = key, hp_machine = machine, hp_hw = hw, hp_created = stamp\<rparr>]\<rparr>)"

record benchmarker_hello =
  hello_label :: string
  hello_commit :: string
  hello_machine :: string
  hello_hardware :: string
  hello_hw :: string

definition register_benchmarker_connection :: "string \<Rightarrow> benchmarker \<Rightarrow> string \<Rightarrow> string \<Rightarrow> int \<Rightarrow> benchmarker_hello
    \<Rightarrow> bench \<Rightarrow> (bench \<times> benchmarker) result" where
  "register_benchmarker_connection stamp record label session protocol hello s =
     rbind (guard (bm_hardware record \<in> {None, Some (hello_hardware hello)})
        (ValueError ''benchmarker credential is permanently bound to different hardware'')) (\<lambda>u. let
       s1 = add_profile (hello_hardware hello) (hello_machine hello) (hello_hw hello) stamp s;
       s2 = update_benchmarkers (\<lambda>b. bm_id b = bm_id record \<and> bm_status b \<noteq> Bm_Revoked
           \<and> bm_hardware b \<in> {None, Some (hello_hardware hello)})
         (\<lambda>b. b\<lparr>bm_label := label, bm_token := None, bm_expires := None, bm_status := Bm_Connected,
            bm_session := Some session, bm_commit := Some (hello_commit hello), bm_protocol := Some protocol,
            bm_machine := Some (hello_machine hello), bm_hardware := Some (hello_hardware hello),
            bm_hw := Some (hello_hw hello), bm_seen := Some stamp\<rparr>) s1
     in if list_ex (\<lambda>b. bm_session b = Some session \<and> bm_id b = bm_id record) (benchmarkers s2)
          \<and> list_ex (\<lambda>b. bm_session b = Some session \<and> bm_id b \<noteq> bm_id record) (benchmarkers s2) then Inl IntegrityError
        else case get_benchmarker s2 (bm_id record) of
          Some b \<Rightarrow> if bm_session b = Some session then Inr (s2, b) else Inl (ValueError ''benchmarker registration was revoked'')
        | None \<Rightarrow> Inl (ValueError ''benchmarker registration was revoked''))"

definition forget_benchmarker :: "string \<Rightarrow> int \<Rightarrow> bench \<Rightarrow> bench \<times> bool" where
  "forget_benchmarker stamp i s = (if get_benchmarker s i = None then (s, False) else let
     s1 = update_jobs (\<lambda>j. job_benchmarker j = Some i \<and> job_status j = Job_Running)
       (\<lambda>j. j\<lparr>job_benchmarker := None, job_status := Job_Queued, job_scheduled := stamp, job_started := None,
          job_finished := None, job_error := [], job_output := []\<rparr>) s;
     s2 = update_jobs (\<lambda>j. job_benchmarker j = Some i) (\<lambda>j. j\<lparr>job_benchmarker := None\<rparr>) s1
   in (s2\<lparr>benchmarkers := filter (\<lambda>b. bm_id b \<noteq> i) (benchmarkers s2)\<rparr>, True))"

definition update_benchmarker_status :: "string \<Rightarrow> int \<Rightarrow> benchmarker_status \<Rightarrow> string \<Rightarrow> bench \<Rightarrow> bench \<times> bool" where
  "update_benchmarker_status stamp i st session s = (let
     current = (\<lambda>b. bm_id b = i \<and> bm_session b = Some session \<and> bm_status b \<noteq> Bm_Revoked)
   in (update_benchmarkers current (\<lambda>b. b\<lparr>bm_status := st, bm_seen := Some stamp\<rparr>) s, list_ex current (benchmarkers s)))"

definition disconnect_benchmarker :: "string \<Rightarrow> int \<Rightarrow> string \<Rightarrow> bench \<Rightarrow> bench \<times> bool" where
  "disconnect_benchmarker stamp i session s = update_benchmarker_status stamp i Bm_Offline session s"

definition reset_benchmark_service_state :: "string \<Rightarrow> bench \<Rightarrow> bench" where
  "reset_benchmark_service_state stamp s = update_benchmarkers (\<lambda>b. bm_status b \<in> {Bm_Connected, Bm_Busy})
     (\<lambda>b. b\<lparr>bm_status := Bm_Offline, bm_seen := Some stamp\<rparr>)
     (update_jobs (\<lambda>j. job_status j = Job_Running)
       (\<lambda>j. j\<lparr>job_status := Job_Failed, job_finished := Some stamp, job_error := ''benchmark server restarted''\<rparr>) s)"

subsection \<open>Jobs\<close>

text \<open>A job that a result refers to cannot be deleted.\<close>

definition delete_jobs :: "(bench_job \<Rightarrow> bool) \<Rightarrow> bench \<Rightarrow> bench result" where
  "delete_jobs P s = (if list_ex (\<lambda>j. P j \<and> list_ex (\<lambda>r. eb_job r = job_id j) (results s)) (jobs s) then Inl IntegrityError
     else Inr (s\<lparr>jobs := filter (\<lambda>j. \<not> P j) (jobs s)\<rparr>))"

definition insert_job :: "bench_job \<Rightarrow> bench \<Rightarrow> bench result" where
  "insert_job j s = (if list_ex (\<lambda>i. job_key i = job_key j) (jobs s)
       \<or> \<not> list_ex (\<lambda>h. hp_key h = job_hardware j) (profiles s) then Inl IntegrityError
     else Inr (s\<lparr>jobs := jobs s @ [j], next_job := next_job s + 1\<rparr>))"

definition schedule_benchmark_job :: "string \<Rightarrow> (string \<Rightarrow> string \<Rightarrow> string) \<Rightarrow> string \<Rightarrow> bench \<times> int \<Rightarrow> engine_spec \<Rightarrow> (bench \<times> int) result" where
  "schedule_benchmark_job stamp keys hardware acc engine = (case acc of (s, scheduled) \<Rightarrow>
     if spec_distribution engine = Worker_Local then Inr (s, scheduled)
     else if list_ex (\<lambda>j. job_build j = spec_build_hash engine \<and> job_hardware j = hardware) (jobs s) then Inr (s, scheduled)
     else rbind (insert_job \<lparr>job_id = next_job s, job_key = keys hardware (spec_build_hash engine), job_benchmarker = None,
         job_engine = Some (spec_engine_id engine), job_spec = engine, job_build = spec_build_hash engine, job_hardware = hardware,
         job_status = Job_Queued, job_attempt = 0, job_scheduled = stamp, job_started = None, job_finished = None,
         job_error = [], job_output = []\<rparr> s) (\<lambda>s'. Inr (s', scheduled + 1)))"

definition schedule_benchmark_jobs :: "string \<Rightarrow> (string \<Rightarrow> string \<Rightarrow> string) \<Rightarrow> string \<Rightarrow> engine_spec list \<Rightarrow> bench \<Rightarrow> (bench \<times> int) result" where
  "schedule_benchmark_jobs stamp keys hardware engines s = fold_result (schedule_benchmark_job stamp keys hardware) (s, 0) engines"

definition claim_benchmark_job :: "string \<Rightarrow> (int \<Rightarrow> bool) \<Rightarrow> int \<Rightarrow> string \<Rightarrow> bench \<Rightarrow> (bench \<times> bench_job option) result" where
  "claim_benchmark_job stamp claimable i hardware s = (case sort_key (\<lambda>j. (job_scheduled j, job_id j))
       (filter (\<lambda>j. job_hardware j = hardware \<and> job_status j = Job_Queued \<and> claimable (job_id j)) (jobs s)) of
     [] \<Rightarrow> Inr (s, None)
   | j # js \<Rightarrow> if get_benchmarker s i = None then Inl IntegrityError else let
       claimed = j\<lparr>job_benchmarker := Some i, job_status := Job_Running, job_attempt := job_attempt j + 1,
         job_started := Some stamp, job_finished := None, job_error := [], job_output := []\<rparr>
     in Inr (update_jobs (\<lambda>x. job_id x = job_id j) (\<lambda>x. claimed) s,
          Some (case map_of (build_artifacts s) (job_build j) of None \<Rightarrow> claimed
            | Some a \<Rightarrow> claimed\<lparr>job_spec := (job_spec j)\<lparr>spec_artifact := Some a\<rparr>\<rparr>)))"

definition validated_running_job :: "bench \<Rightarrow> bench_job \<Rightarrow> int \<Rightarrow> bench_job result" where
  "validated_running_job s job i = or_error (ValueError ''benchmark job is no longer active'')
     (List.find (\<lambda>j. job_id j = job_id job \<and> job_key j = job_key job \<and> job_benchmarker j = Some i \<and> job_status j = Job_Running) (jobs s))"

definition rstrip :: "string \<Rightarrow> string" where
  "rstrip s = rev (lstrip (rev s))"

definition last_chars :: "nat \<Rightarrow> string \<Rightarrow> string" where
  "last_chars n s = drop (length s - n) s"

definition record_benchmark_progress :: "string \<Rightarrow> bench_job \<Rightarrow> int \<Rightarrow> string \<Rightarrow> string \<Rightarrow> string \<Rightarrow> string \<Rightarrow> bench \<Rightarrow> bench result" where
  "record_benchmark_progress stamp job i stage substage st detail s = rbind (validated_running_job s job i) (\<lambda>current. let
     entry = ''['' @ stamp @ ''] '' @ stage @ ''/'' @ substage @ '' '' @ st @ [CHR 0x0A] @ strip detail;
     output = last_chars 64000 (join [CHR 0x0A, CHR 0x0A] (filter (\<lambda>p. p \<noteq> []) [rstrip (job_output current), entry]))
   in Inr (update_jobs (\<lambda>j. job_id j = job_id current) (\<lambda>j. j\<lparr>job_output := output\<rparr>) s))"

definition or_text :: "string \<Rightarrow> string \<Rightarrow> string" where
  "or_text a b = (if a = [] then b else a)"

definition recorded_output :: "bench_job \<Rightarrow> string \<Rightarrow> string" where
  "recorded_output current output = last_chars 64000 (or_text (rstrip (job_output current)) (strip output))"

definition insert_result :: "bool \<Rightarrow> engine_benchmark \<Rightarrow> bench \<Rightarrow> bench result" where
  "insert_result keep r s = (if keep \<and> list_ex (\<lambda>x. eb_build x = eb_build r \<and> eb_hardware x = eb_hardware r) (results s) then Inr s
     else if eb_nps r \<le> 0 \<or> eb_elapsed r < 0 \<or> list_ex (\<lambda>x. eb_job x = eb_job r \<or> eb_build x = eb_build r \<and> eb_hardware x = eb_hardware r) (results s)
       \<or> \<not> list_ex (\<lambda>j. job_id j = eb_job r) (jobs s) \<or> \<not> list_ex (\<lambda>h. hp_key h = eb_hardware r) (profiles s)
     then Inl IntegrityError else Inr (s\<lparr>results := results s @ [r]\<rparr>))"

definition delete_failed_jobs :: "int option \<Rightarrow> string \<Rightarrow> bench \<Rightarrow> bench result" where
  "delete_failed_jobs engine build = delete_jobs (\<lambda>j. job_status j = Job_Failed
     \<and> (engine \<noteq> None \<and> job_engine j = engine \<or> job_build j = build))"

definition complete_benchmark_job :: "string \<Rightarrow> bench_job \<Rightarrow> int \<Rightarrow> int \<Rightarrow> int \<Rightarrow> string \<Rightarrow> string \<Rightarrow> bench \<Rightarrow> bench result" where
  "complete_benchmark_job stamp job i nps elapsed output sha s = rbind (validated_running_job s job i) (\<lambda>current.
     rbind (insert_result True \<lparr>eb_job = job_id current, eb_engine = job_engine current, eb_build = job_build current,
         eb_sha256 = Some sha, eb_hardware = job_hardware current, eb_nps = nps, eb_elapsed = elapsed,
         eb_output = recorded_output current output, eb_recorded = stamp\<rparr> s) (\<lambda>s1.
     delete_failed_jobs (job_engine current) (job_build current)
       (update_jobs (\<lambda>j. job_id j = job_id current) (\<lambda>j. j\<lparr>job_status := Job_Succeeded, job_finished := Some stamp, job_error := []\<rparr>) s1)))"

definition fail_benchmark_job :: "string \<Rightarrow> bench_job \<Rightarrow> int \<Rightarrow> string \<Rightarrow> string \<Rightarrow> bench \<Rightarrow> bench result" where
  "fail_benchmark_job stamp job i err output s = rbind (validated_running_job s job i) (\<lambda>current.
     Inr (update_jobs (\<lambda>j. job_id j = job_id current) (\<lambda>j. j\<lparr>job_status := Job_Failed, job_finished := Some stamp,
       job_error := last_chars 8000 err, job_output := recorded_output current output\<rparr>) s))"

definition build_running :: "string \<Rightarrow> bench \<Rightarrow> bool" where
  "build_running build s = list_ex (\<lambda>j. job_build j = build \<and> job_status j = Job_Running) (jobs s)"

datatype manual_hardware = Known_Profile string | New_Machine string string | No_Hardware

definition manual_profile :: "(string \<Rightarrow> string \<Rightarrow> string) \<Rightarrow> string \<Rightarrow> manual_hardware \<Rightarrow> bench \<Rightarrow> (bench \<times> string) result" where
  "manual_profile hardware_key stamp place s = (case place of
     No_Hardware \<Rightarrow> Inl (ValueError ''Manual benchmark hardware details are required.'')
   | New_Machine machine hw \<Rightarrow> let key = hardware_key machine hw in Inr (add_profile key machine hw stamp s, key)
   | Known_Profile key \<Rightarrow> if list_ex (\<lambda>h. hp_key h = key) (profiles s) then Inr (s, key)
       else Inl (ValueError ''The selected benchmark hardware profile no longer exists.''))"

definition manual_job :: "string \<Rightarrow> string \<Rightarrow> engine_spec \<Rightarrow> string \<Rightarrow> bench \<Rightarrow> (bench \<times> int) result" where
  "manual_job stamp key engine hardware s = (let build = spec_build_hash engine in
     case List.find (\<lambda>j. job_build j = build \<and> job_hardware j = hardware) (jobs s) of
       None \<Rightarrow> rbind (insert_job \<lparr>job_id = next_job s, job_key = key, job_benchmarker = None,
           job_engine = Some (spec_engine_id engine), job_spec = engine, job_build = build, job_hardware = hardware,
           job_status = Job_Succeeded, job_attempt = 1, job_scheduled = stamp, job_started = Some stamp, job_finished = Some stamp,
           job_error = [], job_output = []\<rparr> s) (\<lambda>s'. Inr (s', next_job s))
     | Some row \<Rightarrow> Inr (update_jobs (\<lambda>j. job_id j = job_id row) (\<lambda>j. j\<lparr>job_benchmarker := None,
           job_engine := Some (spec_engine_id engine), job_spec := engine, job_status := Job_Succeeded, job_attempt := job_attempt j + 1,
           job_scheduled := stamp, job_started := Some stamp, job_finished := Some stamp, job_error := [], job_output := []\<rparr>)
         (s\<lparr>results := filter (\<lambda>r. \<not> (eb_build r = build \<and> eb_hardware r = hardware)) (results s)\<rparr>), job_id row))"

definition record_manual_benchmark :: "(string \<Rightarrow> string \<Rightarrow> string) \<Rightarrow> string \<Rightarrow> string \<Rightarrow> engine_spec \<Rightarrow> int \<Rightarrow> int \<Rightarrow> manual_hardware
    \<Rightarrow> bench \<Rightarrow> (bench \<times> int) result" where
  "record_manual_benchmark hardware_key stamp key engine nps elapsed place s =
     (if spec_distribution engine = Worker_Local then Inl (ValueError ''Worker-local engines cannot be benchmarked.'')
      else case spec_artifact engine of
        None \<Rightarrow> Inl (ValueError ''The engine must have a published artifact before a benchmark can be recorded.'')
      | Some artifact \<Rightarrow>
        rbind (guard (0 < nps) (ValueError ''Benchmark NPS must be positive.'')) (\<lambda>u.
        rbind (guard (0 \<le> elapsed) (ValueError ''Benchmark elapsed time cannot be negative.'')) (\<lambda>u.
        rbind (manual_profile hardware_key stamp place s) (\<lambda>(s1, hardware).
        rbind (guard (\<not> build_running (spec_build_hash engine) s1) (ValueError ''A benchmark for this build is already running.'')) (\<lambda>u.
        rbind (manual_job stamp key engine hardware s1) (\<lambda>(s2, job).
        rbind (insert_result False \<lparr>eb_job = job, eb_engine = Some (spec_engine_id engine), eb_build = spec_build_hash engine,
            eb_sha256 = Some (artifact_sha256 artifact), eb_hardware = hardware, eb_nps = nps, eb_elapsed = elapsed,
            eb_output = [], eb_recorded = stamp\<rparr> s2) (\<lambda>s3.
        rbind (delete_failed_jobs (Some (spec_engine_id engine)) (spec_build_hash engine) s3) (\<lambda>s4. Inr (s4, job)))))))))"

definition forget_engine_benchmarks :: "engine_spec \<Rightarrow> bench \<Rightarrow> (bench \<times> int) result" where
  "forget_engine_benchmarks engine s = (let build = spec_build_hash engine in
     rbind (guard (\<not> build_running build s) (ValueError ''A benchmark for this build is currently running.'')) (\<lambda>u.
     rbind (delete_jobs (\<lambda>j. job_build j = build) (s\<lparr>results := filter (\<lambda>r. eb_build r \<noteq> build) (results s)\<rparr>)) (\<lambda>s'.
       Inr (s', int (length (filter (\<lambda>j. job_build j = build) (jobs s)))))))"

definition forget_failed_benchmark_job :: "int \<Rightarrow> bench \<Rightarrow> (bench \<times> bool) result" where
  "forget_failed_benchmark_job i s = rbind (delete_jobs (\<lambda>j. job_id j = i \<and> job_status j = Job_Failed) s)
     (\<lambda>s'. Inr (s', list_ex (\<lambda>j. job_id j = i \<and> job_status j = Job_Failed) (jobs s)))"

definition reschedule_engine_benchmarks :: "string \<Rightarrow> (string \<Rightarrow> string \<Rightarrow> string) \<Rightarrow> engine_spec \<Rightarrow> bench \<Rightarrow> (bench \<times> int) result" where
  "reschedule_engine_benchmarks stamp keys engine s = (let build = spec_build_hash engine in
     rbind (guard (spec_distribution engine \<noteq> Worker_Local) (ValueError ''Worker-local engines cannot be benchmarked.'')) (\<lambda>u.
     rbind (guard (\<not> build_running build s) (ValueError ''A benchmark for this build is already running.'')) (\<lambda>u.
     rbind (delete_failed_jobs (Some (spec_engine_id engine)) build s) (\<lambda>s1. let
       ids = map job_id (filter (\<lambda>j. job_build j = build) (jobs s1));
       s2 = update_jobs (\<lambda>j. job_id j \<in> set ids) (\<lambda>j. j\<lparr>job_benchmarker := None, job_status := Job_Queued, job_scheduled := stamp,
           job_started := None, job_finished := None, job_error := [], job_output := []\<rparr>)
         (s1\<lparr>results := filter (\<lambda>r. eb_job r \<notin> set ids) (results s1)\<rparr>);
       machines = remdups (List.map_filter bm_hardware (filter (\<lambda>b. bm_status b \<noteq> Bm_Revoked) (benchmarkers s2)))
     in fold_result (\<lambda>(s', n) hardware. rbind (schedule_benchmark_jobs stamp keys hardware [engine] s') (\<lambda>(s'', m). Inr (s'', n + m)))
          (s2, int (length ids)) machines))))"

subsection \<open>The benchmark server\<close>

text \<open>A machine is refused with a protocol error; anything else that is raised closes its connection.\<close>

datatype service_error = Protocol_Error string | Service_Raised exn

definition raised :: "'a result \<Rightarrow> service_error + 'a" where
  "raised r = (case r of Inl e \<Rightarrow> Inl (Service_Raised e) | Inr x \<Rightarrow> Inr x)"

datatype credential = Token string | Session string

definition validate_hello :: "(string \<Rightarrow> string \<Rightarrow> string) \<Rightarrow> benchmarker_hello \<Rightarrow> service_error + unit" where
  "validate_hello hardware_key hello = guard (hardware_key (hello_machine hello) (hello_hw hello) = hello_hardware hello)
     (Protocol_Error ''invalid benchmark hardware key'')"

definition authenticate :: "(string \<Rightarrow> string) \<Rightarrow> int \<Rightarrow> bench \<Rightarrow> credential \<Rightarrow> service_error + benchmarker" where
  "authenticate digest now s c = (case c of
     Token t \<Rightarrow> (case get_benchmarker_by_token digest s t of
       Some b \<Rightarrow> if benchmarker_token_is_valid now b then Inr b else Inl (Protocol_Error ''invalid or expired benchmarker token'')
     | None \<Rightarrow> Inl (Protocol_Error ''invalid or expired benchmarker token''))
   | Session x \<Rightarrow> (case get_benchmarker_by_session_id s x of
       Some b \<Rightarrow> if bm_status b = Bm_Revoked then Inl (Protocol_Error ''invalid benchmarker session'') else Inr b
     | None \<Rightarrow> Inl (Protocol_Error ''invalid benchmarker session'')))"

definition record_connection :: "string \<Rightarrow> credential \<Rightarrow> benchmarker \<Rightarrow> string \<Rightarrow> int \<Rightarrow> benchmarker_hello \<Rightarrow> bench
    \<Rightarrow> service_error + (bench \<times> benchmarker)" where
  "record_connection stamp c record session protocol hello s = (let
     label = (case c of Token t \<Rightarrow> or_text (strip (hello_label hello)) (bm_label record) | Session x \<Rightarrow> bm_label record)
   in case register_benchmarker_connection stamp record label session protocol hello s of
        Inl (ValueError m) \<Rightarrow> Inl (Protocol_Error m)
      | Inl e \<Rightarrow> Inl (Service_Raised e)
      | Inr r \<Rightarrow> Inr r)"

definition claim_next_job :: "string \<Rightarrow> (int \<Rightarrow> bool) \<Rightarrow> benchmarker \<Rightarrow> bench \<Rightarrow> service_error + (bench \<times> bench_job option)" where
  "claim_next_job stamp claimable b s = (case bm_hardware b of
     None \<Rightarrow> Inl (Service_Raised (RuntimeError ''connected benchmarker has no hardware key''))
   | Some hardware \<Rightarrow> raised (claim_benchmark_job stamp claimable (bm_id b) hardware s))"

record job_report =
  report_job :: int
  report_key :: string
  report_hardware :: string
  report_build :: string

definition validate_result :: "bench_job \<Rightarrow> job_report \<Rightarrow> service_error + unit" where
  "validate_result job r =
     rbind (guard (report_job r = job_id job \<and> report_key r = job_key job) (Protocol_Error ''benchmark result job mismatch'')) (\<lambda>u.
     rbind (guard (report_hardware r = job_hardware job) (Protocol_Error ''benchmark result hardware key mismatch'')) (\<lambda>u.
     guard (report_build r = job_build job) (Protocol_Error ''benchmark result build hash mismatch'')))"

definition complete_job :: "string \<Rightarrow> int \<Rightarrow> bench_job \<Rightarrow> job_report \<Rightarrow> artifact_spec \<Rightarrow> int \<Rightarrow> int \<Rightarrow> string \<Rightarrow> bench \<Rightarrow> service_error + bench" where
  "complete_job stamp i job r descriptor nps elapsed output s = rbind (validate_result job r) (\<lambda>u.
     case map_of (build_artifacts s) (job_build job) of
       None \<Rightarrow> Inl (Protocol_Error ''benchmark artifact is not registered'')
     | Some a \<Rightarrow>
       rbind (guard (artifact_sha256 descriptor = artifact_sha256 a \<and> artifact_size descriptor = artifact_size a
           \<and> artifact_entrypoint descriptor = artifact_entrypoint a) (Protocol_Error ''benchmark artifact descriptor mismatch'')) (\<lambda>u.
         raised (complete_benchmark_job stamp job i nps elapsed output (artifact_sha256 descriptor) s)))"

definition record_progress :: "string \<Rightarrow> int \<Rightarrow> bench_job \<Rightarrow> job_report \<Rightarrow> string \<Rightarrow> string \<Rightarrow> string \<Rightarrow> string \<Rightarrow> bench \<Rightarrow> service_error + bench" where
  "record_progress stamp i job r stage substage st detail s = rbind (validate_result job r)
     (\<lambda>u. raised (record_benchmark_progress stamp job i stage substage st detail s))"

definition fail_job :: "string \<Rightarrow> int \<Rightarrow> bench_job \<Rightarrow> string \<Rightarrow> string \<Rightarrow> bench \<Rightarrow> service_error + bench" where
  "fail_job stamp i job err output s = raised (fail_benchmark_job stamp job i err output s)"

definition fail_reported_job :: "string \<Rightarrow> int \<Rightarrow> bench_job \<Rightarrow> job_report \<Rightarrow> string \<Rightarrow> string \<Rightarrow> string \<Rightarrow> bench \<Rightarrow> service_error + bench" where
  "fail_reported_job stamp i job r stage err output s = rbind (validate_result job r)
     (\<lambda>u. fail_job stamp i job (stage @ '': '' @ err) output s)"

definition fail_interrupted_job :: "string \<Rightarrow> int \<Rightarrow> bench_job \<Rightarrow> bench \<Rightarrow> service_error + bench" where
  "fail_interrupted_job stamp i job s = fail_job stamp i job ''benchmarker disconnected during job'' [] s"

definition set_status :: "string \<Rightarrow> benchmarker \<Rightarrow> benchmarker_status \<Rightarrow> bench \<Rightarrow> service_error + bench" where
  "set_status stamp b st s = (case update_benchmarker_status stamp (bm_id b) st (case bm_session b of Some x \<Rightarrow> x | None \<Rightarrow> []) s of
     (s', updated) \<Rightarrow> if updated then Inr s' else Inl (Protocol_Error ''benchmarker session is no longer current''))"

end
