(* ===== verification/Benchmark_Runs.thy ===== *)
theory Benchmark_Runs
  imports Benchmark_Jobs
begin

text \<open>
  The runs of the benchmark service.  Whatever machines connect, report, restart and are forgotten, and
  whatever an administrator reschedules, records by hand or removes, the results are exactly those
  of the jobs that succeeded, one for each build and hardware profile, and a job that runs is in the
  hands of a registered machine of its hardware.
\<close>

subsection \<open>Steps\<close>

inductive bench_step :: "(string \<Rightarrow> string) \<Rightarrow> (string \<Rightarrow> string \<Rightarrow> string) \<Rightarrow> bench \<Rightarrow> bench \<Rightarrow> bool" for digest hardware_key where
  mint: "mint_benchmarker_token digest stamp now label ttl token s = Inr s' \<Longrightarrow> bench_step digest hardware_key s s'"
| connect: "validate_hello hardware_key hello = Inr () \<Longrightarrow> record_connection stamp c record session protocol hello s = Inr (s', b)
    \<Longrightarrow> bench_step digest hardware_key s s'"
| status: "set_status stamp b st s = Inr s' \<Longrightarrow> bench_step digest hardware_key s s'"
| disconnect: "disconnect_benchmarker stamp i session s = (s', x) \<Longrightarrow> bench_step digest hardware_key s s'"
| forget_machine: "forget_benchmarker stamp i s = (s', x) \<Longrightarrow> bench_step digest hardware_key s s'"
| restart: "reset_benchmark_service_state stamp s = s' \<Longrightarrow> bench_step digest hardware_key s s'"
| schedule: "schedule_benchmark_jobs stamp keys hardware engines s = Inr (s', n) \<Longrightarrow> bench_step digest hardware_key s s'"
| claim: "claim_next_job stamp claimable b s = Inr (s', r) \<Longrightarrow> (\<And>c. get_benchmarker s (bm_id b) = Some c \<Longrightarrow> bm_hardware c = bm_hardware b)
    \<Longrightarrow> bench_step digest hardware_key s s'"
| progress: "record_progress stamp i job r stage substage st detail s = Inr s' \<Longrightarrow> bench_step digest hardware_key s s'"
| complete: "complete_job stamp i job r descriptor nps elapsed output s = Inr s' \<Longrightarrow> bench_step digest hardware_key s s'"
| report_failed: "fail_reported_job stamp i job r stage err output s = Inr s' \<Longrightarrow> bench_step digest hardware_key s s'"
| interrupted: "fail_interrupted_job stamp i job s = Inr s' \<Longrightarrow> bench_step digest hardware_key s s'"
| manual: "record_manual_benchmark hardware_key stamp key engine nps elapsed place s = Inr (s', i) \<Longrightarrow> bench_step digest hardware_key s s'"
| forget_engine: "forget_engine_benchmarks engine s = Inr (s', n) \<Longrightarrow> bench_step digest hardware_key s s'"
| forget_failed: "forget_failed_benchmark_job i s = Inr (s', x) \<Longrightarrow> bench_step digest hardware_key s s'"
| artifacts: "bench_step digest hardware_key s (s\<lparr>build_artifacts := builds\<rparr>)"
| reschedule: "reschedule_engine_benchmarks stamp keys engine s = Inr (s', n) \<Longrightarrow> bench_step digest hardware_key s s'"

inductive bench_run :: "(string \<Rightarrow> string) \<Rightarrow> (string \<Rightarrow> string \<Rightarrow> string) \<Rightarrow> bench \<Rightarrow> bench \<Rightarrow> bool" for digest hardware_key s where
  here: "bench_run digest hardware_key s s"
| further: "bench_run digest hardware_key s s' \<Longrightarrow> bench_step digest hardware_key s' s'' \<Longrightarrow> bench_run digest hardware_key s s''"

definition empty_bench :: bench where
  "empty_bench = \<lparr>benchmarkers = [], jobs = [], profiles = [], results = [], build_artifacts = [], next_benchmarker = 1, next_job = 1\<rparr>"

subsection \<open>The invariant\<close>

definition job_ref :: "bench_job \<Rightarrow> int \<times> string \<times> string" where
  "job_ref j = (job_id j, job_build j, job_hardware j)"

definition result_ref :: "engine_benchmark \<Rightarrow> int \<times> string \<times> string" where
  "result_ref r = (eb_job r, eb_build r, eb_hardware r)"

definition succeeded :: "bench_job list \<Rightarrow> bench_job set" where
  "succeeded js = {j \<in> set js. job_status j = Job_Succeeded}"

definition jobs_ok :: "bench \<Rightarrow> bool" where
  "jobs_ok s = (distinct (map job_id (jobs s)) \<and> distinct (map (snd \<circ> job_ref) (jobs s)) \<and> (\<forall>j \<in> set (jobs s). job_id j < next_job s))"

definition results_ok :: "bench \<Rightarrow> bool" where
  "results_ok s = (distinct (map eb_job (results s)) \<and> result_ref ` set (results s) = job_ref ` succeeded (jobs s)
     \<and> (\<forall>r \<in> set (results s). 0 < eb_nps r \<and> 0 \<le> eb_elapsed r))"

definition in_hands :: "benchmarker list \<Rightarrow> bench_job \<Rightarrow> bool" where
  "in_hands bs j = (job_status j = Job_Running \<longrightarrow> (\<exists>b \<in> set bs. job_benchmarker j = Some (bm_id b) \<and> bm_hardware b = Some (job_hardware j)))"

definition machines_ok :: "bench \<Rightarrow> bool" where
  "machines_ok s = (distinct (map bm_id (benchmarkers s)) \<and> (\<forall>b \<in> set (benchmarkers s). bm_id b < next_benchmarker s)
     \<and> (\<forall>j \<in> set (jobs s). in_hands (benchmarkers s) j))"

definition bench_ok :: "bench \<Rightarrow> bool" where
  "bench_ok s = (jobs_ok s \<and> results_ok s \<and> machines_ok s)"

lemma job_by_ref: "jobs_ok s \<Longrightarrow> i \<in> set (jobs s) \<Longrightarrow> j \<in> set (jobs s) \<Longrightarrow> job_id i = job_id j \<or> snd (job_ref i) = snd (job_ref j) \<Longrightarrow> i = j"
  by (auto simp: jobs_ok_def distinct_map inj_on_def)

lemma succeeded_map: "(\<And>j. j \<in> set js \<Longrightarrow> job_status (f j) = job_status j) \<Longrightarrow> succeeded (map f js) = f ` succeeded js"
  by (auto simp: succeeded_def)

lemma same_tables_ok:
  "jobs s' = jobs s \<Longrightarrow> results s' = results s \<Longrightarrow> next_job s' = next_job s \<Longrightarrow> jobs_ok s' = jobs_ok s \<and> results_ok s' = results_ok s"
  by (simp add: jobs_ok_def results_ok_def)

lemma update_jobs_ok:
  assumes "bench_ok s" and "\<And>j. j \<in> set (jobs s) \<Longrightarrow> P j \<Longrightarrow> job_ref (f j) = job_ref j"
    and "\<And>j. j \<in> set (jobs s) \<Longrightarrow> P j \<Longrightarrow> job_status j \<noteq> Job_Succeeded \<and> job_status (f j) \<noteq> Job_Succeeded"
    and "\<And>j. j \<in> set (jobs s) \<Longrightarrow> P j \<Longrightarrow> in_hands (benchmarkers s) (f j)"
  shows "bench_ok (update_jobs P f s)"
proof -
  let ?f = "\<lambda>j. if P j then f j else j"
  have ref: "map job_ref (map ?f (jobs s)) = map job_ref (jobs s)" using assms(2) by simp
  define js where "js = map ?f (jobs s)"
  have "map (fst \<circ> job_ref) js = map (fst \<circ> job_ref) (jobs s)" and refs: "map (snd \<circ> job_ref) js = map (snd \<circ> job_ref) (jobs s)"
    using arg_cong [OF ref, of "map fst"] arg_cong [OF ref, of "map snd"] by (simp_all add: js_def)
  moreover have "fst \<circ> job_ref = job_id" by (auto simp: job_ref_def)
  ultimately have ids: "map job_id js = map job_id (jobs s)" by simp
  have "job_id (?f j) < next_job s" if "j \<in> set (jobs s)" for j
    using that assms(1,2) by (auto simp: bench_ok_def jobs_ok_def job_ref_def)
  then have "\<forall>j \<in> set js. job_id j < next_job s" unfolding js_def by fastforce
  then have "jobs_ok (s\<lparr>jobs := js\<rparr>)" using assms(1) by (simp add: bench_ok_def jobs_ok_def ids refs)
  then have "jobs_ok (update_jobs P f s)" by (simp add: update_jobs_def js_def)
  moreover have "succeeded (map ?f (jobs s)) = succeeded (jobs s)" using assms(3) by (auto simp: succeeded_def image_iff)
  then have "results_ok (update_jobs P f s)" using assms(1) by (simp add: bench_ok_def results_ok_def update_jobs_def)
  moreover have "machines_ok (update_jobs P f s)" using assms(1,4) by (auto simp: bench_ok_def machines_ok_def update_jobs_def)
  ultimately show ?thesis by (simp add: bench_ok_def)
qed

lemma update_benchmarkers_ok:
  assumes "bench_ok s" and "\<And>b. b \<in> set (benchmarkers s) \<Longrightarrow> P b \<Longrightarrow> bm_id (f b) = bm_id b \<and> (bm_hardware b \<noteq> None \<longrightarrow> bm_hardware (f b) = bm_hardware b)"
  shows "bench_ok (update_benchmarkers P f s)"
proof -
  let ?f = "\<lambda>b. if P b then f b else b"
  define bs where "bs = map ?f (benchmarkers s)"
  have ids: "map bm_id bs = map bm_id (benchmarkers s)" using assms(2) by (simp add: bs_def)
  have "in_hands bs j" if j: "in_hands (benchmarkers s) j" for j
  proof -
    have "job_benchmarker j = Some (bm_id (?f b)) \<and> bm_hardware (?f b) = Some (job_hardware j)"
      if "b \<in> set (benchmarkers s)" "job_benchmarker j = Some (bm_id b)" "bm_hardware b = Some (job_hardware j)" for b
      using that assms(2) by auto
    then show ?thesis using j unfolding in_hands_def bs_def set_map by (meson image_eqI)
  qed
  moreover have "\<forall>b \<in> set bs. bm_id b < next_benchmarker s"
    using assms by (auto simp: bench_ok_def machines_ok_def bs_def)
  ultimately have "machines_ok (s\<lparr>benchmarkers := bs\<rparr>)"
    using assms(1) ids by (simp add: bench_ok_def machines_ok_def)
  then have "machines_ok (update_benchmarkers P f s)" by (simp add: update_benchmarkers_def bs_def)
  moreover have "jobs_ok (update_benchmarkers P f s) = jobs_ok s \<and> results_ok (update_benchmarkers P f s) = results_ok s"
    by (rule same_tables_ok) (simp_all add: update_benchmarkers_def)
  ultimately show ?thesis using assms(1) by (simp add: bench_ok_def)
qed

lemma delete_jobs_ok:
  assumes "delete_jobs P s = Inr s'" and "bench_ok s"
  shows "bench_ok s'"
proof -
  have s': "s' = s\<lparr>jobs := filter (\<lambda>j. \<not> P j) (jobs s)\<rparr>" and free: "\<And>j r. j \<in> set (jobs s) \<Longrightarrow> P j \<Longrightarrow> r \<in> set (results s) \<Longrightarrow> eb_job r \<noteq> job_id j"
    using assms(1) by (auto simp: delete_jobs_def list_ex_iff split: if_splits)
  have "job_status j \<noteq> Job_Succeeded" if "j \<in> set (jobs s)" "P j" for j
  proof
    assume "job_status j = Job_Succeeded"
    then have "job_ref j \<in> result_ref ` set (results s)" using that assms(2) by (auto simp: bench_ok_def results_ok_def succeeded_def)
    then obtain r where "r \<in> set (results s)" "eb_job r = job_id j" by (auto simp: job_ref_def result_ref_def)
    then show False using free that by blast
  qed
  then have "succeeded (jobs s') = succeeded (jobs s)" by (auto simp: succeeded_def s')
  then show ?thesis using assms(2) by (auto simp: bench_ok_def jobs_ok_def results_ok_def machines_ok_def s' distinct_map_filter)
qed

subsection \<open>Every step keeps it\<close>

lemma grown_profiles: "add_profile key machine hw stamp s = s\<lparr>profiles := profiles (add_profile key machine hw stamp s)\<rparr>"
  by (simp add: add_profile_def)

lemma profiles_ok [simp]: "bench_ok (s\<lparr>profiles := ps\<rparr>) = bench_ok s"
  by (simp add: bench_ok_def jobs_ok_def results_ok_def machines_ok_def)

lemma add_profile_ok: "bench_ok s \<Longrightarrow> bench_ok (add_profile key machine hw stamp s)"
  by (subst grown_profiles) simp

lemma mint_ok:
  assumes "mint_benchmarker_token digest stamp now label ttl token s = Inr s'" and "bench_ok s"
  shows "bench_ok s'"
proof -
  obtain b where s': "s' = s\<lparr>benchmarkers := benchmarkers s @ [b], next_benchmarker := next_benchmarker s + 1\<rparr>" and b: "bm_id b = next_benchmarker s"
    using assms(1) by (auto simp: mint_benchmarker_token_def split: if_splits)
  have "machines_ok s'" using assms(2) b by (fastforce simp: bench_ok_def machines_ok_def in_hands_def s')
  then show ?thesis using assms(2) by (simp add: bench_ok_def jobs_ok_def results_ok_def s')
qed

lemma register_ok:
  assumes "register_benchmarker_connection stamp record label session protocol hello s = Inr (s', b)" and "bench_ok s"
  shows "bench_ok s'"
  using assms(1) unfolding register_benchmarker_connection_def Let_def
  by (auto simp: rbind_eq_Inr split: if_splits option.splits intro!: update_benchmarkers_ok add_profile_ok assms(2))

lemma record_connection_ok:
  "record_connection stamp c record session protocol hello s = Inr (s', b) \<Longrightarrow> bench_ok s \<Longrightarrow> bench_ok s'"
  by (rule register_ok) (auto simp: record_connection_def Let_def split: sum.splits exn.splits)

lemma update_status_ok: "update_benchmarker_status stamp i st session s = (s', x) \<Longrightarrow> bench_ok s \<Longrightarrow> bench_ok s'"
  by (auto simp: update_benchmarker_status_def Let_def intro!: update_benchmarkers_ok)

lemma set_status_ok: "set_status stamp b st s = Inr s' \<Longrightarrow> bench_ok s \<Longrightarrow> bench_ok s'"
  by (auto simp: set_status_def split: prod.splits if_splits intro: update_status_ok)

lemma forget_benchmarker_ok:
  assumes "forget_benchmarker stamp i s = (s', x)" and "bench_ok s"
  shows "bench_ok s'"
proof (cases "get_benchmarker s i = None")
  case False
  define s1 where "s1 = update_jobs (\<lambda>j. job_benchmarker j = Some i \<and> job_status j = Job_Running)
       (\<lambda>j. j\<lparr>job_benchmarker := None, job_status := Job_Queued, job_scheduled := stamp, job_started := None,
          job_finished := None, job_error := [], job_output := []\<rparr>) s"
  have s1: "bench_ok s1" unfolding s1_def by (rule update_jobs_ok [OF assms(2)]) (auto simp: job_ref_def in_hands_def)
  have idle: "job_status j \<noteq> Job_Running" if "j \<in> set (jobs s1)" "job_benchmarker j = Some i" for j
    using that by (auto simp: s1_def update_jobs_def split: if_splits)
  define s2 where "s2 = update_jobs (\<lambda>j. job_benchmarker j = Some i) (\<lambda>j. j\<lparr>job_benchmarker := None\<rparr>) s1"
  have s': "s' = s2\<lparr>benchmarkers := filter (\<lambda>b. bm_id b \<noteq> i) (benchmarkers s2)\<rparr>"
    using assms(1) False by (simp add: forget_benchmarker_def s1_def s2_def Let_def)
  have refs: "map job_ref (jobs s2) = map job_ref (jobs s1)" and tables: "results s2 = results s1" "next_job s2 = next_job s1"
    "benchmarkers s2 = benchmarkers s1" "next_benchmarker s2 = next_benchmarker s1"
    by (simp_all add: s2_def update_jobs_def job_ref_def)
  have "map job_id (jobs s2) = map job_id (jobs s1)" using arg_cong [OF refs, of "map fst"] by (simp add: comp_def job_ref_def)
  moreover have "map (snd \<circ> job_ref) (jobs s2) = map (snd \<circ> job_ref) (jobs s1)" using arg_cong [OF refs, of "map snd"] by simp
  moreover have "\<forall>j \<in> set (jobs s2). job_id j < next_job s1" using s1 by (auto simp: s2_def update_jobs_def bench_ok_def jobs_ok_def)
  ultimately have "jobs_ok s2" using s1 by (simp add: bench_ok_def jobs_ok_def tables)
  moreover have jobs_s2: "jobs s2 = map (\<lambda>j. if job_benchmarker j = Some i then j\<lparr>job_benchmarker := None\<rparr> else j) (jobs s1)"
    by (simp add: s2_def update_jobs_def)
  have "succeeded (jobs s2) = (\<lambda>j. if job_benchmarker j = Some i then j\<lparr>job_benchmarker := None\<rparr> else j) ` succeeded (jobs s1)"
    unfolding jobs_s2 by (rule succeeded_map) simp
  then have "job_ref ` succeeded (jobs s2) = job_ref ` succeeded (jobs s1)"
    by (simp only: image_image) (rule image_cong, simp_all add: job_ref_def)
  then have "results_ok s2" using s1 by (simp add: bench_ok_def results_ok_def tables)
  moreover have "in_hands (filter (\<lambda>b. bm_id b \<noteq> i) (benchmarkers s1)) j" if "j \<in> set (jobs s2)" for j
    using that s1 idle by (auto simp: s2_def update_jobs_def bench_ok_def machines_ok_def in_hands_def)
  then have "machines_ok s'" using s1 by (auto simp: s' tables bench_ok_def machines_ok_def distinct_map_filter)
  ultimately show ?thesis using same_tables_ok [of s' s2] by (simp add: bench_ok_def s')
qed (use assms in \<open>simp add: forget_benchmarker_def\<close>)

lemma reset_ok: "bench_ok s \<Longrightarrow> bench_ok (reset_benchmark_service_state stamp s)"
  unfolding reset_benchmark_service_state_def
  by (rule update_benchmarkers_ok, rule update_jobs_ok) (auto simp: job_ref_def in_hands_def)

lemma insert_job_ok:
  assumes "insert_job j s = Inr s'" and "bench_ok s" and "job_id j = next_job s" and "job_status j \<notin> {Job_Running, Job_Succeeded}"
    and "\<And>i. i \<in> set (jobs s) \<Longrightarrow> snd (job_ref i) \<noteq> snd (job_ref j)"
  shows "bench_ok s'"
proof -
  have s': "s' = s\<lparr>jobs := jobs s @ [j], next_job := next_job s + 1\<rparr>" using assms(1) by (auto simp: insert_job_def split: if_splits)
  have "jobs_ok s'" using assms(2,3,5) by (fastforce simp: bench_ok_def jobs_ok_def s')
  moreover have "succeeded (jobs s') = succeeded (jobs s)" using assms(4) by (auto simp: s' succeeded_def)
  ultimately show ?thesis using assms(2,4) by (auto simp: bench_ok_def results_ok_def machines_ok_def in_hands_def s')
qed

lemma schedule_job_ok:
  assumes "schedule_benchmark_job stamp keys hardware (s, n) engine = Inr (s', m)" and "bench_ok s"
  shows "bench_ok s'"
  using assms by (auto simp: schedule_benchmark_job_def rbind_eq_Inr list_ex_iff job_ref_def split: if_splits elim!: insert_job_ok)

lemma schedule_jobs_ok:
  assumes "schedule_benchmark_jobs stamp keys hardware engines s = Inr (s', n)" and "bench_ok s"
  shows "bench_ok s'"
proof -
  have "bench_ok (fst (s', n))"
    by (rule fold_result_invariant [OF assms(1)[unfolded schedule_benchmark_jobs_def], where P = "\<lambda>x. bench_ok (fst x)"])
      (use assms(2) schedule_job_ok in auto)
  then show ?thesis by simp
qed

lemma validated_running:
  assumes "validated_running_job s job i = Inr j"
  shows "j \<in> set (jobs s)" "job_id j = job_id job" "job_key j = job_key job" "job_benchmarker j = Some i" "job_status j = Job_Running"
  using assms find_Some_iff_in by (fastforce simp: validated_running_job_def)+

lemma claim_ok:
  assumes "claim_next_job stamp claimable b s = Inr (s', r)" and "bench_ok s"
    and "\<And>c. get_benchmarker s (bm_id b) = Some c \<Longrightarrow> bm_hardware c = bm_hardware b"
  shows "bench_ok s'"
proof (cases "s' = s")
  case False
  obtain hardware where hw: "bm_hardware b = Some hardware" and claimed: "claim_benchmark_job stamp claimable (bm_id b) hardware s = Inr (s', r)"
    using assms(1) by (auto simp: claim_next_job_def raised_def split: option.splits sum.splits)
  let ?q = "sort_key (\<lambda>j. (job_scheduled j, job_id j)) (filter (\<lambda>j. job_hardware j = hardware \<and> job_status j = Job_Queued \<and> claimable (job_id j)) (jobs s))"
  obtain j js c where j: "?q = j # js" and c: "get_benchmarker s (bm_id b) = Some c"
    and s': "s' = update_jobs (\<lambda>x. job_id x = job_id j) (\<lambda>x. j\<lparr>job_benchmarker := Some (bm_id b), job_status := Job_Running, job_attempt := job_attempt j + 1,
         job_started := Some stamp, job_finished := None, job_error := [], job_output := []\<rparr>) s"
    using claimed False by (auto simp: claim_benchmark_job_def Let_def split: list.splits if_splits)
  have "j \<in> set ?q" by (simp only: j list.set_intros)
  then have mem: "j \<in> set (jobs s)" "job_hardware j = hardware" "job_status j = Job_Queued" by simp_all
  have one: "x = j" if "x \<in> set (jobs s)" "job_id x = job_id j" for x
    using job_by_ref [of s x j] that mem(1) assms(2) by (simp add: bench_ok_def)
  have "c \<in> set (benchmarkers s)" "bm_id c = bm_id b" using c find_Some_iff_in unfolding get_benchmarker_def by fastforce+
  then have "\<exists>x \<in> set (benchmarkers s). bm_id b = bm_id x \<and> bm_hardware x = Some (job_hardware j)" using assms(3) [OF c] hw mem(2) by metis
  then show ?thesis unfolding s' using assms(2) mem by (intro update_jobs_ok) (auto simp: job_ref_def in_hands_def dest: one)
qed (use assms in simp)

lemma update_running_ok:
  assumes "validated_running_job s job i = Inr current" and "bench_ok s" and "\<And>j. job_ref (f j) = job_ref j"
    and "job_status (f current) = Job_Running \<and> job_benchmarker (f current) = Some i \<or> job_status (f current) = Job_Failed"
  shows "bench_ok (update_jobs (\<lambda>j. job_id j = job_id current) f s)"
proof -
  note current = validated_running [OF assms(1)]
  have one: "x = current" if "x \<in> set (jobs s)" "job_id x = job_id current" for x
    using job_by_ref [of s x current] that current(1) assms(2) by (simp add: bench_ok_def)
  have "in_hands (benchmarkers s) current" using assms(2) current(1) by (simp add: bench_ok_def machines_ok_def)
  moreover have "job_hardware (f current) = job_hardware current" using assms(3) [of current] by (simp add: job_ref_def)
  ultimately have hands: "in_hands (benchmarkers s) (f current)" using assms(4) current by (auto simp: in_hands_def)
  show ?thesis
  proof (rule update_jobs_ok [OF assms(2,3)])
    fix j assume j: "j \<in> set (jobs s)" "job_id j = job_id current"
    show "job_status j \<noteq> Job_Succeeded \<and> job_status (f j) \<noteq> Job_Succeeded" using one [OF j] current(5) assms(4) by auto
    show "in_hands (benchmarkers s) (f j)" using one [OF j] hands by simp
  qed
qed

lemma progress_ok: "record_benchmark_progress stamp job i stage substage st detail s = Inr s' \<Longrightarrow> bench_ok s \<Longrightarrow> bench_ok s'"
  by (auto simp: record_benchmark_progress_def rbind_eq_Inr Let_def job_ref_def dest: validated_running intro!: update_running_ok)

lemma fail_ok: "fail_benchmark_job stamp job i err output s = Inr s' \<Longrightarrow> bench_ok s \<Longrightarrow> bench_ok s'"
  by (auto simp: fail_benchmark_job_def rbind_eq_Inr Let_def job_ref_def intro!: update_running_ok)

text \<open>A job that succeeds gets its result, where there was none of its build and hardware.\<close>

lemma insert_result_ok:
  assumes "insert_result keep r s = Inr s'" and ok: "bench_ok s" and j: "j \<in> set (jobs s)" "job_ref j = result_ref r" "job_status j \<noteq> Job_Succeeded"
    and f: "\<And>j. job_ref (f j) = job_ref j" "\<And>j. job_status (f j) = Job_Succeeded"
  shows "bench_ok (update_jobs (\<lambda>x. job_id x = job_id j) f s')"
proof -
  have jobs: "jobs_ok s" and results: "result_ref ` set (results s) = job_ref ` succeeded (jobs s)" using ok by (simp_all add: bench_ok_def results_ok_def)
  have one: "x = j" if "x \<in> set (jobs s)" "job_id x = job_id j \<or> snd (job_ref x) = snd (job_ref j)" for x
    using job_by_ref [OF jobs] that j(1) by blast
  have fresh: "snd (result_ref x) \<noteq> snd (result_ref r)" if "x \<in> set (results s)" for x
  proof
    assume eq: "snd (result_ref x) = snd (result_ref r)"
    have "result_ref x \<in> job_ref ` succeeded (jobs s)" using that unfolding results [symmetric] by (rule imageI)
    then obtain k where k: "k \<in> set (jobs s)" "job_status k = Job_Succeeded" "result_ref x = job_ref k" unfolding succeeded_def by blast
    then have "snd (job_ref k) = snd (job_ref j)" using eq j(2) by simp
    then have "k = j" using one k(1) by blast
    then show False using k(2) j(3) by simp
  qed
  then have new: "s' = s\<lparr>results := results s @ [r]\<rparr>" and valid: "0 < eb_nps r" "0 \<le> eb_elapsed r" "eb_job r \<notin> eb_job ` set (results s)"
    using assms(1) by (auto simp: insert_result_def list_ex_iff result_ref_def split: if_splits)
  define js where "js = map (\<lambda>x. if job_id x = job_id j then f x else x) (jobs s)"
  have refs: "map job_ref js = map job_ref (jobs s)" using f(1) by (simp add: js_def)
  have "map job_id js = map job_id (jobs s)" using arg_cong [OF refs, of "map fst"] by (simp add: comp_def job_ref_def)
  moreover have "map (snd \<circ> job_ref) js = map (snd \<circ> job_ref) (jobs s)" using arg_cong [OF refs, of "map snd"] by simp
  moreover from calculation(1) have "job_id ` set js = job_id ` set (jobs s)" by (metis list.set_map)
  ultimately have "jobs_ok (s\<lparr>jobs := js\<rparr>)" using jobs by (auto simp: jobs_ok_def) (metis image_iff)
  moreover have "succeeded js = insert (f j) (succeeded (jobs s))"
    using j f one by (auto simp: succeeded_def js_def)
  then have "result_ref ` set (results s @ [r]) = job_ref ` succeeded js" using results f(1) j(2) by simp
  moreover have "in_hands (benchmarkers s) x" if "x \<in> set js" for x
    using that ok f(2) by (auto simp: js_def in_hands_def bench_ok_def machines_ok_def)
  ultimately show ?thesis using ok valid
    by (auto simp: bench_ok_def results_ok_def machines_ok_def jobs_ok_def new update_jobs_def js_def [symmetric])
qed

lemma complete_ok:
  assumes "complete_benchmark_job stamp job i nps elapsed output sha s = Inr s'" and "bench_ok s"
  shows "bench_ok s'"
proof -
  obtain j s1 where j: "validated_running_job s job i = Inr j"
    and s1: "insert_result True \<lparr>eb_job = job_id j, eb_engine = job_engine j, eb_build = job_build j,
         eb_sha256 = Some sha, eb_hardware = job_hardware j, eb_nps = nps, eb_elapsed = elapsed,
         eb_output = recorded_output j output, eb_recorded = stamp\<rparr> s = Inr s1"
    and s': "delete_failed_jobs (job_engine j) (job_build j)
       (update_jobs (\<lambda>x. job_id x = job_id j) (\<lambda>x. x\<lparr>job_status := Job_Succeeded, job_finished := Some stamp, job_error := []\<rparr>) s1) = Inr s'"
    using assms(1) by (auto simp: complete_benchmark_job_def rbind_eq_Inr)
  have "bench_ok (update_jobs (\<lambda>x. job_id x = job_id j) (\<lambda>x. x\<lparr>job_status := Job_Succeeded, job_finished := Some stamp, job_error := []\<rparr>) s1)"
    using validated_running [OF j] by (intro insert_result_ok [OF s1 assms(2)]) (auto simp: job_ref_def result_ref_def)
  then show ?thesis using s' delete_jobs_ok unfolding delete_failed_jobs_def by blast
qed

text \<open>Removing the results of some jobs and queueing these jobs again.\<close>

lemma requeue_ok:
  assumes "bench_ok s" and "\<And>r. r \<in> set (results s) \<Longrightarrow> Q r \<longleftrightarrow> eb_job r \<notin> ids"
    and f: "\<And>j. job_ref (f j) = job_ref j" "\<And>j. job_status (f j) = Job_Queued"
  shows "bench_ok (update_jobs (\<lambda>j. job_id j \<in> ids) f (s\<lparr>results := filter Q (results s)\<rparr>))"
proof -
  define js where "js = map (\<lambda>x. if job_id x \<in> ids then f x else x) (jobs s)"
  have refs: "map job_ref js = map job_ref (jobs s)" using f(1) by (simp add: js_def)
  have "map job_id js = map job_id (jobs s)" using arg_cong [OF refs, of "map fst"] by (simp add: comp_def job_ref_def)
  moreover have "map (snd \<circ> job_ref) js = map (snd \<circ> job_ref) (jobs s)" using arg_cong [OF refs, of "map snd"] by simp
  moreover from calculation(1) have "job_id ` set js = job_id ` set (jobs s)" by (metis list.set_map)
  ultimately have "jobs_ok (s\<lparr>jobs := js\<rparr>)" using assms(1) by (auto simp: bench_ok_def jobs_ok_def) (metis image_iff)
  moreover have "succeeded js = {j \<in> succeeded (jobs s). job_id j \<notin> ids}"
    using f(2) by (auto simp: succeeded_def js_def)
  then have "job_ref ` succeeded js = {x \<in> job_ref ` succeeded (jobs s). fst x \<notin> ids}" by (auto simp: job_ref_def)
  moreover have "result_ref ` set (filter Q (results s)) = {x \<in> result_ref ` set (results s). fst x \<notin> ids}"
    using assms(2) by (auto simp: result_ref_def)
  ultimately have "jobs_ok (s\<lparr>jobs := js\<rparr>)" "result_ref ` set (filter Q (results s)) = job_ref ` succeeded js"
    using assms(1) by (simp_all add: bench_ok_def results_ok_def)
  moreover have "in_hands (benchmarkers s) x" if "x \<in> set js" for x
    using that assms(1) f(2) by (auto simp: js_def in_hands_def bench_ok_def machines_ok_def)
  ultimately show ?thesis using assms(1)
    by (auto simp: bench_ok_def results_ok_def machines_ok_def jobs_ok_def update_jobs_def js_def [symmetric] distinct_map_filter)
qed

lemma reschedule_ok:
  assumes "reschedule_engine_benchmarks stamp keys engine s = Inr (s', n)" and "bench_ok s"
  shows "bench_ok s'"
proof -
  let ?requeue = "\<lambda>j. j\<lparr>job_benchmarker := None, job_status := Job_Queued, job_scheduled := stamp,
           job_started := None, job_finished := None, job_error := [], job_output := []\<rparr>"
  obtain s1 ids machines m where s1: "delete_failed_jobs (Some (spec_engine_id engine)) (spec_build_hash engine) s = Inr s1"
    and rest: "fold_result (\<lambda>(s', n) hardware. rbind (schedule_benchmark_jobs stamp keys hardware [engine] s') (\<lambda>(s'', m). Inr (s'', n + m)))
          (update_jobs (\<lambda>j. job_id j \<in> set ids) ?requeue (s1\<lparr>results := filter (\<lambda>r. eb_job r \<notin> set ids) (results s1)\<rparr>), m) machines = Inr (s', n)"
    using assms(1) by (simp only: reschedule_engine_benchmarks_def rbind_eq_Inr Let_def guard_eq_Inr) blast
  define s2 where s2: "s2 = update_jobs (\<lambda>j. job_id j \<in> set ids) ?requeue (s1\<lparr>results := filter (\<lambda>r. eb_job r \<notin> set ids) (results s1)\<rparr>)"
  have "bench_ok s1" using s1 delete_jobs_ok assms(2) unfolding delete_failed_jobs_def by blast
  then have "bench_ok s2" unfolding s2 by (rule requeue_ok) (simp_all add: job_ref_def)
  then have "bench_ok (fst (s', n))"
    by (intro fold_result_invariant [OF rest [folded s2], where P = "\<lambda>x. bench_ok (fst x)"]) (auto simp: rbind_eq_Inr dest: schedule_jobs_ok)
  then show ?thesis by simp
qed

lemma forget_engine_ok:
  assumes "forget_engine_benchmarks engine s = Inr (s', n)" and "bench_ok s"
  shows "bench_ok s'"
proof -
  let ?b = "spec_build_hash engine"
  have s': "s' = s\<lparr>results := filter (\<lambda>r. eb_build r \<noteq> ?b) (results s), jobs := filter (\<lambda>j. job_build j \<noteq> ?b) (jobs s)\<rparr>"
    using assms(1) by (auto simp: forget_engine_benchmarks_def delete_jobs_def rbind_eq_Inr Let_def split: if_splits)
  have "job_ref ` succeeded (jobs s') = {x \<in> job_ref ` succeeded (jobs s). fst (snd x) \<noteq> ?b}" by (auto simp: s' succeeded_def job_ref_def)
  moreover have "result_ref ` set (results s') = {x \<in> result_ref ` set (results s). fst (snd x) \<noteq> ?b}" by (auto simp: s' result_ref_def)
  ultimately have "result_ref ` set (results s') = job_ref ` succeeded (jobs s')" using assms(2) by (simp add: bench_ok_def results_ok_def)
  then show ?thesis using assms(2)
    by (auto simp: bench_ok_def jobs_ok_def results_ok_def machines_ok_def s' distinct_map_filter)
qed

lemma forget_failed_ok: "forget_failed_benchmark_job i s = Inr (s', x) \<Longrightarrow> bench_ok s \<Longrightarrow> bench_ok s'"
  by (auto simp: forget_failed_benchmark_job_def rbind_eq_Inr dest: delete_jobs_ok)

lemma insert_result_False: "insert_result False r s = Inr s' \<longleftrightarrow> 0 < eb_nps r \<and> 0 \<le> eb_elapsed r
    \<and> (\<forall>x \<in> set (results s). eb_job x \<noteq> eb_job r \<and> \<not> (eb_build x = eb_build r \<and> eb_hardware x = eb_hardware r))
    \<and> eb_job r \<in> job_id ` set (jobs s) \<and> eb_hardware r \<in> hp_key ` set (profiles s) \<and> s' = s\<lparr>results := results s @ [r]\<rparr>"
  by (auto simp: insert_result_def list_ex_iff image_iff) metis+

lemma update_jobs_ids: "(\<And>j. job_id (f j) = job_id j) \<Longrightarrow> job_id ` set (jobs (update_jobs P f s)) = job_id ` set (jobs s)"
proof -
  assume "\<And>j. job_id (f j) = job_id j"
  then have "map job_id (jobs (update_jobs P f s)) = map job_id (jobs s)" by (simp add: update_jobs_def)
  then show ?thesis by (metis list.set_map)
qed

text \<open>A result recorded by hand takes the place of the one there was.\<close>

lemma manual_ok:
  assumes "record_manual_benchmark hardware_key stamp key engine nps elapsed place s = Inr (s', i)" and "bench_ok s"
  shows "bench_ok s'"
proof -
  let ?b = "spec_build_hash engine"
  obtain s1 h s2 s3 sha where s1: "manual_profile hardware_key stamp place s = Inr (s1, h)" and s2: "manual_job stamp key engine h s1 = Inr (s2, i)"
    and inserted: "insert_result False \<lparr>eb_job = i, eb_engine = Some (spec_engine_id engine), eb_build = ?b, eb_sha256 = Some sha,
        eb_hardware = h, eb_nps = nps, eb_elapsed = elapsed, eb_output = [], eb_recorded = stamp\<rparr> s2 = Inr s3"
    and s': "delete_failed_jobs (Some (spec_engine_id engine)) ?b s3 = Inr s'"
    using assms(1) by (auto simp: record_manual_benchmark_def rbind_eq_Inr split: if_splits option.splits)
  obtain r where s3: "insert_result False r s2 = Inr s3" and r: "result_ref r = (i, ?b, h)"
    using inserted by (auto simp: result_ref_def)
  have ok: "bench_ok s1" using s1 add_profile_ok [OF assms(2)] assms(2) by (auto simp: manual_profile_def Let_def split: manual_hardware.splits if_splits)
  have "bench_ok s3"
  proof (cases "List.find (\<lambda>j. job_build j = ?b \<and> job_hardware j = h) (jobs s1)")
    case None
    define j where "j = \<lparr>job_id = next_job s1, job_key = key, job_benchmarker = None,
           job_engine = Some (spec_engine_id engine), job_spec = engine, job_build = ?b, job_hardware = h,
           job_status = Job_Succeeded, job_attempt = 1, job_scheduled = stamp, job_started = Some stamp, job_finished = Some stamp,
           job_error = [], job_output = []\<rparr>"
    have "rbind (insert_job j s1) (\<lambda>s'. Inr (s', next_job s1)) = Inr (s2, i)"
      using s2 by (simp add: manual_job_def None j_def)
    then have "insert_job j s1 = Inr s2 \<and> next_job s1 = i" by (simp add: rbind_eq_Inr)
    then have "insert_job j s1 = Inr s2" "i = next_job s1" by simp_all
    moreover have "job_id j = next_job s1" "snd (job_ref j) = (?b, h)" "job_status j = Job_Succeeded" by (simp_all add: j_def job_ref_def)
    ultimately have j: "insert_job j s1 = Inr s2" "job_id j = next_job s1" "i = next_job s1" "snd (job_ref j) = (?b, h)" "job_status j = Job_Succeeded"
      by blast+
    have fresh: "snd (job_ref x) \<noteq> (?b, h)" if "x \<in> set (jobs s1)" for x using None that by (auto simp: find_None_iff_in job_ref_def)
    let ?q = "j\<lparr>job_status := Job_Queued\<rparr>"
    obtain s2' where s2': "insert_job ?q s1 = Inr s2'" "s2' = s1\<lparr>jobs := jobs s1 @ [?q], next_job := next_job s1 + 1\<rparr>" and
      s2_def: "s2 = s1\<lparr>jobs := jobs s1 @ [j], next_job := next_job s1 + 1\<rparr>"
      using j(1) by (auto simp: insert_job_def split: if_splits)
    have ok': "bench_ok s2'" using j(2,4) fresh by (intro insert_job_ok [OF s2'(1) ok]) (auto simp: job_ref_def)
    have "insert_result False r s2' = Inr (s2'\<lparr>results := results s2' @ [r]\<rparr>)" and s3_def: "s3 = s2\<lparr>results := results s2 @ [r]\<rparr>"
      using s3 by (auto simp: insert_result_def s2_def s2'(2) split: if_splits)
    from insert_result_ok [OF this(1) ok', of ?q "\<lambda>x. x\<lparr>job_status := Job_Succeeded\<rparr>"]
    have "bench_ok (update_jobs (\<lambda>x. job_id x = job_id j) (\<lambda>x. x\<lparr>job_status := Job_Succeeded\<rparr>) (s2'\<lparr>results := results s2' @ [r]\<rparr>))"
      using j r by (simp add: s2'(2) job_ref_def)
    moreover have "map (\<lambda>x. if job_id x = job_id j then x\<lparr>job_status := Job_Succeeded\<rparr> else x) (jobs s1) = jobs s1"
      using ok j(2) by (intro map_idI) (auto simp: bench_ok_def jobs_ok_def)
    then have "update_jobs (\<lambda>x. job_id x = job_id j) (\<lambda>x. x\<lparr>job_status := Job_Succeeded\<rparr>) (s2'\<lparr>results := results s2' @ [r]\<rparr>) = s3"
      using j(5) by (simp add: update_jobs_def s3_def s2_def s2'(2))
    ultimately show ?thesis by simp
  next
    case (Some row)
    then have row: "row \<in> set (jobs s1)" "job_build row = ?b" "job_hardware row = h" using find_Some_iff_in by fastforce+
    define g where "g = (\<lambda>j::bench_job. j\<lparr>job_benchmarker := None, job_engine := Some (spec_engine_id engine), job_spec := engine,
      job_status := Job_Succeeded, job_attempt := job_attempt j + 1, job_scheduled := stamp, job_started := Some stamp,
      job_finished := Some stamp, job_error := [], job_output := []\<rparr>)"
    let ?Q = "\<lambda>r. \<not> (eb_build r = ?b \<and> eb_hardware r = h)"
    have s2_def: "s2 = update_jobs (\<lambda>j. job_id j = job_id row) g (s1\<lparr>results := filter ?Q (results s1)\<rparr>)" and i: "i = job_id row"
      using s2 Some by (auto simp: manual_job_def Let_def g_def)
    have Q: "?Q x \<longleftrightarrow> eb_job x \<notin> {job_id row}" if "x \<in> set (results s1)" for x
    proof -
      have "result_ref x \<in> job_ref ` succeeded (jobs s1)" using that ok by (auto simp: bench_ok_def results_ok_def)
      then obtain k where k: "k \<in> set (jobs s1)" "result_ref x = job_ref k" by (auto simp: succeeded_def)
      have "job_id k = job_id row \<or> snd (job_ref k) = snd (job_ref row) \<Longrightarrow> k = row"
        using ok k(1) row(1) by (intro job_by_ref) (simp_all add: bench_ok_def)
      then show ?thesis using k(2) row(2,3) by (auto simp: result_ref_def job_ref_def)
    qed
    define s1' where "s1' = update_jobs (\<lambda>j. job_id j \<in> {job_id row}) (\<lambda>j. j\<lparr>job_status := Job_Queued\<rparr>) (s1\<lparr>results := filter ?Q (results s1)\<rparr>)"
    have ok': "bench_ok s1'" unfolding s1'_def by (rule requeue_ok [OF ok Q]) (simp_all add: job_ref_def)
    have "job_id ` set (jobs s2) = job_id ` set (jobs s1)" "job_id ` set (jobs s1') = job_id ` set (jobs s1)"
      unfolding s2_def s1'_def by (subst update_jobs_ids; simp add: g_def)+
    moreover have "results s2 = results s1'" "profiles s2 = profiles s1'" by (simp_all add: s2_def s1'_def update_jobs_def)
    ultimately have "insert_result False r s1' = Inr (s1'\<lparr>results := results s1' @ [r]\<rparr>)" and s3_def: "s3 = s2\<lparr>results := results s2 @ [r]\<rparr>"
      using s3 by (simp_all add: insert_result_False)
    from insert_result_ok [OF this(1) ok', of "row\<lparr>job_status := Job_Queued\<rparr>" g]
    have "bench_ok (update_jobs (\<lambda>x. job_id x = job_id row) g (s1'\<lparr>results := results s1' @ [r]\<rparr>))"
      using row r by (auto simp: s1'_def update_jobs_def job_ref_def g_def i)
    moreover have "update_jobs (\<lambda>x. job_id x = job_id row) g (s1'\<lparr>results := results s1' @ [r]\<rparr>) = s3"
      by (simp add: update_jobs_def s3_def s2_def s1'_def g_def)
    ultimately show ?thesis by simp
  qed
  then show ?thesis using s' delete_jobs_ok unfolding delete_failed_jobs_def by blast
qed

lemma bench_step_ok:
  assumes "bench_step digest hardware_key s s'" and "bench_ok s"
  shows "bench_ok s'"
  using assms
proof cases
  case (complete stamp i job r descriptor nps elapsed out)
  then show ?thesis using assms(2) complete_ok
    by (auto simp: complete_job_def raised_def rbind_eq_Inr split: option.splits sum.splits)
next
  case (claim stamp claimable b r)
  then show ?thesis using assms(2) claim_ok by blast
next
  case (artifacts builds)
  then show ?thesis using assms(2) by (simp add: bench_ok_def jobs_ok_def results_ok_def machines_ok_def)
qed (use assms(2) in \<open>auto simp: record_progress_def fail_reported_job_def fail_interrupted_job_def fail_job_def raised_def rbind_eq_Inr
    disconnect_benchmarker_def split: sum.splits intro: mint_ok record_connection_ok set_status_ok update_status_ok forget_benchmarker_ok
    reset_ok schedule_jobs_ok progress_ok fail_ok manual_ok forget_engine_ok forget_failed_ok reschedule_ok\<close>)

lemma empty_bench_ok: "bench_ok empty_bench"
  by (simp add: empty_bench_def bench_ok_def jobs_ok_def results_ok_def machines_ok_def succeeded_def)

lemma bench_run_ok: "bench_run digest hardware_key empty_bench s \<Longrightarrow> bench_ok s"
  by (induction rule: bench_run.induct) (auto intro: bench_step_ok empty_bench_ok)

subsection \<open>What the service promises\<close>

text \<open>
  C35: Benchmarks are canonical.  In every state the service can reach, no two results are of one build on
  one hardware profile; each result has a positive speed and belongs to a job of its build and hardware
  that succeeded, and each job that succeeded has its result; and a job that runs is claimed by
  a registered machine with the job's hardware.
\<close>

theorem benchmarks_canonical:
  assumes "bench_run digest hardware_key empty_bench s"
  shows "distinct (map (\<lambda>r. (eb_build r, eb_hardware r)) (results s))
    \<and> (\<forall>r \<in> set (results s). 0 < eb_nps r \<and> (\<exists>j \<in> set (jobs s). job_id j = eb_job r \<and> job_build j = eb_build r
          \<and> job_hardware j = eb_hardware r \<and> job_status j = Job_Succeeded))
    \<and> (\<forall>j \<in> set (jobs s). job_status j = Job_Succeeded \<longrightarrow> (\<exists>r \<in> set (results s). eb_job r = job_id j))
    \<and> (\<forall>j \<in> set (jobs s). job_status j = Job_Running \<longrightarrow> (\<exists>b \<in> set (benchmarkers s). job_benchmarker j = Some (bm_id b)
          \<and> bm_hardware b = Some (job_hardware j)))"
proof (intro conjI)
  have ok: "jobs_ok s" "results_ok s" "machines_ok s" using bench_run_ok [OF assms] by (simp_all add: bench_ok_def)
  have refs: "result_ref ` set (results s) = job_ref ` succeeded (jobs s)" using ok(2) by (simp add: results_ok_def)
  have job: "\<exists>j \<in> set (jobs s). job_ref j = result_ref r \<and> job_status j = Job_Succeeded" if "r \<in> set (results s)" for r
  proof -
    have "result_ref r \<in> job_ref ` succeeded (jobs s)" using that unfolding refs [symmetric] by (rule imageI)
    then show ?thesis by (auto simp: succeeded_def)
  qed
  have "x = y" if xy: "x \<in> set (results s)" "y \<in> set (results s)" "(eb_build x, eb_hardware x) = (eb_build y, eb_hardware y)" for x y
  proof -
    obtain i j where ij: "i \<in> set (jobs s)" "job_ref i = result_ref x" "j \<in> set (jobs s)" "job_ref j = result_ref y" using job xy(1,2) by blast
    then have "snd (job_ref i) = snd (job_ref j)" using xy(3) by (simp add: result_ref_def)
    then have "i = j" using job_by_ref [OF ok(1)] ij(1,3) by blast
    then have "eb_job x = eb_job y" using ij(2,4) by (simp add: result_ref_def)
    then show ?thesis using ok(2) xy(1,2) by (auto simp: results_ok_def distinct_map dest: inj_onD)
  qed
  moreover have "distinct (results s)" using ok(2) by (simp add: results_ok_def distinct_map)
  ultimately show "distinct (map (\<lambda>r. (eb_build r, eb_hardware r)) (results s))" unfolding distinct_map inj_on_def by blast
  show "\<forall>r \<in> set (results s). 0 < eb_nps r \<and> (\<exists>j \<in> set (jobs s). job_id j = eb_job r \<and> job_build j = eb_build r
          \<and> job_hardware j = eb_hardware r \<and> job_status j = Job_Succeeded)"
    using ok(2) job by (fastforce simp: results_ok_def job_ref_def result_ref_def)
  show "\<forall>j \<in> set (jobs s). job_status j = Job_Succeeded \<longrightarrow> (\<exists>r \<in> set (results s). eb_job r = job_id j)"
  proof (intro ballI impI)
    fix j assume "j \<in> set (jobs s)" "job_status j = Job_Succeeded"
    then have "job_ref j \<in> result_ref ` set (results s)" unfolding refs by (simp add: succeeded_def)
    then show "\<exists>r \<in> set (results s). eb_job r = job_id j" by (auto simp: job_ref_def result_ref_def)
  qed
  show "\<forall>j \<in> set (jobs s). job_status j = Job_Running \<longrightarrow> (\<exists>b \<in> set (benchmarkers s). job_benchmarker j = Some (bm_id b)
          \<and> bm_hardware b = Some (job_hardware j))"
    using ok(3) by (simp add: machines_ok_def in_hands_def)
qed

lemma complete_Inr:
  assumes "complete_benchmark_job stamp job i nps elapsed out sha s = Inr s'"
  obtains j r s1 f where "validated_running_job s job i = Inr j" "insert_result True r s = Inr s1"
    "delete_failed_jobs (job_engine j) (job_build j) (update_jobs (\<lambda>x. job_id x = job_id j) f s1) = Inr s'"
    "\<And>x. job_status (f x) = Job_Succeeded"
  using assms by (auto simp: complete_benchmark_job_def rbind_eq_Inr)

lemma complete_ends:
  assumes "complete_benchmark_job stamp job i nps elapsed out sha s = Inr s'"
  obtains j where "validated_running_job s job i = Inr j" "\<forall>x \<in> set (jobs s'). job_id x = job_id j \<longrightarrow> job_status x \<noteq> Job_Running"
proof -
  obtain j r s1 f where j: "validated_running_job s job i = Inr j" and s1: "insert_result True r s = Inr s1"
    and s': "delete_failed_jobs (job_engine j) (job_build j) (update_jobs (\<lambda>x. job_id x = job_id j) f s1) = Inr s'"
    and f: "\<And>x. job_status (f x) = Job_Succeeded"
    using complete_Inr [OF assms] by metis
  have "set (jobs s') \<subseteq> set (jobs (update_jobs (\<lambda>x. job_id x = job_id j) f s1))"
    using s' by (auto simp: delete_failed_jobs_def delete_jobs_def split: if_splits)
  then show thesis using f by (intro that [OF j]) (auto simp: update_jobs_def)
qed

lemma fail_ends:
  assumes "fail_benchmark_job stamp job i err out s = Inr s'"
  obtains j where "validated_running_job s job i = Inr j" "\<forall>x \<in> set (jobs s'). job_id x = job_id j \<longrightarrow> job_status x \<noteq> Job_Running"
proof -
  obtain j where j: "validated_running_job s job i = Inr j" and s': "\<exists>f. s' = update_jobs (\<lambda>x. job_id x = job_id j) f s \<and> (\<forall>x. job_status (f x) = Job_Failed)"
    using assms by (force simp: fail_benchmark_job_def rbind_eq_Inr)
  then show thesis by (intro that [OF j]) (auto simp: update_jobs_def)
qed


definition keeps_machines :: "bench \<Rightarrow> bench \<Rightarrow> bool" where
  "keeps_machines s s' = (next_benchmarker s \<le> next_benchmarker s' \<and> (\<forall>b \<in> set (benchmarkers s'). bm_id b < next_benchmarker s \<longrightarrow>
     (\<exists>a \<in> set (benchmarkers s). bm_id a = bm_id b \<and> (bm_hardware a = None \<or> bm_hardware b = bm_hardware a))))"

lemma keeps_same: "benchmarkers s' = benchmarkers s \<Longrightarrow> next_benchmarker s' = next_benchmarker s \<Longrightarrow> keeps_machines s s'"
  by (auto simp: keeps_machines_def)

lemma keeps_trans: "keeps_machines s s' \<Longrightarrow> keeps_machines s' s'' \<Longrightarrow> keeps_machines s s''"
  unfolding keeps_machines_def by (smt (verit, best) order.trans order.strict_trans2)

lemma keeps_update:
  "(\<And>b. P b \<Longrightarrow> bm_id (f b) = bm_id b \<and> (bm_hardware b = None \<or> bm_hardware (f b) = bm_hardware b)) \<Longrightarrow> keeps_machines s (update_benchmarkers P f s)"
  unfolding keeps_machines_def update_benchmarkers_def by (auto split: if_splits) metis+

lemma schedule_machines:
  assumes "schedule_benchmark_jobs stamp keys hardware engines s = Inr (s', n)"
  shows "benchmarkers s' = benchmarkers s \<and> next_benchmarker s' = next_benchmarker s"
proof -
  have "benchmarkers (fst (s', n)) = benchmarkers s \<and> next_benchmarker (fst (s', n)) = next_benchmarker s"
    by (rule fold_result_invariant [OF assms[unfolded schedule_benchmark_jobs_def], where P = "\<lambda>x. benchmarkers (fst x) = benchmarkers s \<and> next_benchmarker (fst x) = next_benchmarker s"])
      (auto simp: schedule_benchmark_job_def insert_job_def rbind_eq_Inr split: if_splits)
  then show ?thesis by simp
qed

lemma reschedule_machines:
  assumes "reschedule_engine_benchmarks stamp keys engine s = Inr (s', n)"
  shows "benchmarkers s' = benchmarkers s \<and> next_benchmarker s' = next_benchmarker s"
proof -
  obtain s1 ids m machines where s1: "delete_failed_jobs (Some (spec_engine_id engine)) (spec_build_hash engine) s = Inr s1"
    and rest: "fold_result (\<lambda>(s', n) hardware. rbind (schedule_benchmark_jobs stamp keys hardware [engine] s') (\<lambda>(s'', m). Inr (s'', n + m)))
          (update_jobs (\<lambda>j. job_id j \<in> set ids) (\<lambda>j. j\<lparr>job_benchmarker := None, job_status := Job_Queued, job_scheduled := stamp,
           job_started := None, job_finished := None, job_error := [], job_output := []\<rparr>)
           (s1\<lparr>results := filter (\<lambda>r. eb_job r \<notin> set ids) (results s1)\<rparr>), m) machines = Inr (s', n)"
    using assms by (simp only: reschedule_engine_benchmarks_def rbind_eq_Inr Let_def guard_eq_Inr) blast
  have "benchmarkers s1 = benchmarkers s \<and> next_benchmarker s1 = next_benchmarker s"
    using s1 by (auto simp: delete_failed_jobs_def delete_jobs_def split: if_splits)
  then have "benchmarkers (fst (s', n)) = benchmarkers s \<and> next_benchmarker (fst (s', n)) = next_benchmarker s"
    by (intro fold_result_invariant [OF rest, where P = "\<lambda>x. benchmarkers (fst x) = benchmarkers s \<and> next_benchmarker (fst x) = next_benchmarker s"])
      (simp add: update_jobs_def, clarsimp simp: rbind_eq_Inr schedule_machines)
  then show ?thesis by simp
qed

lemma manual_job_machines:
  "manual_job stamp key engine h s = Inr (s', i) \<Longrightarrow> benchmarkers s' = benchmarkers s \<and> next_benchmarker s' = next_benchmarker s"
  by (cases "List.find (\<lambda>j. job_build j = spec_build_hash engine \<and> job_hardware j = h) (jobs s)")
    (auto simp: manual_job_def insert_job_def update_jobs_def Let_def split: if_splits)

lemma manual_machines:
  assumes "record_manual_benchmark hardware_key stamp key engine nps elapsed place s = Inr (s', i)"
  shows "benchmarkers s' = benchmarkers s \<and> next_benchmarker s' = next_benchmarker s"
proof -
  obtain s1 h s2 s3 sha where s: "manual_profile hardware_key stamp place s = Inr (s1, h)" "manual_job stamp key engine h s1 = Inr (s2, i)"
    "insert_result False \<lparr>eb_job = i, eb_engine = Some (spec_engine_id engine), eb_build = spec_build_hash engine, eb_sha256 = Some sha,
        eb_hardware = h, eb_nps = nps, eb_elapsed = elapsed, eb_output = [], eb_recorded = stamp\<rparr> s2 = Inr s3"
    "delete_failed_jobs (Some (spec_engine_id engine)) (spec_build_hash engine) s3 = Inr s'"
    using assms by (auto simp: record_manual_benchmark_def rbind_eq_Inr split: if_splits option.splits)
  have "benchmarkers s1 = benchmarkers s \<and> next_benchmarker s1 = next_benchmarker s"
    using s(1) by (auto simp: manual_profile_def add_profile_def Let_def split: manual_hardware.splits if_splits)
  moreover have "benchmarkers s' = benchmarkers s3 \<and> next_benchmarker s' = next_benchmarker s3"
    using s(4) by (auto simp: delete_failed_jobs_def delete_jobs_def split: if_splits)
  moreover have "benchmarkers s3 = benchmarkers s2 \<and> next_benchmarker s3 = next_benchmarker s2"
    using s(3) by (simp add: insert_result_False)
  ultimately show ?thesis using manual_job_machines [OF s(2)] by simp
qed

lemma complete_machines:
  assumes "complete_benchmark_job stamp job i nps elapsed out sha s = Inr s'"
  shows "benchmarkers s' = benchmarkers s \<and> next_benchmarker s' = next_benchmarker s"
proof -
  obtain j :: bench_job and s1 r f where s1: "insert_result True r s = Inr s1"
    and s': "delete_failed_jobs (job_engine j) (job_build j) (update_jobs (\<lambda>x. job_id x = job_id j) f s1) = Inr s'"
    using complete_Inr [OF assms] by metis
  have "benchmarkers s1 = benchmarkers s \<and> next_benchmarker s1 = next_benchmarker s"
    using s1 by (auto simp: insert_result_def split: if_splits)
  then show ?thesis using s' by (auto simp: delete_failed_jobs_def delete_jobs_def update_jobs_def split: if_splits)
qed

lemma job_reports_machines:
  "record_benchmark_progress stamp job i stage substage st detail s = Inr s' \<Longrightarrow> benchmarkers s' = benchmarkers s \<and> next_benchmarker s' = next_benchmarker s"
  "fail_benchmark_job stamp job i err out s = Inr s' \<Longrightarrow> benchmarkers s' = benchmarkers s \<and> next_benchmarker s' = next_benchmarker s"
  "forget_engine_benchmarks engine s = Inr (s', n) \<Longrightarrow> benchmarkers s' = benchmarkers s \<and> next_benchmarker s' = next_benchmarker s"
  "forget_failed_benchmark_job k s = Inr (s', x) \<Longrightarrow> benchmarkers s' = benchmarkers s \<and> next_benchmarker s' = next_benchmarker s"
     apply (force simp: record_benchmark_progress_def rbind_eq_Inr Let_def update_jobs_def)
    apply (force simp: fail_benchmark_job_def rbind_eq_Inr update_jobs_def)
   apply (force simp: forget_engine_benchmarks_def delete_jobs_def rbind_eq_Inr Let_def split: if_splits)
  apply (force simp: forget_failed_benchmark_job_def delete_jobs_def rbind_eq_Inr split: if_splits)
  done

lemma claim_machines:
  assumes "claim_next_job stamp claimable b s = Inr (s', r)"
  shows "benchmarkers s' = benchmarkers s \<and> next_benchmarker s' = next_benchmarker s"
proof -
  obtain hardware where "claim_benchmark_job stamp claimable (bm_id b) hardware s = Inr (s', r)"
    using assms by (auto simp: claim_next_job_def raised_def split: option.splits sum.splits)
  then show ?thesis unfolding claim_benchmark_job_def Let_def
    by (simp split: list.splits if_splits) (force simp: update_jobs_def)+
qed

lemma connect_machines:
  assumes "record_connection stamp c record session protocol hello s = Inr (s', b)"
  shows "keeps_machines s s'"
proof -
  have r: "register_benchmarker_connection stamp record label session protocol hello s = Inr (s', b) \<Longrightarrow> keeps_machines s s'" for label
    unfolding register_benchmarker_connection_def Let_def
    by (auto simp: rbind_eq_Inr add_profile_def split: if_splits option.splits
        intro!: keeps_update keeps_trans [OF keeps_same keeps_update])
  show ?thesis using assms by (auto simp: record_connection_def Let_def split: sum.splits exn.splits intro: r)
qed

lemma step_keeps_machines:
  assumes "bench_step digest hardware_key s s'"
  shows "keeps_machines s s'"
  using assms
proof cases
  case (mint stamp now label ttl token)
  then show ?thesis by (auto simp: mint_benchmarker_token_def keeps_machines_def split: if_splits)
next
  case (status stamp b st)
  then show ?thesis by (auto simp: set_status_def update_benchmarker_status_def Let_def split: if_splits intro: keeps_update)
next
  case (disconnect stamp i session x)
  then show ?thesis by (auto simp: disconnect_benchmarker_def update_benchmarker_status_def Let_def intro: keeps_update)
next
  case (forget_machine stamp i x)
  then show ?thesis by (auto simp: forget_benchmarker_def keeps_machines_def update_jobs_def Let_def split: if_splits)
next
  case (restart stamp)
  have "keeps_machines s (update_jobs P f s)" for P f by (rule keeps_same) (simp_all add: update_jobs_def)
  from keeps_trans [OF this keeps_update] show ?thesis using restart unfolding reset_benchmark_service_state_def by auto
next
  case (complete stamp i job r descriptor nps elapsed out)
  then have "complete_benchmark_job stamp job i nps elapsed out (artifact_sha256 descriptor) s = Inr s'"
    by (auto simp: complete_job_def raised_def rbind_eq_Inr split: option.splits sum.splits)
  then show ?thesis using complete_machines keeps_same by blast
next
  case (progress stamp i job r stage substage st detail)
  then show ?thesis using job_reports_machines(1) keeps_same
    by (auto simp: record_progress_def raised_def rbind_eq_Inr split: sum.splits)
next
  case (report_failed stamp i job r stage err out)
  then show ?thesis using job_reports_machines(2) keeps_same
    by (auto simp: fail_reported_job_def fail_job_def raised_def rbind_eq_Inr split: sum.splits)
next
  case (interrupted stamp i job)
  then show ?thesis using job_reports_machines(2) keeps_same
    by (auto simp: fail_interrupted_job_def fail_job_def raised_def split: sum.splits)
next
  case (connect hello stamp c r session protocol b)
  then show ?thesis using connect_machines by blast
next
  case (schedule stamp keys hardware engines n)
  then show ?thesis using schedule_machines keeps_same by blast
next
  case (claim stamp claimable b r)
  then show ?thesis using claim_machines keeps_same by blast
next
  case (manual stamp key engine nps elapsed place i)
  then show ?thesis using manual_machines keeps_same by blast
next
  case (forget_engine engine n)
  then show ?thesis using job_reports_machines(3) keeps_same by blast
next
  case (forget_failed i x)
  then show ?thesis using job_reports_machines(4) keeps_same by blast
next
  case (artifacts builds)
  then show ?thesis by (auto intro: keeps_same)
next
  case (reschedule stamp keys engine n)
  then show ?thesis using reschedule_machines keeps_same by blast
qed

text \<open>
  A credential stays bound to its hardware.  Once a benchmark machine has connected, whatever it or
  another one registers later, its hardware profile never changes; a credential for which the machine has
  been forgotten is not given out again.
\<close>

theorem hardware_bound:
  assumes "bench_run digest hardware_key empty_bench s" and "bench_run digest hardware_key s s'"
    and "b \<in> set (benchmarkers s)" and "b' \<in> set (benchmarkers s')" and "bm_id b' = bm_id b" and "bm_hardware b = Some h"
  shows "bm_hardware b' = Some h"
proof -
  have "keeps_machines s s'" using assms(2)
    by (induction rule: bench_run.induct) (auto intro: keeps_same keeps_trans step_keeps_machines)
  moreover have ok: "distinct (map bm_id (benchmarkers s))" "bm_id b < next_benchmarker s"
    using bench_run_ok [OF assms(1)] assms(3) by (simp_all add: bench_ok_def machines_ok_def)
  ultimately obtain a where a: "a \<in> set (benchmarkers s)" "bm_id a = bm_id b'" "bm_hardware a = None \<or> bm_hardware b' = bm_hardware a"
    using assms(4,5) unfolding keeps_machines_def by metis
  then have "a = b" using ok(1) assms(3,5) by (auto simp: distinct_map dest: inj_onD)
  then show ?thesis using a(3) assms(6) by simp
qed

subsection \<open>One benchmark\<close>

text \<open>A machine registers, an engine is scheduled on its hardware, claimed and measured.\<close>

definition sample_hello :: benchmarker_hello where
  "sample_hello = \<lparr>hello_label = [], hello_commit = ''c'', hello_machine = ''m'', hello_hardware = ''mh'', hello_hw = ''h''\<rparr>"

definition sample_build :: artifact_spec where
  "sample_build = \<lparr>artifact_url = ''u'', artifact_sha256 = ''a'', artifact_size = 9, artifact_entrypoint = ''engine''\<rparr>"

definition sample_spec :: engine_spec where
  "sample_spec = \<lparr>spec_engine_id = 4, spec_name = ''e'', spec_author = [], spec_version = ''1'', spec_repository_url = [],
     spec_source_ref = [], spec_dockerfile = [], spec_build_hash = ''b'', spec_distribution = Managed, spec_local_key = None,
     spec_artifact = None, spec_uci_options = []\<rparr>"

definition sample_report :: job_report where
  "sample_report = \<lparr>report_job = 1, report_key = ''mhb'', report_hardware = ''mh'', report_build = ''b''\<rparr>"

definition sample_machine :: benchmarker where
  "sample_machine = \<lparr>bm_id = 1, bm_label = ''label'', bm_token = None, bm_expires = None, bm_status = Bm_Connected,
     bm_session = Some ''session'', bm_commit = Some ''c'', bm_protocol = Some 1, bm_machine = Some ''m'', bm_hardware = Some ''mh'',
     bm_hw = Some ''h'', bm_created = ''t0'', bm_seen = Some ''t1''\<rparr>"

definition sample_credential :: benchmarker where
  "sample_credential = sample_machine\<lparr>bm_token := Some ''token'', bm_expires := Some 7200, bm_status := Bm_Minted, bm_session := None,
     bm_commit := None, bm_protocol := None, bm_machine := None, bm_hardware := None, bm_hw := None, bm_seen := None\<rparr>"

definition sample_minted :: bench where
  "sample_minted = empty_bench\<lparr>benchmarkers := [sample_credential], next_benchmarker := 2\<rparr>"

definition sample_connected :: bench where
  "sample_connected = sample_minted\<lparr>benchmarkers := [sample_machine],
     profiles := [\<lparr>hp_key = ''mh'', hp_machine = ''m'', hp_hw = ''h'', hp_created = ''t1''\<rparr>]\<rparr>"

definition sample_queued :: bench_job where
  "sample_queued = \<lparr>job_id = 1, job_key = ''mhb'', job_benchmarker = None, job_engine = Some 4, job_spec = sample_spec,
     job_build = ''b'', job_hardware = ''mh'', job_status = Job_Queued, job_attempt = 0, job_scheduled = ''t2'', job_started = None,
     job_finished = None, job_error = [], job_output = []\<rparr>"

definition sample_scheduled :: bench where
  "sample_scheduled = sample_connected\<lparr>build_artifacts := [(''b'', sample_build)], jobs := [sample_queued], next_job := 2\<rparr>"

definition sample_job :: bench_job where
  "sample_job = sample_queued\<lparr>job_benchmarker := Some 1, job_status := Job_Running, job_attempt := 1, job_started := Some ''t3''\<rparr>"

definition sample_claimed :: bench where
  "sample_claimed = sample_scheduled\<lparr>jobs := [sample_job]\<rparr>"

definition sample_measured :: bench where
  "sample_measured = sample_claimed\<lparr>jobs := [sample_job\<lparr>job_status := Job_Succeeded, job_finished := Some ''t4''\<rparr>],
     results := [\<lparr>eb_job = 1, eb_engine = Some 4, eb_build = ''b'', eb_sha256 = Some ''a'', eb_hardware = ''mh'', eb_nps = 1000,
       eb_elapsed = 5, eb_output = ''done'', eb_recorded = ''t4''\<rparr>]\<rparr>"

lemma sample_steps:
  "mint_benchmarker_token (\<lambda>x. x) ''t0'' 0 ''label'' 7200 ''token'' empty_bench = Inr sample_minted"
  "validate_hello (@) sample_hello = Inr ()"
  "record_connection ''t1'' (Token ''token'') sample_credential ''session'' 1 sample_hello sample_minted = Inr (sample_connected, sample_machine)"
  "schedule_benchmark_jobs ''t2'' (\<lambda>h b. h @ b) ''mh'' [sample_spec] (sample_connected\<lparr>build_artifacts := [(''b'', sample_build)]\<rparr>) = Inr (sample_scheduled, 1)"
  "claim_next_job ''t3'' (\<lambda>i. True) sample_machine sample_scheduled
    = Inr (sample_claimed, Some (sample_job\<lparr>job_spec := sample_spec\<lparr>spec_artifact := Some sample_build\<rparr>\<rparr>))"
  "get_benchmarker sample_scheduled (bm_id sample_machine) = Some sample_machine"
  by code_simp+

lemma sample_completes: "complete_job ''t4'' 1 sample_job sample_report sample_build 1000 5 ''done'' sample_claimed = Inr sample_measured"
proof -
  have "validate_result sample_job sample_report = Inr ()" "strip ''done'' = ''done''" "rstrip [] = []" by code_simp+
  then show ?thesis
    by (simp add: complete_job_def complete_benchmark_job_def validated_running_job_def insert_result_def raised_def recorded_output_def
        last_chars_def or_text_def delete_failed_jobs_def delete_jobs_def update_jobs_def sample_job_def sample_queued_def
        sample_measured_def sample_claimed_def sample_scheduled_def sample_connected_def sample_minted_def empty_bench_def sample_build_def)
qed

lemma sample_connected_run: "bench_run (\<lambda>x. x) (@) empty_bench sample_connected"
  using bench_run.further [OF bench_run.further [OF bench_run.here bench_step.mint [OF sample_steps(1)]] bench_step.connect [OF sample_steps(2,3)]] .

lemma sample_claimed_after: "bench_run (\<lambda>x. x) (@) sample_connected sample_claimed"
proof -
  have "bench_run (\<lambda>x. x) (@) sample_connected sample_scheduled"
    using bench_run.further [OF bench_run.further [OF bench_run.here bench_step.artifacts] bench_step.schedule [OF sample_steps(4)]] .
  then show ?thesis by (rule bench_run.further) (rule bench_step.claim [OF sample_steps(5)], use sample_steps(6) in simp)
qed

lemma bench_run_trans: "bench_run digest hardware_key s' s'' \<Longrightarrow> bench_run digest hardware_key s s' \<Longrightarrow> bench_run digest hardware_key s s''"
  by (induction rule: bench_run.induct) (auto intro: bench_run.further)

lemma sample_claimed_run: "bench_run (\<lambda>x. x) (@) empty_bench sample_claimed"
  using bench_run_trans [OF sample_claimed_after sample_connected_run] .

theorem benchmarks_canonical_witness:
  "results sample_measured \<noteq> [] \<and> list_ex (\<lambda>j. job_status j = Job_Succeeded) (jobs sample_measured)"
proof -
  have "bench_run (\<lambda>x. x) (@) empty_bench sample_measured"
    by (rule bench_run.further [OF sample_claimed_run bench_step.complete [OF sample_completes]])
  note canonical = benchmarks_canonical [OF this]
  have "results sample_measured \<noteq> []" by (simp add: sample_measured_def)
  then obtain r where "r \<in> set (results sample_measured)" by (cases "results sample_measured") auto
  then have "\<exists>j \<in> set (jobs sample_measured). job_status j = Job_Succeeded" using canonical by blast
  then show ?thesis by (simp add: list_ex_iff sample_measured_def)
qed


theorem hardware_bound_witness: "map bm_hardware (benchmarkers sample_claimed) = [Some ''mh'']"
proof -
  have "benchmarkers sample_claimed = [sample_machine]"
    by (simp add: sample_claimed_def sample_scheduled_def sample_connected_def)
  moreover have "bm_hardware sample_machine = Some ''mh''"
    by (rule hardware_bound [OF sample_connected_run sample_claimed_after, of sample_machine])
      (simp_all add: sample_connected_def sample_claimed_def sample_scheduled_def sample_machine_def)
  ultimately show ?thesis by simp
qed

end
