(* ===== verification/Estimates.thy ===== *)
theory Estimates
  imports Scheduler_Roster Complex_Main
begin

text \<open>
  When a tournament will be finished (\<open>cope/tournament/estimates.py\<close>).  Durations are exact reals in
  seconds, and the times of a game are given in seconds: the reading and printing of ISO dates is left
  out.  The games still to play are spread over the places for concurrent games as they become
  free; this simulation is proved to compute the least possible time.
\<close>

record timed_game = game_record +
  game_start :: "real option"
  game_end :: "real option"

record game_telemetry =
  plies :: int
  book_plies :: int
  thinking_seconds :: real
  white_clock :: "int option"
  black_clock :: "int option"

datatype estimate_basis = Basis_Tournament | Basis_Historical | Basis_Unavailable

datatype estimate_confidence = Confidence_Unavailable | Confidence_Low | Confidence_Medium | Confidence_High

datatype estimate_state = Estimate_Complete | Estimate_Unavailable | Estimate_Estimated | Estimate_Paused

record tournament_estimate =
  est_finish_at :: "int option"
  est_remaining_seconds :: "int option"
  est_median_seconds :: "int option"
  est_sample_size :: int
  est_remaining_games :: int
  est_projected_games :: int
  est_concurrency :: int
  est_confidence :: estimate_confidence
  est_basis :: estimate_basis
  est_state :: estimate_state

subsection \<open>Durations\<close>

definition median :: "real list \<Rightarrow> real" where
  "median xs = (let s = sort xs; n = length s in if odd n then s ! (n div 2) else (s ! (n div 2 - 1) + s ! (n div 2)) / 2)"

text \<open>\<open>round\<close>: to the nearest integer, half to even.\<close>

definition round_even :: "real \<Rightarrow> int" where
  "round_even x = (let f = \<lfloor>x\<rfloor>; d = x - of_int f
   in if d < 1 / 2 then f else if 1 / 2 < d then f + 1 else if even f then f else f + 1)"

definition max_game_duration_seconds :: real where
  "max_game_duration_seconds = 7 * 24 * 60 * 60"

definition min_late_game_plies :: real where
  "min_late_game_plies = 6"

definition recent_duration_window :: nat where
  "recent_duration_window = 32"

definition duration_seconds :: "real option \<Rightarrow> real option \<Rightarrow> real option" where
  "duration_seconds started finished = (case (started, finished) of
     (Some a, Some b) \<Rightarrow> if b - a \<le> 0 \<or> max_game_duration_seconds < b - a then None else Some (b - a)
   | _ \<Rightarrow> None)"

definition game_durations :: "timed_game list \<Rightarrow> real list" where
  "game_durations gs = List.map_filter (\<lambda>g. duration_seconds (game_start g) (game_end g))
     (filter (\<lambda>g. game_status g = Game_Finished) gs)"

definition representative_duration :: "real list \<Rightarrow> real" where
  "representative_duration ds = (if length ds < 8 then median ds
     else median ds * 35 / 100 + median (drop (length ds - recent_duration_window) ds) * 65 / 100)"

definition config_fingerprint :: "tournament_config \<Rightarrow> string \<times> config_time_control \<times> adjudication_config \<times> int \<times> int" where
  "config_fingerprint c = (config_variant c, config_time_control c, adjudication c, engine_threads c, engine_hash_mb c)"

text \<open>The latest 2000 finished games of all tournaments; a stored configuration may no longer be valid.\<close>

definition historical_durations :: "(int \<Rightarrow> tournament_config option) \<Rightarrow> timed_game list \<Rightarrow> tournament_config \<Rightarrow> real list" where
  "historical_durations config_of all_games c = List.map_filter
     (\<lambda>g. case config_of (game_tournament g) of None \<Rightarrow> None
        | Some d \<Rightarrow> if config_fingerprint d = config_fingerprint c then duration_seconds (game_start g) (game_end g) else None)
     (take 2000 (rev (sort_key game_id (filter (\<lambda>g. game_status g = Game_Finished \<and> game_start g \<noteq> None \<and> game_end g \<noteq> None) all_games))))"

definition projected_game_total :: "tournament_config \<Rightarrow> int" where
  "projected_game_total c = (let n = int (length (participants c)) in case format_options c of
     RoundRobinFormatOptions cycs \<Rightarrow> n * (n - 1) * cycs
   | SwissFormatOptions rounds \<Rightarrow> n div 2 * rounds * 2
   | KnockoutFormatOptions \<Rightarrow> max 0 (n - 1) * 2
   | GauntletFormatOptions hero cycs \<Rightarrow> max 0 (n - 1) * cycs * 2)"

definition confidence :: "estimate_basis \<Rightarrow> nat \<Rightarrow> estimate_confidence" where
  "confidence basis samples = (if basis = Basis_Unavailable then Confidence_Unavailable
     else if basis = Basis_Historical \<or> samples < 3 then Confidence_Low
     else if samples < 10 then Confidence_Medium else Confidence_High)"

subsection \<open>A game that is being played\<close>

definition tail_fraction :: "int \<Rightarrow> int \<Rightarrow> real" where
  "tail_fraction remaining places = (if places \<le> 1 then 1
     else min 1 (max 0 (real_of_int (places - remaining) / real_of_int (places - 1))))"

definition remaining_plies :: "int \<Rightarrow> int list \<Rightarrow> real" where
  "remaining_plies current completed = (let
     survivors = map (\<lambda>p. p - current) (filter (\<lambda>p. current < p) completed);
     ordered = sort completed;
     upper = min (int (length ordered) - 1) (round_even (real_of_int (int (length ordered) - 1) * 9 / 10));
     upper_tail = max 0 (real_of_int (ordered ! nat upper - current));
     typical_tail = max min_late_game_plies (median (map real_of_int ordered) * 8 / 100)
   in if 5 \<le> length survivors then max min_late_game_plies (median (map real_of_int survivors))
      else max typical_tail upper_tail)"

definition game_pace :: "real \<Rightarrow> real \<Rightarrow> game_telemetry \<Rightarrow> int list \<Rightarrow> real" where
  "game_pace elapsed duration t completed = (let
     played = real_of_int (max 1 (plies t - book_plies t));
     observed = (if 0 < elapsed then elapsed / played else 0);
     typical = duration / max 1 (median (map real_of_int completed));
     measured = max observed (thinking_seconds t / played);
     pace = (if measured \<le> 0 then typical else measured)
   in min (max pace (typical * 35 / 100)) (typical * 3))"

definition live_game_remaining_seconds :: "real \<Rightarrow> real \<Rightarrow> game_telemetry option \<Rightarrow> int list \<Rightarrow> int \<Rightarrow> real \<Rightarrow> int \<Rightarrow> real" where
  "live_game_remaining_seconds elapsed duration telemetry completed max_plies tail initial_clock = (let
     duration_remaining = max 0 (duration - elapsed)
   in case telemetry of None \<Rightarrow> duration_remaining
   | Some t \<Rightarrow> if plies t < 8 \<or> completed = [] then duration_remaining else let
       left = remaining_plies (plies t) completed;
       left' = (if 0 < max_plies then min left (max 0 (real_of_int (max_plies - plies t))) else left);
       progress = left' * game_pace elapsed duration t completed;
       progress' = (case (white_clock t, black_clock t) of
           (Some w, Some b) \<Rightarrow> if 0 < initial_clock
             then progress * (7 / 10 + 3 / 10 * sqrt (min 1 (max 0 (real_of_int (w + b)) / real_of_int (initial_clock * 2)))) else progress
         | _ \<Rightarrow> progress);
       weight = min 1 (min (95 / 100) (max 0 (real_of_int (plies t - 16) / 96)) + 2 / 10 * tail)
     in duration_remaining * (1 - weight) + progress' * weight)"

subsection \<open>The rest of a tournament\<close>

text \<open>
  The times at which the places become free, in increasing order: \<open>heappop\<close> takes the first.  A game
  that is queued starts at the place that is free first.
\<close>

fun run_queue :: "real \<Rightarrow> nat \<Rightarrow> real list \<Rightarrow> real list" where
  "run_queue duration 0 free = free"
| "run_queue duration (Suc n) free = run_queue duration n (insort (hd free + duration) (tl free))"

definition places :: "nat \<Rightarrow> real list \<Rightarrow> real list" where
  "places n active = (let padded = (if active = [] then replicate n 0 else active @ replicate (n - length active) 0)
   in drop (length padded - n) (sort padded))"

definition active_times :: "real \<Rightarrow> real \<Rightarrow> (int \<Rightarrow> game_telemetry option) \<Rightarrow> int list \<Rightarrow> int \<Rightarrow> real \<Rightarrow> int \<Rightarrow> timed_game list \<Rightarrow> real list" where
  "active_times now duration telemetry completed max_plies tail initial_clock gs = List.map_filter (\<lambda>g.
     if game_status g = Game_Live then Some (live_game_remaining_seconds (case game_start g of Some s \<Rightarrow> max 0 (now - s) | None \<Rightarrow> 0)
       duration (telemetry (game_id g)) completed max_plies tail initial_clock)
     else if game_status g = Game_Assigned then Some duration else None) gs"

definition remaining_runtime_seconds :: "nat \<Rightarrow> real \<Rightarrow> nat \<Rightarrow> real list \<Rightarrow> timed_game list \<Rightarrow> real" where
  "remaining_runtime_seconds future duration n active gs = (let
     queued = future + length (filter (\<lambda>g. game_status g = Game_Pending) gs);
     free = run_queue duration queued (places n active)
   in if free = [] then 0 else Max (set free))"

definition estimate :: "(int \<Rightarrow> tournament_config option) \<Rightarrow> timed_game list \<Rightarrow> (int \<Rightarrow> game_telemetry option) \<Rightarrow> real
    \<Rightarrow> real option \<Rightarrow> tournament_record \<Rightarrow> timed_game list \<Rightarrow> tournament_estimate" where
  "estimate config_of all_games telemetry now start t gs = (let
     c = tour_config t;
     own = game_durations gs;
     past = historical_durations config_of all_games c;
     (duration, middle, ds, basis) = (if own \<noteq> [] then (representative_duration own, median own, own, Basis_Tournament)
       else if past \<noteq> [] then (median past, median past, past, Basis_Historical) else (0, 0, own, Basis_Unavailable));
     total_games = int (length gs);
     projected = max total_games (projected_game_total c);
     over = int (length (filter (\<lambda>g. game_status g \<in> {Game_Finished, Game_Abandoned}) gs));
     future = max 0 (projected - total_games);
     remaining = max 0 (total_games - over + future);
     n = max 1 (concurrency c);
     some_median = (if middle \<noteq> 0 then Some (round_even middle) else None)
   in if tour_status t \<in> {Finished, Aborted} \<or> remaining = 0
      then \<lparr>est_finish_at = None, est_remaining_seconds = Some 0, est_median_seconds = some_median, est_sample_size = int (length ds),
        est_remaining_games = 0, est_projected_games = projected, est_concurrency = n, est_confidence = confidence basis (length ds),
        est_basis = basis, est_state = Estimate_Complete\<rparr>
      else if duration \<le> 0
      then \<lparr>est_finish_at = None, est_remaining_seconds = None, est_median_seconds = None, est_sample_size = 0,
        est_remaining_games = remaining, est_projected_games = projected, est_concurrency = n, est_confidence = Confidence_Unavailable,
        est_basis = Basis_Unavailable, est_state = Estimate_Unavailable\<rparr>
      else let
        seen = (if list_ex (\<lambda>g. game_status g = Game_Live) gs then telemetry else (\<lambda>i. None));
        completed = List.map_filter (\<lambda>g. case seen (game_id g) of Some x \<Rightarrow> if 0 < plies x then Some (plies x) else None | None \<Rightarrow> None)
          (filter (\<lambda>g. game_status g = Game_Finished) gs);
        max_plies = (case adj_max_moves (adjudication c) of Some m \<Rightarrow> m * 2 | None \<Rightarrow> 0);
        clock = (case config_time_control c of IncrementTimeControl i inc \<Rightarrow> i | _ \<Rightarrow> 0);
        active = active_times now duration seen completed max_plies (tail_fraction remaining n) clock gs;
        rest = remaining_runtime_seconds (nat future) duration (nat n) active gs;
        (finish, st) = (case tour_status t of
            Paused \<Rightarrow> (None, Estimate_Paused)
          | Scheduled \<Rightarrow> (Some \<lfloor>max (case start of Some x \<Rightarrow> x | None \<Rightarrow> now) now + rest\<rfloor>, Estimate_Estimated)
          | Running \<Rightarrow> (Some \<lfloor>now + rest\<rfloor>, Estimate_Estimated)
          | _ \<Rightarrow> (None, Estimate_Unavailable))
      in \<lparr>est_finish_at = finish, est_remaining_seconds = Some (round_even rest), est_median_seconds = Some (round_even middle),
        est_sample_size = int (length ds), est_remaining_games = remaining, est_projected_games = projected, est_concurrency = n,
        est_confidence = confidence basis (length ds), est_basis = basis, est_state = st\<rparr>)"

definition completed_tournament_estimate :: "tournament_record \<Rightarrow> int \<Rightarrow> real option \<Rightarrow> nat \<Rightarrow> tournament_estimate" where
  "completed_tournament_estimate t total_games middle samples = (let basis = (if samples \<noteq> 0 then Basis_Tournament else Basis_Unavailable)
   in \<lparr>est_finish_at = None, est_remaining_seconds = Some 0, est_median_seconds = map_option round_even middle,
     est_sample_size = int samples, est_remaining_games = 0, est_projected_games = max total_games (projected_game_total (tour_config t)),
     est_concurrency = max 1 (concurrency (tour_config t)), est_confidence = confidence basis samples, est_basis = basis,
     est_state = Estimate_Complete\<rparr>)"

subsection \<open>The projected number of games\<close>

lemma card_ordered_pairs: "finite P \<Longrightarrow> card (ordered_pairs P) = card P * (card P - 1)"
proof -
  assume fin: "finite P"
  have "ordered_pairs P = P \<times> P - (\<lambda>x. (x, x)) ` P" by (auto simp: ordered_pairs_def)
  moreover have "card ((\<lambda>x. (x, x)) ` P) = card P" by (rule card_image) (simp add: inj_on_def)
  ultimately show ?thesis using fin by (subst \<open>ordered_pairs P = _\<close>, subst card_Diff_subset)
      (auto simp: card_cartesian_product diff_mult_distrib2)
qed

text \<open>
  The projection agrees with the schedule.  For an accepted round robin or gauntlet the projected
  number of games is the size of the complete schedule that the scheduler creates.
\<close>

theorem projection_exact:
  assumes "config_ok c" and "format c \<in> {ROUND_ROBIN, GAUNTLET}"
  shows "projected_game_total c = int (size (full_schedule c))"
proof -
  have ps: "distinct (participants c)" "card (set (participants c)) = length (participants c)" "2 \<le> length (participants c)"
    using assms(1) by (auto simp: config_ok_def participants_ok_def distinct_card)
  show ?thesis
  proof (cases "format_options c")
    case (RoundRobinFormatOptions n)
    then have "0 < n" using assms(1) by (simp add: config_ok_def)
    then show ?thesis using RoundRobinFormatOptions ps
      by (simp add: projected_game_total_def full_schedule_def full_round_robin_def card_ordered_pairs of_nat_diff Let_def)
  next
    case (GauntletFormatOptions h n)
    then have n: "0 < n" "h \<in> set (participants c)" using assms(1) by (simp_all add: config_ok_def)
    have "pairs_with h (set (participants c)) = (\<lambda>q. (h, q)) ` (set (participants c) - {h}) \<union> (\<lambda>q. (q, h)) ` (set (participants c) - {h})"
      using n(2) by (auto simp: pairs_with_def ordered_pairs_def involves_def)
    moreover have "card \<dots> = card ((\<lambda>q. (h, q)) ` (set (participants c) - {h})) + card ((\<lambda>q. (q, h)) ` (set (participants c) - {h}))"
      by (rule card_Un_disjoint) auto
    moreover have "card ((\<lambda>q. (h, q)) ` (set (participants c) - {h})) = length (participants c) - 1"
      "card ((\<lambda>q. (q, h)) ` (set (participants c) - {h})) = length (participants c) - 1"
      using ps n(2) by (simp_all add: card_image inj_on_def)
    ultimately show ?thesis using GauntletFormatOptions ps n(1)
      by (simp add: projected_game_total_def full_schedule_def full_gauntlet_def of_nat_diff Let_def)
  qed (use assms in \<open>auto simp: config_ok_def split: tournament_format.splits\<close>)
qed

text \<open>Three engines in a gauntlet of two cycles: eight games.\<close>

theorem projection_exact_witness:
  "projected_game_total sample_config = 8
    \<and> (case check_config sample_config of Inr c \<Rightarrow> int (size (full_schedule c)) = 8 | Inl e \<Rightarrow> False)"
  using projection_exact [OF check_config_ok [OF sample_config_accepted]]
  by (simp add: sample_config_accepted) (simp add: sample_config_def projected_game_total_def)

subsection \<open>The simulation is optimal\<close>

text \<open>Giving \<open>counts ! i\<close> of the queued games to place \<open>i\<close> is over at this time.\<close>

definition makespan :: "real \<Rightarrow> real list \<Rightarrow> nat list \<Rightarrow> real" where
  "makespan duration free counts = Max (set (map2 (\<lambda>x n. x + real n * duration) free counts))"


definition next_free :: "real \<Rightarrow> real list \<Rightarrow> real list" where
  "next_free duration free = insort (hd free + duration) (tl free)"

lemma run_queue_Suc: "run_queue duration (Suc n) free = next_free duration (run_queue duration n free)"
  by (induction n arbitrary: free) (simp_all add: next_free_def)

lemma next_free_facts:
  assumes "sorted free" and "free \<noteq> []"
  shows "sorted (next_free d free)" "length (next_free d free) = length free" "mset (next_free d free) = mset free - {#hd free#} + {#hd free + d#}"
    "x \<in> set free \<Longrightarrow> hd free \<le> x"
  using assms by (cases free; auto simp: next_free_def sorted_insort)+

lemma sum_list_less_nth: "length xs = length ys \<Longrightarrow> sum_list xs < sum_list ys \<Longrightarrow> \<exists>i < length xs. xs ! i < (ys ! i :: nat)"
proof (induction xs ys rule: list_induct2)
  case (Cons x xs y ys)
  show ?case
  proof (cases "x < y")
    case False
    then obtain i where "i < length xs" "xs ! i < ys ! i" using Cons.IH Cons.prems by auto
    then show ?thesis by (intro exI [of _ "Suc i"]) simp
  qed (auto intro!: exI [of _ 0])
qed simp

lemma makespan_ge:
  "length counts = length free \<Longrightarrow> i < length free \<Longrightarrow> free ! i + real (counts ! i) * d \<le> makespan d free counts"
  unfolding makespan_def by (rule Max_ge) (auto simp: set_zip intro!: image_eqI [of _ _ "(free ! i, counts ! i)"])

lemma makespan_le:
  assumes "free \<noteq> []" and "length counts = length free" and "\<And>i. i < length free \<Longrightarrow> free ! i + real (counts ! i) * d \<le> k"
  shows "makespan d free counts \<le> k"
proof -
  have "zip free counts \<noteq> []" using assms(1,2) by (cases free; cases counts) auto
  then show ?thesis using assms(2,3) unfolding makespan_def by (subst Max_le_iff) (auto simp: set_zip)
qed

lemma makespan_mono:
  assumes "free \<noteq> []" and "length counts = length free" and "length others = length free" and "0 \<le> d"
    and "\<And>k. k < length free \<Longrightarrow> counts ! k \<le> others ! k"
  shows "makespan d free counts \<le> makespan d free others"
proof (rule makespan_le [OF assms(1,2)])
  fix k assume k: "k < length free"
  have "free ! k + real (counts ! k) * d \<le> free ! k + real (others ! k) * d" using k assms(4,5) by (simp add: mult_right_mono)
  also have "\<dots> \<le> makespan d free others" by (rule makespan_ge [OF assms(3) k])
  finally show "free ! k + real (counts ! k) * d \<le> makespan d free others" .
qed

lemma run_queue_optimal:
  assumes "sorted free" and "free \<noteq> []" and "0 \<le> d"
  shows "sorted (run_queue d q free) \<and> length (run_queue d q free) = length free
    \<and> (\<exists>counts. length counts = length free \<and> sum_list counts = q \<and> mset (run_queue d q free) = mset (map2 (\<lambda>x n. x + real n * d) free counts))
    \<and> (\<forall>other. length other = length free \<longrightarrow> sum_list other = q \<longrightarrow> (\<forall>x \<in> set (run_queue d q free). x \<le> makespan d free other))"
proof (induction q)
  case 0
  have "map2 (\<lambda>x n. x + real n * d) free (replicate (length free) 0) = free" by (intro nth_equalityI) auto
  moreover have "x \<le> makespan d free other" if other: "length other = length free" "sum_list other = 0" "x \<in> set free" for other x
  proof -
    obtain i where i: "i < length free" "x = free ! i" using other(3) by (auto simp: in_set_conv_nth)
    have "x \<le> free ! i + real (other ! i) * d" using i(2) assms(3) by simp
    also have "\<dots> \<le> makespan d free other" by (rule makespan_ge [OF other(1) i(1)])
    finally show ?thesis .
  qed
  ultimately show ?case using assms(1)
    by (intro conjI exI [of _ "replicate (length free) 0"] allI impI ballI) (simp_all add: sum_list_replicate del: mset_map)
next
  case (Suc q)
  let ?heap = "run_queue d q free"
  from Suc obtain counts where ih: "sorted ?heap" "length ?heap = length free" "length counts = length free" "sum_list counts = q"
    and heap: "mset ?heap = mset (map2 (\<lambda>x n. x + real n * d) free counts)"
    and best: "\<And>other x. length other = length free \<Longrightarrow> sum_list other = q \<Longrightarrow> x \<in> set ?heap \<Longrightarrow> x \<le> makespan d free other" by blast
  have ne: "?heap \<noteq> []" using ih(2) assms(2) by auto
  note step = next_free_facts [OF ih(1) ne, of d]
  let ?L = "map2 (\<lambda>x n. x + real n * d) free counts"
  have set: "set ?heap = set ?L" using heap by (metis set_mset_mset)
  then have "hd ?heap \<in> set ?L" using ne by (metis list.set_sel(1))
  then obtain i where i: "i < length ?L" "?L ! i = hd ?heap" by (auto simp: in_set_conv_nth)
  then have il: "i < length free" "i < length counts" using ih(3) by auto
  have "map2 (\<lambda>x n. x + real n * d) free (counts[i := Suc (counts ! i)]) = ?L[i := hd ?heap + d]"
    using i il ih(3) by (intro nth_equalityI) (auto simp: nth_list_update algebra_simps)
  then have "mset (map2 (\<lambda>x n. x + real n * d) free (counts[i := Suc (counts ! i)])) = mset (next_free d ?heap)"
    using i(1) step(3) heap i(2) by (simp add: mset_update)
  moreover have "sum_list (counts[i := Suc (counts ! i)]) = Suc q" using il ih(4) by (simp add: sum_list_update)
  moreover have "x \<le> makespan d free other" if other: "length other = length free" "sum_list other = Suc q" "x \<in> set (next_free d ?heap)" for other x
  proof -
    obtain j where j: "j < length counts" "counts ! j < other ! j" using sum_list_less_nth [of counts other] ih(3,4) other(1,2) by auto
    have "hd ?heap \<le> free ! j + real (counts ! j) * d"
      using j(1) ih(3) by (intro next_free_facts(4) [OF ih(1) ne]) (auto simp: set set_zip intro!: image_eqI [of _ _ "(free ! j, counts ! j)"])
    moreover have "free ! j + real (counts ! j) * d + d \<le> free ! j + real (other ! j) * d"
    proof -
      have "real (counts ! j) + 1 \<le> real (other ! j)" using j(2) by linarith
      then have "(real (counts ! j) + 1) * d \<le> real (other ! j) * d" using assms(3) by (rule mult_right_mono)
      then show ?thesis by (simp add: algebra_simps)
    qed
    moreover have "\<dots> \<le> makespan d free other" by (rule makespan_ge) (use other(1) j(1) ih(3) in auto)
    ultimately have new: "hd ?heap + d \<le> makespan d free other" by linarith
    show ?thesis
    proof (cases "x \<in> set ?heap")
      case True
      let ?less = "other[j := other ! j - 1]"
      have "sum_list ?less = q" using j ih(3) other(1,2) by (simp add: sum_list_update)
      then have "x \<le> makespan d free ?less" by (intro best) (use True other(1) in auto)
      also have "\<dots> \<le> makespan d free other"
        by (rule makespan_mono [OF assms(2)]) (use j(1) ih(3) other(1) assms(3) in \<open>auto simp: nth_list_update\<close>)
      finally show ?thesis .
    next
      case False
      have "set_mset (mset (next_free d ?heap)) \<subseteq> insert (hd ?heap + d) (set ?heap)"
        unfolding step(3) by (auto dest: in_diffD)
      then show ?thesis using False other(3) new by auto
    qed
  qed
  ultimately show ?case unfolding run_queue_Suc using step(1,2) ih(2,3)
    by (intro conjI exI [of _ "counts[i := Suc (counts ! i)]"] allI impI ballI) (simp_all del: mset_map)
qed

lemma places_facts: "sorted (places n active)" "length (places n active) = n"
  by (auto simp: places_def Let_def sorted_wrt_drop)

text \<open>
  C37: The queued games are spread optimally.  With one estimated duration for all of them, the
  remaining time is the time of some distribution of the queued games over the places for concurrent
  games, and no distribution of them is over earlier.
\<close>

theorem remaining_runtime_optimal:
  assumes "0 < n" and "0 \<le> duration"
  shows "(\<exists>counts. length counts = n \<and> sum_list counts = future + length (filter (\<lambda>g. game_status g = Game_Pending) gs)
        \<and> remaining_runtime_seconds future duration n active gs = makespan duration (places n active) counts)
    \<and> (\<forall>counts. length counts = n \<longrightarrow> sum_list counts = future + length (filter (\<lambda>g. game_status g = Game_Pending) gs)
        \<longrightarrow> remaining_runtime_seconds future duration n active gs \<le> makespan duration (places n active) counts)"
proof -
  let ?q = "future + length (filter (\<lambda>g. game_status g = Game_Pending) gs)"
  let ?free = "run_queue duration ?q (places n active)"
  have ne: "places n active \<noteq> []" using assms(1) places_facts(2) [of n active] by auto
  note opt = run_queue_optimal [OF places_facts(1) ne assms(2), of ?q, unfolded places_facts(2)]
  have "?free \<noteq> []" using opt assms(1) by auto
  then have rest: "remaining_runtime_seconds future duration n active gs = Max (set ?free)" "Max (set ?free) \<in> set ?free"
    by (simp_all add: remaining_runtime_seconds_def Let_def)
  obtain counts where counts: "length counts = n" "sum_list counts = ?q"
    "mset ?free = mset (map2 (\<lambda>x n. x + real n * duration) (places n active) counts)" using opt by blast
  have "Max (set ?free) = makespan duration (places n active) counts"
    unfolding makespan_def using counts(3) by (metis set_mset_mset)
  then show ?thesis using counts(1,2) rest opt by metis
qed

text \<open>
  Two places of which one is busy for 30 more seconds, and three games of 40 seconds in the queue.
\<close>

theorem remaining_runtime_optimal_witness:
  "remaining_runtime_seconds 3 40 2 [30] [] = 80
    \<and> (\<exists>counts. length counts = 2 \<and> sum_list counts = 3 \<and> remaining_runtime_seconds 3 40 2 [30] [] = makespan 40 [0, 30] counts)"
  using remaining_runtime_optimal [of 2 40 3 "[]" "[30]"] by (simp add: remaining_runtime_seconds_def places_def Let_def numeral_eq_Suc)

end
