(* ===== verification/Brain_Bracket.thy ===== *)
theory Brain_Bracket
  imports Puzzle_Gauntlet
begin

text \<open>
  The bracket of a hand-and-brain event (\<open>cope/events/engine_hand_brain.py\<close>).  Ten teams of two engines
  play nine matches; a match is a sequence of tournaments of up to four games, called quads, each with
  half the time of the one before, until a quad has a winner.  Of the JSON state and metadata the
  fields that the module reads are columns; colours, ratings and timestamps of events are left out.
  Opening suites are listed in the order of their names.
\<close>

subsection \<open>Tables\<close>

record brain_member = cast_member +
  member_key :: string
  meta_seed :: "int option"
  searchmoves_confirmed :: bool

datatype stage_status = Stage_Pending | Stage_Active | Stage_Completed | Stage_Cancelled

record stage =
  st_id :: int
  st_event :: int
  st_key :: string
  st_title :: string
  st_position :: int
  st_status :: stage_status

datatype match_source = From_Seed int | From_Match string

datatype contest_status = Contest_Pending | Contest_Scheduled | Contest_Live | Contest_Intermission | Contest_Completed
  | Contest_Postponed | Contest_Cancelled

record contest =
  ct_id :: int
  ct_event :: int
  ct_key :: string
  ct_title :: string
  ct_summary :: string
  ct_stage :: "int option"
  ct_position :: int
  ct_status :: contest_status
  ct_result :: "(int \<times> int) option"
  ct_sources :: "match_source \<times> match_source"
  ct_teams :: "(int \<times> int) option"
  ct_quads :: "int list"
  ct_winner :: "int option"

record brain_event =
  be_id :: int
  be_handler :: string
  be_status :: event_status
  be_initial_ms :: "int option"
  be_increment_ms :: "int option"
  be_auto_start :: bool
  be_scheduled_start :: "int option"

record suite_row =
  suite_id :: int
  suite_name :: string
  suite_variant :: string
  suite_revision :: string

record brain =
  b_store :: store
  b_events :: "brain_event list"
  b_stages :: "stage list"
  b_contests :: "contest list"
  b_cast :: "brain_member list"
  b_fixtures :: "relay_fixture list"
  b_teams :: "fixture_team list"
  b_suites :: "suite_row list"
  b_engines :: "(int \<times> string \<times> string) list"
  next_tour :: int
  next_fixture :: int
  next_stage :: int
  next_contest :: int
  next_cast :: int

definition brain_event_of :: "brain \<Rightarrow> int \<Rightarrow> brain_event option" where
  "brain_event_of s e = List.find (\<lambda>r. be_id r = e) (b_events s)"

definition event_contests :: "brain \<Rightarrow> int \<Rightarrow> contest list" where
  "event_contests s e = sort_key (\<lambda>c. (ct_position c, ct_id c)) (filter (\<lambda>c. ct_event c = e) (b_contests s))"

definition event_stages :: "brain \<Rightarrow> int \<Rightarrow> stage list" where
  "event_stages s e = sort_key (\<lambda>r. (st_position r, st_id r)) (filter (\<lambda>r. st_event r = e) (b_stages s))"

definition event_cast :: "brain \<Rightarrow> int \<Rightarrow> brain_member list" where
  "event_cast s e = sort_key (\<lambda>m. (cast_position m, cast_id m)) (filter (\<lambda>m. cast_event m = e) (b_cast s))"

definition member_relay_order :: "brain_member \<Rightarrow> int" where
  "member_relay_order m = or_default (meta_relay_order m) (cast_position m)"

definition team_roster :: "brain \<Rightarrow> int \<Rightarrow> int \<Rightarrow> brain_member list" where
  "team_roster s e team = sort_key (\<lambda>m. (member_relay_order m, cast_id m))
     (filter (\<lambda>m. cast_kind m = Cast_Engine \<and> cast_parent m = Some team) (event_cast s e))"

definition create_event_stage :: "brain \<Rightarrow> int \<Rightarrow> string \<Rightarrow> string \<Rightarrow> int \<Rightarrow> (brain \<times> int) result" where
  "create_event_stage s e key title position = (if list_ex (\<lambda>r. st_event r = e \<and> (st_key r = key \<or> st_position r = position)) (b_stages s)
     then Inl IntegrityError
     else Inr (s\<lparr>b_stages := b_stages s @ [\<lparr>st_id = next_stage s, st_event = e, st_key = key, st_title = title, st_position = position,
         st_status = Stage_Pending\<rparr>], next_stage := next_stage s + 1\<rparr>, next_stage s))"

definition set_event_stage_status :: "int \<Rightarrow> stage_status \<Rightarrow> brain \<Rightarrow> brain result" where
  "set_event_stage_status i st s = (if list_ex (\<lambda>r. st_id r = i) (b_stages s)
     then Inr (s\<lparr>b_stages := map (\<lambda>r. if st_id r = i then r\<lparr>st_status := st\<rparr> else r) (b_stages s)\<rparr>)
     else Inl (ValueError ''event stage does not exist''))"

definition create_event_cast_member :: "brain \<Rightarrow> brain_member \<Rightarrow> (brain \<times> int) result" where
  "create_event_cast_member s m = (
     if list_ex (\<lambda>r. cast_event r = cast_event m \<and> (member_key r = member_key m \<or> cast_position r = cast_position m)) (b_cast s)
     then Inl IntegrityError
     else Inr (s\<lparr>b_cast := b_cast s @ [m\<lparr>cast_id := next_cast s\<rparr>], next_cast := next_cast s + 1\<rparr>, next_cast s))"

definition create_event_contest :: "brain \<Rightarrow> int \<Rightarrow> string \<Rightarrow> string \<Rightarrow> int \<Rightarrow> string \<Rightarrow> int option \<Rightarrow> match_source \<times> match_source
    \<Rightarrow> (brain \<times> int) result" where
  "create_event_contest s e key title position summary stage sources = (
     if stage \<noteq> None \<and> \<not> list_ex (\<lambda>r. Some (st_id r) = stage \<and> st_event r = e) (b_stages s)
     then Inl (ValueError ''related record must belong to the same event'')
     else if list_ex (\<lambda>r. ct_event r = e \<and> (ct_key r = key \<or> ct_position r = position)) (b_contests s) then Inl IntegrityError
     else Inr (s\<lparr>b_contests := b_contests s @ [\<lparr>ct_id = next_contest s, ct_event = e, ct_key = key, ct_title = title, ct_summary = summary,
         ct_stage = stage, ct_position = position, ct_status = Contest_Pending, ct_result = None, ct_sources = sources, ct_teams = None,
         ct_quads = [], ct_winner = None\<rparr>], next_contest := next_contest s + 1\<rparr>, next_contest s))"

definition update_event_contest_state :: "int \<Rightarrow> (contest \<Rightarrow> contest) \<Rightarrow> brain \<Rightarrow> brain result" where
  "update_event_contest_state i f s = (if list_ex (\<lambda>c. ct_id c = i) (b_contests s)
     then Inr (s\<lparr>b_contests := map (\<lambda>c. if ct_id c = i then f c else c) (b_contests s)\<rparr>)
     else Inl (ValueError ''event contest does not exist''))"

definition set_event_status :: "int \<Rightarrow> event_status \<Rightarrow> brain \<Rightarrow> brain result" where
  "set_event_status e st s = (if list_ex (\<lambda>r. be_id r = e) (b_events s)
     then Inr (s\<lparr>b_events := map (\<lambda>r. if be_id r = e then r\<lparr>be_status := st\<rparr> else r) (b_events s)\<rparr>)
     else Inl (ValueError ''event does not exist''))"

subsection \<open>Setting up the bracket\<close>

definition MODULE_KEY :: string where
  "MODULE_KEY = ''engine-hand-brain''"

definition DEFAULT_TEAMS :: "(string \<times> string \<times> string) list" where
  "DEFAULT_TEAMS = [(''Berserkless'', ''Berserk'', ''Reckless''), (''Torch & Ethereal'', ''Torch'', ''Ethereal''),
     (''Quantinocchio'', ''Quanticade'', ''Pawnocchio''), (''Stormphrax & Viridithas'', ''Stormphrax'', ''Viridithas''),
     (''Halossa'', ''Halogen'', ''Caissa''), (''HorsyChess'', ''Horsie'', ''PlentyChess''), (''Hobbarus'', ''Hobbes'', ''Icarus''),
     (''PZCheran'', ''PZChessBot'', ''Tcheran''), (''Tarndall'', ''Tarnished'', ''Heimdall''), (''June'', ''Prune'', ''JustBot'')]"

definition BRACKET :: "(string \<times> string \<times> match_source \<times> match_source) list" where
  "BRACKET = [(''P1'', ''Play-in'', From_Seed 7, From_Seed 10), (''P2'', ''Play-in'', From_Seed 8, From_Seed 9),
     (''Q1'', ''Quarterfinal'', From_Seed 1, From_Match ''P2''), (''Q2'', ''Quarterfinal'', From_Seed 4, From_Seed 5),
     (''Q3'', ''Quarterfinal'', From_Seed 2, From_Match ''P1''), (''Q4'', ''Quarterfinal'', From_Seed 3, From_Seed 6),
     (''S1'', ''Semifinal'', From_Match ''Q1'', From_Match ''Q2''), (''S2'', ''Semifinal'', From_Match ''Q3'', From_Match ''Q4''),
     (''F'', ''Final'', From_Match ''S1'', From_Match ''S2'')]"

definition supported_engines :: "string list" where
  "supported_engines = [''Berserk'', ''Caissa'', ''Stormphrax'', ''Ethereal'', ''Icarus'', ''Horsie'', ''Heimdall'', ''Torch'']"

definition expected_version :: "string \<Rightarrow> string option" where
  "expected_version = map_of [(''Caissa'', ''v2.0''), (''Tcheran'', ''v14.0''), (''JustBot'', ''v0.5.0'')]"

definition default_build :: "brain \<Rightarrow> string \<Rightarrow> int option" where
  "default_build s name = (let matching = filter (\<lambda>(i, n, v). n = name) (b_engines s) in map_option fst (case expected_version name of
       Some version \<Rightarrow> List.find (\<lambda>(i, n, v). v = version) matching
     | None \<Rightarrow> (case matching of [] \<Rightarrow> None | r # rest \<Rightarrow> Some r)))"

definition team_row :: "int \<Rightarrow> int \<Rightarrow> string \<Rightarrow> brain_member" where
  "team_row e seed name = \<lparr>cast_id = 0, cast_event = e, cast_kind = Cast_Team, cast_parent = None, cast_name = name, cast_short_name = [],
     cast_active = True, cast_engine = None, cast_position = (seed - 1) * 3, meta_threads = None, meta_hash_mb = None, meta_relay_order = None,
     member_key = ''team-'' @ int_str seed, meta_seed = Some seed, searchmoves_confirmed = False\<rparr>"

definition engine_row :: "brain \<Rightarrow> int \<Rightarrow> int \<Rightarrow> int \<Rightarrow> int \<Rightarrow> string \<Rightarrow> brain_member" where
  "engine_row s e seed team order name = \<lparr>cast_id = 0, cast_event = e, cast_kind = Cast_Engine, cast_parent = Some team, cast_name = name,
     cast_short_name = [], cast_active = True, cast_engine = default_build s name, cast_position = (seed - 1) * 3 + order + 1,
     meta_threads = Some 1, meta_hash_mb = Some 256, meta_relay_order = Some order,
     member_key = ''engine-'' @ int_str seed @ ''-'' @ int_str order, meta_seed = None,
     searchmoves_confirmed = (name \<in> set supported_engines \<and> default_build s name \<noteq> None)\<rparr>"

definition create_default_team :: "int \<Rightarrow> brain \<Rightarrow> nat \<times> string \<times> string \<times> string \<Rightarrow> brain result" where
  "create_default_team e s entry = (case entry of (n, name, first, second) \<Rightarrow> let seed = int n in
     rbind (create_event_cast_member s (team_row e seed name)) (\<lambda>(s1, team).
     rbind (create_event_cast_member s1 (engine_row s1 e seed team 0 first)) (\<lambda>(s2, i).
     rbind (create_event_cast_member s2 (engine_row s2 e seed team 1 second)) (\<lambda>(s3, i). Inr s3))))"

definition stage_titles :: "string list" where
  "stage_titles = [''Play-in'', ''Quarterfinal'', ''Semifinal'', ''Final'']"

definition ensure_stage :: "int \<Rightarrow> brain \<times> (string \<Rightarrow> int option) \<Rightarrow> nat \<times> string \<Rightarrow> (brain \<times> (string \<Rightarrow> int option)) result" where
  "ensure_stage e state entry = (case (state, entry) of ((s, stages), (n, title)) \<Rightarrow>
     if stages title \<noteq> None then Inr (s, stages)
     else rbind (create_event_stage s e (lower title) title (int n)) (\<lambda>(s', i). Inr (s', stages(title \<mapsto> i))))"

definition create_match :: "int \<Rightarrow> (string \<Rightarrow> int option) \<Rightarrow> brain \<Rightarrow> nat \<times> string \<times> string \<times> match_source \<times> match_source \<Rightarrow> brain result" where
  "create_match e stages s entry = (case entry of (n, key, stage, sources) \<Rightarrow>
     rbind (create_event_contest s e (lower key) key (int n) stage (stages stage) sources) (\<lambda>(s', i). Inr s'))"

definition initialize_bracket :: "brain \<Rightarrow> int \<Rightarrow> brain result" where
  "initialize_bracket s e = (case brain_event_of s e of
     None \<Rightarrow> Inl (ValueError ''Hand and brain event not found'')
   | Some event \<Rightarrow> if be_handler event \<noteq> MODULE_KEY then Inl (ValueError ''Hand and brain event not found'')
     else if event_contests s e \<noteq> [] then Inr s
     else rbind (fold_result (ensure_stage e) (s, map_of (rev (map (\<lambda>r. (st_title r, st_id r)) (event_stages s e)))) (enumerate 0 stage_titles))
       (\<lambda>(s1, stages). let teams = filter (\<lambda>m. cast_kind m = Cast_Team \<and> cast_parent m = None) (event_cast s1 e) in
         rbind (guard (teams = [] \<or> length teams = 10) (ValueError ''The bracket requires exactly ten teams'')) (\<lambda>u.
         rbind (if teams = [] then fold_result (create_default_team e) s1 (enumerate 1 DEFAULT_TEAMS) else Inr s1) (\<lambda>s2.
         fold_result (create_match e stages) s2 (enumerate 0 BRACKET)))))"

subsection \<open>A quad\<close>

definition quad_time_control :: "int \<Rightarrow> int option \<Rightarrow> int option \<Rightarrow> config_time_control" where
  "quad_time_control index initial increment = (let divisor = 2 ^ nat (min (max 0 index) 16) in
     IncrementTimeControl (max 1000 (or_default initial 60000 div divisor)) (max 1 (or_default increment 600 div divisor)))"

fun white_half_points :: "game_outcome \<Rightarrow> int" where
  "white_half_points White_Won = 2"
| "white_half_points Black_Won = 0"
| "white_half_points Game_Drawn = 1"

definition quad_points :: "int \<Rightarrow> int \<times> int \<Rightarrow> game_record \<Rightarrow> int \<times> int" where
  "quad_points anchor score g = (if game_status g \<noteq> Game_Finished then score
     else (case game_result g of None \<Rightarrow> score
       | Some r \<Rightarrow> let w = white_half_points r; a = (if white_engine g = anchor then w else 2 - w)
           in (fst score + a, snd score + (2 - a))))"

definition quad_score :: "game_record list \<Rightarrow> int \<Rightarrow> int \<times> int" where
  "quad_score gs anchor = foldl (quad_points anchor) (0, 0) gs"

definition resolve_source :: "brain \<Rightarrow> int \<Rightarrow> match_source \<Rightarrow> int option" where
  "resolve_source s e source = (case source of
     From_Seed n \<Rightarrow> map_of (rev (map (\<lambda>m. (or_default (meta_seed m) (cast_position m + 1), cast_id m))
       (filter (\<lambda>m. cast_kind m = Cast_Team) (event_cast s e)))) n
   | From_Match title \<Rightarrow> Option.bind (map_of (rev (map (\<lambda>c. (ct_title c, ct_winner c)) (event_contests s e))) title) (\<lambda>w. w))"

definition resolve_teams :: "brain \<Rightarrow> int \<Rightarrow> contest \<Rightarrow> int option \<times> int option" where
  "resolve_teams s e c = map_prod (resolve_source s e) (resolve_source s e) (ct_sources c)"

definition uho_suite :: "brain \<Rightarrow> suite_row result" where
  "uho_suite s = or_error (ValueError ''The Lichess UHO opening book must be installed before starting'')
     (List.find (\<lambda>r. suite_variant r = ''standard'' \<and> contains ''lichess'' (lower (suite_name r)) \<and> contains ''uho'' (lower (suite_name r)))
       (b_suites s))"

definition quad_config :: "brain_event \<Rightarrow> int \<Rightarrow> int \<Rightarrow> int \<Rightarrow> int \<Rightarrow> tournament_config" where
  "quad_config event suite index a b = \<lparr>config_variant = ''standard'', config_rules_revision = [], format = ROUND_ROBIN,
     format_options = RoundRobinFormatOptions 1, participants = [a, b],
     config_time_control = quad_time_control index (be_initial_ms event) (be_increment_ms event), concurrency = 1,
     opening_suite_id = Some suite,
     adjudication = \<lparr>adj_draw = Some \<lparr>min_fullmove = 40, max_abs_cp = 10, draw_plies = 8\<rparr>,
       adj_resign = Some \<lparr>min_abs_cp = 800, resign_plies = 6\<rparr>, adj_max_moves = None\<rparr>,
     rated = False, lag_compensation_ms = 0, engine_threads = 1, engine_hash_mb = 256, config_uci_options = []\<rparr>"

definition validate_tournament_variant :: "brain \<Rightarrow> tournament_config \<Rightarrow> unit result" where
  "validate_tournament_variant s c = (case opening_suite_id c of None \<Rightarrow> Inr ()
   | Some i \<Rightarrow> (case List.find (\<lambda>r. suite_id r = i) (b_suites s) of
       None \<Rightarrow> Inl (ValueError ''Opening suite does not exist'')
     | Some r \<Rightarrow> if suite_variant r = ''legacy''
         then rbind (get_variant (config_variant c)) (\<lambda>v. guard (\<not> variant_duck v) (ValueError ''Choose a duck opening suite''))
         else guard ((suite_variant r, suite_revision r) = (config_variant c, config_rules_revision c))
           (ValueError ''Opening suite variant does not match the tournament'')))"

definition create_tournament :: "brain \<Rightarrow> string \<Rightarrow> tournament_config \<Rightarrow> (brain \<times> int) result" where
  "create_tournament s name c = rbind (validate_tournament_variant s c) (\<lambda>u.
     Inr (s\<lparr>b_store := (b_store s)\<lparr>tournaments := tournaments (b_store s) @ [\<lparr>tour_id = next_tour s, tour_name = name, tour_config = c,
         tour_status = Draft, tour_started = None, tour_finished = None\<rparr>]\<rparr>, next_tour := next_tour s + 1\<rparr>, next_tour s))"

definition insert_fixture :: "brain \<Rightarrow> int \<Rightarrow> int \<Rightarrow> int \<times> int \<Rightarrow> int \<times> int \<Rightarrow> brain result" where
  "insert_fixture s e t teams anchors = (let
     positions = map fixture_position (filter (\<lambda>f. fixture_event f = e) (b_fixtures s));
     position = (if positions = [] then 0 else Max (set positions) + 1);
     row = (\<lambda>n team anchor. \<lparr>ft_fixture = next_fixture s, ft_team = team, ft_anchor = anchor, ft_position = n\<rparr>)
   in if list_ex (\<lambda>f. fixture_tournament f = t) (b_fixtures s) \<or> fst teams = snd teams \<or> fst anchors = snd anchors \<or> position < 0
      then Inl IntegrityError
      else Inr (s\<lparr>b_fixtures := b_fixtures s @ [\<lparr>fixture_id = next_fixture s, fixture_event = e, fixture_position = position, fixture_tournament = t,
          team_a = fst teams, team_b = snd teams, anchor_a = fst anchors, anchor_b = snd anchors, kibitzer_engine = None,
          kibitzer_threads = None, kibitzer_hash_mb = None\<rparr>],
        b_teams := b_teams s @ [row 0 (fst teams) (fst anchors), row 1 (snd teams) (snd anchors)], next_fixture := next_fixture s + 1\<rparr>))"

definition build_of :: "brain_member \<Rightarrow> int" where
  "build_of m = or_default (cast_engine m) 0"

definition ready :: "brain_member \<Rightarrow> bool" where
  "ready m = (cast_engine m \<noteq> None \<and> searchmoves_confirmed m)"

definition quad_title :: "contest \<Rightarrow> nat \<Rightarrow> string" where
  "quad_title c index = ''Hand & Brain '' @ [CHR 0xB7] @ '' '' @ ct_title c @ '' '' @ [CHR 0xB7] @ '' Quad '' @ nat_str (index + 1)"

definition create_quad :: "string \<Rightarrow> brain \<Rightarrow> brain_event \<Rightarrow> contest \<Rightarrow> (brain \<times> int) result" where
  "create_quad now s event c = (let e = be_id event; index = length (ct_quads c) in case resolve_teams s e c of
     (Some a, Some b) \<Rightarrow> let ra = team_roster s e a; rb = team_roster s e b; engines = map build_of (ra @ rb) in
       rbind (guard (length ra = 2 \<and> length rb = 2) (ValueError ''Each team needs exactly two engines'')) (\<lambda>u.
       rbind (guard (list_all ready (ra @ rb)) (ValueError ''Every engine must have a selected build with confirmed searchmoves support'')) (\<lambda>u.
       rbind (guard (card (set engines) = 4) (ValueError ''Each matchup needs four different engines'')) (\<lambda>u.
       rbind (uho_suite s) (\<lambda>suite. let
         anchors = (build_of (hd ra), build_of (hd rb));
         opening = list_suite_opening_ids (b_store s) (suite_id suite) 1 (ct_position c * 997 + int index)
       in rbind (guard (opening \<noteq> []) (ValueError ''The Lichess UHO opening book is empty'')) (\<lambda>u.
       rbind (validation_result (check_config (quad_config event (suite_id suite) (int index) (fst anchors) (snd anchors)))) (\<lambda>config.
       rbind (create_tournament s (quad_title c index) config) (\<lambda>(s1, t).
       rbind (insert_fixture s1 e t (a, b) anchors) (\<lambda>s2.
       rbind (create_game (b_store s2) t 1 1 (fst anchors) (snd anchors) None 1 None
           (Some (opening ! nat ((ct_position c * 997 + int index) mod int (length opening))))) (\<lambda>(st, g).
       rbind (update_event_contest_state (ct_id c) (\<lambda>r. r\<lparr>ct_status := Contest_Live, ct_sources := ct_sources c, ct_winner := ct_winner c,
           ct_teams := Some (a, b), ct_quads := ct_quads c @ [t]\<rparr>) (s2\<lparr>b_store := st\<rparr>)) (\<lambda>s3.
       rbind (case ct_stage c of None \<Rightarrow> Inr s3 | Some i \<Rightarrow> set_event_stage_status i Stage_Active s3) (\<lambda>s4.
       Inr (s4\<lparr>b_store := put_status now t Running (b_store s4)\<rparr>, t))))))))))))
   | _ \<Rightarrow> Inl (ValueError ''This match is waiting for its previous round''))"

subsection \<open>Advancing the bracket\<close>

definition complete_stages :: "int \<Rightarrow> brain \<Rightarrow> brain" where
  "complete_stages e s = s\<lparr>b_stages := map (\<lambda>r. let played = filter (\<lambda>c. ct_stage c = Some (st_id r)) (event_contests s e)
     in if st_event r = e \<and> played \<noteq> [] \<and> list_all (\<lambda>c. ct_status c = Contest_Completed) played
        then r\<lparr>st_status := Stage_Completed\<rparr> else r) (b_stages s)\<rparr>"

definition start_next_match :: "string \<Rightarrow> brain \<Rightarrow> int \<Rightarrow> (brain \<times> int option) result" where
  "start_next_match now s e = (let s1 = complete_stages e s in
     if list_ex (\<lambda>c. ct_status c = Contest_Live) (event_contests s e) then Inr (s1, None)
     else case List.find (\<lambda>c. ct_status c = Contest_Pending) (event_contests s e) of
       None \<Rightarrow> rbind (set_event_status e Ev_Completed s1) (\<lambda>s2. Inr (s2, None))
     | Some c \<Rightarrow> (case brain_event_of s e of
         None \<Rightarrow> Inl (ValueError ''event does not exist'')
       | Some event \<Rightarrow> rbind (create_quad now s1 event c) (\<lambda>(s2, t). rbind (set_event_status e Ev_Live s2) (\<lambda>s3. Inr (s3, Some t)))))"

definition full_roster :: "brain \<Rightarrow> int \<Rightarrow> bool" where
  "full_roster s e = (let roster = filter (\<lambda>m. cast_kind m = Cast_Engine) (event_cast s e) in length roster = 20 \<and> list_all ready roster)"

definition distinct_builds :: "brain \<Rightarrow> int \<Rightarrow> bool" where
  "distinct_builds s e = (card (set (map build_of (filter (\<lambda>m. cast_kind m = Cast_Engine) (event_cast s e)))) = 20)"

definition start_scheduled_event :: "string \<Rightarrow> brain \<times> int list \<Rightarrow> int \<Rightarrow> (brain \<times> int list) result" where
  "start_scheduled_event now state e = (case state of (s, started) \<Rightarrow> (case brain_event_of s e of
     None \<Rightarrow> Inl (ValueError ''event does not exist'')
   | Some event \<Rightarrow> if \<not> be_auto_start event \<or> \<not> full_roster s e \<or> \<not> distinct_builds s e then Inr (s, started)
     else rbind (uho_suite s) (\<lambda>u. rbind (start_next_match now s e) (\<lambda>(s', t).
       Inr (s', started @ (case t of None \<Rightarrow> [] | Some i \<Rightarrow> [i]))))))"

definition start_scheduled_hand_brain_events :: "string \<Rightarrow> int \<Rightarrow> brain \<Rightarrow> (brain \<times> int list) result" where
  "start_scheduled_hand_brain_events stamp now s = fold_result (start_scheduled_event stamp) (s, [])
     (map be_id (filter (\<lambda>r. be_handler r = MODULE_KEY \<and> be_status r = Ev_Scheduled
        \<and> (case be_scheduled_start r of None \<Rightarrow> False | Some start \<Rightarrow> start \<le> now)) (b_events s)))"

definition quad_fixture :: "brain \<Rightarrow> int \<Rightarrow> relay_fixture option" where
  "quad_fixture s t = (case List.find (\<lambda>f. fixture_tournament f = t) (b_fixtures s) of None \<Rightarrow> None
   | Some f \<Rightarrow> (case brain_event_of s (fixture_event f) of None \<Rightarrow> None
     | Some event \<Rightarrow> if be_handler event = MODULE_KEY then Some f else None))"

definition advanced :: "int \<Rightarrow> bool \<Rightarrow> brain \<Rightarrow> (brain \<times> tournament_advance option) result" where
  "advanced n over s = Inr (s, Some \<lparr>created_games = n, complete = over\<rparr>)"

definition next_quad_game :: "brain \<Rightarrow> relay_fixture \<Rightarrow> int \<Rightarrow> game_record list \<Rightarrow> (brain \<times> tournament_advance option) result" where
  "next_quad_game s f t gs = (let n = int (length gs) + 1; odd_game = (n mod 2 \<noteq> 0) in
     rbind (create_game (b_store s) t 1 ((n - 1) div 2 + 1) (if odd_game then anchor_a f else anchor_b f)
       (if odd_game then anchor_b f else anchor_a f) None n None (game_opening (hd gs))) (\<lambda>(st, g).
     advanced 1 False (s\<lparr>b_store := st\<rparr>)))"

definition advance_hand_brain :: "string \<Rightarrow> brain \<Rightarrow> int \<Rightarrow> (brain \<times> tournament_advance option) result" where
  "advance_hand_brain now s t = (case quad_fixture s t of None \<Rightarrow> Inr (s, None)
   | Some f \<Rightarrow> let e = fixture_event f in (case List.find (\<lambda>c. t \<in> set (ct_quads c)) (event_contests s e) of
       None \<Rightarrow> Inl (RuntimeError ''Hand and brain tournament has no bracket match'')
     | Some c \<Rightarrow> if ct_status c = Contest_Completed \<or> last (ct_quads c) \<noteq> t then advanced 0 True s
         else let gs = list_games (b_store s) t in
           if gs = [] \<or> list_ex (\<lambda>g. game_status g \<noteq> Game_Finished) gs then advanced 0 False s
           else let score = quad_score gs (anchor_a f) in
             if 4 < max (fst score) (snd score)
             then (case ct_teams c of None \<Rightarrow> Inl KeyError | Some teams \<Rightarrow> let winner = (if snd score < fst score then fst teams else snd teams) in
               rbind (update_event_contest_state (ct_id c) (\<lambda>r. r\<lparr>ct_status := Contest_Completed, ct_result := Some score,
                   ct_winner := Some winner\<rparr>) s) (\<lambda>s1.
               rbind (start_next_match now (s1\<lparr>b_store := put_status now t Finished (b_store s1)\<rparr>) e) (\<lambda>(s2, u). advanced 0 True s2)))
             else if length gs = 4
             then if score \<noteq> (4, 4) then Inl (RuntimeError ''A completed quad must have a winner or be tied 2-2'')
               else (case brain_event_of s e of None \<Rightarrow> Inl (ValueError ''event does not exist'')
                 | Some event \<Rightarrow> rbind (create_quad now (s\<lparr>b_store := put_status now t Finished (b_store s)\<rparr>) event c)
                     (\<lambda>(s1, u). advanced 0 True s1))
             else next_quad_game s f t gs))"

subsection \<open>Requests of the administration\<close>

definition start_hand_brain :: "string \<Rightarrow> brain \<Rightarrow> int \<Rightarrow> refusal + brain \<times> int option" where
  "start_hand_brain now s e = (case brain_event_of s e of
     None \<Rightarrow> Inl (Http 404 ''Hand and brain event not found'')
   | Some event \<Rightarrow> if be_handler event \<noteq> MODULE_KEY then Inl (Http 404 ''Hand and brain event not found'')
     else rbind (or_failed (initialize_bracket s e)) (\<lambda>s1. let refused = (\<lambda>r. case r of Inl (ValueError m) \<Rightarrow> Inl (Http 409 m) | _ \<Rightarrow> or_failed r) in
       refused (rbind (uho_suite s1) (\<lambda>u.
         rbind (guard (full_roster s1 e) (ValueError ''All twenty engines need builds with confirmed searchmoves support before the event starts'')) (\<lambda>u.
         rbind (guard (distinct_builds s1 e) (ValueError ''Each engine may appear on only one team'')) (\<lambda>u.
         start_next_match now s1 e))))))"

definition select_build :: "brain \<Rightarrow> int \<Rightarrow> int \<Rightarrow> int \<Rightarrow> bool \<Rightarrow> refusal + brain" where
  "select_build s e m engine confirmed = (case brain_event_of s e of
     None \<Rightarrow> Inl (Http 404 ''Hand and brain event not found'')
   | Some event \<Rightarrow> if be_handler event \<noteq> MODULE_KEY then Inl (Http 404 ''Hand and brain event not found'')
     else if list_ex (\<lambda>c. ct_quads c \<noteq> []) (event_contests s e) then Inl (Http 409 ''Builds are locked after the event starts'')
     else (case (List.find (\<lambda>r. cast_id r = m \<and> cast_kind r = Cast_Engine) (event_cast s e), List.find (\<lambda>(i, n, v). i = engine) (b_engines s)) of
       (Some r, Some (i, n, v)) \<Rightarrow> if n \<noteq> cast_name r then Inl (Http 422 ''Select a build of this engine'')
         else Inr (s\<lparr>b_cast := map (\<lambda>x. if cast_id x = m \<and> cast_event x = e
           then x\<lparr>cast_engine := Some engine, searchmoves_confirmed := confirmed\<rparr> else x) (b_cast s)\<rparr>)
     | _ \<Rightarrow> Inl (Http 422 ''Select a build of this engine'')))"

end
