(* ===== verification/Bracket_Order.thy ===== *)
theory Bracket_Order
  imports Brain_Bracket
begin

text \<open>
  The order of the bracket of a hand-and-brain event: which teams may meet in which match, and what is
  decided before a match can be played.  A quad's configuration is accepted and its opening found
  whenever the book is installed.
\<close>

subsection \<open>The configuration of a quad is accepted\<close>

lemma quad_config_accepted:
  assumes "0 < a" and "0 < b" and "a \<noteq> b" and "0 < suite"
  shows "check_config (quad_config event suite index a b)
    = Inr ((quad_config event suite index a b)\<lparr>config_rules_revision := ''chess1''\<rparr>)"
  using assms unfolding check_config_Inr
  by (auto simp: quad_config_def check_adjudication_def check_draw_rule_def check_resign_rule_def optional_check_def config_fields_ok_def
    validate_format_options_def get_variant_def VARIANTS_def variant_list_def participants_ok_def quad_time_control_def
    require_engine_agreement_def validated_Inr field_errors_def optional_def tournament_options_ok_def Let_def or_error_def)

lemma chosen_suite:
  assumes "uho_suite s = Inr suite" and "distinct (map suite_id (b_suites s))"
  shows "List.find (\<lambda>r. suite_id r = suite_id suite) (b_suites s) = Some suite" "suite_variant suite = ''standard''"
proof -
  have m: "suite \<in> set (b_suites s)" "suite_variant suite = ''standard''"
    using assms(1) find_Some_iff_in unfolding uho_suite_def or_error_eq_Inr by fast+
  then show "suite_variant suite = ''standard''" by simp
  show "List.find (\<lambda>r. suite_id r = suite_id suite) (b_suites s) = Some suite"
    by (rule find_the) (use m(1) assms(2) in \<open>auto simp: distinct_map inj_on_def\<close>)
qed

lemma first_opening:
  assumes "r \<in> set (openings s)" and "opening_suite r = suite"
  shows "list_suite_opening_ids s suite 1 start \<noteq> []"
proof -
  let ?rows = "sort_key opening_position (filter (\<lambda>r. opening_suite r = suite) (openings s))"
  have "filter (\<lambda>r. start \<le> opening_position r) ?rows \<noteq> [] \<or> filter (\<lambda>r. opening_position r < start) ?rows \<noteq> []"
    using assms unfolding filter_empty_conv by (cases "start \<le> opening_position r") (auto simp: not_le)
  then show ?thesis unfolding list_suite_opening_ids_def Let_def
    by (cases "filter (\<lambda>r. start \<le> opening_position r) ?rows"; cases "filter (\<lambda>r. opening_position r < start) ?rows") simp_all
qed

subsection \<open>The order of the bracket\<close>

text \<open>The seeds that may still be in a match, and those a place in a match is filled from.\<close>

definition contenders :: "string \<Rightarrow> int list" where
  "contenders title = the (map_of [(''P1'', [7, 10]), (''P2'', [8, 9]), (''Q1'', [1, 8, 9]), (''Q2'', [4, 5]), (''Q3'', [2, 7, 10]),
     (''Q4'', [3, 6]), (''S1'', [1, 8, 9, 4, 5]), (''S2'', [2, 7, 10, 3, 6]), (''F'', [1, 8, 9, 4, 5, 2, 7, 10, 3, 6])] title)"

fun feeders :: "match_source \<Rightarrow> int list" where
  "feeders (From_Seed n) = [n]"
| "feeders (From_Match title) = contenders title"

fun earlier :: "nat \<Rightarrow> match_source \<Rightarrow> bool" where
  "earlier i (From_Seed n) = (1 \<le> n \<and> n \<le> 10)"
| "earlier i (From_Match title) = list_ex (\<lambda>j. fst (BRACKET ! j) = title) [0..<i]"

definition bracket_entry_ok :: "nat \<Rightarrow> bool" where
  "bracket_entry_ok i = (case BRACKET ! i of (title, stage, a, b) \<Rightarrow> earlier i a \<and> earlier i b
     \<and> list_all (\<lambda>n. 1 \<le> n \<and> n \<le> 10) (contenders title)
     \<and> list_all (\<lambda>n. n \<in> set (contenders title)) (feeders a @ feeders b) \<and> list_all (\<lambda>n. n \<notin> set (feeders b)) (feeders a))"

lemma bracket_entries: "list_all bracket_entry_ok [0..<9]" "distinct (map fst BRACKET)" "length BRACKET = 9"
  by code_simp+

lemma bracket_entry:
  assumes "i < 9" and "BRACKET ! i = (title, stage, a, b)"
  shows "earlier i a" "earlier i b" "set (contenders title) \<subseteq> {1..10}" "set (feeders a) \<subseteq> set (contenders title)"
    "set (feeders b) \<subseteq> set (contenders title)" "set (feeders a) \<inter> set (feeders b) = {}"
proof -
  have "bracket_entry_ok i" using bracket_entries(1) assms(1) by (simp add: list_all_iff)
  then show "earlier i a" "earlier i b" "set (contenders title) \<subseteq> {1..10}" "set (feeders a) \<subseteq> set (contenders title)"
    "set (feeders b) \<subseteq> set (contenders title)" "set (feeders a) \<inter> set (feeders b) = {}"
    using assms(2) by (auto simp: bracket_entry_ok_def list_all_iff)
qed

definition seed_team :: "brain \<Rightarrow> int \<Rightarrow> int \<Rightarrow> int" where
  "seed_team s e n = the (resolve_source s e (From_Seed n))"

definition winner_of :: "contest list \<Rightarrow> string \<Rightarrow> int option" where
  "winner_of cs title = Option.bind (map_of (rev (map (\<lambda>c. (ct_title c, ct_winner c)) cs)) title) (\<lambda>w. w)"

fun source_team :: "(int \<Rightarrow> int) \<Rightarrow> contest list \<Rightarrow> match_source \<Rightarrow> int option" where
  "source_team team cs (From_Seed n) = Some (team n)"
| "source_team team cs (From_Match title) = winner_of cs title"

definition match_sides :: "(int \<Rightarrow> int) \<Rightarrow> contest list \<Rightarrow> contest \<Rightarrow> int option \<times> int option" where
  "match_sides team cs c = map_prod (source_team team cs) (source_team team cs) (ct_sources c)"

definition entered :: "contest list \<Rightarrow> bool" where
  "entered cs = (map ct_title cs = map fst BRACKET \<and> map ct_sources cs = map (snd \<circ> snd) BRACKET)"

definition decided :: "(int \<Rightarrow> int) \<Rightarrow> contest list \<Rightarrow> contest \<Rightarrow> bool" where
  "decided team cs c = (ct_status c = Contest_Completed \<and> (\<exists>n \<in> set (contenders (ct_title c)). ct_winner c = Some (team n))
     \<and> (\<exists>a b. ct_teams c = Some (a, b) \<and> match_sides team cs c = (Some a, Some b) \<and> ct_winner c \<in> {Some a, Some b}))"

definition untouched :: "contest \<Rightarrow> bool" where
  "untouched c = (ct_status c = Contest_Pending \<and> ct_quads c = [] \<and> ct_winner c = None)"

definition being_played :: "(int \<Rightarrow> int) \<Rightarrow> contest list \<Rightarrow> contest \<Rightarrow> bool" where
  "being_played team cs c = (ct_status c = Contest_Live \<and> ct_quads c \<noteq> [] \<and> ct_winner c = None
     \<and> (\<exists>a b. ct_teams c = Some (a, b) \<and> match_sides team cs c = (Some a, Some b)))"

definition in_order :: "(int \<Rightarrow> int) \<Rightarrow> nat \<Rightarrow> contest list \<Rightarrow> bool" where
  "in_order team k cs = (entered cs \<and> k \<le> 9 \<and> (\<forall>i < k. decided team cs (cs ! i)) \<and> (\<forall>i. k < i \<longrightarrow> i < 9 \<longrightarrow> untouched (cs ! i))
     \<and> (k < 9 \<longrightarrow> untouched (cs ! k) \<or> being_played team cs (cs ! k)))"

lemma entered_nth:
  assumes "entered cs"
  shows "length cs = 9" "i < 9 \<Longrightarrow> ct_title (cs ! i) = fst (BRACKET ! i)" "i < 9 \<Longrightarrow> ct_sources (cs ! i) = snd (snd (BRACKET ! i))"
    "distinct (map ct_title cs)"
proof -
  show len: "length cs = 9" using assms bracket_entries(3) by (metis entered_def length_map)
  show "ct_title (cs ! i) = fst (BRACKET ! i)" if "i < 9"
    using assms that len bracket_entries(3) by (metis entered_def nth_map)
  show "ct_sources (cs ! i) = snd (snd (BRACKET ! i))" if "i < 9"
    using assms that len bracket_entries(3) by (metis comp_apply entered_def nth_map)
  show "distinct (map ct_title cs)" using assms bracket_entries(2) by (simp add: entered_def)
qed

lemma winner_of_nth:
  assumes "entered cs" and "j < 9"
  shows "winner_of cs (fst (BRACKET ! j)) = ct_winner (cs ! j)"
proof -
  note e = entered_nth [OF assms(1)]
  have "map_of (rev (map (\<lambda>c. (ct_title c, ct_winner c)) cs)) (ct_title (cs ! j)) = Some (ct_winner (cs ! j))"
    by (rule map_of_is_SomeI) (use e(1,4) assms(2) in \<open>auto simp: rev_map [symmetric] o_def distinct_map inj_on_def\<close>)
  then show ?thesis using e(2) assms(2) by (simp add: winner_of_def)
qed

lemma source_resolved:
  assumes "entered cs" and "\<And>j. j < k \<Longrightarrow> decided team cs (cs ! j)" and "i \<le> k" and "i < 9" and "earlier i src"
  shows "\<exists>n \<in> set (feeders src). source_team team cs src = Some (team n)"
proof (cases src)
  case (From_Match title)
  then obtain j where j: "j < i" "fst (BRACKET ! j) = title" using assms(5) by (auto simp: list_ex_iff)
  then have "decided team cs (cs ! j)" "ct_title (cs ! j) = title" "winner_of cs title = ct_winner (cs ! j)"
    using assms(1-4) entered_nth(2) [OF assms(1)] winner_of_nth [OF assms(1)] by auto
  then show ?thesis using From_Match by (auto simp: decided_def)
qed simp

lemma sides_resolved:
  assumes "entered cs" and "\<And>j. j < k \<Longrightarrow> decided team cs (cs ! j)" and "i \<le> k" and "i < 9"
  shows "\<exists>n m. n \<noteq> m \<and> {n, m} \<subseteq> set (contenders (ct_title (cs ! i))) \<and> {n, m} \<subseteq> {1..10}
    \<and> match_sides team cs (cs ! i) = (Some (team n), Some (team m))"
proof -
  obtain title stage a b where entry: "BRACKET ! i = (title, stage, a, b)" by (metis prod_cases4)
  note b = bracket_entry [OF assms(4) entry] and e = entered_nth [OF assms(1)]
  obtain n where n: "n \<in> set (feeders a)" "source_team team cs a = Some (team n)"
    using source_resolved [OF assms b(1)] by auto
  obtain m where m: "m \<in> set (feeders b)" "source_team team cs b = Some (team m)"
    using source_resolved [OF assms b(2)] by auto
  have "ct_title (cs ! i) = title" "ct_sources (cs ! i) = (a, b)" using e(2,3) assms(4) entry by auto
  moreover have "n \<noteq> m" using n(1) m(1) b(6) by auto
  ultimately show ?thesis using n m b(3,4,5) by (intro exI [of _ n] exI [of _ m]) (auto simp: match_sides_def)
qed

lemma match_sides_cong:
  assumes "entered cs" and "entered cs'" and "i < 9" and "\<And>j. j < i \<Longrightarrow> ct_winner (cs' ! j) = ct_winner (cs ! j)"
  shows "match_sides team cs' (cs' ! i) = match_sides team cs (cs ! i)"
proof -
  obtain title stage a b where entry: "BRACKET ! i = (title, stage, a, b)" by (metis prod_cases4)
  have "source_team team cs' src = source_team team cs src" if early: "earlier i src" for src
  proof (cases src)
    case (From_Match title)
    then obtain j where "j < i" "fst (BRACKET ! j) = title" using early by (auto simp: list_ex_iff)
    then show ?thesis using From_Match winner_of_nth [OF assms(1), of j] winner_of_nth [OF assms(2), of j] assms(3,4) by auto
  qed simp
  then show ?thesis using bracket_entry(1,2) [OF assms(3) entry] entered_nth(3) [OF assms(1)] entered_nth(3) [OF assms(2)] assms(3) entry
    by (simp add: match_sides_def)
qed

lemma decided_cong:
  assumes "entered cs" and "entered cs'" and "i < 9" and "\<And>j. j < i \<Longrightarrow> ct_winner (cs' ! j) = ct_winner (cs ! j)" and "cs' ! i = cs ! i"
  shows "decided team cs' (cs' ! i) = decided team cs (cs ! i)"
  using match_sides_cong [OF assms(1-4)] by (simp add: decided_def assms(5))

lemma entered_update:
  assumes "entered cs" and "k < 9" and "ct_title c = ct_title (cs ! k)" and "ct_sources c = ct_sources (cs ! k)"
  shows "entered (cs[k := c])"
  using assms entered_nth(1) [OF assms(1)] unfolding entered_def map_update
  by (metis list_update_id map_update)

lemma in_order_played:
  assumes "in_order team k cs" and "k < 9" and "match_sides team cs (cs ! k) = (Some a, Some b)"
    and "ct_title c = ct_title (cs ! k)" "ct_sources c = ct_sources (cs ! k)" "ct_winner c = None"
    and "ct_status c = Contest_Live" "ct_quads c \<noteq> []" "ct_teams c = Some (a, b)"
  shows "in_order team k (cs[k := c])"
proof -
  have e: "entered cs" "length cs = 9" using assms(1) entered_nth(1) by (auto simp: in_order_def)
  have e': "entered (cs[k := c])" by (rule entered_update [OF e(1) assms(2,4,5)])
  have same: "ct_winner (cs[k := c] ! j) = ct_winner (cs ! j)" if "j < k" for j using that by simp
  have "being_played team (cs[k := c]) (cs[k := c] ! k)"
    using match_sides_cong [OF e(1) e' assms(2) same] assms(2,3,6-9) e(2) by (simp add: being_played_def)
  moreover have "decided team (cs[k := c]) (cs[k := c] ! i)" if "i < k" for i
    using assms(1,2) that by (subst decided_cong [OF e(1) e']) (auto simp: in_order_def)
  ultimately show ?thesis using assms(1,2) e' by (auto simp: in_order_def)
qed

lemma in_order_decided:
  assumes "in_order team k cs" and "k < 9" and "match_sides team cs (cs ! k) = (Some a, Some b)"
    and "ct_title c = ct_title (cs ! k)" "ct_sources c = ct_sources (cs ! k)" "ct_winner c = Some w" "w \<in> {a, b}"
    and "ct_status c = Contest_Completed" "ct_teams c = Some (a, b)"
  shows "in_order team (Suc k) (cs[k := c])"
proof -
  have e: "entered cs" "length cs = 9" using assms(1) entered_nth(1) by (auto simp: in_order_def)
  have e': "entered (cs[k := c])" by (rule entered_update [OF e(1) assms(2,4,5)])
  have same: "ct_winner (cs[k := c] ! j) = ct_winner (cs ! j)" if "j < k" for j using that by simp
  obtain n m where "{n, m} \<subseteq> set (contenders (ct_title (cs ! k)))" "a = team n" "b = team m"
    using sides_resolved [OF e(1), of k team k] assms(1-3) by (auto simp: in_order_def)
  then have "\<exists>n \<in> set (contenders (ct_title c)). ct_winner c = Some (team n)" using assms(4,6,7) by auto
  then have "decided team (cs[k := c]) (cs[k := c] ! k)"
    using match_sides_cong [OF e(1) e' assms(2) same] assms(2,3,6-9) e(2) by (auto simp: decided_def)
  moreover have "decided team (cs[k := c]) (cs[k := c] ! i)" if "i < k" for i
    using assms(1,2) that by (subst decided_cong [OF e(1) e']) (auto simp: in_order_def)
  ultimately have "decided team (cs[k := c]) (cs[k := c] ! i)" if "i < Suc k" for i using that by (cases "i = k") auto
  then show ?thesis using assms(1,2) e' by (auto simp: in_order_def)
qed

end
