(* ===== verification/Bracket_Steps.thy ===== *)
theory Bracket_Steps
  imports Bracket_Order
begin

text \<open>
  The invariant of the tables of a hand-and-brain event, and that starting a match, a new quad, another
  game and the decision of a match keep it.
\<close>

subsection \<open>What every state of a run satisfies\<close>

definition teams_ready :: "brain \<Rightarrow> int \<Rightarrow> bool" where
  "teams_ready s e = ((\<exists>event. brain_event_of s e = Some event \<and> be_handler event = MODULE_KEY)
     \<and> (\<forall>event \<in> set (b_events s). be_handler event = MODULE_KEY \<longrightarrow> be_id event = e)
     \<and> distinct (map suite_id (b_suites s))
     \<and> (\<exists>suite. uho_suite s = Inr suite \<and> 0 < suite_id suite \<and> suite_revision suite = ''chess1''
          \<and> (\<exists>r \<in> set (openings (b_store s)). opening_suite r = suite_id suite))
     \<and> (\<forall>n \<in> {1..10}. resolve_source s e (From_Seed n) \<noteq> None \<and> length (team_roster s e (seed_team s e n)) = 2
          \<and> (\<forall>m \<in> set (team_roster s e (seed_team s e n)). ready m \<and> 0 < build_of m))
     \<and> (\<forall>n \<in> {1..10}. \<forall>m \<in> {1..10}. n \<noteq> m \<longrightarrow>
          distinct (map build_of (team_roster s e (seed_team s e n) @ team_roster s e (seed_team s e m)))))"

definition in_slot :: "relay_fixture \<Rightarrow> int option \<Rightarrow> nat \<Rightarrow> game_record \<Rightarrow> bool" where
  "in_slot f opening i g = (game_round g = 1 \<and> game_pair g = int i div 2 + 1
     \<and> white_engine g = (if even i then anchor_a f else anchor_b f) \<and> black_engine g = (if even i then anchor_b f else anchor_a f)
     \<and> game_opening g = opening \<and> (game_status g = Game_Finished \<longrightarrow> game_result g \<noteq> None))"

definition quad_played :: "relay_fixture \<Rightarrow> game_record list \<Rightarrow> bool" where
  "quad_played f gs = (1 \<le> length gs \<and> length gs \<le> 4 \<and> (\<forall>i < length gs. in_slot f (game_opening (hd gs)) i (gs ! i)))"

lemma quad_played_snoc:
  assumes "quad_played f gs" and "length gs < 4" and "in_slot f (game_opening (hd gs)) (length gs) g"
  shows "quad_played f (gs @ [g])"
proof -
  have "hd (gs @ [g]) = hd gs" using assms(1) by (cases gs) (auto simp: quad_played_def)
  then show ?thesis using assms by (auto simp: quad_played_def nth_append less_Suc_eq)
qed

definition quad_ok :: "brain \<Rightarrow> int \<Rightarrow> int \<Rightarrow> bool" where
  "quad_ok s e t = (\<exists>f \<in> set (b_fixtures s). fixture_tournament f = t \<and> fixture_event f = e \<and> anchor_a f \<noteq> anchor_b f
     \<and> quad_played f (list_games (b_store s) t))"

definition quads_of :: "brain \<Rightarrow> int \<Rightarrow> int list" where
  "quads_of s e = concat (map ct_quads (event_contests s e))"

definition tables_ok :: "brain \<Rightarrow> int \<Rightarrow> bool" where
  "tables_ok s e = (distinct (map ct_id (b_contests s))
     \<and> (\<forall>c \<in> set (b_contests s). \<forall>i. ct_stage c = Some i \<longrightarrow> i \<in> st_id ` set (b_stages s))
     \<and> distinct (map fixture_tournament (b_fixtures s))
     \<and> (\<forall>f \<in> set (b_fixtures s). fixture_tournament f < next_tour s \<and> 0 \<le> fixture_position f)
     \<and> fixture_tournament ` {f \<in> set (b_fixtures s). fixture_event f = e} = set (quads_of s e)
     \<and> distinct (quads_of s e)
     \<and> (\<forall>g \<in> set (games (b_store s)). game_id g < next_game (b_store s) \<and> game_tournament g < next_tour s)
     \<and> (\<forall>t \<in> set (quads_of s e). quad_ok s e t))"

definition event_ok :: "brain \<Rightarrow> int \<Rightarrow> nat \<Rightarrow> bool" where
  "event_ok s e k = (teams_ready s e \<and> tables_ok s e \<and> in_order (seed_team s e) k (event_contests s e)
     \<and> ((\<exists>event. brain_event_of s e = Some event \<and> be_status event = Ev_Completed) \<longrightarrow> k = 9))"

lemma event_contests_update:
  assumes "distinct (map ct_id (b_contests s))" and "k < length (event_contests s e)"
    and "\<And>c. ct_event (f c) = ct_event c \<and> ct_position (f c) = ct_position c \<and> ct_id (f c) = ct_id c"
    and "b_contests s' = map (\<lambda>c. if ct_id c = ct_id (event_contests s e ! k) then f c else c) (b_contests s)"
  shows "event_contests s' e = (event_contests s e)[k := f (event_contests s e ! k)]"
proof -
  define h where "h = (\<lambda>c. if ct_id c = ct_id (event_contests s e ! k) then f c else c)"
  let ?cs = "event_contests s e"
  have keys: "ct_event (h c) = ct_event c" "(ct_position (h c), ct_id (h c)) = (ct_position c, ct_id c)" for c using assms(3) by (auto simp: h_def)
  have "filter (\<lambda>c. ct_event c = e) (map h cs) = map h (filter (\<lambda>c. ct_event c = e) cs)" for cs
    unfolding filter_map o_def keys(1) ..
  moreover have "b_contests s' = map h (b_contests s)" using assms(4) by (simp add: h_def)
  ultimately have "event_contests s' e = map h ?cs"
    unfolding event_contests_def using sort_key_map [of "\<lambda>c. (ct_position c, ct_id c)" h, OF keys(2)] by simp
  moreover have dist: "distinct (map ct_id ?cs)" using assms(1) by (simp add: event_contests_def distinct_map inj_on_def)
  have "map h ?cs = ?cs[k := f (?cs ! k)]"
  proof (rule nth_equalityI)
    fix i assume "i < length (map h ?cs)"
    then have i: "i < length ?cs" by simp
    then have "(ct_id (?cs ! i) = ct_id (?cs ! k)) = (i = k)"
      using nth_eq_iff_index_eq [OF dist, of i k] assms(2) by simp
    then show "map h ?cs ! i = ?cs[k := f (?cs ! k)] ! i" using i assms(2) by (simp add: nth_list_update h_def)
  qed simp
  ultimately show ?thesis by simp
qed

definition same_teams :: "brain \<Rightarrow> brain \<Rightarrow> bool" where
  "same_teams s s' = (b_cast s' = b_cast s \<and> b_suites s' = b_suites s \<and> openings (b_store s') = openings (b_store s)
     \<and> map (\<lambda>r. (be_id r, be_handler r)) (b_events s') = map (\<lambda>r. (be_id r, be_handler r)) (b_events s))"

lemma handler_of:
  "(\<exists>event. List.find (\<lambda>r. be_id r = e) rs = Some event \<and> be_handler event = k)
    \<longleftrightarrow> map_of (map (\<lambda>r. (be_id r, be_handler r)) rs) e = Some k"
  by (induction rs) auto

lemma only_event:
  "(\<forall>event \<in> set rs. be_handler event = k \<longrightarrow> be_id event = e)
    \<longleftrightarrow> (\<forall>x \<in> set (map (\<lambda>r. (be_id r, be_handler r)) rs). snd x = k \<longrightarrow> fst x = e)"
  by auto

lemma same_cast:
  assumes "b_cast s' = b_cast s"
  shows "event_cast s' e = event_cast s e" "team_roster s' e = team_roster s e" "seed_team s' e = seed_team s e"
    "resolve_source s' e (From_Seed n) = resolve_source s e (From_Seed n)"
  using assms by (auto simp: event_cast_def team_roster_def seed_team_def resolve_source_def fun_eq_iff)

lemma teams_ready_same:
  assumes "same_teams s s'"
  shows "teams_ready s' e = teams_ready s e" "seed_team s' e = seed_team s e"
proof -
  note same = assms [unfolded same_teams_def]
  show "seed_team s' e = seed_team s e" using same same_cast(3) by blast
  have "uho_suite s' = uho_suite s" using same by (simp add: uho_suite_def)
  then show "teams_ready s' e = teams_ready s e"
    unfolding teams_ready_def brain_event_of_def handler_of only_event using same same_cast [of s' s] by simp
qed

lemma resolve_sides:
  assumes "teams_ready s e" and "entered (event_contests s e)" and "i < 9"
  shows "resolve_teams s e (event_contests s e ! i) = match_sides (seed_team s e) (event_contests s e) (event_contests s e ! i)"
proof -
  obtain title stage a b where entry: "BRACKET ! i = (title, stage, a, b)" by (metis prod_cases4)
  have "resolve_source s e src = source_team (seed_team s e) (event_contests s e) src" if "earlier i src" for src
  proof (cases src)
    case (From_Seed n)
    then have "resolve_source s e (From_Seed n) \<noteq> None" using assms(1) that by (auto simp: teams_ready_def)
    then show ?thesis using From_Seed by (auto simp: seed_team_def)
  qed (simp add: resolve_source_def winner_of_def)
  then show ?thesis using bracket_entry(1,2) [OF assms(3) entry] entered_nth(3) [OF assms(2,3)] entry
    by (simp add: resolve_teams_def match_sides_def)
qed

subsection \<open>A new quad\<close>

definition quad_added :: "brain \<Rightarrow> int \<Rightarrow> contest \<Rightarrow> int \<Rightarrow> int \<Rightarrow> relay_fixture \<Rightarrow> game_record \<Rightarrow> brain \<Rightarrow> bool" where
  "quad_added s e c a b f g s' = (same_teams s s' \<and> b_events s' = b_events s
     \<and> b_contests s' = map (\<lambda>r. if ct_id r = ct_id c then r\<lparr>ct_status := Contest_Live, ct_sources := ct_sources c, ct_winner := ct_winner c,
           ct_teams := Some (a, b), ct_quads := ct_quads c @ [next_tour s]\<rparr> else r) (b_contests s)
     \<and> st_id ` set (b_stages s') = st_id ` set (b_stages s)
     \<and> b_fixtures s' = b_fixtures s @ [f] \<and> fixture_tournament f = next_tour s \<and> fixture_event f = e \<and> 0 \<le> fixture_position f
     \<and> anchor_a f \<noteq> anchor_b f \<and> games (b_store s') = games (b_store s) @ [g] \<and> quad_played f [g] \<and> game_id g = next_game (b_store s)
     \<and> game_tournament g = next_tour s \<and> next_game (b_store s') = next_game (b_store s) + 1 \<and> next_tour s' = next_tour s + 1)"

lemma put_status_frame [simp]:
  "openings (put_status now t st s) = openings s" "next_game (put_status now t st s) = next_game s"
  "games (put_status now t Running s) = games s"
  by (simp_all add: put_status_def update_tournament_def Let_def)

lemma roster_pair:
  assumes "teams_ready s e" and "{n, m} \<subseteq> {1..10}" and "n \<noteq> m"
  defines "ra \<equiv> team_roster s e (seed_team s e n)" and "rb \<equiv> team_roster s e (seed_team s e m)"
  shows "length ra = 2" "length rb = 2" "list_all ready (ra @ rb)" "card (set (map build_of (ra @ rb))) = 4"
    "0 < build_of (hd ra)" "0 < build_of (hd rb)" "build_of (hd ra) \<noteq> build_of (hd rb)" "seed_team s e n \<noteq> seed_team s e m"
proof -
  note t = assms(1) [unfolded teams_ready_def]
  have nm: "n \<in> {1..10}" "m \<in> {1..10}" using assms(2) by auto
  show len: "length ra = 2" "length rb = 2" using t nm unfolding ra_def rb_def by blast+
  show "list_all ready (ra @ rb)" using t nm unfolding ra_def rb_def list_all_iff by auto
  have dist: "distinct (map build_of (ra @ rb))" using t nm assms(3) unfolding ra_def rb_def by blast
  then show "card (set (map build_of (ra @ rb))) = 4" using len distinct_card [OF dist] by simp
  have hds: "hd ra \<in> set ra" "hd rb \<in> set rb" using len by (cases ra; cases rb; simp)+
  then show "0 < build_of (hd ra)" "0 < build_of (hd rb)" using t nm unfolding ra_def rb_def by blast+
  show ne: "build_of (hd ra) \<noteq> build_of (hd rb)" using dist hds by (auto simp: disjoint_iff)
  then show "seed_team s e n \<noteq> seed_team s e m" unfolding ra_def rb_def by auto
qed

lemma book_ready:
  assumes "teams_ready s e"
  obtains suite where "uho_suite s = Inr suite" "0 < suite_id suite"
    "\<And>c. opening_suite_id c = Some (suite_id suite) \<Longrightarrow> config_variant c = ''standard'' \<Longrightarrow> config_rules_revision c = ''chess1''
      \<Longrightarrow> validate_tournament_variant s c = Inr ()"
    "\<And>start. list_suite_opening_ids (b_store s) (suite_id suite) 1 start \<noteq> []"
proof -
  obtain suite r where suite: "uho_suite s = Inr suite" "0 < suite_id suite" "suite_revision suite = ''chess1''"
      "r \<in> set (openings (b_store s))" "opening_suite r = suite_id suite" and dist: "distinct (map suite_id (b_suites s))"
    using assms unfolding teams_ready_def by blast
  show thesis
  proof (rule that [OF suite(1,2)])
    show "list_suite_opening_ids (b_store s) (suite_id suite) 1 start \<noteq> []" for start by (rule first_opening [OF suite(4,5)])
    show "validate_tournament_variant s c = Inr ()"
      if "opening_suite_id c = Some (suite_id suite)" "config_variant c = ''standard''" "config_rules_revision c = ''chess1''" for c
      using chosen_suite [OF suite(1) dist] suite(3) that by (simp add: validate_tournament_variant_def)
  qed
qed

definition new_game :: "store \<Rightarrow> int \<Rightarrow> int \<Rightarrow> int \<Rightarrow> int \<Rightarrow> int \<Rightarrow> int option \<Rightarrow> game_record" where
  "new_game s t pair white black number opening = \<lparr>game_id = next_game s, game_tournament = t, game_round = 1, game_pair = pair,
     white_engine = white, black_engine = black, game_match = None, game_number = number, tiebreak = None, game_opening = opening,
     game_status = Game_Pending, record_eligible = True, game_result = None\<rparr>"

lemma create_game_new:
  assumes "\<And>g. g \<in> set (games s) \<Longrightarrow> game_tournament g = t \<Longrightarrow> (game_pair g, white_engine g) \<noteq> (pair, white)"
  shows "create_game s t 1 pair white black None number None opening = Inr (s\<lparr>games := games s @ [new_game s t pair white black number opening],
    next_game := next_game s + 1\<rparr>, next_game s)"
  using assms by (auto simp: create_game_def game_key_def new_game_def)

definition new_fixture :: "brain \<Rightarrow> int \<Rightarrow> int \<Rightarrow> int \<Rightarrow> int \<Rightarrow> int \<Rightarrow> int \<Rightarrow> int \<Rightarrow> relay_fixture" where
  "new_fixture s e p t a b x y = \<lparr>fixture_id = next_fixture s, fixture_event = e, fixture_position = p, fixture_tournament = t,
     team_a = a, team_b = b, anchor_a = x, anchor_b = y, kibitzer_engine = None, kibitzer_threads = None, kibitzer_hash_mb = None\<rparr>"

lemma inserted_fixture:
  assumes "t \<notin> fixture_tournament ` set (b_fixtures s)" and "\<And>f. f \<in> set (b_fixtures s) \<Longrightarrow> 0 \<le> fixture_position f"
    and "a \<noteq> b" and "x \<noteq> y"
  shows "\<exists>p rows. insert_fixture s e t (a, b) (x, y) = Inr (s\<lparr>b_fixtures := b_fixtures s @ [new_fixture s e p t a b x y], b_teams := rows,
    next_fixture := next_fixture s + 1\<rparr>) \<and> 0 \<le> p"
proof -
  let ?ps = "map fixture_position (filter (\<lambda>f. fixture_event f = e) (b_fixtures s))"
  define p where "p = (if ?ps = [] then 0 else Max (set ?ps) + 1)"
  have "0 \<le> p"
  proof (cases "?ps = []")
    case False
    then have "Max (set ?ps) \<in> set ?ps" by (metis Max_in List.finite_set set_empty)
    then obtain f where "f \<in> set (b_fixtures s)" "Max (set ?ps) = fixture_position f" by auto
    then have "0 \<le> Max (set ?ps)" using assms(2) by metis
    then show ?thesis using False by (simp add: p_def)
  qed (simp add: p_def)
  moreover have "\<not> list_ex (\<lambda>f. fixture_tournament f = t) (b_fixtures s)" using assms(1) by (auto simp: list_ex_iff)
  ultimately show ?thesis using assms(3,4) unfolding insert_fixture_def Let_def p_def [symmetric]
    by (intro exI conjI, subst if_not_P) (auto simp: new_fixture_def)
qed

lemma stage_ids: "(\<And>r. st_id (h r) = st_id r) \<Longrightarrow> st_id ` set (map h rs) = st_id ` set rs"
  unfolding set_map image_image by (rule image_cong) simp_all

lemma activated_stage:
  assumes "\<And>i. stage = Some i \<Longrightarrow> i \<in> st_id ` set (b_stages s)"
  shows "\<exists>rows. (case stage of None \<Rightarrow> Inr s | Some i \<Rightarrow> set_event_stage_status i Stage_Active s) = Inr (s\<lparr>b_stages := rows\<rparr>)
    \<and> st_id ` set rows = st_id ` set (b_stages s)"
proof (cases stage)
  case None
  then show ?thesis by (intro exI [of _ "b_stages s"]) simp
next
  case (Some i)
  let ?rows = "map (\<lambda>r. if st_id r = i then r\<lparr>st_status := Stage_Active\<rparr> else r) (b_stages s)"
  have "st_id ` set ?rows = st_id ` set (b_stages s)" by (rule stage_ids) simp
  moreover have "list_ex (\<lambda>r. st_id r = i) (b_stages s)" using assms [OF Some] by (auto simp: list_ex_iff)
  ultimately show ?thesis using Some by (intro exI [of _ ?rows]) (simp add: set_event_stage_status_def)
qed

lemma create_quad_ok:
  assumes ready: "teams_ready s e" and event: "brain_event_of s e = Some event" and c: "c \<in> set (b_contests s)"
    and sides: "resolve_teams s e c = (Some (seed_team s e n), Some (seed_team s e m))" and nm: "{n, m} \<subseteq> {1..10}" "n \<noteq> m"
    and stage: "\<And>i. ct_stage c = Some i \<Longrightarrow> i \<in> st_id ` set (b_stages s)"
    and fresh: "next_tour s \<notin> fixture_tournament ` set (b_fixtures s)" "\<And>f. f \<in> set (b_fixtures s) \<Longrightarrow> 0 \<le> fixture_position f"
      "next_tour s \<notin> game_tournament ` set (games (b_store s))"
  shows "\<exists>s' f g. create_quad now s event c = Inr (s', next_tour s) \<and> quad_added s e c (seed_team s e n) (seed_team s e m) f g s'"
proof -
  note r = roster_pair [OF ready nm]
  have e: "be_id event = e" using event find_Some_iff_in unfolding brain_event_of_def by fast
  obtain suite where suite: "uho_suite s = Inr suite" "0 < suite_id suite"
    "\<And>c. opening_suite_id c = Some (suite_id suite) \<Longrightarrow> config_variant c = ''standard'' \<Longrightarrow> config_rules_revision c = ''chess1''
      \<Longrightarrow> validate_tournament_variant s c = Inr ()"
    "\<And>start. list_suite_opening_ids (b_store s) (suite_id suite) 1 start \<noteq> []" using book_ready [OF ready] by blast
  let ?a = "seed_team s e n" and ?b = "seed_team s e m" and ?index = "length (ct_quads c)"
  let ?ra = "team_roster s e ?a" and ?rb = "team_roster s e ?b"
  let ?config = "(quad_config event (suite_id suite) (int ?index) (build_of (hd ?ra)) (build_of (hd ?rb)))\<lparr>config_rules_revision := ''chess1''\<rparr>"
  have config: "validation_result (check_config (quad_config event (suite_id suite) (int ?index) (build_of (hd ?ra)) (build_of (hd ?rb)))) = Inr ?config"
    using quad_config_accepted [OF r(5,6,7) suite(2)] by (simp add: validation_result_def)
  have valid: "validate_tournament_variant s ?config = Inr ()" by (rule suite(3)) (simp_all add: quad_config_def)
  let ?s1 = "s\<lparr>b_store := (b_store s)\<lparr>tournaments := tournaments (b_store s) @ [\<lparr>tour_id = next_tour s, tour_name = quad_title c ?index,
      tour_config = ?config, tour_status = Draft, tour_started = None, tour_finished = None\<rparr>]\<rparr>, next_tour := next_tour s + 1\<rparr>"
  obtain p rows where fixture: "insert_fixture ?s1 e (next_tour s) (?a, ?b) (build_of (hd ?ra), build_of (hd ?rb)) = Inr (?s1\<lparr>b_fixtures :=
        b_fixtures s @ [new_fixture ?s1 e p (next_tour s) ?a ?b (build_of (hd ?ra)) (build_of (hd ?rb))], b_teams := rows,
        next_fixture := next_fixture s + 1\<rparr>)" "0 \<le> p"
    using inserted_fixture [of "next_tour s" ?s1 ?a ?b "build_of (hd ?ra)" "build_of (hd ?rb)" e] fresh(1,2) r(7,8) by auto
  let ?f = "new_fixture ?s1 e p (next_tour s) ?a ?b (build_of (hd ?ra)) (build_of (hd ?rb))"
  let ?s2 = "?s1\<lparr>b_fixtures := b_fixtures s @ [?f], b_teams := rows, next_fixture := next_fixture s + 1\<rparr>"
  let ?opening = "list_suite_opening_ids (b_store s) (suite_id suite) 1 (ct_position c * 997 + int ?index)"
  let ?o = "Some (?opening ! nat ((ct_position c * 997 + int ?index) mod int (length ?opening)))"
  let ?g = "new_game (b_store s) (next_tour s) 1 (build_of (hd ?ra)) (build_of (hd ?rb)) 1 ?o"
  let ?st = "(b_store ?s2)\<lparr>games := games (b_store s) @ [?g], next_game := next_game (b_store s) + 1\<rparr>"
  have none: "game_tournament g \<noteq> next_tour s" if "g \<in> set (games (b_store s))" for g using fresh(3) that by (metis image_eqI)
  have game: "create_game (b_store ?s2) (next_tour s) 1 1 (build_of (hd ?ra)) (build_of (hd ?rb)) None 1 None ?o = Inr (?st, next_game (b_store s))"
    by (subst create_game_new) (use none in \<open>auto simp: new_game_def\<close>)
  let ?h = "\<lambda>r. r\<lparr>ct_status := Contest_Live, ct_sources := ct_sources c, ct_winner := ct_winner c, ct_teams := Some (?a, ?b),
      ct_quads := ct_quads c @ [next_tour s]\<rparr>"
  let ?s3 = "?s2\<lparr>b_store := ?st, b_contests := map (\<lambda>r. if ct_id r = ct_id c then ?h r else r) (b_contests s)\<rparr>"
  have contests: "update_event_contest_state (ct_id c) ?h (?s2\<lparr>b_store := ?st\<rparr>) = Inr ?s3"
    using c by (auto simp: update_event_contest_state_def list_ex_iff)
  obtain stages where stages: "(case ct_stage c of None \<Rightarrow> Inr ?s3 | Some i \<Rightarrow> set_event_stage_status i Stage_Active ?s3)
      = Inr (?s3\<lparr>b_stages := stages\<rparr>)" "st_id ` set stages = st_id ` set (b_stages s)"
    using activated_stage [of "ct_stage c" ?s3] stage by auto
  let ?s' = "?s3\<lparr>b_stages := stages, b_store := put_status now (next_tour s) Running ?st\<rparr>"
  have guards: "guard (length ?ra = 2 \<and> length ?rb = 2) x = Inr ()" "guard (list_all ready (?ra @ ?rb)) x = Inr ()"
    "guard (card (set (map build_of (?ra @ ?rb))) = 4) x = Inr ()" for x :: exn
    using r(1-4) by (simp_all only: guard_def if_True simp_thms)
  have book: "guard (list_suite_opening_ids (b_store s) (suite_id suite) 1 start \<noteq> []) x = Inr ()" for start and x :: exn
    using suite(4) by (simp add: guard_def)
  have created: "create_tournament s title ?config = Inr (s\<lparr>b_store := (b_store s)\<lparr>tournaments := tournaments (b_store s) @ [\<lparr>tour_id = next_tour s,
      tour_name = title, tour_config = ?config, tour_status = Draft, tour_started = None, tour_finished = None\<rparr>]\<rparr>,
      next_tour := next_tour s + 1\<rparr>, next_tour s)" for title
    by (simp add: create_tournament_def valid)
  have "create_quad now s event c = Inr (?s', next_tour s)"
    unfolding create_quad_def Let_def e sides prod.case option.case fst_conv snd_conv guards suite(1) rbind_Inr book config created
      fixture(1) game contests stages(1) by simp
  moreover have "quad_added s e c ?a ?b ?f ?g ?s'"
    unfolding quad_added_def same_teams_def using stages(2) fixture(2) r(7)
    by (simp add: new_fixture_def new_game_def quad_played_def in_slot_def)
  ultimately show ?thesis by blast
qed

subsection \<open>What changes keep\<close>

lemma event_ok_frame:
  assumes "event_ok s e k" and "same_teams s s'" and "b_contests s' = b_contests s" and "b_fixtures s' = b_fixtures s"
    and "st_id ` set (b_stages s') = st_id ` set (b_stages s)" and "next_tour s' = next_tour s"
    and "\<And>t f. quad_played f (list_games (b_store s) t) \<Longrightarrow> t \<in> set (quads_of s e) \<Longrightarrow> f \<in> set (b_fixtures s) \<Longrightarrow> fixture_tournament f = t
      \<Longrightarrow> quad_played f (list_games (b_store s') t)"
    and "\<And>g. g \<in> set (games (b_store s')) \<Longrightarrow> game_id g < next_game (b_store s') \<and> game_tournament g < next_tour s"
    and "\<And>event. brain_event_of s' e = Some event \<Longrightarrow> be_status event = Ev_Completed \<Longrightarrow> k = 9"
  shows "event_ok s' e k"
proof -
  have cs: "event_contests s' e = event_contests s e" "quads_of s' e = quads_of s e"
    using assms(3) by (simp_all add: event_contests_def quads_of_def)
  have "quad_ok s' e t" if "quad_ok s e t" "t \<in> set (quads_of s e)" for t
    using that assms(4,7) unfolding quad_ok_def by metis
  then have "tables_ok s' e" using assms(1,3-6,8) unfolding event_ok_def tables_ok_def cs by auto
  then show ?thesis using assms(1,9) teams_ready_same [OF assms(2)] unfolding event_ok_def cs by auto
qed

lemma list_games_appended:
  assumes "games s' = games s @ [g]"
  shows "game_tournament g \<noteq> t \<Longrightarrow> list_games s' t = list_games s t"
    and "t \<notin> game_tournament ` set (games s) \<Longrightarrow> game_tournament g = t \<Longrightarrow> list_games s' t = [g]"
proof -
  show "list_games s' t = list_games s t" if "game_tournament g \<noteq> t" using assms that by (simp add: list_games_def)
  have "filter (\<lambda>g. game_tournament g = t) (games s) = []" if "t \<notin> game_tournament ` set (games s)"
    using that by (auto simp: filter_empty_conv)
  then show "list_games s' t = [g]" if "t \<notin> game_tournament ` set (games s)" "game_tournament g = t"
    using assms that by (simp add: list_games_def)
qed

lemma tables_okD:
  assumes "tables_ok s e"
  shows "distinct (map ct_id (b_contests s))"
    and "c \<in> set (b_contests s) \<Longrightarrow> ct_stage c = Some i \<Longrightarrow> i \<in> st_id ` set (b_stages s)"
    and "distinct (map fixture_tournament (b_fixtures s))"
    and "f \<in> set (b_fixtures s) \<Longrightarrow> fixture_tournament f < next_tour s \<and> 0 \<le> fixture_position f"
    and "fixture_tournament ` {f \<in> set (b_fixtures s). fixture_event f = e} = set (quads_of s e)"
    and "distinct (quads_of s e)"
    and "g \<in> set (games (b_store s)) \<Longrightarrow> game_id g < next_game (b_store s) \<and> game_tournament g < next_tour s"
    and "t \<in> set (quads_of s e) \<Longrightarrow> quad_ok s e t"
  using assms unfolding tables_ok_def by simp_all

lemma next_tour_fresh:
  assumes "tables_ok s e"
  shows "next_tour s \<notin> fixture_tournament ` set (b_fixtures s)" "next_tour s \<notin> game_tournament ` set (games (b_store s))"
    "t \<in> set (quads_of s e) \<Longrightarrow> t < next_tour s"
  using tables_okD(4,7) [OF assms] tables_okD(5) [OF assms, symmetric] by force+

lemma quad_added_tables:
  assumes tab: "tables_ok s e" and "quad_added s e c a b f g s'"
    and "mset (quads_of s' e) = add_mset (next_tour s) (mset (quads_of s e))" and "c \<in> set (b_contests s)"
  shows "tables_ok s' e"
  unfolding tables_ok_def
proof (intro conjI ballI allI impI)
  note q = assms(2) [unfolded quad_added_def] and t = tables_okD [OF tab] and fresh = next_tour_fresh [OF tab]
  have qset: "set (quads_of s' e) = insert (next_tour s) (set (quads_of s e))" using assms(3) by (metis set_mset_add_mset_insert set_mset_mset)
  have fixtures: "set (b_fixtures s') = insert f (set (b_fixtures s))" using q by simp
  have "map ct_id (b_contests s') = map ct_id (b_contests s)" using q by simp
  then show "distinct (map ct_id (b_contests s'))" using t(1) by simp
  show "i \<in> st_id ` set (b_stages s')" if "c \<in> set (b_contests s')" "ct_stage c = Some i" for c i
  proof -
    have "\<exists>d \<in> set (b_contests s). ct_stage c = ct_stage d" using that(1) q by auto
    then show ?thesis using t(2) that(2) q by auto
  qed
  show "distinct (map fixture_tournament (b_fixtures s'))" using t(3) fresh(1) q by simp
  show "fixture_tournament f' < next_tour s'" "0 \<le> fixture_position f'" if "f' \<in> set (b_fixtures s')" for f'
    using that t(4) [of f'] q by auto
  have "{f' \<in> set (b_fixtures s'). fixture_event f' = e} = insert f {f' \<in> set (b_fixtures s). fixture_event f' = e}"
    using fixtures q by auto
  then show "fixture_tournament ` {f' \<in> set (b_fixtures s'). fixture_event f' = e} = set (quads_of s' e)" using t(5) qset q by simp
  have "next_tour s \<notin> set (quads_of s e)" using fresh(3) by blast
  then have "distinct (next_tour s # quads_of s e)" using t(6) by simp
  then show "distinct (quads_of s' e)" using assms(3) by (metis mset.simps(2) mset_eq_imp_distinct_iff)
  show "game_id g' < next_game (b_store s')" "game_tournament g' < next_tour s'" if "g' \<in> set (games (b_store s'))" for g'
    using that t(7) [of g'] q by auto
  show "quad_ok s' e i" if i: "i \<in> set (quads_of s' e)" for i
  proof (cases "i = next_tour s")
    case True
    then show ?thesis using q fixtures list_games_appended(2) [of "b_store s'" "b_store s" g i] fresh(2)
      unfolding quad_ok_def by (intro bexI [of _ f]) simp_all
  next
    case False
    then have "list_games (b_store s') i = list_games (b_store s) i" "i \<in> set (quads_of s e)"
      using list_games_appended(1) [of "b_store s'" "b_store s" g i] q i qset by auto
    then show ?thesis using t(8) [of i] fixtures unfolding quad_ok_def by auto
  qed
qed

lemma quad_added_ok:
  assumes "event_ok s e k" and "k < 9" and "match_sides (seed_team s e) (event_contests s e) (event_contests s e ! k) = (Some a, Some b)"
    and added: "quad_added s e (event_contests s e ! k) a b f g s'"
  shows "event_ok s' e k"
proof -
  let ?cs = "event_contests s e" and ?t = "next_tour s"
  note q = added [unfolded quad_added_def]
  have tab: "tables_ok s e" and ord: "in_order (seed_team s e) k ?cs" using assms(1) by (simp_all add: event_ok_def)
  note fresh = next_tour_fresh [OF tab]
  have len: "length ?cs = 9" using ord entered_nth(1) by (auto simp: in_order_def)
  let ?c = "?cs ! k"
  let ?c' = "?c\<lparr>ct_status := Contest_Live, ct_teams := Some (a, b), ct_quads := ct_quads ?c @ [?t]\<rparr>"
  have cs': "event_contests s' e = ?cs[k := ?c']"
    using event_contests_update [where s = s and e = e and k = k and s' = s'
        and f = "\<lambda>r. r\<lparr>ct_status := Contest_Live, ct_sources := ct_sources ?c, ct_winner := ct_winner ?c, ct_teams := Some (a, b),
          ct_quads := ct_quads ?c @ [?t]\<rparr>"] tab q len assms(2) by (simp add: tables_ok_def)
  have seeds: "seed_team s' e = seed_team s e" "teams_ready s' e" using teams_ready_same q assms(1) by (auto simp: event_ok_def)
  have "ct_winner ?c = None" using ord assms(2) by (auto simp: in_order_def untouched_def being_played_def)
  then have ord': "in_order (seed_team s' e) k (event_contests s' e)"
    unfolding cs' seeds(1) by (intro in_order_played [OF ord assms(2,3)]) simp_all
  have quads: "mset (quads_of s' e) = add_mset ?t (mset (quads_of s e))"
    using mset_concat_update [of k "map ct_quads ?cs" ?t] len assms(2) by (simp add: quads_of_def cs' map_update)
  have "?c \<in> set ?cs" using len assms(2) by simp
  then have "?c \<in> set (b_contests s)" by (simp add: event_contests_def)
  then have "tables_ok s' e" by (rule quad_added_tables [OF tab added quads])
  then show ?thesis using seeds(2) ord' assms(1,2) q by (auto simp: event_ok_def brain_event_of_def)
qed

subsection \<open>Starting the next match\<close>

lemma complete_stages_ok:
  assumes "event_ok s e k"
  shows "event_ok (complete_stages e s) e k" "event_contests (complete_stages e s) e = event_contests s e"
proof -
  have "st_id ` set (b_stages (complete_stages e s)) = st_id ` set (b_stages s)"
    unfolding complete_stages_def by (simp del: set_map, rule stage_ids) (simp add: Let_def)
  then show "event_ok (complete_stages e s) e k"
    using assms by (intro event_ok_frame [OF assms])
      (auto simp: complete_stages_def same_teams_def brain_event_of_def event_ok_def dest: tables_okD(7))
qed (simp add: complete_stages_def event_contests_def)

lemma event_status_ok:
  assumes "event_ok s e k" and "st = Ev_Completed \<Longrightarrow> k = 9"
  shows "\<exists>s'. set_event_status e st s = Inr s' \<and> event_ok s' e k"
proof -
  obtain event where event: "brain_event_of s e = Some event" using assms(1) by (auto simp: event_ok_def teams_ready_def)
  then have "list_ex (\<lambda>r. be_id r = e) (b_events s)" by (auto simp: brain_event_of_def list_ex_iff dest: find_Some_iff_in)
  moreover let ?s' = "s\<lparr>b_events := map (\<lambda>r. if be_id r = e then r\<lparr>be_status := st\<rparr> else r) (b_events s)\<rparr>"
  have "brain_event_of ?s' e = map_option (\<lambda>r. if be_id r = e then r\<lparr>be_status := st\<rparr> else r) (brain_event_of s e)"
    unfolding brain_event_of_def by (simp add: find_map)
  then have "event_ok ?s' e k"
    using assms event by (intro event_ok_frame [OF assms(1)])
      (auto simp: same_teams_def event_ok_def dest: tables_okD(7) split: if_splits dest!: find_Some_iff_in)
  ultimately show ?thesis by (simp add: set_event_status_def)
qed

lemma first_pending:
  assumes "in_order team k cs" and "\<not> list_ex (\<lambda>c. ct_status c = Contest_Live) cs"
  shows "k = 9 \<and> List.find (\<lambda>c. ct_status c = Contest_Pending) cs = None
    \<or> k < 9 \<and> untouched (cs ! k) \<and> List.find (\<lambda>c. ct_status c = Contest_Pending) cs = Some (cs ! k)"
proof -
  have len: "length cs = 9" using assms(1) entered_nth(1) by (auto simp: in_order_def)
  have over: "ct_status (cs ! i) = Contest_Completed" if "i < k" for i using assms(1) that by (auto simp: in_order_def decided_def)
  show ?thesis
  proof (cases "k = 9")
    case True
    then show ?thesis using over len by (auto simp: find_None_iff in_set_conv_nth)
  next
    case False
    then have k: "k < 9" using assms(1) by (auto simp: in_order_def)
    then have "\<not> being_played team cs (cs ! k)" using assms(2) len nth_mem [of k cs] by (auto simp: being_played_def list_ex_iff)
    then have "untouched (cs ! k)" using assms(1) k by (auto simp: in_order_def)
    moreover from this have "List.find (\<lambda>c. ct_status c = Contest_Pending) cs = Some (cs ! k)"
      using k len over by (auto simp: find_Some_iff untouched_def intro!: exI [of _ k])
    ultimately show ?thesis using k by simp
  qed
qed

lemma another_quad_ok:
  assumes ok: "event_ok s e k" and "k < 9" and event: "brain_event_of s e = Some event"
  shows "\<exists>s' t. create_quad now s event (event_contests s e ! k) = Inr (s', t) \<and> event_ok s' e k"
proof -
  let ?cs = "event_contests s e"
  have tab: "tables_ok s e" and ready: "teams_ready s e" and ord: "in_order (seed_team s e) k ?cs" using ok by (simp_all add: event_ok_def)
  have e: "entered ?cs" "length ?cs = 9" using ord entered_nth(1) by (auto simp: in_order_def)
  obtain n m where nm: "n \<noteq> m" "{n, m} \<subseteq> {1..10}" and sides: "match_sides (seed_team s e) ?cs (?cs ! k) = (Some (seed_team s e n), Some (seed_team s e m))"
    using sides_resolved [OF e(1), of k "seed_team s e" k] ord assms(2) by (auto simp: in_order_def)
  have c: "?cs ! k \<in> set (b_contests s)" using e(2) assms(2) nth_mem [of k ?cs] by (auto simp: event_contests_def)
  have resolved: "resolve_teams s e (?cs ! k) = (Some (seed_team s e n), Some (seed_team s e m))"
    using resolve_sides [OF ready e(1) assms(2)] sides by simp
  obtain s' f g where "create_quad now s event (?cs ! k) = Inr (s', next_tour s)"
      "quad_added s e (?cs ! k) (seed_team s e n) (seed_team s e m) f g s'"
    using create_quad_ok [OF ready event c resolved nm(2,1) tables_okD(2) [OF tab c] next_tour_fresh(1) [OF tab] _ next_tour_fresh(2) [OF tab]]
      tables_okD(4) [OF tab] by blast
  then show ?thesis using quad_added_ok [OF ok assms(2) sides] by blast
qed

lemma start_next_ok:
  assumes "event_ok s e k"
  shows "\<exists>s' t. start_next_match now s e = Inr (s', t) \<and> event_ok s' e k"
proof (cases "list_ex (\<lambda>c. ct_status c = Contest_Live) (event_contests s e)")
  case True
  then show ?thesis using complete_stages_ok(1) [OF assms] by (simp add: start_next_match_def Let_def)
next
  case False
  let ?s1 = "complete_stages e s"
  note s1 = complete_stages_ok [OF assms]
  have ord: "in_order (seed_team s e) k (event_contests s e)" using assms by (simp add: event_ok_def)
  obtain event where event: "brain_event_of s e = Some event" using assms by (auto simp: event_ok_def teams_ready_def)
  then have event1: "brain_event_of ?s1 e = Some event" by (simp add: brain_event_of_def complete_stages_def)
  show ?thesis
  proof (cases "k < 9")
    case True
    then have first: "List.find (\<lambda>c. ct_status c = Contest_Pending) (event_contests s e) = Some (event_contests s e ! k)"
      using first_pending [OF ord False] by simp
    obtain s2 t where s2: "create_quad now ?s1 event (event_contests s e ! k) = Inr (s2, t)" "event_ok s2 e k"
      using another_quad_ok [OF s1(1) True event1] unfolding s1(2) by blast
    then show ?thesis using event_status_ok [OF s2(2), of Ev_Live] False first event
      by (auto simp: start_next_match_def Let_def)
  next
    case no: False
    then have "k = 9" "List.find (\<lambda>c. ct_status c = Contest_Pending) (event_contests s e) = None"
      using first_pending [OF ord False] by auto
    then show ?thesis using event_status_ok [OF s1(1), of Ev_Completed] False by (auto simp: start_next_match_def Let_def)
  qed
qed

subsection \<open>Advancing\<close>

lemma quad_points_total:
  "game_status g = Game_Finished \<Longrightarrow> game_result g \<noteq> None
    \<Longrightarrow> fst (quad_points anchor score g) + snd (quad_points anchor score g) = fst score + snd score + 2"
  by (auto simp: quad_points_def Let_def)

lemma quad_score_total:
  assumes "\<And>g. g \<in> set gs \<Longrightarrow> game_status g = Game_Finished \<and> game_result g \<noteq> None"
  shows "fst (foldl (quad_points anchor) score gs) + snd (foldl (quad_points anchor) score gs) = fst score + snd score + 2 * int (length gs)"
  using assms
proof (induction gs arbitrary: score)
  case (Cons g gs)
  then show ?case using quad_points_total [of g anchor score] Cons.IH [of "quad_points anchor score g"] by simp
qed simp

lemma list_games_snoc:
  assumes "games s' = games s @ [g]" and "game_tournament g = t"
    and "\<And>x. x \<in> set (list_games s t) \<Longrightarrow> (game_round x, game_pair x, game_id x) \<le> (game_round g, game_pair g, game_id g)"
  shows "list_games s' t = list_games s t @ [g]"
proof -
  have "filter (\<lambda>x. game_tournament x = t) (games s') = filter (\<lambda>x. game_tournament x = t) (games s) @ [g]" using assms(1,2) by simp
  then show ?thesis unfolding list_games_def by (simp only:) (rule sort_key_snoc, use assms(3) in simp)
qed

lemma next_game_ok:
  assumes played: "quad_played f (list_games st t)" and "length (list_games st t) < 4" and ne: "anchor_a f \<noteq> anchor_b f"
    and ids: "\<And>g. g \<in> set (games st) \<Longrightarrow> game_id g < next_game st"
  defines "n \<equiv> int (length (list_games st t)) + 1"
  shows "\<exists>g. create_game st t 1 ((n - 1) div 2 + 1) (if n mod 2 \<noteq> 0 then anchor_a f else anchor_b f)
      (if n mod 2 \<noteq> 0 then anchor_b f else anchor_a f) None n None (game_opening (hd (list_games st t)))
      = Inr (st\<lparr>games := games st @ [g], next_game := next_game st + 1\<rparr>, next_game st)
    \<and> game_id g = next_game st \<and> game_tournament g = t
    \<and> quad_played f (list_games (st\<lparr>games := games st @ [g], next_game := next_game st + 1\<rparr>) t)"
proof -
  let ?gs = "list_games st t" and ?white = "if n mod 2 \<noteq> 0 then anchor_a f else anchor_b f"
  let ?g = "new_game st t ((n - 1) div 2 + 1) ?white (if n mod 2 \<noteq> 0 then anchor_b f else anchor_a f) n (game_opening (hd ?gs))"
  note p = played [unfolded quad_played_def in_slot_def]
  have new: "game_round g = 1" "game_pair g \<le> (n - 1) div 2 + 1" "(game_pair g, white_engine g) \<noteq> ((n - 1) div 2 + 1, ?white)"
    if g: "g \<in> set ?gs" for g
  proof -
    obtain i where i: "i < length ?gs" "g = ?gs ! i" using g by (metis in_set_conv_nth)
    have "game_pair g = int i div 2 + 1" "white_engine g = (if even i then anchor_a f else anchor_b f)" "game_round g = 1" using p i by auto
    moreover have "int i div 2 \<le> (n - 1) div 2" using i(1) by (intro zdiv_mono1) (auto simp: n_def)
    moreover have "int i div 2 \<noteq> (n - 1) div 2 \<or> even i \<noteq> (n mod 2 \<noteq> 0)" using i(1) unfolding n_def by presburger
    ultimately show "game_round g = 1" "game_pair g \<le> (n - 1) div 2 + 1" "(game_pair g, white_engine g) \<noteq> ((n - 1) div 2 + 1, ?white)"
      using ne by auto
  qed
  have snoc: "list_games (st\<lparr>games := games st @ [?g], next_game := next_game st + 1\<rparr>) t = ?gs @ [?g]"
  proof (rule list_games_snoc)
    show "(game_round g, game_pair g, game_id g) \<le> (game_round ?g, game_pair ?g, game_id ?g)" if "g \<in> set ?gs" for g
      using new(1,2) [OF that] ids [of g] that by (auto simp: new_game_def less_eq_prod_def)
  qed (simp_all add: new_game_def)
  have "even (length ?gs) = (n mod 2 \<noteq> 0)" unfolding n_def by presburger
  moreover have "n - 1 = int (length ?gs)" by (simp add: n_def)
  ultimately have "in_slot f (game_opening (hd ?gs)) (length ?gs) ?g"
    unfolding in_slot_def new_game_def by (simp only: game_record.simps) simp
  then have "quad_played f (?gs @ [?g])" by (rule quad_played_snoc [OF assms(1,2)])
  moreover have "create_game st t 1 ((n - 1) div 2 + 1) ?white (if n mod 2 \<noteq> 0 then anchor_b f else anchor_a f) None n None
      (game_opening (hd ?gs)) = Inr (st\<lparr>games := games st @ [?g], next_game := next_game st + 1\<rparr>, next_game st)"
    by (rule create_game_new) (use new(3) in auto)
  ultimately show ?thesis using snoc by (intro exI [of _ ?g]) (simp add: new_game_def)
qed

lemma match_decided_ok:
  assumes ok: "event_ok s e k" and "k < 9" and live: "being_played (seed_team s e) (event_contests s e) (event_contests s e ! k)"
    and teams: "ct_teams (event_contests s e ! k) = Some (a, b)" and w: "w \<in> {a, b}"
  shows "\<exists>s'. update_event_contest_state (ct_id (event_contests s e ! k))
      (\<lambda>r. r\<lparr>ct_status := Contest_Completed, ct_result := score, ct_winner := Some w\<rparr>) s = Inr s'
    \<and> b_store s' = b_store s \<and> event_ok s' e (Suc k)"
proof -
  let ?cs = "event_contests s e" and ?h = "\<lambda>r. r\<lparr>ct_status := Contest_Completed, ct_result := score, ct_winner := Some w\<rparr>"
  let ?s' = "s\<lparr>b_contests := map (\<lambda>r. if ct_id r = ct_id (?cs ! k) then ?h r else r) (b_contests s)\<rparr>"
  have tab: "tables_ok s e" and ready: "teams_ready s e" and ord: "in_order (seed_team s e) k ?cs" using ok by (simp_all add: event_ok_def)
  note t = tables_okD [OF tab]
  have len: "length ?cs = 9" using ord entered_nth(1) by (auto simp: in_order_def)
  then have c: "?cs ! k \<in> set (b_contests s)" using assms(2) nth_mem [of k ?cs] by (auto simp: event_contests_def)
  have cs': "event_contests ?s' e = ?cs[k := ?h (?cs ! k)]"
    by (rule event_contests_update [OF t(1)]) (use len assms(2) in simp_all)
  have same: "same_teams s ?s'" by (simp add: same_teams_def)
  have "match_sides (seed_team s e) ?cs (?cs ! k) = (Some a, Some b)" using live teams by (auto simp: being_played_def)
  then have ord': "in_order (seed_team ?s' e) (Suc k) (event_contests ?s' e)"
    unfolding cs' teams_ready_same(2) [OF same] using teams w by (intro in_order_decided [OF ord assms(2)]) auto
  have quads: "quads_of ?s' e = quads_of s e"
    unfolding quads_of_def cs' map_update by (simp flip: map_update)
  have "tables_ok ?s' e"
    unfolding tables_ok_def quads
  proof (intro conjI ballI allI impI)
    have "map ct_id (b_contests ?s') = map ct_id (b_contests s)" by simp
    then show "distinct (map ct_id (b_contests ?s'))" using t(1) by (simp only:)
    fix d i assume d: "d \<in> set (b_contests ?s')" and stage: "ct_stage d = Some i"
    have "\<exists>x \<in> set (b_contests s). ct_stage d = ct_stage x" using d by auto
    then show "i \<in> st_id ` set (b_stages ?s')" using t(2) stage by auto
  qed (use t in \<open>auto simp: quad_ok_def\<close>)
  then have "event_ok ?s' e (Suc k)"
    using ok assms(2) ord' ready teams_ready_same(1) [OF same, of e] by (auto simp: event_ok_def brain_event_of_def)
  then show ?thesis using c by (auto simp: update_event_contest_state_def list_ex_iff)
qed

lemma put_finished_ok: "event_ok s e k \<Longrightarrow> event_ok (s\<lparr>b_store := put_status now t Finished (b_store s)\<rparr>) e k"
  by (rule event_ok_frame)
    (auto simp: same_teams_def list_games_def event_ok_def brain_event_of_def dest: tables_okD(7))

lemma game_added_ok:
  assumes ok: "event_ok s e k" and f: "f \<in> set (b_fixtures s)" "fixture_tournament f = t"
    and "game_id g = next_game (b_store s)" and "game_tournament g = t"
    and played: "quad_played f (list_games ((b_store s)\<lparr>games := games (b_store s) @ [g], next_game := next_game (b_store s) + 1\<rparr>) t)"
  shows "event_ok (s\<lparr>b_store := (b_store s)\<lparr>games := games (b_store s) @ [g], next_game := next_game (b_store s) + 1\<rparr>\<rparr>) e k"
proof (rule event_ok_frame [OF ok])
  let ?st = "(b_store s)\<lparr>games := games (b_store s) @ [g], next_game := next_game (b_store s) + 1\<rparr>"
  have tab: "tables_ok s e" using ok by (simp add: event_ok_def)
  show "quad_played f' (list_games (b_store (s\<lparr>b_store := ?st\<rparr>)) t')"
    if old: "quad_played f' (list_games (b_store s) t')" and f': "f' \<in> set (b_fixtures s)" "fixture_tournament f' = t'" for f' t'
  proof (cases "t' = t")
    case True
    then have "f' = f" using f f' tables_okD(3) [OF tab] by (auto simp: distinct_map inj_on_def)
    then show ?thesis using True played by simp
  next
    case False
    then show ?thesis using old assms(5) list_games_appended(1) [of ?st "b_store s" g t'] by simp
  qed
  show "game_id g' < next_game (b_store (s\<lparr>b_store := ?st\<rparr>)) \<and> game_tournament g' < next_tour s"
    if "g' \<in> set (games (b_store (s\<lparr>b_store := ?st\<rparr>)))" for g'
    using that tables_okD(7) [OF tab, of g'] tables_okD(4) [OF tab f(1)] f(2) assms(4,5) by auto
qed (use ok in \<open>simp_all add: same_teams_def brain_event_of_def event_ok_def\<close>)

lemma quad_of_bracket:
  assumes "event_ok s e k" and "quad_fixture s t = Some f"
  obtains c i where "fixture_event f = e" "f \<in> set (b_fixtures s)" "fixture_tournament f = t" "i < 9" "c = event_contests s e ! i" "t \<in> set (ct_quads c)"
    "List.find (\<lambda>c. t \<in> set (ct_quads c)) (event_contests s e) = Some c" "anchor_a f \<noteq> anchor_b f"
    "quad_played f (list_games (b_store s) t)"
proof -
  have tab: "tables_ok s e" and ready: "teams_ready s e" and ord: "in_order (seed_team s e) k (event_contests s e)"
    using assms(1) by (simp_all add: event_ok_def)
  have len: "length (event_contests s e) = 9" using ord entered_nth(1) by (auto simp: in_order_def)
  have f: "f \<in> set (b_fixtures s)" "fixture_tournament f = t" "\<exists>event. brain_event_of s (fixture_event f) = Some event \<and> be_handler event = MODULE_KEY"
    using assms(2) unfolding quad_fixture_def by (auto split: option.splits if_splits dest: find_Some_iff_in)
  then obtain event where "event \<in> set (b_events s)" "be_id event = fixture_event f" "be_handler event = MODULE_KEY"
    unfolding brain_event_of_def by (metis (mono_tags) find_Some_iff_in)
  then have e: "fixture_event f = e" using ready unfolding teams_ready_def by metis
  then have "t \<in> set (quads_of s e)" using tables_okD(5) [OF tab] f by auto
  moreover from this obtain f' where f': "f' \<in> set (b_fixtures s)" "fixture_tournament f' = t" "anchor_a f' \<noteq> anchor_b f'"
      "quad_played f' (list_games (b_store s) t)" using tables_okD(8) [OF tab] unfolding quad_ok_def by blast
  have "f' = f" using tables_okD(3) [OF tab] f f' by (auto simp: distinct_map inj_on_def)
  ultimately obtain c where find: "List.find (\<lambda>c. t \<in> set (ct_quads c)) (event_contests s e) = Some c"
    using find_ex [of "\<lambda>c. t \<in> set (ct_quads c)" "event_contests s e"] by (auto simp: quads_of_def)
  then obtain i where "i < 9" "c = event_contests s e ! i" "t \<in> set (ct_quads c)"
    using find_Some_iff_in [OF find] len by (metis in_set_conv_nth)
  then show thesis using that e f(1,2) find f'(3,4) \<open>f' = f\<close> by blast
qed

lemma live_match:
  assumes "in_order team k cs" and "i < 9" and "ct_quads (cs ! i) \<noteq> []" and "ct_status (cs ! i) \<noteq> Contest_Completed"
  shows "i = k \<and> being_played team cs (cs ! k)"
proof -
  have "\<not> i < k" using assms(1,4) by (auto simp: in_order_def decided_def)
  moreover have "\<not> k < i" using assms(1-3) by (auto simp: in_order_def untouched_def)
  ultimately show ?thesis using assms by (auto simp: in_order_def untouched_def)
qed

lemma advance_ok:
  assumes ok: "event_ok s e k"
  shows "\<exists>s' a k'. advance_hand_brain now s t = Inr (s', a) \<and> event_ok s' e k' \<and> k \<le> k'"
proof (cases "quad_fixture s t")
  case (Some f)
  obtain c i where q: "fixture_event f = e" "f \<in> set (b_fixtures s)" "fixture_tournament f = t" "i < 9" "c = event_contests s e ! i"
      "t \<in> set (ct_quads c)" "List.find (\<lambda>c. t \<in> set (ct_quads c)) (event_contests s e) = Some c" "anchor_a f \<noteq> anchor_b f"
      "quad_played f (list_games (b_store s) t)" by (rule quad_of_bracket [OF ok Some]) blast
  let ?gs = "list_games (b_store s) t"
  note step = advance_hand_brain_def Some q(1,7) Let_def option.case advanced_def
  show ?thesis
  proof (cases "ct_status c = Contest_Completed \<or> last (ct_quads c) \<noteq> t \<or> ?gs = [] \<or> list_ex (\<lambda>g. game_status g \<noteq> Game_Finished) ?gs")
    case True
    then show ?thesis using ok unfolding step by auto
  next
    case False
    have "ct_quads (event_contests s e ! i) \<noteq> []" using q(5,6) by auto
    then have "i = k" and live: "being_played (seed_team s e) (event_contests s e) (event_contests s e ! k)"
      using live_match [of "seed_team s e" k "event_contests s e" i] ok q(4,5,6) False by (auto simp: event_ok_def)
    then have k: "k < 9" "c = event_contests s e ! k" using q(4,5) by auto
    obtain a b where teams: "ct_teams c = Some (a, b)" using live k(2) by (auto simp: being_played_def)
    let ?score = "quad_score ?gs (anchor_a f)"
    have fin: "game_status g = Game_Finished \<and> game_result g \<noteq> None" if g: "g \<in> set ?gs" for g
    proof -
      obtain i where "i < length ?gs" "?gs ! i = g" using g unfolding in_set_conv_nth by blast
      then have "in_slot f (game_opening (hd ?gs)) i g" using q(9) unfolding quad_played_def by blast
      moreover have "game_status g = Game_Finished" using False g unfolding list_ex_iff by blast
      ultimately show ?thesis unfolding in_slot_def by blast
    qed
    then have sum: "fst ?score + snd ?score = 2 * int (length ?gs)"
      using quad_score_total [of ?gs "anchor_a f" "(0, 0)"] by (simp add: quad_score_def)
    note put = put_finished_ok [of _ e _ now t]
    have "\<not> (ct_status c = Contest_Completed \<or> last (ct_quads c) \<noteq> t)"
      "\<not> (?gs = [] \<or> list_ex (\<lambda>g. game_status g \<noteq> Game_Finished) ?gs)" using False by blast+
    note go = if_not_P [OF this(1)] if_not_P [OF this(2)]
    consider (won) "4 < max (fst ?score) (snd ?score)" | (tied) "\<not> 4 < max (fst ?score) (snd ?score)" "length ?gs = 4"
      | (more) "\<not> 4 < max (fst ?score) (snd ?score)" "length ?gs \<noteq> 4" by blast
    then show ?thesis
    proof cases
      case won
      let ?w = "if snd ?score < fst ?score then a else b"
      have w: "?w \<in> {a, b}" by simp
      obtain s1 where s1: "update_event_contest_state (ct_id c) (\<lambda>r. r\<lparr>ct_status := Contest_Completed, ct_result := Some ?score, ct_winner := Some ?w\<rparr>) s = Inr s1"
          "event_ok s1 e (Suc k)"
        using match_decided_ok [OF ok k(1) live teams [unfolded k(2)] w, of "Some ?score"] unfolding k(2) by blast
      obtain s2 u where s2: "start_next_match now (s1\<lparr>b_store := put_status now t Finished (b_store s1)\<rparr>) e = Inr (s2, u)" "event_ok s2 e (Suc k)"
        using start_next_ok [OF put [OF s1(2)]] by blast
      have "advance_hand_brain now s t = Inr (s2, Some \<lparr>created_games = 0, complete = True\<rparr>)"
        unfolding step go if_P [OF won] teams fst_conv snd_conv s1(1) rbind_Inr s2(1) by simp
      then show ?thesis using s2(2) by (meson le_SucI order_refl)
    next
      case tied
      then have tie: "?score = (4, 4)" using sum by (intro prod_eqI) auto
      obtain event where event: "brain_event_of s e = Some event" using ok by (auto simp: event_ok_def teams_ready_def)
      then obtain s1 u where s1: "create_quad now (s\<lparr>b_store := put_status now t Finished (b_store s)\<rparr>) event c = Inr (s1, u)" "event_ok s1 e k"
        using another_quad_ok [OF put [OF ok] k(1), of event now] k(2) by (auto simp: brain_event_of_def event_contests_def)
      have "advance_hand_brain now s t = Inr (s1, Some \<lparr>created_games = 0, complete = True\<rparr>)"
        unfolding step go if_not_P [OF tied(1)] if_P [OF tied(2)] event rbind_Inr s1(1) using tie by simp
      then show ?thesis using s1(2) by (meson order_refl)
    next
      case more
      then have "length ?gs < 4" using q(9) by (auto simp: quad_played_def)
      have ids: "game_id g < next_game (b_store s)" if "g \<in> set (games (b_store s))" for g
        using that tables_okD(7) ok unfolding event_ok_def by blast
      obtain g where g: "next_quad_game s f t ?gs = advanced 1 False (s\<lparr>b_store := (b_store s)\<lparr>games := games (b_store s) @ [g],
          next_game := next_game (b_store s) + 1\<rparr>\<rparr>)" "game_id g = next_game (b_store s)" "game_tournament g = t"
          "quad_played f (list_games ((b_store s)\<lparr>games := games (b_store s) @ [g], next_game := next_game (b_store s) + 1\<rparr>) t)"
        using next_game_ok [OF q(9) \<open>length ?gs < 4\<close> q(8) ids] unfolding next_quad_game_def Let_def by auto
      have "event_ok (s\<lparr>b_store := (b_store s)\<lparr>games := games (b_store s) @ [g], next_game := next_game (b_store s) + 1\<rparr>\<rparr>) e k"
        by (rule game_added_ok [OF ok q(2,3) g(2-4)])
      moreover have "advance_hand_brain now s t = next_quad_game s f t ?gs"
        unfolding step go if_not_P [OF more(1)] if_not_P [OF more(2)] ..
      ultimately show ?thesis unfolding g(1) advanced_def by (meson order_refl)
    qed
  qed
next
  case None
  then show ?thesis using ok by (auto simp: advance_hand_brain_def)
qed

end
