(* ===== verification/Bracket_Runs.thy ===== *)
theory Bracket_Runs
  imports Bracket_Steps
begin

text \<open>
  A hand-and-brain event from its prepared bracket to its champion, as a transition system: matches
  are started, games are played, finished games advance their quad.  Whatever the results, no step
  ever raises, the matches are played in the order of the bracket, and the winner of each of them is
  one of its two teams.
\<close>

subsection \<open>Runs\<close>

text \<open>A game that is not finished may be assigned, played, freed or abandoned; a finished game has a result.\<close>

definition play_game :: "int \<Rightarrow> game_status \<Rightarrow> game_outcome option \<Rightarrow> brain \<Rightarrow> brain" where
  "play_game i st r s = s\<lparr>b_store := (b_store s)\<lparr>games := map (\<lambda>g. if game_id g = i \<and> game_status g \<noteq> Game_Finished
     then g\<lparr>game_status := st, game_result := r\<rparr> else g) (games (b_store s))\<rparr>\<rparr>"

inductive bracket_step :: "int \<Rightarrow> brain \<Rightarrow> brain \<Rightarrow> bool" for e where
  start_step: "start_next_match now s e = Inr (s', t) \<Longrightarrow> bracket_step e s s'"
| advance_step: "advance_hand_brain now s t = Inr (s', a) \<Longrightarrow> bracket_step e s s'"
| play_step: "st \<noteq> Game_Finished \<or> r \<noteq> None \<Longrightarrow> bracket_step e s (play_game i st r s)"

inductive bracket_run :: "int \<Rightarrow> brain \<Rightarrow> brain \<Rightarrow> bool" for e s where
  bracket_start: "bracket_run e s s"
| bracket_more: "bracket_run e s s' \<Longrightarrow> bracket_step e s' s'' \<Longrightarrow> bracket_run e s s''"

definition prepared :: "brain \<Rightarrow> int \<Rightarrow> bool" where
  "prepared s e = (teams_ready s e \<and> entered (event_contests s e) \<and> (\<forall>c \<in> set (event_contests s e). untouched c)
     \<and> distinct (map ct_id (b_contests s)) \<and> (\<forall>c \<in> set (b_contests s). \<forall>i. ct_stage c = Some i \<longrightarrow> i \<in> st_id ` set (b_stages s))
     \<and> distinct (map fixture_tournament (b_fixtures s))
     \<and> (\<forall>f \<in> set (b_fixtures s). fixture_event f \<noteq> e \<and> fixture_tournament f < next_tour s \<and> 0 \<le> fixture_position f)
     \<and> (\<forall>g \<in> set (games (b_store s)). game_id g < next_game (b_store s) \<and> game_tournament g < next_tour s)
     \<and> (\<forall>event \<in> set (b_events s). be_status event \<noteq> Ev_Completed))"

lemma prepared_ok: "prepared s e \<Longrightarrow> event_ok s e 0"
proof -
  assume p: "prepared s e"
  then have "quads_of s e = []" by (simp add: prepared_def quads_of_def untouched_def)
  moreover have "in_order (seed_team s e) 0 (event_contests s e)"
    using p entered_nth(1) [of "event_contests s e"] by (auto simp: prepared_def in_order_def)
  ultimately show ?thesis using p
    by (auto simp: prepared_def event_ok_def tables_ok_def brain_event_of_def dest: find_Some_iff_in)
qed

lemma list_games_map:
  assumes "\<And>g. game_round (h g) = game_round g \<and> game_pair (h g) = game_pair g \<and> game_id (h g) = game_id g
    \<and> game_tournament (h g) = game_tournament g"
  shows "list_games (st\<lparr>games := map h (games st)\<rparr>) t = map h (list_games st t)"
proof -
  have "filter (\<lambda>g. game_tournament g = t) (map h gs) = map h (filter (\<lambda>g. game_tournament g = t) gs)" for gs
    by (simp add: filter_map o_def assms)
  then show ?thesis using sort_key_map [of "\<lambda>g. (game_round g, game_pair g, game_id g)" h] assms by (simp add: list_games_def)
qed

lemma play_game_keeps:
  assumes ok: "event_ok s e k" and "st \<noteq> Game_Finished \<or> r \<noteq> None"
  shows "event_ok (play_game i st r s) e k"
proof (rule event_ok_frame [OF ok])
  define h :: "game_record \<Rightarrow> game_record" where "h = (\<lambda>g. if game_id g = i \<and> game_status g \<noteq> Game_Finished then g\<lparr>game_status := st, game_result := r\<rparr> else g)"
  have lists: "list_games (b_store (play_game i st r s)) t = map h (list_games (b_store s) t)" for t
    unfolding play_game_def h_def [symmetric] by (simp, rule list_games_map) (simp add: h_def)
  have slot: "in_slot f op j g \<Longrightarrow> in_slot f op j (h g)" for f op j g using assms(2) by (auto simp: in_slot_def h_def)
  show "quad_played f (list_games (b_store (play_game i st r s)) t)" if q: "quad_played f (list_games (b_store s) t)" for t f
  proof -
    have "game_opening (h g) = game_opening g" for g by (simp add: h_def)
    then have "game_opening (hd (map h (list_games (b_store s) t))) = game_opening (hd (list_games (b_store s) t))"
      using q by (cases "list_games (b_store s) t") (auto simp: quad_played_def)
    then show ?thesis using q slot unfolding lists quad_played_def by simp
  qed
  show "game_id g < next_game (b_store (play_game i st r s)) \<and> game_tournament g < next_tour s"
    if "g \<in> set (games (b_store (play_game i st r s)))" for g
    using that tables_okD(7) [of s e] ok by (auto simp: play_game_def event_ok_def)
qed (use ok in \<open>simp_all add: same_teams_def play_game_def brain_event_of_def event_ok_def\<close>)

lemma run_ok: "bracket_run e s s' \<Longrightarrow> event_ok s e k \<Longrightarrow> \<exists>k'. event_ok s' e k'"
proof (induction rule: bracket_run.induct)
  case (bracket_more s' s'')
  then obtain k' where ok: "event_ok s' e k'" by blast
  show ?case using bracket_more.hyps(2)
  proof cases
    case (start_step now t)
    then show ?thesis using start_next_ok [OF ok, of now] by auto
  next
    case (advance_step now t a)
    then show ?thesis using advance_ok [OF ok, of now t] by auto
  next
    case (play_step st r i)
    then show ?thesis using play_game_keeps [OF ok] by blast
  qed
qed blast

text \<open>
  C38: Hand-and-brain events never get stuck on an exception.  From a prepared bracket with ten ready
  teams, whatever the results of the games, starting the next match and advancing any tournament
  always succeed, and a quad never has more than four games.
\<close>

theorem bracket_never_fails:
  assumes "prepared s e" and "bracket_run e s s'"
  shows "is_ok (start_next_match now s' e) \<and> is_ok (advance_hand_brain now s' t)
    \<and> list_all (\<lambda>q. length (list_games (b_store s') q) \<le> 4) (quads_of s' e)"
proof -
  obtain k where ok: "event_ok s' e k" using run_ok [OF assms(2) prepared_ok [OF assms(1)]] by blast
  have "length (list_games (b_store s') q) \<le> 4" if "q \<in> set (quads_of s' e)" for q
    using that tables_okD(8) [of s' e] ok by (auto simp: event_ok_def quad_ok_def quad_played_def)
  then show ?thesis using start_next_ok [OF ok, of now] advance_ok [OF ok, of now t] by (auto simp: is_ok_iff list_all_iff)
qed

text \<open>
  C39: The bracket is played in its order.  In every state of an event the first matches of the
  bracket are decided and at most the next one is being played; each decided match was won by one of
  its two different teams; and the event is over only when all nine matches are decided.
\<close>

theorem bracket_in_order:
  assumes "prepared s e" and "bracket_run e s s'"
  shows "\<exists>k \<le> 9. length (event_contests s' e) = 9
    \<and> list_all (\<lambda>c. ct_status c = Contest_Completed \<and> (\<exists>a b. a \<noteq> b \<and> resolve_teams s' e c = (Some a, Some b) \<and> ct_winner c \<in> {Some a, Some b}))
        (take k (event_contests s' e))
    \<and> list_all untouched (drop (k + 1) (event_contests s' e))
    \<and> (k < 9 \<longrightarrow> ct_status (event_contests s' e ! k) \<in> {Contest_Pending, Contest_Live} \<and> ct_winner (event_contests s' e ! k) = None)
    \<and> (map_option be_status (brain_event_of s' e) = Some Ev_Completed \<longrightarrow> k = 9)"
proof -
  let ?cs = "event_contests s' e"
  obtain k where ok: "event_ok s' e k" using run_ok [OF assms(2) prepared_ok [OF assms(1)]] by blast
  then have ord: "in_order (seed_team s' e) k ?cs" and ready: "teams_ready s' e" by (simp_all add: event_ok_def)
  then have k: "k \<le> 9" and ent: "entered ?cs" by (auto simp: in_order_def)
  have len: "length ?cs = 9" by (rule entered_nth(1) [OF ent])
  have "ct_status c = Contest_Completed \<and> (\<exists>a b. a \<noteq> b \<and> resolve_teams s' e c = (Some a, Some b) \<and> ct_winner c \<in> {Some a, Some b})"
    if c: "c \<in> set (take k ?cs)" for c
  proof -
    obtain i where i: "i < k" "c = ?cs ! i" "i < 9" using c k len by (auto simp: in_set_conv_nth)
    have dec: "decided (seed_team s' e) ?cs c" using ord i by (simp add: in_order_def)
    obtain n m where nm: "n \<noteq> m" "{n, m} \<subseteq> {1..10}" "match_sides (seed_team s' e) ?cs c = (Some (seed_team s' e n), Some (seed_team s' e m))"
      using sides_resolved [OF ent, of k "seed_team s' e" i] ord i by (auto simp: in_order_def)
    have "resolve_teams s' e c = (Some (seed_team s' e n), Some (seed_team s' e m))"
      using resolve_sides [OF ready ent i(3)] nm(3) i(2) by simp
    moreover have "seed_team s' e n \<noteq> seed_team s' e m" by (rule roster_pair(8) [OF ready nm(2,1)])
    ultimately show ?thesis using dec nm(3) by (auto simp: decided_def)
  qed
  moreover have "untouched c" if "c \<in> set (drop (k + 1) ?cs)" for c
    using that ord len by (auto simp: in_set_conv_nth in_order_def)
  ultimately show ?thesis using ok ord k len
    by (intro exI [of _ k]) (auto simp: list_all_iff in_order_def untouched_def being_played_def event_ok_def)
qed

subsection \<open>The bracket that is set up\<close>

lemma created_matches:
  assumes "fold_result (create_match e stages) s (enumerate n entries) = Inr s'"
    and "\<And>c. c \<in> set (b_contests s) \<Longrightarrow> ct_event c = e \<Longrightarrow> ct_position c < int n"
    and "\<And>c. c \<in> set (b_contests s) \<Longrightarrow> ct_id c < next_contest s" and "distinct (map ct_id (b_contests s))"
  shows "\<exists>new. b_contests s' = b_contests s @ new \<and> list_all (\<lambda>c. ct_event c = e) new \<and> map ct_title new = map fst entries
    \<and> map ct_sources new = map (snd \<circ> snd) entries \<and> map ct_position new = map int [n..<n + length entries] \<and> list_all untouched new
    \<and> (\<forall>c \<in> set new. \<forall>i. ct_stage c = Some i \<longrightarrow> i \<in> st_id ` set (b_stages s)) \<and> distinct (map ct_id (b_contests s'))
    \<and> s' = s\<lparr>b_contests := b_contests s', next_contest := next_contest s'\<rparr>"
  using assms
proof (induction entries arbitrary: n s)
  case (Cons entry entries)
  obtain key stage sources where entry: "entry = (key, stage, sources)" by (metis prod_cases3)
  obtain s1 where s1: "create_match e stages s (n, entry) = Inr s1" "fold_result (create_match e stages) s1 (enumerate (Suc n) entries) = Inr s'"
    using Cons.prems(1) by (auto simp: rbind_eq_Inr)
  let ?c = "\<lparr>ct_id = next_contest s, ct_event = e, ct_key = lower key, ct_title = key, ct_summary = stage, ct_stage = stages stage,
     ct_position = int n, ct_status = Contest_Pending, ct_result = None, ct_sources = sources, ct_teams = None, ct_quads = [], ct_winner = None\<rparr>"
  have c: "s1 = s\<lparr>b_contests := b_contests s @ [?c], next_contest := next_contest s + 1\<rparr>"
      "stages stage = Some i \<Longrightarrow> i \<in> st_id ` set (b_stages s)" for i
    using s1(1) by (auto simp: entry create_match_def create_event_contest_def rbind_eq_Inr list_ex_iff split: if_splits)
  have "\<exists>new. b_contests s' = b_contests s1 @ new \<and> list_all (\<lambda>c. ct_event c = e) new \<and> map ct_title new = map fst entries
    \<and> map ct_sources new = map (snd \<circ> snd) entries \<and> map ct_position new = map int [Suc n..<Suc n + length entries] \<and> list_all untouched new
    \<and> (\<forall>c \<in> set new. \<forall>i. ct_stage c = Some i \<longrightarrow> i \<in> st_id ` set (b_stages s1)) \<and> distinct (map ct_id (b_contests s'))
    \<and> s' = s1\<lparr>b_contests := b_contests s', next_contest := next_contest s'\<rparr>"
  proof (rule Cons.IH [OF s1(2)])
    have old: "d \<in> set (b_contests s) \<or> ct_position d = int n \<and> ct_id d = next_contest s" if "d \<in> set (b_contests s1)" for d
    proof (cases "d \<in> set (b_contests s)")
      case False
      then have "d = ?c" using that by (simp add: c(1))
      then show ?thesis by simp
    qed simp
    show "ct_position d < int (Suc n)" if "d \<in> set (b_contests s1)" "ct_event d = e" for d
      using old [OF that(1)] Cons.prems(2) [of d] that(2) by auto
    show "ct_id d < next_contest s1" if "d \<in> set (b_contests s1)" for d
      using old [OF that] Cons.prems(3) [of d] by (auto simp: c(1))
    have "next_contest s \<notin> ct_id ` set (b_contests s)" using Cons.prems(3) by force
    then show "distinct (map ct_id (b_contests s1))" using Cons.prems(4) by (simp add: c(1))
  qed
  then obtain new where new: "b_contests s' = b_contests s1 @ new" "list_all (\<lambda>c. ct_event c = e) new" "map ct_title new = map fst entries"
    "map ct_sources new = map (snd \<circ> snd) entries" "map ct_position new = map int [Suc n..<Suc n + length entries]" "list_all untouched new"
    "\<forall>c \<in> set new. \<forall>i. ct_stage c = Some i \<longrightarrow> i \<in> st_id ` set (b_stages s1)" "distinct (map ct_id (b_contests s'))"
    "s' = s1\<lparr>b_contests := b_contests s', next_contest := next_contest s'\<rparr>" by blast
  have "[n..<n + length (entry # entries)] = n # [Suc n..<Suc n + length entries]" by (subst upt_conv_Cons) simp_all
  moreover have "untouched ?c" by (simp add: untouched_def)
  ultimately show ?case using new c by (intro exI [of _ "?c # new"]) (simp add: entry del: upt_Suc)
qed auto

lemma stages_only: "fold_result (ensure_stage e) (s, m) entries = Inr (s', m')
    \<Longrightarrow> s' = s\<lparr>b_stages := b_stages s', next_stage := next_stage s'\<rparr> \<and> st_id ` set (b_stages s) \<subseteq> st_id ` set (b_stages s')"
proof (induction entries arbitrary: s m)
  case (Cons entry entries)
  obtain s1 m1 where s1: "ensure_stage e (s, m) entry = Inr (s1, m1)" "fold_result (ensure_stage e) (s1, m1) entries = Inr (s', m')"
    using Cons.prems by (auto simp: rbind_eq_Inr)
  have step: "s1 = s\<lparr>b_stages := b_stages s1, next_stage := next_stage s1\<rparr> \<and> st_id ` set (b_stages s) \<subseteq> st_id ` set (b_stages s1)"
    using s1(1) by (auto simp: ensure_stage_def create_event_stage_def rbind_eq_Inr split: prod.splits if_splits)
  have "s' = s1\<lparr>b_stages := b_stages s', next_stage := next_stage s'\<rparr>" using Cons.IH [OF s1(2)] by blast
  also have "\<dots> = s\<lparr>b_stages := b_stages s', next_stage := next_stage s'\<rparr>" by (subst step [THEN conjunct1]) simp
  finally show ?case using Cons.IH [OF s1(2)] step by blast
qed simp

lemma teams_only: "fold_result (create_default_team e) s entries = Inr s'
    \<Longrightarrow> b_contests s' = b_contests s \<and> next_contest s' = next_contest s \<and> b_stages s' = b_stages s"
proof (induction entries arbitrary: s)
  case (Cons entry entries)
  obtain s1 where s1: "create_default_team e s entry = Inr s1" "fold_result (create_default_team e) s1 entries = Inr s'"
    using Cons.prems by (auto simp: rbind_eq_Inr)
  have "b_contests s1 = b_contests s \<and> next_contest s1 = next_contest s \<and> b_stages s1 = b_stages s"
    using s1(1) by (auto simp: create_default_team_def create_event_cast_member_def rbind_eq_Inr Let_def split: prod.splits if_splits)
  then show ?case using Cons.IH [OF s1(2)] by auto
qed simp

lemma bracket_set_up:
  assumes "initialize_bracket s e = Inr s'" and "event_contests s e = []" and "distinct (map ct_id (b_contests s))"
    and "\<And>c. c \<in> set (b_contests s) \<Longrightarrow> ct_id c < next_contest s \<and> (\<forall>i. ct_stage c = Some i \<longrightarrow> i \<in> st_id ` set (b_stages s))"
  shows "entered (event_contests s' e) \<and> (\<forall>c \<in> set (event_contests s' e). untouched c) \<and> distinct (map ct_id (b_contests s'))
    \<and> (\<forall>c \<in> set (b_contests s'). \<forall>i. ct_stage c = Some i \<longrightarrow> i \<in> st_id ` set (b_stages s'))"
proof -
  obtain s1 m s2 where s1: "fold_result (ensure_stage e) (s, map_of (rev (map (\<lambda>r. (st_title r, st_id r)) (event_stages s e)))) (enumerate 0 stage_titles) = Inr (s1, m)"
      and s2: "s2 = s1 \<or> fold_result (create_default_team e) s1 (enumerate 1 DEFAULT_TEAMS) = Inr s2"
      and s': "fold_result (create_match e m) s2 (enumerate 0 BRACKET) = Inr s'"
    using assms(1,2) unfolding initialize_bracket_def by (auto simp: rbind_eq_Inr Let_def split: option.splits if_splits)
  have "b_contests s1 = b_contests s" "next_contest s1 = next_contest s" by (subst stages_only [OF s1, THEN conjunct1], simp)+
  then have same: "b_contests s2 = b_contests s" "next_contest s2 = next_contest s" "st_id ` set (b_stages s) \<subseteq> st_id ` set (b_stages s2)"
    using stages_only [OF s1] s2 teams_only by auto
  have none: "ct_event c \<noteq> e" if "c \<in> set (b_contests s)" for c
  proof -
    have "set (event_contests s e) = {c \<in> set (b_contests s). ct_event c = e}" by (simp add: event_contests_def)
    then show ?thesis using that assms(2) by auto
  qed
  obtain new where new: "b_contests s' = b_contests s2 @ new" "list_all (\<lambda>c. ct_event c = e) new" "map ct_title new = map fst BRACKET"
    "map ct_sources new = map (snd \<circ> snd) BRACKET" "map ct_position new = map int [0..<0 + length BRACKET]" "list_all untouched new"
    "\<forall>c \<in> set new. \<forall>i. ct_stage c = Some i \<longrightarrow> i \<in> st_id ` set (b_stages s2)" "distinct (map ct_id (b_contests s'))"
    "s' = s2\<lparr>b_contests := b_contests s', next_contest := next_contest s'\<rparr>"
    using created_matches [OF s'] same none assms(3,4) by auto
  have "filter (\<lambda>c. ct_event c = e) (b_contests s') = new"
    using new(1,2) same(1) none by (simp add: filter_empty_conv list_all_iff)
  moreover have "sorted (map (\<lambda>c. (ct_position c, ct_id c)) new)"
  proof -
    have "sorted_wrt (<) (map ct_position new)" unfolding new(5) by (simp add: sorted_wrt_map)
    then show ?thesis unfolding sorted_wrt_map by (rule sorted_wrt_mono_rel [rotated]) (auto simp: less_eq_prod_def)
  qed
  ultimately have cs: "event_contests s' e = new" by (simp add: event_contests_def sort_key_sorted)
  have "b_stages s' = b_stages s2" by (subst new(9)) simp
  then show ?thesis unfolding cs entered_def using new(1,3,4,6,7,8) same(1,3) assms(4) by (auto simp: list_all_iff)
qed

text \<open>An event with ten teams whose engines are ready, and a book with one opening.\<close>

definition trial_member :: "int \<Rightarrow> int \<Rightarrow> brain_member" where
  "trial_member n i = (team_row 1 n [])\<lparr>cast_id := 3 * n + i, cast_kind := (if i = 0 then Cast_Team else Cast_Engine),
     cast_parent := (if i = 0 then None else Some (3 * n)), cast_engine := (if i = 0 then None else Some (3 * n + i)),
     cast_position := 3 * n + i, meta_seed := Some n, member_key := [], searchmoves_confirmed := True\<rparr>"

definition trial_cast :: "brain_member list" where
  "trial_cast = concat (map (\<lambda>n. [trial_member n 0, trial_member n 1, trial_member n 2]) [1..10])"

definition trial_suite :: suite_row where
  "trial_suite = \<lparr>suite_id = 4, suite_name = ''Lichess UHO'', suite_variant = ''standard'', suite_revision = ''chess1''\<rparr>"

definition trial_brain :: "store \<Rightarrow> brain" where
  "trial_brain st = \<lparr>b_store = st, b_events = [\<lparr>be_id = 1, be_handler = MODULE_KEY, be_status = Ev_Scheduled, be_initial_ms = None,
       be_increment_ms = None, be_auto_start = True, be_scheduled_start = Some 0\<rparr>],
     b_stages = [], b_contests = [], b_cast = trial_cast, b_fixtures = [], b_teams = [], b_suites = [trial_suite], b_engines = [],
     next_tour = 1, next_fixture = 1, next_stage = 1, next_contest = 1, next_cast = 40\<rparr>"

definition trial_book :: store where
  "trial_book = (sample_store (sample_tournament ROUND_ROBIN (RoundRobinFormatOptions 1) []))\<lparr>tournaments := [],
     openings := [\<lparr>opening_id = 7, opening_suite = 4, opening_position = 1\<rparr>]\<rparr>"

lemma trial_teams:
  "list_all (\<lambda>n. resolve_source (trial_brain st) 1 (From_Seed n) = Some (3 * n)
     \<and> map cast_id (team_roster (trial_brain st) 1 (3 * n)) = [3 * n + 1, 3 * n + 2]) [1..10]"
  by code_simp

lemma trial_engines_ready: "list_all (\<lambda>m. cast_kind m \<noteq> Cast_Engine \<or> ready m \<and> build_of m = cast_id m \<and> 0 < cast_id m) trial_cast"
  by code_simp

lemma trial_rosters:
  assumes "n \<in> {1..10}"
  shows "seed_team (trial_brain st) 1 n = 3 * n" "length (team_roster (trial_brain st) 1 (3 * n)) = 2"
    "map build_of (team_roster (trial_brain st) 1 (3 * n)) = [3 * n + 1, 3 * n + 2]"
    "m \<in> set (team_roster (trial_brain st) 1 (3 * n)) \<Longrightarrow> ready m \<and> 0 < build_of m"
proof -
  have n: "n \<in> set [1..10]" using assms by simp
  have r: "resolve_source (trial_brain st) 1 (From_Seed n) = Some (3 * n)"
    "map cast_id (team_roster (trial_brain st) 1 (3 * n)) = [3 * n + 1, 3 * n + 2]"
    using trial_teams [of st] n unfolding list_all_iff by blast+
  show "seed_team (trial_brain st) 1 n = 3 * n" using r(1) by (simp add: seed_team_def)
  have m: "ready m \<and> build_of m = cast_id m \<and> 0 < cast_id m" if "m \<in> set (team_roster (trial_brain st) 1 (3 * n))" for m
  proof -
    have "m \<in> set trial_cast" "cast_kind m = Cast_Engine" using that by (auto simp: team_roster_def event_cast_def trial_brain_def)
    then show ?thesis using trial_engines_ready unfolding list_all_iff by blast
  qed
  then show "ready m \<and> 0 < build_of m" if "m \<in> set (team_roster (trial_brain st) 1 (3 * n))" using that by simp
  have "map build_of (team_roster (trial_brain st) 1 (3 * n)) = map cast_id (team_roster (trial_brain st) 1 (3 * n))" using m by simp
  then show "map build_of (team_roster (trial_brain st) 1 (3 * n)) = [3 * n + 1, 3 * n + 2]" using r(2) by simp
  then show "length (team_roster (trial_brain st) 1 (3 * n)) = 2" by (metis length_Cons length_map list.size(3) numeral_2_eq_2)
qed

lemma trial_teams_ready: "teams_ready (trial_brain trial_book) 1"
proof -
  let ?s = "trial_brain trial_book"
  have book: "uho_suite ?s = Inr trial_suite" by (simp add: uho_suite_def trial_brain_def trial_suite_def or_error_def) code_simp
  have pair: "distinct (map build_of (team_roster ?s 1 (seed_team ?s 1 n) @ team_roster ?s 1 (seed_team ?s 1 m)))"
    if "n \<in> {1..10}" "m \<in> {1..10}" "n \<noteq> m" for n m
    unfolding map_append trial_rosters(1) [OF that(1)] trial_rosters(1) [OF that(2)] trial_rosters(3) [OF that(1)] trial_rosters(3) [OF that(2)]
    using that by simp
  have "resolve_source ?s 1 (From_Seed n) \<noteq> None" if "n \<in> {1..10}" for n
    using trial_teams [of trial_book] that unfolding list_all_iff set_upto by (metis option.distinct(1))
  then show ?thesis unfolding teams_ready_def using book pair trial_rosters(1,2,4)
    by (auto simp: brain_event_of_def trial_suite_def) (auto simp: trial_brain_def trial_suite_def trial_book_def)
qed

lemma trial_set_up: "is_ok (initialize_bracket (trial_brain st) 1)"
  by code_simp

lemma initialize_frame:
  assumes "initialize_bracket s e = Inr s'" and "event_contests s e = []" and "distinct (map ct_id (b_contests s))"
    and "\<And>c. c \<in> set (b_contests s) \<Longrightarrow> ct_id c < next_contest s"
    and teams: "\<exists>m \<in> set (b_cast s). cast_event m = e \<and> cast_kind m = Cast_Team \<and> cast_parent m = None"
  shows "\<exists>stages n contests k. s' = s\<lparr>b_stages := stages, next_stage := n, b_contests := contests, next_contest := k\<rparr>"
proof -
  obtain s1 m where s1: "fold_result (ensure_stage e) (s, map_of (rev (map (\<lambda>r. (st_title r, st_id r)) (event_stages s e)))) (enumerate 0 stage_titles) = Inr (s1, m)"
      and s': "fold_result (create_match e m) (if filter (\<lambda>m. cast_kind m = Cast_Team \<and> cast_parent m = None) (event_cast s1 e) = [] then s' else s1)
        (enumerate 0 BRACKET) = Inr s' \<or> filter (\<lambda>m. cast_kind m = Cast_Team \<and> cast_parent m = None) (event_cast s1 e) = []"
    using assms(1,2) unfolding initialize_bracket_def by (auto simp: rbind_eq_Inr Let_def split: option.splits if_splits)
  note st = stages_only [OF s1, THEN conjunct1]
  have "b_cast s1 = b_cast s" "b_contests s1 = b_contests s" "next_contest s1 = next_contest s" by (subst st, simp)+
  moreover from this have "filter (\<lambda>m. cast_kind m = Cast_Team \<and> cast_parent m = None) (event_cast s1 e) \<noteq> []"
    using teams by (auto simp: event_cast_def filter_empty_conv)
  moreover have "ct_event c \<noteq> e" if "c \<in> set (b_contests s)" for c
  proof -
    have "set (event_contests s e) = {c \<in> set (b_contests s). ct_event c = e}" by (simp add: event_contests_def)
    then show ?thesis using that assms(2) by auto
  qed
  ultimately have "s' = s1\<lparr>b_contests := b_contests s', next_contest := next_contest s'\<rparr>"
    using created_matches [of e m s1 0 BRACKET s'] s' assms(3,4) by auto
  also have "\<dots> = s\<lparr>b_stages := b_stages s1, next_stage := next_stage s1, b_contests := b_contests s', next_contest := next_contest s'\<rparr>"
    by (subst st) simp
  finally show ?thesis by blast
qed

lemma trial_prepared:
  assumes "initialize_bracket (trial_brain trial_book) 1 = Inr s'"
  shows "prepared s' 1"
proof -
  let ?s = "trial_brain trial_book"
  have none: "event_contests ?s 1 = []" "b_contests ?s = []" by (simp_all add: event_contests_def trial_brain_def)
  have "trial_member 1 0 \<in> set (b_cast ?s)" by (simp add: trial_brain_def trial_cast_def upto.simps)
  then have "\<exists>m \<in> set (b_cast ?s). cast_event m = 1 \<and> cast_kind m = Cast_Team \<and> cast_parent m = None"
    by (rule bexI [rotated]) (simp add: trial_member_def team_row_def)
  then obtain stages n contests k where s': "s' = ?s\<lparr>b_stages := stages, next_stage := n, b_contests := contests, next_contest := k\<rparr>"
    using initialize_frame [OF assms] none by auto
  then have "same_teams ?s s'" by (simp add: same_teams_def)
  then have "teams_ready s' 1" using teams_ready_same(1) trial_teams_ready by blast
  then show ?thesis using bracket_set_up [OF assms] none unfolding prepared_def
    by (simp add: s') (simp add: trial_brain_def trial_book_def sample_store_def)
qed

lemma trial_first_match:
  "\<exists>s1 s2 t. initialize_bracket (trial_brain trial_book) 1 = Inr s1 \<and> start_next_match ''t'' s1 1 = Inr (s2, t)
    \<and> prepared s1 1 \<and> bracket_run 1 s1 s2"
proof -
  obtain s1 where s1: "initialize_bracket (trial_brain trial_book) 1 = Inr s1" using trial_set_up [of trial_book] by (auto simp: is_ok_iff)
  obtain s2 t where s2: "start_next_match ''t'' s1 1 = Inr (s2, t)"
    using start_next_ok [OF prepared_ok [OF trial_prepared [OF s1]], of "''t''"] by blast
  then show ?thesis using s1 trial_prepared [OF s1] bracket_more [OF bracket_start start_step [OF s2]] by blast
qed

theorem bracket_never_fails_witness:
  "\<exists>s1 s2 t. initialize_bracket (trial_brain trial_book) 1 = Inr s1 \<and> start_next_match ''t'' s1 1 = Inr (s2, t)
    \<and> is_ok (advance_hand_brain ''u'' s2 1)"
  using trial_first_match bracket_never_fails by metis

theorem bracket_in_order_witness:
  "\<exists>s1 s2 t. initialize_bracket (trial_brain trial_book) 1 = Inr s1 \<and> start_next_match ''t'' s1 1 = Inr (s2, t)
    \<and> length (event_contests s2 1) = 9"
  using trial_first_match bracket_in_order by metis

subsection \<open>A missing book\<close>

lemma no_book_start:
  assumes "uho_suite s = Inl x"
  shows "fold_result (start_scheduled_event now) (s, started) es = Inr r \<Longrightarrow> r = (s, started)
    \<and> list_all (\<lambda>e. \<exists>event. brain_event_of s e = Some event \<and> \<not> (be_auto_start event \<and> full_roster s e \<and> distinct_builds s e)) es"
proof (induction es)
  case (Cons e es)
  obtain y where y: "start_scheduled_event now (s, started) e = Inr y" "fold_result (start_scheduled_event now) y es = Inr r"
    using Cons.prems by (auto simp: rbind_eq_Inr)
  have "y = (s, started) \<and> (\<exists>event. brain_event_of s e = Some event \<and> \<not> (be_auto_start event \<and> full_roster s e \<and> distinct_builds s e))"
    using y(1) assms by (auto simp: start_scheduled_event_def split: option.splits if_splits)
  then show ?case using Cons.IH y(2) by auto
qed simp

text \<open>
  C40: A missing book stops the runner.  An event that is due and has its full roster, but whose opening
  book is missing, is not skipped like one with an incomplete roster: the exception leaves the loop over the
  events, and with it the runner's pass over all tournaments, as long as the book is missing.
\<close>

theorem missing_book_stops_runner:
  assumes "event \<in> set (b_events s)" and "brain_event_of s (be_id event) = Some event" and "be_handler event = MODULE_KEY"
    and "be_status event = Ev_Scheduled" and "be_scheduled_start event = Some start" and "start \<le> now" and "be_auto_start event"
    and "full_roster s (be_id event)" and "distinct_builds s (be_id event)" and "uho_suite s = Inl x"
  shows "\<not> is_ok (start_scheduled_hand_brain_events stamp now s)"
proof
  assume "is_ok (start_scheduled_hand_brain_events stamp now s)"
  then obtain r where "start_scheduled_hand_brain_events stamp now s = Inr r" by (auto simp: is_ok_iff)
  note skipped = no_book_start [OF assms(10) this [unfolded start_scheduled_hand_brain_events_def], THEN conjunct2, unfolded list_all_iff]
  have "be_id event \<in> set (map be_id (filter (\<lambda>r. be_handler r = MODULE_KEY \<and> be_status r = Ev_Scheduled
     \<and> (case be_scheduled_start r of None \<Rightarrow> False | Some start \<Rightarrow> start \<le> now)) (b_events s)))" using assms(1,3-6) by auto
  then show False using skipped assms(2,7-9) by auto
qed

lemma trial_full: "full_roster (trial_brain st) 1" "distinct_builds (trial_brain st) 1"
  by code_simp+

theorem missing_book_stops_runner_witness:
  "\<not> is_ok (start_scheduled_hand_brain_events ''t'' 5 ((trial_brain trial_book)\<lparr>b_suites := []\<rparr>))"
proof -
  let ?s = "(trial_brain trial_book)\<lparr>b_suites := []\<rparr>"
  have "full_roster ?s 1" "distinct_builds ?s 1" using trial_full [of trial_book] by (simp_all add: full_roster_def distinct_builds_def event_cast_def)
  then show ?thesis
    by (intro missing_book_stops_runner [where event = "hd (b_events (trial_brain trial_book))" and start = 0])
      (simp_all add: trial_brain_def brain_event_of_def uho_suite_def or_error_def)
qed

end
