(* ===== verification/Adjudication.thy ===== *)
theory Adjudication
  imports Game_Lifecycle
begin

text \<open>
  Adjudication of games from the scores the engines reported with their moves
  (\<open>cope/runner/local.py\<close>): draws and wins that both engines agree on over a number of consecutive
  plies, and the decision at the move limit.  A score is told from the mover's side; plies are
  counted from 1, so that White's plies are odd.
\<close>

definition max_legal_game_plies :: int where
  "max_legal_game_plies = 17697"

definition max_plies :: "tournament_config \<Rightarrow> int" where
  "max_plies c = (case adj_max_moves (adjudication c) of Some n \<Rightarrow> n * 2 | None \<Rightarrow> max_legal_game_plies)"

subsection \<open>Scores of moves\<close>

record relative_score =
  ws_mate :: "int option"
  ws_cp :: "int option"
  ws_bound :: "string option"

definition flip_bound :: "string option \<Rightarrow> string option" where
  "flip_bound b = (if b = Some ''lowerbound'' then Some ''upperbound''
     else if b = Some ''upperbound'' then Some ''lowerbound'' else None)"

definition white_relative_move_score :: "move_record \<Rightarrow> relative_score option" where
  "white_relative_move_score m = (let
     sign = (if move_ply m mod 2 = 1 then 1 else -1);
     bound = (if sign < 0 then flip_bound (move_score_bound m) else move_score_bound m)
   in case move_eval_mate m of
       Some mate \<Rightarrow> Some \<lparr>ws_mate = Some (sign * mate), ws_cp = None, ws_bound = bound\<rparr>
     | None \<Rightarrow> (case move_eval_cp m of
         Some cp \<Rightarrow> Some \<lparr>ws_mate = None, ws_cp = Some (sign * cp), ws_bound = bound\<rparr>
       | None \<Rightarrow> None))"

text \<open>The winner is told as whether it is White.\<close>

definition decisive_score_winner :: "int \<Rightarrow> string option \<Rightarrow> int \<Rightarrow> bool option" where
  "decisive_score_winner cp bound threshold =
     (if threshold \<le> cp \<and> bound \<noteq> Some ''upperbound'' then Some True
      else if cp \<le> - threshold \<and> bound \<noteq> Some ''lowerbound'' then Some False else None)"

subsection \<open>Agreement\<close>

text \<open>\<open>moves[-n:]\<close>.\<close>

definition last_moves :: "int \<Rightarrow> 'a list \<Rightarrow> 'a list" where
  "last_moves n xs = (if 0 < n then drop (length xs - nat n) xs else drop (nat (- n)) xs)"

definition adjudication_window :: "move_record list \<Rightarrow> int \<Rightarrow> move_record list" where
  "adjudication_window moves n =
     (if int (length moves) < n then [] else let window = last_moves n moves in
      if list_ex (\<lambda>(previous, current). move_ply current \<noteq> move_ply previous + 1) (zip window (tl window)) then []
      else if card (set (map (\<lambda>m. move_ply m mod 2) window)) \<noteq> 2 then []
      else window)"

definition drawish :: "draw_rule \<Rightarrow> move_record \<Rightarrow> bool" where
  "drawish d m = (min_fullmove d \<le> (move_ply m + 1) div 2 \<and> move_eval_mate m = None
     \<and> (case move_eval_cp m of None \<Rightarrow> False | Some cp \<Rightarrow> move_score_bound m = None \<and> \<bar>cp\<bar> \<le> max_abs_cp d))"

text \<open>The loop over a window: the winner of every move, or nothing when one of them names none.\<close>

definition move_winner :: "resign_rule \<Rightarrow> move_record \<Rightarrow> bool option" where
  "move_winner r m = (case white_relative_move_score m of None \<Rightarrow> None
   | Some s \<Rightarrow> (case ws_mate s of
       Some mate \<Rightarrow> if mate = 0 \<or> ws_bound s \<noteq> None then None else Some (0 < mate)
     | None \<Rightarrow> (case ws_cp s of
         Some cp \<Rightarrow> decisive_score_winner cp (ws_bound s) (min_abs_cp r)
       | None \<Rightarrow> None)))"

fun window_winners :: "resign_rule \<Rightarrow> move_record list \<Rightarrow> bool list option" where
  "window_winners r [] = Some []"
| "window_winners r (m # ms) = (case move_winner r m of None \<Rightarrow> None
     | Some w \<Rightarrow> map_option (\<lambda>ws. w # ws) (window_winners r ms))"

definition draw_text :: "draw_rule \<Rightarrow> string" where
  "draw_text d = ''draw adjudication: both engines agreed within +/-'' @ int_str (max_abs_cp d) @ ''cp for ''
     @ int_str (draw_plies d) @ '' consecutive plies''"

definition win_text :: "resign_rule \<Rightarrow> bool \<Rightarrow> string" where
  "win_text r w = ''win adjudication: both engines agreed '' @ (if w then ''white'' else ''black'') @ '' was winning for ''
     @ int_str (resign_plies r) @ '' consecutive plies''"

definition draw_adjudicated :: "adjudication_config \<Rightarrow> move_record list \<Rightarrow> draw_rule option" where
  "draw_adjudicated config moves = (case adj_draw config of None \<Rightarrow> None
     | Some d \<Rightarrow> let window = adjudication_window moves (draw_plies d) in
         if window \<noteq> [] \<and> list_all (drawish d) window then Some d else None)"

definition adjudication_result :: "adjudication_config \<Rightarrow> move_record list \<Rightarrow> (game_outcome \<times> string) option" where
  "adjudication_result config moves = (case draw_adjudicated config moves of
     Some d \<Rightarrow> Some (Game_Drawn, draw_text d)
   | None \<Rightarrow> (case adj_resign config of None \<Rightarrow> None
     | Some r \<Rightarrow> (let window = adjudication_window moves (resign_plies r) in
         if window = [] then None
         else (case window_winners r window of
             Some (w # ws) \<Rightarrow> if list_ex (\<lambda>v. v \<noteq> w) ws then None
               else Some (if w then White_Won else Black_Won, win_text r w)
           | _ \<Rightarrow> None))))"

subsection \<open>The move limit\<close>

fun latest_score :: "move_record list \<Rightarrow> relative_score option" where
  "latest_score [] = None"
| "latest_score (m # ms) = (case white_relative_move_score m of Some s \<Rightarrow> Some s | None \<Rightarrow> latest_score ms)"

definition latest_white_relative_score :: "move_record list \<Rightarrow> relative_score option" where
  "latest_white_relative_score moves = latest_score (rev moves)"

definition max_moves_decisive_cp :: "tournament_config \<Rightarrow> int" where
  "max_moves_decisive_cp c = (case adj_resign (adjudication c) of Some r \<Rightarrow> min_abs_cp r | None \<Rightarrow> 800)"

text \<open>\<open>f"{cp / 100:+.2f}"\<close> of an integer.\<close>

definition pawns_text :: "int \<Rightarrow> string" where
  "pawns_text cp = (let a = \<bar>cp\<bar>; r = a mod 100
   in (if cp < 0 then ''-'' else ''+'') @ int_str (a div 100) @ ''.'' @ (if r < 10 then ''0'' else []) @ int_str r)"

definition max_moves_result :: "tournament_config \<Rightarrow> move_record list \<Rightarrow> (game_outcome \<times> string) result" where
  "max_moves_result c moves = rbind (get_variant (config_variant c)) (\<lambda>v. let drawn = Inr (Game_Drawn, ''max moves'') in
     if variant_duck v then drawn
     else (case latest_white_relative_score moves of None \<Rightarrow> drawn
     | Some s \<Rightarrow> (case ws_mate s of
         Some mate \<Rightarrow> if ws_bound s \<noteq> None then drawn
           else if 0 < mate then Inr (White_Won, ''max moves: white has forced mate'')
           else if mate < 0 then Inr (Black_Won, ''max moves: black has forced mate'') else drawn
       | None \<Rightarrow> (case ws_cp s of None \<Rightarrow> drawn
         | Some cp \<Rightarrow> (case decisive_score_winner cp (ws_bound s) (max_moves_decisive_cp c) of
             Some True \<Rightarrow> Inr (White_Won, ''max moves: white winning by evaluation ('' @ pawns_text cp @ '')'')
           | Some False \<Rightarrow> Inr (Black_Won, ''max moves: black winning by evaluation ('' @ pawns_text cp @ '')'')
           | None \<Rightarrow> if ws_bound s \<noteq> None then drawn
               else Inr (Game_Drawn, ''max moves: evaluation within decisive threshold ('' @ pawns_text cp @ '')''))))))"

subsection \<open>What both engines agree on\<close>

fun successive :: "move_record list \<Rightarrow> bool" where
  "successive (m # n # ms) = (move_ply n = move_ply m + 1 \<and> successive (n # ms))"
| "successive _ = True"

text \<open>The last \<open>n\<close> moves, without a gap, all say the same.\<close>

definition agreed :: "move_record list \<Rightarrow> int \<Rightarrow> (move_record \<Rightarrow> bool) \<Rightarrow> bool" where
  "agreed moves n says = (\<exists>before window. moves = before @ window \<and> int (length window) = n \<and> successive window
     \<and> list_all says window)"

text \<open>A move's own score, told by its mover, says that the side is winning.\<close>

definition says_winning :: "resign_rule \<Rightarrow> bool \<Rightarrow> move_record \<Rightarrow> bool" where
  "says_winning r white m = (let own = (odd (move_ply m) = white)
   in case move_eval_mate m of
       Some mate \<Rightarrow> move_score_bound m = None \<and> (if own then 0 < mate else mate < 0)
     | None \<Rightarrow> (case move_eval_cp m of None \<Rightarrow> False
       | Some cp \<Rightarrow> if own then min_abs_cp r \<le> cp \<and> move_score_bound m \<noteq> Some ''upperbound''
           else cp \<le> - min_abs_cp r \<and> move_score_bound m \<noteq> Some ''lowerbound''))"

definition draw_agreed :: "adjudication_config \<Rightarrow> move_record list \<Rightarrow> bool" where
  "draw_agreed config moves = (case adj_draw config of None \<Rightarrow> False
     | Some d \<Rightarrow> agreed moves (draw_plies d) (drawish d))"

definition win_agreed :: "adjudication_config \<Rightarrow> bool \<Rightarrow> move_record list \<Rightarrow> bool" where
  "win_agreed config white moves = (case adj_resign config of None \<Rightarrow> False
     | Some r \<Rightarrow> agreed moves (resign_plies r) (says_winning r white))"

lemma successive_zip:
  "list_ex (\<lambda>(previous, current). move_ply current \<noteq> move_ply previous + 1) (zip ws (tl ws)) \<longleftrightarrow> \<not> successive ws"
  by (induction ws rule: successive.induct) auto

lemma successive_parities:
  assumes "successive ws" "2 \<le> length ws"
  shows "card (set (map (\<lambda>m. move_ply m mod 2) ws)) = 2"
proof -
  obtain m n ms where ws: "ws = m # n # ms" using assms(2) by (cases ws rule: successive.cases) auto
  have "move_ply m mod 2 \<noteq> move_ply n mod 2" using assms(1) ws by simp presburger
  moreover have two: "p mod 2 = 0 \<or> p mod 2 = 1" for p :: int by presburger
  ultimately have "{move_ply m mod 2, move_ply n mod 2} = {0, 1}"
    using two [of "move_ply m"] two [of "move_ply n"] by auto
  moreover have "set (map (\<lambda>m. move_ply m mod 2) ws) \<subseteq> {0, 1}" using two by auto
  ultimately have "set (map (\<lambda>m. move_ply m mod 2) ws) = {0, 1}" using ws by auto
  then show ?thesis by simp
qed

lemma adjudication_window_last:
  assumes "2 \<le> n"
  shows "adjudication_window moves n = (let window = drop (length moves - nat n) moves
     in if int (length moves) < n \<or> \<not> successive window then [] else window)"
proof -
  have "2 \<le> nat n" using assms by simp
  then show ?thesis
    using assms successive_parities [of "drop (length moves - nat n) moves"]
    by (auto simp: adjudication_window_def last_moves_def Let_def successive_zip)
qed

lemma window_agreed:
  assumes "2 \<le> n"
  shows "adjudication_window moves n \<noteq> [] \<and> list_all says (adjudication_window moves n) \<longleftrightarrow> agreed moves n says"
proof
  assume "adjudication_window moves n \<noteq> [] \<and> list_all says (adjudication_window moves n)"
  then show "agreed moves n says"
    using assms unfolding agreed_def adjudication_window_last [OF assms] Let_def
    by (intro exI [of _ "take (length moves - nat n) moves"] exI [of _ "drop (length moves - nat n) moves"])
      (auto split: if_splits)
next
  assume "agreed moves n says"
  then obtain before window where w: "moves = before @ window" "int (length window) = n" "successive window"
    "list_all says window" unfolding agreed_def by blast
  then have "drop (length moves - nat n) moves = window" by auto
  then show "adjudication_window moves n \<noteq> [] \<and> list_all says (adjudication_window moves n)"
    using w assms by (auto simp: adjudication_window_last Let_def)
qed

definition bound_ok :: "move_record \<Rightarrow> bool" where
  "bound_ok m = (move_score_bound m \<in> {None, Some ''lowerbound'', Some ''upperbound''})"

lemma mover_sign: "(if move_ply m mod 2 = 1 then a else b) = (if odd (move_ply m) then a else b)"
  by (simp add: odd_iff_mod_2_eq_one)

lemma move_winner_says:
  assumes "bound_ok m" "0 < min_abs_cp r"
  shows "move_winner r m = Some w \<longleftrightarrow> says_winning r w m"
proof (cases "move_eval_mate m")
  case (Some mate)
  then show ?thesis
    using assms by (auto simp: move_winner_def says_winning_def white_relative_move_score_def flip_bound_def bound_ok_def
        Let_def mover_sign)
next
  case None
  show ?thesis
  proof (cases "move_eval_cp m")
    case cp: (Some cp)
    show ?thesis
      using assms None cp by (cases "odd (move_ply m)"; cases w)
        (auto simp: move_winner_def says_winning_def white_relative_move_score_def decisive_score_winner_def
          flip_bound_def bound_ok_def Let_def mover_sign)
  qed (use None in \<open>simp add: move_winner_def says_winning_def white_relative_move_score_def Let_def\<close>)
qed

lemma window_winners_eq:
  "window_winners r ws = (if list_all (\<lambda>m. move_winner r m \<noteq> None) ws then Some (map (\<lambda>m. the (move_winner r m)) ws) else None)"
  by (induction ws) (auto split: option.splits)

lemma window_winners_same:
  assumes "ws \<noteq> []"
  shows "(case window_winners r ws of Some (v # vs) \<Rightarrow> v = w \<and> \<not> list_ex (\<lambda>u. u \<noteq> v) vs | _ \<Rightarrow> False)
    \<longleftrightarrow> list_all (\<lambda>m. move_winner r m = Some w) ws"
proof -
  have "list_all (\<lambda>m. move_winner r m = Some w) ws
      \<longleftrightarrow> list_all (\<lambda>m. move_winner r m \<noteq> None) ws \<and> list_all (\<lambda>m. the (move_winner r m) = w) ws"
    by (induction ws) auto
  then show ?thesis
    using assms by (cases ws) (auto simp: window_winners_eq list_all_iff list_ex_iff)
qed

lemma draw_adjudicated_iff:
  assumes "\<forall>d. adj_draw config = Some d \<longrightarrow> 2 \<le> draw_plies d"
  shows "draw_adjudicated config moves \<noteq> None \<longleftrightarrow> draw_agreed config moves"
proof (cases "adj_draw config")
  case (Some d)
  then show ?thesis
    using assms window_agreed [of "draw_plies d" moves "drawish d"]
    by (simp add: draw_adjudicated_def draw_agreed_def Let_def)
qed (simp add: draw_adjudicated_def draw_agreed_def)

lemma win_agreed_iff:
  assumes "adj_resign config = Some r" "2 \<le> resign_plies r" "0 < min_abs_cp r" "\<forall>m\<in>set moves. bound_ok m"
  shows "win_agreed config w moves \<longleftrightarrow> adjudication_window moves (resign_plies r) \<noteq> []
    \<and> list_all (\<lambda>m. move_winner r m = Some w) (adjudication_window moves (resign_plies r))"
proof -
  have "set (adjudication_window moves (resign_plies r)) \<subseteq> set moves"
    using set_drop_subset by (fastforce simp: adjudication_window_last [OF assms(2)] Let_def split: if_splits)
  then have "list_all (\<lambda>m. move_winner r m = Some w) (adjudication_window moves (resign_plies r))
      \<longleftrightarrow> list_all (says_winning r w) (adjudication_window moves (resign_plies r))"
    unfolding list_all_iff using assms(3,4) move_winner_says by (intro ball_cong refl) blast
  then show ?thesis
    using window_agreed [OF assms(2), of moves "says_winning r w"] by (simp add: win_agreed_def assms(1))
qed

lemma win_adjudicated:
  assumes "draw_adjudicated config moves = None" "adj_resign config = Some r"
  shows "(\<exists>text. adjudication_result config moves = Some (if w then White_Won else Black_Won, text))
    \<longleftrightarrow> adjudication_window moves (resign_plies r) \<noteq> []
      \<and> list_all (\<lambda>m. move_winner r m = Some w) (adjudication_window moves (resign_plies r))"
proof (cases "adjudication_window moves (resign_plies r) = []")
  case False
  show ?thesis
    using window_winners_same [OF False, where r = r and w = w] assms False
    by (auto simp: adjudication_result_def Let_def split: option.splits list.splits)
qed (use assms in \<open>simp add: adjudication_result_def\<close>)

text \<open>
  C28: Adjudication says what both engines agree on.  With rules that ask for at least two plies, a
  game is adjudicated a draw exactly when the last so many moves, played without a gap, all
  report a small exact score late enough in the game; and a win for a side exactly when there is
  no such draw and the last so many moves, of both engines, all report that side to be winning,
  each engine from its own point of view.
\<close>

theorem adjudication_exact:
  assumes "\<forall>d. adj_draw config = Some d \<longrightarrow> 2 \<le> draw_plies d"
    and "\<forall>r. adj_resign config = Some r \<longrightarrow> 2 \<le> resign_plies r \<and> 0 < min_abs_cp r"
    and "\<forall>m\<in>set moves. bound_ok m"
  shows "((\<exists>text. adjudication_result config moves = Some (Game_Drawn, text)) \<longleftrightarrow> draw_agreed config moves)
    \<and> ((\<exists>text. adjudication_result config moves = Some (if white then White_Won else Black_Won, text))
      \<longleftrightarrow> \<not> draw_agreed config moves \<and> win_agreed config white moves)"
proof (cases "draw_adjudicated config moves")
  case (Some d)
  then have "draw_agreed config moves" using draw_adjudicated_iff [OF assms(1)] by blast
  then show ?thesis using Some by (simp add: adjudication_result_def)
next
  case None
  then have no: "\<not> draw_agreed config moves" using draw_adjudicated_iff [OF assms(1)] by blast
  have "\<not> (\<exists>text. adjudication_result config moves = Some (Game_Drawn, text))"
    using None by (auto simp: adjudication_result_def Let_def split: option.splits list.splits if_splits)
  moreover have "(\<exists>text. adjudication_result config moves = Some (if white then White_Won else Black_Won, text))
      \<longleftrightarrow> win_agreed config white moves"
  proof (cases "adj_resign config")
    case None
    then show ?thesis using \<open>draw_adjudicated config moves = None\<close>
      by (simp add: adjudication_result_def win_agreed_def)
  next
    case (Some r)
    then show ?thesis
      using win_adjudicated [OF None Some] win_agreed_iff [OF Some] assms(2,3) by auto
  qed
  ultimately show ?thesis using no by blast
qed

text \<open>Four plies of a game that Black is winning: White reports minus 900, Black plus 950, and so on.\<close>

definition sample_score :: "int \<Rightarrow> int \<Rightarrow> move_record" where
  "sample_score n cp = \<lparr>move_game = 1, move_ply = n, move_uci = ''e2e4'', move_san = ''e4'', move_is_book = False,
     move_eval_cp = Some cp, move_eval_mate = None, move_score_bound = None, move_depth = None, move_seldepth = None,
     move_nodes = None, move_nps = None, move_hashfull = None, move_pv = None, move_info_line = None, move_time_ms = 10,
     move_clock_after_ms = 100, move_engine_version = None\<rparr>"

definition lost_for_white :: "move_record list" where
  "lost_for_white = [sample_score 41 (- 20), sample_score 42 30, sample_score 43 (- 900), sample_score 44 950,
     sample_score 45 (- 920), sample_score 46 970]"

definition sample_rules_of_adjudication :: adjudication_config where
  "sample_rules_of_adjudication = \<lparr>adj_draw = Some \<lparr>min_fullmove = 20, max_abs_cp = 10, draw_plies = 4\<rparr>,
     adj_resign = Some \<lparr>min_abs_cp = 800, resign_plies = 4\<rparr>, adj_max_moves = None\<rparr>"

lemma adjudication_exact_witness:
  "map_option fst (adjudication_result sample_rules_of_adjudication lost_for_white) = Some Black_Won
    \<and> \<not> draw_agreed sample_rules_of_adjudication lost_for_white
    \<and> win_agreed sample_rules_of_adjudication False lost_for_white"
proof -
  have r: "map_option fst (adjudication_result sample_rules_of_adjudication lost_for_white) = Some Black_Won" by code_simp
  have "\<forall>m\<in>set lost_for_white. bound_ok m" by code_simp
  moreover have "\<exists>text. adjudication_result sample_rules_of_adjudication lost_for_white
      = Some (if False then White_Won else Black_Won, text)" using r by auto
  ultimately show ?thesis
    using r adjudication_exact [of sample_rules_of_adjudication lost_for_white False]
    by (simp add: sample_rules_of_adjudication_def)
qed

end
