(* ===== verification/Game_Fencing.thy ===== *)
theory Game_Fencing
  imports Game_Attempts
begin

text \<open>
  The contract that the assignment keys implement, as an abstract machine for each game: a log
  of moves and a holder, the only one who may append to it.  A grant names a new holder, the
  holder may be dropped, the log may be cleared, and nothing else happens.  What follows from
  that alone is proved in a locale; the tables are shown to refine the machine.
\<close>

subsection \<open>The fenced log\<close>

inductive fence_step :: "'k list \<Rightarrow> 'k option \<times> 'm list \<Rightarrow> 'k option \<times> 'm list \<Rightarrow> bool" for ks where
  idle: "fence_step ks (h, l) (h, l)"
| granted: "k \<in> set ks \<Longrightarrow> fence_step ks (h, l) (Some k, l)"
| appended: "fence_step ks (Some k, l) (Some k, l @ [m])"
| dropped: "fence_step ks (h, l) (None, l)"
| cleared: "fence_step ks (h, l) (h, [])"
| closed: "fence_step ks (h, l) (None, [])"

inductive_simps fence_step_iff: "fence_step ks (h, l) (h', l')"

locale fenced_log =
  fixes valid :: "'s \<Rightarrow> bool"
    and step :: "'k list \<Rightarrow> 's \<Rightarrow> 's \<Rightarrow> bool"
    and holder :: "'s \<Rightarrow> 'g \<Rightarrow> 'k option"
    and log_of :: "'s \<Rightarrow> 'g \<Rightarrow> 'm list"
  assumes valid_step: "valid s \<Longrightarrow> step ks s s' \<Longrightarrow> valid s'"
    and refines: "valid s \<Longrightarrow> step ks s s' \<Longrightarrow> fence_step ks (holder s g, log_of s g) (holder s' g, log_of s' g)"
begin

text \<open>Runs, with the keys they issue.\<close>

inductive run :: "'k list \<Rightarrow> 's \<Rightarrow> 's \<Rightarrow> bool" where
  stay: "run [] s s"
| go: "run ks s s' \<Longrightarrow> step ks' s' s'' \<Longrightarrow> run (ks @ ks') s s''"

lemma run_valid: "run ks s s' \<Longrightarrow> valid s \<Longrightarrow> valid s'"
  by (induction rule: run.induct) (auto intro: valid_step)

text \<open>A key that is not issued again does not come back.\<close>

lemma lost_for_good:
  assumes "run ks s s'" and "valid s" and "holder s g \<noteq> Some k" and "k \<notin> set ks"
  shows "holder s' g \<noteq> Some k"
  using assms
proof (induction rule: run.induct)
  case (go ks s s' ks' s'')
  have "fence_step ks' (holder s' g, log_of s' g) (holder s'' g, log_of s'' g)"
    using refines run_valid go by blast
  then show ?case using go by (auto simp: fence_step_iff)
qed

text \<open>
  While a key is held and no other is issued, the log only grows, unless it is cleared: nobody
  else writes.
\<close>

lemma holder_kept_or_lost:
  assumes "run ks s s'" and "valid s" and "holder s g = Some k" and "set ks = {}"
  shows "holder s' g \<in> {Some k, None}"
  using assms
proof (induction rule: run.induct)
  case (go ks s s' ks' s'')
  have "fence_step ks' (holder s' g, log_of s' g) (holder s'' g, log_of s'' g)"
    using refines run_valid go by blast
  then show ?case using go by (auto simp: fence_step_iff)
qed simp

lemma silent_without_holder:
  assumes "run ks s s'" and "valid s" and "holder s g = None" and "set ks = {}"
  shows "holder s' g = None \<and> log_of s' g \<in> {log_of s g, []}"
  using assms
proof (induction rule: run.induct)
  case (go ks s s' ks' s'')
  have "fence_step ks' (holder s' g, log_of s' g) (holder s'' g, log_of s'' g)"
    using refines run_valid go by blast
  then show ?case using go by (auto simp: fence_step_iff)
qed simp

end

subsection \<open>The tables refine it\<close>

definition holder_of :: "lifecycle \<Rightarrow> int \<Rightarrow> string option" where
  "holder_of s g = map_option asg_key (List.find (\<lambda>a. asg_game a = g \<and> active a) (assignments s))"

definition moves_of :: "lifecycle \<Rightarrow> int \<Rightarrow> move_record list" where
  "moves_of s g = filter (\<lambda>m. move_game m = g) (life_moves s)"

definition fades :: "lifecycle \<Rightarrow> lifecycle \<Rightarrow> bool" where
  "fades s s' = (\<forall>g. holder_of s' g \<in> {holder_of s g, None} \<and> moves_of s' g \<in> {moves_of s g, []})"

lemma fades_fence: "fades s s' \<Longrightarrow> fence_step ks (holder_of s g, moves_of s g) (holder_of s' g, moves_of s' g)"
  by (auto simp: fades_def fence_step_iff)

lemma fades_refl: "fades s s"
  by (simp add: fades_def)

lemma fades_trans: "fades s s' \<Longrightarrow> fades s' s'' \<Longrightarrow> fades s s''"
  unfolding fades_def by (metis insert_iff singletonD)

lemma holder_of_iff:
  assumes "assignments_ok s"
  shows "holder_of s g = Some k \<longleftrightarrow> (\<exists>a \<in> set (assignments s). asg_game a = g \<and> active a \<and> asg_key a = k)"
proof -
  have same: "a = b" if "a \<in> set (assignments s)" "b \<in> set (assignments s)" "asg_game a = asg_game b" for a b
    using assms that by (auto simp: assignments_ok_def distinct_map dest: inj_onD)
  show ?thesis
  proof
    assume "holder_of s g = Some k"
    then show "\<exists>a \<in> set (assignments s). asg_game a = g \<and> active a \<and> asg_key a = k"
      by (auto simp: holder_of_def dest: find_Some_iff_in)
  next
    assume "\<exists>a \<in> set (assignments s). asg_game a = g \<and> active a \<and> asg_key a = k"
    then obtain a where a: "a \<in> set (assignments s)" "asg_game a = g" "active a" "asg_key a = k" by blast
    then obtain b where b: "List.find (\<lambda>a. asg_game a = g \<and> active a) (assignments s) = Some b"
      by (cases "List.find (\<lambda>a. asg_game a = g \<and> active a) (assignments s)") (auto simp: find_None_iff)
    then have "b = a" using same [of b a] a find_Some_iff_in [OF b] by auto
    then show "holder_of s g = Some k" using a(4) b by (simp add: holder_of_def)
  qed
qed

text \<open>Rows that only go or lose their activity, and games that keep or lose all their moves.\<close>

lemma fadesI:
  assumes "assignments_ok s" and "assignments_ok s'"
    and "\<And>a. a \<in> set (assignments s') \<Longrightarrow> active a \<Longrightarrow> \<exists>b \<in> set (assignments s). active b \<and> same_row b a"
    and "life_moves s' = filter (\<lambda>m. move_game m \<notin> X) (life_moves s)"
  shows "fades s s'"
proof -
  have "holder_of s' g \<in> {holder_of s g, None}" for g
  proof (cases "holder_of s' g")
    case (Some k)
    then obtain a where a: "a \<in> set (assignments s')" "asg_game a = g" "active a" "asg_key a = k"
      using holder_of_iff [OF assms(2)] by blast
    then obtain b where "b \<in> set (assignments s)" "active b" "same_row b a" using assms(3) by blast
    then have "holder_of s g = Some k" using holder_of_iff [OF assms(1)] a by (auto simp: same_row_def)
    then show ?thesis using Some by simp
  qed simp
  moreover have "moves_of s' g \<in> {moves_of s g, []}" for g
    by (cases "g \<in> X") (auto simp: moves_of_def assms(4) filter_empty_conv intro: filter_cong)
  ultimately show ?thesis by (simp add: fades_def)
qed

definition rows_fade :: "lifecycle \<Rightarrow> lifecycle \<Rightarrow> bool" where
  "rows_fade s s' = (\<forall>a \<in> set (assignments s'). active a \<longrightarrow> (\<exists>b \<in> set (assignments s). active b \<and> same_row b a))"

lemma rows_fade_same: "assignments s' = assignments s \<Longrightarrow> rows_fade s s'"
  unfolding rows_fade_def by (auto intro!: bexI simp: same_row_def)

lemma rows_fade_trans: "rows_fade s s' \<Longrightarrow> rows_fade s' s'' \<Longrightarrow> rows_fade s s''"
  unfolding rows_fade_def same_row_def by metis

lemma rows_fade_update:
  assumes "assignments s' = update_rows P f (assignments s)" and "\<And>a. same_row a (f a)"
    and "\<And>a. P a \<Longrightarrow> active (f a) \<Longrightarrow> active a"
  shows "rows_fade s s'"
  unfolding rows_fade_def assms(1) set_update_rows
proof (intro ballI impI)
  fix a assume "a \<in> (\<lambda>r. if P r then f r else r) ` set (assignments s)" and "active a"
  then obtain b where "b \<in> set (assignments s)" "a = (if P b then f b else b)" by blast
  then show "\<exists>b \<in> set (assignments s). active b \<and> same_row b a"
    using assms(2,3) [of b] \<open>active a\<close> by (intro bexI [of _ b]) (auto split: if_splits)
qed

lemma rows_fade_filter: "assignments s' = filter Q (assignments s) \<Longrightarrow> rows_fade s s'"
  unfolding rows_fade_def by (auto intro!: bexI simp: same_row_def)

lemma step_fades:
  assumes "life_step ks s s'" and "assignments_ok s" and "rows_fade s s'"
    and "\<exists>X. life_moves s' = filter (\<lambda>m. move_game m \<notin> X) (life_moves s)"
  shows "fades s s'"
  using assms fadesI [OF assms(2) step_assignments_ok [OF assms(1,2)]] unfolding rows_fade_def by blast

lemma inactive_simps [simp]:
  "\<not> active (expire now a)" "\<not> active (abandon now reason a)"
  "active (a\<lparr>asg_worker := w\<rparr>) = active a" "\<not> active (a\<lparr>asg_status := Asg_Finished, asg_finished := x\<rparr>)"
  "\<not> active (a\<lparr>asg_status := Asg_Abandoned, asg_finished := x, asg_error := y\<rparr>)"
  "\<not> active (a\<lparr>asg_status := Asg_Expired, asg_finished := x, asg_error := y\<rparr>)"
  by (simp_all add: active_def expire_def abandon_def)

lemma fade_release: "rows_fade s (release_worker_active_assignments now reason w s)"
  by (rule rows_fade_update [where P = "\<lambda>a. asg_worker a = Some w \<and> active a" and f = "abandon now reason"])
    (simp_all add: release_worker_active_assignments_def)

lemma fade_delete_row: "rows_fade s (delete_worker_row w s)"
  by (rule rows_fade_update [where P = "\<lambda>a. asg_worker a = Some w" and f = "\<lambda>a. a\<lparr>asg_worker := None\<rparr>"])
    (simp_all add: delete_worker_row_def)

lemma no_moves_lost: "life_moves s' = life_moves s \<Longrightarrow> \<exists>X. life_moves s' = filter (\<lambda>m. move_game m \<notin> X) (life_moves s)"
  by (auto intro!: exI [of _ "{}"])

lemma reset_moves: "\<exists>X. life_moves (reset_games_for_replay b reason now wanted s) = filter (\<lambda>m. move_game m \<notin> X) (life_moves s)"
  using reset_tables(2) by blast

lemma recorded_fence:
  assumes "record_move s (Some i) (Some k) m = Inr s'" and "assignments_ok s"
  shows "fence_step ks (holder_of s g, moves_of s g) (holder_of s' g, moves_of s' g)"
proof -
  have s': "s' = s\<lparr>life_moves := life_moves s @ [m]\<rparr>"
    using assms(1) by (auto simp: record_move_def insert_move_def split: if_splits)
  have "holder_of s (move_game m) = Some k"
    using record_move_holder [OF assms(1)] by (auto simp: holder_of_iff [OF assms(2)])
  then show ?thesis by (cases "g = move_game m") (auto simp: s' holder_of_def moves_of_def fence_step_iff)
qed

lemma find_filter_conj: "List.find (\<lambda>a. P a \<and> Q a) xs = List.find Q (filter P xs)"
  by (induction xs) auto

lemma assign_rows:
  assumes "assign_game_to_worker now s g0 k w = Inr (s', a)" and "g \<noteq> g0"
  shows "filter (\<lambda>a. asg_game a = g) (assignments s') = filter (\<lambda>a. asg_game a = g) (assignments s)"
proof -
  have fresh: "asg_game (fresh_assignment i g0 k w now) = g0" for i by (simp add: fresh_assignment_def)
  have "filter (\<lambda>a. asg_game a = g) (update_rows (\<lambda>a. asg_game a = g0) (\<lambda>a. fresh_assignment (asg_id a) g0 k w now) rows)
      = filter (\<lambda>a. asg_game a = g) rows" for rows
    using assms(2) by (induction rows) (auto simp: update_rows_def fresh)
  then show ?thesis using assms by (auto simp: assign_game_to_worker_def Let_def rbind_eq_Inr fresh split: if_splits)
qed

lemma assigned_fence:
  assumes "assign_game_to_worker now s g0 k w = Inr (s', a)" and "assignments_ok s"
  shows "fence_step [k] (holder_of s g, moves_of s g) (holder_of s' g, moves_of s' g)"
  using assms(1)
proof (cases rule: assign_cases)
  case (taken row)
  have ok: "assignments_ok s'" using taken(11) assms(2) by blast
  have moves: "moves_of s' g = moves_of s g" using taken(10) by (simp add: moves_of_def)
  show ?thesis
  proof (cases "g = g0")
    case True
    have "holder_of s' g = Some k" using taken(2-5) True by (auto simp: holder_of_iff [OF ok] active_def)
    then show ?thesis using moves by (simp add: fence_step_iff)
  next
    case False
    have "filter (\<lambda>a. asg_game a = g) (assignments s') = filter (\<lambda>a. asg_game a = g) (assignments s)"
      using assign_rows [OF assms(1)] False by simp
    then have "holder_of s' g = holder_of s g" unfolding holder_of_def by (metis find_filter_conj)
    then show ?thesis using moves by (simp add: fence_step_iff)
  qed
qed (simp add: fence_step_iff)


lemma release_moves: "\<exists>X. life_moves (release_worker_active_assignments now reason w s) = filter (\<lambda>m. move_game m \<notin> X) (life_moves s)"
  using reset_moves [where s = "update_assignments (\<lambda>a. asg_worker a = Some w \<and> active a) (abandon now reason) s"]
  by (simp add: release_worker_active_assignments_def)

lemma updated_fades:
  assumes "life_step ks s s'" and "assignments_ok s" and "assignments s' = update_rows P f (assignments s)"
    and "life_moves s' = life_moves s" and "\<And>a. same_row a (f a)" and "\<And>a. P a \<Longrightarrow> active (f a) \<Longrightarrow> active a"
  shows "fades s s'"
  by (rule step_fades [OF assms(1,2) rows_fade_update [OF assms(3,5)] no_moves_lost [OF assms(4)]]) (rule assms(6))

lemma quiet_step_fades:
  assumes "life_step ks s s'" and "assignments_ok s"
    and "\<And>now g k w a. assign_game_to_worker now s g k w = Inr (s', a) \<Longrightarrow> ks \<noteq> [k]"
    and "\<And>i k m. record_move s (Some i) (Some k) m \<noteq> Inr s'"
  shows "fades s s'"
proof -
  note fade = step_fades [OF assms(1,2)]
  from assms(1) show ?thesis
  proof cases
    case (scheduled r)
    then show ?thesis by (intro fade rows_fade_same no_moves_lost) simp_all
  next
    case (assigned now g k w a)
    then show ?thesis using assms(3) by blast
  next
    case (recorded i k m)
    then show ?thesis using assms(4) by blast
  next
    case (acknowledged now i k)
    then have "assignments s' = update_rows (\<lambda>a. asg_id a = i \<and> asg_key a = k \<and> asg_status a \<in> {Asg_Assigned, Asg_Acked})
        (\<lambda>a. a\<lparr>asg_status := Asg_Acked, asg_acked := coalesce (asg_acked a) now\<rparr>) (assignments s)" "life_moves s' = life_moves s"
      by (auto simp: acknowledge_game_assignment_def Let_def split: if_splits)
    then show ?thesis by (rule updated_fades [OF assms(1,2)]) (auto simp: active_def)
  next
    case (started now i)
    then have "assignments s' = update_rows (\<lambda>a. asg_id a = i \<and> active a)
        (\<lambda>a. a\<lparr>asg_status := Asg_Live, asg_acked := coalesce (asg_acked a) now\<rparr>) (assignments s)" "life_moves s' = life_moves s"
      by (auto simp: mark_worker_assignment_live_def mark_game_live_def mark_game_assignment_live_def rbind_eq_Inr)
    then show ?thesis by (rule updated_fades [OF assms(1,2)]) auto
  next
    case (played_out now g res termin pgn)
    then show ?thesis by (intro fade rows_fade_same no_moves_lost) (simp_all add: finish_game_def)
  next
    case (assignment_done now i k)
    have "rows_fade s s'"
      by (rule rows_fade_update [where P = "\<lambda>a. asg_id a = i \<and> asg_key a = k"
            and f = "\<lambda>a. a\<lparr>asg_status := Asg_Finished, asg_finished := Some now\<rparr>"])
        (simp_all add: assignment_done finish_game_assignment_def)
    then show ?thesis by (intro fade no_moves_lost) (simp_all add: assignment_done finish_game_assignment_def)
  next
    case (failed now i k reason)
    let ?P = "\<lambda>a. asg_id a = i \<and> asg_key a = k \<and> active a"
    have "s' = s \<or> s' = update_assignments ?P (abandon now reason) s
        \<or> (\<exists>g. s' = reset_games_for_replay False reason now [g] (update_assignments ?P (abandon now reason) s))"
      unfolding failed by (auto simp: fail_game_assignment_def Let_def split: option.splits)
    then consider "s' = s" | "assignments s' = update_rows ?P (abandon now reason) (assignments s)"
        "\<exists>X. life_moves s' = filter (\<lambda>m. move_game m \<notin> X) (life_moves s)"
      using reset_moves [where s = "update_assignments ?P (abandon now reason) s"] no_moves_lost by fastforce
    then show ?thesis
    proof cases
      case 2
      have "rows_fade s s'" by (rule rows_fade_update [OF 2(1)]) simp_all
      then show ?thesis using fade 2(2) by blast
    qed (simp add: fades_refl)
  next
    case (paused now i k state)
    then have "assignments s' = update_rows (\<lambda>a. asg_id a = i \<and> asg_key a = k \<and> active a) (expire now) (assignments s)"
      "life_moves s' = life_moves s"
      by (auto simp: pause_game_assignment_def Let_def split: option.splits if_splits)
    then show ?thesis by (rule updated_fades [OF assms(1,2)]) auto
  next
    case (paused_unstarted now i k)
    then have "s' = s \<or> assignments s' = update_rows (\<lambda>a. asg_id a = i \<and> asg_key a = k
        \<and> asg_status a \<in> {Asg_Assigned, Asg_Acked}) (expire now) (assignments s) \<and> life_moves s' = life_moves s"
      by (auto simp: pause_unstarted_game_assignment_def Let_def split: option.splits)
    then show ?thesis
    proof
      assume "assignments s' = update_rows (\<lambda>a. asg_id a = i \<and> asg_key a = k
        \<and> asg_status a \<in> {Asg_Assigned, Asg_Acked}) (expire now) (assignments s) \<and> life_moves s' = life_moves s"
      then have "assignments s' = update_rows (\<lambda>a. asg_id a = i \<and> asg_key a = k
        \<and> asg_status a \<in> {Asg_Assigned, Asg_Acked}) (expire now) (assignments s)" "life_moves s' = life_moves s" by simp_all
      then show ?thesis by (rule updated_fades [OF assms(1,2)]) auto
    qed (simp add: fades_refl)
  next
    case (resumed t)
    then show ?thesis by (intro fade rows_fade_same no_moves_lost) (simp_all add: resume_paused_tournament_games_def Let_def)
  next
    case (disconnected now w session reason)
    have "s' = s \<or> assignments s' = assignments (release_worker_active_assignments now reason w s)
        \<and> life_moves s' = life_moves (release_worker_active_assignments now reason w s)"
      unfolding disconnected by (auto simp: disconnect_worker_def Let_def split: option.splits)
    then show ?thesis
    proof
      assume r: "assignments s' = assignments (release_worker_active_assignments now reason w s)
        \<and> life_moves s' = life_moves (release_worker_active_assignments now reason w s)"
      have "rows_fade s s'" using rows_fade_trans [OF fade_release rows_fade_same] r by blast
      then show ?thesis using fade r release_moves by simp
    qed (simp add: fades_refl)
  next
    case (revoked now w)
    let ?r = "release_worker_active_assignments now ''worker revoked'' w s"
    have "rows_fade s s'" unfolding revoked revoke_worker_def by (rule rows_fade_trans [OF fade_release fade_delete_row])
    moreover have "life_moves s' = life_moves ?r" by (simp add: revoked revoke_worker_def delete_worker_row_def)
    ultimately show ?thesis using fade release_moves by simp
  next
    case (deleted now w)
    let ?f = "\<lambda>a. if active a then a\<lparr>asg_status := Asg_Expired, asg_finished := Some now, asg_error := Some ''worker deleted''\<rparr> else a"
    let ?u = "update_assignments (\<lambda>a. asg_worker a = Some w) ?f s"
    let ?r = "reset_games_for_replay False ''worker deleted'' now (active_worker_game_ids s w) ?u"
    have s': "s' = delete_worker_row w ?r" by (simp add: deleted delete_worker_def Let_def)
    have "rows_fade s ?r" by (rule rows_fade_update [where P = "\<lambda>a. asg_worker a = Some w" and f = ?f]) (simp_all split: if_splits)
    then have "rows_fade s s'" unfolding s' by (rule rows_fade_trans [OF _ fade_delete_row])
    moreover have "life_moves s' = life_moves ?r" by (simp add: s' delete_worker_row_def)
    ultimately show ?thesis using fade reset_moves [where s = ?u] by simp
  next
    case (status_set now t st)
    have "s' = s\<lparr>life_tournaments := life_tournaments s'\<rparr> \<or> (\<exists>P f. assignments s' = update_rows P f (assignments s)
        \<and> (\<forall>a. same_row a (f a)) \<and> (\<forall>a. \<not> active (f a))) \<and> life_moves s' = life_moves s"
      unfolding status_set set_tournament_status_def abandon_tournament_games_def Let_def
      by (auto intro!: exI [of _ "\<lambda>a. active a \<and> asg_game a \<in> _"] exI)
    then show ?thesis
    proof
      assume "s' = s\<lparr>life_tournaments := life_tournaments s'\<rparr>"
      then have "assignments s' = assignments s" "life_moves s' = life_moves s" by (metis lifecycle.simps lifecycle.surjective)+
      then show ?thesis by (intro fade rows_fade_same no_moves_lost)
    next
      assume "(\<exists>P f. assignments s' = update_rows P f (assignments s)
        \<and> (\<forall>a. same_row a (f a)) \<and> (\<forall>a. \<not> active (f a))) \<and> life_moves s' = life_moves s"
      then show ?thesis using updated_fades [OF assms(1,2)] by metis
    qed
  next
    case (restored now t)
    then obtain wanted reason ts where s': "s' = reset_games_for_replay True reason now wanted s\<lparr>life_tournaments := ts\<rparr>"
      by (auto simp: restore_tournament_def rbind_eq_Inr Let_def)
    have "rows_fade s s'" by (rule rows_fade_same) (simp add: s')
    then show ?thesis using fade reset_moves [where s = s] by (simp add: s')
  next
    case (replayed t g b)
    then have "assignments s' = assignments s" "life_moves s' = filter (\<lambda>m. move_game m \<notin> {g}) (life_moves s)"
      by (auto simp: replay_game_def rbind_eq_Inr Let_def)
    then show ?thesis using fade rows_fade_same by blast
  next
    case (invalidated t g ids)
    then have "assignments s' = filter (\<lambda>a. asg_game a \<notin> set ids) (assignments s)"
      "life_moves s' = filter (\<lambda>m. move_game m \<notin> set ids) (life_moves s)"
      by (auto simp: invalidate_game_pair_def rbind_eq_Inr Let_def delete_games_def)
    then show ?thesis using fade rows_fade_filter by blast
  qed
qed

lemma step_refines:
  assumes "life_step ks s s'" and "assignments_ok s"
  shows "fence_step ks (holder_of s g, moves_of s g) (holder_of s' g, moves_of s' g)"
proof (cases "\<exists>i k m. record_move s (Some i) (Some k) m = Inr s'")
  case True
  then show ?thesis using recorded_fence [OF _ assms(2)] by blast
next
  case recorded: False
  show ?thesis
  proof (cases "\<exists>now g0 k w a. assign_game_to_worker now s g0 k w = Inr (s', a) \<and> ks = [k]")
    case True
    then show ?thesis using assigned_fence [OF _ assms(2)] by blast
  next
    case False
    then have "fades s s'" using quiet_step_fades [OF assms] recorded by blast
    then show ?thesis by (rule fades_fence)
  qed
qed



interpretation tables: fenced_log assignments_ok life_step holder_of moves_of
  by unfold_locales (auto intro: step_assignments_ok step_refines)

lemma life_run_tables: "life_run ks s s' \<Longrightarrow> tables.run ks s s'"
  by (induction rule: life_run.induct) (auto intro: tables.run.intros)

text \<open>
  A game whose attempt has ended stays silent until it is assigned again: along any
  sequence of operations that issues no key, nobody holds the game and its moves are as they
  were or are cleared.
\<close>
theorem silent_until_reassigned:
  assumes "life_run ks s0 s" and "new_lifecycle s0" and "holder_of s g = None" and "life_run [] s s'"
  shows "holder_of s' g = None \<and> moves_of s' g \<in> {moves_of s g, []}"
  by (rule tables.silent_without_holder [OF life_run_tables [OF assms(4)]])
    (use run_assignments_ok [OF assms(1) new_assignments_ok [OF assms(2)]] assms(3) in simp_all)

lemma silent_until_reassigned_witness:
  "\<exists>s'. pause_game_assignment ''t4'' (after 5) 1 ''k1'' ''{}'' = Inr (after 6) \<and> s' = fst (resume_paused_tournament_games 1 (after 6))
     \<and> holder_of s' 1 = None \<and> moves_of s' 1 \<in> {moves_of (after 6) 1, []}"
proof -
  obtain ks where run: "life_run ks opened_life (after 6)" using after_runs by blast
  have "life_run ([] @ []) (after 6) (fst (resume_paused_tournament_games 1 (after 6)))"
    by (rule life_run.more [OF life_run.begun life_step.resumed])
  moreover have "holder_of (after 6) 1 = None" by code_simp
  moreover have "pause_game_assignment ''t4'' (after 5) 1 ''k1'' ''{}'' = Inr (after 6)" by code_simp
  ultimately show ?thesis using silent_until_reassigned [OF run opened_new] by simp
qed

end
