(* ===== verification/Rating_Commits.thy ===== *)
theory Rating_Commits
  imports Tournament_Store
begin

text \<open>
  Committing a tournament to rating lists: the request of \<open>cope/db/repo.py\<close>, the queue of runner
  commands with its processing in \<open>cope/runner/commands.py\<close>, and the application and removal of
  a commit in \<open>cope/ratings.py\<close>.  A command that fails is rolled back to its savepoint.  Of a
  payload, a JSON object, only what the program tests is kept: whether a field is an integer.
\<close>

datatype payload_value = PInt int | PBool bool | POther

datatype command_status = Cmd_Pending | Cmd_Claimed | Cmd_Applied | Cmd_Failed

type_synonym payload = "(string \<times> payload_value) list"

text \<open>The stored text of a payload may not be a JSON object.\<close>

record command_row =
  cmd_id :: int
  cmd_name :: string
  cmd_payload :: "payload option"
  cmd_status :: command_status
  cmd_created :: string
  cmd_claimed :: "string option"
  cmd_finished :: "string option"
  cmd_error :: "string option"

datatype commit_status = Commit_Pending | Commit_Claimed | Commit_Applied | Commit_Failed

record commit_row =
  commit_tournament :: int
  commit_list :: int
  commit_command :: "int option"
  commit_status :: commit_status
  commit_requested :: string
  commit_applied :: "string option"
  commit_error :: "string option"

record rating_list_row =
  list_id :: int
  list_name :: string
  list_variant :: string
  list_revision :: string

record rating_state =
  base :: store
  commands :: "command_row list"
  commits :: "commit_row list"
  rating_lists :: "rating_list_row list"
  history :: "(int \<times> int \<times> int) list"
  next_command :: int

definition commit_status_text :: "commit_status \<Rightarrow> string" where
  "commit_status_text st = (case st of Commit_Pending \<Rightarrow> ''pending'' | Commit_Claimed \<Rightarrow> ''claimed''
     | Commit_Applied \<Rightarrow> ''applied'' | Commit_Failed \<Rightarrow> ''failed'')"

definition commit_of :: "rating_state \<Rightarrow> int \<Rightarrow> int \<Rightarrow> commit_row option" where
  "commit_of s t l = List.find (\<lambda>c. commit_tournament c = t \<and> commit_list c = l) (commits s)"

definition update_commits :: "(commit_row \<Rightarrow> bool) \<Rightarrow> (commit_row \<Rightarrow> commit_row) \<Rightarrow> rating_state \<Rightarrow> rating_state" where
  "update_commits P f s = s\<lparr>commits := map (\<lambda>c. if P c then f c else c) (commits s)\<rparr>"

definition update_commands :: "(command_row \<Rightarrow> bool) \<Rightarrow> (command_row \<Rightarrow> command_row) \<Rightarrow> rating_state \<Rightarrow> rating_state" where
  "update_commands P f s = s\<lparr>commands := map (\<lambda>c. if P c then f c else c) (commands s)\<rparr>"

subsection \<open>Requesting\<close>

definition validate_rating_list_variant :: "rating_state \<Rightarrow> int \<Rightarrow> tournament_config \<Rightarrow> unit result" where
  "validate_rating_list_variant s l config =
     rbind (or_error (ValueError ''Rating list does not exist'') (List.find (\<lambda>r. list_id r = l) (rating_lists s))) (\<lambda>r.
     guard (list_variant r = config_variant config \<and> list_revision r = config_rules_revision config)
       (ValueError (''Rating list '' @ list_name r @ '' ('' @ list_variant r @ ''/'' @ list_revision r
         @ '') is incompatible with '' @ config_variant config @ ''/'' @ config_rules_revision config)))"

definition enqueue_runner_command :: "string \<Rightarrow> rating_state \<Rightarrow> string \<Rightarrow> payload \<Rightarrow> rating_state \<times> int" where
  "enqueue_runner_command now s name body =
     (s\<lparr>commands := commands s @ [\<lparr>cmd_id = next_command s, cmd_name = name, cmd_payload = Some body,
          cmd_status = Cmd_Pending, cmd_created = now, cmd_claimed = None, cmd_finished = None, cmd_error = None\<rparr>],
        next_command := next_command s + 1\<rparr>, next_command s)"

definition command_status_of :: "rating_state \<Rightarrow> int \<Rightarrow> command_status option" where
  "command_status_of s i = map_option cmd_status (List.find (\<lambda>c. cmd_id c = i) (commands s))"

definition waits_already :: "rating_state \<Rightarrow> commit_row option \<Rightarrow> bool" where
  "waits_already s existing = (case existing of None \<Rightarrow> False
     | Some c \<Rightarrow> commit_status c \<in> {Commit_Claimed, Commit_Applied}
         \<or> commit_status c = Commit_Pending \<and> (case commit_command c of None \<Rightarrow> False
             | Some i \<Rightarrow> command_status_of s i \<in> {Some Cmd_Pending, Some Cmd_Claimed}))"

definition commit_payload :: "int \<Rightarrow> int \<Rightarrow> payload" where
  "commit_payload t l = [(''tournament_id'', PInt t), (''rating_list_id'', PInt l)]"

definition request_one :: "string \<Rightarrow> tournament_record \<Rightarrow> rating_state \<times> int \<Rightarrow> int \<Rightarrow> (rating_state \<times> int) result" where
  "request_one now t = (\<lambda>(s, requested) l.
     rbind (validate_rating_list_variant s l (tour_config t)) (\<lambda>_. let existing = commit_of s (tour_id t) l in
       if waits_already s existing then Inr (s, requested)
       else let (s1, i) = enqueue_runner_command now s ''commit_tournament_results'' (commit_payload (tour_id t) l);
           row = \<lparr>commit_tournament = tour_id t, commit_list = l, commit_command = Some i,
             commit_status = Commit_Pending, commit_requested = now, commit_applied = None, commit_error = None\<rparr>
         in Inr (if existing = None then s1\<lparr>commits := commits s1 @ [row]\<rparr>
                 else update_commits (\<lambda>c. commit_tournament c = tour_id t \<and> commit_list c = l) (\<lambda>c. row) s1,
                 requested + 1)))"

definition matching_lists :: "rating_state \<Rightarrow> tournament_config \<Rightarrow> int list" where
  "matching_lists s config = map list_id (filter (\<lambda>r. list_variant r = config_variant config
     \<and> list_revision r = config_rules_revision config) (rating_lists s))"

definition request_tournament_rating_commit :: "string \<Rightarrow> rating_state \<Rightarrow> tournament_record \<Rightarrow> int list option
    \<Rightarrow> (rating_state \<times> int) result" where
  "request_tournament_rating_commit now s t wanted =
     rbind (guard (tour_status t \<in> {Finished, Aborted}) (ValueError ''tournament is not finished or aborted'')) (\<lambda>_.
     rbind (guard (tour_status t = Aborted \<longrightarrow> list_ex (\<lambda>g. game_tournament g = tour_id t \<and> game_status g = Game_Finished
          \<and> game_result g \<noteq> None) (games (base s))) (ValueError ''aborted tournament has no finished games'')) (\<lambda>_.
     rbind (guard (rated (tour_config t)) (ValueError ''unrated tournament results cannot be committed'')) (\<lambda>_.
     rbind (guard (tour_id t \<notin> set (relay_tournaments (base s)))
       (ValueError ''engine relay tournaments are never eligible for ratings'')) (\<lambda>_. let
       selected = sort (remdups (case wanted of None \<Rightarrow> matching_lists s (tour_config t) | Some ls \<Rightarrow> ls))
     in rbind (guard (selected \<noteq> [] \<and> \<not> list_ex (\<lambda>l. l \<le> 0) selected) (ValueError ''choose at least one rating list'')) (\<lambda>_.
        rbind (guard (list_all (\<lambda>l. l \<in> list_id ` set (rating_lists s)) selected)
          (ValueError ''one or more rating lists do not exist'')) (\<lambda>_.
        fold_result (request_one now t) (s, 0) selected))))))"

subsection \<open>Applying\<close>

definition payload_id :: "payload \<Rightarrow> string \<Rightarrow> int result" where
  "payload_id body name = (let bad = Inl (ValueError (''rating commit payload has an invalid '' @ name)) in
     case map_of body name of Some (PInt i) \<Rightarrow> if i \<le> 0 then bad else Inr i | _ \<Rightarrow> bad)"

definition committable_games :: "tournament_record \<Rightarrow> game_record list \<Rightarrow> game_record list" where
  "committable_games t gs = (let eligible = filter record_eligible gs in
     if tour_status t = Aborted then filter (\<lambda>g. game_status g = Game_Finished) eligible else eligible)"

definition validate_game :: "tournament_record \<Rightarrow> game_record \<Rightarrow> unit result" where
  "validate_game t g =
     rbind (guard (game_status g = Game_Finished \<and> game_result g \<noteq> None)
       (ValueError (''game '' @ int_str (game_id g) @ '' does not have a finished result''))) (\<lambda>_.
     guard (white_engine g \<in> set (participants (tour_config t)) \<and> black_engine g \<in> set (participants (tour_config t)))
       (ValueError (''game '' @ int_str (game_id g) @ '' contains a non-participant engine'')))"

definition validate_games :: "tournament_record \<Rightarrow> game_record list \<Rightarrow> unit result" where
  "validate_games t gs = rbind (guard (gs \<noteq> []) (ValueError ''tournament has no finished games'')) (\<lambda>_.
     fold_result (\<lambda>u g. validate_game t g) () gs)"

record commit_result =
  result_tournament :: int
  result_list :: int
  games_applied :: nat
  engines_updated :: nat

definition engines_of :: "game_record list \<Rightarrow> int list" where
  "engines_of gs = remdups (concat (map (\<lambda>g. [white_engine g, black_engine g]) gs))"

text \<open>
  Applying a commit has three parts: taking over the request, checking the tournament and its
  games, and marking the commit as applied.
\<close>

definition commit_key :: "int \<Rightarrow> int \<Rightarrow> commit_row \<Rightarrow> bool" where
  "commit_key t l c = (commit_tournament c = t \<and> commit_list c = l)"

definition take_over :: "rating_state \<Rightarrow> int \<Rightarrow> int \<Rightarrow> int \<Rightarrow> rating_state" where
  "take_over s i t l = update_commits (\<lambda>c. commit_key t l c \<and> commit_command c = None \<and> commit_status c = Commit_Pending)
     (\<lambda>c. c\<lparr>commit_command := Some i\<rparr>) s"

definition claim_rating_commit :: "rating_state \<Rightarrow> int \<Rightarrow> int \<Rightarrow> int \<Rightarrow> rating_state result" where
  "claim_rating_commit s i t l =
     rbind (or_error (ValueError ''rating commit request no longer exists'') (commit_of s t l)) (\<lambda>c0. let
       s1 = (if commit_command c0 = None then take_over s i t l else s)
     in rbind (or_error (ValueError ''rating commit command has been superseded'') (commit_of s1 t l)) (\<lambda>c.
        rbind (guard (commit_command c = Some i) (ValueError ''rating commit command has been superseded'')) (\<lambda>_.
        rbind (guard (commit_list c = l) (ValueError ''rating commit list does not match its request'')) (\<lambda>_.
        rbind (guard (commit_status c \<in> {Commit_Pending, Commit_Claimed})
          (ValueError (''rating commit is already '' @ commit_status_text (commit_status c)))) (\<lambda>_.
        Inr (update_commits (\<lambda>c. commit_key t l c \<and> commit_command c = Some i)
          (\<lambda>c. c\<lparr>commit_status := Commit_Claimed, commit_error := None\<rparr>) s1))))))"

definition games_to_rate :: "rating_state \<Rightarrow> int \<Rightarrow> int \<Rightarrow> game_record list result" where
  "games_to_rate s t l =
     rbind (or_error (ValueError ''tournament no longer exists'') (get_tournament (base s) t)) (\<lambda>tour.
     rbind (guard (tour_status tour \<in> {Finished, Aborted}) (ValueError ''tournament is not finished or aborted'')) (\<lambda>_.
     rbind (guard (rated (tour_config tour)) (ValueError ''tournament is not rated'')) (\<lambda>_.
     rbind (validate_rating_list_variant s l (tour_config tour)) (\<lambda>_.
     rbind (guard (t \<notin> set (relay_tournaments (base s)))
       (ValueError ''engine relay tournaments are never eligible for ratings'')) (\<lambda>_. let
       gs = committable_games tour (list_games (base s) t)
     in rbind (validate_games tour gs) (\<lambda>_. Inr gs))))))"

definition mark_applied :: "string \<Rightarrow> rating_state \<Rightarrow> int \<Rightarrow> int \<Rightarrow> int \<Rightarrow> rating_state result" where
  "mark_applied now s i t l = (let
     ready = (\<lambda>c. commit_key t l c \<and> commit_command c = Some i \<and> commit_status c = Commit_Claimed)
   in rbind (guard (length (filter ready (commits s)) = 1)
        (ValueError ''rating commit request changed while it was being applied'')) (\<lambda>_.
      Inr (update_commits ready (\<lambda>c. c\<lparr>commit_status := Commit_Applied, commit_applied := Some now, commit_error := None\<rparr>) s)))"

definition apply_tournament_rating_commit :: "string \<Rightarrow> rating_state \<Rightarrow> int \<Rightarrow> payload \<Rightarrow> (rating_state \<times> commit_result) result" where
  "apply_tournament_rating_commit now s i body =
     rbind (payload_id body ''tournament_id'') (\<lambda>t. rbind (payload_id body ''rating_list_id'') (\<lambda>l.
     rbind (claim_rating_commit s i t l) (\<lambda>s1. rbind (games_to_rate s1 t l) (\<lambda>gs.
     rbind (mark_applied now s1 i t l) (\<lambda>s2.
     Inr (s2, \<lparr>result_tournament = t, result_list = l, games_applied = length gs,
       engines_updated = length (engines_of gs)\<rparr>))))))"

definition uncommit_tournament_ratings :: "rating_state \<Rightarrow> int \<Rightarrow> int option \<Rightarrow> rating_state result" where
  "uncommit_tournament_ratings s t wanted = (let
     lists = sort (map commit_list (filter (\<lambda>c. commit_tournament c = t) (commits s)))
   in rbind (case wanted of Some l \<Rightarrow> Inr l
        | None \<Rightarrow> (case lists of [] \<Rightarrow> Inl (ValueError ''tournament ratings are not committed'') | l # _ \<Rightarrow> Inr l)) (\<lambda>l.
      case commit_of s t l of None \<Rightarrow> Inl (ValueError ''tournament ratings are not committed'')
      | Some c \<Rightarrow> if commit_status c \<noteq> Commit_Applied then Inl (ValueError ''tournament ratings are not committed'')
          else Inr (s\<lparr>commits := filter (\<lambda>c. \<not> (commit_tournament c = t \<and> commit_list c = l)) (commits s),
            history := filter (\<lambda>(k, u, g). \<not> (u = t \<and> k = l)) (history s)\<rparr>)))"

subsection \<open>The queue\<close>

definition claim_next_runner_command :: "string \<Rightarrow> rating_state \<Rightarrow> (rating_state \<times> int \<times> string \<times> payload) option" where
  "claim_next_runner_command now s = (case sort_key cmd_id (filter (\<lambda>c. cmd_status c = Cmd_Pending) (commands s)) of
     [] \<Rightarrow> None
   | row # _ \<Rightarrow> Some (update_commands (\<lambda>c. cmd_id c = cmd_id row \<and> cmd_status c = Cmd_Pending)
         (\<lambda>c. c\<lparr>cmd_status := Cmd_Claimed, cmd_claimed := Some now, cmd_finished := None, cmd_error := None\<rparr>) s,
       cmd_id row, cmd_name row, (case cmd_payload row of Some body \<Rightarrow> body | None \<Rightarrow> [(''_invalid_payload'', POther)])))"

definition finish_runner_command :: "string \<Rightarrow> int \<Rightarrow> rating_state \<Rightarrow> rating_state" where
  "finish_runner_command now i = update_commands (\<lambda>c. cmd_id c = i \<and> cmd_status c = Cmd_Claimed)
     (\<lambda>c. c\<lparr>cmd_status := Cmd_Applied, cmd_finished := Some now, cmd_error := None\<rparr>)"

definition fail_runner_command :: "string \<Rightarrow> int \<Rightarrow> string \<Rightarrow> rating_state \<Rightarrow> rating_state" where
  "fail_runner_command now i message = update_commands (\<lambda>c. cmd_id c = i \<and> cmd_status c = Cmd_Claimed)
     (\<lambda>c. c\<lparr>cmd_status := Cmd_Failed, cmd_finished := Some now, cmd_error := Some message\<rparr>)"

text \<open>The \<open>repr\<close> of a string, which the message about an unknown command shows.\<close>

definition hex_char :: "nat \<Rightarrow> char" where
  "hex_char d = ''0123456789abcdef'' ! d"

definition repr_char :: "char \<Rightarrow> char \<Rightarrow> string" where
  "repr_char q c = (let n = char_code c in
     if c = q \<or> n = 92 then [CHR 0x5C, c]
     else if n = 9 then [CHR 0x5C, CHR ''t''] else if n = 10 then [CHR 0x5C, CHR ''n'']
     else if n = 13 then [CHR 0x5C, CHR ''r'']
     else if n < 32 \<or> 127 \<le> n \<and> n \<le> 160 \<or> n = 173
     then [CHR 0x5C, CHR ''x'', hex_char (n div 16), hex_char (n mod 16)] else [c])"

definition repr_str :: "string \<Rightarrow> string" where
  "repr_str s = (let q = (if CHR 0x27 \<in> set s \<and> CHR 0x22 \<notin> set s then CHR 0x22 else CHR 0x27)
     in [q] @ concat (map (repr_char q) s) @ [q])"

definition dispatch_runner_command :: "string \<Rightarrow> rating_state \<Rightarrow> int \<Rightarrow> string \<Rightarrow> payload \<Rightarrow> (rating_state \<times> commit_result) result" where
  "dispatch_runner_command now s i name body =
     (if name = ''commit_tournament_results''
      then rbind (apply_tournament_rating_commit now s i body) (\<lambda>(s1, r).
        rbind (announce_results_committed (chat (base s1)) (result_tournament r) (result_list r)
          (int (games_applied r)) (int (engines_updated r))) (\<lambda>(c, m).
        Inr (s1\<lparr>base := (base s1)\<lparr>chat := c\<rparr>\<rparr>, r)))
      else Inl (ValueError (''unknown runner command '' @ repr_str name)))"

definition fail_linked_rating_commit :: "int \<Rightarrow> string \<Rightarrow> payload \<Rightarrow> string \<Rightarrow> rating_state \<Rightarrow> rating_state" where
  "fail_linked_rating_commit i name body message s =
     (if name \<noteq> ''commit_tournament_results'' then s
      else case (map_of body ''tournament_id'', map_of body ''rating_list_id'') of
        (Some (PInt t), Some (PInt l)) \<Rightarrow> update_commits (\<lambda>c. commit_status c \<in> {Commit_Pending, Commit_Claimed}
            \<and> (commit_command c = Some i \<or> commit_command c = None \<and> commit_tournament c = t \<and> commit_list c = l))
          (\<lambda>c. c\<lparr>commit_command := (case commit_command c of None \<Rightarrow> Some i | Some j \<Rightarrow> Some j),
             commit_status := Commit_Failed, commit_applied := None, commit_error := Some message\<rparr>) s
      | _ \<Rightarrow> s)"

text \<open>The text of an error; an exception without a message is told by its class.\<close>

definition exn_text :: "exn \<Rightarrow> string" where
  "exn_text e = (case e of ValueError m \<Rightarrow> (if strip m = [] then ''ValueError'' else strip m)
     | RuntimeError m \<Rightarrow> (if strip m = [] then ''RuntimeError'' else strip m)
     | TypeError m \<Rightarrow> (if strip m = [] then ''TypeError'' else strip m)
     | IllegalEngineTurn m \<Rightarrow> (if strip m = [] then ''IllegalEngineTurn'' else strip m)
     | IndexError \<Rightarrow> ''IndexError'' | KeyError \<Rightarrow> ''KeyError'' | TimeOutError \<Rightarrow> ''TimeOutError''
     | AssertionError \<Rightarrow> ''AssertionError'' | IntegrityError \<Rightarrow> ''IntegrityError'')"

definition command_error :: "int \<Rightarrow> string \<Rightarrow> exn \<Rightarrow> string" where
  "command_error i name e = take 1000 (''Command '' @ int_str i @ '' ('' @ name @ '') failed: '' @ exn_text e)"

record command_report =
  applied_commands :: nat
  failed_commands :: nat
  report_errors :: "string list"
  report_commits :: "commit_result list"

definition process_one :: "string \<Rightarrow> rating_state \<Rightarrow> command_report \<Rightarrow> (rating_state \<times> command_report) option" where
  "process_one now s r = (case claim_next_runner_command now s of None \<Rightarrow> None
   | Some (s1, i, name, body) \<Rightarrow> Some (case dispatch_runner_command now s1 i name body of
       Inl e \<Rightarrow> let message = command_error i name e in
         (fail_linked_rating_commit i name body message (fail_runner_command now i message s1),
          r\<lparr>failed_commands := failed_commands r + 1, report_errors := report_errors r @ [message]\<rparr>)
     | Inr (s2, committed) \<Rightarrow> (finish_runner_command now i s2,
          r\<lparr>applied_commands := applied_commands r + 1, report_commits := report_commits r @ [committed]\<rparr>)))"

text \<open>The loop runs in one transaction, so that the update of a claim always finds its row.\<close>

definition waiting_commands :: "rating_state \<Rightarrow> command_row list" where
  "waiting_commands s = filter (\<lambda>c. cmd_status c = Cmd_Pending) (commands s)"

lemma update_commands_simps [simp]:
  "commands (update_commands P f s) = map (\<lambda>c. if P c then f c else c) (commands s)"
  "commits (update_commands P f s) = commits s" "base (update_commands P f s) = base s"
  "rating_lists (update_commands P f s) = rating_lists s" "history (update_commands P f s) = history s"
  "next_command (update_commands P f s) = next_command s"
  by (simp_all add: update_commands_def)

lemma update_commits_simps [simp]:
  "commits (update_commits P f s) = map (\<lambda>c. if P c then f c else c) (commits s)"
  "commands (update_commits P f s) = commands s" "base (update_commits P f s) = base s"
  "rating_lists (update_commits P f s) = rating_lists s" "history (update_commits P f s) = history s"
  "next_command (update_commits P f s) = next_command s"
  by (simp_all add: update_commits_def)

definition claim_command :: "string \<Rightarrow> int \<Rightarrow> rating_state \<Rightarrow> rating_state" where
  "claim_command now i = update_commands (\<lambda>c. cmd_id c = i \<and> cmd_status c = Cmd_Pending)
     (\<lambda>c. c\<lparr>cmd_status := Cmd_Claimed, cmd_claimed := Some now, cmd_finished := None, cmd_error := None\<rparr>)"

lemma claim_next_eq_None: "claim_next_runner_command now s = None \<longleftrightarrow> waiting_commands s = []"
proof -
  have "sort_key cmd_id (waiting_commands s) = [] \<longleftrightarrow> waiting_commands s = []"
    by (metis length_0_conv length_sort)
  then show ?thesis
    by (auto simp: claim_next_runner_command_def waiting_commands_def split: list.splits)
qed

lemma claim_next_eq_Some:
  assumes "claim_next_runner_command now s = Some (s1, i, name, body)"
  obtains row where "row \<in> set (commands s)" "cmd_status row = Cmd_Pending" "i = cmd_id row" "name = cmd_name row"
    "body = (case cmd_payload row of Some b \<Rightarrow> b | None \<Rightarrow> [(''_invalid_payload'', POther)])" "s1 = claim_command now i s"
proof -
  let ?W = "sort_key cmd_id (filter (\<lambda>c. cmd_status c = Cmd_Pending) (commands s))"
  obtain row rest where W: "?W = row # rest"
    using assms by (cases ?W) (auto simp: claim_next_runner_command_def)
  have "row \<in> set ?W" by (simp only: W list.set_intros)
  then have row: "row \<in> set (commands s)" "cmd_status row = Cmd_Pending" by auto
  have "Some (claim_command now (cmd_id row) s, cmd_id row, cmd_name row,
      (case cmd_payload row of Some b \<Rightarrow> b | None \<Rightarrow> [(''_invalid_payload'', POther)])) = Some (s1, i, name, body)"
    using assms by (simp only: claim_next_runner_command_def claim_command_def W list.case)
  then show thesis
    using that [OF row] by auto
qed

text \<open>What an applied commit changes, when no pending commit is without its command.\<close>

lemma claim_rating_commit_commits:
  assumes "claim_rating_commit s i t l = Inr s1"
    and "\<forall>c\<in>set (commits s). commit_status c = Commit_Pending \<longrightarrow> commit_command c \<noteq> None"
  shows "s1 = update_commits (\<lambda>c. commit_key t l c \<and> commit_command c = Some i)
          (\<lambda>c. c\<lparr>commit_status := Commit_Claimed, commit_error := None\<rparr>) s"
proof -
  have "map (\<lambda>c. if commit_key t l c \<and> commit_command c = None \<and> commit_status c = Commit_Pending
      then c\<lparr>commit_command := Some i\<rparr> else c) (commits s) = commits s"
    using assms(2) by (intro map_idI) auto
  then have "take_over s i t l = s"
    by (simp add: take_over_def update_commits_def)
  then show ?thesis
    using assms(1) by (auto simp: claim_rating_commit_def result_simps Let_def)
qed

lemma apply_commit_commits:
  assumes "apply_tournament_rating_commit now s i body = Inr (s', r)"
    and "\<forall>c\<in>set (commits s). commit_status c = Commit_Pending \<longrightarrow> commit_command c \<noteq> None"
  obtains t l where "payload_id body ''tournament_id'' = Inr t" "payload_id body ''rating_list_id'' = Inr l"
    "s' = update_commits (\<lambda>c. commit_key t l c \<and> commit_command c = Some i)
       (\<lambda>c. c\<lparr>commit_status := Commit_Applied, commit_applied := Some now, commit_error := None\<rparr>) s"
proof -
  obtain t l s1 where t: "payload_id body ''tournament_id'' = Inr t" and l: "payload_id body ''rating_list_id'' = Inr l"
    and s1: "claim_rating_commit s i t l = Inr s1" and m: "mark_applied now s1 i t l = Inr s'"
    using assms(1) by (auto simp: apply_tournament_rating_commit_def result_simps)
  show thesis
  proof (rule that [OF t l])
    show "s' = update_commits (\<lambda>c. commit_key t l c \<and> commit_command c = Some i)
       (\<lambda>c. c\<lparr>commit_status := Commit_Applied, commit_applied := Some now, commit_error := None\<rparr>) s"
      using m claim_rating_commit_commits [OF s1 assms(2)]
      by (auto simp: mark_applied_def result_simps Let_def update_commits_def commit_key_def)
  qed
qed

lemma claim_rating_commit_frame:
  "claim_rating_commit s i t l = Inr s1 \<Longrightarrow> commands s1 = commands s \<and> base s1 = base s \<and> next_command s1 = next_command s"
  by (auto simp: claim_rating_commit_def result_simps Let_def take_over_def)

lemma apply_commit_commands:
  assumes "apply_tournament_rating_commit now s i body = Inr (s', r)"
  shows "commands s' = commands s \<and> next_command s' = next_command s"
  using assms by (auto simp: apply_tournament_rating_commit_def mark_applied_def result_simps Let_def
      dest: claim_rating_commit_frame)

subsection \<open>The loop ends\<close>

lemma filter_map_kept:
  assumes "\<And>c. c \<in> set cs \<Longrightarrow> P (g c) \<longleftrightarrow> Q c" "\<And>c. c \<in> set cs \<Longrightarrow> Q c \<Longrightarrow> g c = c"
  shows "filter P (map g cs) = filter Q cs"
  using assms by (induction cs) auto

lemma waiting_after_claim:
  "waiting_commands (claim_command now i s) = filter (\<lambda>c. cmd_id c \<noteq> i) (waiting_commands s)"
  by (auto simp: waiting_commands_def claim_command_def filter_filter intro!: filter_map_kept split: if_splits)

lemma fail_linked_frame [simp]: "commands (fail_linked_rating_commit i name body m s) = commands s"
  "next_command (fail_linked_rating_commit i name body m s) = next_command s"
  by (auto simp: fail_linked_rating_commit_def split: option.splits payload_value.splits)

lemma waiting_after_end:
  "waiting_commands (finish_runner_command now i s) = waiting_commands s"
  "waiting_commands (fail_runner_command now i m s) = waiting_commands s"
  by (auto simp: waiting_commands_def finish_runner_command_def fail_runner_command_def intro!: filter_map_kept split: if_splits)

lemma waiting_commands_cong: "commands s = commands s' \<Longrightarrow> waiting_commands s = waiting_commands s'"
  by (simp add: waiting_commands_def)

lemma dispatch_frame:
  assumes "dispatch_runner_command now s i name body = Inr (s', r)"
  obtains s1 c m where "name = ''commit_tournament_results''" "apply_tournament_rating_commit now s i body = Inr (s1, r)"
    "s' = s1\<lparr>base := (base s1)\<lparr>chat := c\<rparr>\<rparr>"
  using assms by (auto simp: dispatch_runner_command_def result_simps split: if_splits)

lemma dispatch_commands:
  "dispatch_runner_command now s i name body = Inr (s', r) \<Longrightarrow> commands s' = commands s"
  "dispatch_runner_command now s i name body = Inr (s', r) \<Longrightarrow> next_command s' = next_command s"
  by (erule dispatch_frame, simp add: apply_commit_commands)+

lemma process_one_waiting:
  assumes "process_one now s r = Some (s1, r1)"
  obtains row where "row \<in> set (waiting_commands s)"
    "waiting_commands s1 = filter (\<lambda>c. cmd_id c \<noteq> cmd_id row) (waiting_commands s)"
proof -
  obtain s0 i name body where cl: "claim_next_runner_command now s = Some (s0, i, name, body)"
    using assms by (auto simp: process_one_def split: option.splits)
  obtain row where row: "row \<in> set (commands s)" "cmd_status row = Cmd_Pending" "i = cmd_id row"
    and s0: "s0 = claim_command now i s"
    using claim_next_eq_Some [OF cl] by metis
  have W: "waiting_commands s1 = waiting_commands s0"
  proof (cases "dispatch_runner_command now s0 i name body")
    case (Inl e)
    then show ?thesis
      using assms cl waiting_commands_cong [OF fail_linked_frame(1)] by (auto simp: process_one_def Let_def waiting_after_end)
  next
    case (Inr p)
    then show ?thesis
      using assms cl waiting_commands_cong [OF dispatch_commands(1)]
      by (cases p) (auto simp: process_one_def waiting_after_end)
  qed
  show thesis
  proof (rule that)
    show "row \<in> set (waiting_commands s)" using row by (simp add: waiting_commands_def)
    show "waiting_commands s1 = filter (\<lambda>c. cmd_id c \<noteq> cmd_id row) (waiting_commands s)"
      by (simp add: W s0 waiting_after_claim row(3))
  qed
qed

lemma process_one_less:
  "process_one now s r = Some (s1, r1) \<Longrightarrow> length (waiting_commands s1) < length (waiting_commands s)"
  by (erule process_one_waiting) (auto intro: length_filter_less)

function process_commands :: "string \<Rightarrow> rating_state \<Rightarrow> command_report \<Rightarrow> rating_state \<times> command_report" where
  "process_commands now s r = (case process_one now s r of None \<Rightarrow> (s, r)
     | Some (s1, r1) \<Rightarrow> process_commands now s1 r1)"
  by pat_completeness auto

termination
  by (relation "measure (\<lambda>(now, s, r). length (waiting_commands s))") (auto dest: process_one_less)

declare process_commands.simps [simp del]

definition process_pending_runner_commands :: "string \<Rightarrow> rating_state \<Rightarrow> rating_state \<times> command_report" where
  "process_pending_runner_commands now s = process_commands now s
     \<lparr>applied_commands = 0, failed_commands = 0, report_errors = [], report_commits = []\<rparr>"

end
