(* ===== verification/Rating_Queue.thy ===== *)
theory Rating_Queue
  imports Rating_Commits
begin

text \<open>
  What the queue of runner commands guarantees: every processed command settles the commit that
  waits for it, so that processing the queue answers every request; a request that is repeated
  before it is answered enqueues nothing.
\<close>

subsection \<open>Every request is answered\<close>

text \<open>The command that will answer a pending commit.\<close>

definition answers :: "commit_row \<Rightarrow> command_row \<Rightarrow> bool" where
  "answers c k = (commit_command c = Some (cmd_id k) \<and> cmd_status k = Cmd_Pending
     \<and> cmd_name k = ''commit_tournament_results''
     \<and> cmd_payload k = Some (commit_payload (commit_tournament c) (commit_list c)))"

definition queue_ok :: "rating_state \<Rightarrow> bool" where
  "queue_ok s = (distinct (map cmd_id (commands s))
     \<and> (\<forall>k\<in>set (commands s). cmd_id k < next_command s \<and> cmd_status k \<noteq> Cmd_Claimed)
     \<and> (\<forall>c\<in>set (commits s). commit_status c \<noteq> Commit_Claimed
          \<and> (commit_status c = Commit_Pending \<longrightarrow> (\<exists>k\<in>set (commands s). answers c k))))"

lemma queue_ok_answer_unique:
  assumes "queue_ok s" "k \<in> set (commands s)" "c \<in> set (commits s)" "commit_status c = Commit_Pending"
    "commit_command c = Some (cmd_id k)"
  shows "answers c k"
proof -
  obtain k' where k': "k' \<in> set (commands s)" "answers c k'" using assms by (auto simp: queue_ok_def)
  then have "cmd_id k' = cmd_id k" using assms(5) by (simp add: answers_def)
  then have "k' = k" using assms(1,2) k'(1) by (auto simp: queue_ok_def distinct_map inj_on_def)
  then show ?thesis using k' by simp
qed

definition same_commit :: "commit_row \<Rightarrow> commit_row \<Rightarrow> bool" where
  "same_commit c d = (commit_tournament c = commit_tournament d \<and> commit_list c = commit_list d)"

text \<open>How the processing of a command changes the commits and the commands.\<close>

definition settles :: "rating_state \<Rightarrow> int \<Rightarrow> rating_state \<Rightarrow> bool" where
  "settles s i s1 = (\<exists>h g. commits s1 = map h (commits s) \<and> commands s1 = map g (commands s)
     \<and> next_command s1 = next_command s
     \<and> (\<forall>c\<in>set (commits s). commit_status (h c) \<in> {Commit_Applied, Commit_Failed}
          \<or> h c = c \<and> \<not> (commit_status c = Commit_Pending \<and> commit_command c = Some i))
     \<and> (\<forall>c. same_commit (h c) c)
     \<and> (\<forall>k\<in>set (commands s). cmd_id (g k) = cmd_id k \<and> (if cmd_id k = i then cmd_status (g k) \<in> {Cmd_Applied, Cmd_Failed}
          else g k = k)))"

lemma settles_queue_ok:
  assumes "queue_ok s" "settles s i s1"
  shows "queue_ok s1"
proof -
  obtain h g where hg: "commits s1 = map h (commits s)" "commands s1 = map g (commands s)"
    "next_command s1 = next_command s"
    and h: "\<And>c. c \<in> set (commits s) \<Longrightarrow> commit_status (h c) \<in> {Commit_Applied, Commit_Failed}
          \<or> h c = c \<and> \<not> (commit_status c = Commit_Pending \<and> commit_command c = Some i)"
    and g: "\<And>k. k \<in> set (commands s) \<Longrightarrow> cmd_id (g k) = cmd_id k
          \<and> (if cmd_id k = i then cmd_status (g k) \<in> {Cmd_Applied, Cmd_Failed} else g k = k)"
    using assms(2) unfolding settles_def by metis
  have ids: "map cmd_id (map g (commands s)) = map cmd_id (commands s)"
    using g by (simp add: comp_def)
  show ?thesis
    unfolding queue_ok_def hg ids
  proof (intro conjI ballI impI)
    show "distinct (map cmd_id (commands s))" using assms(1) by (simp add: queue_ok_def)
  next
    fix k assume "k \<in> set (map g (commands s))"
    then show "cmd_id k < next_command s" "cmd_status k \<noteq> Cmd_Claimed"
      using assms(1) g by (fastforce simp: queue_ok_def split: if_splits)+
  next
    fix c assume "c \<in> set (map h (commits s))"
    then show "commit_status c \<noteq> Commit_Claimed"
      using assms(1) h by (fastforce simp: queue_ok_def)
  next
    fix c assume "c \<in> set (map h (commits s))" "commit_status c = Commit_Pending"
    then have c: "c \<in> set (commits s)" "commit_command c \<noteq> Some i" using h by fastforce+
    obtain k where k: "k \<in> set (commands s)" "answers c k"
      using assms(1) c(1) \<open>commit_status c = Commit_Pending\<close> by (auto simp: queue_ok_def)
    then have "g k = k" using c(2) g [OF k(1)] by (auto simp: answers_def split: if_splits)
    then show "\<exists>k\<in>set (map g (commands s)). answers c k" using k by force
  qed
qed

definition claim_row :: "string \<Rightarrow> int \<Rightarrow> command_row \<Rightarrow> command_row" where
  "claim_row now i k = (if cmd_id k = i \<and> cmd_status k = Cmd_Pending
     then k\<lparr>cmd_status := Cmd_Claimed, cmd_claimed := Some now, cmd_finished := None, cmd_error := None\<rparr> else k)"

definition end_row :: "string \<Rightarrow> int \<Rightarrow> command_status \<Rightarrow> string option \<Rightarrow> command_row \<Rightarrow> command_row" where
  "end_row now i st e k = (if cmd_id k = i \<and> cmd_status k = Cmd_Claimed
     then k\<lparr>cmd_status := st, cmd_finished := Some now, cmd_error := e\<rparr> else k)"

lemma rows_of_commands:
  "commands (claim_command now i s) = map (claim_row now i) (commands s)"
  "commands (finish_runner_command now i s) = map (end_row now i Cmd_Applied None) (commands s)"
  "commands (fail_runner_command now i m s) = map (end_row now i Cmd_Failed (Some m)) (commands s)"
  by (simp_all add: claim_command_def finish_runner_command_def fail_runner_command_def claim_row_def end_row_def)

lemma row_of_id:
  assumes "queue_ok s" "row \<in> set (commands s)" "k \<in> set (commands s)" "cmd_id k = cmd_id row"
  shows "k = row"
  using assms by (auto simp: queue_ok_def distinct_map inj_on_def)

lemma settledI:
  assumes ok: "queue_ok s" and row: "row \<in> set (commands s)" "cmd_status row = Cmd_Pending" "i = cmd_id row"
    and st: "st \<in> {Cmd_Applied, Cmd_Failed}"
    and s1: "commands s1 = map (end_row now i st e) (map (claim_row now i) (commands s))"
      "next_command s1 = next_command s" "commits s1 = map h (commits s)"
    and h: "\<And>c. c \<in> set (commits s) \<Longrightarrow> commit_status (h c) \<in> {Commit_Applied, Commit_Failed}
          \<or> h c = c \<and> \<not> (commit_status c = Commit_Pending \<and> commit_command c = Some i)"
    and same: "\<And>c. same_commit (h c) c"
  shows "settles s i s1"
proof -
  let ?g = "\<lambda>k. end_row now i st e (claim_row now i k)"
  have g: "cmd_id (?g k) = cmd_id k" "if cmd_id k = i then cmd_status (?g k) \<in> {Cmd_Applied, Cmd_Failed} else ?g k = k"
    if "k \<in> set (commands s)" for k
    using row_of_id [OF ok row(1) that] row(2,3) st by (auto simp: end_row_def claim_row_def)
  show ?thesis
    unfolding settles_def
  proof (intro exI conjI ballI allI)
    show "commands s1 = map ?g (commands s)" using s1(1) by simp
  qed (fact s1(2,3) h same | erule g)+
qed

lemma fail_linked_commits:
  obtains h where "commits (fail_linked_rating_commit i name body m s) = map h (commits s)"
    "\<And>c. commit_status (h c) = Commit_Failed \<or> h c = c \<and> \<not> (name = ''commit_tournament_results''
       \<and> (\<exists>t l. body = commit_payload t l) \<and> commit_status c = Commit_Pending \<and> commit_command c = Some i)"
    "\<And>c. same_commit (h c) c"
proof (cases "\<exists>t l. name = ''commit_tournament_results'' \<and> map_of body ''tournament_id'' = Some (PInt t)
    \<and> map_of body ''rating_list_id'' = Some (PInt l)")
  case True
  then obtain t l where b: "name = ''commit_tournament_results''" "map_of body ''tournament_id'' = Some (PInt t)"
    "map_of body ''rating_list_id'' = Some (PInt l)" by auto
  show thesis
    by (rule that [of "\<lambda>c. if commit_status c \<in> {Commit_Pending, Commit_Claimed}
            \<and> (commit_command c = Some i \<or> commit_command c = None \<and> commit_tournament c = t \<and> commit_list c = l)
          then c\<lparr>commit_command := (case commit_command c of None \<Rightarrow> Some i | Some j \<Rightarrow> Some j),
             commit_status := Commit_Failed, commit_applied := None, commit_error := Some m\<rparr> else c"])
      (simp add: fail_linked_rating_commit_def b, auto simp: same_commit_def)
next
  case False
  then have "fail_linked_rating_commit i name body m s = s"
    by (auto simp: fail_linked_rating_commit_def split: option.splits payload_value.splits)
  moreover have "\<not> (name = ''commit_tournament_results'' \<and> (\<exists>t l. body = commit_payload t l))"
    using False by (auto simp: commit_payload_def)
  ultimately show thesis
    using that [of id] by (auto simp: same_commit_def)
qed

lemma commit_payload_ids:
  "payload_id (commit_payload t l) ''tournament_id'' = Inr t' \<Longrightarrow> t' = t"
  "payload_id (commit_payload t l) ''rating_list_id'' = Inr l' \<Longrightarrow> l' = l"
  by (auto simp: payload_id_def commit_payload_def Let_def split: if_splits)

lemma process_one_settles:
  assumes ok: "queue_ok s" and one: "process_one now s r = Some (s1, r1)"
  obtains i where "i \<in> cmd_id ` set (waiting_commands s)" "settles s i s1"
    "applied_commands r1 + failed_commands r1 = Suc (applied_commands r + failed_commands r)"
proof -
  obtain s0 i name body where cl: "claim_next_runner_command now s = Some (s0, i, name, body)"
    using one by (auto simp: process_one_def split: option.splits)
  obtain row where row: "row \<in> set (commands s)" "cmd_status row = Cmd_Pending" "i = cmd_id row" "name = cmd_name row"
    and body: "body = (case cmd_payload row of Some b \<Rightarrow> b | None \<Rightarrow> [(''_invalid_payload'', POther)])"
    and s0: "s0 = claim_command now i s"
    using claim_next_eq_Some [OF cl] by metis
  have s0_simps: "commits s0 = commits s" "next_command s0 = next_command s"
    by (simp_all add: s0 claim_command_def)
  have mine: "name = ''commit_tournament_results'' \<and> body = commit_payload (commit_tournament c) (commit_list c)"
    if "c \<in> set (commits s)" "commit_status c = Commit_Pending" "commit_command c = Some i" for c
    using queue_ok_answer_unique [OF ok row(1) that(1,2)] that(3) row(3,4) body by (simp add: answers_def)
  have linked: "\<forall>c\<in>set (commits s0). commit_status c = Commit_Pending \<longrightarrow> commit_command c \<noteq> None"
    using ok by (auto simp: s0_simps queue_ok_def answers_def)
  have settled: "settles s i s1"
  proof (cases "dispatch_runner_command now s0 i name body")
    case (Inl e)
    let ?m = "command_error i name e"
    have s1: "s1 = fail_linked_rating_commit i name body ?m (fail_runner_command now i ?m s0)"
      using one cl Inl by (simp add: process_one_def Let_def)
    obtain h where h: "commits s1 = map h (commits (fail_runner_command now i ?m s0))"
      "\<And>c. commit_status (h c) = Commit_Failed \<or> h c = c \<and> \<not> (name = ''commit_tournament_results''
       \<and> (\<exists>t l. body = commit_payload t l) \<and> commit_status c = Commit_Pending \<and> commit_command c = Some i)"
      "\<And>c. same_commit (h c) c"
      unfolding s1 by (rule fail_linked_commits [of i name body ?m "fail_runner_command now i ?m s0"]) blast
    have frame: "commits (fail_runner_command now i ?m s0) = commits s" "next_command s1 = next_command s"
      by (simp_all add: fail_runner_command_def s0_simps s1)
    show ?thesis
    proof (rule settledI [OF ok row(1-3)])
      show "commands s1 = map (end_row now i Cmd_Failed (Some ?m)) (map (claim_row now i) (commands s))"
        by (simp add: s1 s0 rows_of_commands)
      show "commits s1 = map h (commits s)" using h(1) by (simp add: frame)
      show "commit_status (h c) \<in> {Commit_Applied, Commit_Failed}
          \<or> h c = c \<and> \<not> (commit_status c = Commit_Pending \<and> commit_command c = Some i)"
        if "c \<in> set (commits s)" for c
        using h(2) [of c] mine [OF that] by auto
    qed (simp_all add: frame h(3))
  next
    case (Inr p)
    then obtain s2 x where p: "dispatch_runner_command now s0 i name body = Inr (s2, x)" by (cases p) auto
    obtain s3 c m where s3: "apply_tournament_rating_commit now s0 i body = Inr (s3, x)"
      "s2 = s3\<lparr>base := (base s3)\<lparr>chat := c\<rparr>\<rparr>"
      using p by (rule dispatch_frame)
    obtain t l where tl: "payload_id body ''tournament_id'' = Inr t" "payload_id body ''rating_list_id'' = Inr l"
      "s3 = update_commits (\<lambda>c. commit_key t l c \<and> commit_command c = Some i)
         (\<lambda>c. c\<lparr>commit_status := Commit_Applied, commit_applied := Some now, commit_error := None\<rparr>) s0"
      by (rule apply_commit_commits [OF s3(1) linked]) (rule that)
    have s1: "s1 = finish_runner_command now i s2"
      using one cl p by (simp add: process_one_def)
    show ?thesis
    proof (rule settledI [OF ok row(1-3)])
      show "commands s1 = map (end_row now i Cmd_Applied None) (map (claim_row now i) (commands s))"
        by (simp add: s1 s3(2) tl(3) s0 rows_of_commands)
      show "commits s1 = map (\<lambda>c. if commit_key t l c \<and> commit_command c = Some i
          then c\<lparr>commit_status := Commit_Applied, commit_applied := Some now, commit_error := None\<rparr> else c) (commits s)"
        by (simp add: s1 s3(2) tl(3) s0_simps finish_runner_command_def)
      show "commit_status (if commit_key t l c \<and> commit_command c = Some i
          then c\<lparr>commit_status := Commit_Applied, commit_applied := Some now, commit_error := None\<rparr> else c)
            \<in> {Commit_Applied, Commit_Failed}
          \<or> (if commit_key t l c \<and> commit_command c = Some i
          then c\<lparr>commit_status := Commit_Applied, commit_applied := Some now, commit_error := None\<rparr> else c) = c
            \<and> \<not> (commit_status c = Commit_Pending \<and> commit_command c = Some i)"
        if "c \<in> set (commits s)" for c
      proof -
        have "commit_key t l c" if "commit_status c = Commit_Pending" "commit_command c = Some i"
          using mine [OF \<open>c \<in> set (commits s)\<close> that] tl(1,2) by (auto simp: commit_key_def dest!: commit_payload_ids)
        then show ?thesis by auto
      qed
    qed (simp_all add: s1 s3(2) tl(3) s0_simps finish_runner_command_def same_commit_def)
  qed
  have i: "i \<in> cmd_id ` set (waiting_commands s)" using row by (auto simp: waiting_commands_def)
  have count: "applied_commands r1 + failed_commands r1 = Suc (applied_commands r + failed_commands r)"
    using one cl by (auto simp: process_one_def Let_def split: sum.splits)
  show thesis by (rule that [OF i settled count])
qed

lemma length_filter_key:
  "distinct (map f xs) \<Longrightarrow> x \<in> set xs \<Longrightarrow> Suc (length (filter (\<lambda>y. f y \<noteq> f x) xs)) = length xs"
proof (induction xs)
  case (Cons a xs)
  show ?case
  proof (cases "a = x")
    case True
    then have "filter (\<lambda>y. f y \<noteq> f x) xs = xs" using Cons.prems by (auto simp: image_iff intro!: filter_True)
    then show ?thesis using True by simp
  next
    case False
    then have "f a \<noteq> f x" "x \<in> set xs" using Cons.prems by auto
    then show ?thesis using Cons by simp
  qed
qed simp

lemma distinct_waiting: "queue_ok s \<Longrightarrow> distinct (map cmd_id (waiting_commands s))"
  by (auto simp: queue_ok_def waiting_commands_def distinct_map inj_on_def)

lemma settles_keys: "settles s i s1 \<Longrightarrow> list_all2 same_commit (commits s1) (commits s)"
  by (auto simp: settles_def list_all2_map1 intro!: list.rel_refl_strong)

lemma same_commits_trans:
  "list_all2 same_commit xs ys \<Longrightarrow> list_all2 same_commit ys zs \<Longrightarrow> list_all2 same_commit xs zs"
  by (rule list_all2_trans) (auto simp: same_commit_def)

lemma process_commands_answers:
  assumes "queue_ok s"
  shows "(case process_commands now s r of (s', r') \<Rightarrow> waiting_commands s' = [] \<and> queue_ok s'
    \<and> list_all2 same_commit (commits s') (commits s)
    \<and> applied_commands r' + failed_commands r' = applied_commands r + failed_commands r + length (waiting_commands s))"
  using assms
proof (induction now s r rule: process_commands.induct)
  case (1 now s r)
  show ?case
  proof (cases "process_one now s r")
    case None
    then have "waiting_commands s = []"
      by (auto simp: process_one_def dest: claim_next_eq_None [THEN iffD1] split: option.splits)
    then show ?thesis
      using 1(2) None by (simp add: process_commands.simps [of now s r] list.rel_refl_strong same_commit_def)
  next
    case (Some p)
    obtain s1 r1 where p: "p = (s1, r1)" by (cases p)
    then have one: "process_one now s r = Some (s1, r1)" using Some by simp
    obtain i where i: "settles s i s1"
      "applied_commands r1 + failed_commands r1 = Suc (applied_commands r + failed_commands r)"
      by (rule process_one_settles [OF 1(2) one]) (rule that)
    obtain row where row: "row \<in> set (waiting_commands s)"
      "waiting_commands s1 = filter (\<lambda>c. cmd_id c \<noteq> cmd_id row) (waiting_commands s)"
      by (rule process_one_waiting [OF one]) (rule that)
    have len: "Suc (length (waiting_commands s1)) = length (waiting_commands s)"
      unfolding row(2) by (rule length_filter_key [OF distinct_waiting [OF 1(2)] row(1)])
    have ok: "queue_ok s1" by (rule settles_queue_ok [OF 1(2) i(1)])
    show ?thesis
      using 1(1) [OF Some p [symmetric] ok] settles_keys [OF i(1)] i(2) len
      by (auto simp: process_commands.simps [of now s r] one elim: same_commits_trans split: prod.splits)
  qed
qed

subsection \<open>The life of the queue\<close>

inductive rating_step :: "rating_state \<Rightarrow> rating_state \<Rightarrow> bool" where
  Request: "request_tournament_rating_commit now s t wanted = Inr (s', n) \<Longrightarrow> rating_step s s'"
| Process: "process_pending_runner_commands now s = (s', r) \<Longrightarrow> rating_step s s'"
| Uncommit: "uncommit_tournament_ratings s t wanted = Inr s' \<Longrightarrow> rating_step s s'"
| Enqueue: "enqueue_runner_command now s name body = (s', i) \<Longrightarrow> rating_step s s'"
| Elsewhere: "rating_step s (s\<lparr>base := b, rating_lists := ls, history := h\<rparr>)"

inductive rating_reach :: "rating_state \<Rightarrow> bool" where
  Start: "commands s = [] \<Longrightarrow> commits s = [] \<Longrightarrow> rating_reach s"
| Step: "rating_reach s \<Longrightarrow> rating_step s s' \<Longrightarrow> rating_reach s'"

lemma queue_ok_add_command:
  assumes "queue_ok s" "cmd_id k = next_command s" "cmd_status k = Cmd_Pending"
  shows "queue_ok (s\<lparr>commands := commands s @ [k], next_command := next_command s + 1\<rparr>)"
  using assms by (fastforce simp: queue_ok_def)

lemma enqueue_queue_ok: "queue_ok s \<Longrightarrow> enqueue_runner_command now s name body = (s', i) \<Longrightarrow> queue_ok s'"
  by (auto simp: enqueue_runner_command_def intro!: queue_ok_add_command)

lemma queue_ok_commits:
  assumes "queue_ok s" "\<forall>c\<in>set (commits s'). c \<in> set (commits s)
      \<or> commit_status c = Commit_Pending \<and> (\<exists>k\<in>set (commands s). answers c k)"
    and "commands s' = commands s" "next_command s' = next_command s"
  shows "queue_ok s'"
  using assms by (fastforce simp: queue_ok_def)

lemma request_one_queue_ok:
  assumes "queue_ok s" "request_one now t (s, n) l = Inr (s', n')"
  shows "queue_ok s'"
proof (cases "waits_already s (commit_of s (tour_id t) l)")
  case True
  then show ?thesis using assms by (auto simp: request_one_def result_simps Let_def)
next
  case False
  obtain s1 i where e: "enqueue_runner_command now s ''commit_tournament_results'' (commit_payload (tour_id t) l) = (s1, i)"
    by fastforce
  show ?thesis
    by (rule queue_ok_commits [OF enqueue_queue_ok [OF assms(1) e]])
      (use assms(2) False e in \<open>auto simp: request_one_def result_simps Let_def enqueue_runner_command_def answers_def
        split: if_splits\<close>)
qed

lemma request_queue_ok:
  assumes "queue_ok s" "request_tournament_rating_commit now s t wanted = Inr (s', n)"
  shows "queue_ok s'"
proof -
  obtain selected where "fold_result (request_one now t) (s, 0) selected = Inr (s', n)"
    using assms(2) by (auto simp: request_tournament_rating_commit_def result_simps Let_def)
  then have "queue_ok (fst (s', n))"
    by (rule fold_result_invariant [where P = "\<lambda>p. queue_ok (fst p)"])
      (use assms(1) request_one_queue_ok in \<open>auto\<close>)
  then show ?thesis by simp
qed

lemma uncommit_queue_ok:
  assumes "queue_ok s" "uncommit_tournament_ratings s t wanted = Inr s'"
  shows "queue_ok s'"
  by (rule queue_ok_commits [OF assms(1)])
    (use assms(2) in \<open>auto simp: uncommit_tournament_ratings_def result_simps Let_def split: option.splits if_splits\<close>)

lemma process_queue_ok:
  "queue_ok s \<Longrightarrow> process_pending_runner_commands now s = (s', r) \<Longrightarrow> queue_ok s'"
  using process_commands_answers [where s = s and now = now and r = "\<lparr>applied_commands = 0, failed_commands = 0, report_errors = [], report_commits = []\<rparr>"]
  by (auto simp: process_pending_runner_commands_def)

lemma rating_reach_queue_ok: "rating_reach s \<Longrightarrow> queue_ok s"
proof (induction rule: rating_reach.induct)
  case (Start s)
  then show ?case by (simp add: queue_ok_def)
next
  case (Step s s')
  from Step.hyps(2) Step.IH show ?case
    by (cases rule: rating_step.cases)
      (auto intro: request_queue_ok process_queue_ok uncommit_queue_ok enqueue_queue_ok, simp add: queue_ok_def)
qed

text \<open>
  C24: Every request is answered.  Whatever was requested, enqueued, processed or removed before,
  processing the queue returns, leaves no command waiting, counts every one that waited as applied
  or failed, and every commit of the table, none of which disappears, is then applied or failed.
\<close>

theorem requests_answered:
  assumes "rating_reach s" and "process_pending_runner_commands now s = (s', r)"
  shows "waiting_commands s' = [] \<and> (\<forall>c\<in>set (commits s'). commit_status c \<in> {Commit_Applied, Commit_Failed})
    \<and> list_all2 same_commit (commits s') (commits s)
    \<and> applied_commands r + failed_commands r = length (waiting_commands s)"
proof -
  note ok = rating_reach_queue_ok [OF assms(1)]
  have p: "waiting_commands s' = []" "queue_ok s'" "list_all2 same_commit (commits s') (commits s)"
    "applied_commands r + failed_commands r = length (waiting_commands s)"
    using process_commands_answers [where now = now and r = "\<lparr>applied_commands = 0, failed_commands = 0, report_errors = [], report_commits = []\<rparr>", OF ok] assms(2)
    by (auto simp: process_pending_runner_commands_def)
  have "commit_status c \<in> {Commit_Applied, Commit_Failed}" if "c \<in> set (commits s')" for c
  proof -
    have "commit_status c \<noteq> Commit_Pending"
      using p(1,2) that by (fastforce simp: queue_ok_def waiting_commands_def answers_def filter_empty_conv)
    moreover have "commit_status c \<noteq> Commit_Claimed" using p(2) that by (simp add: queue_ok_def)
    ultimately show ?thesis by (cases "commit_status c") auto
  qed
  then show ?thesis using p by auto
qed

subsection \<open>Repeating a request\<close>

lemma find_put:
  "\<not> (t = commit_tournament row \<and> l = commit_list row) \<Longrightarrow>
    List.find (commit_key t l) (map (\<lambda>c. if same_commit c row then row else c) cs) = List.find (commit_key t l) cs"
  "List.find (commit_key (commit_tournament row) (commit_list row)) cs \<noteq> None \<Longrightarrow>
    List.find (commit_key (commit_tournament row) (commit_list row)) (map (\<lambda>c. if same_commit c row then row else c) cs)
      = Some row"
  by (induction cs) (auto simp: commit_key_def same_commit_def)

definition waits_for :: "rating_state \<Rightarrow> int \<Rightarrow> int \<Rightarrow> bool" where
  "waits_for s t l = waits_already s (commit_of s t l)"

definition put_commit :: "commit_row \<Rightarrow> rating_state \<Rightarrow> rating_state" where
  "put_commit row s = (if commit_of s (commit_tournament row) (commit_list row) = None
     then s\<lparr>commits := commits s @ [row]\<rparr>
     else update_commits (\<lambda>c. same_commit c row) (\<lambda>c. row) s)"

lemma commit_of_key: "commit_of s t l = List.find (commit_key t l) (commits s)"
  by (simp add: commit_of_def commit_key_def [abs_def])

lemma commit_of_put:
  "commit_of (put_commit row s) t l =
     (if t = commit_tournament row \<and> l = commit_list row then Some row else commit_of s t l)"
proof (cases "commit_of s (commit_tournament row) (commit_list row) = None")
  case True
  then show ?thesis
    by (auto simp: put_commit_def commit_of_key find_append commit_key_def split: option.splits)
next
  case False
  then show ?thesis
    using find_put(1) [of t row l "commits s"] find_put(2) [of row "commits s"] by (auto simp: put_commit_def commit_of_key)
qed

lemma put_commit_frame [simp]:
  "commands (put_commit row s) = commands s" "base (put_commit row s) = base s"
  "rating_lists (put_commit row s) = rating_lists s"
  by (simp_all add: put_commit_def)

lemma validate_cong: "rating_lists s = rating_lists s' \<Longrightarrow> validate_rating_list_variant s l c = validate_rating_list_variant s' l c"
  by (simp add: validate_rating_list_variant_def)

text \<open>One list of a request: nothing when it waits already, else a fresh command and its pending commit.\<close>

lemma request_one_cases:
  assumes "request_one now t (s, n) l = Inr (s', n')"
  obtains (waits) "validate_rating_list_variant s l (tour_config t) = Inr ()" "waits_for s (tour_id t) l" "s' = s" "n' = n"
  | (new) s1 row where "validate_rating_list_variant s l (tour_config t) = Inr ()" "\<not> waits_for s (tour_id t) l"
      "enqueue_runner_command now s ''commit_tournament_results'' (commit_payload (tour_id t) l) = (s1, next_command s)"
      "s' = put_commit row s1" "n' = n + 1" "commit_tournament row = tour_id t" "commit_list row = l"
      "commit_command row = Some (next_command s)" "commit_status row = Commit_Pending"
proof (cases "waits_for s (tour_id t) l")
  case True
  then show thesis
    using assms by (intro waits) (auto simp: request_one_def result_simps Let_def waits_for_def)
next
  case False
  obtain s1 where e: "enqueue_runner_command now s ''commit_tournament_results'' (commit_payload (tour_id t) l)
      = (s1, next_command s)"
    by (simp add: enqueue_runner_command_def)
  have same: "commit_of s1 a b = commit_of s a b" for a b
    using e by (auto simp: enqueue_runner_command_def commit_of_def)
  show thesis
    by (rule new [OF _ False e, of "\<lparr>commit_tournament = tour_id t, commit_list = l, commit_command = Some (next_command s),
             commit_status = Commit_Pending, commit_requested = now, commit_applied = None, commit_error = None\<rparr>"])
      (use assms False e in \<open>auto simp: request_one_def result_simps Let_def waits_for_def put_commit_def same_commit_def same\<close>)
qed

lemma enqueue_status:
  assumes "queue_ok s" "enqueue_runner_command now s name body = (s1, i)"
  shows "command_status_of s1 i = Some Cmd_Pending"
    "command_status_of s j = Some st \<Longrightarrow> command_status_of s1 j = Some st"
proof -
  have "List.find (\<lambda>c. cmd_id c = next_command s) (commands s) = None"
    using assms(1) by (auto simp: find_None_iff queue_ok_def)
  then show "command_status_of s1 i = Some Cmd_Pending"
    "command_status_of s j = Some st \<Longrightarrow> command_status_of s1 j = Some st"
    using assms(2) by (auto simp: enqueue_runner_command_def command_status_of_def find_append split: option.splits)
qed

lemma enqueue_frame:
  "enqueue_runner_command now s name body = (s1, i) \<Longrightarrow>
     commits s1 = commits s \<and> base s1 = base s \<and> rating_lists s1 = rating_lists s"
  by (auto simp: enqueue_runner_command_def)

lemma request_one_frame:
  assumes "request_one now t (s, n) l = Inr (s', n')"
  shows "base s' = base s \<and> rating_lists s' = rating_lists s"
  using assms by (rule request_one_cases) (auto dest: enqueue_frame)

lemma request_one_waits:
  assumes ok: "queue_ok s" and one: "request_one now t (s, n) l = Inr (s', n')"
  shows "waits_for s' (tour_id t) l" "waits_for s (tour_id t) k \<Longrightarrow> waits_for s' (tour_id t) k"
proof -
  have "waits_for s' (tour_id t) l \<and> (waits_for s (tour_id t) k \<longrightarrow> waits_for s' (tour_id t) k)"
    using one
  proof (cases rule: request_one_cases)
    case waits
    then show ?thesis by simp
  next
    case (new s1 row)
    have cmd: "command_status_of s' j = command_status_of s1 j" for j
      by (simp add: new command_status_of_def)
    have com: "commit_of s' (tour_id t) k' = (if k' = l then Some row else commit_of s (tour_id t) k')" for k'
    proof -
      have "commit_of s1 = commit_of s" using enqueue_frame [OF new(3)] by (simp add: commit_of_def [abs_def])
      then show ?thesis by (simp add: new commit_of_put)
    qed
    have here: "waits_for s' (tour_id t) l"
      using enqueue_status(1) [OF ok new(3)] by (simp add: waits_for_def waits_already_def com cmd new(8,9))
    have "waits_for s' (tour_id t) k" if "waits_for s (tour_id t) k"
      using that here enqueue_status(2) [OF ok new(3)]
      by (auto simp: waits_for_def waits_already_def com cmd split: option.splits)
    then show ?thesis using here by simp
  qed
  then show "waits_for s' (tour_id t) l" "waits_for s (tour_id t) k \<Longrightarrow> waits_for s' (tour_id t) k" by auto
qed

lemma request_all_wait:
  assumes "fold_result (request_one now t) (s, n) ls = Inr (s', n')" "queue_ok s"
  shows "base s' = base s \<and> rating_lists s' = rating_lists s
    \<and> (\<forall>l\<in>set ls. waits_for s' (tour_id t) l \<and> validate_rating_list_variant s' l (tour_config t) = Inr ())
    \<and> (\<forall>k. waits_for s (tour_id t) k \<longrightarrow> waits_for s' (tour_id t) k)"
  using assms
proof (induction ls arbitrary: s n)
  case (Cons l ls)
  obtain s1 n1 where one: "request_one now t (s, n) l = Inr (s1, n1)"
    and rest: "fold_result (request_one now t) (s1, n1) ls = Inr (s', n')"
    using Cons.prems(1) by (auto simp: result_simps)
  note ih = Cons.IH [OF rest request_one_queue_ok [OF Cons.prems(2) one]]
  have "validate_rating_list_variant s l (tour_config t) = Inr ()"
    using one by (rule request_one_cases)
  moreover have "rating_lists s' = rating_lists s"
    using ih request_one_frame [OF one] by simp
  ultimately have "validate_rating_list_variant s' l (tour_config t) = Inr ()"
    using validate_cong [of s' s] by simp
  then show ?case
    using ih request_one_frame [OF one] request_one_waits [OF Cons.prems(2) one] by auto
qed auto

lemma request_waiting:
  assumes "\<forall>l\<in>set ls. waits_for s (tour_id t) l \<and> validate_rating_list_variant s l (tour_config t) = Inr ()"
  shows "fold_result (request_one now t) (s, n) ls = Inr (s, n)"
  using assms by (induction ls) (auto simp: request_one_def waits_for_def Let_def)

text \<open>
  A request can be repeated safely: a second request for the same tournament and lists, made
  before the queue is processed, succeeds, enqueues no command and leaves everything as it is.
\<close>

theorem request_repeated:
  assumes "rating_reach s" and "request_tournament_rating_commit now s t wanted = Inr (s1, n)"
  shows "request_tournament_rating_commit later s1 t wanted = Inr (s1, 0)"
proof -
  define selected where "selected = sort (remdups (case wanted of None \<Rightarrow> matching_lists s (tour_config t) | Some ls \<Rightarrow> ls))"
  have run: "fold_result (request_one now t) (s, 0) selected = Inr (s1, n)"
    using assms(2) by (auto simp: request_tournament_rating_commit_def result_simps Let_def selected_def)
  have same: "base s1 = base s" "rating_lists s1 = rating_lists s"
    and again: "fold_result (request_one later t) (s1, 0) selected = Inr (s1, 0)"
    using request_all_wait [OF run rating_reach_queue_ok [OF assms(1)]] by (auto intro!: request_waiting)
  have "matching_lists s1 = matching_lists s"
    by (simp add: matching_lists_def [abs_def] same)
  then have sel: "sort (remdups (case wanted of None \<Rightarrow> matching_lists s1 (tour_config t) | Some ls \<Rightarrow> ls)) = selected"
    by (cases wanted) (simp_all add: selected_def)
  show ?thesis
    using assms(2) again unfolding request_tournament_rating_commit_def Let_def sel selected_def [symmetric] same
    by (simp only: rbind_eq_Inr guard_eq_Inr) blast
qed

subsection \<open>A finished tournament for examples\<close>

definition sample_ended :: tournament_record where
  "sample_ended = \<lparr>tour_id = 1, tour_name = ''cup'',
     tour_config = sample_config\<lparr>config_rules_revision := ''chess1''\<rparr>,
     tour_status = Finished, tour_started = Some ''t0'', tour_finished = Some ''t1''\<rparr>"

definition sample_played :: game_record where
  "sample_played = \<lparr>game_id = 1, game_tournament = 1, game_round = 1, game_pair = 1,
     white_engine = 7, black_engine = 3, game_match = None, game_number = 1, tiebreak = None,
     game_opening = None, game_status = Game_Finished, record_eligible = True, game_result = Some White_Won\<rparr>"

definition sample_ratings :: rating_state where
  "sample_ratings = \<lparr>base = \<lparr>tournaments = [sample_ended], games = [sample_played], matches = [], openings = [],
       rated_games = [], relay_tournaments = [], odds_tournaments = [], pinned_builds = [], engine_builds = [],
       supported_builds = [], next_game = 2, next_match = 1,
       chat = \<lparr>messages = [], events = [], next_message = 1\<rparr>, draws = sconst 0\<rparr>,
     commands = [], commits = [],
     rating_lists = [\<lparr>list_id = 4, list_name = ''blitz'', list_variant = ''standard'', list_revision = ''chess1''\<rparr>],
     history = [], next_command = 1\<rparr>"

definition sample_requested :: rating_state where
  "sample_requested = sample_ratings\<lparr>
     commands := [\<lparr>cmd_id = 1, cmd_name = ''commit_tournament_results'', cmd_payload = Some (commit_payload 1 4),
       cmd_status = Cmd_Pending, cmd_created = ''t2'', cmd_claimed = None, cmd_finished = None, cmd_error = None\<rparr>],
     commits := [\<lparr>commit_tournament = 1, commit_list = 4, commit_command = Some 1, commit_status = Commit_Pending,
       commit_requested = ''t2'', commit_applied = None, commit_error = None\<rparr>],
     next_command := 2\<rparr>"

lemma sample_request:
  "request_tournament_rating_commit ''t2'' sample_ratings sample_ended None = Inr (sample_requested, 1)"
  by (simp add: request_tournament_rating_commit_def sample_ended_def sample_ratings_def sample_requested_def
      sample_config_def matching_lists_def request_one_def validate_rating_list_variant_def commit_of_def
      waits_already_def enqueue_runner_command_def)

lemma sample_reach: "rating_reach sample_ratings" "rating_reach sample_requested"
proof -
  show start: "rating_reach sample_ratings" by (rule Start) (simp_all add: sample_ratings_def)
  show "rating_reach sample_requested" by (rule Step [OF start Request [OF sample_request]])
qed

lemma sample_game_counts: "games_to_rate (sample_requested\<lparr>commands := cs, commits := ms\<rparr>) 1 4 = Inr [sample_played]"
  by (simp add: games_to_rate_def sample_requested_def sample_ratings_def sample_ended_def sample_config_def
      get_tournament_def validate_rating_list_variant_def committable_games_def list_games_def validate_games_def
      validate_game_def sample_played_def)

lemma sample_processed:
  "map commit_status (commits (fst (process_pending_runner_commands ''t3'' sample_requested))) = [Commit_Applied]"
proof -
  let ?c = "\<lparr>cmd_id = 1, cmd_name = ''commit_tournament_results'', cmd_payload = Some (commit_payload 1 4),
       cmd_status = Cmd_Claimed, cmd_created = ''t2'', cmd_claimed = Some ''t3'', cmd_finished = None, cmd_error = None\<rparr>"
  let ?m = "\<lambda>st d. \<lparr>commit_tournament = 1, commit_list = 4, commit_command = Some 1, commit_status = st,
       commit_requested = ''t2'', commit_applied = d, commit_error = None\<rparr>"
  have claim: "claim_next_runner_command ''t3'' sample_requested = Some (sample_requested\<lparr>commands := [?c]\<rparr>, 1,
      ''commit_tournament_results'', commit_payload 1 4)"
    by (simp add: claim_next_runner_command_def sample_requested_def update_commands_def)
  have ids: "payload_id (commit_payload 1 4) ''tournament_id'' = Inr 1" "payload_id (commit_payload 1 4) ''rating_list_id'' = Inr 4"
    by (simp_all add: payload_id_def commit_payload_def)
  have "claim_rating_commit (sample_requested\<lparr>commands := [?c]\<rparr>) 1 1 4
      = Inr (sample_requested\<lparr>commands := [?c], commits := [?m Commit_Claimed None]\<rparr>)"
    by (simp add: claim_rating_commit_def commit_of_def sample_requested_def commit_key_def update_commits_def)
  then have "apply_tournament_rating_commit ''t3'' (sample_requested\<lparr>commands := [?c]\<rparr>) 1 (commit_payload 1 4)
      = Inr (sample_requested\<lparr>commands := [?c], commits := [?m Commit_Applied (Some ''t3'')]\<rparr>,
          \<lparr>result_tournament = 1, result_list = 4, games_applied = 1, engines_updated = 2\<rparr>)"
    by (simp add: apply_tournament_rating_commit_def ids sample_game_counts mark_applied_def commit_key_def
        update_commits_def engines_of_def sample_played_def)
  then obtain c m where "dispatch_runner_command ''t3'' (sample_requested\<lparr>commands := [?c]\<rparr>) 1 ''commit_tournament_results''
        (commit_payload 1 4)
      = Inr (sample_requested\<lparr>commands := [?c], commits := [?m Commit_Applied (Some ''t3'')], base := (base sample_requested)\<lparr>chat := c\<rparr>\<rparr>, m)"
    by (simp add: dispatch_runner_command_def announce_results_committed_def emit_def Let_def create_chat_message_def
        get_chat_message_def sample_requested_def sample_ratings_def)
  then have one: "process_one ''t3'' sample_requested r = Some (finish_runner_command ''t3'' 1
      (sample_requested\<lparr>commands := [?c], commits := [?m Commit_Applied (Some ''t3'')], base := (base sample_requested)\<lparr>chat := c\<rparr>\<rparr>),
      r\<lparr>applied_commands := applied_commands r + 1, report_commits := report_commits r @ [m]\<rparr>)" for r
    by (simp only: process_one_def claim option.case prod.case sum.case)
  have two: "process_one ''t3'' (finish_runner_command ''t3'' 1
      (sample_requested\<lparr>commands := [?c], commits := [?m Commit_Applied (Some ''t3'')], base := (base sample_requested)\<lparr>chat := c\<rparr>\<rparr>)) r
      = None" for r
    by (simp add: process_one_def finish_runner_command_def update_commands_def claim_next_runner_command_def)
  show ?thesis
    by (simp add: process_pending_runner_commands_def process_commands.simps one two)
      (simp add: finish_runner_command_def)
qed

lemma requests_answered_witness:
  "\<exists>s' r. process_pending_runner_commands ''t3'' sample_requested = (s', r) \<and> waiting_commands s' = []
     \<and> applied_commands r + failed_commands r = length (waiting_commands sample_requested)"
proof -
  obtain s' r where p: "process_pending_runner_commands ''t3'' sample_requested = (s', r)" by fastforce
  show ?thesis
    using requests_answered [OF sample_reach(2) p] p by blast
qed

lemma request_repeated_witness:
  "request_tournament_rating_commit ''t3'' sample_requested sample_ended None = Inr (sample_requested, 0)"
  by (rule request_repeated [OF sample_reach(1) sample_request])

end
