(* ===== verification/Elo_Games.thy ===== *)
theory Elo_Games
  imports Rating_Commits
begin

text \<open>
  The games that Elo ratings can be calculated from (\<open>_white_score\<close> and \<open>_calculable_games\<close> of
  \<open>cope/ratings.py\<close>): engines that scored nothing or everything have no finite rating, and their
  games are removed, again and again, until every engine left both scored and dropped points.
  Scores are multiples of one half, which the program's floating-point sums keep exactly.  The
  dictionaries of scores and numbers of games have a common list of keys, in order of insertion.
\<close>

definition white_score :: "game_outcome option \<Rightarrow> rat" where
  "white_score r = (case r of Some White_Won \<Rightarrow> 1 | Some Black_Won \<Rightarrow> 0 | _ \<Rightarrow> 1 / 2)"

type_synonym score_table = "(int \<Rightarrow> rat) \<times> (int \<Rightarrow> int)"

definition add_game :: "game_record \<Rightarrow> score_table \<Rightarrow> score_table" where
  "add_game g = (\<lambda>(scores, counts). let
     w = white_engine g; b = black_engine g; ws = white_score (game_result g);
     scores1 = scores(w := scores w + ws);
     scores2 = scores1(b := scores1 b + 1 - ws);
     counts1 = counts(w := counts w + 1)
   in (scores2, counts1(b := counts1 b + 1)))"

definition score_table :: "game_record list \<Rightarrow> score_table" where
  "score_table gs = fold add_game gs (\<lambda>e. 0, \<lambda>e. 0)"

definition excluded_engines :: "game_record list \<Rightarrow> int list" where
  "excluded_engines gs = (let (scores, counts) = score_table gs
   in filter (\<lambda>e. scores e = 0 \<or> scores e = of_int (counts e)) (engines_of gs))"

lemma engines_of_set: "set (engines_of gs) = white_engine ` set gs \<union> black_engine ` set gs"
  by (auto simp: engines_of_def)

lemma excluded_removes:
  assumes "excluded_engines gs \<noteq> []"
  shows "length (filter (\<lambda>g. white_engine g \<notin> set (excluded_engines gs) \<and> black_engine g \<notin> set (excluded_engines gs)) gs)
    < length gs"
proof -
  obtain e where e: "e \<in> set (excluded_engines gs)" using assms by (cases "excluded_engines gs") auto
  then have "e \<in> set (engines_of gs)" by (auto simp: excluded_engines_def Let_def split: prod.splits)
  then obtain g where "g \<in> set gs" "white_engine g = e \<or> black_engine g = e" by (auto simp: engines_of_set)
  then show ?thesis using e by (intro length_filter_less [of g]) auto
qed

function calculable_games :: "game_record list \<Rightarrow> game_record list" where
  "calculable_games remaining = (if remaining = [] then []
     else let excluded = excluded_engines remaining
       in if excluded = [] then remaining
          else calculable_games (filter (\<lambda>g. white_engine g \<notin> set excluded \<and> black_engine g \<notin> set excluded) remaining))"
  by pat_completeness auto

termination
  by (relation "measure length") (auto simp: Let_def dest: excluded_removes)

declare calculable_games.simps [simp del]

subsection \<open>Points and games of an engine\<close>

definition points_in :: "int \<Rightarrow> game_record \<Rightarrow> rat" where
  "points_in e g = (if white_engine g = e then white_score (game_result g) else 0)
     + (if black_engine g = e then 1 - white_score (game_result g) else 0)"

definition plays_in :: "int \<Rightarrow> game_record \<Rightarrow> int" where
  "plays_in e g = (if white_engine g = e then 1 else 0) + (if black_engine g = e then 1 else 0)"

definition points :: "int \<Rightarrow> game_record list \<Rightarrow> rat" where
  "points e gs = sum_list (map (points_in e) gs)"

definition played :: "int \<Rightarrow> game_record list \<Rightarrow> int" where
  "played e gs = sum_list (map (plays_in e) gs)"

lemma white_score_bounds [simp]: "0 \<le> white_score r" "white_score r \<le> 1"
  by (auto simp: white_score_def split: option.splits game_outcome.splits)

lemma points_in_bounds: "0 \<le> points_in e g" "points_in e g \<le> of_int (plays_in e g)"
  by (auto simp: points_in_def plays_in_def)

lemma fold_add_game:
  "fold add_game gs (sc, ct) = ((\<lambda>e. sc e + points e gs), (\<lambda>e. ct e + played e gs))"
proof (induction gs arbitrary: sc ct)
  case Nil
  then show ?case by (simp add: points_def played_def)
next
  case (Cons g gs)
  have "add_game g (sc, ct) = ((\<lambda>e. sc e + points_in e g), (\<lambda>e. ct e + plays_in e g))"
    by (auto simp: add_game_def Let_def points_in_def plays_in_def fun_eq_iff)
  then show ?case
    by (simp add: Cons.IH points_def played_def add.assoc)
qed

lemma score_table_eq: "score_table gs = ((\<lambda>e. points e gs), (\<lambda>e. played e gs))"
  by (simp add: score_table_def fold_add_game)

text \<open>A collection of games is balanced when every engine in it both scored and dropped points.\<close>

definition balanced :: "game_record list \<Rightarrow> bool" where
  "balanced gs = (\<forall>e\<in>set (engines_of gs). 0 < points e gs \<and> points e gs < of_int (played e gs))"

lemma points_bounds: "0 \<le> points e gs" "points e gs \<le> of_int (played e gs)"
proof -
  show "0 \<le> points e gs" unfolding points_def by (rule sum_list_nonneg) (auto simp: points_in_bounds)
  show "points e gs \<le> of_int (played e gs)"
    unfolding points_def played_def by (induction gs) (auto intro: add_mono points_in_bounds)
qed

lemma excluded_eq_Nil: "excluded_engines gs = [] \<longleftrightarrow> balanced gs"
proof -
  have "(points e gs = 0 \<or> points e gs = of_int (played e gs)) \<longleftrightarrow> \<not> (0 < points e gs \<and> points e gs < of_int (played e gs))"
    for e using points_bounds [of e gs] by auto
  then show ?thesis by (simp add: excluded_engines_def score_table_eq balanced_def filter_empty_conv)
qed

text \<open>An engine that scored nothing, or everything, did so in every part of the games.\<close>

lemma sum_mset_le_submset:
  fixes f :: "'a \<Rightarrow> rat"
  assumes "mset xs \<subseteq># mset ys" "\<And>x. 0 \<le> f x"
  shows "sum_list (map f xs) \<le> sum_list (map f ys)"
proof -
  obtain M where M: "mset ys = mset xs + M" using assms(1) by (metis subset_mset.le_iff_add)
  have "sum_list (map f ys) = sum_mset (image_mset f (mset ys))" by (simp add: sum_mset_sum_list flip: mset_map)
  also have "\<dots> = sum_list (map f xs) + sum_mset (image_mset f M)"
    by (simp add: M sum_mset_sum_list flip: mset_map)
  also have "\<dots> \<ge> sum_list (map f xs)"
    using assms(2) by (induction M) (auto simp: add_increasing)
  finally show ?thesis .
qed

lemma dropped_eq: "of_int (played e gs) - points e gs = sum_list (map (\<lambda>g. of_int (plays_in e g) - points_in e g) gs)"
  by (induction gs) (auto simp: played_def points_def)

lemma excluded_in_part:
  assumes "e \<in> set (excluded_engines gs)" "mset hs \<subseteq># mset gs" "balanced hs"
  shows "e \<notin> set (engines_of hs)"
proof
  assume "e \<in> set (engines_of hs)"
  then have h: "0 < points e hs" "points e hs < of_int (played e hs)" using assms(3) by (auto simp: balanced_def)
  have "points e hs \<le> points e gs"
    unfolding points_def by (rule sum_mset_le_submset [OF assms(2) points_in_bounds(1)])
  moreover have "of_int (played e hs) - points e hs \<le> of_int (played e gs) - points e gs"
    unfolding dropped_eq by (rule sum_mset_le_submset [OF assms(2)]) (simp add: points_in_bounds)
  moreover have "points e gs = 0 \<or> points e gs = of_int (played e gs)"
    using assms(1) by (simp add: excluded_engines_def score_table_eq)
  ultimately show False using h by auto
qed

lemma calculable_part: "mset (calculable_games gs) \<subseteq># mset gs \<and> balanced (calculable_games gs)"
proof (induction gs rule: calculable_games.induct)
  case (1 gs)
  show ?case
  proof (cases "gs = [] \<or> excluded_engines gs = []")
    case True
    then show ?thesis
      using excluded_eq_Nil [of gs] by (auto simp: calculable_games.simps [of gs] balanced_def engines_of_def)
  next
    case False
    then show ?thesis
      using 1 by (auto simp: calculable_games.simps [of gs] Let_def intro: subset_mset.order_trans [OF _ multiset_filter_subset])
  qed
qed

lemma calculable_greatest:
  "mset hs \<subseteq># mset gs \<Longrightarrow> balanced hs \<Longrightarrow> mset hs \<subseteq># mset (calculable_games gs)"
proof (induction gs rule: calculable_games.induct)
  case (1 gs)
  let ?P = "\<lambda>g. white_engine g \<notin> set (excluded_engines gs) \<and> black_engine g \<notin> set (excluded_engines gs)"
  show ?case
  proof (cases "gs = [] \<or> excluded_engines gs = []")
    case True
    then show ?thesis using 1(2) by (auto simp: calculable_games.simps [of gs])
  next
    case False
    have "?P g" if "g \<in> set hs" for g
      using excluded_in_part [OF _ 1(2,3)] that by (fastforce simp: engines_of_set)
    then have "filter_mset ?P (mset hs) = mset hs" by (simp add: filter_mset_eq_conv)
    then have "mset hs \<subseteq># mset (filter ?P gs)"
      using multiset_filter_mono [OF 1(2), of ?P] by simp
    then show ?thesis
      using False 1(1) [OF _ refl _ _ 1(3)] by (simp add: calculable_games.simps [of gs] Let_def)
  qed
qed

text \<open>
  C25: The calculable games are the largest part of the games, counted with their multiplicity, in
  which every engine both scored and dropped points: such a part, and it contains every other one.
\<close>

theorem calculable_games_greatest:
  "mset (calculable_games gs) \<subseteq># mset gs \<and> balanced (calculable_games gs)
    \<and> (\<forall>hs. mset hs \<subseteq># mset gs \<and> balanced hs \<longrightarrow> mset hs \<subseteq># mset (calculable_games gs))"
  using calculable_part calculable_greatest by blast

text \<open>Engine 3 lost its only game; without it engine 2, which had beaten it, has lost all its games.\<close>

definition sample_result :: "int \<Rightarrow> int \<Rightarrow> int \<Rightarrow> game_outcome \<Rightarrow> game_record" where
  "sample_result i white black r = \<lparr>game_id = i, game_tournament = 1, game_round = 1, game_pair = i,
     white_engine = white, black_engine = black, game_match = None, game_number = 1, tiebreak = None,
     game_opening = None, game_status = Game_Finished, record_eligible = True, game_result = Some r\<rparr>"

definition sample_results :: "game_record list" where
  "sample_results = [sample_result 1 1 4 Game_Drawn, sample_result 2 1 2 White_Won, sample_result 3 2 3 White_Won]"

lemma sample_calculable: "calculable_games sample_results = [sample_result 1 1 4 Game_Drawn]"
  by code_simp

lemma calculable_games_greatest_witness:
  "mset [sample_result 1 1 4 Game_Drawn] \<subseteq># mset (calculable_games sample_results)
    \<and> balanced [sample_result 1 1 4 Game_Drawn]"
proof -
  have "balanced [sample_result 1 1 4 Game_Drawn]" "mset [sample_result 1 1 4 Game_Drawn] \<subseteq># mset sample_results"
    by code_simp+
  then show ?thesis using calculable_games_greatest [of sample_results] by blast
qed

end
