(* ===== verification/Elo_Ratings.thy ===== *)
theory Elo_Ratings
  imports Elo_Games
begin

text \<open>
  The calculation of Elo ratings (\<open>_calculate_ratings_together\<close> of \<open>cope/ratings.py\<close>).  Floating-point
  numbers are exact reals, with \<open>10.0 ** x\<close> as \<open>10 powr x\<close> and \<open>log\<close> as \<open>ln\<close>; the dictionary of pair
  counts is an association list in order of insertion.  The loop over at most 100000 iterations is a
  recursion on the number of iterations left.
\<close>

definition expected_score :: "real \<Rightarrow> real \<Rightarrow> real" where
  "expected_score rating opponent = (let d = max (-4000) (min 4000 (rating - opponent))
   in 1 / (1 + 10 powr (- d / 400)))"

definition elo_logistic_factor :: real where
  "elo_logistic_factor = ln 10 / 400"

definition bump :: "nat \<Rightarrow> 'a::plus \<Rightarrow> 'a list \<Rightarrow> 'a list" where
  "bump i x xs = xs[i := xs ! i + x]"

text \<open>The index of an engine among the sorted engines.\<close>

definition engine_index :: "int list \<Rightarrow> int \<Rightarrow> nat" where
  "engine_index ids e = (case list_index ids e of Some i \<Rightarrow> i | None \<Rightarrow> 0)"

definition pair_of :: "int list \<Rightarrow> game_record \<Rightarrow> nat \<times> nat" where
  "pair_of ids g = (let w = engine_index ids (white_engine g); b = engine_index ids (black_engine g)
   in if w < b then (w, b) else (b, w))"

fun count_pairing :: "nat \<times> nat \<Rightarrow> ((nat \<times> nat) \<times> nat) list \<Rightarrow> ((nat \<times> nat) \<times> nat) list" where
  "count_pairing p [] = [(p, 1)]"
| "count_pairing p ((q, n) # rest) = (if q = p then (q, n + 1) # rest else (q, n) # count_pairing p rest)"

record tallies =
  t_scores :: "real list"
  t_counts :: "int list"
  t_pairs :: "((nat \<times> nat) \<times> nat) list"

definition tally_game :: "int list \<Rightarrow> game_record \<Rightarrow> tallies \<Rightarrow> tallies" where
  "tally_game ids g t = (let
     w = engine_index ids (white_engine g); b = engine_index ids (black_engine g);
     ws = real_of_rat (white_score (game_result g))
   in t\<lparr>t_scores := bump b (1 - ws) (bump w ws (t_scores t)),
        t_counts := bump b 1 (bump w 1 (t_counts t)),
        t_pairs := count_pairing (pair_of ids g) (t_pairs t)\<rparr>)"

definition tally_games :: "int list \<Rightarrow> game_record list \<Rightarrow> tallies" where
  "tally_games ids gs = fold (tally_game ids) gs
     \<lparr>t_scores = replicate (length ids) 0, t_counts = replicate (length ids) 0, t_pairs = []\<rparr>"

text \<open>Expected scores and information of all engines, from the ratings of an iteration.\<close>

definition expect_pair :: "real list \<Rightarrow> (nat \<times> nat) \<times> nat \<Rightarrow> real list \<times> real list \<Rightarrow> real list \<times> real list" where
  "expect_pair rs = (\<lambda>((i, j), count) (expected, information). let
     e = expected_score (rs ! i) (rs ! j);
     info = real count * e * (1 - e)
   in (bump j (real count * (1 - e)) (bump i (real count * e) expected),
       if i \<noteq> j then bump j info (bump i info information) else information))"

definition expectations :: "((nat \<times> nat) \<times> nat) list \<Rightarrow> real list \<Rightarrow> real list \<times> real list" where
  "expectations pairs rs = (let zeros = replicate (length rs) 0 in fold (expect_pair rs) pairs (zeros, zeros))"

definition residual :: "tallies \<Rightarrow> real list \<Rightarrow> nat \<Rightarrow> real" where
  "residual t rs k = t_scores t ! k - fst (expectations (t_pairs t) rs) ! k"

definition largest_adjustment :: "nat \<Rightarrow> tallies \<Rightarrow> real list \<Rightarrow> real" where
  "largest_adjustment fixed_index t rs = fold (\<lambda>k m. max m \<bar>400 * residual t rs k / of_int (t_counts t ! k)\<bar>)
     (filter (\<lambda>k. k \<noteq> fixed_index) [0..<length rs]) 0"

definition adjust :: "nat \<Rightarrow> tallies \<Rightarrow> real list \<Rightarrow> real list" where
  "adjust fixed_index t rs = map (\<lambda>k. let information = snd (expectations (t_pairs t) rs) ! k
     in if k = fixed_index \<or> information = 0 then rs ! k
        else rs ! k + max (-400) (min 400 (1 / 2 * residual t rs k / (elo_logistic_factor * information))))
     [0..<length rs]"

fun rating_loop :: "nat \<Rightarrow> nat \<Rightarrow> tallies \<Rightarrow> real list \<Rightarrow> real list option" where
  "rating_loop 0 fixed_index t rs = None"
| "rating_loop (Suc n) fixed_index t rs =
     (if largest_adjustment fixed_index t rs < 1 / 1000000 then Some rs
      else rating_loop n fixed_index t (adjust fixed_index t rs))"

text \<open>\<open>round(x, 6)\<close>: to the nearest millionth, half to even.\<close>

definition round6 :: "real \<Rightarrow> real" where
  "round6 x = (let y = x * 1000000; f = \<lfloor>y\<rfloor>; d = y - of_int f
   in of_int (if d < 1 / 2 then f else if 1 / 2 < d then f + 1 else if even f then f else f + 1) / 1000000)"

definition rating_engines :: "game_record list \<Rightarrow> int list" where
  "rating_engines gs = sort (engines_of gs)"

definition anchor_index :: "int list \<Rightarrow> int option \<Rightarrow> nat option" where
  "anchor_index ids anchor = (case anchor of None \<Rightarrow> None | Some e \<Rightarrow> list_index ids e)"

text \<open>The stable ratings before they are shifted and rounded, by index of the engine.\<close>

definition stable_ratings :: "game_record list \<Rightarrow> int option \<Rightarrow> real list option" where
  "stable_ratings gs anchor = (let ids = rating_engines gs;
     fixed_index = (case anchor_index ids anchor of Some i \<Rightarrow> i | None \<Rightarrow> 0)
   in rating_loop 100000 fixed_index (tally_games ids gs) (replicate (length ids) 0))"

definition rating_offset :: "game_record list \<Rightarrow> int option \<Rightarrow> real \<Rightarrow> real list \<Rightarrow> real" where
  "rating_offset gs anchor anchor_elo rs = (case anchor_index (rating_engines gs) anchor of
     Some i \<Rightarrow> anchor_elo - rs ! i | None \<Rightarrow> 1500 - sum_list rs / real (length rs))"

definition calculate_ratings_together :: "game_record list \<Rightarrow> int option \<Rightarrow> real
    \<Rightarrow> ((int \<times> real) list \<times> (int \<times> int) list) result" where
  "calculate_ratings_together all_games anchor anchor_elo =
     (if engines_of all_games = [] then Inr ([], [])
      else if (case anchor of None \<Rightarrow> False | Some e \<Rightarrow> e \<notin> set (engines_of all_games))
      then Inl (ValueError ''the Elo anchor must be a participant in the rated games'')
      else let gs = calculable_games all_games; ids = rating_engines gs in
        if ids = [] then Inr ([], [])
        else case stable_ratings gs anchor of
          None \<Rightarrow> Inl (ValueError ''the tournament results did not produce stable Elo ratings'')
        | Some rs \<Rightarrow> Inr (zip ids (map (\<lambda>r. round6 (r + rating_offset gs anchor anchor_elo rs)) rs),
            zip ids (t_counts (tally_games ids gs))))"

subsection \<open>Expected scores\<close>

lemma expected_score_sym: "expected_score a b + expected_score b a = 1"
proof -
  define m where "m = max (-4000) (min 4000 (a - b))"
  have d: "max (-4000) (min 4000 (b - a)) = - m" by (simp add: m_def max_def min_def)
  have "expected_score a b = 1 / (1 + 10 powr (- (m / 400)))" by (simp add: expected_score_def Let_def m_def)
  moreover have "expected_score b a = 1 / (1 + 10 powr (m / 400))" by (simp add: expected_score_def Let_def d)
  moreover have "(10::real) powr (- (m / 400)) = 1 / 10 powr (m / 400)" by (simp add: powr_minus_divide)
  moreover have "(10::real) powr (m / 400) > 0" by simp
  moreover have "1 / (1 + 1 / y) + 1 / (1 + y) = 1" if "y > 0" for y :: real
  proof -
    have "1 / (1 + 1 / y) = y / (1 + y)" using that by (simp add: divide_simps)
    then show ?thesis using that by (simp flip: add_divide_distrib)
  qed
  ultimately show ?thesis by metis
qed

lemma expected_score_bounds: "0 < expected_score a b" "expected_score a b < 1"
  by (auto simp: expected_score_def Let_def field_simps add_pos_pos)

subsection \<open>What the tables hold\<close>

lemma length_bump [simp]: "length (bump i x xs) = length xs"
  by (simp add: bump_def)

lemma bump_nth: "k < length xs \<Longrightarrow> bump i x xs ! k = xs ! k + (if i = k then x else (0 :: 'a :: monoid_add))"
  by (auto simp: bump_def nth_list_update)

definition score_at :: "int list \<Rightarrow> nat \<Rightarrow> game_record \<Rightarrow> real" where
  "score_at ids k g = (if engine_index ids (white_engine g) = k then real_of_rat (white_score (game_result g)) else 0)
     + (if engine_index ids (black_engine g) = k then 1 - real_of_rat (white_score (game_result g)) else 0)"

definition count_at :: "int list \<Rightarrow> nat \<Rightarrow> game_record \<Rightarrow> int" where
  "count_at ids k g = (if engine_index ids (white_engine g) = k then 1 else 0)
     + (if engine_index ids (black_engine g) = k then 1 else 0)"

lemma count_pairing_sum:
  fixes f :: "nat \<times> nat \<Rightarrow> real"
  shows "sum_list (map (\<lambda>(q, n). real n * f q) (count_pairing p ps)) = f p + sum_list (map (\<lambda>(q, n). real n * f q) ps)"
  by (induction ps rule: count_pairing.induct) (auto simp: algebra_simps)

lemma tally_fold:
  fixes f :: "nat \<times> nat \<Rightarrow> real"
  assumes "k < length (t_scores t)" "length (t_counts t) = length (t_scores t)"
  shows "t_scores (fold (tally_game ids) gs t) ! k = t_scores t ! k + sum_list (map (score_at ids k) gs)
    \<and> t_counts (fold (tally_game ids) gs t) ! k = t_counts t ! k + sum_list (map (count_at ids k) gs)
    \<and> sum_list (map (\<lambda>(q, n). real n * f q) (t_pairs (fold (tally_game ids) gs t)))
        = sum_list (map (\<lambda>(q, n). real n * f q) (t_pairs t)) + sum_list (map (\<lambda>g. f (pair_of ids g)) gs)"
  using assms
proof (induction gs arbitrary: t)
  case (Cons g gs)
  then show ?case
    by (simp add: tally_game_def Let_def bump_nth score_at_def count_at_def count_pairing_sum)
qed simp

lemma length_tally_counts: "length (t_counts (tally_games ids gs)) = length ids"
proof -
  have "length (t_counts (fold (tally_game ids) gs t)) = length (t_counts t)" for t
    by (induction gs arbitrary: t) (auto simp: tally_game_def Let_def)
  then show ?thesis by (simp add: tally_games_def)
qed

lemma tally_games_at:
  fixes f :: "nat \<times> nat \<Rightarrow> real"
  assumes "k < length ids"
  shows "t_scores (tally_games ids gs) ! k = sum_list (map (score_at ids k) gs)"
    "t_counts (tally_games ids gs) ! k = sum_list (map (count_at ids k) gs)"
    "sum_list (map (\<lambda>(q, n). real n * f q) (t_pairs (tally_games ids gs))) = sum_list (map (\<lambda>g. f (pair_of ids g)) gs)"
  using assms tally_fold [where k = k and ids = ids and gs = gs and f = f and
      t = "\<lparr>t_scores = replicate (length ids) 0, t_counts = replicate (length ids) 0, t_pairs = []\<rparr>"]
  by (simp_all add: tally_games_def)

definition pair_expected :: "real list \<Rightarrow> nat \<Rightarrow> nat \<times> nat \<Rightarrow> real" where
  "pair_expected rs k = (\<lambda>(i, j). (if i = k then expected_score (rs ! i) (rs ! j) else 0)
     + (if j = k then expected_score (rs ! j) (rs ! i) else 0))"

lemma expect_fold:
  assumes "k < length xs"
  shows "fst (fold (expect_pair rs) ps (xs, is)) ! k = xs ! k + sum_list (map (\<lambda>(q, n). real n * pair_expected rs k q) ps)"
  using assms
proof (induction ps arbitrary: xs "is")
  case (Cons p ps)
  obtain i j n where p: "p = ((i, j), n)" by (metis surj_pair)
  obtain ys js where e: "expect_pair rs p (xs, is) = (ys, js)" by fastforce
  have "1 - expected_score (rs ! i) (rs ! j) = expected_score (rs ! j) (rs ! i)"
    using expected_score_sym [of "rs ! i" "rs ! j"] by simp
  then have "length ys = length xs" "ys ! k = xs ! k + real n * pair_expected rs k (i, j)"
    using e Cons.prems by (auto simp: p expect_pair_def Let_def bump_nth pair_expected_def distrib_left)
  then show ?case
    using Cons.IH [of ys js] Cons.prems by (simp add: e [unfolded p] p)
qed simp

definition expected_at :: "int list \<Rightarrow> real list \<Rightarrow> nat \<Rightarrow> game_record \<Rightarrow> real" where
  "expected_at ids rs k g = (let w = engine_index ids (white_engine g); b = engine_index ids (black_engine g)
   in (if w = k then expected_score (rs ! w) (rs ! b) else 0) + (if b = k then expected_score (rs ! b) (rs ! w) else 0))"

lemma pair_expected_at: "pair_expected rs k (pair_of ids g) = expected_at ids rs k g"
  by (simp add: pair_expected_def pair_of_def expected_at_def Let_def)

lemma residual_games:
  assumes "k < length ids" "length rs = length ids"
  shows "residual (tally_games ids gs) rs k = sum_list (map (\<lambda>g. score_at ids k g - expected_at ids rs k g) gs)"
  using assms by (simp add: residual_def expectations_def Let_def expect_fold tally_games_at pair_expected_at sum_list_subtractf)

text \<open>Every game hands out one point, and one expected point.\<close>

lemma residuals_cancel:
  assumes "length rs = length ids"
    and "\<forall>g\<in>set gs. engine_index ids (white_engine g) < length ids \<and> engine_index ids (black_engine g) < length ids"
  shows "(\<Sum>k<length ids. residual (tally_games ids gs) rs k) = 0"
proof -
  have g: "(\<Sum>k<length ids. score_at ids k g - expected_at ids rs k g) = 0" if "g \<in> set gs" for g
    using assms that expected_score_sym [of "rs ! engine_index ids (white_engine g)" "rs ! engine_index ids (black_engine g)"]
    by (simp add: score_at_def expected_at_def Let_def sum.distrib sum_subtractf)
  have "(\<Sum>k<length ids. residual (tally_games ids gs) rs k)
      = (\<Sum>k<length ids. sum_list (map (\<lambda>g. score_at ids k g - expected_at ids rs k g) gs))"
    using assms(1) by (intro sum.cong) (auto simp: residual_games)
  also have "\<dots> = sum_list (map (\<lambda>g. \<Sum>k<length ids. score_at ids k g - expected_at ids rs k g) gs)"
    by (induction gs) (auto simp: sum.distrib)
  also have "\<dots> = 0" using g by (simp cong: map_cong)
  finally show ?thesis .
qed

lemma tally_counts_total:
  assumes "\<forall>g\<in>set gs. engine_index ids (white_engine g) < length ids \<and> engine_index ids (black_engine g) < length ids"
  shows "(\<Sum>k<length ids. t_counts (tally_games ids gs) ! k) = 2 * int (length gs)"
proof -
  have "(\<Sum>k<length ids. t_counts (tally_games ids gs) ! k) = (\<Sum>k<length ids. sum_list (map (count_at ids k) gs))"
    by (intro sum.cong) (auto simp: tally_games_at)
  also have "\<dots> = 2 * int (length gs)"
    using assms by (induction gs) (auto simp: sum.distrib count_at_def)
  finally show ?thesis .
qed

subsection \<open>Stable ratings fit the results\<close>

lemma fold_max_less:
  fixes f :: "nat \<Rightarrow> real"
  shows "fold (\<lambda>k m. max m (f k)) ks a < c \<longleftrightarrow> a < c \<and> (\<forall>k\<in>set ks. f k < c)"
  by (induction ks arbitrary: a) auto

lemma rating_loop_stable:
  "rating_loop n i t rs0 = Some rs \<Longrightarrow> length rs = length rs0 \<and> largest_adjustment i t rs < 1 / 1000000"
  by (induction n arbitrary: rs0) (auto simp: adjust_def split: if_splits)

lemma rating_engines_set: "set (rating_engines gs) = white_engine ` set gs \<union> black_engine ` set gs"
  and rating_engines_distinct: "distinct (rating_engines gs)"
  by (simp_all add: rating_engines_def engines_of_set) (simp add: engines_of_def)

lemma engine_index_nth:
  assumes "e \<in> set ids"
  shows "engine_index ids e < length ids" "ids ! engine_index ids e = e"
  using assms by (auto simp: engine_index_def list_index_None split: option.splits dest: list_index_Some)

lemma engine_index_eq:
  assumes "distinct ids" "e \<in> set ids" "f \<in> set ids"
  shows "engine_index ids e = engine_index ids f \<longleftrightarrow> e = f"
  using engine_index_nth [OF assms(2)] engine_index_nth [OF assms(3)] by metis

text \<open>The rating of an engine before the shift, and its expected points in a game.\<close>

definition raw_rating :: "game_record list \<Rightarrow> real list \<Rightarrow> int \<Rightarrow> real" where
  "raw_rating gs rs e = rs ! engine_index (rating_engines gs) e"

definition expected_in :: "(int \<Rightarrow> real) \<Rightarrow> int \<Rightarrow> game_record \<Rightarrow> real" where
  "expected_in r e g = (if white_engine g = e then expected_score (r e) (r (black_engine g)) else 0)
     + (if black_engine g = e then expected_score (r e) (r (white_engine g)) else 0)"

lemma engine_tables:
  assumes "e \<in> set (rating_engines gs)"
  defines "ids \<equiv> rating_engines gs"
  shows "sum_list (map (score_at ids (engine_index ids e)) gs) = real_of_rat (points e gs)"
    "sum_list (map (count_at ids (engine_index ids e)) gs) = played e gs"
    "sum_list (map (expected_at ids rs (engine_index ids e)) gs) = sum_list (map (expected_in (raw_rating gs rs) e) gs)"
proof -
  have idx: "engine_index ids f = engine_index ids e \<longleftrightarrow> f = e" if "f \<in> set ids" for f
    using that assms by (simp add: engine_index_eq rating_engines_distinct)
  have at: "score_at ids (engine_index ids e) g = real_of_rat (points_in e g)"
    "count_at ids (engine_index ids e) g = plays_in e g"
    "expected_at ids rs (engine_index ids e) g = expected_in (raw_rating gs rs) e g" if "g \<in> set gs" for g
    using idx [of "white_engine g"] idx [of "black_engine g"] that rating_engines_set [of gs]
    by (simp_all add: ids_def score_at_def points_in_def count_at_def plays_in_def expected_at_def expected_in_def
        raw_rating_def Let_def of_rat_add of_rat_diff)
  have score: "sum_list (map (score_at ids (engine_index ids e)) hs) = real_of_rat (points e hs)"
    and count: "sum_list (map (count_at ids (engine_index ids e)) hs) = played e hs"
    if "set hs \<subseteq> set gs" for hs
    using that by (induction hs) (auto simp: at points_def played_def of_rat_add)
  show "sum_list (map (score_at ids (engine_index ids e)) gs) = real_of_rat (points e gs)"
    "sum_list (map (count_at ids (engine_index ids e)) gs) = played e gs"
    using score count by auto
  show "sum_list (map (expected_at ids rs (engine_index ids e)) gs) = sum_list (map (expected_in (raw_rating gs rs) e) gs)"
    by (rule arg_cong [where f = sum_list]) (simp add: at)
qed

lemma played_bounds:
  assumes "e \<in> set (rating_engines gs)"
  shows "0 < played e gs" "played e gs \<le> 2 * int (length gs)"
proof -
  obtain g where g: "g \<in> set gs" "white_engine g = e \<or> black_engine g = e"
    using assms by (auto simp: rating_engines_set)
  have nonneg: "0 \<le> played e hs" for hs
    by (induction hs) (auto simp: played_def plays_in_def)
  have "plays_in e g \<le> played e gs"
    using g(1)
  proof (induction gs)
    case (Cons h hs)
    then show ?case using nonneg [of hs] by (auto simp: played_def) (auto simp: plays_in_def)
  qed simp
  then show "0 < played e gs" using g(2) by (auto simp: plays_in_def split: if_splits)
  show "played e gs \<le> 2 * int (length gs)"
    by (induction gs) (auto simp: played_def plays_in_def)
qed

lemma engine_indices_inside:
  "\<forall>g\<in>set gs. engine_index (rating_engines gs) (white_engine g) < length (rating_engines gs)
     \<and> engine_index (rating_engines gs) (black_engine g) < length (rating_engines gs)"
  by (auto simp: rating_engines_set intro!: engine_index_nth)

lemma adjustable_residual:
  assumes "largest_adjustment i (tally_games (rating_engines gs) gs) rs < 1 / 1000000"
    and "length rs = length (rating_engines gs)" "k < length (rating_engines gs)" "k \<noteq> i"
  shows "\<bar>residual (tally_games (rating_engines gs) gs) rs k\<bar>
    \<le> of_int (t_counts (tally_games (rating_engines gs) gs) ! k) / 400000000"
    "0 < t_counts (tally_games (rating_engines gs) gs) ! k"
proof -
  let ?ids = "rating_engines gs"
  let ?t = "tally_games ?ids gs"
  have idx: "engine_index ?ids (?ids ! k) = k"
    using assms(3) by (simp add: engine_index_def list_index_nth rating_engines_distinct)
  show pos: "0 < t_counts ?t ! k"
    using played_bounds(1) [of "?ids ! k" gs] engine_tables(2) [of "?ids ! k" gs] assms(3) idx
    by (simp add: tally_games_at)
  have "\<bar>400 * residual ?t rs k / of_int (t_counts ?t ! k)\<bar> < 1 / 1000000"
    using assms(1) unfolding largest_adjustment_def fold_max_less using assms(2-4) by auto
  then show "\<bar>residual ?t rs k\<bar> \<le> of_int (t_counts ?t ! k) / 400000000"
    using pos by (simp add: abs_mult abs_divide pos_divide_less_eq field_simps)
qed

lemma stable_residual:
  assumes "stable_ratings gs anchor = Some rs" "k < length (rating_engines gs)"
  shows "\<bar>residual (tally_games (rating_engines gs) gs) rs k\<bar> \<le> of_nat (length gs) / 200000000"
proof -
  let ?n = "length (rating_engines gs)" and ?t = "tally_games (rating_engines gs) gs"
  let ?c = "\<lambda>k. t_counts ?t ! k"
  define i where "i = (case anchor_index (rating_engines gs) anchor of Some i \<Rightarrow> i | None \<Rightarrow> 0)"
  have rs: "length rs = ?n" "largest_adjustment i ?t rs < 1 / 1000000"
    using rating_loop_stable [of 100000 i ?t "replicate ?n 0" rs] assms(1)
    by (simp_all add: stable_ratings_def Let_def i_def)
  note adj = adjustable_residual [OF rs(2,1)]
  have total: "(\<Sum>k<?n. ?c k) = 2 * int (length gs)"
    by (rule tally_counts_total [OF engine_indices_inside])
  have nonneg: "0 \<le> ?c j" if "j < ?n" for j
    using tally_games_at(2) [OF that, of gs] by (auto simp: count_at_def intro!: sum_list_nonneg)
  have part: "(\<Sum>j\<in>J. ?c j) \<le> 2 * int (length gs)" if "J \<subseteq> {..<?n}" for J
    unfolding total [symmetric] using that nonneg by (intro sum_mono2) auto
  show ?thesis
  proof (cases "k = i")
    case False
    have "?c k \<le> 2 * int (length gs)" using part [of "{k}"] assms(2) by simp
    then have "real_of_int (?c k) \<le> 2 * real (length gs)" by linarith
    then show ?thesis using adj(1) [OF assms(2) False] by simp
  next
    case True
    have "(\<Sum>j<?n. residual ?t rs j) = 0"
      by (rule residuals_cancel [OF rs(1) engine_indices_inside])
    then have "residual ?t rs k = - (\<Sum>j\<in>{..<?n} - {k}. residual ?t rs j)"
      using assms(2) by (simp add: sum.remove [of "{..<?n}" k])
    then have "\<bar>residual ?t rs k\<bar> \<le> (\<Sum>j\<in>{..<?n} - {k}. \<bar>residual ?t rs j\<bar>)"
      by (simp add: sum_abs)
    also have "\<dots> \<le> (\<Sum>j\<in>{..<?n} - {k}. of_int (?c j) / 400000000)"
      using adj(1) True by (intro sum_mono) auto
    also have "\<dots> = of_int (\<Sum>j\<in>{..<?n} - {k}. ?c j) / 400000000"
      by (simp add: sum_divide_distrib)
    also have "\<dots> \<le> of_int (2 * int (length gs)) / 400000000"
      by (intro divide_right_mono of_int_le_iff [THEN iffD2] part) auto
    finally show ?thesis by simp
  qed
qed

text \<open>
  C26: The ratings fit the results: when the loop ends with ratings, every engine's points differ
  from the points its ratings let it expect against its opponents by at most five billionths of
  the number of games, also for the engine whose rating is held fixed.
\<close>

theorem ratings_fit_results:
  assumes "stable_ratings gs anchor = Some rs" and "e \<in> set (engines_of gs)"
  shows "\<bar>real_of_rat (points e gs) - sum_list (map (expected_in (raw_rating gs rs) e) gs)\<bar>
    \<le> 5 / 1000000000 * real (length gs)"
proof -
  have e: "e \<in> set (rating_engines gs)" using assms(2) by (simp add: rating_engines_def)
  note idx = engine_index_nth(1) [OF e]
  have "length rs = length (rating_engines gs)"
    using assms(1) by (auto simp: stable_ratings_def Let_def dest: rating_loop_stable)
  then have "residual (tally_games (rating_engines gs) gs) rs (engine_index (rating_engines gs) e)
      = real_of_rat (points e gs) - sum_list (map (expected_in (raw_rating gs rs) e) gs)"
    using idx engine_tables(1,3) [OF e] by (simp add: residual_games sum_list_subtractf)
  then show ?thesis using stable_residual [OF assms(1) idx] by simp
qed

text \<open>One drawn game: the first iteration is stable.\<close>

lemma expected_score_even: "expected_score x x = 1 / 2"
  by (simp add: expected_score_def)

lemma rating_loop_now:
  assumes "largest_adjustment i t rs < 1 / 1000000"
  shows "rating_loop 100000 i t rs = Some rs"
proof -
  have "rating_loop (Suc n) i t rs = Some rs" for n using assms by simp
  from this [of 99999] show ?thesis by simp
qed

definition drawn_game :: "game_record list" where
  "drawn_game = [sample_result 1 1 4 Game_Drawn]"

lemma drawn_engines: "rating_engines drawn_game = [1, 4]" "calculable_games drawn_game = drawn_game"
  by code_simp+

lemma drawn_tallies:
  "tally_games [1, 4] drawn_game = \<lparr>t_scores = [1 / 2, 1 / 2], t_counts = [1, 1], t_pairs = [((0, 1), 1)]\<rparr>"
    by (simp add: tally_games_def drawn_game_def tally_game_def sample_result_def engine_index_def pair_of_def bump_def
        white_score_def of_rat_divide Let_def)

lemma drawn_stable: "stable_ratings drawn_game None = Some [0, 0]"
proof -
  have "residual \<lparr>t_scores = [1 / 2, 1 / 2], t_counts = [1, 1], t_pairs = [((0, 1), 1)]\<rparr> [0, 0] k = 0" if "k < 2" for k
    using that by (simp add: residual_def expectations_def expect_pair_def expected_score_even bump_def less_2_cases_iff Let_def)
  then have "largest_adjustment 0 \<lparr>t_scores = [1 / 2, 1 / 2], t_counts = [1, 1], t_pairs = [((0, 1), 1)]\<rparr> [0, 0] < 1 / 1000000"
    by (simp add: largest_adjustment_def fold_max_less)
  then show ?thesis
    by (simp add: stable_ratings_def Let_def drawn_engines drawn_tallies anchor_index_def rating_loop_now)
qed

lemma ratings_fit_results_witness:
  "\<bar>real_of_rat (points 1 drawn_game) - sum_list (map (expected_in (raw_rating drawn_game [0, 0]) 1) drawn_game)\<bar>
    \<le> 5 / 1000000000 * real (length drawn_game)"
  by (rule ratings_fit_results [OF drawn_stable]) code_simp

subsection \<open>The anchor\<close>

lemma round6_near: "\<bar>round6 x - x\<bar> \<le> 5 / 10000000"
proof -
  define k where "k = (let y = x * 1000000; f = \<lfloor>y\<rfloor>; d = y - of_int f
    in if d < 1 / 2 then f else if 1 / 2 < d then f + 1 else if even f then f else f + 1)"
  have "of_int \<lfloor>x * 1000000\<rfloor> \<le> x * 1000000" "x * 1000000 < of_int \<lfloor>x * 1000000\<rfloor> + 1" by linarith+
  then have "\<bar>of_int k - x * 1000000\<bar> \<le> 1 / 2"
    by (auto simp: k_def Let_def abs_le_iff)
  moreover have "round6 x = of_int k / 1000000" by (simp add: round6_def k_def Let_def)
  ultimately show ?thesis by linarith
qed

lemma calculated_cases:
  assumes "calculate_ratings_together all_games anchor elo = Inr (R, C)" "R \<noteq> []"
  defines "gs \<equiv> calculable_games all_games"
  obtains rs where "length rs = length (rating_engines gs)"
    "R = zip (rating_engines gs) (map (\<lambda>r. round6 (r + rating_offset gs anchor elo rs)) rs)"
    "C = zip (rating_engines gs) (t_counts (tally_games (rating_engines gs) gs))"
proof -
  obtain rs where rs: "stable_ratings gs anchor = Some rs"
    "R = zip (rating_engines gs) (map (\<lambda>r. round6 (r + rating_offset gs anchor elo rs)) rs)"
    "C = zip (rating_engines gs) (t_counts (tally_games (rating_engines gs) gs))"
    using assms by (auto simp: calculate_ratings_together_def Let_def split: if_splits option.splits)
  moreover have "length rs = length (rating_engines gs)"
    using rs(1) by (auto simp: stable_ratings_def Let_def dest: rating_loop_stable)
  ultimately show thesis by (intro that)
qed

text \<open>
  What is stored after a calculation that ends: a rating for exactly the engines of the
  calculable games, in order; the number of their calculable games with it; the anchor, when it is
  one of these engines, at its given Elo, and otherwise ratings with mean 1500 up to the rounding.
\<close>

theorem ratings_anchored:
  assumes "calculate_ratings_together all_games anchor elo = Inr (R, C)" and "R \<noteq> []"
  shows "map fst R = rating_engines (calculable_games all_games)
    \<and> (\<forall>(e, n)\<in>set C. n = played e (calculable_games all_games)) \<and> map fst C = map fst R
    \<and> (case anchor of Some e \<Rightarrow> e \<in> set (map fst R) \<longrightarrow> (e, round6 elo) \<in> set R | None \<Rightarrow> True)
    \<and> ((case anchor of Some e \<Rightarrow> e \<notin> set (map fst R) | None \<Rightarrow> True)
         \<longrightarrow> \<bar>sum_list (map snd R) / real (length R) - 1500\<bar> \<le> 5 / 10000000)"
proof -
  define gs where "gs = calculable_games all_games"
  let ?ids = "rating_engines gs"
  obtain rs where len: "length rs = length ?ids"
    and R: "R = zip ?ids (map (\<lambda>r. round6 (r + rating_offset gs anchor elo rs)) rs)"
    and C: "C = zip ?ids (t_counts (tally_games ?ids gs))"
    using calculated_cases [OF assms] unfolding gs_def by metis
  note facts = R C len length_tally_counts [of ?ids gs]
  have fst: "map fst R = ?ids" "map fst C = ?ids"
    using facts by (simp_all add: map_fst_zip)
  have counts: "n = played e gs" if "(e, n) \<in> set C" for e n
    using that engine_tables(2) [of e gs] list_index_nth [OF rating_engines_distinct, of _ gs]
    by (auto simp: facts in_set_zip tally_games_at engine_index_def)
  have anchored: "(e, round6 elo) \<in> set R" if an: "anchor = Some e" and mem: "e \<in> set (map fst R)" for e
  proof -
    obtain i where i: "list_index ?ids e = Some i" "i < length ?ids" "?ids ! i = e"
      using mem fst(1) by (metis in_set_conv_nth list_index_nth rating_engines_distinct)
    then have "rating_offset gs anchor elo rs = elo - rs ! i"
      using an by (simp add: rating_offset_def anchor_index_def)
    then have "R ! i = (e, round6 elo)" "i < length R" using i by (simp_all add: facts)
    then show ?thesis by (metis nth_mem)
  qed
  have mean: "\<bar>sum_list (map snd R) / real (length R) - 1500\<bar> \<le> 5 / 10000000"
    if "case anchor of Some e \<Rightarrow> e \<notin> set (map fst R) | None \<Rightarrow> True"
  proof -
    define d where "d = 1500 - sum_list rs / real (length rs)"
    have "rating_offset gs anchor elo rs = d"
      using that fst(1) by (auto simp: rating_offset_def anchor_index_def d_def list_index_None split: option.splits
          dest: list_index_None [THEN iffD2])
    then have snd: "map snd R = map (\<lambda>r. round6 (r + d)) rs" using facts by simp
    have sums: "\<bar>sum_list (map (\<lambda>r. round6 (r + d)) rs) - (sum_list rs + real (length rs) * d)\<bar>
        \<le> 5 / 10000000 * real (length rs)" for rs
    proof (induction rs)
      case (Cons r rs)
      have "real (length (r # rs)) * d = d + real (length rs) * d" by (simp add: distrib_right)
      moreover have "real (length (r # rs)) = 1 + real (length rs)" by simp
      moreover have "sum_list (map (\<lambda>r. round6 (r + d)) (r # rs)) = round6 (r + d) + sum_list (map (\<lambda>r. round6 (r + d)) rs)"
        "sum_list (r # rs) = r + sum_list rs" by simp_all
      ultimately show ?case using Cons round6_near [of "r + d"] by linarith
    qed simp
    define n where "n = real (length rs)"
    have n: "n > 0" "real (length R) = n" using assms(2) facts by (auto simp: n_def)
    have "sum_list rs + n * d = 1500 * n" using n(1) by (simp add: d_def n_def [symmetric] right_diff_distrib)
    then have "\<bar>sum_list (map snd R) - 1500 * n\<bar> \<le> 5 / 10000000 * n"
      using sums [of rs] by (simp add: snd n_def)
    moreover have "sum_list (map snd R) / n - 1500 = (sum_list (map snd R) - 1500 * n) / n"
      using n(1) by (simp add: diff_divide_distrib)
    ultimately show ?thesis using n by (simp add: abs_divide pos_divide_le_eq)
  qed
  show ?thesis
    using fst counts anchored mean unfolding gs_def by (auto split: option.splits)
qed

lemma drawn_calculated:
  "calculate_ratings_together drawn_game None 0 = Inr ([(1, 1500), (4, 1500)], [(1, 1), (4, 1)])"
proof -
  have "engines_of drawn_game \<noteq> []" by code_simp
  moreover have "round6 1500 = 1500" by (simp add: round6_def)
  ultimately show ?thesis
    by (simp add: calculate_ratings_together_def Let_def drawn_engines drawn_stable drawn_tallies rating_offset_def
        anchor_index_def)
qed

lemma ratings_anchored_witness:
  "map fst [(1, 1500 :: real), (4, 1500)] = rating_engines (calculable_games drawn_game)
    \<and> \<bar>sum_list (map snd [(1 :: int, 1500), (4, 1500)]) / real 2 - 1500\<bar> \<le> 5 / 10000000"
  using ratings_anchored [OF drawn_calculated] by simp

end
