(* ===== verification/Hand_Brain.thy ===== *)
theory Hand_Brain
  imports Game_Runner
begin

text \<open>
  \<open>cope/tournament/hand_brain.py\<close>: two engines share a side.  The brain searches and its move only
  chooses a type of piece; the hand then searches among the legal moves of that type and its move
  is played.  Each of the four engines has a clock of its own, kept under its id; a phase runs on
  the two clocks of the engines that have the phase's role.  The readings of the two searches are
  arguments, as for \<open>run_next_move\<close>.  The type of the piece on a square and the squares of a move
  belong to python-chess and are parameters.  A duck board has no piece types to ask for
  (\<open>piece_type_at\<close>): the program stops with an error there.
\<close>

record ('c, 'm) piece_lib =
  piece_type_at :: "'c \<Rightarrow> int \<Rightarrow> int option"
  move_from_square :: "'m \<Rightarrow> int"

datatype role = Brain | Hand

definition role_text :: "role \<Rightarrow> string" where
  "role_text r = (case r of Brain \<Rightarrow> ''brain'' | Hand \<Rightarrow> ''hand'')"

definition role_index :: "role \<Rightarrow> nat" where
  "role_index r = (case r of Brain \<Rightarrow> 0 | Hand \<Rightarrow> 1)"

record relay_teams =
  white_members :: "int list"
  black_members :: "int list"
  role_swap :: bool

record ('c, 'm) hand_brain =
  hb_game :: "'c game"
  hb_clocks :: "int \<Rightarrow> time_manager option"
  hb_phase :: "role option"
  active_engine :: "int option"
  brain_move :: "'m game_turn option"
  last_engine :: "int option"
  last_results :: "(int \<times> bool \<times> role \<times> string) list"
  hb_engines :: "int list"

text \<open>The clocks of a new runner, their snapshot and its restoration; \<open>now\<close> is the counter's reading.\<close>

definition new_hand_brain :: "rat \<Rightarrow> runtime_time_control \<Rightarrow> int list \<Rightarrow> 'c game \<Rightarrow> ('c, 'm) hand_brain" where
  "new_hand_brain now tc ids g = \<lparr>hb_game = g,
     hb_clocks = (\<lambda>e. if e \<in> set ids then Some (create_manager now tc) else None),
     hb_phase = None, active_engine = None, brain_move = None, last_engine = None, last_results = [], hb_engines = ids\<rparr>"

definition hb_snapshot :: "('c, 'm) hand_brain \<Rightarrow> (string \<times> clock_snapshot) list" where
  "hb_snapshot st = concat (map (\<lambda>e. case hb_clocks st e of None \<Rightarrow> [] | Some tm \<Rightarrow> [(int_str e, snapshot tm)]) (hb_engines st))"

definition hb_restore :: "(string \<times> clock_snapshot) list \<Rightarrow> ('c, 'm) hand_brain \<Rightarrow> ('c, 'm) hand_brain result" where
  "hb_restore state st = rbind (guard (set (map fst state) = set (map int_str (hb_engines st)))
       (RuntimeError ''hand and brain checkpoint must preserve all four clocks'')) (\<lambda>_.
     Inr (st\<lparr>hb_clocks := (\<lambda>e. case hb_clocks st e of None \<Rightarrow> None
       | Some tm \<Rightarrow> map_option (\<lambda>s. restore s tm) (map_of state (int_str e)))\<rparr>))"

subsection \<open>A phase\<close>

text \<open>\<open>searchmoves\<close> goes to the end of the go command, or right behind \<open>go\<close> for some engines.\<close>

definition phase_go_command :: "('c, 'm) rules \<Rightarrow> 'm game_turn list option \<Rightarrow> bool \<Rightarrow> string \<Rightarrow> string" where
  "phase_go_command R allowed first command = (case allowed of None \<Rightarrow> command
     | Some ms \<Rightarrow> (let moves = '' searchmoves '' @ join '' '' (map (turn_uci R) ms)
         in if first then ''go'' @ moves @ drop 2 command else command @ moves))"

definition phase_turn :: "('c, 'm) rules \<Rightarrow> 'm game_turn list option \<Rightarrow> bool \<Rightarrow> bool \<Rightarrow> 'm game_turn \<Rightarrow> 'c game
    \<Rightarrow> ('c game \<times> 'm game_turn option) result" where
  "phase_turn R allowed apply_move side m g =
     (if (case allowed of None \<Rightarrow> False | Some ms \<Rightarrow> m \<notin> set ms)
      then Inr (set_state (record_illegal_move side (turn_uci R m)) g, None)
      else if \<not> apply_move
      then (if \<not> legal_turn R (gs_board (g_state g)) m
            then Inr (set_state (record_illegal_move side (turn_uci R m)) g, None)
            else rbind (update_from_board R (g_state g)) (\<lambda>s. Inr (g\<lparr>g_state := s\<rparr>, Some m)))
      else play_turn R side m g)"

definition member :: "relay_teams \<Rightarrow> bool \<Rightarrow> nat \<Rightarrow> int result" where
  "member relay white i = (let
     ms = (if white then white_members relay else black_members relay);
     ms' = (if role_swap relay then rev ms else ms)
   in if i < length ms' then Inr (ms' ! i) else Inl IndexError)"

definition clock_of :: "('c, 'm) hand_brain \<Rightarrow> int \<Rightarrow> time_manager result" where
  "clock_of st e = or_error KeyError (hb_clocks st e)"

text \<open>
  A phase works on the clock objects themselves: what it leaves of the two clocks of the game is
  what the dictionary then holds, the mover's last, as the two may be one object.
\<close>

definition keep_clocks :: "bool \<Rightarrow> int \<Rightarrow> int \<Rightarrow> 'c game \<Rightarrow> (int \<Rightarrow> time_manager option) \<Rightarrow> int \<Rightarrow> time_manager option" where
  "keep_clocks side white_id black_id g clocks =
     (if side then clocks(black_id \<mapsto> black_tm g, white_id \<mapsto> white_tm g)
      else clocks(white_id \<mapsto> white_tm g, black_id \<mapsto> black_tm g))"

definition run_phase :: "('c, 'm) rules \<Rightarrow> runner_config \<Rightarrow> search_run \<Rightarrow> relay_teams \<Rightarrow> role \<Rightarrow> 'm game_turn list option
    \<Rightarrow> ('c, 'm) hand_brain \<Rightarrow> (('c, 'm) hand_brain \<times> 'm game_turn option) result" where
  "run_phase R cfg run relay role allowed st = (let side = pos_turn R (gs_board (g_state (hb_game st))) in
     rbind (member relay True (role_index role)) (\<lambda>white_id.
     rbind (member relay False (role_index role)) (\<lambda>black_id.
     rbind (clock_of st white_id) (\<lambda>wc. rbind (clock_of st black_id) (\<lambda>bc. let
       mover = (if side then white_id else black_id);
       g = (hb_game st)\<lparr>white_tm := wc, black_tm := bc\<rparr>
     in rbind (run_with (phase_turn R allowed (role = Hand)) R cfg run g) (\<lambda>(g', mv).
        Inr (st\<lparr>hb_game := g', hb_clocks := keep_clocks side white_id black_id g' (hb_clocks st),
                hb_phase := Some role, active_engine := Some mover\<rparr>, mv)))))))"

definition log_result :: "bool \<Rightarrow> role \<Rightarrow> string \<Rightarrow> ('c, 'm) hand_brain \<Rightarrow> ('c, 'm) hand_brain" where
  "log_result side role searched_fen st = (case active_engine st of None \<Rightarrow> st
     | Some e \<Rightarrow> st\<lparr>last_results := last_results st @ [(e, side, role, searched_fen)]\<rparr>)"

text \<open>The moves the hand may choose from.\<close>

definition allowed_moves :: "('c, 'm) rules \<Rightarrow> ('c, 'm) piece_lib \<Rightarrow> 'c position \<Rightarrow> 'm game_turn \<Rightarrow> 'm game_turn list result" where
  "allowed_moves R P p m = (case (p, m) of
     (Standard_Position c, Standard_Turn bm) \<Rightarrow> (let t = piece_type_at P c (move_from_square P bm)
       in Inr (map Standard_Turn (filter (\<lambda>x. piece_type_at P c (move_from_square P x) = t) (chess_legal_moves (snd R) c))))
   | _ \<Rightarrow> Inl (TypeError ''piece_type_at''))"

definition hand_brain_move :: "('c, 'm) rules \<Rightarrow> ('c, 'm) piece_lib \<Rightarrow> runner_config \<Rightarrow> search_run \<Rightarrow> search_run \<Rightarrow> relay_teams
    \<Rightarrow> ('c, 'm) hand_brain \<Rightarrow> (('c, 'm) hand_brain \<times> 'm game_turn option) result" where
  "hand_brain_move R P cfg run_brain run_hand relay st0 =
     (if is_finished (g_state (hb_game st0)) then Inr (st0, None)
      else let
        board = gs_board (g_state (hb_game st0));
        side = pos_turn R board; searched_fen = pos_fen R False board;
        st = st0\<lparr>last_results := [], brain_move := None\<rparr>
      in rbind (run_phase R cfg run_brain relay Brain None st) (\<lambda>(st1, mv). case mv of None \<Rightarrow> Inr (st1, None)
         | Some bm \<Rightarrow> let st2 = (log_result side Brain searched_fen st1)\<lparr>brain_move := Some bm\<rparr> in
           rbind (allowed_moves R P board bm) (\<lambda>allowed.
           if allowed = []
           then Inr (st2\<lparr>hb_game := set_state (record_engine_error side ''brain selected no legal piece'') (hb_game st2)\<rparr>, None)
           else rbind (run_phase R cfg run_hand relay Hand (Some allowed) st2) (\<lambda>(st3, mv3). case mv3 of None \<Rightarrow> Inr (st3, None)
             | Some m \<Rightarrow> Inr ((log_result side Hand searched_fen st3)\<lparr>last_engine := active_engine st3\<rparr>, Some m)))))"

subsection \<open>Checkpoints\<close>

lemma int_str_eq: "int_str i = int_str j \<longleftrightarrow> i = j"
  by (metis py_int_int_str option.inject)

lemma map_of_snapshots:
  assumes "e \<in> set ids" "\<forall>e\<in>set ids. clocks e \<noteq> None"
  shows "map_of (concat (map (\<lambda>e. case clocks e of None \<Rightarrow> [] | Some tm \<Rightarrow> [(int_str e, snapshot tm)]) ids)) (int_str e)
    = map_option snapshot (clocks e)"
  using assms by (induction ids) (auto simp: int_str_eq split: option.splits)

lemma snapshot_keys:
  "\<forall>e\<in>set ids. clocks e \<noteq> None \<Longrightarrow>
    map fst (concat (map (\<lambda>e. case clocks e of None \<Rightarrow> [] | Some tm \<Rightarrow> [(int_str e, snapshot tm)]) ids)) = map int_str ids"
  by (induction ids) auto

text \<open>A snapshot restores the clocks it was taken of.\<close>

lemma hb_restore_snapshot:
  assumes "dom (hb_clocks st) = set (hb_engines st)"
  shows "hb_restore (hb_snapshot st) st = Inr st"
proof -
  have some: "\<forall>e\<in>set (hb_engines st). hb_clocks st e \<noteq> None" using assms by auto
  have "set (map fst (hb_snapshot st)) = set (map int_str (hb_engines st))"
    using snapshot_keys [OF some] by (metis hb_snapshot_def)
  moreover have "(case hb_clocks st e of None \<Rightarrow> None
       | Some tm \<Rightarrow> map_option (\<lambda>s. restore s tm) (map_of (hb_snapshot st) (int_str e))) = hb_clocks st e" for e
  proof (cases "hb_clocks st e")
    case (Some tm)
    then have "e \<in> set (hb_engines st)" using assms by auto
    then show ?thesis using map_of_snapshots [OF _ some] Some by (simp add: hb_snapshot_def restore_def snapshot_def)
  qed simp
  ultimately show ?thesis by (simp add: hb_restore_def)
qed

subsection \<open>The hand plays what the brain chose\<close>

lemma update_keeps_board: "update_from_board R s = Inr s' \<Longrightarrow> gs_board s' = gs_board s"
proof -
  assume u: "update_from_board R s = Inr s'"
  then obtain s1 where s1: "record_position R s = Inr s1" by (auto simp: update_from_board_def rbind_eq_Inr)
  have "gs_board s1 = gs_board s" using s1
    by (auto simp: record_position_def reset_position_counts_def rbind_eq_Inr Let_def split: if_splits)
  then show "gs_board s' = gs_board s" using u s1
    by (cases "current_outcome R s1") (auto simp: update_from_board_def apply_outcome_def Let_def)
qed

lemma play_turn_cases:
  assumes "play_turn R side m g = Inr (g', mv)"
  shows "other_clock w g' = other_clock w g \<and> (case mv of
      None \<Rightarrow> is_finished (g_state g') \<and> gs_board (g_state g') = gs_board (g_state g)
    | Some m' \<Rightarrow> m' = m \<and> legal_turn R (gs_board (g_state g)) m
        \<and> pos_push R (gs_board (g_state g)) m = Inr (gs_board (g_state g')))"
  using assms by (auto simp: play_turn_def rbind_eq_Inr decided(3) dest: update_keeps_board split: if_splits)

lemma phase_turn_cases:
  assumes "phase_turn R allowed apply_move side m g = Inr (g', mv)"
  shows "other_clock w g' = other_clock w g \<and> (case mv of
      None \<Rightarrow> is_finished (g_state g') \<and> gs_board (g_state g') = gs_board (g_state g)
    | Some m' \<Rightarrow> m' = m \<and> legal_turn R (gs_board (g_state g)) m
        \<and> (case allowed of None \<Rightarrow> True | Some ms \<Rightarrow> m \<in> set ms)
        \<and> (if apply_move then pos_push R (gs_board (g_state g)) m = Inr (gs_board (g_state g'))
           else gs_board (g_state g') = gs_board (g_state g)))"
proof (cases "(case allowed of None \<Rightarrow> False | Some ms \<Rightarrow> m \<notin> set ms) \<or> \<not> apply_move")
  case True
  then show ?thesis
    using assms by (auto simp: phase_turn_def rbind_eq_Inr decided(3) dest: update_keeps_board
        split: if_splits option.splits)
next
  case False
  then have "play_turn R side m g = Inr (g', mv)"
    using assms by (auto simp: phase_turn_def split: option.splits if_splits)
  then show ?thesis
    using play_turn_cases [of R side m g g' mv w] False by (auto split: option.splits)
qed

lemma run_phase_cases:
  assumes "run_phase R cfg run relay role allowed st = Inr (st', mv)"
  defines "p \<equiv> gs_board (g_state (hb_game st))"
  obtains mover where "active_engine st' = Some mover" "member relay (pos_turn R p) (role_index role) = Inr mover"
    "\<forall>e. e \<noteq> mover \<longrightarrow> hb_clocks st' e = hb_clocks st e" "brain_move st' = brain_move st"
    "last_results st' = last_results st"
    "case mv of None \<Rightarrow> is_finished (g_state (hb_game st')) \<and> gs_board (g_state (hb_game st')) = p
     | Some m \<Rightarrow> legal_turn R p m \<and> (case allowed of None \<Rightarrow> True | Some ms \<Rightarrow> m \<in> set ms)
        \<and> (if role = Hand then pos_push R p m = Inr (gs_board (g_state (hb_game st')))
           else gs_board (g_state (hb_game st')) = p)"
proof -
  let ?side = "pos_turn R p"
  obtain wi bi wc bc g' where ids: "member relay True (role_index role) = Inr wi" "member relay False (role_index role) = Inr bi"
    and cl: "hb_clocks st wi = Some wc" "hb_clocks st bi = Some bc"
    and run: "run_with (phase_turn R allowed (role = Hand)) R cfg run ((hb_game st)\<lparr>white_tm := wc, black_tm := bc\<rparr>) = Inr (g', mv)"
    and st': "st' = st\<lparr>hb_game := g', hb_clocks := keep_clocks ?side wi bi g' (hb_clocks st), hb_phase := Some role,
        active_engine := Some (if ?side then wi else bi)\<rparr>"
    using assms(1) by (auto simp: run_phase_def Let_def rbind_eq_Inr clock_of_def p_def)
  let ?g = "(hb_game st)\<lparr>white_tm := wc, black_tm := bc\<rparr>"
  have out: "other_clock ?side g' = other_clock ?side ?g \<and> (case mv of
      None \<Rightarrow> is_finished (g_state g') \<and> gs_board (g_state g') = p
    | Some m \<Rightarrow> legal_turn R p m \<and> (case allowed of None \<Rightarrow> True | Some ms \<Rightarrow> m \<in> set ms)
        \<and> (if role = Hand then pos_push R p m = Inr (gs_board (g_state g')) else gs_board (g_state g') = p))"
  proof (cases "is_finished (g_state ?g)")
    case True
    then show ?thesis using run by (auto simp: run_with_def p_def)
  next
    case False
    show ?thesis
      using run False
    proof (cases rule: run_with_end)
      case over
      then show ?thesis by (simp add: end_ok_def p_def)
    next
      case (play h m)
      then have "g_state h = g_state ?g" "other_clock ?side h = other_clock ?side ?g"
        by (simp_all add: end_ok_def p_def)
      then show ?thesis
        using phase_turn_cases [OF play(2), of ?side] by (auto simp: p_def split: option.splits)
    qed
  qed
  have "hb_clocks st' e = hb_clocks st e" if "e \<noteq> (if ?side then wi else bi)" for e
    using that out cl by (cases ?side) (auto simp: st' keep_clocks_def other_clock_def)
  then show thesis
    by (intro that [of "if ?side then wi else bi"]) (use ids out in \<open>cases mv; auto simp: st'\<close>)+
qed

lemma log_result_simps [simp]:
  "hb_game (log_result side r f st) = hb_game st" "hb_clocks (log_result side r f st) = hb_clocks st"
  "brain_move (log_result side r f st) = brain_move st" "active_engine (log_result side r f st) = active_engine st"
  by (auto simp: log_result_def split: option.splits)

text \<open>
  C27: The hand plays the piece the brain chose.  When a move of a hand-and-brain game is played, the
  brain had named a legal move, and the move played is a legal move of a piece of the same type;
  it is the only change of the board.  When none is played the game is over and the board is as it
  was.  Only the clocks of the brain and of the hand of the side to move ever change.
\<close>

theorem hand_obeys_brain:
  assumes "hand_brain_move R P cfg run_brain run_hand relay st = Inr (st', mv)"
    and "gs_board (g_state (hb_game st)) = Standard_Position c"
    and "member relay (pos_turn R (Standard_Position c)) 0 = Inr brain"
    and "member relay (pos_turn R (Standard_Position c)) 1 = Inr hand"
  shows "(case mv of
      None \<Rightarrow> is_finished (g_state (hb_game st')) \<and> gs_board (g_state (hb_game st')) = Standard_Position c
    | Some m \<Rightarrow> (\<exists>b h. brain_move st' = Some (Standard_Turn b) \<and> m = Standard_Turn h
        \<and> b \<in> set (chess_legal_moves (snd R) c) \<and> h \<in> set (chess_legal_moves (snd R) c)
        \<and> piece_type_at P c (move_from_square P h) = piece_type_at P c (move_from_square P b)
        \<and> gs_board (g_state (hb_game st')) = Standard_Position (chess_push (snd R) c h)))
    \<and> (\<forall>e. e \<notin> {brain, hand} \<longrightarrow> hb_clocks st' e = hb_clocks st e)"
proof (cases "is_finished (g_state (hb_game st))")
  case True
  then show ?thesis using assms by (simp add: hand_brain_move_def)
next
  case False
  let ?side = "pos_turn R (Standard_Position c)"
  let ?st = "st\<lparr>last_results := [], brain_move := None\<rparr>"
  obtain st1 mv1 where b: "run_phase R cfg run_brain relay Brain None ?st = Inr (st1, mv1)"
    using assms(1,2) False by (auto simp: hand_brain_move_def Let_def rbind_eq_Inr)
  obtain e1 where e1: "member relay ?side 0 = Inr e1" "\<forall>e. e \<noteq> e1 \<longrightarrow> hb_clocks st1 e = hb_clocks st e"
    and out1: "case mv1 of None \<Rightarrow> is_finished (g_state (hb_game st1)) \<and> gs_board (g_state (hb_game st1)) = Standard_Position c
     | Some m \<Rightarrow> legal_turn R (Standard_Position c) m \<and> gs_board (g_state (hb_game st1)) = Standard_Position c"
    by (rule run_phase_cases [OF b]) (auto simp: assms(2) role_index_def split: option.splits)
  show ?thesis
  proof (cases mv1)
    case None
    then show ?thesis using assms b False e1 out1 by (auto simp: hand_brain_move_def Let_def)
  next
    case (Some m1)
    then obtain bm where bm: "m1 = Standard_Turn bm" "bm \<in> set (chess_legal_moves (snd R) c)"
      using out1 by (cases m1) auto
    let ?t = "piece_type_at P c (move_from_square P bm)"
    define A where "A = map Standard_Turn (filter (\<lambda>x. piece_type_at P c (move_from_square P x) = ?t) (chess_legal_moves (snd R) c))"
    let ?st2 = "(log_result ?side Brain (pos_fen R False (Standard_Position c)) st1)\<lparr>brain_move := Some m1\<rparr>"
    have allowed: "allowed_moves R P (Standard_Position c) m1 = Inr A" "A \<noteq> []"
      using bm by (auto simp: A_def allowed_moves_def Let_def filter_empty_conv)
    obtain st3 mv3 where h: "run_phase R cfg run_hand relay Hand (Some A) ?st2 = Inr (st3, mv3)"
      and last: "mv = mv3" "hb_game st' = hb_game st3" "hb_clocks st' = hb_clocks st3" "brain_move st' = brain_move st3"
      using assms(1,2) False b Some allowed
      by (auto simp: hand_brain_move_def Let_def rbind_eq_Inr split: option.splits)
    have board2: "gs_board (g_state (hb_game ?st2)) = Standard_Position c" using out1 Some by simp
    obtain e2 where e2: "member relay ?side 1 = Inr e2" "\<forall>e. e \<noteq> e2 \<longrightarrow> hb_clocks st3 e = hb_clocks ?st2 e"
      "brain_move st3 = Some m1"
      and out3: "case mv3 of None \<Rightarrow> is_finished (g_state (hb_game st3)) \<and> gs_board (g_state (hb_game st3)) = Standard_Position c
       | Some m \<Rightarrow> m \<in> set A \<and> pos_push R (Standard_Position c) m = Inr (gs_board (g_state (hb_game st3)))"
      by (rule run_phase_cases [OF h, unfolded board2]) (auto simp: role_index_def split: option.splits)
    have "\<forall>e. e \<notin> {brain, hand} \<longrightarrow> hb_clocks st' e = hb_clocks st e"
      using e1 e2 assms(3,4) last by auto
    then show ?thesis
      using out3 last e2(3) bm by (auto simp: A_def split: option.splits)
  qed
qed

text \<open>The brain asks for a pawn with e2e4, the hand plays the pawn move d2d4.\<close>

definition sample_pieces :: "(string list, string) piece_lib" where
  "sample_pieces = \<lparr>piece_type_at = (\<lambda>c sq. if sq \<in> {11, 12} then Some 1 else None),
     move_from_square = (\<lambda>m. if m = ''e2e4'' then 12 else 11)\<rparr>"

definition sample_relay :: relay_teams where
  "sample_relay = \<lparr>white_members = [5, 6], black_members = [7, 8], role_swap = True\<rparr>"

definition sample_hand_brain :: "(string list, string) hand_brain" where
  "sample_hand_brain = new_hand_brain 0 node_control [5, 6, 7, 8] sample_game"

definition sample_hand_run :: search_run where
  "sample_hand_run = sample_run\<lparr>sr_lines := [''bestmove d2d4'']\<rparr>"

lemma hand_obeys_brain_witness:
  "\<exists>st'. hand_brain_move sample_package sample_pieces sample_config sample_run sample_hand_run sample_relay sample_hand_brain
      = Inr (st', Some (Standard_Turn ''d2d4''))
    \<and> gs_board (g_state (hb_game st')) = Standard_Position [''d2d4''] \<and> hb_clocks st' 7 = hb_clocks sample_hand_brain 7"
proof -
  have "map_sum id snd (hand_brain_move sample_package sample_pieces sample_config sample_run sample_hand_run sample_relay
      sample_hand_brain) = Inr (Some (Standard_Turn ''d2d4''))" by code_simp
  then obtain st' where st': "hand_brain_move sample_package sample_pieces sample_config sample_run sample_hand_run
      sample_relay sample_hand_brain = Inr (st', Some (Standard_Turn ''d2d4''))"
    by (cases "hand_brain_move sample_package sample_pieces sample_config sample_run sample_hand_run sample_relay
      sample_hand_brain") auto
  have "case gs_board (g_state (hb_game sample_hand_brain)) of Standard_Position c \<Rightarrow> c = [] | Duck_Position b \<Rightarrow> False"
    by code_simp
  then have board: "gs_board (g_state (hb_game sample_hand_brain)) = Standard_Position []"
    by (simp split: position.splits)
  have "member sample_relay (pos_turn sample_package (Standard_Position [])) 0 = Inr 6"
    "member sample_relay (pos_turn sample_package (Standard_Position [])) 1 = Inr 5" by code_simp+
  note played = hand_obeys_brain [OF st' board this]
  show ?thesis
    using st' played by (auto simp: sample_package_def sample_rules_def)
qed

end
