(* ===== verification/Spec2Isabelle.thy ===== *)
theory Spec2Isabelle
  imports Game_Runner Tournament_Start Tournament_Finish Dispatch_Bounds Gauntlet_Rounds Benchmark_Runs Estimates Bracket_Runs Adjudication Scheduler_Progress Game_Fencing Rating_Queue Elo_Ratings Hand_Brain
begin

text \<open>
  A verification development for the chess engine tournament platform under \<open>src/cope\<close>, a Python
  program of a web application, a runner that schedules and referees tournaments, and workers that
  run the engines.  The development models the part that decides what is a legal game, who plays
  whom, who may write a game's moves, when a game or a tournament is over and what the ratings
  are; the theories translate the code function by function, under its own names, and prove what
  each part promises to the others.

  \<^bold>\<open>How the code is written down.\<close>  A function that may raise returns \<open>exn + 'a\<close> (\<open>Prelude\<close>); one that
  changes the manager or game it then raises from returns the changed object beside the exception.
  A frozen dataclass or table row is a record, an enumeration a datatype, a dictionary whose order
  matters an association list, text a list of characters (\<open>Pystring\<close>: Python's \<open>split\<close>, \<open>strip\<close>, \<open>int\<close>).
  The database is a record of tables, each the list of its rows; a query filters and sorts as its
  SQL text does.  The clock (\<open>utc_now()\<close>, the performance counter), random draws, the engine's output
  and what a transport delivers are arguments.  Floats are exact rationals (clocks, points) or reals
  (ratings).  The third-party package python-chess is a parameter: \<open>square_lib\<close> for square names
  (\<open>Chess_Lib\<close>), \<open>chess_rules\<close> for its \<open>Board\<close> (\<open>Variants\<close>) and \<open>piece_lib\<close> (\<open>Hand_Brain\<close>), with the
  documented behaviour a theorem uses as a named hypothesis.

  \<^bold>\<open>Playing a game.\<close>
  \<^item> Duck chess, \<open>cope/variants/duck.py\<close>: \<open>Duck_Turn\<close> (turns and their UCI text), \<open>Duck_Board\<close> (position, FEN
    reader, legality, enumeration), \<open>Duck_Play\<close> (FEN printer, repetition key, \<open>push\<close>, \<open>outcome\<close>, notation).
    \<open>Duck_Moves\<close> proves that enumerating and testing agree and list each legal turn once; \<open>Duck_Inv\<close>,
    \<open>Duck_Push\<close>, \<open>Duck_Castle\<close> that every board of a game is well formed; \<open>Duck_Fen\<close>, \<open>Duck_Round\<close> that a
    printed FEN is read back; \<open>Duck_Outcome\<close> when a game is over; \<open>Duck_Replay\<close> that replaying the stack
    of turns reaches the same board.
  \<^item> \<open>Variants\<close> (\<open>cope/variants/__init__.py\<close>) puts orthodox and duck positions under one type; \<open>Game_State\<close>
    (\<open>cope/tournament/game_state.py\<close>) counts positions and decides results.  Its locale \<open>replayable\<close> states
    what counting needs of a position, interpreted on both kinds of positions: the counts kept move
    by move are those of a replay.
  \<^item> \<open>Time_Control\<close> (\<open>cope/tournament/time_control.py\<close>): clocks, increments, flag fall.
    \<open>Uci_Protocol\<close> (\<open>uci.py\<close>, \<open>core/stream.py\<close>) and \<open>Engine_Results\<close> (\<open>engine_instance.py\<close>): the text sent to
    engines and read from them, its parsing and the capture of a late result.
  \<^item> \<open>Game_Runner\<close> (\<open>game_runner.py\<close>, \<open>tournament.py\<close>): one move from these parts; \<open>Hand_Brain\<close>
    (\<open>hand_brain.py\<close>): the variation with four engines, sharing \<open>run_with\<close> with it.  A move that is played is
    legal and paid for by the mover's clock; otherwise the game is lost or drawn and the board is
    untouched.
  \<^item> \<open>Adjudication\<close> (\<open>cope/runner/local.py\<close>): draws, wins and results at the move limit from the reported
    scores; adjudication is proved equal to its specification \<open>draw_agreed\<close>, \<open>win_agreed\<close>.

  \<^bold>\<open>Scheduling.\<close>
  \<^item> \<open>Validation\<close> and \<open>Model_Config\<close> (\<open>cope/core/models.py\<close>): settings with their validators.
    \<open>System_Chat\<close> (\<open>cope/chat/system.py\<close>): announcements, each key at most once.
    \<open>Tournament_Store\<close> (\<open>cope/db/repo.py\<close>): the tables the scheduler works on.
  \<^item> \<open>cope/runner/scheduler.py\<close>: \<open>Pairings\<close> (circle method), \<open>Scheduler_Games\<close>, \<open>Scheduler_Round_Robin\<close>,
    \<open>Scheduler_Gauntlet\<close> (the games of these formats), \<open>Scheduler_Joining\<close>, \<open>Scheduler_Roster\<close> (engines that
    join and leave), \<open>Swiss_Bracket\<close>, \<open>Swiss_Search\<close> (seeds, pairing search, colours), \<open>Scheduler_Rounds\<close>,
    \<open>Swiss_Rounds\<close>, \<open>Scheduler_Progress\<close> (rounds of Swiss and knockout and their advance),
    \<open>Tournament_Start\<close> (start, odds ladder of \<open>events/duck_vs_fish.py\<close>), \<open>Tournament_Finish\<close> (completion
    check of \<open>runner/local.py\<close>, leaders).  The abstract specifications are
    \<open>full_schedule\<close> (the multiset of pairings with colours that a set of participants owes each other,
    kept by every change of the roster) and \<open>matching_of\<close> (a perfect pairing, without rematch when one exists).

  \<^bold>\<open>Games in the database.\<close>  \<open>Game_Lifecycle\<close> (\<open>cope/db/repo.py\<close>, \<open>runner/local.py\<close>) has the operations on games,
  assignments, moves, checkpoints and workers.  \<open>Game_Attempts\<close> makes them the steps of a transition
  system and proves invariants of its runs; \<open>Game_Fencing\<close> states their contract, an abstract log with
  a single holder, as the locale \<open>fenced_log\<close> and proves the tables a refinement of it.

  \<^bold>\<open>Assignment to workers.\<close>  \<open>Relay_Teams\<close> (\<open>cope/events\<close>, \<open>db/events.py\<close>): teams of engine relays and
  whose turn it is.  \<open>Dispatch\<close> (\<open>runner/local.py\<close>, \<open>db/repo.py\<close>): the next game for a worker, with its
  threads and memory, reserved fixtures and local engines; \<open>Dispatch_Bounds\<close>: what it is given is
  admissible, and it is never overbooked.  \<open>Estimates\<close> (\<open>tournament/estimates.py\<close>): when a tournament will be
  over; its simulation of the queue is proved optimal.

  \<^bold>\<open>Puzzle gauntlets\<close> (\<open>cope/events/puzzle_gauntlet.py\<close>, \<open>db/events.py\<close>): \<open>Puzzle_Gauntlet\<close> has the tables and the
  rounds, \<open>Gauntlet_Rounds\<close> who survives a round, and the pause between two rounds that never ends.

  \<^bold>\<open>Hand-and-brain events\<close> (\<open>cope/events/engine_hand_brain.py\<close>, \<open>db/events.py\<close>): \<open>Brain_Bracket\<close> has the bracket of
  ten teams and its matches, \<open>Bracket_Order\<close> the dependencies between the matches, \<open>Bracket_Steps\<close> the
  invariant of the tables and \<open>Bracket_Runs\<close> the transition system: no step ever raises, the order of the
  bracket is kept, and a missing opening book stops the runner.

  \<^bold>\<open>Benchmarks\<close> (\<open>cope/db/benchmarks.py\<close>, \<open>runner/benchmark_server.py\<close>): \<open>Benchmark_Jobs\<close> has the machines, jobs
  and results with the transactions of the server; \<open>Benchmark_Runs\<close> makes them a transition system,
  with the invariant of its tables and the fencing of reports.

  \<^bold>\<open>Ratings.\<close>  \<open>Rating_Commits\<close> (\<open>cope/db/repo.py\<close>, \<open>runner/commands.py\<close>, \<open>ratings.py\<close>): requests, the command queue
  with savepoints, application and removal; \<open>Rating_Queue\<close>: every request is answered.  \<open>Elo_Games\<close>,
  \<open>Elo_Ratings\<close> (\<open>cope/ratings.py\<close>): the games that can be rated, the iteration and its fixed point.

  \<^bold>\<open>Bounds.\<close>  Loops are structural recursions or functions with a proved measure, except two.
  \<open>advance_knockout_loop\<close> takes fuel; \<open>advance_knockout\<close> gives it 2, and \<open>advance_knockout_ends\<close> proves that
  any more gives the same result and never none.  \<open>rating_loop\<close> counts the 100000 iterations of the code down
  and fails at zero, where the code raises.  The processing of the command queue, a \<open>while\<close> in
  the code, recurses with the number of waiting commands as its measure.

  \<^bold>\<open>Not modelled.\<close>  JSON metadata and payloads beyond what the program tests; SQL foreign keys and
  indexes, except cascades that are written out; the administration of engine relays and the reconciliation of
  their events; edits of the puzzles and entries of a gauntlet; the announcement of hand-and-brain events;
  storing rating histories and the error margins of
  \<open>rating_bounds.py\<close> (matrix algebra of numpy); the parsing that pydantic does before validators run;
  threads, subprocesses, sockets and containers of runner, workers and benchmarker; HTTP
  handlers, views and forms of the web application; deployment.  Where a definition leaves
  something out, the text of its theory says so.
\<close>

end
